(* ===== verification/Prelude.thy ===== *)
theory Prelude
  imports Complex_Main "HOL-Library.AList" "HOL-Library.Multiset" "HOL-Library.Sublist"
begin

text \<open>
  Shared vocabulary of the development: Python exceptions as values, insertion-ordered
  dictionaries, JSON fields, the \<open>min\<close>/\<open>max\<close>/\<open>sort\<close> built-ins with a key, the few
  string operations the code uses, and two interfaces (locales) that several components
  share: a transition system with an invariant, and a pool of bounded slots.
  Python floats are modelled as \<open>real\<close> (no rounding, no infinities), Python integers as \<open>int\<close>,
  readings of the clock as arguments of the operation that makes them.
\<close>

section \<open>Collections of facts\<close>

named_theorems frame_simps \<open>which fields an operation leaves alone\<close>
named_theorems count_simps \<open>how an operation changes a counter\<close>

section \<open>Exceptions and results\<close>

datatype exc =
    RuntimeError string
  | KeyError string
  | ValueError string
  | TypeError string
  | AssertionError string
  | Timeout string
  | RequestException string
  | OtherError string

type_synonym 'a res = "exc + 'a"

text \<open>\<open>str(e)\<close>; the string of a \<open>KeyError\<close> is the \<open>repr\<close> of its argument.\<close>

fun exc_text :: "exc \<Rightarrow> string" where
  "exc_text (RuntimeError s) = s"
| "exc_text (KeyError s) = CHR 0x27 # s @ [CHR 0x27]"
| "exc_text (ValueError s) = s"
| "exc_text (TypeError s) = s"
| "exc_text (AssertionError s) = s"
| "exc_text (Timeout s) = s"
| "exc_text (RequestException s) = s"
| "exc_text (OtherError s) = s"

text \<open>A call to another process: it may raise, and it moves that process's state \<open>'w\<close> on.\<close>

type_synonym ('w, 'q, 'r) transport = "'q \<Rightarrow> 'w \<Rightarrow> 'r res \<times> 'w"

section \<open>JSON fields\<close>

text \<open>A key of a JSON object can be missing, \<open>null\<close>, or hold a value of the expected type.\<close>

datatype 'a jfield = Absent | Null | Val 'a

fun jget :: "'a jfield \<Rightarrow> 'a \<Rightarrow> 'a option" where
  \<comment> \<open>\<open>d.get(key, default)\<close>: \<open>None\<close> when the value is \<open>null\<close>\<close>
  "jget Absent d = Some d"
| "jget Null d = None"
| "jget (Val x) d = Some x"

fun jget_or :: "int jfield \<Rightarrow> int \<Rightarrow> int \<Rightarrow> int" where
  \<comment> \<open>\<open>int(d.get(key, default) or alt)\<close>\<close>
  "jget_or Absent d alt = (if d = 0 then alt else d)"
| "jget_or Null d alt = alt"
| "jget_or (Val x) d alt = (if x = 0 then alt else x)"

fun jnum_or :: "real jfield \<Rightarrow> real" where
  \<comment> \<open>\<open>float(d.get(key, 0.0) or 0.0)\<close>\<close>
  "jnum_or (Val x) = x"
| "jnum_or _ = 0"

fun jbool :: "bool jfield \<Rightarrow> bool" where
  \<comment> \<open>truth of \<open>d.get(key, False)\<close>\<close>
  "jbool (Val b) = b"
| "jbool _ = False"

fun jstr :: "string jfield \<Rightarrow> string" where
  \<comment> \<open>\<open>str(d.get(key) or "")\<close>\<close>
  "jstr (Val s) = s"
| "jstr _ = []"

lemma jget_or_zero_zero [simp]: "jget_or f 0 0 = (case f of Val x \<Rightarrow> x | _ \<Rightarrow> 0)"
  by (cases f) auto

text \<open>JSON values the code passes on without a fixed shape.\<close>

datatype jval = JN | JB bool | JI int | JR real | JS string | JL "jval list" | JD "(string \<times> jval) list"

fun truthy :: "jval \<Rightarrow> bool" where
  "truthy JN = False"
| "truthy (JB b) = b"
| "truthy (JI i) = (i \<noteq> 0)"
| "truthy (JR r) = (r \<noteq> 0)"
| "truthy (JS s) = (s \<noteq> [])"
| "truthy (JL xs) = (xs \<noteq> [])"
| "truthy (JD d) = (d \<noteq> [])"

section \<open>Dictionaries\<close>

text \<open>A Python dictionary keeps insertion order: an association list without repeated keys.
  An update keeps the position of a key that is there and appends one that is not, which is
  what \<open>AList.update\<close> does.\<close>

type_synonym ('k, 'v) dict = "('k \<times> 'v) list"

abbreviation dget :: "('k, 'v) dict \<Rightarrow> 'k \<Rightarrow> 'v option" where
  "dget \<equiv> map_of"

abbreviation dset :: "'k \<Rightarrow> 'v \<Rightarrow> ('k, 'v) dict \<Rightarrow> ('k, 'v) dict" where
  "dset \<equiv> AList.update"

abbreviation dpop :: "'k \<Rightarrow> ('k, 'v) dict \<Rightarrow> ('k, 'v) dict" where
  "dpop \<equiv> AList.delete"

abbreviation dkeys :: "('k, 'v) dict \<Rightarrow> 'k list" where
  "dkeys d \<equiv> map fst d"

definition dget_def :: "('k, 'v) dict \<Rightarrow> 'k \<Rightarrow> 'v \<Rightarrow> 'v" where
  \<comment> \<open>\<open>d.get(k, default)\<close>\<close>
  "dget_def d k v = (case dget d k of None \<Rightarrow> v | Some x \<Rightarrow> x)"

lemma dget_dset: "dget (dset k v d) k' = (if k' = k then Some v else dget d k')"
  by (simp add: update_conv')

lemma dget_dpop: "dget (dpop k d) k' = (if k' = k then None else dget d k')"
  by (simp add: delete_conv')

lemma dget_def_dset [simp]: "dget_def (dset k v d) k' x = (if k' = k then v else dget_def d k' x)"
  by (simp add: dget_def_def dget_dset)

lemma dget_def_dpop [simp]: "dget_def (dpop k d) k' x = (if k' = k then x else dget_def d k' x)"
  by (simp add: dget_def_def dget_dpop)

lemma dkeys_set: "set (dkeys d) = {k. dget d k \<noteq> None}"
  by (auto simp: map_of_eq_None_iff)

lemma dset_fresh: "dget d k = None \<Longrightarrow> dset k v d = d @ [(k, v)]"
  by (induction d) (auto split: if_splits)

lemma dpop_append_fresh: "dget d k = None \<Longrightarrow> dpop k (d @ [(k, v)]) = d"
  by (induction d) (auto split: if_splits)

lemma length_dset: "length (dset k v d) = (if dget d k = None then Suc (length d) else length d)"
  by (induction d) auto

lemma keys_dset: "fst ` set (dset k v d) = insert k (fst ` set d)"
  by (induction d) auto

lemma distinct_dset: "distinct (dkeys d) \<Longrightarrow> distinct (dkeys (dset k v d))"
  by (rule distinct_update)

lemma distinct_dpop: "distinct (dkeys d) \<Longrightarrow> distinct (dkeys (dpop k d))"
  by (rule distinct_delete)

lemma length_dpop:
  "distinct (dkeys d) \<Longrightarrow> dget d k \<noteq> None \<Longrightarrow> Suc (length (dpop k d)) = length d"
proof (induction d)
  case (Cons p d)
  then show ?case by (cases p) (auto, blast)
qed simp

definition dmerge :: "('k, 'v) dict \<Rightarrow> ('k, 'v) dict \<Rightarrow> ('k, 'v) dict" where
  \<comment> \<open>\<open>{**d, **e}\<close>, or \<open>d.update(e)\<close>\<close>
  "dmerge d e = fold (\<lambda>(k, v). dset k v) e d"

lemma dget_dmerge_notin: "k \<notin> set (dkeys e) \<Longrightarrow> dget (dmerge d e) k = dget d k"
  unfolding dmerge_def by (induction e arbitrary: d) (auto simp: dget_dset)

text \<open>How a sum or a count over the entries changes with an update or a removal.\<close>

fun dcount :: "('k \<Rightarrow> 'v \<Rightarrow> bool) \<Rightarrow> ('k, 'v) dict \<Rightarrow> nat" where
  "dcount P [] = 0"
| "dcount P (p # d) = (if P (fst p) (snd p) then 1 else 0) + dcount P d"

lemma dcount_append [simp]: "dcount P (d @ e) = dcount P d + dcount P e"
  by (induction d) auto

lemma dcount_dset_same:
  "dget d k = Some u \<Longrightarrow> P k v = P k u \<Longrightarrow> dcount P (dset k v d) = dcount P d"
  by (induction d) (auto split: if_splits)

lemma dcount_dpop:
  "distinct (dkeys d) \<Longrightarrow> dget d k = Some v \<Longrightarrow>
   dcount P d = (if P k v then 1 else 0) + dcount P (dpop k d)"
proof (induction d)
  case (Cons p d)
  show ?case
  proof (cases "fst p = k")
    case True
    with Cons.prems have "dpop k d = d" by auto
    with True Cons.prems show ?thesis by (cases p) auto
  next
    case False
    with Cons show ?thesis by (cases p) auto
  qed
qed simp

text \<open>How many threads are in a phase.\<close>

abbreviation tally :: "('a \<Rightarrow> bool) \<Rightarrow> 'a multiset \<Rightarrow> int" where
  "tally P T \<equiv> int (size (filter_mset P T))"

lemma tally_pos: "x \<in># T \<Longrightarrow> P x \<Longrightarrow> 0 < tally P T"
  by (auto simp: nonempty_has_size [symmetric] filter_mset_eq_conv dest!: multi_member_split)

lemma tally_zero: "tally P T = 0 \<Longrightarrow> x \<in># T \<Longrightarrow> \<not> P x"
  using tally_pos by fastforce

lemma tally_ex: "0 < tally P T \<Longrightarrow> \<exists>x. x \<in># T \<and> P x"
  by (auto simp: nonempty_has_size [symmetric] dest!: multiset_nonemptyE)

section \<open>The built-ins with a key\<close>

text \<open>\<open>min(xs, key=f)\<close> and \<open>max(xs, key=f)\<close> return the first extremal element.\<close>

fun first_min :: "('a \<Rightarrow> 'b::linorder) \<Rightarrow> 'a list \<Rightarrow> 'a option" where
  "first_min f [] = None"
| "first_min f (x # xs) =
     (case first_min f xs of None \<Rightarrow> Some x | Some y \<Rightarrow> if f y < f x then Some y else Some x)"

fun first_max :: "('a \<Rightarrow> 'b::linorder) \<Rightarrow> 'a list \<Rightarrow> 'a option" where
  "first_max f [] = None"
| "first_max f (x # xs) =
     (case first_max f xs of None \<Rightarrow> Some x | Some y \<Rightarrow> if f x < f y then Some y else Some x)"

lemma first_min_None [simp]: "first_min f xs = None \<longleftrightarrow> xs = []"
  by (cases xs) (auto split: option.splits)

lemma first_max_None [simp]: "first_max f xs = None \<longleftrightarrow> xs = []"
  by (cases xs) (auto split: option.splits)

lemma first_min_Some: "first_min f xs = Some x \<Longrightarrow> x \<in> set xs \<and> (\<forall>y\<in>set xs. f x \<le> f y)"
  by (induction xs arbitrary: x) (fastforce split: option.splits if_splits)+

lemma first_max_Some: "first_max f xs = Some x \<Longrightarrow> x \<in> set xs \<and> (\<forall>y\<in>set xs. f y \<le> f x)"
  by (induction xs arbitrary: x) (fastforce split: option.splits if_splits)+

text \<open>\<open>xs.sort(key=f, reverse=True)\<close> keeps equal elements in their order.\<close>

definition sort_key_rev :: "('a \<Rightarrow> 'b::linorder) \<Rightarrow> 'a list \<Rightarrow> 'a list" where
  "sort_key_rev f xs = rev (sort_key f (rev xs))"

lemma mset_sort_key_rev [simp]: "mset (sort_key_rev f xs) = mset xs"
  by (simp add: sort_key_rev_def)

lemma set_sort_key_rev [simp]: "set (sort_key_rev f xs) = set xs"
  by (simp add: sort_key_rev_def)

lemma length_sort_key_rev [simp]: "length (sort_key_rev f xs) = length xs"
  by (simp add: sort_key_rev_def)

lemma sort_key_rev_Nil [simp]: "sort_key_rev f xs = [] \<longleftrightarrow> xs = []"
  by (metis length_0_conv length_sort_key_rev)

lemma sort_key_rev_hd:
  assumes "sort_key_rev f xs = y # ys"
  shows "y \<in> set xs" and "\<And>z. z \<in> set xs \<Longrightarrow> f z \<le> f y"
proof -
  have sorted: "sorted (map f (rev (y # ys)))"
    by (metis assms rev_rev_ident sort_key_rev_def sorted_sort_key)
  have set: "set xs = insert y (set ys)"
    by (metis assms list.simps(15) set_sort_key_rev)
  then show "y \<in> set xs" by simp
  fix z
  assume "z \<in> set xs"
  with set sorted show "f z \<le> f y" by (auto simp: sorted_append)
qed

section \<open>A transition system with an invariant\<close>

text \<open>
  The contract of every concurrent component: its initial states satisfy the invariant and
  every atomic step (a region under a lock, or the code between two awaits) keeps it.
\<close>

locale stepping =
  fixes init :: "'s \<Rightarrow> bool"
    and step :: "'s \<Rightarrow> 's \<Rightarrow> bool"
    and inv :: "'s \<Rightarrow> bool"
  assumes init_inv: "init s \<Longrightarrow> inv s"
    and step_inv: "step s t \<Longrightarrow> inv s \<Longrightarrow> inv t"
begin

lemma steps_keep: "step\<^sup>*\<^sup>* s t \<Longrightarrow> inv s \<Longrightarrow> inv t"
  by (induction rule: rtranclp_induct) (blast intro: step_inv)+

lemma reachable_inv: "init s \<Longrightarrow> step\<^sup>*\<^sup>* s t \<Longrightarrow> inv t"
  by (blast intro: steps_keep init_inv)

end

section \<open>A pool of bounded slots\<close>

text \<open>
  The contract of the counters that guard a limited resource: from a valid state, acquiring
  takes at most one slot and is refused when the limit is reached, releasing takes none, and
  neither touches the limit. A limit of zero or less is no limit.
\<close>

locale bounded_slots =
  fixes valid :: "'s \<Rightarrow> bool"
    and used :: "'s \<Rightarrow> int"
    and cap :: "'s \<Rightarrow> int"
    and acquire :: "'s \<Rightarrow> 's option"
    and release :: "'s \<Rightarrow> 's"
  assumes acquire_valid: "valid s \<Longrightarrow> acquire s = Some t \<Longrightarrow> valid t"
    and acquire_used: "acquire s = Some t \<Longrightarrow> used t \<le> used s + 1"
    and acquire_guard: "acquire s = Some t \<Longrightarrow> 0 < cap s \<Longrightarrow> used s < cap s"
    and acquire_cap: "acquire s = Some t \<Longrightarrow> cap t = cap s"
    and release_valid: "valid s \<Longrightarrow> valid (release s)"
    and release_used: "valid s \<Longrightarrow> used (release s) \<le> used s"
    and release_cap: "cap (release s) = cap s"
begin

definition in_cap :: "'s \<Rightarrow> bool" where
  "in_cap s \<longleftrightarrow> valid s \<and> (0 < cap s \<longrightarrow> used s \<le> cap s)"

fun use :: "'s \<Rightarrow> bool list \<Rightarrow> 's" where
  \<comment> \<open>a run of attempts (\<open>True\<close>: acquire, \<open>False\<close>: release)\<close>
  "use s [] = s"
| "use s (True # ops) = use (case acquire s of None \<Rightarrow> s | Some t \<Rightarrow> t) ops"
| "use s (False # ops) = use (release s) ops"

lemma acquire_in_cap: "in_cap s \<Longrightarrow> acquire s = Some t \<Longrightarrow> in_cap t"
  using acquire_used [of s t] acquire_guard [of s t] acquire_cap [of s t] acquire_valid [of s t]
  by (auto simp: in_cap_def)

lemma release_in_cap: "in_cap s \<Longrightarrow> in_cap (release s)"
  using release_used [of s] release_cap [of s] release_valid [of s] by (auto simp: in_cap_def)

lemma use_in_cap: "in_cap s \<Longrightarrow> in_cap (use s ops)"
  by (induction s ops rule: use.induct)
    (auto split: option.splits dest: acquire_in_cap release_in_cap)

lemma use_cap: "cap (use s ops) = cap s"
  by (induction s ops rule: use.induct) (auto split: option.splits simp: acquire_cap release_cap)

end

end
