(* ===== verification/PyText.thy ===== *)
theory PyText
  imports Prelude
begin

text \<open>
  The \<open>str\<close> methods and conversions the modelled code uses, on ASCII text: \<open>lower\<close>,
  \<open>strip\<close>, \<open>in\<close>, \<open>find\<close>, \<open>split\<close>/\<open>rsplit\<close> with a limit, \<open>replace\<close>, \<open>rstrip("/")\<close>,
  \<open>str(int)\<close> and the decimal \<open>int(str)\<close>.
\<close>

section \<open>Case and white space\<close>

definition code_of :: "char \<Rightarrow> nat" where
  "code_of c = of_char c"

definition lower_char :: "char \<Rightarrow> char" where
  "lower_char c = (if 65 \<le> code_of c \<and> code_of c \<le> 90 then char_of (code_of c + 32) else c)"

definition lower :: "string \<Rightarrow> string" where
  "lower s = map lower_char s"

definition is_space :: "char \<Rightarrow> bool" where
  "is_space c = (code_of c = 32 \<or> (9 \<le> code_of c \<and> code_of c \<le> 13) \<or> (28 \<le> code_of c \<and> code_of c \<le> 31))"

definition strip_set :: "(char \<Rightarrow> bool) \<Rightarrow> string \<Rightarrow> string" where
  "strip_set P s = rev (dropWhile P (rev (dropWhile P s)))"

definition strip :: "string \<Rightarrow> string" where
  "strip s = strip_set is_space s"

definition rstrip_slash :: "string \<Rightarrow> string" where
  "rstrip_slash s = rev (dropWhile (\<lambda>c. c = CHR ''/'') (rev s))"

section \<open>Searching\<close>

fun find_sub :: "string \<Rightarrow> string \<Rightarrow> nat option" where
  \<comment> \<open>\<open>s.find(m)\<close>, with \<open>None\<close> for \<open>-1\<close>\<close>
  "find_sub m [] = (if m = [] then Some 0 else None)"
| "find_sub m (c # s) =
     (if take (length m) (c # s) = m then Some 0 else map_option Suc (find_sub m s))"

definition contains :: "string \<Rightarrow> string \<Rightarrow> bool" where
  \<comment> \<open>\<open>m in s\<close>\<close>
  "contains m s = (find_sub m s \<noteq> None)"

definition starts_with :: "string \<Rightarrow> string \<Rightarrow> bool" where
  "starts_with m s = (take (length m) s = m)"

definition split_once :: "string \<Rightarrow> string \<Rightarrow> string \<times> string option" where
  \<comment> \<open>\<open>s.split(m, 1)\<close>\<close>
  "split_once m s =
     (case find_sub m s of None \<Rightarrow> (s, None) | Some i \<Rightarrow> (take i s, Some (drop (i + length m) s)))"

fun rsplit_once_char :: "char \<Rightarrow> string \<Rightarrow> (string \<times> string) option" where
  \<comment> \<open>\<open>s.rsplit(c, 1)\<close> at the last occurrence of the character\<close>
  "rsplit_once_char m [] = None"
| "rsplit_once_char m (c # s) =
     (case rsplit_once_char m s of
        Some (a, b) \<Rightarrow> Some (c # a, b)
      | None \<Rightarrow> if c = m then Some ([], s) else None)"

definition after_last :: "char \<Rightarrow> string \<Rightarrow> string" where
  \<comment> \<open>\<open>s.rsplit(c, 1)[-1]\<close>\<close>
  "after_last m s = (case rsplit_once_char m s of None \<Rightarrow> s | Some (a, b) \<Rightarrow> b)"

definition before_last :: "char \<Rightarrow> string \<Rightarrow> string" where
  \<comment> \<open>\<open>s.rsplit(c, 1)[0]\<close>\<close>
  "before_last m s = (case rsplit_once_char m s of None \<Rightarrow> s | Some (a, b) \<Rightarrow> a)"

fun replace_fuel :: "nat \<Rightarrow> string \<Rightarrow> string \<Rightarrow> string \<Rightarrow> string" where
  "replace_fuel 0 old new s = s"
| "replace_fuel (Suc n) old new [] = []"
| "replace_fuel (Suc n) old new (c # s) =
     (if old \<noteq> [] \<and> take (length old) (c # s) = old
      then new @ replace_fuel n old new (drop (length old) (c # s))
      else c # replace_fuel n old new s)"

definition replace_all :: "string \<Rightarrow> string \<Rightarrow> string \<Rightarrow> string" where
  \<comment> \<open>\<open>s.replace(old, new)\<close>; every call consumes a character, so the length is enough fuel\<close>
  "replace_all old new s = replace_fuel (length s) old new s"

lemma find_sub_Some:
  "find_sub m s = Some i \<Longrightarrow> take (length m) (drop i s) = m \<and> i \<le> length s"
  by (induction m s arbitrary: i rule: find_sub.induct) (auto split: if_splits)

lemma contains_iff_sublist: "contains m s \<longleftrightarrow> sublist m s"
proof (induction m s rule: find_sub.induct)
  case (1 m)
  then show ?case by (auto simp: contains_def)
next
  case (2 m c s)
  have "take (length m) (c # s) = m \<longleftrightarrow> prefix m (c # s)"
    by (metis append_eq_conv_conj prefix_def take_is_prefix)
  then show ?case
    using 2 by (auto simp: contains_def sublist_Cons_right)
qed

lemma starts_with_prefix: "starts_with m s \<longleftrightarrow> prefix m s"
  by (metis starts_with_def append_eq_conv_conj prefix_def take_is_prefix)

section \<open>Numbers\<close>

function digits_of :: "nat \<Rightarrow> string" where
  "digits_of n = (if n < 10 then [char_of (n + 48)] else digits_of (n div 10) @ [char_of (n mod 10 + 48)])"
  by pat_completeness auto
termination
  by (relation "measure id") auto

declare digits_of.simps [simp del]

definition str_int :: "int \<Rightarrow> string" where
  "str_int i = (if i < 0 then CHR ''-'' # digits_of (nat (- i)) else digits_of (nat i))"

definition is_digit :: "char \<Rightarrow> bool" where
  "is_digit c = (48 \<le> code_of c \<and> code_of c \<le> 57)"

definition all_digits :: "string \<Rightarrow> bool" where
  \<comment> \<open>\<open>s.isdigit()\<close>\<close>
  "all_digits s = (s \<noteq> [] \<and> list_all is_digit s)"

definition nat_of_digits :: "string \<Rightarrow> nat" where
  "nat_of_digits s = foldl (\<lambda>n c. 10 * n + (code_of c - 48)) 0 s"

definition str_bool :: "bool \<Rightarrow> string" where
  "str_bool b = (if b then ''True'' else ''False'')"

lemma code_of_char_of [simp]: "n < 256 \<Longrightarrow> code_of (char_of n) = n"
  by (simp add: code_of_def)

lemma nat_of_digits_snoc: "nat_of_digits (s @ [c]) = 10 * nat_of_digits s + (code_of c - 48)"
  by (simp add: nat_of_digits_def)

lemma nat_of_digits_of [simp]: "nat_of_digits (digits_of n) = n"
proof (induction n rule: digits_of.induct)
  case (1 n)
  then show ?case
    by (subst digits_of.simps) (auto simp: nat_of_digits_snoc nat_of_digits_def)
qed

lemma digits_of_inject: "digits_of m = digits_of n \<longleftrightarrow> m = n"
  by (metis nat_of_digits_of)

lemma all_digits_of: "all_digits (digits_of n)"
proof (induction n rule: digits_of.induct)
  case (1 n)
  then show ?case
    by (subst digits_of.simps) (auto simp: all_digits_def is_digit_def)
qed

end
