(* ===== verification/Pool_Server.thy ===== *)
theory Pool_Server
  imports PyText
begin

text \<open>
  The environment pool server (\<open>swe-rl/server/swe_env_pool_server.py\<close>): the nodes and
  leases it keeps, and one definition per operation of \<open>SweEnvPool\<close>. Objects the Python
  shares by reference are named by their position (a node by its index in \<open>self.nodes\<close>) or
  their key (a lease by its id; ids are fresh, so \<open>self._leases.get(id) is lease\<close> is
  "the id is still there"). Calls to an exec server are transports: functions from the
  request and the state of the exec servers to the reply and their next state.
\<close>

section \<open>State\<close>

record exec_node =
  nd_url :: string
  nd_active_containers :: int
  nd_max_containers :: int
  nd_healthy :: bool
  nd_last_health_check :: real
  nd_consecutive_health_check_failures :: int

record lease =
  ls_lease_id :: string
  ls_node_url :: string
  ls_container_id :: string
  ls_image :: string
  ls_instance_id :: string
  ls_cwd :: string
  ls_base_image :: "string option"
  ls_current_image :: "string option"
  ls_generation :: int
  ls_latest_ready_checkpoint_id :: "string option"
  ls_latest_checkpoint_step_idx :: int
  ls_rerun_count :: int
  ls_last_rerun_at :: "real option"
  ls_created_at :: real
  ls_last_heartbeat :: real

record pool =
  pl_nodes :: "exec_node list"
  pl_leases :: "(string, lease) dict"
  pl_max_total_leases :: int
  pl_max_concurrent_allocates :: int
  pl_allocate_min_interval_sec :: real
  pl_create_timeout_sec :: real
  pl_health_check_timeout_sec :: real
  pl_health_check_failure_threshold :: int
  pl_pending_allocations :: int
  pl_last_allocate_ts :: real

definition new_node :: "string \<Rightarrow> int \<Rightarrow> exec_node" where
  "new_node url maxc = \<lparr>nd_url = url, nd_active_containers = 0, nd_max_containers = maxc,
     nd_healthy = True, nd_last_health_check = 0, nd_consecutive_health_check_failures = 0\<rparr>"

definition new_pool :: "string list \<Rightarrow> int \<Rightarrow> int \<Rightarrow> int \<Rightarrow> real \<Rightarrow> real \<Rightarrow> real \<Rightarrow> int \<Rightarrow> pool" where
  "new_pool urls max_containers_per_node max_total_leases max_concurrent_allocates
     allocate_min_interval_sec create_timeout_sec health_check_timeout_sec
     health_check_failure_threshold =
   \<lparr>pl_nodes = map (\<lambda>url. new_node (rstrip_slash url) max_containers_per_node) urls,
    pl_leases = [],
    pl_max_total_leases = max 0 max_total_leases,
    pl_max_concurrent_allocates = max 1 max_concurrent_allocates,
    pl_allocate_min_interval_sec = max 0 allocate_min_interval_sec,
    pl_create_timeout_sec = max 1 create_timeout_sec,
    pl_health_check_timeout_sec = max 1 health_check_timeout_sec,
    pl_health_check_failure_threshold = max 1 health_check_failure_threshold,
    pl_pending_allocations = 0,
    pl_last_allocate_ts = 0\<rparr>"

section \<open>Talking to an exec server\<close>

datatype 'r body = NotJson string | JsonDict 'r | JsonOther string

record 'r http_response =
  status_code :: int
  resp_body :: "'r body"

definition raises_for_status :: "int \<Rightarrow> bool" where
  "raises_for_status st = (400 \<le> st \<and> st < 600)"

definition http_error :: "int \<Rightarrow> exc" where
  "http_error st = RequestException (''HTTP status '' @ str_int st)"

definition post_exec :: "('w, 'q, 'r http_response) transport \<Rightarrow> ('w, 'q, 'r) transport" where
  "post_exec http q w =
     (case http q w of
        (Inl e, w') \<Rightarrow> (Inl e, w')
      | (Inr resp, w') \<Rightarrow>
          (case resp_body resp of
             NotJson text \<Rightarrow>
               (if raises_for_status (status_code resp) then (Inl (http_error (status_code resp)), w')
                else (Inl (RuntimeError (''Exec server returned a non-JSON response: '' @ take 200 text)), w'))
           | JsonDict r \<Rightarrow> (Inr r, w')
           | JsonOther text \<Rightarrow>
               (if 400 \<le> status_code resp \<and> raises_for_status (status_code resp)
                then (Inl (http_error (status_code resp)), w')
                else (Inl (RuntimeError (''Exec server returned an unexpected JSON payload: '' @ text)), w'))))"

definition get_exec :: "('w, 'q, 'r http_response) transport \<Rightarrow> ('w, 'q, 'r) transport" where
  "get_exec http q w =
     (case http q w of
        (Inl e, w') \<Rightarrow> (Inl e, w')
      | (Inr resp, w') \<Rightarrow>
          (if raises_for_status (status_code resp) then (Inl (http_error (status_code resp)), w')
           else (case resp_body resp of
                   JsonDict r \<Rightarrow> (Inr r, w')
                 | NotJson text \<Rightarrow> (Inl (ValueError text), w')
                 | JsonOther text \<Rightarrow> (Inl (OtherError text), w'))))"

section \<open>Node reservations\<close>

definition upd_node :: "nat \<Rightarrow> (exec_node \<Rightarrow> exec_node) \<Rightarrow> pool \<Rightarrow> pool" where
  "upd_node i f p = p\<lparr>pl_nodes := (pl_nodes p)[i := f (pl_nodes p ! i)]\<rparr>"

definition node_has_room :: "exec_node \<Rightarrow> bool" where
  "node_has_room n \<longleftrightarrow>
     nd_healthy n \<and> (nd_max_containers n \<le> 0 \<or> nd_active_containers n < nd_max_containers n)"

definition node_candidates :: "pool \<Rightarrow> nat list" where
  "node_candidates p = filter (\<lambda>i. node_has_room (pl_nodes p ! i)) [0..<length (pl_nodes p)]"

definition repr_node :: "exec_node \<Rightarrow> string" where
  "repr_node n = ''('' @ [CHR 0x27] @ nd_url n @ [CHR 0x27] @ '', '' @ str_int (nd_active_containers n) @
     '', '' @ str_bool (nd_healthy n) @ '')''"

definition no_node_msg :: "pool \<Rightarrow> string" where
  "no_node_msg p = ''All exec nodes are full or unhealthy. nodes=['' @
     concat (map (\<lambda>n. repr_node n @ '', '') (butlast (pl_nodes p))) @
     (if pl_nodes p = [] then '''' else repr_node (last (pl_nodes p))) @ '']''"

definition pick_and_reserve_node :: "pool \<Rightarrow> (nat \<times> pool) res" where
  "pick_and_reserve_node p =
     (case first_min (\<lambda>i. nd_active_containers (pl_nodes p ! i)) (node_candidates p) of
        None \<Rightarrow> Inl (RuntimeError (no_node_msg p))
      | Some i \<Rightarrow>
          Inr (i, upd_node i (\<lambda>n. n\<lparr>nd_active_containers := nd_active_containers n + 1\<rparr>) p))"

definition unreserve_node :: "nat \<Rightarrow> pool \<Rightarrow> pool" where
  "unreserve_node i p =
     upd_node i (\<lambda>n. n\<lparr>nd_active_containers := max 0 (nd_active_containers n - 1)\<rparr>) p"

definition find_node :: "string \<Rightarrow> pool \<Rightarrow> nat option" where
  "find_node url p = find (\<lambda>i. nd_url (pl_nodes p ! i) = url) [0..<length (pl_nodes p)]"

section \<open>The global lease limit\<close>

definition inflight :: "pool \<Rightarrow> int" where
  "inflight p = int (length (pl_leases p)) + pl_pending_allocations p"

definition lease_limit_msg :: "int \<Rightarrow> int \<Rightarrow> string" where
  "lease_limit_msg n m = ''Global lease limit reached ('' @ str_int n @ ''>='' @ str_int m @
     ''). Please lower rollout concurrency or increase SWE_POOL_MAX_TOTAL_LEASES.''"

definition reserve_total_slot :: "pool \<Rightarrow> pool res" where
  "reserve_total_slot p =
     (if pl_max_total_leases p \<le> 0 then Inr p
      else if pl_max_total_leases p \<le> inflight p
      then Inl (RuntimeError (lease_limit_msg (inflight p) (pl_max_total_leases p)))
      else Inr (p\<lparr>pl_pending_allocations := pl_pending_allocations p + 1\<rparr>))"

definition release_total_slot :: "pool \<Rightarrow> pool" where
  "release_total_slot p =
     (if pl_max_total_leases p \<le> 0 then p
      else p\<lparr>pl_pending_allocations := max 0 (pl_pending_allocations p - 1)\<rparr>)"

text \<open>The first reading of the clock, the sleep it asks for, and the second reading.\<close>

definition throttle_wait :: "real \<Rightarrow> pool \<Rightarrow> real" where
  "throttle_wait now p = max 0 (pl_allocate_min_interval_sec p - (now - pl_last_allocate_ts p))"

definition throttle_allocate_rate :: "real \<Rightarrow> pool \<Rightarrow> pool" where
  "throttle_allocate_rate now' p =
     (if pl_allocate_min_interval_sec p \<le> 0 then p else p\<lparr>pl_last_allocate_ts := now'\<rparr>)"

section \<open>Allocation\<close>

type_synonym create_req = "string \<times> string \<times> string \<times> real"

record create_resp =
  cr_ok :: bool
  cr_container_id :: "string option"
  cr_text :: string

record alloc_result =
  al_lease_id :: string
  al_container_id :: string
  al_node_url :: string

definition new_lease :: "string \<Rightarrow> string \<Rightarrow> string \<Rightarrow> string \<Rightarrow> string \<Rightarrow> string \<Rightarrow> real \<Rightarrow> lease" where
  "new_lease lid node_url cid img iid cwd now =
   \<lparr>ls_lease_id = lid, ls_node_url = node_url, ls_container_id = cid, ls_image = img,
    ls_instance_id = iid, ls_cwd = cwd, ls_base_image = Some img, ls_current_image = Some img,
    ls_generation = 0, ls_latest_ready_checkpoint_id = None,
    ls_latest_checkpoint_step_idx = -1, ls_rerun_count = 0, ls_last_rerun_at = None,
    ls_created_at = now, ls_last_heartbeat = now\<rparr>"

definition add_lease :: "lease \<Rightarrow> pool \<Rightarrow> pool" where
  "add_lease l p = p\<lparr>pl_leases := dset (ls_lease_id l) l (pl_leases p)\<rparr>"

text \<open>The body of \<open>allocate\<close> after its throttle: \<open>uid\<close> is \<open>uuid4().hex[:16]\<close>.\<close>

definition allocate :: "('w, create_req, create_resp) transport \<Rightarrow> string \<Rightarrow> real \<Rightarrow> real \<Rightarrow>
    string \<Rightarrow> string \<Rightarrow> string \<Rightarrow> 'w \<Rightarrow> pool \<Rightarrow> alloc_result res \<times> 'w \<times> pool" where
  "allocate post uid now' now img iid cwd w p0 =
     (let p = throttle_allocate_rate now' p0 in
      case reserve_total_slot p of
        Inl e \<Rightarrow> (Inl e, w, p)
      | Inr p1 \<Rightarrow>
        (case pick_and_reserve_node p1 of
           Inl e \<Rightarrow> (Inl e, w, release_total_slot p1)
         | Inr (i, p2) \<Rightarrow>
           (let url = nd_url (pl_nodes p2 ! i);
                abort = (\<lambda>e w'. (Inl e, w', release_total_slot (unreserve_node i p2)))
            in case post (url, img, cwd, pl_create_timeout_sec p2) w of
                 (Inl e, w') \<Rightarrow> abort e w'
               | (Inr r, w') \<Rightarrow>
                   (if \<not> cr_ok r
                    then abort (RuntimeError (''Container create failed on '' @ url @ '': '' @ cr_text r)) w'
                    else (case cr_container_id r of
                            None \<Rightarrow> abort (KeyError ''container_id'') w'
                          | Some cid \<Rightarrow>
                              (let lid = ''swe-lease-'' @ uid;
                                   p3 = add_lease (new_lease lid url cid img iid cwd now) p2
                               in (Inr \<lparr>al_lease_id = lid, al_container_id = cid, al_node_url = url\<rparr>,
                                   w', release_total_slot p3)))))))"

end
