(* ===== verification/Pool_Lease_Ops.thy ===== *)
theory Pool_Lease_Ops
  imports Pool_Server
begin

text \<open>
  The operations of \<open>SweEnvPool\<close> on a lease: proxied commands, close, checkpoint create,
  list, delete and garbage collection, rerun; and the requests each one sends.
\<close>

section \<open>Lookup\<close>

definition get_lease :: "string \<Rightarrow> pool \<Rightarrow> lease res" where
  "get_lease lid p =
     (case dget (pl_leases p) lid of
        None \<Rightarrow> Inl (KeyError (''Unknown lease_id: '' @ lid))
      | Some l \<Rightarrow> Inr l)"

definition put_lease :: "string \<Rightarrow> lease \<Rightarrow> pool \<Rightarrow> pool" where
  \<comment> \<open>an assignment to fields of the lease object the dictionary holds under \<open>lid\<close>\<close>
  "put_lease lid l p = p\<lparr>pl_leases := dset lid l (pl_leases p)\<rparr>"

definition beat :: "real \<Rightarrow> lease \<Rightarrow> lease" where
  "beat now l = l\<lparr>ls_last_heartbeat := now\<rparr>"

definition heartbeat :: "real \<Rightarrow> string \<Rightarrow> pool \<Rightarrow> unit res \<times> pool" where
  "heartbeat now lid p =
     (case get_lease lid p of
        Inl e \<Rightarrow> (Inl e, p)
      | Inr l \<Rightarrow> (Inr (), put_lease lid (beat now l) p))"

section \<open>Proxied commands\<close>

record exec_payload =
  xp_url :: string
  xp_container_id :: string
  xp_command :: string
  xp_cwd :: string
  xp_timeout :: int
  xp_env :: "(string, jval) dict"
  xp_fault_injection_armed :: bool
  xp_fault_injection_probability :: "real option"
  xp_fault_injection_spec :: "(string, jval) dict option"
  xp_http_timeout :: int

definition pool_exec :: "('w, exec_payload, 'r) transport \<Rightarrow> real \<Rightarrow> string \<Rightarrow> string \<Rightarrow> string \<Rightarrow> int \<Rightarrow>
    (string, jval) dict option \<Rightarrow> bool \<Rightarrow> real option \<Rightarrow> (string, jval) dict option \<Rightarrow>
    'w \<Rightarrow> pool \<Rightarrow> 'r res \<times> 'w \<times> pool" where
  "pool_exec post now lid command cwd timeout env armed prob spec w p =
     (case get_lease lid p of
        Inl e \<Rightarrow> (Inl e, w, p)
      | Inr l \<Rightarrow>
          (let (r, w') = post
             \<lparr>xp_url = ls_node_url l @ ''/container/exec'', xp_container_id = ls_container_id l,
              xp_command = command, xp_cwd = cwd, xp_timeout = timeout,
              xp_env = (case env of None \<Rightarrow> [] | Some d \<Rightarrow> d), xp_fault_injection_armed = armed,
              xp_fault_injection_probability = prob,
              xp_fault_injection_spec = (case spec of Some (x # d) \<Rightarrow> Some (x # d) | _ \<Rightarrow> None),
              xp_http_timeout = timeout + 30\<rparr> w
           in (r, w', put_lease lid (beat now l) p)))"

definition pool_diff :: "('w, string \<times> string \<times> string \<times> int, 'r) transport \<Rightarrow> string \<Rightarrow> string \<Rightarrow>
    'w \<Rightarrow> pool \<Rightarrow> 'r res \<times> 'w" where
  "pool_diff post lid cwd w p =
     (case get_lease lid p of
        Inl e \<Rightarrow> (Inl e, w)
      | Inr l \<Rightarrow> post (ls_node_url l @ ''/container/diff'', ls_container_id l, cwd, 60) w)"

definition pool_evaluate :: "('w, string \<times> string \<times> string \<times> string \<times> string \<times> int \<times> int, 'r) transport \<Rightarrow>
    string \<Rightarrow> string \<Rightarrow> string \<Rightarrow> string \<Rightarrow> int \<Rightarrow> 'w \<Rightarrow> pool \<Rightarrow> 'r res \<times> 'w" where
  "pool_evaluate post lid patch eval_script cwd timeout w p =
     (case get_lease lid p of
        Inl e \<Rightarrow> (Inl e, w)
      | Inr l \<Rightarrow> post (ls_node_url l @ ''/container/evaluate'', ls_container_id l, patch, eval_script,
                       cwd, timeout, timeout + 60) w)"

definition inject_fail_stop :: "('w, string \<times> string \<times> string \<times> real \<times> int, 'r) transport \<Rightarrow> real \<Rightarrow>
    string \<Rightarrow> string \<Rightarrow> real \<Rightarrow> 'w \<Rightarrow> pool \<Rightarrow> 'r res \<times> 'w \<times> pool" where
  "inject_fail_stop post now lid tag delay_sec w p =
     (case get_lease lid p of
        Inl e \<Rightarrow> (Inl e, w, p)
      | Inr l \<Rightarrow>
          (let (r, w') = post (ls_node_url l @ ''/container/fault/kill'', ls_container_id l, tag, delay_sec, 60) w
           in (r, w', put_lease lid (beat now l) p)))"

section \<open>Close\<close>

text \<open>
  \<open>close\<close> under the lease's lifecycle lock. The reply of the exec server is not looked at:
  only an exception keeps the lease.
\<close>

definition remove_lease :: "string \<Rightarrow> pool \<Rightarrow> pool" where
  "remove_lease lid p = p\<lparr>pl_leases := dpop lid (pl_leases p)\<rparr>"

definition close :: "('w, string \<times> string \<times> int, 'r) transport \<Rightarrow> string \<Rightarrow> 'w \<Rightarrow> pool \<Rightarrow>
    unit res \<times> 'w \<times> pool" where
  "close post lid w p =
     (case dget (pl_leases p) lid of
        None \<Rightarrow> (Inr (), w, p)
      | Some l \<Rightarrow>
          (case post (ls_node_url l @ ''/container/destroy'', ls_container_id l, 300) w of
             (Inl e, w') \<Rightarrow> (Inl e, w', p)
           | (Inr r, w') \<Rightarrow>
               (let p1 = remove_lease lid p
                in (Inr (), w',
                    case find_node (ls_node_url l) p1 of
                      None \<Rightarrow> p1
                    | Some i \<Rightarrow> unreserve_node i p1))))"

section \<open>Checkpoints\<close>

record ckpt_create_req =
  cq_url :: string
  cq_lease_id :: string
  cq_container_id :: string
  cq_generation :: int
  cq_instance_id :: string
  cq_cwd :: string
  cq_step_idx :: int
  cq_command_seq :: int
  cq_policy :: string
  cq_reason :: string
  cq_parent_checkpoint_id :: "string option"
  cq_env :: "(string, jval) dict option"
  cq_fault_injection_spec :: "(string, jval) dict option"
  cq_checkpoint_backend :: "string option"
  cq_http_timeout :: int

record ckpt_create_resp =
  cc_ok :: bool
  cc_status :: "string option"
  cc_container_id :: "string jfield"
  cc_generation :: "int jfield"
  cc_step_idx :: "int jfield"
  cc_checkpoint_id :: "string option"

definition nonempty :: "'a list option \<Rightarrow> 'a list option" where
  \<comment> \<open>a key that is only sent when its value is truthy\<close>
  "nonempty x = (case x of Some (y # ys) \<Rightarrow> Some (y # ys) | _ \<Rightarrow> None)"

definition or_else :: "'a list option \<Rightarrow> 'a list \<Rightarrow> 'a list" where
  \<comment> \<open>\<open>x or d\<close> for a string that may be \<open>None\<close>\<close>
  "or_else x d = (case nonempty x of Some s \<Rightarrow> s | None \<Rightarrow> d)"

definition ckpt_request :: "lease \<Rightarrow> int \<Rightarrow> int \<Rightarrow> string option \<Rightarrow> (string, jval) dict option \<Rightarrow> string \<Rightarrow>
    string \<Rightarrow> string option \<Rightarrow> (string, jval) dict option \<Rightarrow> string option \<Rightarrow> ckpt_create_req" where
  "ckpt_request l step_idx command_seq cwd env policy reason parent spec backend =
     \<lparr>cq_url = ls_node_url l @ ''/container/checkpoint/create'', cq_lease_id = ls_lease_id l,
      cq_container_id = ls_container_id l, cq_generation = ls_generation l,
      cq_instance_id = ls_instance_id l, cq_cwd = or_else cwd (ls_cwd l), cq_step_idx = step_idx,
      cq_command_seq = command_seq, cq_policy = policy, cq_reason = reason,
      cq_parent_checkpoint_id = parent, cq_env = nonempty env,
      cq_fault_injection_spec = nonempty spec, cq_checkpoint_backend = nonempty backend,
      cq_http_timeout = 600\<rparr>"

text \<open>What \<open>_checkpoint_create_locked\<close> records of a reply: the latest ready checkpoint of the
  lease, if the reply is about the container and the generation the lease has now.\<close>

definition record_ready :: "lease \<Rightarrow> ckpt_create_resp \<Rightarrow> pool \<Rightarrow> pool res" where
  "record_ready l r p =
     (if cc_ok r \<and> cc_status r = Some ''ready''
      then (let rcid = jstr (cc_container_id r);
                rgen = jget_or (cc_generation r) (ls_generation l) 0
            in case dget (pl_leases p) (ls_lease_id l) of
                 None \<Rightarrow> Inr p
               | Some cur \<Rightarrow>
                   (if (rcid = [] \<or> ls_container_id cur = rcid) \<and> ls_generation cur = rgen
                    then (case cc_checkpoint_id r of
                            None \<Rightarrow> Inl (KeyError ''checkpoint_id'')
                          | Some ck \<Rightarrow>
                              Inr (put_lease (ls_lease_id l)
                                (cur\<lparr>ls_latest_ready_checkpoint_id := Some ck,
                                     ls_latest_checkpoint_step_idx := jget_or (cc_step_idx r) (-1) (-1)\<rparr>) p))
                    else Inr p))
      else Inr p)"

definition checkpoint_create :: "('w, ckpt_create_req, ckpt_create_resp) transport \<Rightarrow> real \<Rightarrow> string \<Rightarrow>
    int \<Rightarrow> int \<Rightarrow> string option \<Rightarrow> (string, jval) dict option \<Rightarrow> string \<Rightarrow> string \<Rightarrow> string option \<Rightarrow>
    (string, jval) dict option \<Rightarrow> string option \<Rightarrow> 'w \<Rightarrow> pool \<Rightarrow> ckpt_create_resp res \<times> 'w \<times> pool" where
  "checkpoint_create post now lid step_idx command_seq cwd env policy reason parent spec backend w p =
     (case get_lease lid p of
        Inl e \<Rightarrow> (Inl e, w, p)
      | Inr l0 \<Rightarrow>
          (let l = beat now l0; p1 = put_lease lid l p
           in case post (ckpt_request l step_idx command_seq cwd env policy reason parent spec backend) w of
                (Inl e, w') \<Rightarrow> (Inl e, w', p1)
              | (Inr r, w') \<Rightarrow>
                  (case record_ready l r p1 of
                     Inl e \<Rightarrow> (Inl e, w', p1)
                   | Inr p2 \<Rightarrow> (Inr r, w', p2))))"

text \<open>\<open>checkpoint_probe\<close> and \<open>checkpoint_status\<close> are deprecated: fixed replies.\<close>

record deprecated_reply =
  dr_ok :: bool
  dr_busy :: "bool option"
  dr_error :: string
  dr_error_code :: string
  dr_retryable :: bool
  dr_retry_after_sec :: "real option"

definition checkpoint_probe :: "real \<Rightarrow> string \<Rightarrow> pool \<Rightarrow> deprecated_reply res \<times> pool" where
  "checkpoint_probe now lid p =
     (case get_lease lid p of
        Inl e \<Rightarrow> (Inl e, p)
      | Inr l \<Rightarrow>
          (Inr \<lparr>dr_ok = False, dr_busy = Some True,
                dr_error = ''checkpoint probe is deprecated; checkpoint/create performs probe inline'',
                dr_error_code = ''checkpoint_busy'', dr_retryable = True, dr_retry_after_sec = Some 1\<rparr>,
           put_lease lid (beat now l) p))"

definition checkpoint_status_reply :: deprecated_reply where
  "checkpoint_status_reply =
     \<lparr>dr_ok = False, dr_busy = None,
      dr_error = ''checkpoint_status is deprecated; checkpoint_create is synchronous'',
      dr_error_code = ''checkpoint_status_deprecated'', dr_retryable = False, dr_retry_after_sec = None\<rparr>"

definition checkpoint_status :: "string \<Rightarrow> pool \<Rightarrow> deprecated_reply res" where
  "checkpoint_status lid p = (case get_lease lid p of Inl e \<Rightarrow> Inl e | Inr l \<Rightarrow> Inr checkpoint_status_reply)"

record ckpt_item =
  ck_checkpoint_id :: "string option"
  ck_status :: "string option"
  ck_generation :: "int jfield"
  ck_step_idx :: "int jfield"
  ck_created_at :: "real jfield"

record ckpt_list_resp =
  cl_ok :: bool
  cl_checkpoints :: "ckpt_item list"

type_synonym list_req = "string \<times> string option \<times> int"

text \<open>
  The order on checkpoints: generation, then step, then creation time. The tuple the code
  builds as a sort key is a type of its own, ordered lexicographically.
\<close>

datatype ckpt_key = CkptKey (key_gen: int) (key_step: int) (key_time: real)

instantiation ckpt_key :: linorder
begin

definition less_eq_ckpt_key :: "ckpt_key \<Rightarrow> ckpt_key \<Rightarrow> bool" where
  "a \<le> b \<longleftrightarrow> key_gen a < key_gen b \<or> (key_gen a = key_gen b \<and>
     (key_step a < key_step b \<or> (key_step a = key_step b \<and> key_time a \<le> key_time b)))"

definition less_ckpt_key :: "ckpt_key \<Rightarrow> ckpt_key \<Rightarrow> bool" where
  "a < b \<longleftrightarrow> key_gen a < key_gen b \<or> (key_gen a = key_gen b \<and>
     (key_step a < key_step b \<or> (key_step a = key_step b \<and> key_time a < key_time b)))"

instance
  by standard (auto simp: less_eq_ckpt_key_def less_ckpt_key_def ckpt_key.expand)

end

definition step_or_minus_one :: "int jfield \<Rightarrow> int" where
  "step_or_minus_one f = (case jget f (-1) of None \<Rightarrow> -1 | Some i \<Rightarrow> i)"

definition item_key :: "ckpt_item \<Rightarrow> ckpt_key" where
  "item_key c = CkptKey (jget_or (ck_generation c) 0 0) (step_or_minus_one (ck_step_idx c)) (jnum_or (ck_created_at c))"

definition ready_items :: "ckpt_list_resp \<Rightarrow> ckpt_item list" where
  "ready_items r = filter (\<lambda>c. ck_status c = Some ''ready'' \<and> nonempty (ck_checkpoint_id c) \<noteq> None)
     (if cl_ok r then cl_checkpoints r else [])"

definition refresh_latest_ready_checkpoint :: "('w, list_req, ckpt_list_resp) transport \<Rightarrow> string \<Rightarrow>
    'w \<Rightarrow> pool \<Rightarrow> unit res \<times> 'w \<times> pool" where
  "refresh_latest_ready_checkpoint post lid w p =
     (case get_lease lid p of
        Inl e \<Rightarrow> (Inl e, w, p)
      | Inr l \<Rightarrow>
          (case post (ls_node_url l @ ''/container/checkpoint/list'', Some (ls_lease_id l), 30) w of
             (Inl e, w') \<Rightarrow> (Inl e, w', p)
           | (Inr r, w') \<Rightarrow>
               (Inr (), w',
                case first_max item_key (ready_items r) of
                  None \<Rightarrow> put_lease lid (l\<lparr>ls_latest_ready_checkpoint_id := None,
                                           ls_latest_checkpoint_step_idx := -1\<rparr>) p
                | Some c \<Rightarrow> put_lease lid (l\<lparr>ls_latest_ready_checkpoint_id := ck_checkpoint_id c,
                    ls_latest_checkpoint_step_idx := step_or_minus_one (ck_step_idx c)\<rparr>) p)))"

definition checkpoint_delete :: "('w, string \<times> string \<times> int, bool) transport \<Rightarrow>
    ('w, list_req, ckpt_list_resp) transport \<Rightarrow> string \<Rightarrow> string \<Rightarrow> 'w \<Rightarrow> pool \<Rightarrow> bool res \<times> 'w \<times> pool" where
  "checkpoint_delete post_del post_list lid ck w p =
     (case get_lease lid p of
        Inl e \<Rightarrow> (Inl e, w, p)
      | Inr l \<Rightarrow>
          (case post_del (ls_node_url l @ ''/container/checkpoint/delete'', ck, 60) w of
             (Inl e, w') \<Rightarrow> (Inl e, w', p)
           | (Inr ok, w') \<Rightarrow>
               (if ok
                then (case refresh_latest_ready_checkpoint post_list lid w' p of
                        (Inl e, w'', p') \<Rightarrow> (Inl e, w'', p')
                      | (Inr _, w'', p') \<Rightarrow> (Inr ok, w'', p'))
                else (Inr ok, w', p))))"

section \<open>Rerun\<close>

record rerun_req =
  rq_url :: string
  rq_checkpoint_id :: string
  rq_lease_id :: string
  rq_old_container_id :: string
  rq_cwd :: string
  rq_timeout :: int
  rq_http_timeout :: int

record rerun_resp =
  rr_ok :: bool
  rr_new_container_id :: "string option"
  rr_checkpoint_image :: "string jfield"
  rr_restored_image :: "string jfield"

definition apply_rerun :: "real \<Rightarrow> string \<Rightarrow> string \<Rightarrow> rerun_resp \<Rightarrow> lease \<Rightarrow> lease" where
  "apply_rerun now new_cid eff_cwd r l =
     (let cimg = strip (jstr (rr_checkpoint_image r));
          rimg = strip (jstr (rr_restored_image r));
          l1 = l\<lparr>ls_container_id := new_cid, ls_cwd := eff_cwd, ls_generation := ls_generation l + 1,
                 ls_rerun_count := ls_rerun_count l + 1, ls_last_rerun_at := Some now,
                 ls_base_image := (case ls_base_image l of None \<Rightarrow> Some (ls_image l) | b \<Rightarrow> b)\<rparr>
      in if rimg \<noteq> [] then l1\<lparr>ls_image := rimg, ls_current_image := Some rimg\<rparr>
         else if cimg \<noteq> [] then l1\<lparr>ls_image := cimg, ls_current_image := Some cimg\<rparr>
         else l1)"

definition rerun_target :: "string option \<Rightarrow> lease \<Rightarrow> string option" where
  \<comment> \<open>\<open>checkpoint_id or lease.latest_ready_checkpoint_id\<close>\<close>
  "rerun_target ck l =
     (case nonempty ck of Some c \<Rightarrow> Some c | None \<Rightarrow> nonempty (ls_latest_ready_checkpoint_id l))"

definition rerun :: "('w, rerun_req, rerun_resp) transport \<Rightarrow> real \<Rightarrow> string \<Rightarrow> string option \<Rightarrow>
    string option \<Rightarrow> int \<Rightarrow> 'w \<Rightarrow> pool \<Rightarrow> rerun_resp res \<times> 'w \<times> pool" where
  "rerun post now lid ck cwd timeout w p =
     (case get_lease lid p of
        Inl e \<Rightarrow> (Inl e, w, p)
      | Inr l \<Rightarrow>
          (case rerun_target ck l of
            None \<Rightarrow> (Inl (RuntimeError (''No ready checkpoint available for lease '' @ lid)), w, p)
          | Some c \<Rightarrow>
              (let eff_cwd = or_else cwd (ls_cwd l)
               in case post \<lparr>rq_url = ls_node_url l @ ''/container/rerun'', rq_checkpoint_id = c,
                             rq_lease_id = ls_lease_id l, rq_old_container_id = ls_container_id l,
                             rq_cwd = eff_cwd, rq_timeout = timeout, rq_http_timeout = timeout + 30\<rparr> w of
                    (Inl e, w') \<Rightarrow> (Inl e, w', p)
                  | (Inr r, w') \<Rightarrow>
                      (if rr_ok r
                       then (case rr_new_container_id r of
                               None \<Rightarrow> (Inl (KeyError ''new_container_id''), w', p)
                             | Some nc \<Rightarrow> (Inr r, w', put_lease lid (apply_rerun now nc eff_cwd r l) p))
                       else (Inr r, w', p)))))"

end
