(* ===== verification/Pool_Concurrency.thy ===== *)
theory Pool_Concurrency
  imports Pool_Lease_Ops
begin

text \<open>
  The environment pool server under its threads (\<open>swe-rl/server/swe_env_pool_server.py\<close>).
  The Flask server runs every request in a thread of its own; a step is one region under
  \<open>self._lock\<close> (or a single field assignment), so the calls to the exec servers between
  them interleave freely. A thread inside \<open>allocate\<close> or \<open>close\<close> is its phase: what it has
  reserved or taken out so far. The invariants are stated on the pool and the phases, and
  the sequential operations of the other theories are runs of this system.
\<close>

section \<open>Phases\<close>

datatype phase =
    AEnter            \<comment> \<open>holds the allocate semaphore\<close>
  | AReserved         \<comment> \<open>holds a slot of the global limit\<close>
  | ANode nat         \<comment> \<open>and has reserved a container on a node\<close>
  | AInserted         \<comment> \<open>its lease is in the table, its slot not yet released\<close>
  | AFailed           \<comment> \<open>its node is unreserved, its slot not yet released\<close>
  | CHeld string      \<comment> \<open>holds the lifecycle lock of a lease it destroys\<close>
  | CPopped string    \<comment> \<open>has popped a lease on the node with that address\<close>

fun in_alloc :: "phase \<Rightarrow> bool" where
  "in_alloc (CHeld lid) = False"
| "in_alloc (CPopped url) = False"
| "in_alloc _ = True"

fun holds_slot :: "phase \<Rightarrow> bool" where
  "holds_slot AReserved = True"
| "holds_slot (ANode i) = True"
| "holds_slot AInserted = True"
| "holds_slot AFailed = True"
| "holds_slot _ = False"

fun unlisted :: "phase \<Rightarrow> bool" where
  \<comment> \<open>holds a slot for a lease that is not in the table\<close>
  "unlisted AReserved = True"
| "unlisted (ANode i) = True"
| "unlisted AFailed = True"
| "unlisted _ = False"

fun counts_on :: "nat \<Rightarrow> string \<Rightarrow> phase \<Rightarrow> bool" where
  \<comment> \<open>accounts for one container of node \<open>i\<close> that no lease of the table accounts for\<close>
  "counts_on i url (ANode j) = (j = i)"
| "counts_on i url (CPopped u) = (u = url)"
| "counts_on i url _ = False"

section \<open>Steps\<close>

type_synonym conc = "pool \<times> phase multiset"

inductive pool_step :: "conc \<Rightarrow> conc \<Rightarrow> bool" where
  enter: "tally in_alloc T < pl_max_concurrent_allocates p \<Longrightarrow>
    pool_step (p, T) (throttle_allocate_rate now' p, add_mset AEnter T)"
| slot: "reserve_total_slot p = Inr p' \<Longrightarrow> pool_step (p, add_mset AEnter T) (p', add_mset AReserved T)"
| no_slot: "reserve_total_slot p = Inl e \<Longrightarrow> pool_step (p, add_mset AEnter T) (p, T)"
| node: "pick_and_reserve_node p = Inr (i, p') \<Longrightarrow>
    pool_step (p, add_mset AReserved T) (p', add_mset (ANode i) T)"
| no_node: "pick_and_reserve_node p = Inl e \<Longrightarrow>
    pool_step (p, add_mset AReserved T) (release_total_slot p, T)"
| created: "dget (pl_leases p) lid = None \<Longrightarrow>
    pool_step (p, add_mset (ANode i) T)
      (add_lease (new_lease lid (nd_url (pl_nodes p ! i)) cid img iid cwd now) p, add_mset AInserted T)"
| create_failed: "pool_step (p, add_mset (ANode i) T) (unreserve_node i p, add_mset AFailed T)"
| released: "pool_step (p, add_mset AInserted T) (release_total_slot p, T)"
| failed: "pool_step (p, add_mset AFailed T) (release_total_slot p, T)"
| close_begin: "dget (pl_leases p) lid = Some l \<Longrightarrow> CHeld lid \<notin># T \<Longrightarrow>
    pool_step (p, T) (p, add_mset (CHeld lid) T)"
| close_kept: "pool_step (p, add_mset (CHeld lid) T) (p, T)"
| close_pop: "dget (pl_leases p) lid = Some l \<Longrightarrow>
    pool_step (p, add_mset (CHeld lid) T) (remove_lease lid p, add_mset (CPopped (ls_node_url l)) T)"
| close_unreserve: "find_node url p = Some i \<Longrightarrow>
    pool_step (p, add_mset (CPopped url) T) (unreserve_node i p, T)"
| close_no_node: "find_node url p = None \<Longrightarrow> pool_step (p, add_mset (CPopped url) T) (p, T)"
| lease_write: "dget (pl_leases p) lid = Some l \<Longrightarrow> ls_node_url l' = ls_node_url l \<Longrightarrow>
    pool_step (p, T) (put_lease lid l' p, T)"
| health: "i < length (pl_nodes p) \<Longrightarrow> nd_url n = nd_url (pl_nodes p ! i) \<Longrightarrow>
    nd_active_containers n = nd_active_containers (pl_nodes p ! i) \<Longrightarrow>
    nd_max_containers n = nd_max_containers (pl_nodes p ! i) \<Longrightarrow>
    pool_step (p, T) (upd_node i (\<lambda>_. n) p, T)"

inductive_cases pool_stepE: "pool_step (p, T) (p', T')"

section \<open>What the operations change\<close>

lemma throttle_frame [frame_simps]:
  "pl_nodes (throttle_allocate_rate t p) = pl_nodes p"
  "pl_leases (throttle_allocate_rate t p) = pl_leases p"
  "pl_max_total_leases (throttle_allocate_rate t p) = pl_max_total_leases p"
  "pl_max_concurrent_allocates (throttle_allocate_rate t p) = pl_max_concurrent_allocates p"
  "pl_pending_allocations (throttle_allocate_rate t p) = pl_pending_allocations p"
  by (simp_all add: throttle_allocate_rate_def)

lemma upd_node_frame [frame_simps]:
  "pl_leases (upd_node i f p) = pl_leases p"
  "pl_max_total_leases (upd_node i f p) = pl_max_total_leases p"
  "pl_max_concurrent_allocates (upd_node i f p) = pl_max_concurrent_allocates p"
  "pl_pending_allocations (upd_node i f p) = pl_pending_allocations p"
  "length (pl_nodes (upd_node i f p)) = length (pl_nodes p)"
  by (simp_all add: upd_node_def)

lemma upd_node_nth [frame_simps]:
  "i < length (pl_nodes p) \<Longrightarrow>
   pl_nodes (upd_node i f p) ! j = (if j = i then f (pl_nodes p ! i) else pl_nodes p ! j)"
  by (auto simp: upd_node_def nth_list_update)

lemma unreserve_frame [frame_simps]:
  "pl_leases (unreserve_node i p) = pl_leases p"
  "pl_max_total_leases (unreserve_node i p) = pl_max_total_leases p"
  "pl_max_concurrent_allocates (unreserve_node i p) = pl_max_concurrent_allocates p"
  "pl_pending_allocations (unreserve_node i p) = pl_pending_allocations p"
  "length (pl_nodes (unreserve_node i p)) = length (pl_nodes p)"
  by (simp_all add: unreserve_node_def frame_simps)

lemma lease_table_frame [frame_simps]:
  "pl_nodes (add_lease l p) = pl_nodes p"
  "pl_max_total_leases (add_lease l p) = pl_max_total_leases p"
  "pl_max_concurrent_allocates (add_lease l p) = pl_max_concurrent_allocates p"
  "pl_pending_allocations (add_lease l p) = pl_pending_allocations p"
  "pl_nodes (remove_lease lid p) = pl_nodes p"
  "pl_max_total_leases (remove_lease lid p) = pl_max_total_leases p"
  "pl_max_concurrent_allocates (remove_lease lid p) = pl_max_concurrent_allocates p"
  "pl_pending_allocations (remove_lease lid p) = pl_pending_allocations p"
  "pl_nodes (put_lease lid l p) = pl_nodes p"
  "pl_max_total_leases (put_lease lid l p) = pl_max_total_leases p"
  "pl_max_concurrent_allocates (put_lease lid l p) = pl_max_concurrent_allocates p"
  "pl_pending_allocations (put_lease lid l p) = pl_pending_allocations p"
  by (simp_all add: add_lease_def remove_lease_def put_lease_def)

lemma release_frame [frame_simps]:
  "pl_nodes (release_total_slot p) = pl_nodes p"
  "pl_leases (release_total_slot p) = pl_leases p"
  "pl_max_total_leases (release_total_slot p) = pl_max_total_leases p"
  "pl_max_concurrent_allocates (release_total_slot p) = pl_max_concurrent_allocates p"
  by (simp_all add: release_total_slot_def)

lemma release_pending [count_simps]:
  "0 < pl_max_total_leases p \<Longrightarrow>
   pl_pending_allocations (release_total_slot p) = max 0 (pl_pending_allocations p - 1)"
  by (simp add: release_total_slot_def)

lemma reserve_Inr:
  assumes "reserve_total_slot p = Inr p'"
  shows "pl_nodes p' = pl_nodes p" "pl_leases p' = pl_leases p"
    "pl_max_total_leases p' = pl_max_total_leases p"
    "pl_max_concurrent_allocates p' = pl_max_concurrent_allocates p"
    "0 < pl_max_total_leases p \<Longrightarrow> pl_pending_allocations p' = pl_pending_allocations p + 1"
    "0 < pl_max_total_leases p \<Longrightarrow> inflight p < pl_max_total_leases p"
  using assms by (auto simp: reserve_total_slot_def split: if_splits)

lemma pick_Inr:
  assumes "pick_and_reserve_node p = Inr (i, p')"
  shows "i < length (pl_nodes p)" "node_has_room (pl_nodes p ! i)"
    "p' = upd_node i (\<lambda>n. n\<lparr>nd_active_containers := nd_active_containers n + 1\<rparr>) p"
    "\<And>j. j < length (pl_nodes p) \<Longrightarrow> node_has_room (pl_nodes p ! j) \<Longrightarrow>
         nd_active_containers (pl_nodes p ! i) \<le> nd_active_containers (pl_nodes p ! j)"
  using assms
  by (auto simp: pick_and_reserve_node_def node_candidates_def split: option.splits dest: first_min_Some)

lemma find_node_Some:
  "find_node url p = Some i \<Longrightarrow> i < length (pl_nodes p) \<and> nd_url (pl_nodes p ! i) = url"
  by (auto simp: find_node_def find_Some_iff)

lemma find_node_None:
  "find_node url p = None \<Longrightarrow> i < length (pl_nodes p) \<Longrightarrow> nd_url (pl_nodes p ! i) \<noteq> url"
  by (auto simp: find_node_def find_None_iff)

section \<open>The invariants\<close>

text \<open>The slots of the global limit.\<close>

definition slot_inv :: "conc \<Rightarrow> bool" where
  "slot_inv s = (case s of (p, T) \<Rightarrow> 0 < pl_max_total_leases p \<longrightarrow>
     pl_pending_allocations p = tally holds_slot T \<and>
     int (length (pl_leases p)) + tally unlisted T \<le> pl_max_total_leases p)"

text \<open>The allocate semaphore.\<close>

definition sem_inv :: "conc \<Rightarrow> bool" where
  "sem_inv s = (case s of (p, T) \<Rightarrow> tally in_alloc T \<le> pl_max_concurrent_allocates p)"

text \<open>The container counters of the nodes: every container counted on a node is a lease of
  the table, a reservation in flight or a popped lease, and no counter passes its maximum.\<close>

definition leases_on :: "string \<Rightarrow> pool \<Rightarrow> nat" where
  "leases_on url p = dcount (\<lambda>_ l. ls_node_url l = url) (pl_leases p)"

definition counter_ok :: "pool \<Rightarrow> phase multiset \<Rightarrow> nat \<Rightarrow> bool" where
  "counter_ok p T i \<longleftrightarrow>
     nd_active_containers (pl_nodes p ! i) =
       int (leases_on (nd_url (pl_nodes p ! i)) p) + tally (counts_on i (nd_url (pl_nodes p ! i))) T \<and>
     (0 < nd_max_containers (pl_nodes p ! i) \<longrightarrow>
       nd_active_containers (pl_nodes p ! i) \<le> nd_max_containers (pl_nodes p ! i))"

definition table_inv :: "conc \<Rightarrow> bool" where
  "table_inv s = (case s of (p, T) \<Rightarrow>
     distinct (dkeys (pl_leases p)) \<and> distinct (map nd_url (pl_nodes p)) \<and>
     (\<forall>i. ANode i \<in># T \<longrightarrow> i < length (pl_nodes p)))"

definition node_inv :: "conc \<Rightarrow> bool" where
  "node_inv s = (case s of (p, T) \<Rightarrow> \<forall>i < length (pl_nodes p). counter_ok p T i)"

definition conc_inv :: "conc \<Rightarrow> bool" where
  "conc_inv s \<longleftrightarrow> slot_inv s \<and> sem_inv s \<and> table_inv s \<and> node_inv s"

definition conc_init :: "conc \<Rightarrow> bool" where
  \<comment> \<open>a pool as the constructor builds it, over distinct addresses, and no thread in it\<close>
  "conc_init s = (case s of (p, T) \<Rightarrow> T = {#} \<and> distinct (map nd_url (pl_nodes p)) \<and>
     pl_leases p = [] \<and> pl_pending_allocations p = 0 \<and> 0 \<le> pl_max_total_leases p \<and>
     1 \<le> pl_max_concurrent_allocates p \<and> (\<forall>n \<in> set (pl_nodes p). nd_active_containers n = 0))"

lemma new_pool_init:
  "distinct (map rstrip_slash urls) \<Longrightarrow> conc_init (new_pool urls mc mt ma iv ct ht th, {#})"
  by (auto simp: conc_init_def new_pool_def new_node_def comp_def)

lemma conc_init_inv: "conc_init s \<Longrightarrow> conc_inv s"
  by (auto simp: conc_init_def conc_inv_def slot_inv_def sem_inv_def table_inv_def node_inv_def
      counter_ok_def leases_on_def)

subsection \<open>Slots and semaphore\<close>

lemma unlisted_le_slots: "tally unlisted T \<le> tally holds_slot T"
  by (induction T) (auto split: phase.splits simp: less_imp_le elim: unlisted.elims)

lemma slot_inv_step: "pool_step s t \<Longrightarrow> slot_inv s \<Longrightarrow> slot_inv t"
proof (induction rule: pool_step.induct)
  case (slot p p' T)
  then show ?case
    using reserve_Inr [OF slot(1)] unlisted_le_slots [of T] by (auto simp: slot_inv_def inflight_def)
next
  case (node p i p' T)
  then show ?case
    using pick_Inr(3) [OF node(1)] by (auto simp: slot_inv_def frame_simps)
next
  case (created p lid i T cid img iid cwd now)
  then show ?case
    by (auto simp: slot_inv_def frame_simps) (simp add: add_lease_def length_dset new_lease_def)
next
  case (close_pop p lid l T)
  have "length (pl_leases (remove_lease lid p)) \<le> length (pl_leases p)"
    by (simp add: remove_lease_def length_delete_le)
  with close_pop show ?case by (auto simp: slot_inv_def frame_simps)
next
  case (lease_write p lid l l' T)
  then show ?case
    by (auto simp: slot_inv_def frame_simps) (auto simp: put_lease_def length_dset)
qed (auto simp: slot_inv_def frame_simps count_simps)

lemma sem_inv_step: "pool_step s t \<Longrightarrow> sem_inv s \<Longrightarrow> sem_inv t"
proof (induction rule: pool_step.induct)
  case (slot p p' T)
  then show ?case
    using reserve_Inr [OF slot(1)] by (auto simp: sem_inv_def)
next
  case (node p i p' T)
  then show ?case
    using pick_Inr(3) [OF node(1)] by (auto simp: sem_inv_def frame_simps)
qed (auto simp: sem_inv_def frame_simps)

subsection \<open>The tables\<close>

lemma urls_upd_node:
  "nd_url (f (pl_nodes p ! i)) = nd_url (pl_nodes p ! i) \<Longrightarrow>
   map nd_url (pl_nodes (upd_node i f p)) = map nd_url (pl_nodes p)"
  by (cases "i < length (pl_nodes p)")
    (simp add: upd_node_def map_update, metis list_update_id nth_map, simp add: upd_node_def list_update_beyond)

lemma urls_unreserve [frame_simps]:
  "map nd_url (pl_nodes (unreserve_node i p)) = map nd_url (pl_nodes p)"
  by (simp add: unreserve_node_def urls_upd_node)

lemma keys_add_remove:
  "distinct (dkeys (pl_leases p)) \<Longrightarrow> distinct (dkeys (pl_leases (add_lease l p)))"
  "distinct (dkeys (pl_leases p)) \<Longrightarrow> distinct (dkeys (pl_leases (put_lease lid l p)))"
  "distinct (dkeys (pl_leases p)) \<Longrightarrow> distinct (dkeys (pl_leases (remove_lease lid p)))"
  by (simp_all add: add_lease_def put_lease_def remove_lease_def distinct_dset distinct_dpop)

lemma table_inv_step: "pool_step s t \<Longrightarrow> table_inv s \<Longrightarrow> table_inv t"
proof (induction rule: pool_step.induct)
  case (slot p p' T)
  then show ?case
    using reserve_Inr [OF slot(1)] by (auto simp: table_inv_def)
next
  case (node p i p' T)
  have urls: "map nd_url (pl_nodes p') = map nd_url (pl_nodes p)"
    using pick_Inr(3) [OF node(1)] by (simp add: urls_upd_node)
  then have len: "length (pl_nodes p') = length (pl_nodes p)" by (rule map_eq_imp_length_eq)
  show ?case
    using node(2) pick_Inr(1,3) [OF node(1)] urls len
    by (auto simp: table_inv_def frame_simps)
next
  case (health i p n T)
  then show ?case
    using urls_upd_node [of "\<lambda>_. n" p i] by (simp add: table_inv_def frame_simps)
qed (simp_all add: table_inv_def frame_simps keys_add_remove)

subsection \<open>The counters\<close>

lemma distinct_urls:
  "distinct (map nd_url (pl_nodes p)) \<Longrightarrow> i < length (pl_nodes p) \<Longrightarrow> j < length (pl_nodes p) \<Longrightarrow>
   nd_url (pl_nodes p ! i) = nd_url (pl_nodes p ! j) \<longleftrightarrow> i = j"
  by (metis length_map nth_eq_iff_index_eq nth_map)

lemma leases_on_frame [frame_simps]:
  "leases_on u (upd_node i f p) = leases_on u p"
  "leases_on u (unreserve_node i p) = leases_on u p"
  "leases_on u (release_total_slot p) = leases_on u p"
  "leases_on u (throttle_allocate_rate t p) = leases_on u p"
  by (simp_all add: leases_on_def frame_simps)

lemma leases_on_add:
  "dget (pl_leases p) (ls_lease_id l) = None \<Longrightarrow>
   leases_on u (add_lease l p) = leases_on u p + (if ls_node_url l = u then 1 else 0)"
  by (simp add: leases_on_def add_lease_def dset_fresh)

lemma leases_on_put:
  "dget (pl_leases p) lid = Some l \<Longrightarrow> ls_node_url l' = ls_node_url l \<Longrightarrow>
   leases_on u (put_lease lid l' p) = leases_on u p"
  by (simp add: leases_on_def put_lease_def) (rule dcount_dset_same, auto)

lemma leases_on_remove:
  "distinct (dkeys (pl_leases p)) \<Longrightarrow> dget (pl_leases p) lid = Some l \<Longrightarrow>
   leases_on u p = (if ls_node_url l = u then 1 else 0) + leases_on u (remove_lease lid p)"
  by (simp add: leases_on_def remove_lease_def dcount_dpop)

lemma counter_ok_cong:
  "pl_nodes p' = pl_nodes p \<Longrightarrow> leases_on (nd_url (pl_nodes p ! i)) p' = leases_on (nd_url (pl_nodes p ! i)) p \<Longrightarrow>
   counter_ok p' T i = counter_ok p T i"
  by (simp add: counter_ok_def)

lemma counter_ok_frame [frame_simps]:
  "counter_ok (release_total_slot p) T i = counter_ok p T i"
  "counter_ok (throttle_allocate_rate t p) T i = counter_ok p T i"
  by (simp_all add: counter_ok_def frame_simps)

lemma counter_ok_skip:
  "\<not> counts_on i (nd_url (pl_nodes p ! i)) x \<Longrightarrow> counter_ok p (add_mset x T) i = counter_ok p T i"
  by (simp add: counter_ok_def)

lemma unreserve_counter:
  assumes ok: "counter_ok p (add_mset x T) j" and j: "j < length (pl_nodes p)"
    and at: "counts_on j (nd_url (pl_nodes p ! j)) x \<longleftrightarrow> j = i"
  shows "counter_ok (unreserve_node i p) T j"
proof (cases "j = i")
  case True
  with ok at j show ?thesis
    by (auto simp: counter_ok_def unreserve_node_def upd_node_nth frame_simps)
next
  case False
  have "pl_nodes (unreserve_node i p) ! j = pl_nodes p ! j"
    using False by (simp add: unreserve_node_def upd_node_def)
  with ok at False show ?thesis by (auto simp: counter_ok_def frame_simps)
qed

lemma node_inv_step: "pool_step s t \<Longrightarrow> table_inv s \<Longrightarrow> node_inv s \<Longrightarrow> node_inv t"
proof (induction rule: pool_step.induct)
  case (slot p p' T)
  then show ?case
    using reserve_Inr(1,2) [OF slot(1)] counter_ok_cong [of p' p]
    by (auto simp: node_inv_def counter_ok_skip leases_on_def)
next
  case (node p i p' T)
  have "counter_ok p' (add_mset (ANode i) T) j" if j: "j < length (pl_nodes p)" for j
  proof -
    have "counter_ok p T j" using node(3) j by (simp add: node_inv_def counter_ok_skip)
    moreover have "0 < nd_max_containers (pl_nodes p ! i) \<longrightarrow>
        nd_active_containers (pl_nodes p ! i) < nd_max_containers (pl_nodes p ! i)"
      using pick_Inr(2) [OF node(1)] by (auto simp: node_has_room_def)
    ultimately show ?thesis
      using pick_Inr(1,3) [OF node(1)] j by (auto simp: counter_ok_def frame_simps)
  qed
  then show ?case
    using pick_Inr(3) [OF node(1)] by (auto simp: node_inv_def frame_simps)
next
  case (created p lid i T cid img iid cwd now)
  have i: "i < length (pl_nodes p)" using created(2) by (auto simp: table_inv_def)
  have "counter_ok (add_lease (new_lease lid (nd_url (pl_nodes p ! i)) cid img iid cwd now) p) (add_mset AInserted T) j"
    if j: "j < length (pl_nodes p)" for j
    using created j i distinct_urls [of p i j]
    by (auto simp: node_inv_def table_inv_def counter_ok_def frame_simps leases_on_add new_lease_def)
  then show ?case by (simp add: node_inv_def frame_simps)
next
  case (create_failed p i T)
  then show ?case
    using unreserve_counter [of p "ANode i" T _ i]
    by (auto simp: node_inv_def frame_simps counter_ok_skip)
next
  case (close_pop p lid l T)
  then show ?case
    using leases_on_remove [OF _ close_pop(1)]
    by (auto simp: node_inv_def table_inv_def frame_simps counter_ok_def)
next
  case (close_unreserve url p i T)
  note i = find_node_Some [OF close_unreserve(1)]
  have "counter_ok (unreserve_node i p) T j" if j: "j < length (pl_nodes p)" for j
  proof (rule unreserve_counter [where x = "CPopped url"])
    show "counts_on j (nd_url (pl_nodes p ! j)) (CPopped url) = (j = i)"
      using i j distinct_urls [of p i j] close_unreserve(2) by (auto simp: table_inv_def)
  qed (use close_unreserve(3) j in \<open>auto simp: node_inv_def\<close>)
  then show ?case by (simp add: node_inv_def frame_simps)
next
  case (close_no_node url p T)
  then show ?case
    using find_node_None [OF close_no_node(1)]
    by (auto simp: node_inv_def) (metis counter_ok_skip counts_on.simps(2))
next
  case (lease_write p lid l l' T)
  then show ?case
    using counter_ok_cong [of "put_lease lid l' p" p]
    by (auto simp: node_inv_def frame_simps leases_on_put)
next
  case (health i p n T)
  then show ?case
    by (auto simp: node_inv_def counter_ok_def frame_simps)
qed (auto simp: node_inv_def counter_ok_skip frame_simps)

lemma conc_inv_step: "pool_step s t \<Longrightarrow> conc_inv s \<Longrightarrow> conc_inv t"
  by (simp add: conc_inv_def slot_inv_step sem_inv_step table_inv_step node_inv_step)

interpretation conc: stepping conc_init pool_step conc_inv
  by unfold_locales (auto intro: conc_init_inv conc_inv_step)

section \<open>The sequential operations are runs\<close>

lemma run_step: "pool_step s t \<Longrightarrow> pool_step\<^sup>*\<^sup>* t u \<Longrightarrow> pool_step\<^sup>*\<^sup>* s u"
  by (rule converse_rtranclp_into_rtranclp)

lemma create_abort_run:
  "pool_step\<^sup>*\<^sup>* (p, add_mset (ANode i) T) (release_total_slot (unreserve_node i p), T)"
  by (blast intro: run_step create_failed failed)

lemma allocate_run:
  assumes alloc: "allocate post uid now' now img iid cwd w p = (r, w', p')"
    and fresh: "dget (pl_leases p) (''swe-lease-'' @ uid) = None"
    and room: "tally in_alloc T < pl_max_concurrent_allocates p"
  shows "pool_step\<^sup>*\<^sup>* (p, T) (p', T)"
proof -
  define q where "q = throttle_allocate_rate now' p"
  have start: "pool_step (p, T) (q, add_mset AEnter T)" using room by (simp add: q_def enter)
  have "pool_step\<^sup>*\<^sup>* (q, add_mset AEnter T) (p', T)"
  proof (cases "reserve_total_slot q")
    case (Inl e)
    with alloc have "p' = q" by (simp add: allocate_def q_def)
    with Inl show ?thesis by (blast intro: no_slot)
  next
    case (Inr p1)
    note slot = slot [OF Inr, of T]
    show ?thesis
    proof (cases "pick_and_reserve_node p1")
      case (Inl e)
      with alloc Inr have "p' = release_total_slot p1" by (simp add: allocate_def q_def)
      with no_node [OF Inl, of T] slot show ?thesis by (blast intro: run_step)
    next
      case (Inr x)
      obtain i p2 where x: "x = (i, p2)" by (cases x)
      note node = node [OF Inr [unfolded x], of T]
      have leases: "pl_leases p2 = pl_leases p"
        using pick_Inr(3) [OF Inr [unfolded x]] reserve_Inr(2) [OF \<open>reserve_total_slot q = Inr p1\<close>]
        by (simp add: frame_simps q_def)
      let ?l = "\<lambda>cid. new_lease (''swe-lease-'' @ uid) (nd_url (pl_nodes p2 ! i)) cid img iid cwd now"
      from alloc Inr \<open>reserve_total_slot q = Inr p1\<close> x
      consider "p' = release_total_slot (unreserve_node i p2)"
        | cid where "p' = release_total_slot (add_lease (?l cid) p2)"
        by (auto simp: allocate_def q_def Let_def split: sum.splits prod.splits option.splits if_splits)
      then have "pool_step\<^sup>*\<^sup>* (p2, add_mset (ANode i) T) (p', T)"
      proof cases
        case 1
        then show ?thesis using create_abort_run by simp
      next
        case (2 cid)
        with created [of p2 "''swe-lease-'' @ uid" i T cid img iid cwd now] fresh leases
        show ?thesis by (auto intro: run_step released)
      qed
      with node slot show ?thesis by (blast intro: run_step)
    qed
  qed
  with start show ?thesis by (rule run_step)
qed

lemma close_run:
  assumes "close post lid w p = (r, w', p')" and "CHeld lid \<notin># T"
  shows "pool_step\<^sup>*\<^sup>* (p, T) (p', T)"
proof (cases "dget (pl_leases p) lid")
  case None
  with assms show ?thesis by (simp add: close_def)
next
  case (Some l)
  note close_begin [OF Some assms(2)]
  moreover have "pool_step\<^sup>*\<^sup>* (p, add_mset (CHeld lid) T) (p', T)"
    using assms(1) Some
    by (auto simp: close_def Let_def split: sum.splits prod.splits option.splits
        intro: run_step [OF close_kept] run_step [OF close_pop [OF Some]]
          run_step [OF close_unreserve] run_step [OF close_no_node])
  ultimately show ?thesis by (rule run_step)
qed

section \<open>Properties\<close>

definition demo_pool :: pool where
  "demo_pool = new_pool [''http://a/''] 1 1 1 0 1 1 1"

definition demo_create :: "(nat, create_req, create_resp) transport" where
  "demo_create q w = (Inr \<lparr>cr_ok = True, cr_container_id = Some ''c0'', cr_text = ''''\<rparr>, w + 1)"

definition demo_allocated :: pool where
  "demo_allocated = snd (snd (allocate demo_create ''x'' 0 7 ''img'' ''i'' ''/testbed'' 0 demo_pool))"

lemma demo_init: "conc_init (demo_pool, {#})"
  unfolding demo_pool_def by (rule new_pool_init) simp

lemma demo_run: "pool_step\<^sup>*\<^sup>* (demo_pool, {#}) (demo_allocated, {#})"
proof (rule allocate_run)
  show "allocate demo_create ''x'' 0 7 ''img'' ''i'' ''/testbed'' 0 demo_pool =
    (fst (allocate demo_create ''x'' 0 7 ''img'' ''i'' ''/testbed'' 0 demo_pool),
     fst (snd (allocate demo_create ''x'' 0 7 ''img'' ''i'' ''/testbed'' 0 demo_pool)), demo_allocated)"
    by (simp add: demo_allocated_def)
qed (simp_all add: demo_pool_def new_pool_def)

lemma demo_allocated_leases: "length (pl_leases demo_allocated) = 1 \<and> pl_max_total_leases demo_allocated = 1"
  by code_simp

text \<open>C1. However the allocate and close requests interleave, the lease table never holds more
  than \<open>max_total_leases\<close> leases when that limit is set, and the number of pending allocations
  is the number of threads that hold a reserved slot, so it returns to zero.\<close>

theorem global_limit_holds:
  assumes "conc_init s" and "pool_step\<^sup>*\<^sup>* s (p, T)" and "0 < pl_max_total_leases p"
  shows "int (length (pl_leases p)) \<le> pl_max_total_leases p \<and>
    pl_pending_allocations p = tally holds_slot T"
proof -
  have "slot_inv (p, T)" using conc.reachable_inv [OF assms(1,2)] by (simp add: conc_inv_def)
  with assms(3) show ?thesis by (auto simp: slot_inv_def)
qed

theorem global_limit_holds_witness:
  "int (length (pl_leases demo_allocated)) \<le> pl_max_total_leases demo_allocated \<and>
   length (pl_leases demo_allocated) = 1 \<and> pl_pending_allocations demo_allocated = 0"
  using global_limit_holds [OF demo_init demo_run] demo_allocated_leases by simp

text \<open>C2. In every reachable state the container counter of a node is the number of leases on
  it plus the reservations in flight plus the leases popped but not yet given back, and it never
  passes \<open>max_containers\<close>. With no request in progress it is exactly the number of leases.\<close>

theorem node_counters_exact:
  assumes "conc_init s" and "pool_step\<^sup>*\<^sup>* s (p, T)" and "i < length (pl_nodes p)"
  shows "nd_active_containers (pl_nodes p ! i) =
      int (leases_on (nd_url (pl_nodes p ! i)) p) + tally (counts_on i (nd_url (pl_nodes p ! i))) T \<and>
    (0 < nd_max_containers (pl_nodes p ! i) \<longrightarrow>
      nd_active_containers (pl_nodes p ! i) \<le> nd_max_containers (pl_nodes p ! i)) \<and>
    (T = {#} \<longrightarrow> nd_active_containers (pl_nodes p ! i) = int (leases_on (nd_url (pl_nodes p ! i)) p))"
proof -
  have "node_inv (p, T)" using conc.reachable_inv [OF assms(1,2)] by (simp add: conc_inv_def)
  with assms(3) show ?thesis by (auto simp: node_inv_def counter_ok_def)
qed

theorem node_counters_exact_witness:
  "nd_active_containers (pl_nodes demo_allocated ! 0) = int (leases_on ''http://a'' demo_allocated) \<and>
   leases_on ''http://a'' demo_allocated = 1"
proof -
  have "length (pl_nodes demo_allocated) = 1 \<and> nd_url (pl_nodes demo_allocated ! 0) = ''http://a'' \<and>
      leases_on ''http://a'' demo_allocated = 1" by code_simp
  then show ?thesis using node_counters_exact [OF demo_init demo_run, of 0] by simp
qed

end
