(* ===== verification/Pool_Cluster_Ops.thy ===== *)
theory Pool_Cluster_Ops
  imports Pool_Lease_Ops
begin

text \<open>
  The operations of \<open>SweEnvPool\<close> that visit every node: listing and collecting checkpoints
  over the cluster, draining the collector, resource statistics, the status report and the
  health check.
\<close>

section \<open>Listing over the cluster\<close>

record node_report =
  nr_node_url :: string
  nr_ok :: bool
  nr_error :: "string option"
  nr_checkpoint_count :: nat

record 'c list_report =
  lr_ok :: bool
  lr_checkpoints :: "('c \<times> string) list"
  lr_per_node :: "node_report list"

fun list_nodes :: "('w, string \<times> int, bool \<times> 'c list) transport \<Rightarrow> string list \<Rightarrow> 'w \<Rightarrow>
    'c list_report \<Rightarrow> 'c list_report \<times> 'w" where
  "list_nodes post [] w acc = (acc, w)"
| "list_nodes post (url # urls) w acc =
     (case post (url @ ''/container/checkpoint/list'', 30) w of
        (Inl e, w') \<Rightarrow> list_nodes post urls w'
          (acc\<lparr>lr_ok := False, lr_per_node := lr_per_node acc @
             [\<lparr>nr_node_url = url, nr_ok = False, nr_error = Some (exc_text e), nr_checkpoint_count = 0\<rparr>]\<rparr>)
      | (Inr (ok, cks), w') \<Rightarrow> list_nodes post urls w'
          (acc\<lparr>lr_ok := lr_ok acc \<and> ok,
               lr_checkpoints := lr_checkpoints acc @ map (\<lambda>c. (c, url)) cks,
               lr_per_node := lr_per_node acc @
             [\<lparr>nr_node_url = url, nr_ok = ok, nr_error = None, nr_checkpoint_count = length cks\<rparr>]\<rparr>))"

definition checkpoint_list_all :: "('w, string \<times> int, bool \<times> 'c list) transport \<Rightarrow> 'w \<Rightarrow> pool \<Rightarrow>
    'c list_report \<times> 'w" where
  "checkpoint_list_all post w p =
     list_nodes post (map nd_url (pl_nodes p)) w \<lparr>lr_ok = True, lr_checkpoints = [], lr_per_node = []\<rparr>"

definition checkpoint_list_lease :: "('w, list_req, 'r) transport \<Rightarrow> string \<Rightarrow> 'w \<Rightarrow> pool \<Rightarrow> 'r res \<times> 'w" where
  "checkpoint_list_lease post lid w p =
     (case get_lease lid p of
        Inl e \<Rightarrow> (Inl e, w)
      | Inr l \<Rightarrow> post (ls_node_url l @ ''/container/checkpoint/list'', Some (ls_lease_id l), 30) w)"

section \<open>Garbage collection\<close>

record gc_req =
  gq_url :: string
  gq_lease_id :: "string option"
  gq_keep_latest :: int
  gq_dry_run :: bool
  gq_timeout :: int

record gc_resp =
  gr_ok :: bool
  gr_deleted_count :: "int jfield"
  gr_reclaimed_bytes :: "int jfield"
  gr_deleted_checkpoint_ids :: "string list"

record gc_report =
  gp_ok :: bool
  gp_deleted_count :: int
  gp_deleted_checkpoint_ids :: "string list"
  gp_reclaimed_bytes :: int
  gp_dry_run :: bool
  gp_nodes :: "(string \<times> (exc + gc_resp)) list"

definition checkpoint_gc_on_node :: "('w, gc_req, gc_resp) transport \<Rightarrow> string \<Rightarrow> string option \<Rightarrow> int \<Rightarrow>
    bool \<Rightarrow> int \<Rightarrow> 'w \<Rightarrow> gc_resp res \<times> 'w" where
  "checkpoint_gc_on_node post url lid keep_latest dry_run timeout =
     post \<lparr>gq_url = url @ ''/container/checkpoint/gc'', gq_lease_id = lid,
           gq_keep_latest = keep_latest, gq_dry_run = dry_run, gq_timeout = timeout\<rparr>"

fun gc_nodes :: "('w, gc_req, gc_resp) transport \<Rightarrow> int \<Rightarrow> bool \<Rightarrow> string list \<Rightarrow> 'w \<Rightarrow> gc_report \<Rightarrow>
    gc_report \<times> 'w" where
  "gc_nodes post keep dry [] w acc = (acc, w)"
| "gc_nodes post keep dry (url # urls) w acc =
     (case checkpoint_gc_on_node post url None keep dry 120 w of
        (Inl e, w') \<Rightarrow> gc_nodes post keep dry urls w'
          (acc\<lparr>gp_ok := False, gp_nodes := gp_nodes acc @ [(url, Inl e)]\<rparr>)
      | (Inr r, w') \<Rightarrow>
          (let acc1 = acc\<lparr>gp_nodes := gp_nodes acc @ [(url, Inr r)]\<rparr>
           in if \<not> gr_ok r then gc_nodes post keep dry urls w' (acc1\<lparr>gp_ok := False\<rparr>)
              else gc_nodes post keep dry urls w'
                (acc1\<lparr>gp_deleted_count := gp_deleted_count acc + jget_or (gr_deleted_count r) 0 0,
                      gp_reclaimed_bytes := gp_reclaimed_bytes acc + jget_or (gr_reclaimed_bytes r) 0 0,
                      gp_deleted_checkpoint_ids := gp_deleted_checkpoint_ids acc @ gr_deleted_checkpoint_ids r\<rparr>)))"

definition checkpoint_gc_all :: "('w, gc_req, gc_resp) transport \<Rightarrow> int \<Rightarrow> bool \<Rightarrow> 'w \<Rightarrow> pool \<Rightarrow>
    gc_report \<times> 'w" where
  "checkpoint_gc_all post keep dry w p =
     gc_nodes post keep dry (map nd_url (pl_nodes p)) w
       \<lparr>gp_ok = True, gp_deleted_count = 0, gp_deleted_checkpoint_ids = [], gp_reclaimed_bytes = 0,
        gp_dry_run = dry, gp_nodes = []\<rparr>"

definition checkpoint_gc_lease :: "('w, gc_req, gc_resp) transport \<Rightarrow> ('w, list_req, ckpt_list_resp) transport \<Rightarrow>
    string \<Rightarrow> int \<Rightarrow> bool \<Rightarrow> 'w \<Rightarrow> pool \<Rightarrow> gc_resp res \<times> 'w \<times> pool" where
  "checkpoint_gc_lease post post_list lid keep dry w p =
     (case get_lease lid p of
        Inl e \<Rightarrow> (Inl e, w, p)
      | Inr l \<Rightarrow>
          (case checkpoint_gc_on_node post (ls_node_url l) (Some (ls_lease_id l)) keep dry 120 w of
             (Inl e, w') \<Rightarrow> (Inl e, w', p)
           | (Inr r, w') \<Rightarrow>
               (if gr_ok r
                then (case refresh_latest_ready_checkpoint post_list lid w' p of
                        (Inl e, w'', p') \<Rightarrow> (Inl e, w'', p')
                      | (Inr _, w'', p') \<Rightarrow> (Inr r, w'', p'))
                else (Inr r, w', p))))"

record drain_resp =
  dn_ok :: bool
  dn_drained :: bool
  dn_timed_out :: bool
  dn_waited_sec :: "real jfield"

record drain_report =
  dp_ok :: bool
  dp_drained :: bool
  dp_timed_out :: bool
  dp_waited_sec :: real
  dp_nodes :: "(string \<times> (exc + drain_resp)) list"

definition drain_http_timeout :: "real \<Rightarrow> int" where
  "drain_http_timeout timeout_sec = max 1 (if 0 \<le> timeout_sec + 30 then \<lfloor>timeout_sec + 30\<rfloor> else \<lceil>timeout_sec + 30\<rceil>)"

fun drain_nodes :: "('w, string \<times> real \<times> real \<times> int, drain_resp) transport \<Rightarrow> real \<Rightarrow> real \<Rightarrow> string list \<Rightarrow>
    'w \<Rightarrow> drain_report \<Rightarrow> drain_report \<times> 'w" where
  "drain_nodes post t poll [] w acc = (acc, w)"
| "drain_nodes post t poll (url # urls) w acc =
     (case post (url @ ''/container/checkpoint/gc/drain'', t, poll, drain_http_timeout t) w of
        (Inl e, w') \<Rightarrow> drain_nodes post t poll urls w'
          (acc\<lparr>dp_ok := False, dp_drained := False, dp_nodes := dp_nodes acc @ [(url, Inl e)]\<rparr>)
      | (Inr r, w') \<Rightarrow> drain_nodes post t poll urls w'
          (acc\<lparr>dp_ok := dp_ok acc \<and> dn_ok r, dp_drained := dp_drained acc \<and> dn_drained r,
               dp_timed_out := dp_timed_out acc \<or> dn_timed_out r,
               dp_waited_sec := max (dp_waited_sec acc) (jnum_or (dn_waited_sec r)),
               dp_nodes := dp_nodes acc @ [(url, Inr r)]\<rparr>))"

definition checkpoint_gc_drain :: "('w, string \<times> real \<times> real \<times> int, drain_resp) transport \<Rightarrow> real \<Rightarrow> real \<Rightarrow>
    'w \<Rightarrow> pool \<Rightarrow> drain_report \<times> 'w" where
  "checkpoint_gc_drain post t poll w p =
     drain_nodes post t poll (map nd_url (pl_nodes p)) w
       \<lparr>dp_ok = True, dp_drained = True, dp_timed_out = False, dp_waited_sec = 0, dp_nodes = []\<rparr>"

section \<open>Statistics\<close>

type_synonym jdict = "(string, jval) dict"

definition opt_str :: "string option \<Rightarrow> jval" where
  "opt_str x = (case x of None \<Rightarrow> JN | Some s \<Rightarrow> JS s)"

definition lease_fields :: "string \<Rightarrow> lease \<Rightarrow> jdict" where
  "lease_fields lid l =
     [(''lease_id'', JS lid), (''container_id'', JS (ls_container_id l)), (''node_url'', JS (ls_node_url l)),
      (''image'', JS (ls_image l)), (''base_image'', opt_str (ls_base_image l)),
      (''current_image'', JS (or_else (ls_current_image l) (ls_image l))), (''instance_id'', JS (ls_instance_id l))]"

definition result_ok :: "jdict \<Rightarrow> bool" where
  "result_ok d = truthy (dget_def d ''ok'' (JB False))"

definition pool_stats :: "('w, string \<times> string \<times> int, jdict) transport \<Rightarrow> string \<Rightarrow> 'w \<Rightarrow> pool \<Rightarrow>
    jdict res \<times> 'w" where
  "pool_stats post lid w p =
     (case get_lease lid p of
        Inl e \<Rightarrow> (Inl e, w)
      | Inr l \<Rightarrow>
          (case post (ls_node_url l @ ''/container/stats'', ls_container_id l, 30) w of
             (Inl e, w') \<Rightarrow> (Inl e, w')
           | (Inr r, w') \<Rightarrow>
               (if \<not> result_ok r then (Inl (RuntimeError (''Stats failed for lease='' @ lid)), w')
                else (Inr (dmerge ((''ok'', JB True) # lease_fields lid l) r), w'))))"

definition decorate :: "string \<Rightarrow> lease \<Rightarrow> jdict \<Rightarrow> jdict" where
  "decorate lid l item =
     dmerge (case dget item ''ok'' of None \<Rightarrow> dset ''ok'' (JB False) item | Some _ \<Rightarrow> item) (lease_fields lid l)"

definition unknown_item :: "string \<Rightarrow> jdict" where
  "unknown_item lid =
     [(''ok'', JB False), (''error'', JS (''Unknown lease_id: '' @ lid)),
      (''error_code'', JS ''unknown_lease_id''), (''lease_id'', JS lid)]"

text \<open>The leases the batch asks for, in order, with the unknown ones answered at once and the
  others grouped by node.\<close>

fun group_leases :: "pool \<Rightarrow> string list \<Rightarrow> (string, jdict) dict \<Rightarrow> (string, (string \<times> lease) list) dict \<Rightarrow>
    (string, jdict) dict \<times> (string, (string \<times> lease) list) dict" where
  "group_leases p [] stats grouped = (stats, grouped)"
| "group_leases p (lid # lids) stats grouped =
     (case dget (pl_leases p) lid of
        None \<Rightarrow> group_leases p lids (dset lid (unknown_item lid) stats) grouped
      | Some l \<Rightarrow> group_leases p lids stats
          (dset (ls_node_url l) (dget_def grouped (ls_node_url l) [] @ [(lid, l)]) grouped))"

text \<open>The reply of \<open>/container/stats_batch\<close>: its \<open>ok\<close>, and \<open>None\<close> when its \<open>stats\<close> is not a
  dictionary; an item is \<open>None\<close> when it is not a dictionary.\<close>

type_synonym batch_resp = "bool \<times> (string, jdict option) dict option"

definition missing_item :: jdict where
  "missing_item = [(''ok'', JB False), (''error'', JS ''missing container stats in batch response'')]"

definition batch_item :: "(string, jdict option) dict \<Rightarrow> lease \<Rightarrow> jdict" where
  "batch_item by_container l =
     (case dget by_container (ls_container_id l) of Some (Some item) \<Rightarrow> item | _ \<Rightarrow> missing_item)"

fun stats_one_by_one :: "('w, string \<times> string \<times> int, jdict) transport \<Rightarrow> (string \<times> lease) list \<Rightarrow> 'w \<Rightarrow>
    (string, jdict) dict \<Rightarrow> (string, jdict) dict \<times> 'w" where
  "stats_one_by_one post [] w stats = (stats, w)"
| "stats_one_by_one post ((lid, l) # ls) w stats =
     (case post (ls_node_url l @ ''/container/stats'', ls_container_id l, 30) w of
        (Inl e, w') \<Rightarrow> stats_one_by_one post ls w' (dset lid (decorate lid l
          [(''ok'', JB False), (''error'', JS (exc_text e)), (''error_code'', JS ''stats_unavailable'')]) stats)
      | (Inr item, w') \<Rightarrow> stats_one_by_one post ls w' (dset lid (decorate lid l item) stats))"

fun stats_nodes :: "('w, string \<times> string list \<times> int, batch_resp) transport \<Rightarrow>
    ('w, string \<times> string \<times> int, jdict) transport \<Rightarrow> (string, (string \<times> lease) list) dict \<Rightarrow> 'w \<Rightarrow>
    (string, jdict) dict \<Rightarrow> (string, jdict) dict \<times> 'w" where
  "stats_nodes post_batch post [] w stats = (stats, w)"
| "stats_nodes post_batch post ((url, ls) # groups) w stats =
     (case post_batch (url @ ''/container/stats_batch'', map (\<lambda>x. ls_container_id (snd x)) ls, 30) w of
        (Inr (True, Some by_container), w') \<Rightarrow> stats_nodes post_batch post groups w'
          (fold (\<lambda>(lid, l). dset lid (decorate lid l (batch_item by_container l))) ls stats)
      | (_, w') \<Rightarrow>
          (let (stats', w'') = stats_one_by_one post ls w' stats
           in stats_nodes post_batch post groups w'' stats'))"

definition stats_batch :: "('w, string \<times> string list \<times> int, batch_resp) transport \<Rightarrow>
    ('w, string \<times> string \<times> int, jdict) transport \<Rightarrow> string list \<Rightarrow> 'w \<Rightarrow> pool \<Rightarrow> (string, jdict) dict \<times> 'w" where
  "stats_batch post_batch post lease_ids w p =
     (let requested = map strip (filter (\<lambda>s. strip s \<noteq> []) lease_ids);
          (stats, grouped) = group_leases p requested [] []
      in if requested = [] then ([], w) else stats_nodes post_batch post grouped w stats)"

section \<open>Status\<close>

record host_stats =
  hs_ok :: bool
  hs_memory_total_bytes :: "int jfield"
  hs_memory_available_bytes :: "int jfield"
  hs_memory_free_bytes :: "int jfield"
  hs_cpu_total_percent :: "real jfield"
  hs_cpu_available_percent :: "real jfield"
  hs_disk_read_total_bps :: "real jfield"
  hs_disk_read_available_bps :: "real jfield"
  hs_disk_write_total_bps :: "real jfield"
  hs_disk_write_available_bps :: "real jfield"

record metrics =
  mt_memory_total :: int
  mt_memory_available :: int
  mt_memory_free :: int
  mt_cpu_total :: real
  mt_cpu_available :: real
  mt_disk_read_total :: real
  mt_disk_read_available :: real
  mt_disk_write_total :: real
  mt_disk_write_available :: real

definition zero_metrics :: metrics where
  "zero_metrics = \<lparr>mt_memory_total = 0, mt_memory_available = 0, mt_memory_free = 0, mt_cpu_total = 0,
     mt_cpu_available = 0, mt_disk_read_total = 0, mt_disk_read_available = 0, mt_disk_write_total = 0,
     mt_disk_write_available = 0\<rparr>"

definition host_metrics :: "host_stats \<Rightarrow> metrics" where
  "host_metrics h = (if hs_ok h then
     \<lparr>mt_memory_total = jget_or (hs_memory_total_bytes h) 0 0,
      mt_memory_available = jget_or (hs_memory_available_bytes h) 0 0,
      mt_memory_free = jget_or (hs_memory_free_bytes h) 0 0,
      mt_cpu_total = jnum_or (hs_cpu_total_percent h),
      mt_cpu_available = jnum_or (hs_cpu_available_percent h),
      mt_disk_read_total = jnum_or (hs_disk_read_total_bps h),
      mt_disk_read_available = jnum_or (hs_disk_read_available_bps h),
      mt_disk_write_total = jnum_or (hs_disk_write_total_bps h),
      mt_disk_write_available = jnum_or (hs_disk_write_available_bps h)\<rparr> else zero_metrics)"

definition add_metrics :: "metrics \<Rightarrow> metrics \<Rightarrow> metrics" where
  "add_metrics acc m =
     \<lparr>mt_memory_total = mt_memory_total acc + max 0 (mt_memory_total m),
      mt_memory_available = mt_memory_available acc + max 0 (mt_memory_available m),
      mt_memory_free = mt_memory_free acc + max 0 (mt_memory_free m),
      mt_cpu_total = mt_cpu_total acc + max 0 (mt_cpu_total m),
      mt_cpu_available = mt_cpu_available acc + max 0 (mt_cpu_available m),
      mt_disk_read_total = mt_disk_read_total acc + max 0 (mt_disk_read_total m),
      mt_disk_read_available = mt_disk_read_available acc + max 0 (mt_disk_read_available m),
      mt_disk_write_total = mt_disk_write_total acc + max 0 (mt_disk_write_total m),
      mt_disk_write_available = mt_disk_write_available acc + max 0 (mt_disk_write_available m)\<rparr>"

definition node_metrics :: "('w, string \<times> int, host_stats) transport \<Rightarrow> exec_node \<Rightarrow> 'w \<Rightarrow> metrics \<times> 'w" where
  "node_metrics get n w =
     (if nd_healthy n
      then (case get (nd_url n @ ''/host_stats'', 5) w of
              (Inl _, w') \<Rightarrow> (zero_metrics, w')
            | (Inr h, w') \<Rightarrow> (host_metrics h, w'))
      else (zero_metrics, w))"

fun collect_nodes :: "('w, string \<times> int, host_stats) transport \<Rightarrow> exec_node list \<Rightarrow> 'w \<Rightarrow>
    (exec_node \<times> metrics) list \<times> metrics \<Rightarrow> ((exec_node \<times> metrics) list \<times> metrics) \<times> 'w" where
  "collect_nodes get [] w acc = (acc, w)"
| "collect_nodes get (n # ns) w acc =
     (let (m, w') = node_metrics get n w
      in collect_nodes get ns w' (fst acc @ [(n, m)], add_metrics (snd acc) m))"

record status_report =
  sr_total_leases :: nat
  sr_pending_allocations :: int
  sr_max_total_leases :: int
  sr_max_concurrent_allocates :: int
  sr_allocate_min_interval_sec :: real
  sr_create_timeout_sec :: real
  sr_cluster :: metrics
  sr_nodes :: "(exec_node \<times> metrics) list"
  sr_leases :: "lease list"

definition pool_status :: "('w, string \<times> int, host_stats) transport \<Rightarrow> 'w \<Rightarrow> pool \<Rightarrow> status_report \<times> 'w" where
  "pool_status get w p =
     (let ((nodes, cluster), w') = collect_nodes get (pl_nodes p) w ([], zero_metrics)
      in (\<lparr>sr_total_leases = length (pl_leases p), sr_pending_allocations = pl_pending_allocations p,
           sr_max_total_leases = pl_max_total_leases p,
           sr_max_concurrent_allocates = pl_max_concurrent_allocates p,
           sr_allocate_min_interval_sec = pl_allocate_min_interval_sec p,
           sr_create_timeout_sec = pl_create_timeout_sec p,
           sr_cluster = cluster, sr_nodes = nodes, sr_leases = map snd (pl_leases p)\<rparr>, w'))"

section \<open>Health\<close>

definition health_step :: "int \<Rightarrow> real \<Rightarrow> bool \<Rightarrow> exec_node \<Rightarrow> exec_node" where
  "health_step threshold now ok n =
     (let n1 = (if ok then n\<lparr>nd_healthy := True, nd_consecutive_health_check_failures := 0\<rparr>
                else (let k = nd_consecutive_health_check_failures n + 1
                      in if threshold \<le> k
                         then n\<lparr>nd_consecutive_health_check_failures := k, nd_healthy := False\<rparr>
                         else n\<lparr>nd_consecutive_health_check_failures := k\<rparr>))
      in n1\<lparr>nd_last_health_check := now\<rparr>)"

fun health_nodes :: "('w, string \<times> real, bool jfield) transport \<Rightarrow> real \<Rightarrow> int \<Rightarrow> real \<Rightarrow> exec_node list \<Rightarrow> 'w \<Rightarrow>
    exec_node list \<times> 'w" where
  "health_nodes get timeout threshold now [] w = ([], w)"
| "health_nodes get timeout threshold now (n # ns) w =
     (let (r, w') = get (nd_url n @ ''/healthz'', timeout) w;
          ok = (case r of Inl _ \<Rightarrow> False | Inr f \<Rightarrow> jbool f);
          (ns', w'') = health_nodes get timeout threshold now ns w'
      in (health_step threshold now ok n # ns', w''))"

definition health_check :: "('w, string \<times> real, bool jfield) transport \<Rightarrow> real \<Rightarrow> 'w \<Rightarrow> pool \<Rightarrow> pool \<times> 'w" where
  "health_check get now w p =
     (let (ns, w') = health_nodes get (pl_health_check_timeout_sec p)
            (pl_health_check_failure_threshold p) now (pl_nodes p) w
      in (p\<lparr>pl_nodes := ns\<rparr>, w'))"

end
