(* ===== verification/Pool_Routes.thy ===== *)
theory Pool_Routes
  imports Pool_Cluster_Ops
begin

text \<open>
  The Flask routes of the environment pool server. A request is the typed fields the handler
  reads (missing, null or a value; a null text is read as the empty one); a reply is a success (HTTP 200 with the operation's
  result) or an error object with its HTTP status. The global \<open>POOL\<close> is a \<open>pool option\<close>.
\<close>

section \<open>Replies\<close>

record route_error =
  re_error :: string
  re_error_code :: "string option"
  re_retryable :: "bool option"
  re_retry_after_sec :: "real option"

datatype 'r reply = ReplyOk 'r | ReplyErr int route_error

definition plain_error :: "string \<Rightarrow> route_error" where
  "plain_error msg = \<lparr>re_error = msg, re_error_code = None, re_retryable = None, re_retry_after_sec = None\<rparr>"

definition retryable_error :: "string \<Rightarrow> string \<Rightarrow> real \<Rightarrow> route_error" where
  "retryable_error msg code after =
     \<lparr>re_error = msg, re_error_code = Some code, re_retryable = Some True, re_retry_after_sec = Some after\<rparr>"

definition reply_of :: "'r res \<Rightarrow> 'r reply" where
  "reply_of r = (case r of Inl e \<Rightarrow> ReplyErr 500 (plain_error (exc_text e)) | Inr x \<Rightarrow> ReplyOk x)"

definition not_initialized :: "'r reply" where
  "not_initialized = ReplyErr 500 (plain_error ''Pool not initialized'')"

definition jint :: "int jfield \<Rightarrow> int \<Rightarrow> int res" where
  \<comment> \<open>\<open>int(data.get(key, default))\<close>\<close>
  "jint f d = (case jget f d of None \<Rightarrow> Inl (TypeError ''int() argument must not be NoneType'') | Some i \<Rightarrow> Inr i)"

definition jopt :: "'a jfield \<Rightarrow> 'a option" where
  \<comment> \<open>\<open>data.get(key)\<close>\<close>
  "jopt f = (case f of Val x \<Rightarrow> Some x | _ \<Rightarrow> None)"

text \<open>The shape the lease routes share: no pool, no lease id, then the operation.\<close>

definition lease_route :: "string jfield \<Rightarrow> (string \<Rightarrow> 'w \<Rightarrow> pool \<Rightarrow> 'r res \<times> 'w \<times> pool) \<Rightarrow>
    'w \<Rightarrow> pool option \<Rightarrow> 'r reply \<times> 'w \<times> pool option" where
  "lease_route lease_id op w POOL =
     (case POOL of
        None \<Rightarrow> (not_initialized, w, None)
      | Some p \<Rightarrow>
          (if jstr lease_id = [] then (ReplyErr 400 (plain_error ''lease_id required''), w, Some p)
           else (let (r, w', p') = op (jstr lease_id) w p in (reply_of r, w', Some p'))))"

section \<open>Allocation\<close>

definition transport_markers :: "string list" where
  "transport_markers = [''timed out'', ''connection aborted'', ''connection reset'', ''remote disconnected'']"

definition allocate_error :: "exc \<Rightarrow> 'r reply" where
  "allocate_error e =
     (let err = exc_text e; err_lower = lower err
      in case e of
           RuntimeError _ \<Rightarrow>
             (if contains ''global lease limit reached'' err_lower \<or>
                 contains ''no healthy exec nodes available'' err_lower
              then ReplyErr 200 (retryable_error err ''capacity_limited'' 1)
              else ReplyErr 500 (plain_error err))
         | Timeout _ \<Rightarrow> ReplyErr 200 (retryable_error err ''create_timeout'' 2)
         | RequestException _ \<Rightarrow>
             (if list_ex (\<lambda>m. contains m err_lower) transport_markers
              then ReplyErr 200 (retryable_error err ''create_transport_error'' 2)
              else ReplyErr 500 (plain_error err))
         | _ \<Rightarrow> ReplyErr 500 (plain_error err))"

definition allocate_route :: "('w, create_req, create_resp) transport \<Rightarrow> string \<Rightarrow> real \<Rightarrow> real \<Rightarrow>
    string jfield \<Rightarrow> string jfield \<Rightarrow> string jfield \<Rightarrow> 'w \<Rightarrow> pool option \<Rightarrow>
    alloc_result reply \<times> 'w \<times> pool option" where
  "allocate_route post uid now' now img iid cwd w POOL =
     (case POOL of
        None \<Rightarrow> (not_initialized, w, None)
      | Some p \<Rightarrow>
          (if jstr img = [] then (ReplyErr 400 (plain_error ''image is required''), w, Some p)
           else (let (r, w', p') = allocate post uid now' now (jstr img) (jstr iid)
                       (case jget cwd ''/testbed'' of None \<Rightarrow> '''' | Some c \<Rightarrow> c) w p
                 in (case r of Inl e \<Rightarrow> allocate_error e | Inr x \<Rightarrow> ReplyOk x, w', Some p'))))"

section \<open>Lease routes\<close>

definition heartbeat_route :: "real \<Rightarrow> string jfield \<Rightarrow> 'w \<Rightarrow> pool option \<Rightarrow> unit reply \<times> 'w \<times> pool option" where
  "heartbeat_route now lease_id =
     lease_route lease_id (\<lambda>lid w p. let (r, p') = heartbeat now lid p in (r, w, p'))"

record exec_fields =
  xf_lease_id :: "string jfield"
  xf_command :: "string jfield"
  xf_cwd :: "string jfield"
  xf_timeout :: "int jfield"
  xf_env :: "(string, jval) dict jfield"
  xf_armed :: "bool jfield"
  xf_probability :: "real jfield"
  xf_spec :: "(string, jval) dict jfield"

definition exec_route :: "('w, exec_payload, 'r) transport \<Rightarrow> real \<Rightarrow> exec_fields \<Rightarrow> 'w \<Rightarrow> pool option \<Rightarrow>
    'r reply \<times> 'w \<times> pool option" where
  "exec_route post now f w POOL =
     (case POOL of
        None \<Rightarrow> (not_initialized, w, None)
      | Some p \<Rightarrow>
          (if jstr (xf_lease_id f) = [] \<or> jstr (xf_command f) = []
           then (ReplyErr 400 (plain_error ''lease_id and command required''), w, Some p)
           else (case jint (xf_timeout f) 180 of
                   Inl e \<Rightarrow> (ReplyErr 500 (plain_error (exc_text e)), w, Some p)
                 | Inr timeout \<Rightarrow>
                     (let (r, w', p') = pool_exec post now (jstr (xf_lease_id f)) (jstr (xf_command f))
                            (case jget (xf_cwd f) ''/testbed'' of None \<Rightarrow> '''' | Some c \<Rightarrow> c) timeout
                            (jopt (xf_env f)) (jbool (xf_armed f)) (jopt (xf_probability f)) (jopt (xf_spec f)) w p
                      in (reply_of r, w', Some p')))))"

definition diff_route :: "('w, string \<times> string \<times> string \<times> int, 'r) transport \<Rightarrow> string jfield \<Rightarrow>
    string jfield \<Rightarrow> 'w \<Rightarrow> pool option \<Rightarrow> 'r reply \<times> 'w \<times> pool option" where
  "diff_route post lease_id cwd =
     lease_route lease_id (\<lambda>lid w p. let (r, w') = pool_diff post lid
       (case jget cwd ''/testbed'' of None \<Rightarrow> '''' | Some c \<Rightarrow> c) w p in (r, w', p))"

definition evaluate_route :: "('w, string \<times> string \<times> string \<times> string \<times> string \<times> int \<times> int, 'r) transport \<Rightarrow>
    string jfield \<Rightarrow> string jfield \<Rightarrow> string jfield \<Rightarrow> string jfield \<Rightarrow> int jfield \<Rightarrow> 'w \<Rightarrow> pool option \<Rightarrow>
    'r reply \<times> 'w \<times> pool option" where
  "evaluate_route post lease_id patch script cwd timeout =
     lease_route lease_id (\<lambda>lid w p.
       case jint timeout 3600 of
         Inl e \<Rightarrow> (Inl e, w, p)
       | Inr t \<Rightarrow> (let (r, w') = pool_evaluate post lid (jstr patch) (jstr script)
                     (case jget cwd ''/testbed'' of None \<Rightarrow> '''' | Some c \<Rightarrow> c) t w p in (r, w', p)))"

definition close_route :: "('w, string \<times> string \<times> int, 'r) transport \<Rightarrow> string jfield \<Rightarrow> 'w \<Rightarrow>
    pool option \<Rightarrow> unit reply \<times> 'w \<times> pool option" where
  "close_route post lease_id = lease_route lease_id (close post)"

definition fault_kill_route :: "('w, string \<times> string \<times> string \<times> real \<times> int, 'r) transport \<Rightarrow> real \<Rightarrow>
    string jfield \<Rightarrow> string jfield \<Rightarrow> real jfield \<Rightarrow> 'w \<Rightarrow> pool option \<Rightarrow> 'r reply \<times> 'w \<times> pool option" where
  "fault_kill_route post now lease_id tag delay =
     lease_route lease_id (\<lambda>lid. inject_fail_stop post now lid (jstr tag) (jnum_or delay))"

text \<open>The statistics routes answer errors with HTTP 200, an unknown lease with its own code.\<close>

definition stats_route :: "('w, string \<times> string \<times> int, jdict) transport \<Rightarrow> string jfield \<Rightarrow> 'w \<Rightarrow>
    pool option \<Rightarrow> jdict reply \<times> 'w" where
  "stats_route post lease_id w POOL =
     (case POOL of
        None \<Rightarrow> (not_initialized, w)
      | Some p \<Rightarrow>
          (if jstr lease_id = [] then (ReplyErr 400 (plain_error ''lease_id required''), w)
           else (let (r, w') = pool_stats post (jstr lease_id) w p
                 in (case r of
                       Inr x \<Rightarrow> ReplyOk x
                     | Inl (KeyError k) \<Rightarrow> ReplyErr 200
                         \<lparr>re_error = exc_text (KeyError k), re_error_code = Some ''unknown_lease_id'',
                          re_retryable = None, re_retry_after_sec = None\<rparr>
                     | Inl e \<Rightarrow> ReplyErr 200
                         \<lparr>re_error = exc_text e, re_error_code = Some ''stats_unavailable'',
                          re_retryable = Some False, re_retry_after_sec = None\<rparr>, w'))))"

definition stats_batch_route :: "('w, string \<times> string list \<times> int, batch_resp) transport \<Rightarrow>
    ('w, string \<times> string \<times> int, jdict) transport \<Rightarrow> string list jfield \<Rightarrow> 'w \<Rightarrow> pool option \<Rightarrow>
    (string, jdict) dict reply \<times> 'w" where
  "stats_batch_route post_batch post lease_ids w POOL =
     (case POOL of
        None \<Rightarrow> (not_initialized, w)
      | Some p \<Rightarrow>
          (case lease_ids of
             Val (x # xs) \<Rightarrow> (let (r, w') = stats_batch post_batch post (x # xs) w p in (ReplyOk r, w'))
           | _ \<Rightarrow> (ReplyErr 400 (plain_error ''lease_ids must be a non-empty list''), w)))"

section \<open>Checkpoint routes\<close>

definition checkpoint_probe_route :: "real \<Rightarrow> string jfield \<Rightarrow> 'w \<Rightarrow> pool option \<Rightarrow>
    deprecated_reply reply \<times> 'w \<times> pool option" where
  "checkpoint_probe_route now lease_id =
     lease_route lease_id (\<lambda>lid w p. let (r, p') = checkpoint_probe now lid p in (r, w, p'))"

record ckpt_fields =
  kf_lease_id :: "string jfield"
  kf_step_idx :: "int jfield"
  kf_command_seq :: "int jfield"
  kf_cwd :: "string jfield"
  kf_env :: "(string, jval) dict jfield"
  kf_policy :: "string jfield"
  kf_reason :: "string jfield"
  kf_parent :: "string jfield"
  kf_spec :: "(string, jval) dict jfield"
  kf_backend :: "string jfield"

definition str_or :: "string jfield \<Rightarrow> string \<Rightarrow> string" where
  \<comment> \<open>\<open>str(data.get(key, default))\<close>: the text \<open>None\<close> for a null\<close>
  "str_or f d = (case jget f d of None \<Rightarrow> ''None'' | Some s \<Rightarrow> s)"

definition checkpoint_create_route :: "('w, ckpt_create_req, ckpt_create_resp) transport \<Rightarrow> real \<Rightarrow>
    ckpt_fields \<Rightarrow> 'w \<Rightarrow> pool option \<Rightarrow> ckpt_create_resp reply \<times> 'w \<times> pool option" where
  "checkpoint_create_route post now f =
     lease_route (kf_lease_id f) (\<lambda>lid w p.
       case jint (kf_step_idx f) (-1) of
         Inl e \<Rightarrow> (Inl e, w, p)
       | Inr step \<Rightarrow>
           (case jint (kf_command_seq f) (-1) of
              Inl e \<Rightarrow> (Inl e, w, p)
            | Inr seq \<Rightarrow> checkpoint_create post now lid step seq (jopt (kf_cwd f)) (jopt (kf_env f))
                (str_or (kf_policy f) '''') (str_or (kf_reason f) ''manual'') (jopt (kf_parent f))
                (jopt (kf_spec f)) (jopt (kf_backend f)) w p))"

definition checkpoint_status_route :: deprecated_reply where
  "checkpoint_status_route = checkpoint_status_reply"

definition checkpoint_list_route :: "('w, list_req, 'r) transport \<Rightarrow> ('w, string \<times> int, bool \<times> 'c list) transport \<Rightarrow>
    string jfield \<Rightarrow> 'w \<Rightarrow> pool option \<Rightarrow> ('r + 'c list_report) reply \<times> 'w" where
  "checkpoint_list_route post_one post_all lease_id w POOL =
     (case POOL of
        None \<Rightarrow> (not_initialized, w)
      | Some p \<Rightarrow>
          (if jstr lease_id = []
           then (let (r, w') = checkpoint_list_all post_all w p in (ReplyOk (Inr r), w'))
           else (let (r, w') = checkpoint_list_lease post_one (jstr lease_id) w p
                 in (reply_of (map_sum id Inl r), w'))))"

definition checkpoint_delete_route :: "('w, string \<times> string \<times> int, bool) transport \<Rightarrow>
    ('w, list_req, ckpt_list_resp) transport \<Rightarrow> string jfield \<Rightarrow> string jfield \<Rightarrow> 'w \<Rightarrow> pool option \<Rightarrow>
    bool reply \<times> 'w \<times> pool option" where
  "checkpoint_delete_route post_del post_list lease_id ck w POOL =
     (case POOL of
        None \<Rightarrow> (not_initialized, w, None)
      | Some p \<Rightarrow>
          (if jstr lease_id = [] \<or> jstr ck = []
           then (ReplyErr 400 (plain_error ''lease_id and checkpoint_id required''), w, Some p)
           else (let (r, w', p') = checkpoint_delete post_del post_list (jstr lease_id) (jstr ck) w p
                 in (reply_of r, w', Some p'))))"

definition checkpoint_gc_route :: "('w, gc_req, gc_resp) transport \<Rightarrow> ('w, list_req, ckpt_list_resp) transport \<Rightarrow>
    string jfield \<Rightarrow> int jfield \<Rightarrow> bool jfield \<Rightarrow> 'w \<Rightarrow> pool option \<Rightarrow>
    (gc_resp + gc_report) reply \<times> 'w \<times> pool option" where
  "checkpoint_gc_route post post_list lease_id keep dry w POOL =
     (case POOL of
        None \<Rightarrow> (not_initialized, w, None)
      | Some p \<Rightarrow>
          (case jint keep 1 of
             Inl e \<Rightarrow> (ReplyErr 500 (plain_error (exc_text e)), w, Some p)
           | Inr k \<Rightarrow>
               (if jstr lease_id = []
                then (let (r, w') = checkpoint_gc_all post k (jbool dry) w p in (ReplyOk (Inr r), w', Some p))
                else (let (r, w', p') = checkpoint_gc_lease post post_list (jstr lease_id) k (jbool dry) w p
                      in (reply_of (map_sum id Inl r), w', Some p')))))"

definition checkpoint_gc_drain_route :: "('w, string \<times> real \<times> real \<times> int, drain_resp) transport \<Rightarrow>
    real jfield \<Rightarrow> real jfield \<Rightarrow> 'w \<Rightarrow> pool option \<Rightarrow> (int \<times> drain_report) reply \<times> 'w" where
  "checkpoint_gc_drain_route post t poll w POOL =
     (case POOL of
        None \<Rightarrow> (not_initialized, w)
      | Some p \<Rightarrow>
          (case (jget t 600, jget poll (1 / 10)) of
             (Some t', Some poll') \<Rightarrow>
               (let (r, w') = checkpoint_gc_drain post t' poll' w p
                in (ReplyOk (if dp_ok r then 200 else 409, r), w'))
           | _ \<Rightarrow> (ReplyErr 500 (plain_error ''float() argument must not be NoneType''), w)))"

definition rerun_route :: "('w, rerun_req, rerun_resp) transport \<Rightarrow> real \<Rightarrow> string jfield \<Rightarrow> string jfield \<Rightarrow>
    string jfield \<Rightarrow> int jfield \<Rightarrow> 'w \<Rightarrow> pool option \<Rightarrow> rerun_resp reply \<times> 'w \<times> pool option" where
  "rerun_route post now lease_id ck cwd timeout =
     lease_route lease_id (\<lambda>lid w p.
       case jint timeout 300 of
         Inl e \<Rightarrow> (Inl e, w, p)
       | Inr t \<Rightarrow> rerun post now lid (jopt ck) (jopt cwd) t w p)"

section \<open>Facts about the replies\<close>

lemma lease_route_None: "fst (lease_route lid op w None) = not_initialized"
  by (simp add: lease_route_def)

lemma contains_prefix: "prefix m s \<Longrightarrow> contains m s"
  by (simp add: contains_iff_sublist prefix_imp_sublist)

lemma lower_append: "lower (s @ t) = lower s @ lower t"
  by (simp add: lower_def)

lemma limit_msg_marked: "contains ''global lease limit reached'' (lower (lease_limit_msg n m))"
proof (rule contains_prefix)
  obtain t where t: "lease_limit_msg n m = ''Global lease limit reached'' @ t"
    by (simp add: lease_limit_msg_def)
  have "lower ''Global lease limit reached'' = ''global lease limit reached''" by code_simp
  then show "prefix ''global lease limit reached'' (lower (lease_limit_msg n m))"
    by (simp only: t lower_append) simp
qed

end
