(* ===== verification/Pool_Properties.thy ===== *)
theory Pool_Properties
  imports Pool_Concurrency Pool_Routes
begin

text \<open>
  What the operations of the environment pool server do, branch by branch: allocation and its
  undoing, closing, reruns, the latest ready checkpoint, the health of a node, the status
  totals and the batch statistics, and how the allocate route answers capacity errors.
\<close>

section \<open>The slots are bounded\<close>

interpretation lease_slots: bounded_slots "\<lambda>p. 0 \<le> pl_pending_allocations p" inflight
  pl_max_total_leases "\<lambda>p. case reserve_total_slot p of Inl e \<Rightarrow> None | Inr q \<Rightarrow> Some q"
  release_total_slot
  by unfold_locales
    (auto simp: reserve_total_slot_def release_total_slot_def inflight_def split: if_splits)

text \<open>Every run of reservations and releases stays under the limit.\<close>

lemma reservations_in_limit:
  "0 \<le> pl_pending_allocations p \<Longrightarrow> 0 < pl_max_total_leases p \<Longrightarrow>
   inflight p \<le> pl_max_total_leases p \<Longrightarrow>
   inflight (lease_slots.use p ops) \<le> pl_max_total_leases p"
  using lease_slots.use_in_cap [of p ops] lease_slots.use_cap [of p ops]
  by (auto simp: lease_slots.in_cap_def)

section \<open>Allocation\<close>

lemma upd_node_undo:
  assumes "i < length (pl_nodes p)" and "g (f (pl_nodes p ! i)) = pl_nodes p ! i"
  shows "upd_node i g (upd_node i f p) = p"
  using assms by (simp add: upd_node_def)

lemma unreserve_undo:
  assumes "i < length (pl_nodes p)" and "0 \<le> nd_active_containers (pl_nodes p ! i)"
  shows "unreserve_node i (upd_node i (\<lambda>n. n\<lparr>nd_active_containers := nd_active_containers n + 1\<rparr>) p) = p"
  unfolding unreserve_node_def using assms by (intro upd_node_undo) auto

lemma release_undo:
  assumes "reserve_total_slot p = Inr q" and "0 \<le> pl_pending_allocations p"
  shows "release_total_slot q = p"
  using assms by (auto simp: reserve_total_slot_def release_total_slot_def split: if_splits)

lemma release_commutes:
  "release_total_slot (add_lease l p) = add_lease l (release_total_slot p)"
  "release_total_slot (upd_node i f p) = upd_node i f (release_total_slot p)"
  "release_total_slot (remove_lease lid p) = remove_lease lid (release_total_slot p)"
  "release_total_slot (unreserve_node i p) = unreserve_node i (release_total_slot p)"
  by (simp_all add: release_total_slot_def add_lease_def upd_node_def remove_lease_def unreserve_node_def)

definition counters_ok :: "pool \<Rightarrow> bool" where
  "counters_ok p \<longleftrightarrow> 0 \<le> pl_pending_allocations p \<and> (\<forall>n \<in> set (pl_nodes p). 0 \<le> nd_active_containers n)"

lemma counters_ok_throttle [simp]: "counters_ok (throttle_allocate_rate t p) = counters_ok p"
  by (simp add: counters_ok_def frame_simps)

lemma allocate_cases:
  assumes "allocate post uid now' now img iid cwd w p = (r, w', p')"
  obtains
    (limit) "r = Inl (RuntimeError (lease_limit_msg (inflight p) (pl_max_total_leases p)))"
      "w' = w" "p' = throttle_allocate_rate now' p"
      "0 < pl_max_total_leases p" "pl_max_total_leases p \<le> inflight p"
  | (full) p1 where "reserve_total_slot (throttle_allocate_rate now' p) = Inr p1"
      "r = Inl (RuntimeError (no_node_msg p1))" "w' = w" "p' = release_total_slot p1"
      "node_candidates p1 = []"
  | (abort) p1 i p2 e where "reserve_total_slot (throttle_allocate_rate now' p) = Inr p1"
      "pick_and_reserve_node p1 = Inr (i, p2)" "r = Inl e"
      "p' = release_total_slot (unreserve_node i p2)"
  | (success) p1 i p2 cr cid where "reserve_total_slot (throttle_allocate_rate now' p) = Inr p1"
      "pick_and_reserve_node p1 = Inr (i, p2)"
      "post (nd_url (pl_nodes p2 ! i), img, cwd, pl_create_timeout_sec p2) w = (Inr cr, w')"
      "cr_ok cr" "cr_container_id cr = Some cid"
      "r = Inr \<lparr>al_lease_id = ''swe-lease-'' @ uid, al_container_id = cid, al_node_url = nd_url (pl_nodes p2 ! i)\<rparr>"
      "p' = release_total_slot (add_lease (new_lease (''swe-lease-'' @ uid) (nd_url (pl_nodes p2 ! i)) cid img iid cwd now) p2)"
proof (cases "reserve_total_slot (throttle_allocate_rate now' p)")
  case (Inl e)
  with assms show ?thesis
    by (intro limit) (auto simp: allocate_def reserve_total_slot_def inflight_def frame_simps split: if_splits)
next
  case (Inr p1)
  note p1 = Inr
  show ?thesis
  proof (cases "pick_and_reserve_node p1")
    case (Inl e)
    with assms p1 show ?thesis
      by (intro full) (auto simp: allocate_def pick_and_reserve_node_def split: option.splits)
  next
    case (Inr x)
    with assms p1 show ?thesis
      by (cases x) (auto simp: allocate_def Let_def intro: abort success
          split: sum.splits prod.splits option.splits if_splits)
  qed
qed

text \<open>C3. An allocation that raises - the limit, no node, a failing create call, a refused create
  or a reply without a container id - leaves the pool as it was, apart from the time of the
  last allocation: no lease, no pending slot and no node counter leaks.\<close>

theorem allocate_failure_restores:
  assumes "allocate post uid now' now img iid cwd w p = (Inl e, w', p')" and "counters_ok p"
  shows "p' = throttle_allocate_rate now' p"
  using assms(1)
proof (cases rule: allocate_cases)
  case (full p1)
  with assms(2) show ?thesis by (simp add: release_undo counters_ok_def frame_simps)
next
  case (abort p1 i p2 e')
  have "unreserve_node i p2 = p1"
    using pick_Inr(1,3) [OF abort(2)] reserve_Inr(1) [OF abort(1)] assms(2)
    by (simp add: unreserve_undo counters_ok_def frame_simps)
  with abort(1,4) assms(2) show ?thesis by (simp add: release_undo counters_ok_def frame_simps)
qed auto

definition demo_refuse :: "(nat, create_req, create_resp) transport" where
  "demo_refuse q w = (Inr \<lparr>cr_ok = False, cr_container_id = None, cr_text = ''{}''\<rparr>, w + 1)"

theorem allocate_failure_restores_witness:
  "snd (snd (allocate demo_refuse ''y'' 3 3 ''img'' ''i'' ''/'' 0 demo_pool)) = throttle_allocate_rate 3 demo_pool"
proof (rule allocate_failure_restores)
  show "allocate demo_refuse ''y'' 3 3 ''img'' ''i'' ''/'' 0 demo_pool =
    (Inl (projl (fst (allocate demo_refuse ''y'' 3 3 ''img'' ''i'' ''/'' 0 demo_pool))),
     fst (snd (allocate demo_refuse ''y'' 3 3 ''img'' ''i'' ''/'' 0 demo_pool)),
     snd (snd (allocate demo_refuse ''y'' 3 3 ''img'' ''i'' ''/'' 0 demo_pool)))"
    by code_simp
  show "counters_ok demo_pool" by code_simp
qed

text \<open>A successful allocation goes to a healthy node with room that no other such node
  undercuts, counts one container more there and nowhere else, appends exactly one lease with
  the request's image, instance and working directory, and returns the pending slot.\<close>

theorem allocate_success_effect:
  assumes "allocate post uid now' now img iid cwd w p = (Inr a, w', p')" and "counters_ok p"
    and "dget (pl_leases p) (''swe-lease-'' @ uid) = None"
  shows "\<exists>i < length (pl_nodes p). node_has_room (pl_nodes p ! i) \<and>
    (\<forall>j < length (pl_nodes p). node_has_room (pl_nodes p ! j) \<longrightarrow>
      nd_active_containers (pl_nodes p ! i) \<le> nd_active_containers (pl_nodes p ! j)) \<and>
    al_node_url a = nd_url (pl_nodes p ! i) \<and>
    p' = throttle_allocate_rate now' p
      \<lparr>pl_nodes := (pl_nodes p)[i := (pl_nodes p ! i)\<lparr>nd_active_containers := nd_active_containers (pl_nodes p ! i) + 1\<rparr>],
       pl_leases := pl_leases p @ [(al_lease_id a,
         new_lease (al_lease_id a) (al_node_url a) (al_container_id a) img iid cwd now)]\<rparr>"
  using assms(1)
proof (cases rule: allocate_cases)
  case (success p1 i p2 cr cid)
  note slot = reserve_Inr(1,2) [OF success(1)]
  note pick = pick_Inr [OF success(2)]
  let ?q = "throttle_allocate_rate now' p"
  have i: "i < length (pl_nodes p)" using pick(1) slot by (simp add: frame_simps)
  have url: "nd_url (pl_nodes p2 ! i) = nd_url (pl_nodes p ! i)"
    using pick(1,3) slot by (simp add: frame_simps)
  have leases: "pl_leases p2 = pl_leases p" using pick(3) slot by (simp add: frame_simps)
  have "release_total_slot (add_lease l p2) =
      ?q\<lparr>pl_nodes := (pl_nodes p)[i := (pl_nodes p ! i)\<lparr>nd_active_containers := nd_active_containers (pl_nodes p ! i) + 1\<rparr>],
         pl_leases := dset (ls_lease_id l) l (pl_leases p)\<rparr>" for l
  proof -
    have "release_total_slot (add_lease l p2) =
        add_lease l (upd_node i (\<lambda>n. n\<lparr>nd_active_containers := nd_active_containers n + 1\<rparr>) (release_total_slot p1))"
      using pick(3) by (simp add: release_commutes)
    also have "release_total_slot p1 = ?q"
      using success(1) assms(2) by (simp add: release_undo counters_ok_def frame_simps)
    finally show ?thesis by (simp add: add_lease_def upd_node_def frame_simps)
  qed
  with success(6,7) assms(3) leases have
    "p' = ?q\<lparr>pl_nodes := (pl_nodes p)[i := (pl_nodes p ! i)\<lparr>nd_active_containers := nd_active_containers (pl_nodes p ! i) + 1\<rparr>],
      pl_leases := pl_leases p @ [(al_lease_id a,
         new_lease (al_lease_id a) (al_node_url a) (al_container_id a) img iid cwd now)]\<rparr>"
    by (simp add: dset_fresh new_lease_def)
  with success(6) i url pick(2,4) slot show ?thesis
    by (intro exI [of _ i]) (simp add: frame_simps)
qed auto

theorem allocate_success_effect_witness:
  "\<exists>i < length (pl_nodes demo_pool). node_has_room (pl_nodes demo_pool ! i) \<and>
     length (pl_leases demo_allocated) = 1"
proof -
  let ?a = "allocate demo_create ''x'' 0 7 ''img'' ''i'' ''/testbed'' 0 demo_pool"
  have run: "?a = (Inr (projr (fst ?a)), fst (snd ?a), demo_allocated)" by code_simp
  have ok: "counters_ok demo_pool" by code_simp
  have fresh: "dget (pl_leases demo_pool) (''swe-lease-'' @ ''x'') = None" by code_simp
  show ?thesis using allocate_success_effect [OF run ok fresh] demo_allocated_leases by auto
qed

section \<open>Close\<close>

text \<open>C4. Closing undoes allocating: a successful allocation followed by a close of its lease
  that reaches the exec server gives back the table, the counters and the pending slots.\<close>

theorem allocate_close_roundtrip:
  assumes "allocate post uid now' now img iid cwd w p = (Inr a, w', p')" and "counters_ok p"
    and "distinct (map nd_url (pl_nodes p))"
    and "dget (pl_leases p) (''swe-lease-'' @ uid) = None"
    and "close post' (al_lease_id a) v p' = (Inr (), v', p'')"
  shows "p'' = throttle_allocate_rate now' p"
  using assms(1)
proof (cases rule: allocate_cases)
  case (success p1 i p2 cr cid)
  note slot = reserve_Inr(1,2) [OF success(1)]
  note pick = pick_Inr [OF success(2)]
  let ?lid = "''swe-lease-'' @ uid" and ?url = "nd_url (pl_nodes p ! i)"
  have i: "i < length (pl_nodes p)" using pick(1) slot by (simp add: frame_simps)
  have url: "nd_url (pl_nodes p2 ! i) = ?url" using pick(1,3) slot by (simp add: frame_simps)
  have leases: "pl_leases p2 = pl_leases p" using pick(3) slot by (simp add: frame_simps)
  let ?l = "new_lease ?lid ?url cid img iid cwd now"
  have p': "p' = release_total_slot (add_lease ?l p2)" using success(7) url by simp
  have removed: "remove_lease ?lid p' = release_total_slot p2"
    using assms(4) leases unfolding p'
    by (auto simp: remove_lease_def add_lease_def release_total_slot_def new_lease_def dset_fresh
        dpop_append_fresh)
  have found: "find_node ?url (release_total_slot p2) = Some i"
  proof -
    have urls: "map nd_url (pl_nodes p2) = map nd_url (pl_nodes p)"
      using pick(3) slot by (simp add: urls_upd_node frame_simps)
    then have "length (pl_nodes p2) = length (pl_nodes p)" by (rule map_eq_imp_length_eq)
    with urls i distinct_urls [of p2] assms(3) url show ?thesis
      by (auto simp: find_node_def find_Some_iff frame_simps intro!: exI [of _ i])
        (metis less_irrefl less_trans)
  qed
  have "unreserve_node i (release_total_slot p2) = release_total_slot (unreserve_node i p2)"
    by (simp add: release_commutes)
  also have "unreserve_node i p2 = p1"
    using pick(1,3) slot assms(2) by (simp add: unreserve_undo counters_ok_def frame_simps)
  also have "release_total_slot p1 = throttle_allocate_rate now' p"
    using success(1) assms(2) by (simp add: release_undo counters_ok_def frame_simps)
  finally have restored: "unreserve_node i (release_total_slot p2) = throttle_allocate_rate now' p" .
  have "dget (pl_leases p') ?lid = Some ?l"
    unfolding p' by (simp add: add_lease_def release_frame new_lease_def dget_dset)
  with assms(5) success(6) removed found restored show ?thesis
    by (auto simp: close_def Let_def new_lease_def split: prod.splits sum.splits)
qed auto

definition demo_destroy :: "(nat, string \<times> string \<times> int, unit) transport" where
  "demo_destroy q w = (Inr (), w + 1)"

theorem allocate_close_roundtrip_witness:
  "snd (snd (close demo_destroy ''swe-lease-x'' 1 demo_allocated)) = throttle_allocate_rate 0 demo_pool"
proof -
  let ?a = "allocate demo_create ''x'' 0 7 ''img'' ''i'' ''/testbed'' 0 demo_pool"
  let ?c = "close demo_destroy (al_lease_id (projr (fst ?a))) 1 demo_allocated"
  have run: "?a = (Inr (projr (fst ?a)), fst (snd ?a), demo_allocated)" by code_simp
  have ok: "counters_ok demo_pool" by code_simp
  have dist: "distinct (map nd_url (pl_nodes demo_pool))" by code_simp
  have fresh: "dget (pl_leases demo_pool) (''swe-lease-'' @ ''x'') = None" by code_simp
  have close: "?c = (Inr (), fst (snd ?c), snd (snd ?c))" by code_simp
  have "al_lease_id (projr (fst ?a)) = ''swe-lease-x''" by code_simp
  then show ?thesis using allocate_close_roundtrip [OF run ok dist fresh close] by simp
qed

section \<open>Rerun and the latest ready checkpoint\<close>

lemma dget_put_lease: "dget (pl_leases (put_lease lid l p)) k = (if k = lid then Some l else dget (pl_leases p) k)"
  by (simp add: put_lease_def dget_dset)

lemma apply_rerun_fields:
  "ls_generation (apply_rerun now nc cwd r l) = ls_generation l + 1"
  "ls_rerun_count (apply_rerun now nc cwd r l) = ls_rerun_count l + 1"
  "ls_container_id (apply_rerun now nc cwd r l) = nc"
  "ls_node_url (apply_rerun now nc cwd r l) = ls_node_url l"
  "ls_lease_id (apply_rerun now nc cwd r l) = ls_lease_id l"
  "ls_latest_ready_checkpoint_id (apply_rerun now nc cwd r l) = ls_latest_ready_checkpoint_id l"
  "ls_base_image (apply_rerun now nc cwd r l) = Some (case ls_base_image l of None \<Rightarrow> ls_image l | Some b \<Rightarrow> b)"
  by (simp_all add: apply_rerun_def Let_def split: option.splits)

lemma rerun_cases:
  assumes "rerun post now lid ck cwd t w p = (r, w', p')"
  obtains (same) "p' = p" "\<And>x. r = Inr x \<Longrightarrow> \<not> rr_ok x"
  | (rerun) l x nc where "dget (pl_leases p) lid = Some l" "r = Inr x" "rr_ok x"
      "rr_new_container_id x = Some nc" "p' = put_lease lid (apply_rerun now nc (or_else cwd (ls_cwd l)) x l) p"
  using assms
  by (auto simp: rerun_def get_lease_def Let_def split: option.splits sum.splits prod.splits if_splits)

text \<open>A rerun is all or nothing: unless the exec server answered ok the pool is unchanged;
  if it did, the lease has the new container, the next generation and one more rerun, keeps its
  node, its base image and its latest ready checkpoint, and every other lease is untouched. A
  late ready reply for the generation before the rerun no longer changes anything.\<close>

theorem rerun_effect:
  assumes "rerun post now lid ck cwd t w p = (r, w', p')"
  shows "(p' = p \<and> (\<forall>x. r = Inr x \<longrightarrow> \<not> rr_ok x)) \<or>
    (\<exists>l l' x. dget (pl_leases p) lid = Some l \<and> dget (pl_leases p') lid = Some l' \<and> r = Inr x \<and> rr_ok x \<and>
      rr_new_container_id x = Some (ls_container_id l') \<and> ls_generation l' = ls_generation l + 1 \<and>
      ls_rerun_count l' = ls_rerun_count l + 1 \<and> ls_node_url l' = ls_node_url l \<and>
      ls_base_image l' = Some (case ls_base_image l of None \<Rightarrow> ls_image l | Some b \<Rightarrow> b) \<and>
      ls_latest_ready_checkpoint_id l' = ls_latest_ready_checkpoint_id l \<and>
      (\<forall>k. k \<noteq> lid \<longrightarrow> dget (pl_leases p') k = dget (pl_leases p) k) \<and> pl_nodes p' = pl_nodes p \<and>
      (\<forall>late. ls_lease_id l = lid \<and> cc_generation late = Val (ls_generation l) \<longrightarrow> record_ready l late p' = Inr p'))"
  using assms
proof (cases rule: rerun_cases)
  case (rerun l x nc)
  let ?l' = "apply_rerun now nc (or_else cwd (ls_cwd l)) x l"
  have "record_ready l late p' = Inr p'"
    if "ls_lease_id l = lid" and "cc_generation late = Val (ls_generation l)" for late
    using that rerun(5) by (auto simp: record_ready_def dget_put_lease apply_rerun_fields)
  with rerun show ?thesis
    by (intro disjI2 exI [of _ l] exI [of _ ?l'] exI [of _ x])
      (simp add: dget_put_lease apply_rerun_fields frame_simps)
qed auto

definition demo_rerun :: "(nat, rerun_req, rerun_resp) transport" where
  "demo_rerun q w = (Inr \<lparr>rr_ok = True, rr_new_container_id = Some ''c1'', rr_checkpoint_image = Absent,
     rr_restored_image = Val ''snap''\<rparr>, w + 1)"

theorem rerun_effect_witness:
  "let q = snd (snd (rerun demo_rerun 9 ''swe-lease-x'' (Some ''ck'') None 300 1 demo_allocated))
   in dget (pl_leases q) ''swe-lease-x'' \<noteq> None"
proof -
  let ?r = "rerun demo_rerun 9 ''swe-lease-x'' (Some ''ck'') None 300 1 demo_allocated"
  have run: "?r = (fst ?r, fst (snd ?r), snd (snd ?r))" by simp
  have ok: "case fst ?r of Inl e \<Rightarrow> False | Inr x \<Rightarrow> rr_ok x" by code_simp
  from rerun_effect [OF run] ok show ?thesis by (auto simp: Let_def split: sum.splits)
qed

text \<open>After a refresh that succeeds, the lease's latest checkpoint is a ready one of the
  exec server's list that no other ready one passes in the order (generation, step, creation
  time), with that checkpoint's step; with no ready checkpoint it is none, at step -1.\<close>

theorem refresh_picks_latest:
  assumes "refresh_latest_ready_checkpoint post lid w p = (Inr (), w', p')"
  shows "\<exists>l l' r. dget (pl_leases p) lid = Some l \<and> dget (pl_leases p') lid = Some l' \<and>
    fst (post (ls_node_url l @ ''/container/checkpoint/list'', Some (ls_lease_id l), 30) w) = Inr r \<and>
    (if ready_items r = [] then ls_latest_ready_checkpoint_id l' = None \<and> ls_latest_checkpoint_step_idx l' = -1
     else (\<exists>c \<in> set (ready_items r). (\<forall>d \<in> set (ready_items r). item_key d \<le> item_key c) \<and>
       ls_latest_ready_checkpoint_id l' = ck_checkpoint_id c \<and>
       ls_latest_checkpoint_step_idx l' = key_step (item_key c)))"
proof -
  obtain l r where l: "dget (pl_leases p) lid = Some l"
    and post: "post (ls_node_url l @ ''/container/checkpoint/list'', Some (ls_lease_id l), 30) w = (Inr r, w')"
    and p': "p' = (case first_max item_key (ready_items r) of
        None \<Rightarrow> put_lease lid (l\<lparr>ls_latest_ready_checkpoint_id := None, ls_latest_checkpoint_step_idx := -1\<rparr>) p
      | Some c \<Rightarrow> put_lease lid (l\<lparr>ls_latest_ready_checkpoint_id := ck_checkpoint_id c,
          ls_latest_checkpoint_step_idx := step_or_minus_one (ck_step_idx c)\<rparr>) p)"
    using assms
    by (auto simp: refresh_latest_ready_checkpoint_def get_lease_def split: option.splits sum.splits prod.splits)
  show ?thesis
  proof (cases "first_max item_key (ready_items r)")
    case None
    with l post p' show ?thesis by (auto simp: dget_put_lease)
  next
    case (Some c)
    with first_max_Some [OF Some] l post p' show ?thesis
      by (auto simp: dget_put_lease item_key_def)
  qed
qed

definition demo_item :: "string \<Rightarrow> int \<Rightarrow> int jfield \<Rightarrow> ckpt_item" where
  "demo_item i g s = \<lparr>ck_checkpoint_id = Some i, ck_status = Some ''ready'', ck_generation = Val g,
     ck_step_idx = s, ck_created_at = Val 1\<rparr>"

definition demo_list :: "(nat, list_req, ckpt_list_resp) transport" where
  "demo_list q w = (Inr \<lparr>cl_ok = True, cl_checkpoints =
     [demo_item ''a'' 0 (Val 4), demo_item ''b'' 1 (Val 0), demo_item ''c'' 0 (Val 9)]\<rparr>, w)"

theorem refresh_picks_latest_witness:
  "let q = snd (snd (refresh_latest_ready_checkpoint demo_list ''swe-lease-x'' 1 demo_allocated))
   in dget (pl_leases q) ''swe-lease-x'' \<noteq> None \<and>
      map_option ls_latest_ready_checkpoint_id (dget (pl_leases q) ''swe-lease-x'') = Some (Some ''b'')"
proof -
  let ?r = "refresh_latest_ready_checkpoint demo_list ''swe-lease-x'' 1 demo_allocated"
  have run: "?r = (Inr (), fst (snd ?r), snd (snd ?r))" by code_simp
  have "map_option ls_latest_ready_checkpoint_id (dget (pl_leases (snd (snd ?r))) ''swe-lease-x'') = Some (Some ''b'')"
    by code_simp
  with refresh_picks_latest [OF run] show ?thesis by (auto simp: Let_def)
qed

text \<open>A checkpoint taken at step 0 is recorded with two different steps: the reply to its
  creation sets the lease's step to -1 (the code reads the step with \<open>or -1\<close>, and 0 is
  falsy), while a refresh from the list of the exec server sets it to 0.\<close>

theorem step_zero_recorded_twice:
  assumes "dget (pl_leases p) (ls_lease_id l) = Some l"
    and "cc_ok r" "cc_status r = Some ''ready''" "cc_generation r = Absent"
    and "cc_container_id r = Val (ls_container_id l)" "cc_checkpoint_id r = Some ck" "ck \<noteq> []"
    and "cc_step_idx r = Val 0" "ls_generation l \<ge> 0"
    and "\<And>q w. post q w = (Inr \<lparr>cl_ok = True, cl_checkpoints = [demo_item ck (ls_generation l) (Val 0)]\<rparr>, w)"
  shows "\<exists>p1. record_ready l r p = Inr p1 \<and>
    map_option ls_latest_checkpoint_step_idx (dget (pl_leases p1) (ls_lease_id l)) = Some (-1) \<and>
    map_option ls_latest_ready_checkpoint_id (dget (pl_leases p1) (ls_lease_id l)) = Some (Some ck) \<and>
    map_option ls_latest_checkpoint_step_idx (dget (pl_leases (snd (snd
      (refresh_latest_ready_checkpoint post (ls_lease_id l) w p1)))) (ls_lease_id l)) = Some 0"
  using assms
  by (cases ck)
    (auto simp: record_ready_def dget_put_lease refresh_latest_ready_checkpoint_def get_lease_def
      ready_items_def demo_item_def nonempty_def step_or_minus_one_def)

definition demo_reply :: ckpt_create_resp where
  "demo_reply = \<lparr>cc_ok = True, cc_status = Some ''ready'', cc_container_id = Val ''c0'',
     cc_generation = Absent, cc_step_idx = Val 0, cc_checkpoint_id = Some ''k''\<rparr>"

definition demo_lease :: lease where
  "demo_lease = new_lease ''swe-lease-x'' ''http://a'' ''c0'' ''img'' ''i'' ''/testbed'' 7"

definition demo_list_one :: "(nat, list_req, ckpt_list_resp) transport" where
  "demo_list_one q w = (Inr \<lparr>cl_ok = True, cl_checkpoints = [demo_item ''k'' 0 (Val 0)]\<rparr>, w)"

theorem step_zero_recorded_twice_witness:
  "\<exists>p1. record_ready demo_lease demo_reply demo_allocated = Inr p1 \<and>
     map_option ls_latest_checkpoint_step_idx (dget (pl_leases p1) (ls_lease_id demo_lease)) = Some (-1)"
proof -
  have at: "dget (pl_leases demo_allocated) (ls_lease_id demo_lease) = Some demo_lease" by code_simp
  note zero = step_zero_recorded_twice [where post = demo_list_one and ck = "''k''" and w = 0, OF at, of demo_reply]
  show ?thesis
    using zero by (simp add: demo_reply_def demo_lease_def new_lease_def demo_list_one_def) blast
qed

section \<open>Health\<close>

fun health_run :: "int \<Rightarrow> (real \<times> bool) list \<Rightarrow> exec_node \<Rightarrow> exec_node" where
  \<comment> \<open>a node under a sequence of health checks, each with its time and outcome\<close>
  "health_run threshold [] n = n"
| "health_run threshold ((now, ok) # obs) n = health_run threshold obs (health_step threshold now ok n)"

lemma health_run_append [simp]: "health_run th (xs @ ys) n = health_run th ys (health_run th xs n)"
  by (induction th xs n rule: health_run.induct) auto

lemma health_run_failures:
  "1 \<le> th \<Longrightarrow> nd_healthy n \<Longrightarrow> nd_consecutive_health_check_failures n = 0 \<Longrightarrow>
   nd_consecutive_health_check_failures (health_run th (map (\<lambda>t. (t, False)) ts) n) = int (length ts) \<and>
   (nd_healthy (health_run th (map (\<lambda>t. (t, False)) ts) n) \<longleftrightarrow> int (length ts) < th)"
  by (induction ts rule: rev_induct) (auto simp: health_step_def Let_def)

lemma health_run_frame:
  "nd_active_containers (health_run th obs n) = nd_active_containers n"
  "nd_url (health_run th obs n) = nd_url n"
  "nd_max_containers (health_run th obs n) = nd_max_containers n"
  by (induction th obs n rule: health_run.induct) (auto simp: health_step_def Let_def)

text \<open>One answered health check makes a node healthy whatever came before; after it, the node
  stays healthy through fewer than \<open>health_check_failure_threshold\<close> failures in a row and is
  unhealthy from that many on. Its reservations are never touched.\<close>

theorem health_hysteresis:
  assumes "1 \<le> threshold"
  shows "(nd_healthy (health_run threshold (obs @ (t0, True) # map (\<lambda>t. (t, False)) ts) n) \<longleftrightarrow>
      int (length ts) < threshold) \<and>
    nd_active_containers (health_run threshold obs n) = nd_active_containers n"
proof -
  let ?m = "health_step threshold t0 True (health_run threshold obs n)"
  have "nd_healthy ?m" "nd_consecutive_health_check_failures ?m = 0"
    by (simp_all add: health_step_def)
  from health_run_failures [OF assms this, of ts] show ?thesis by (simp add: health_run_frame)
qed

theorem health_hysteresis_witness:
  "nd_healthy (health_run 3 ([(1, False)] @ (2, True) # map (\<lambda>t. (t, False)) [3, 4]) (new_node ''u'' 1)) \<and>
   \<not> nd_healthy (health_run 3 ([] @ (2, True) # map (\<lambda>t. (t, False)) [3, 4, 5]) (new_node ''u'' 1))"
  using health_hysteresis [of 3 "[(1, False)]" 2 "[3, 4]" "new_node ''u'' 1"]
    health_hysteresis [of 3 "[]" 2 "[3, 4, 5]" "new_node ''u'' 1"] by simp

section \<open>Status\<close>

lemma sum_zip_snd:
  fixes f :: "'b \<Rightarrow> 'x::monoid_add"
  shows "length ms = length ns \<Longrightarrow> (\<Sum>(n, m)\<leftarrow>zip ns ms. f m) = (\<Sum>m\<leftarrow>ms. f m)"
  by (induction ms ns rule: list_induct2) auto

lemma collect_nodes_sums:
  "collect_nodes get ns w (done, acc) = ((nodes, cluster), w') \<Longrightarrow>
   \<exists>ms. nodes = done @ zip ns ms \<and> length ms = length ns \<and> cluster = foldl add_metrics acc ms \<and>
     list_all2 (\<lambda>n m. \<not> nd_healthy n \<longrightarrow> m = zero_metrics) ns ms"
proof (induction ns arbitrary: w "done" acc)
  case (Cons n ns)
  obtain m w1 where m: "node_metrics get n w = (m, w1)" by fastforce
  with Cons.prems have "collect_nodes get ns w1 (done @ [(n, m)], add_metrics acc m) = ((nodes, cluster), w')"
    by simp
  from Cons.IH [OF this] obtain ms where
    "nodes = (done @ [(n, m)]) @ zip ns ms" "length ms = length ns"
    "cluster = foldl add_metrics (add_metrics acc m) ms"
    "list_all2 (\<lambda>n m. \<not> nd_healthy n \<longrightarrow> m = zero_metrics) ns ms" by blast
  moreover have "\<not> nd_healthy n \<longrightarrow> m = zero_metrics" using m by (auto simp: node_metrics_def)
  ultimately show ?case by (intro exI [of _ "m # ms"]) simp
qed simp

lemma foldl_metrics:
  "mt_memory_total (foldl add_metrics acc ms) = mt_memory_total acc + (\<Sum>m\<leftarrow>ms. max 0 (mt_memory_total m))"
  "mt_memory_available (foldl add_metrics acc ms) = mt_memory_available acc + (\<Sum>m\<leftarrow>ms. max 0 (mt_memory_available m))"
  "mt_memory_free (foldl add_metrics acc ms) = mt_memory_free acc + (\<Sum>m\<leftarrow>ms. max 0 (mt_memory_free m))"
  "mt_cpu_total (foldl add_metrics acc ms) = mt_cpu_total acc + (\<Sum>m\<leftarrow>ms. max 0 (mt_cpu_total m))"
  "mt_cpu_available (foldl add_metrics acc ms) = mt_cpu_available acc + (\<Sum>m\<leftarrow>ms. max 0 (mt_cpu_available m))"
  "mt_disk_read_total (foldl add_metrics acc ms) = mt_disk_read_total acc + (\<Sum>m\<leftarrow>ms. max 0 (mt_disk_read_total m))"
  "mt_disk_read_available (foldl add_metrics acc ms) = mt_disk_read_available acc + (\<Sum>m\<leftarrow>ms. max 0 (mt_disk_read_available m))"
  "mt_disk_write_total (foldl add_metrics acc ms) = mt_disk_write_total acc + (\<Sum>m\<leftarrow>ms. max 0 (mt_disk_write_total m))"
  "mt_disk_write_available (foldl add_metrics acc ms) = mt_disk_write_available acc + (\<Sum>m\<leftarrow>ms. max 0 (mt_disk_write_available m))"
  by (induction ms arbitrary: acc) (simp_all add: add_metrics_def)

lemma pool_status_sums:
  assumes "pool_status get w p = (s, w')"
  obtains ms where "sr_nodes s = zip (pl_nodes p) ms" "length ms = length (pl_nodes p)"
    "sr_cluster s = foldl add_metrics zero_metrics ms"
    "list_all2 (\<lambda>n m. \<not> nd_healthy n \<longrightarrow> m = zero_metrics) (pl_nodes p) ms"
    "sr_total_leases s = length (pl_leases p)"
proof -
  obtain nodes cluster where c: "collect_nodes get (pl_nodes p) w ([], zero_metrics) = ((nodes, cluster), w')"
    using assms by (auto simp: pool_status_def split: prod.splits)
  then have "sr_nodes s = nodes" "sr_cluster s = cluster" "sr_total_leases s = length (pl_leases p)"
    using assms by (auto simp: pool_status_def)
  with collect_nodes_sums [OF c] that show thesis by auto
qed

text \<open>The cluster totals of the status report are the sums over the nodes it lists of their
  own values with negative ones read as zero; the nodes are those of the pool in order, and an
  unhealthy or unreachable node adds nothing.\<close>

theorem status_totals:
  assumes "pool_status get w p = (s, w')"
  shows "map fst (sr_nodes s) = pl_nodes p \<and>
    (\<forall>(n, m) \<in> set (sr_nodes s). \<not> nd_healthy n \<longrightarrow> m = zero_metrics) \<and>
    mt_memory_total (sr_cluster s) = (\<Sum>(n, m)\<leftarrow>sr_nodes s. max 0 (mt_memory_total m)) \<and>
    mt_memory_available (sr_cluster s) = (\<Sum>(n, m)\<leftarrow>sr_nodes s. max 0 (mt_memory_available m)) \<and>
    mt_cpu_total (sr_cluster s) = (\<Sum>(n, m)\<leftarrow>sr_nodes s. max 0 (mt_cpu_total m)) \<and>
    mt_disk_write_available (sr_cluster s) = (\<Sum>(n, m)\<leftarrow>sr_nodes s. max 0 (mt_disk_write_available m)) \<and>
    sr_total_leases s = length (pl_leases p)"
proof -
  obtain ms where ms: "sr_nodes s = zip (pl_nodes p) ms" "length ms = length (pl_nodes p)"
    "sr_cluster s = foldl add_metrics zero_metrics ms"
    "list_all2 (\<lambda>n m. \<not> nd_healthy n \<longrightarrow> m = zero_metrics) (pl_nodes p) ms"
    "sr_total_leases s = length (pl_leases p)" by (rule pool_status_sums [OF assms])
  have sums: "(\<Sum>(n, m)\<leftarrow>sr_nodes s. f m) = (\<Sum>m\<leftarrow>ms. f m)" for f :: "metrics \<Rightarrow> 'x::monoid_add"
    using sum_zip_snd [OF ms(2)] unfolding ms(1) by blast
  show ?thesis
    using ms(2,4,5) unfolding sums ms(3)
    by (auto simp: foldl_metrics zero_metrics_def ms(1) list_all2_iff)
qed

definition demo_host :: "(nat, string \<times> int, host_stats) transport" where
  "demo_host q w = (Inr \<lparr>hs_ok = True, hs_memory_total_bytes = Val 64, hs_memory_available_bytes = Val 32,
     hs_memory_free_bytes = Null, hs_cpu_total_percent = Val 100, hs_cpu_available_percent = Absent,
     hs_disk_read_total_bps = Absent, hs_disk_read_available_bps = Absent,
     hs_disk_write_total_bps = Absent, hs_disk_write_available_bps = Absent\<rparr>, w + 1)"

theorem status_totals_witness:
  "map fst (sr_nodes (fst (pool_status demo_host 0 demo_pool))) = pl_nodes demo_pool \<and>
   mt_memory_total (sr_cluster (fst (pool_status demo_host 0 demo_pool))) = 64"
proof -
  have "mt_memory_total (sr_cluster (fst (pool_status demo_host 0 demo_pool))) = 64" by code_simp
  then show ?thesis
    using status_totals [of demo_host 0 demo_pool, OF prod.collapse [symmetric]] by blast
qed

section \<open>Batch statistics\<close>

definition asked :: "(string, (string \<times> lease) list) dict \<Rightarrow> string set" where
  \<comment> \<open>the lease ids waiting in the groups\<close>
  "asked grouped = (\<Union>(url, ls) \<in> set grouped. fst ` set ls)"

definition labelled :: "(string, jdict) dict \<Rightarrow> bool" where
  \<comment> \<open>every entry carries its own lease id\<close>
  "labelled stats \<longleftrightarrow> (\<forall>(lid, item) \<in> set stats. dget item ''lease_id'' = Some (JS lid))"

lemma set_dset_subset: "set (dset k v d) \<subseteq> insert (k, v) (set d)"
  by (induction d) auto

lemma labelled_dset: "labelled stats \<Longrightarrow> dget item ''lease_id'' = Some (JS lid) \<Longrightarrow> labelled (dset lid item stats)"
  using set_dset_subset [of lid item stats] by (auto simp: labelled_def)

lemma unknown_item_id: "dget (unknown_item lid) ''lease_id'' = Some (JS lid)"
  by (simp add: unknown_item_def)

lemma asked_dset:
  "distinct (dkeys g) \<Longrightarrow> asked (dset u (dget_def g u [] @ [(lid, l)]) g) = insert lid (asked g)"
proof (induction g)
  case (Cons e g)
  obtain v ls where e: "e = (v, ls)" by (cases e)
  with Cons show ?case by (auto simp: asked_def dget_def_def)
qed (simp add: asked_def dget_def_def)

lemma group_leases_split:
  "group_leases p lids stats g = (stats', g') \<Longrightarrow> distinct (dkeys g) \<Longrightarrow> labelled stats \<Longrightarrow>
   labelled stats' \<and> fst ` set stats' \<union> asked g' = fst ` set stats \<union> asked g \<union> set lids"
proof (induction p lids stats g rule: group_leases.induct)
  case (2 p lid lids stats g)
  show ?case
  proof (cases "dget (pl_leases p) lid")
    case None
    with 2(1) [OF None] 2(3-) show ?thesis
      by (simp add: keys_dset labelled_dset unknown_item_id)
  next
    case (Some l)
    with 2(2) [OF Some] 2(3-) show ?thesis by (simp add: asked_dset distinct_dset)
  qed
qed simp

lemma decorate_id: "dget (decorate lid l item) ''lease_id'' = Some (JS lid)"
  by (simp add: decorate_def dmerge_def lease_fields_def dget_dset del: update.simps)

lemma fold_decorate:
  "labelled stats \<Longrightarrow> labelled (fold (\<lambda>(lid, l). dset lid (decorate lid l (f l))) ls stats) \<and>
   fst ` set (fold (\<lambda>(lid, l). dset lid (decorate lid l (f l))) ls stats) = fst ` set stats \<union> fst ` set ls"
proof (induction ls arbitrary: stats)
  case (Cons x ls)
  obtain lid l where x: "x = (lid, l)" by (cases x)
  have "labelled (dset lid (decorate lid l (f l)) stats)"
    by (rule labelled_dset [OF Cons.prems decorate_id])
  from Cons.IH [OF this] show ?case by (simp add: x keys_dset)
qed simp

lemma one_by_one_covers:
  "stats_one_by_one post ls w stats = (stats', w') \<Longrightarrow> labelled stats \<Longrightarrow>
   labelled stats' \<and> fst ` set stats' = fst ` set stats \<union> fst ` set ls"
proof (induction ls arbitrary: w stats)
  case (Cons x ls)
  obtain lid l where x: "x = (lid, l)" by (cases x)
  obtain item w1 where "stats_one_by_one post ls w1 (dset lid (decorate lid l item) stats) = (stats', w')"
    using Cons.prems(1) by (auto simp: x split: prod.splits sum.splits)
  moreover have "labelled (dset lid (decorate lid l item) stats)"
    by (rule labelled_dset [OF Cons.prems(2) decorate_id])
  ultimately show ?case using Cons.IH by (simp add: x keys_dset)
qed simp

lemma stats_nodes_covers:
  "stats_nodes pb post g w stats = (stats', w') \<Longrightarrow> labelled stats \<Longrightarrow>
   labelled stats' \<and> fst ` set stats' = fst ` set stats \<union> asked g"
proof (induction g arbitrary: w stats)
  case (Cons x g)
  obtain url ls where x: "x = (url, ls)" by (cases x)
  obtain s1 w2 where rest: "stats_nodes pb post g w2 s1 = (stats', w')"
    and s1: "labelled s1 \<and> fst ` set s1 = fst ` set stats \<union> fst ` set ls"
  proof -
    obtain r w1 where q: "pb (url @ ''/container/stats_batch'', map (\<lambda>x. ls_container_id (snd x)) ls, 30) w = (r, w1)"
      by fastforce
    obtain s2 w2 where one: "stats_one_by_one post ls w1 stats = (s2, w2)" by fastforce
    consider bc where "r = Inr (True, Some bc)" | "stats_nodes pb post g w2 s2 = (stats', w')"
      using Cons.prems(1) q one by (auto simp: x split: sum.splits prod.splits bool.splits option.splits)
    then show ?thesis
    proof cases
      case (1 bc)
      with that Cons.prems q fold_decorate [OF Cons.prems(2), of "batch_item bc" ls] show ?thesis
        by (simp add: x)
    next
      case 2
      with that one_by_one_covers [OF one Cons.prems(2)] show ?thesis by blast
    qed
  qed
  from Cons.IH [OF rest] s1 show ?case by (auto simp: asked_def x)
qed (simp add: asked_def)

text \<open>The batch statistics answer every lease that was asked for and nothing else, whatever
  the exec servers do: the keys of the reply are the requested ids (stripped, empty ones
  dropped), and each entry names its own lease.\<close>

theorem stats_batch_complete:
  "set (dkeys (fst (stats_batch post_batch post lease_ids w p))) = {strip s |s. s \<in> set lease_ids \<and> strip s \<noteq> []} \<and>
   labelled (fst (stats_batch post_batch post lease_ids w p))"
proof -
  let ?req = "map strip (filter (\<lambda>s. strip s \<noteq> []) lease_ids)"
  obtain stats g where split: "group_leases p ?req [] [] = (stats, g)" by fastforce
  have g: "labelled stats \<and> fst ` set stats \<union> asked g = set ?req"
    using group_leases_split [OF split] by (simp add: labelled_def asked_def)
  obtain stats' w' where nodes: "stats_nodes post_batch post g w stats = (stats', w')" by fastforce
  have "labelled stats' \<and> fst ` set stats' = set ?req"
    using stats_nodes_covers [OF nodes] g by simp
  moreover have "?req = [] \<Longrightarrow> stats_batch post_batch post lease_ids w p = ([], w)"
    by (simp add: stats_batch_def)
  moreover have "?req \<noteq> [] \<Longrightarrow> stats_batch post_batch post lease_ids w p = (stats', w')"
    using split nodes by (simp add: stats_batch_def)
  moreover have "set ?req = {strip s |s. s \<in> set lease_ids \<and> strip s \<noteq> []}" by auto
  ultimately show ?thesis by (cases "?req = []") (simp_all add: labelled_def)
qed

section \<open>Collecting over the cluster\<close>

fun gc_add :: "string \<Rightarrow> gc_resp res \<Rightarrow> gc_report \<Rightarrow> gc_report" where
  \<comment> \<open>what one node's answer adds to the report\<close>
  "gc_add url (Inl e) acc = acc\<lparr>gp_ok := False, gp_nodes := gp_nodes acc @ [(url, Inl e)]\<rparr>"
| "gc_add url (Inr r) acc = (if gr_ok r
     then acc\<lparr>gp_nodes := gp_nodes acc @ [(url, Inr r)],
           gp_deleted_count := gp_deleted_count acc + jget_or (gr_deleted_count r) 0 0,
           gp_reclaimed_bytes := gp_reclaimed_bytes acc + jget_or (gr_reclaimed_bytes r) 0 0,
           gp_deleted_checkpoint_ids := gp_deleted_checkpoint_ids acc @ gr_deleted_checkpoint_ids r\<rparr>
     else acc\<lparr>gp_nodes := gp_nodes acc @ [(url, Inr r)], gp_ok := False\<rparr>)"

lemma gc_nodes_Cons:
  "checkpoint_gc_on_node post url None keep dry 120 w = (r, w1) \<Longrightarrow>
   gc_nodes post keep dry (url # urls) w acc = gc_nodes post keep dry urls w1 (gc_add url r acc)"
  by (cases r) (simp_all add: Let_def)

lemma gc_nodes_sum:
  "gc_nodes post keep dry urls w acc = (rep, w') \<Longrightarrow>
   \<exists>rs. gp_nodes rep = gp_nodes acc @ rs \<and> map fst rs = urls \<and>
     gp_ok rep = (gp_ok acc \<and> (\<forall>(u, r) \<in> set rs. case r of Inl e \<Rightarrow> False | Inr x \<Rightarrow> gr_ok x)) \<and>
     gp_deleted_checkpoint_ids rep = gp_deleted_checkpoint_ids acc @
       concat (map (\<lambda>(u, r). case r of Inl e \<Rightarrow> [] | Inr x \<Rightarrow> if gr_ok x then gr_deleted_checkpoint_ids x else []) rs) \<and>
     gp_deleted_count rep = gp_deleted_count acc +
       (\<Sum>(u, r)\<leftarrow>rs. case r of Inl e \<Rightarrow> 0 | Inr x \<Rightarrow> if gr_ok x then jget_or (gr_deleted_count x) 0 0 else 0)"
proof (induction urls arbitrary: w acc)
  case (Cons url urls)
  obtain r w1 where r: "checkpoint_gc_on_node post url None keep dry 120 w = (r, w1)" by fastforce
  let ?acc1 = "gc_add url r acc"
  have rest: "gc_nodes post keep dry urls w1 ?acc1 = (rep, w')"
    using Cons.prems unfolding gc_nodes_Cons [OF r] .
  have acc1: "gp_nodes ?acc1 = gp_nodes acc @ [(url, r)]"
      "gp_ok ?acc1 = (gp_ok acc \<and> (case r of Inl e \<Rightarrow> False | Inr x \<Rightarrow> gr_ok x))"
      "gp_deleted_checkpoint_ids ?acc1 = gp_deleted_checkpoint_ids acc @
        (case r of Inl e \<Rightarrow> [] | Inr x \<Rightarrow> if gr_ok x then gr_deleted_checkpoint_ids x else [])"
      "gp_deleted_count ?acc1 = gp_deleted_count acc +
        (case r of Inl e \<Rightarrow> 0 | Inr x \<Rightarrow> if gr_ok x then jget_or (gr_deleted_count x) 0 0 else 0)"
    by (cases r; simp)+
  from Cons.IH [OF rest] obtain rs where
    "gp_nodes rep = gp_nodes ?acc1 @ rs" "map fst rs = urls"
    "gp_ok rep = (gp_ok ?acc1 \<and> (\<forall>(u, r) \<in> set rs. case r of Inl e \<Rightarrow> False | Inr x \<Rightarrow> gr_ok x))"
    "gp_deleted_checkpoint_ids rep = gp_deleted_checkpoint_ids ?acc1 @
       concat (map (\<lambda>(u, r). case r of Inl e \<Rightarrow> [] | Inr x \<Rightarrow> if gr_ok x then gr_deleted_checkpoint_ids x else []) rs)"
    "gp_deleted_count rep = gp_deleted_count ?acc1 +
       (\<Sum>(u, r)\<leftarrow>rs. case r of Inl e \<Rightarrow> 0 | Inr x \<Rightarrow> if gr_ok x then jget_or (gr_deleted_count x) 0 0 else 0)"
    by blast
  with acc1 show ?case by (intro exI [of _ "(url, r) # rs"]) (simp split: sum.splits)
qed simp

text \<open>The cluster-wide garbage collection visits every node once, in order, and goes on after
  a node that fails; its ids and its count are those of exactly the nodes that answered ok, and
  it reports ok only when all of them did.\<close>

theorem gc_all_accounts:
  assumes "checkpoint_gc_all post keep dry w p = (rep, w')"
  shows "map fst (gp_nodes rep) = map nd_url (pl_nodes p) \<and>
    (gp_ok rep \<longleftrightarrow> (\<forall>(u, r) \<in> set (gp_nodes rep). case r of Inl e \<Rightarrow> False | Inr x \<Rightarrow> gr_ok x)) \<and>
    gp_deleted_checkpoint_ids rep = concat (map (\<lambda>(u, r). case r of Inl e \<Rightarrow> []
      | Inr x \<Rightarrow> if gr_ok x then gr_deleted_checkpoint_ids x else []) (gp_nodes rep)) \<and>
    gp_deleted_count rep = (\<Sum>(u, r)\<leftarrow>gp_nodes rep. case r of Inl e \<Rightarrow> 0
      | Inr x \<Rightarrow> if gr_ok x then jget_or (gr_deleted_count x) 0 0 else 0)"
  using gc_nodes_sum [OF assms [unfolded checkpoint_gc_all_def]] by auto

definition demo_gc :: "(nat, gc_req, gc_resp) transport" where
  "demo_gc q w = (if w = 0 then (Inl (Timeout ''t''), 1)
     else (Inr \<lparr>gr_ok = True, gr_deleted_count = Val 2, gr_reclaimed_bytes = Null,
       gr_deleted_checkpoint_ids = [''a'', ''b'']\<rparr>, w + 1))"

definition demo_two :: pool where
  "demo_two = new_pool [''http://a'', ''http://b''] 1 0 1 0 1 1 1"

theorem gc_all_accounts_witness:
  "map fst (gp_nodes (fst (checkpoint_gc_all demo_gc 1 False 0 demo_two))) = [''http://a'', ''http://b''] \<and>
   gp_deleted_count (fst (checkpoint_gc_all demo_gc 1 False 0 demo_two)) = 2 \<and>
   \<not> gp_ok (fst (checkpoint_gc_all demo_gc 1 False 0 demo_two))"
proof -
  have "gp_deleted_count (fst (checkpoint_gc_all demo_gc 1 False 0 demo_two)) = 2 \<and>
      \<not> gp_ok (fst (checkpoint_gc_all demo_gc 1 False 0 demo_two)) \<and>
      map nd_url (pl_nodes demo_two) = [''http://a'', ''http://b'']" by code_simp
  then show ?thesis
    using gc_all_accounts [of demo_gc 1 False 0 demo_two, OF prod.collapse [symmetric]] by simp
qed

section \<open>The allocate route\<close>

text \<open>When the global limit refuses a request, the route answers HTTP 200 with the retryable
  error \<open>capacity_limited\<close>; when no exec node has room it answers HTTP 500 without a retry
  hint unless the node addresses happen to contain a marker, because the message of the pool
  ("All exec nodes are full or unhealthy") is not the one the route looks for.\<close>

theorem allocate_route_capacity:
  assumes "jstr img \<noteq> []" and "0 \<le> pl_pending_allocations p"
  shows "(0 < pl_max_total_leases p \<and> pl_max_total_leases p \<le> inflight p \<longrightarrow>
      fst (allocate_route post uid now' now img iid cwd w (Some p)) =
        ReplyErr 200 (retryable_error (lease_limit_msg (inflight p) (pl_max_total_leases p)) ''capacity_limited'' 1)) \<and>
    (pl_max_total_leases p \<le> 0 \<and> node_candidates p = [] \<and>
        \<not> contains ''global lease limit reached'' (lower (no_node_msg p)) \<and>
        \<not> contains ''no healthy exec nodes available'' (lower (no_node_msg p)) \<longrightarrow>
      fst (allocate_route post uid now' now img iid cwd w (Some p)) = ReplyErr 500 (plain_error (no_node_msg p)))"
proof -
  have msg: "no_node_msg (throttle_allocate_rate now' p) = no_node_msg p"
    "node_candidates (throttle_allocate_rate now' p) = node_candidates p"
    "inflight (throttle_allocate_rate now' p) = inflight p"
    by (simp_all add: no_node_msg_def node_candidates_def inflight_def frame_simps)
  show ?thesis
    using assms
    by (auto simp: allocate_route_def allocate_def reserve_total_slot_def pick_and_reserve_node_def
        msg frame_simps allocate_error_def limit_msg_marked Let_def split: option.splits)
qed

definition demo_full :: pool where
  "demo_full = (demo_two\<lparr>pl_nodes := map (\<lambda>n. n\<lparr>nd_active_containers := 1\<rparr>) (pl_nodes demo_two)\<rparr>)"

theorem allocate_route_capacity_witness:
  "\<exists>e. fst (allocate_route demo_create ''x'' 0 7 (Val ''img'') Absent Absent 0 (Some demo_full)) = ReplyErr 500 e \<and>
    re_retryable e = None"
proof -
  have "pl_max_total_leases demo_full \<le> 0" "node_candidates demo_full = []"
    "0 \<le> pl_pending_allocations demo_full" by code_simp+
  moreover have "\<not> contains ''global lease limit reached'' (lower (no_node_msg demo_full))" by code_simp
  moreover have "\<not> contains ''no healthy exec nodes available'' (lower (no_node_msg demo_full))" by code_simp
  ultimately show ?thesis
    using allocate_route_capacity [of "Val ''img''" demo_full demo_create "''x''" 0 7 Absent Absent 0]
    by (auto simp: plain_error_def)
qed

end
