(* ===== verification/Checkpoint_Policy.thy ===== *)
theory Checkpoint_Policy
  imports PyText "HOL-Library.List_Lexorder" "HOL-Library.Char_ord" "HOL-Library.Product_Lexorder"
begin

text \<open>
  The checkpoint policy runtime (\<open>swe-rl/checkpoint_policy_runtime.py\<close>): the model of the
  tail of LLM waits behind the adaptive policy, the decision to probe, and the planner that
  picks the samples a fault is injected into. The planner's file is a value that the
  operations read and write under its lock; \<open>random.Random(seed).random()\<close> is a parameter
  \<open>rnd seed i\<close>, its i-th draw.
\<close>

section \<open>Binary search\<close>

text \<open>\<open>bisect.bisect_right(xs, x)\<close>, as the standard library computes it.\<close>

function bisect_loop :: "real list \<Rightarrow> real \<Rightarrow> nat \<Rightarrow> nat \<Rightarrow> nat" where
  "bisect_loop xs x lo hi =
     (if lo < hi
      then (let mid = (lo + hi) div 2
            in if x < xs ! mid then bisect_loop xs x lo mid else bisect_loop xs x (mid + 1) hi)
      else lo)"
  by pat_completeness auto
termination
  by (relation "measure (\<lambda>(xs, x, lo, hi). hi - lo)") auto

declare bisect_loop.simps [simp del]

definition bisect_right :: "real list \<Rightarrow> real \<Rightarrow> nat" where
  "bisect_right xs x = bisect_loop xs x 0 (length xs)"

lemma bisect_loop_split:
  "sorted xs \<Longrightarrow> lo \<le> hi \<Longrightarrow> hi \<le> length xs \<Longrightarrow> (\<And>i. i < lo \<Longrightarrow> xs ! i \<le> x) \<Longrightarrow>
   (\<And>i. hi \<le> i \<Longrightarrow> i < length xs \<Longrightarrow> x < xs ! i) \<Longrightarrow>
   bisect_loop xs x lo hi \<le> length xs \<and> (\<forall>i < bisect_loop xs x lo hi. xs ! i \<le> x) \<and>
   (\<forall>i < length xs. bisect_loop xs x lo hi \<le> i \<longrightarrow> x < xs ! i)"
proof (induction xs x lo hi rule: bisect_loop.induct)
  case (1 xs x lo hi)
  show ?case
  proof (cases "lo < hi")
    case True
    let ?m = "(lo + hi) div 2"
    have m: "lo \<le> ?m" "?m < hi" using True by auto
    show ?thesis
    proof (cases "x < xs ! ?m")
      case less: True
      have above: "x < xs ! i" if "?m \<le> i" "i < length xs" for i
        using that less sorted_nth_mono [OF "1.prems"(1) that] by linarith
      from "1.IH"(1) [OF True refl less "1.prems"(1) m(1) _ "1.prems"(4) above]
      show ?thesis using True less m "1.prems"(3) by (simp add: bisect_loop.simps [of xs x lo hi] Let_def)
    next
      case geq: False
      have below: "xs ! i \<le> x" if "i < ?m + 1" for i
        using that geq sorted_nth_mono [OF "1.prems"(1), of i ?m] m "1.prems"(3) by fastforce
      from "1.IH"(2) [OF True refl geq "1.prems"(1) _ "1.prems"(3) below "1.prems"(5)]
      show ?thesis using True geq m by (simp add: bisect_loop.simps [of xs x lo hi] Let_def)
    qed
  next
    case False
    then have "bisect_loop xs x lo hi = lo" by (simp add: bisect_loop.simps [of xs x lo hi])
    with False "1.prems" show ?thesis by auto
  qed
qed

lemma bisect_right_split:
  assumes "sorted xs"
  shows "take (bisect_right xs x) xs = filter (\<lambda>v. v \<le> x) xs"
    and "drop (bisect_right xs x) xs = filter (\<lambda>v. x < v) xs"
    and "bisect_right xs x \<le> length xs"
proof -
  let ?k = "bisect_right xs x"
  have k: "?k \<le> length xs" "\<And>i. i < ?k \<Longrightarrow> xs ! i \<le> x" "\<And>i. i < length xs \<Longrightarrow> ?k \<le> i \<Longrightarrow> x < xs ! i"
    using bisect_loop_split [OF assms, of 0 "length xs" x] by (auto simp: bisect_right_def)
  have t: "\<forall>v \<in> set (take ?k xs). v \<le> x" and d: "\<forall>v \<in> set (drop ?k xs). x < v"
    using k by (auto simp: in_set_conv_nth)
  have "filter (\<lambda>v. v \<le> x) (take ?k xs @ drop ?k xs) = take ?k xs"
    using t d by (auto simp: filter_id_conv filter_empty_conv not_le simp del: append_take_drop_id)
  then show "take ?k xs = filter (\<lambda>v. v \<le> x) xs" by simp
  have "filter (\<lambda>v. x < v) (take ?k xs @ drop ?k xs) = drop ?k xs"
    using t d by (auto simp: filter_id_conv filter_empty_conv not_less simp del: append_take_drop_id)
  then show "drop ?k xs = filter (\<lambda>v. x < v) xs" by simp
  show "?k \<le> length xs" by (rule k)
qed

section \<open>The tail model\<close>

record tail_model =
  tm_sorted_waits :: "real list"
  tm_prefix_sums :: "real list"
  tm_budget_sec :: real

fun running_sums :: "real \<Rightarrow> real list \<Rightarrow> real list" where
  "running_sums acc [] = [acc]"
| "running_sums acc (v # vs) = acc # running_sums (acc + v) vs"

definition from_waits :: "real list \<Rightarrow> real \<Rightarrow> tail_model" where
  "from_waits waits budget =
     (let ordered = sort (filter (\<lambda>v. 0 < v) waits)
      in \<lparr>tm_sorted_waits = ordered, tm_prefix_sums = running_sums 0 ordered, tm_budget_sec = budget\<rparr>)"

definition tail_count_of :: "tail_model \<Rightarrow> nat" where
  "tail_count_of m = length (tm_sorted_waits m)"

definition conditional_tail_probability :: "tail_model \<Rightarrow> real \<Rightarrow> real option \<Rightarrow> real" where
  "conditional_tail_probability m waited horizon_sec =
     (let xs = tm_sorted_waits m;
          horizon = (case horizon_sec of None \<Rightarrow> tm_budget_sec m | Some h \<Rightarrow> h);
          lo = bisect_right xs waited;
          survivors = int (length xs) - int lo;
          hi = bisect_right xs (waited + horizon)
      in if xs = [] then 0 else if survivors \<le> 0 then 0
         else of_int (int (length xs) - int hi) / of_int survivors)"

definition expected_exposed_overhead :: "tail_model \<Rightarrow> real \<Rightarrow> real" where
  "expected_exposed_overhead m waited =
     (let xs = tm_sorted_waits m; budget = tm_budget_sec m;
          lo = bisect_right xs waited;
          survivors = int (length xs) - int lo;
          hi = bisect_right xs (waited + budget);
          partial_count = int hi - int lo;
          partial_sum = tm_prefix_sums m ! hi - tm_prefix_sums m ! lo
      in if xs = [] then budget else if survivors \<le> 0 then budget
         else if partial_count \<le> 0 then 0
         else max 0 ((of_int partial_count * (waited + budget) - partial_sum) / of_int survivors))"

section \<open>Costs and the decision to probe\<close>

definition redo_env_replay_cost_sec :: "real \<Rightarrow> real \<Rightarrow> real" where
  "redo_env_replay_cost_sec cumulative protected = max 0 (cumulative - protected)"

definition adaptive_delta_env_cost_sec :: "real \<Rightarrow> real \<Rightarrow> real" where
  "adaptive_delta_env_cost_sec cumulative protected = max 0 (cumulative - protected)"

definition redo_replay_cost_sec :: "real \<Rightarrow> real \<Rightarrow> real \<Rightarrow> real \<Rightarrow> real" where
  "redo_replay_cost_sec env env_protected llm llm_protected =
     redo_env_replay_cost_sec env env_protected + max 0 (llm - llm_protected)"

definition adaptive_delta_replay_cost_sec :: "real \<Rightarrow> real \<Rightarrow> real \<Rightarrow> real \<Rightarrow> real" where
  "adaptive_delta_replay_cost_sec env env_protected llm llm_protected =
     adaptive_delta_env_cost_sec env env_protected + max 0 (llm - llm_protected)"

definition adaptive_expected_benefit_sec :: "real \<Rightarrow> real \<Rightarrow> real \<Rightarrow> real" where
  "adaptive_expected_benefit_sec failure_prob tail_prob redo = max 0 (failure_prob * tail_prob * redo)"

definition should_probe_in_llm_bubble :: "int \<Rightarrow> bool \<Rightarrow> bool \<Rightarrow> 'a list \<Rightarrow> real \<Rightarrow> int \<Rightarrow> real \<Rightarrow> real \<Rightarrow>
    real \<Rightarrow> int \<Rightarrow> bool" where
  "should_probe_in_llm_bubble step attempted submitted pending delta since benefit overhead min_delta min_steps =
     (if step < 3 then False
      else if attempted \<or> submitted \<or> pending \<noteq> [] then False
      else if delta < min_delta then False
      else if since < min_steps then False
      else overhead < benefit)"

definition fault_injection_enabled_for_policy :: "string \<Rightarrow> bool \<Rightarrow> bool" where
  "fault_injection_enabled_for_policy policy enabled = enabled"

definition fault_injection_armed_for_policy :: "string \<Rightarrow> bool \<Rightarrow> bool" where
  "fault_injection_armed_for_policy policy enabled =
     (enabled \<and> policy \<noteq> ''oracle-no-fault-no-checkpoint'')"

section \<open>The tail model computes the statistics it names\<close>

lemma length_running_sums [simp]: "length (running_sums acc vs) = Suc (length vs)"
  by (induction acc vs rule: running_sums.induct) auto

lemma running_sums_nth: "i \<le> length vs \<Longrightarrow> running_sums acc vs ! i = acc + sum_list (take i vs)"
  by (induction acc vs arbitrary: i rule: running_sums.induct) (auto simp: nth_Cons take_Cons split: nat.splits)

lemma sum_list_filter_sort:
  fixes f :: "'a::linorder \<Rightarrow> 'b::comm_monoid_add"
  shows "(\<Sum>v\<leftarrow>filter P (sort vs). f v) = (\<Sum>v\<leftarrow>filter P vs. f v)"
proof -
  have "mset (map f (filter P (sort vs))) = mset (map f (filter P vs))" by simp
  then show ?thesis by (metis sum_mset_sum_list)
qed

lemma length_filter_sort: "length (filter P (sort vs)) = length (filter P vs)"
  by (metis mset_filter mset_sort size_mset)

definition waits_after :: "real list \<Rightarrow> real \<Rightarrow> real list" where
  \<comment> \<open>the observed positive waits that last longer than \<open>t\<close>\<close>
  "waits_after waits t = filter (\<lambda>v. 0 < v \<and> t < v) waits"

definition ordered_waits :: "real list \<Rightarrow> real list" where
  "ordered_waits waits = sort (filter (\<lambda>v. 0 < v) waits)"

lemma from_waits_fields:
  "tm_sorted_waits (from_waits waits b) = ordered_waits waits"
  "tm_prefix_sums (from_waits waits b) = running_sums 0 (ordered_waits waits)"
  "tm_budget_sec (from_waits waits b) = b"
  by (simp_all add: from_waits_def Let_def ordered_waits_def)

lemma ordered_waits_split:
  "take (bisect_right (ordered_waits waits) t) (ordered_waits waits) = filter (\<lambda>v. v \<le> t) (ordered_waits waits)"
  "drop (bisect_right (ordered_waits waits) t) (ordered_waits waits) = filter (\<lambda>v. t < v) (ordered_waits waits)"
  "bisect_right (ordered_waits waits) t \<le> length (ordered_waits waits)"
  unfolding ordered_waits_def by (rule bisect_right_split [OF sorted_sort])+

lemma survivors_count:
  "int (length (ordered_waits waits)) - int (bisect_right (ordered_waits waits) t) = int (length (waits_after waits t))"
proof -
  have "length (filter (\<lambda>v. t < v) (ordered_waits waits)) = length (waits_after waits t)"
    by (simp add: ordered_waits_def length_filter_sort waits_after_def conj_commute)
  then show ?thesis
    using ordered_waits_split(2,3) [of waits t] by (metis length_drop of_nat_diff)
qed

lemma ordered_waits_Nil: "ordered_waits waits = [] \<Longrightarrow> waits_after waits t = []"
  using survivors_count [of waits t] by simp

lemma tail_probability_formula:
  "conditional_tail_probability (from_waits waits budget) waited h =
     (let horizon = (case h of None \<Rightarrow> budget | Some x \<Rightarrow> x)
      in if waits_after waits waited = [] then 0
         else real (length (waits_after waits (waited + horizon))) / real (length (waits_after waits waited)))"
  by (simp add: conditional_tail_probability_def from_waits_fields Let_def survivors_count ordered_waits_Nil
      split: option.splits)

lemma sum_const_minus: "(\<Sum>v\<leftarrow>vs. c - v) = real (length vs) * c - sum_list vs"
  by (induction vs) (auto simp: algebra_simps)

lemma exposed_segment:
  fixes waits w b
  defines "xs \<equiv> ordered_waits waits"
  defines "lo \<equiv> bisect_right xs w" and "hi \<equiv> bisect_right xs (w + b)"
  assumes "lo < hi"
  shows "take (hi - lo) (drop lo xs) = filter (\<lambda>v. w < v \<and> v \<le> w + b) xs"
proof -
  have split: "drop lo xs = filter (\<lambda>v. w < v) xs" "take hi xs = filter (\<lambda>v. v \<le> w + b) xs"
    "drop hi xs = filter (\<lambda>v. w + b < v) xs"
    unfolding lo_def hi_def xs_def by (rule ordered_waits_split)+
  have "filter (\<lambda>v. w < v \<and> v \<le> w + b) xs = filter (\<lambda>v. v \<le> w + b) (drop lo xs)"
    unfolding split(1) by (simp add: conj_commute)
  also have "drop lo xs = take (hi - lo) (drop lo xs) @ drop hi xs"
    using assms(4) by (metis append_take_drop_id drop_drop le_add_diff_inverse2 less_imp_le)
  also have "filter (\<lambda>v. v \<le> w + b) (take (hi - lo) (drop lo xs) @ drop hi xs) =
      filter (\<lambda>v. v \<le> w + b) (take (hi - lo) (drop lo xs))"
    unfolding split(3) by (auto simp: filter_empty_conv)
  also have "\<dots> = take (hi - lo) (drop lo xs)"
  proof -
    have "take (hi - lo) (drop lo xs) = drop lo (take hi xs)"
      by (simp add: take_drop assms(4) less_imp_le)
    then have "set (take (hi - lo) (drop lo xs)) \<subseteq> set (take hi xs)" by (metis set_drop_subset)
    then show ?thesis unfolding split(2) by (auto simp: filter_id_conv)
  qed
  finally show ?thesis by simp
qed

lemma exposed_overhead_formula:
  assumes "waits_after waits w \<noteq> []"
  shows "expected_exposed_overhead (from_waits waits b) w =
    (\<Sum>v\<leftarrow>filter (\<lambda>v. v \<le> w + b) (waits_after waits w). w + b - v) / real (length (waits_after waits w))"
proof -
  let ?xs = "ordered_waits waits"
  let ?lo = "bisect_right ?xs w" and ?hi = "bisect_right ?xs (w + b)"
  let ?seg = "filter (\<lambda>v. w < v \<and> v \<le> w + b) ?xs"
  have ne: "?xs \<noteq> []" using assms ordered_waits_Nil by blast
  have spec: "(\<Sum>v\<leftarrow>?seg. w + b - v) = (\<Sum>v\<leftarrow>filter (\<lambda>v. v \<le> w + b) (waits_after waits w). w + b - v)"
    unfolding ordered_waits_def sum_list_filter_sort
    by (simp add: waits_after_def conj_ac)
  show ?thesis
  proof (cases "?lo < ?hi")
    case True
    note seg = exposed_segment [OF True]
    have len: "int ?hi - int ?lo = int (length ?seg)"
      using True ordered_waits_split(3) [of waits "w + b"] by (simp flip: seg)
    have "sum_list (take ?hi ?xs) = sum_list (take ?lo ?xs) + sum_list ?seg"
      using True by (simp flip: seg sum_list_append take_add)
    then have "running_sums 0 ?xs ! ?hi - running_sums 0 ?xs ! ?lo = sum_list ?seg"
      using ordered_waits_split(3) by (simp add: running_sums_nth)
    moreover have "0 \<le> (\<Sum>v\<leftarrow>?seg. w + b - v)" by (rule sum_list_nonneg) auto
    moreover have "(\<Sum>v\<leftarrow>?seg. w + b - v) = real_of_int (int ?hi - int ?lo) * (w + b) - sum_list ?seg"
      unfolding sum_const_minus len by simp
    ultimately have "max 0 ((real_of_int (int ?hi - int ?lo) * (w + b) - (running_sums 0 ?xs ! ?hi - running_sums 0 ?xs ! ?lo)) /
        real_of_int (int (length (waits_after waits w)))) = (\<Sum>v\<leftarrow>?seg. w + b - v) / real (length (waits_after waits w))"
      by (simp add: max_absorb2)
    then show ?thesis
      using True ne assms
      by (simp only: expected_exposed_overhead_def from_waits_fields Let_def survivors_count spec) simp
  next
    case False
    have "set (drop ?lo ?xs) \<subseteq> set (drop ?hi ?xs)" using False by (simp add: set_drop_subset_set_drop)
    then have "?seg = []" using ordered_waits_split(2) by (auto simp: filter_empty_conv)
    with False ne assms show ?thesis
      by (simp add: expected_exposed_overhead_def from_waits_fields Let_def survivors_count flip: spec)
  qed
qed

text \<open>C5. For a horizon that is not negative the conditional tail probability is the share of the
  observed positive waits still running at \<open>waited\<close> that last past the horizon, a number between
  0 and 1; it is 0 when no wait lasts longer than \<open>waited\<close>.\<close>

theorem tail_probability_is_share:
  assumes "0 \<le> budget" and "\<And>x. h = Some x \<Longrightarrow> 0 \<le> x"
  shows "conditional_tail_probability (from_waits waits budget) waited h =
      (if waits_after waits waited = [] then 0
       else real (length (waits_after waits (waited + (case h of None \<Rightarrow> budget | Some x \<Rightarrow> x)))) /
            real (length (waits_after waits waited))) \<and>
    0 \<le> conditional_tail_probability (from_waits waits budget) waited h \<and>
    conditional_tail_probability (from_waits waits budget) waited h \<le> 1"
proof -
  let ?x = "case h of None \<Rightarrow> budget | Some x \<Rightarrow> x"
  have "0 \<le> ?x" using assms by (cases h) auto
  then have "waits_after waits (waited + ?x) = filter (\<lambda>v. waited + ?x < v) (waits_after waits waited)"
    by (auto simp: waits_after_def intro!: filter_cong)
  then have "length (waits_after waits (waited + ?x)) \<le> length (waits_after waits waited)" by simp
  then show ?thesis
    by (simp add: tail_probability_formula Let_def divide_le_eq_1)
qed

theorem tail_probability_is_share_witness:
  "conditional_tail_probability (from_waits [3, -1, 1, 7] 2) 2 None = 1 / 2"
  using tail_probability_is_share [of 2 None "[3, -1, 1, 7]" 2] by (simp add: waits_after_def)

text \<open>C6. The expected exposed overhead is the mean, over the observed waits still running, of the
  part of the checkpoint budget that is not hidden behind the wait (the remaining budget when the
  wait ends inside it, nothing otherwise), and lies between 0 and the budget; without such a wait it
  is the whole budget. The prefix sums and the two binary searches compute exactly this.\<close>

theorem overhead_is_mean_exposure:
  assumes "0 \<le> budget"
  shows "expected_exposed_overhead (from_waits waits budget) waited =
      (if waits_after waits waited = [] then budget
       else (\<Sum>v\<leftarrow>waits_after waits waited. max 0 (waited + budget - v)) / real (length (waits_after waits waited))) \<and>
    0 \<le> expected_exposed_overhead (from_waits waits budget) waited \<and>
    expected_exposed_overhead (from_waits waits budget) waited \<le> budget"
proof (cases "waits_after waits waited = []")
  case True
  then show ?thesis
    using assms by (simp add: expected_exposed_overhead_def from_waits_fields Let_def survivors_count)
next
  case False
  let ?ws = "waits_after waits waited"
  have sum: "(\<Sum>v\<leftarrow>filter (\<lambda>v. v \<le> waited + budget) vs. waited + budget - v) = (\<Sum>v\<leftarrow>vs. max 0 (waited + budget - v))" for vs
    by (induction vs) auto
  have "(\<Sum>v\<leftarrow>vs. max 0 (waited + budget - v)) \<le> real (length vs) * budget" if "\<forall>v \<in> set vs. waited < v" for vs
    using that assms by (induction vs) (auto simp: algebra_simps)
  from this [of ?ws] have "(\<Sum>v\<leftarrow>?ws. max 0 (waited + budget - v)) \<le> real (length ?ws) * budget"
    by (auto simp: waits_after_def)
  moreover have "0 \<le> (\<Sum>v\<leftarrow>?ws. max 0 (waited + budget - v))" by (rule sum_list_nonneg) auto
  ultimately show ?thesis
    using False by (simp add: exposed_overhead_formula sum divide_le_eq mult.commute)
qed

theorem overhead_is_mean_exposure_witness:
  "expected_exposed_overhead (from_waits [3, -1, 1, 7] 2) 2 = 1 / 2"
  using overhead_is_mean_exposure [of 2 "[3, -1, 1, 7]" 2] by (simp add: waits_after_def)

section \<open>The fault injection planner\<close>

record planner =
  fp_expected_sample_count :: int
  fp_injection_count :: int
  fp_seed :: int
  fp_selection_mode :: string
  fp_offset_from_end_steps :: int
  fp_max_inject_before_step_idx :: int
  fp_poll_interval_sec :: real
  fp_wait_timeout_sec :: real

definition new_planner :: "int \<Rightarrow> int \<Rightarrow> int \<Rightarrow> string option \<Rightarrow> int \<Rightarrow> int \<Rightarrow> real \<Rightarrow> real \<Rightarrow> planner res" where
  "new_planner expected inject seed mode offset max_idx poll timeout =
     (let m = lower (strip (case mode of Some (c # cs) \<Rightarrow> c # cs | _ \<Rightarrow> ''longest'')) in
      if m \<noteq> ''longest'' \<and> m \<noteq> ''random''
      then Inl (ValueError (''unsupported fault injection selection mode: '' @ m))
      else Inr \<lparr>fp_expected_sample_count = max 0 expected, fp_injection_count = max 0 inject,
        fp_seed = seed, fp_selection_mode = m, fp_offset_from_end_steps = max 1 offset,
        fp_max_inject_before_step_idx = max 1 max_idx, fp_poll_interval_sec = max (1 / 100) poll,
        fp_wait_timeout_sec = max 0 timeout\<rparr>)"

record registration =
  rg_instance_id :: string
  rg_step_limit :: int
  rg_reference_step_count :: int

record plan =
  pn_registered :: "(string, registration) dict"
  pn_selected :: "(string, int) dict"
  pn_finalized :: bool

text \<open>The plan file: \<open>None\<close> when it is missing or cannot be read.\<close>

definition empty_plan :: plan where
  "empty_plan = \<lparr>pn_registered = [], pn_selected = [], pn_finalized = False\<rparr>"

definition load_state_unlocked :: "plan option \<Rightarrow> plan" where
  "load_state_unlocked file = (case file of Some s \<Rightarrow> s | None \<Rightarrow> empty_plan)"

definition write_state_unlocked :: "plan \<Rightarrow> plan option" where
  \<comment> \<open>\<open>json.dumps(..., sort_keys=True)\<close>: the objects come back in key order\<close>
  "write_state_unlocked s = Some (s\<lparr>pn_registered := sort_key fst (pn_registered s),
     pn_selected := sort_key fst (pn_selected s)\<rparr>)"

type_synonym candidate = "string \<times> int \<times> int \<times> real"

definition eligible_samples :: "(string, registration) dict \<Rightarrow> (string \<times> int \<times> int) list" where
  "eligible_samples registered =
     map (\<lambda>(k, r). (k, rg_reference_step_count r, rg_step_limit r))
       (filter (\<lambda>(k, r). 2 \<le> rg_step_limit r) registered)"

definition decorate_samples :: "(nat \<Rightarrow> real) \<Rightarrow> (string \<times> int \<times> int) list \<Rightarrow> candidate list" where
  "decorate_samples draws es = map (\<lambda>((k, r, l), i). (k, r, l, draws i)) (zip es [0..<length es])"

definition random_key :: "candidate \<Rightarrow> real \<times> string" where
  "random_key c = (case c of (k, r, l, u) \<Rightarrow> (u, k))"

definition longest_key :: "candidate \<Rightarrow> int \<times> int \<times> real \<times> string" where
  "longest_key c = (case c of (k, r, l, u) \<Rightarrow> (- r, - l, u, k))"

definition inject_step :: "planner \<Rightarrow> int \<Rightarrow> int \<Rightarrow> int" where
  "inject_step cfg ref_count step_limit =
     (let ref = max 2 (if ref_count \<noteq> 0 then ref_count else step_limit)
      in max 1 (min (step_limit - 1) (min (ref - fp_offset_from_end_steps cfg) (fp_max_inject_before_step_idx cfg))))"

definition chosen_samples :: "planner \<Rightarrow> candidate list \<Rightarrow> candidate list" where
  "chosen_samples cfg decorated =
     take (nat (min (fp_injection_count cfg) (int (length decorated))))
       (if fp_selection_mode cfg = ''random'' then sort_key random_key decorated
        else sort_key longest_key decorated)"

definition select_targets :: "(int \<Rightarrow> nat \<Rightarrow> real) \<Rightarrow> planner \<Rightarrow> (string, registration) dict \<Rightarrow> (string, int) dict" where
  "select_targets rnd cfg registered =
     (let eligible = eligible_samples registered
      in if eligible = [] \<or> fp_injection_count cfg \<le> 0 then []
         else fold (\<lambda>(k, r, l, u). dset k (inject_step cfg r l))
           (chosen_samples cfg (decorate_samples (rnd (fp_seed cfg)) eligible)) [])"

definition should_finalize :: "planner \<Rightarrow> bool \<Rightarrow> plan \<Rightarrow> bool" where
  "should_finalize cfg force s =
     (if pn_finalized s then False
      else (0 < fp_expected_sample_count cfg \<and> fp_expected_sample_count cfg \<le> int (length (pn_registered s))) \<or>
        (force \<and> fp_injection_count cfg \<le> int (length (pn_registered s))))"

definition finalize_plan :: "(int \<Rightarrow> nat \<Rightarrow> real) \<Rightarrow> planner \<Rightarrow> plan \<Rightarrow> plan" where
  "finalize_plan rnd cfg s = s\<lparr>pn_selected := select_targets rnd cfg (pn_registered s), pn_finalized := True\<rparr>"

text \<open>The reference lengths: steps by sample key and by instance id.\<close>

type_synonym lengths = "(string, int) dict \<times> (string, int) dict"

definition reference_steps :: "lengths \<Rightarrow> string \<Rightarrow> string \<Rightarrow> int" where
  "reference_steps refs sample_key instance_id =
     dget_def (fst refs) sample_key (dget_def (snd refs) instance_id 0)"

definition register_and_maybe_finalize :: "(int \<Rightarrow> nat \<Rightarrow> real) \<Rightarrow> lengths \<Rightarrow> planner \<Rightarrow> string \<Rightarrow> string \<Rightarrow>
    int \<Rightarrow> bool \<Rightarrow> plan option \<Rightarrow> plan \<times> plan option" where
  "register_and_maybe_finalize rnd refs cfg sample_key instance_id step_limit force file =
     (let s = load_state_unlocked file;
          s1 = s\<lparr>pn_registered := dset sample_key
                 \<lparr>rg_instance_id = instance_id, rg_step_limit = step_limit,
                  rg_reference_step_count = reference_steps refs sample_key instance_id\<rparr> (pn_registered s)\<rparr>;
          s2 = (if should_finalize cfg force s1 then finalize_plan rnd cfg s1 else s1)
      in (s2, write_state_unlocked s2))"

definition poll_state_and_maybe_finalize :: "(int \<Rightarrow> nat \<Rightarrow> real) \<Rightarrow> planner \<Rightarrow> bool \<Rightarrow> plan option \<Rightarrow>
    plan \<times> plan option" where
  "poll_state_and_maybe_finalize rnd cfg force file =
     (let s = load_state_unlocked file
      in if should_finalize cfg force s
         then (finalize_plan rnd cfg s, write_state_unlocked (finalize_plan rnd cfg s))
         else (s, file))"

definition register :: "(int \<Rightarrow> nat \<Rightarrow> real) \<Rightarrow> lengths \<Rightarrow> planner \<Rightarrow> string \<Rightarrow> string \<Rightarrow> int \<Rightarrow> plan option \<Rightarrow>
    plan \<times> plan option" where
  "register rnd refs cfg sample_key instance_id step_limit =
     register_and_maybe_finalize rnd refs cfg sample_key instance_id step_limit False"

text \<open>\<open>(False, None)\<close> is "not finalized yet"; a target is the step to inject before.\<close>

definition poll_target :: "(int \<Rightarrow> nat \<Rightarrow> real) \<Rightarrow> planner \<Rightarrow> string \<Rightarrow> bool \<Rightarrow> plan option \<Rightarrow>
    (bool \<times> int option) \<times> plan option" where
  "poll_target rnd cfg sample_key force file =
     (let (s, file') = poll_state_and_maybe_finalize rnd cfg force file
      in (if \<not> pn_finalized s then (False, None) else (True, dget (pn_selected s) sample_key), file'))"

text \<open>The waiting loop: \<open>now n\<close> is the clock at the n-th poll, \<open>others n\<close> what the other processes
  do to the file before it. Without fuel the answer is \<open>None\<close>.\<close>

fun wait_loop :: "(int \<Rightarrow> nat \<Rightarrow> real) \<Rightarrow> planner \<Rightarrow> string \<Rightarrow> real \<Rightarrow> (nat \<Rightarrow> real) \<Rightarrow>
    (nat \<Rightarrow> plan option \<Rightarrow> plan option) \<Rightarrow> nat \<Rightarrow> nat \<Rightarrow> plan option \<Rightarrow> (int option \<times> plan option) option" where
  "wait_loop rnd cfg key deadline now others 0 n file = None"
| "wait_loop rnd cfg key deadline now others (Suc fuel) n file =
     (case poll_target rnd cfg key (deadline \<le> now n) (others n file) of
        ((finalized, target), file') \<Rightarrow>
          if finalized then Some (target, file')
          else wait_loop rnd cfg key deadline now others fuel (Suc n) file')"

definition register_and_wait :: "(int \<Rightarrow> nat \<Rightarrow> real) \<Rightarrow> lengths \<Rightarrow> planner \<Rightarrow> string \<Rightarrow> string \<Rightarrow> int \<Rightarrow>
    real \<Rightarrow> (nat \<Rightarrow> real) \<Rightarrow> (nat \<Rightarrow> plan option \<Rightarrow> plan option) \<Rightarrow> nat \<Rightarrow> plan option \<Rightarrow>
    (int option \<times> plan option) option" where
  "register_and_wait rnd refs cfg key instance_id step_limit t0 now others fuel file =
     wait_loop rnd cfg key (t0 + fp_wait_timeout_sec cfg) now others fuel 0
       (snd (register rnd refs cfg key instance_id step_limit file))"

section \<open>Reference trajectories\<close>

record trajectory =
  tj_parent :: string
  tj_instance_id :: "string option"
  tj_group_index :: "string option"
  tj_index :: "string option"
  tj_step_debug :: "nat option"
  tj_steps :: "nat option"

definition rollout_sample_key :: "string \<Rightarrow> string option \<Rightarrow> string option \<Rightarrow> string" where
  "rollout_sample_key instance_id group_index sample_index =
     instance_id @ ''__g'' @ (case group_index of None \<Rightarrow> ''na'' | Some g \<Rightarrow> g) @
     ''__i'' @ (case sample_index of None \<Rightarrow> ''na'' | Some i \<Rightarrow> i)"

definition infer_sample_key :: "trajectory \<Rightarrow> string option" where
  "infer_sample_key t =
     (case tj_instance_id t of
        Some (c # cs) \<Rightarrow> Some (rollout_sample_key (c # cs) (tj_group_index t) (tj_index t))
      | _ \<Rightarrow> if contains ''__g'' (tj_parent t) \<and> contains ''__i'' (tj_parent t) then Some (tj_parent t) else None)"

definition infer_step_count :: "trajectory \<Rightarrow> int" where
  "infer_step_count t =
     (case tj_step_debug t of Some n \<Rightarrow> int n
      | None \<Rightarrow> (case tj_steps t of Some n \<Rightarrow> int n | None \<Rightarrow> 0))"

definition infer_instance_id :: "trajectory \<Rightarrow> string option" where
  "infer_instance_id t =
     (case tj_instance_id t of
        Some (c # cs) \<Rightarrow> Some (c # cs)
      | _ \<Rightarrow> if contains ''__g'' (tj_parent t) then Some (fst (split_once ''__g'' (tj_parent t))) else None)"

definition raise_length :: "string option \<Rightarrow> int \<Rightarrow> (string, int) dict \<Rightarrow> (string, int) dict" where
  "raise_length key n d = (case key of Some (c # cs) \<Rightarrow> dset (c # cs) (max (dget_def d (c # cs) 0) n) d | _ \<Rightarrow> d)"

text \<open>A file that cannot be read is \<open>None\<close>; no file at all is the missing root.\<close>

fun load_reference_lengths :: "trajectory option list \<Rightarrow> lengths \<Rightarrow> lengths" where
  "load_reference_lengths [] acc = acc"
| "load_reference_lengths (None # ts) acc = load_reference_lengths ts acc"
| "load_reference_lengths (Some t # ts) acc =
     (if infer_step_count t \<le> 0 then load_reference_lengths ts acc
      else load_reference_lengths ts
        (raise_length (infer_sample_key t) (infer_step_count t) (fst acc),
         raise_length (infer_instance_id t) (infer_step_count t) (snd acc)))"

section \<open>What the planner selects\<close>

lemma fold_dset_distinct:
  "distinct (map f xs) \<Longrightarrow> set (map f xs) \<inter> set (dkeys d) = {} \<Longrightarrow>
   fold (\<lambda>x. dset (f x) (g x)) xs d = d @ map (\<lambda>x. (f x, g x)) xs"
proof (induction xs arbitrary: d)
  case (Cons x xs)
  then have "dset (f x) (g x) d = d @ [(f x, g x)]" by (intro dset_fresh) (auto simp: map_of_eq_None_iff)
  with Cons show ?case by auto
qed simp

lemma decorate_keys:
  "map (\<lambda>(k, r, l, u). (k, r, l)) (decorate_samples draws es) = es"
  "length (decorate_samples draws es) = length es"
proof -
  have "map (\<lambda>(k, r, l, u). (k, r, l)) (decorate_samples draws es) = map fst (zip es [0..<length es])"
    unfolding decorate_samples_def map_map by (rule map_cong) auto
  then show "map (\<lambda>(k, r, l, u). (k, r, l)) (decorate_samples draws es) = es" by simp
qed (simp add: decorate_samples_def)

lemma decorate_names: "map fst (decorate_samples draws es) = map fst es"
proof -
  have "map fst es = map fst (map (\<lambda>(k, r, l, u). (k, r, l)) (decorate_samples draws es))"
    by (simp only: decorate_keys)
  also have "\<dots> = map fst (decorate_samples draws es)" by (auto simp: case_prod_beta)
  finally show ?thesis by simp
qed

definition candidates :: "(int \<Rightarrow> nat \<Rightarrow> real) \<Rightarrow> planner \<Rightarrow> (string, registration) dict \<Rightarrow> candidate list" where
  "candidates rnd cfg reg = decorate_samples (rnd (fp_seed cfg)) (eligible_samples reg)"

lemma candidates_names: "set (map fst (candidates rnd cfg reg)) \<subseteq> set (dkeys reg)"
  by (force simp: candidates_def decorate_names eligible_samples_def)

lemma candidates_distinct: "distinct (dkeys reg) \<Longrightarrow> distinct (map fst (candidates rnd cfg reg))"
proof -
  assume "distinct (dkeys reg)"
  moreover have "map fst (eligible_samples reg) = map fst (filter (\<lambda>(k, r). 2 \<le> rg_step_limit r) reg)"
    by (auto simp: eligible_samples_def)
  ultimately show ?thesis
    by (simp add: candidates_def decorate_names distinct_map_filter)
qed

lemma candidates_registered:
  "c \<in> set (candidates rnd cfg reg) \<Longrightarrow> \<exists>k r u. c = (k, rg_reference_step_count r, rg_step_limit r, u) \<and>
     (k, r) \<in> set reg \<and> 2 \<le> rg_step_limit r"
proof -
  assume c: "c \<in> set (candidates rnd cfg reg)"
  obtain k r l u where eq: "c = (k, r, l, u)" by (cases c)
  have "(k, r, l) \<in> set (map (\<lambda>(k, r, l, u). (k, r, l)) (candidates rnd cfg reg))" using c eq by force
  then have "(k, r, l) \<in> set (eligible_samples reg)" by (simp only: candidates_def decorate_keys)
  with eq show ?thesis by (auto simp: eligible_samples_def)
qed

lemma chosen_subset: "set (chosen_samples cfg cs) \<subseteq> set cs"
  by (auto simp: chosen_samples_def dest: in_set_takeD)

lemma chosen_distinct: "distinct (map fst cs) \<Longrightarrow> distinct (map fst (chosen_samples cfg cs))"
proof -
  assume "distinct (map fst cs)"
  then have d: "distinct (map fst (sort_key k cs))" for k :: "candidate \<Rightarrow> 'k::linorder"
    by (metis mset_eq_imp_distinct_iff mset_map mset_sort)
  show ?thesis unfolding chosen_samples_def by (auto simp: take_map [symmetric] d)
qed

lemma length_chosen:
  "length (chosen_samples cfg cs) = nat (min (fp_injection_count cfg) (int (length cs)))"
  by (auto simp: chosen_samples_def)

lemma select_targets_map:
  assumes "distinct (dkeys reg)"
  shows "select_targets rnd cfg reg =
    (if fp_injection_count cfg \<le> 0 then []
     else map (\<lambda>(k, r, l, u). (k, inject_step cfg r l)) (chosen_samples cfg (candidates rnd cfg reg)))"
proof -
  have "fold (\<lambda>(k, r, l, u). dset k (inject_step cfg r l)) (chosen_samples cfg (candidates rnd cfg reg)) [] =
      map (\<lambda>(k, r, l, u). (k, inject_step cfg r l)) (chosen_samples cfg (candidates rnd cfg reg))"
    using fold_dset_distinct [OF chosen_distinct [OF candidates_distinct [OF assms]], where d = "[]"
        and g = "\<lambda>c. inject_step cfg (fst (snd c)) (fst (snd (snd c)))", of cfg rnd cfg]
    by (simp add: case_prod_unfold)
  moreover have "eligible_samples reg = [] \<Longrightarrow> chosen_samples cfg (candidates rnd cfg reg) = []"
    using length_chosen [of cfg "candidates rnd cfg reg"] by (simp add: candidates_def decorate_samples_def)
  ultimately show ?thesis by (auto simp: select_targets_def Let_def candidates_def [symmetric])
qed

lemma inject_step_bounds:
  "1 \<le> inject_step cfg r l \<and> (2 \<le> l \<longrightarrow> inject_step cfg r l \<le> l - 1) \<and>
   inject_step cfg r l \<le> max 1 (fp_max_inject_before_step_idx cfg)"
  by (auto simp: inject_step_def Let_def)

lemma sorted_take_drop:
  "sorted_wrt R xs \<Longrightarrow> x \<in> set (take n xs) \<Longrightarrow> y \<in> set (drop n xs) \<Longrightarrow> R x y"
  by (metis append_take_drop_id sorted_wrt_append)

lemma longest_first:
  assumes "fp_selection_mode cfg \<noteq> ''random''" and "c \<in> set (chosen_samples cfg cs)"
    and "d \<in> set cs" and "d \<notin> set (chosen_samples cfg cs)"
  shows "longest_key c \<le> longest_key d"
proof -
  let ?n = "nat (min (fp_injection_count cfg) (int (length cs)))"
  let ?ys = "sort_key longest_key cs"
  have chosen: "chosen_samples cfg cs = take ?n ?ys" using assms(1) by (simp add: chosen_samples_def)
  have "d \<in> set (take ?n ?ys @ drop ?n ?ys)" using assms(3) by simp
  with assms(4) chosen have d: "d \<in> set (drop ?n ?ys)" by (simp del: append_take_drop_id)
  have "sorted_wrt (\<lambda>x y. longest_key x \<le> longest_key y) ?ys"
    using sorted_sort_key [of longest_key cs] by (simp add: sorted_map)
  from sorted_take_drop [OF this, of c ?n d] d assms(2) chosen show ?thesis by simp
qed

definition planned :: "(string, registration) dict \<Rightarrow> string \<Rightarrow> registration option" where
  \<comment> \<open>a registered sample that is long enough to be selected\<close>
  "planned reg k = (case dget reg k of Some r \<Rightarrow> if 2 \<le> rg_step_limit r then Some r else None | None \<Rightarrow> None)"

text \<open>The planner selects \<open>injection_count\<close> of the registered samples with at least two steps,
  or all of them when there are fewer, each once; every injection point is at least 1, below the
  sample's step limit and at most \<open>max_inject_before_step_idx\<close>; and in the mode \<open>longest\<close> no
  sample left out has a longer reference trajectory, or an equal one and a higher step limit.\<close>

theorem select_targets_spec:
  assumes reg: "distinct (dkeys reg)" and inj: "0 \<le> fp_injection_count cfg"
    and maxi: "1 \<le> fp_max_inject_before_step_idx cfg"
  shows "length (select_targets rnd cfg reg) =
      min (nat (fp_injection_count cfg)) (length (eligible_samples reg)) \<and>
    distinct (dkeys (select_targets rnd cfg reg)) \<and>
    (\<forall>(k, i) \<in> set (select_targets rnd cfg reg). \<exists>r. dget reg k = Some r \<and>
      1 \<le> i \<and> i \<le> rg_step_limit r - 1 \<and> i \<le> fp_max_inject_before_step_idx cfg \<and>
      (fp_selection_mode cfg \<noteq> ''random'' \<longrightarrow> (\<forall>k' r'. planned reg k' = Some r' \<longrightarrow>
        k' \<in> set (dkeys (select_targets rnd cfg reg)) \<or>
        rg_reference_step_count r' < rg_reference_step_count r \<or>
        rg_reference_step_count r' = rg_reference_step_count r \<and> rg_step_limit r' \<le> rg_step_limit r)))"
proof (cases "fp_injection_count cfg \<le> 0")
  case True
  then show ?thesis by (simp add: select_targets_def)
next
  case False
  let ?cs = "candidates rnd cfg reg" and ?ch = "chosen_samples cfg (candidates rnd cfg reg)"
  have sel: "select_targets rnd cfg reg = map (\<lambda>(k, r, l, u). (k, inject_step cfg r l)) ?ch"
    using False by (simp add: select_targets_map [OF reg])
  have names: "dkeys (select_targets rnd cfg reg) = map fst ?ch" by (simp add: sel case_prod_beta)
  have len: "length (select_targets rnd cfg reg) = min (nat (fp_injection_count cfg)) (length (eligible_samples reg))"
    by (auto simp: sel length_chosen candidates_def decorate_keys(2) min_def)
  have item: "\<exists>r. dget reg k = Some r \<and> 1 \<le> i \<and> i \<le> rg_step_limit r - 1 \<and> i \<le> fp_max_inject_before_step_idx cfg \<and>
      (fp_selection_mode cfg \<noteq> ''random'' \<longrightarrow> (\<forall>k' r'. planned reg k' = Some r' \<longrightarrow>
        k' \<in> set (dkeys (select_targets rnd cfg reg)) \<or>
        rg_reference_step_count r' < rg_reference_step_count r \<or>
        rg_reference_step_count r' = rg_reference_step_count r \<and> rg_step_limit r' \<le> rg_step_limit r))"
    if ki: "(k, i) \<in> set (select_targets rnd cfg reg)" for k i
  proof -
    from ki obtain c where c: "c \<in> set ?ch" "k = fst c" "i = inject_step cfg (fst (snd c)) (fst (snd (snd c)))"
      by (auto simp: sel case_prod_beta)
    have "c \<in> set ?cs" using c(1) chosen_subset by blast
    from candidates_registered [OF this] c(2) obtain r u where
      r: "c = (k, rg_reference_step_count r, rg_step_limit r, u)" "(k, r) \<in> set reg" "2 \<le> rg_step_limit r"
      by auto
    have "k' \<in> set (map fst ?ch) \<or> rg_reference_step_count r' < rg_reference_step_count r \<or>
        rg_reference_step_count r' = rg_reference_step_count r \<and> rg_step_limit r' \<le> rg_step_limit r"
      if mode: "fp_selection_mode cfg \<noteq> ''random''" and k': "planned reg k' = Some r'" for k' r'
    proof -
      have "(k', r') \<in> set reg" "2 \<le> rg_step_limit r'"
        using k' by (auto simp: planned_def dest: map_of_SomeD split: option.splits if_splits)
      then have "(k', rg_reference_step_count r', rg_step_limit r') \<in> set (eligible_samples reg)"
        by (force simp: eligible_samples_def)
      then have "(k', rg_reference_step_count r', rg_step_limit r') \<in>
          set (map (\<lambda>(k, r, l, u). (k, r, l)) ?cs)" by (simp only: candidates_def decorate_keys)
      then obtain u' where d: "(k', rg_reference_step_count r', rg_step_limit r', u') \<in> set ?cs" by auto
      have "longest_key c \<le> longest_key (k', rg_reference_step_count r', rg_step_limit r', u')"
        if "k' \<notin> set (map fst ?ch)"
        using that by (intro longest_first [OF mode c(1) d]) force
      with r(1) show ?thesis by (auto simp: longest_key_def)
    qed
    then show ?thesis
      using inject_step_bounds [of cfg "rg_reference_step_count r" "rg_step_limit r"] r c(3) reg maxi names
      by (intro exI [of _ r]) (auto simp: map_of_is_SomeI)
  qed
  have "distinct (dkeys (select_targets rnd cfg reg))"
    unfolding names by (intro chosen_distinct candidates_distinct reg)
  with len item show ?thesis by blast
qed

definition demo_planner :: planner where
  "demo_planner = \<lparr>fp_expected_sample_count = 3, fp_injection_count = 1, fp_seed = 0,
     fp_selection_mode = ''longest'', fp_offset_from_end_steps = 3, fp_max_inject_before_step_idx = 8,
     fp_poll_interval_sec = 1, fp_wait_timeout_sec = 5\<rparr>"

definition demo_draws :: "int \<Rightarrow> nat \<Rightarrow> real" where
  "demo_draws seed i = 0"

definition demo_registered :: "(string, registration) dict" where
  "demo_registered = [(''a'', \<lparr>rg_instance_id = ''i'', rg_step_limit = 9, rg_reference_step_count = 4\<rparr>),
     (''b'', \<lparr>rg_instance_id = ''i'', rg_step_limit = 9, rg_reference_step_count = 7\<rparr>)]"

theorem select_targets_spec_witness:
  "select_targets demo_draws demo_planner demo_registered = [(''b'', 4)] \<and>
   length (select_targets demo_draws demo_planner demo_registered) = 1"
proof -
  have "select_targets demo_draws demo_planner demo_registered = [(''b'', 4)]" by code_simp
  moreover have "length (eligible_samples demo_registered) = 2" by code_simp
  moreover have "distinct (dkeys demo_registered)" by code_simp
  ultimately show ?thesis
    using select_targets_spec [of demo_registered demo_planner demo_draws] by (simp add: demo_planner_def)
qed

section \<open>Processes on one plan file\<close>

inductive plan_step :: "(int \<Rightarrow> nat \<Rightarrow> real) \<Rightarrow> lengths \<Rightarrow> planner \<Rightarrow> plan option \<Rightarrow> plan option \<Rightarrow> bool"
  for rnd refs cfg where
  registers: "plan_step rnd refs cfg file (snd (register_and_maybe_finalize rnd refs cfg key iid limit force file))"
| polls: "plan_step rnd refs cfg file (snd (poll_state_and_maybe_finalize rnd cfg force file))"

definition plan_inv :: "planner \<Rightarrow> plan option \<Rightarrow> bool" where
  "plan_inv cfg file = (case file of None \<Rightarrow> True | Some s \<Rightarrow>
     distinct (dkeys (pn_registered s)) \<and> distinct (dkeys (pn_selected s)) \<and>
     (if pn_finalized s
      then length (pn_selected s) \<le> nat (fp_injection_count cfg) \<and>
        set (dkeys (pn_selected s)) \<subseteq> set (dkeys (pn_registered s)) \<and>
        (\<forall>(k, i) \<in> set (pn_selected s). 1 \<le> i \<and> i \<le> max 1 (fp_max_inject_before_step_idx cfg))
      else pn_selected s = []))"

definition plan_ok :: "planner \<Rightarrow> plan \<Rightarrow> bool" where
  "plan_ok cfg s = plan_inv cfg (Some s)"

lemma plan_ok_load: "plan_inv cfg f \<Longrightarrow> plan_ok cfg (load_state_unlocked f)"
  by (cases f)
    (simp add: plan_ok_def load_state_unlocked_def empty_plan_def plan_inv_def,
     simp add: plan_ok_def load_state_unlocked_def)

lemma sort_key_fst_facts:
  fixes d :: "(string, 'v) dict"
  shows "distinct (dkeys (sort_key fst d)) = distinct (dkeys d)" "set (sort_key fst d) = set d"
    "length (sort_key fst d) = length d"
  by (metis mset_eq_imp_distinct_iff mset_map mset_sort, simp_all)

lemma plan_ok_write: "plan_ok cfg s \<Longrightarrow> plan_inv cfg (write_state_unlocked s)"
  by (auto simp: plan_ok_def plan_inv_def write_state_unlocked_def sort_key_fst_facts simp del: set_sort
      split: if_splits)

lemma select_targets_inv:
  assumes "distinct (dkeys reg)"
  shows "length (select_targets rnd cfg reg) \<le> nat (fp_injection_count cfg) \<and>
    distinct (dkeys (select_targets rnd cfg reg)) \<and>
    set (dkeys (select_targets rnd cfg reg)) \<subseteq> set (dkeys reg) \<and>
    (\<forall>(k, i) \<in> set (select_targets rnd cfg reg). 1 \<le> i \<and> i \<le> max 1 (fp_max_inject_before_step_idx cfg))"
proof (cases "fp_injection_count cfg \<le> 0")
  case False
  let ?ch = "chosen_samples cfg (candidates rnd cfg reg)"
  have sel: "select_targets rnd cfg reg = map (\<lambda>c. (fst c, inject_step cfg (fst (snd c)) (fst (snd (snd c))))) ?ch"
    using False by (simp add: select_targets_map [OF assms] case_prod_unfold)
  have "distinct (map fst ?ch)" by (intro chosen_distinct candidates_distinct assms)
  moreover have "set (map fst ?ch) \<subseteq> set (dkeys reg)"
    using chosen_subset [of cfg "candidates rnd cfg reg"] candidates_names [of rnd cfg reg] by auto
  ultimately show ?thesis
    unfolding sel using inject_step_bounds by (auto simp: length_chosen comp_def)
qed (simp add: select_targets_def)

lemma plan_ok_finalize: "plan_ok cfg s \<Longrightarrow> plan_ok cfg (finalize_plan rnd cfg s)"
  using select_targets_inv [of "pn_registered s" rnd cfg]
  by (auto simp: plan_ok_def plan_inv_def finalize_plan_def)

lemma plan_ok_register: "plan_ok cfg s \<Longrightarrow> plan_ok cfg (s\<lparr>pn_registered := dset k r (pn_registered s)\<rparr>)"
  using dom_update [of k r "pn_registered s"]
  by (simp add: plan_ok_def plan_inv_def distinct_dset dom_map_of_conv_image_fst subset_insertI2
      split: if_splits)

lemma plan_inv_step: "plan_step rnd refs cfg f g \<Longrightarrow> plan_inv cfg f \<Longrightarrow> plan_inv cfg g"
  by (induction rule: plan_step.induct)
    (auto simp: register_and_maybe_finalize_def poll_state_and_maybe_finalize_def Let_def
      intro!: plan_ok_write plan_ok_finalize plan_ok_register plan_ok_load)

interpretation planning: stepping "\<lambda>f. f = None" "plan_step rnd refs cfg" "plan_inv cfg" for rnd refs cfg
  by unfold_locales (auto simp: plan_inv_def [of _ None] intro: plan_inv_step)

text \<open>What no process undoes: registrations stay, and a finalized selection is frozen.\<close>

definition plan_grows :: "plan option \<Rightarrow> plan option \<Rightarrow> bool" where
  "plan_grows f g \<longleftrightarrow>
     set (dkeys (pn_registered (load_state_unlocked f))) \<subseteq> set (dkeys (pn_registered (load_state_unlocked g))) \<and>
     (pn_finalized (load_state_unlocked f) \<longrightarrow> pn_finalized (load_state_unlocked g) \<and>
       (\<forall>k. dget (pn_selected (load_state_unlocked g)) k = dget (pn_selected (load_state_unlocked f)) k))"

lemma load_write:
  "load_state_unlocked (write_state_unlocked s) = s\<lparr>pn_registered := sort_key fst (pn_registered s),
     pn_selected := sort_key fst (pn_selected s)\<rparr>"
  by (simp add: load_state_unlocked_def write_state_unlocked_def)

lemma map_of_sort_key:
  fixes d :: "(string, 'v) dict"
  assumes "distinct (dkeys d)"
  shows "dget (sort_key fst d) k = dget d k"
  using assms by (metis map_of_inject_set sort_key_fst_facts(1,2))

lemma plan_grows_step:
  assumes "plan_step rnd refs cfg f g" and "plan_inv cfg f"
  shows "plan_grows f g"
proof -
  have ok: "distinct (dkeys (pn_selected (load_state_unlocked f)))"
    using plan_ok_load [OF assms(2)] by (simp add: plan_ok_def plan_inv_def)
  from assms(1) show ?thesis
  proof cases
    case (registers key iid limit force)
    then show ?thesis
      using map_of_sort_key [OF ok]
      by (auto simp: plan_grows_def register_and_maybe_finalize_def Let_def load_write should_finalize_def
          finalize_plan_def keys_dset)
  next
    case (polls force)
    then show ?thesis
      using map_of_sort_key [OF ok]
      by (auto simp: plan_grows_def poll_state_and_maybe_finalize_def Let_def load_write should_finalize_def
          finalize_plan_def)
  qed
qed

lemma plan_grows_steps:
  "(plan_step rnd refs cfg)\<^sup>*\<^sup>* f g \<Longrightarrow> plan_inv cfg f \<Longrightarrow> plan_grows f g"
proof (induction rule: rtranclp_induct)
  case (step g h)
  then have "plan_grows g h"
    using plan_grows_step planning.steps_keep by blast
  with step show ?case by (auto simp: plan_grows_def)
qed (simp add: plan_grows_def)

text \<open>C7. Starting from no plan file, whatever registrations and polls the rollout processes make
  in whatever order: targets exist only once the plan is finalized, there are at most
  \<open>injection_count\<close> of them, all among the registered samples, and from then on every process
  sees the same target for every sample.\<close>

theorem plan_finalized_once:
  assumes "(plan_step rnd refs cfg)\<^sup>*\<^sup>* None f" and "(plan_step rnd refs cfg)\<^sup>*\<^sup>* f g"
  shows "plan_inv cfg f \<and> plan_inv cfg g \<and> plan_grows f g"
  using planning.reachable_inv [OF refl assms(1)] planning.steps_keep [OF assms(2)] plan_grows_steps [OF assms(2)]
  by blast

definition demo_file :: "plan option" where
  "demo_file = snd (register_and_maybe_finalize demo_draws ([], []) (demo_planner\<lparr>fp_expected_sample_count := 1\<rparr>)
     ''a'' ''i'' 9 False None)"

theorem plan_finalized_once_witness:
  "plan_inv (demo_planner\<lparr>fp_expected_sample_count := 1\<rparr>) demo_file \<and> plan_grows demo_file
     (snd (register_and_maybe_finalize demo_draws ([], []) (demo_planner\<lparr>fp_expected_sample_count := 1\<rparr>) ''b'' ''j'' 9 False demo_file)) \<and>
   pn_finalized (the demo_file)"
proof -
  let ?cfg = "demo_planner\<lparr>fp_expected_sample_count := 1\<rparr>"
  have one: "(plan_step demo_draws ([], []) ?cfg)\<^sup>*\<^sup>* None demo_file"
    unfolding demo_file_def by (rule r_into_rtranclp) (rule registers)
  have two: "(plan_step demo_draws ([], []) ?cfg)\<^sup>*\<^sup>* demo_file
      (snd (register_and_maybe_finalize demo_draws ([], []) ?cfg ''b'' ''j'' 9 False demo_file))"
    by (rule r_into_rtranclp) (rule registers)
  have "pn_finalized (the demo_file)" by code_simp
  then show ?thesis using plan_finalized_once [OF one two] by blast
qed

section \<open>Waiting for the plan\<close>

lemma poll_target_unready:
  "\<not> should_finalize cfg force (load_state_unlocked f) \<Longrightarrow> \<not> pn_finalized (load_state_unlocked f) \<Longrightarrow>
   poll_target rnd cfg key force f = ((False, None), f)"
  by (simp add: poll_target_def poll_state_and_maybe_finalize_def Let_def)

lemma poll_target_ready:
  "should_finalize cfg force (load_state_unlocked f) \<or> pn_finalized (load_state_unlocked f) \<Longrightarrow>
   fst (fst (poll_target rnd cfg key force f))"
  by (auto simp: poll_target_def poll_state_and_maybe_finalize_def Let_def finalize_plan_def)

lemma wait_loop_stuck:
  assumes "\<not> pn_finalized (load_state_unlocked f)"
    and "int (length (pn_registered (load_state_unlocked f))) < fp_injection_count cfg"
    and "fp_expected_sample_count cfg \<le> 0 \<or>
      int (length (pn_registered (load_state_unlocked f))) < fp_expected_sample_count cfg"
  shows "wait_loop rnd cfg key deadline now (\<lambda>_ x. x) fuel n f = None"
proof (induction fuel arbitrary: n)
  case (Suc fuel)
  have "\<not> should_finalize cfg force (load_state_unlocked f)" for force
    using assms by (auto simp: should_finalize_def)
  from poll_target_unready [OF this assms(1)] Suc show ?case by simp
qed simp

lemma registered_mono:
  assumes "plan_grows f g" and "plan_inv cfg f"
  shows "length (pn_registered (load_state_unlocked f)) \<le> length (pn_registered (load_state_unlocked g))"
proof -
  let ?f = "dkeys (pn_registered (load_state_unlocked f))" and ?g = "dkeys (pn_registered (load_state_unlocked g))"
  have "distinct ?f" using plan_ok_load [OF assms(2)] by (simp add: plan_ok_def plan_inv_def)
  then have "length ?f = card (set ?f)" by (simp only: distinct_card)
  also have "\<dots> \<le> card (set ?g)" using assms(1) by (intro card_mono) (auto simp: plan_grows_def)
  also have "\<dots> \<le> length ?g" by (rule card_length)
  finally show ?thesis by simp
qed

lemma wait_loop_returns:
  assumes others: "\<And>m x. (plan_step rnd refs cfg)\<^sup>*\<^sup>* x (others m x)" and "plan_inv cfg f"
    and "fp_injection_count cfg \<le> int (length (pn_registered (load_state_unlocked f)))"
    and "deadline \<le> now (n + k)"
  shows "wait_loop rnd cfg key deadline now others (Suc k) n f \<noteq> None"
  using assms(2-)
proof (induction k arbitrary: n f)
  case (0 n f)
  have inv: "plan_inv cfg (others n f)" and "plan_grows f (others n f)"
    using planning.steps_keep [OF others 0(1)] plan_grows_steps [OF others 0(1)] by blast+
  from registered_mono [OF this(2) 0(1)] 0(2,3)
  have "should_finalize cfg (deadline \<le> now n) (load_state_unlocked (others n f)) \<or>
      pn_finalized (load_state_unlocked (others n f))"
    by (auto simp: should_finalize_def)
  from poll_target_ready [OF this, of rnd key] show ?case by (auto split: prod.splits)
next
  case (Suc k n f)
  obtain fin t f' where poll: "poll_target rnd cfg key (deadline \<le> now n) (others n f) = ((fin, t), f')"
    by (metis prod.collapse)
  then have "f' = snd (poll_state_and_maybe_finalize rnd cfg (deadline \<le> now n) (others n f))"
    by (auto simp: poll_target_def split: prod.splits)
  then have run: "(plan_step rnd refs cfg)\<^sup>*\<^sup>* f f'"
    using others [of f n] by (metis polls rtranclp.rtrancl_into_rtrancl)
  have "plan_inv cfg f'" by (rule planning.steps_keep [OF run Suc.prems(1)])
  moreover have "fp_injection_count cfg \<le> int (length (pn_registered (load_state_unlocked f')))"
    using registered_mono [OF plan_grows_steps [OF run Suc.prems(1)] Suc.prems(1)] Suc.prems(2) by linarith
  ultimately have "wait_loop rnd cfg key deadline now others (Suc k) (Suc n) f' \<noteq> None"
    using Suc.prems(3) by (intro Suc.IH) simp_all
  with poll show ?case by simp
qed

text \<open>A rollout that registers and waits gets its answer at the first poll past the deadline
  when at least \<open>injection_count\<close> samples have registered. When fewer have, and nobody else
  registers, no number of polls is enough: \<open>wait_timeout_sec\<close> does not bound the wait.\<close>

theorem register_and_wait_needs_samples:
  assumes "register rnd refs cfg key iid limit f0 = (s, f)" and "plan_inv cfg f0"
  shows "(fp_injection_count cfg \<le> int (length (pn_registered s)) \<and> t0 + fp_wait_timeout_sec cfg \<le> now k \<longrightarrow>
      register_and_wait rnd refs cfg key iid limit t0 now (\<lambda>_ x. x) (Suc k) f0 \<noteq> None) \<and>
    (\<not> pn_finalized s \<and> int (length (pn_registered s)) < fp_injection_count cfg \<longrightarrow>
      (\<forall>fuel. register_and_wait rnd refs cfg key iid limit t0 now (\<lambda>_ x. x) fuel f0 = None))"
proof -
  have f: "f = write_state_unlocked s" and ok: "plan_inv cfg f"
    using assms plan_inv_step [OF registers, of cfg f0 rnd refs key iid limit False]
    by (auto simp: register_def register_and_maybe_finalize_def Let_def)
  have len: "length (pn_registered (load_state_unlocked f)) = length (pn_registered s)"
    and fin: "pn_finalized (load_state_unlocked f) = pn_finalized s"
    unfolding f by (simp_all add: load_write)
  have "\<not> pn_finalized s \<Longrightarrow> fp_expected_sample_count cfg \<le> 0 \<or> int (length (pn_registered s)) < fp_expected_sample_count cfg"
    using assms(1)
    by (auto simp: register_def register_and_maybe_finalize_def Let_def should_finalize_def finalize_plan_def
        split: if_splits)
  then show ?thesis
    using assms(1) len fin ok wait_loop_stuck [of f cfg rnd key "t0 + fp_wait_timeout_sec cfg" now]
      wait_loop_returns [of rnd refs cfg "\<lambda>_ x. x" f "t0 + fp_wait_timeout_sec cfg" now 0 k key]
    by (auto simp: register_and_wait_def)
qed

theorem register_and_wait_needs_samples_witness:
  "(\<forall>fuel. register_and_wait demo_draws ([], []) (demo_planner\<lparr>fp_injection_count := 2\<rparr>) ''a'' ''i'' 9 0 real
     (\<lambda>_ x. x) fuel None = None) \<and>
   register_and_wait demo_draws ([], []) demo_planner ''a'' ''i'' 9 0 real (\<lambda>_ x. x) 6 None \<noteq> None"
proof -
  let ?r = "\<lambda>cfg. register demo_draws ([], []) cfg ''a'' ''i'' 9 None"
  have "\<not> pn_finalized (fst (?r (demo_planner\<lparr>fp_injection_count := 2\<rparr>)))"
    "length (pn_registered (fst (?r (demo_planner\<lparr>fp_injection_count := 2\<rparr>)))) = 1"
    "length (pn_registered (fst (?r demo_planner))) = 1" by code_simp+
  then show ?thesis
    using register_and_wait_needs_samples [of demo_draws "([], [])" "demo_planner\<lparr>fp_injection_count := 2\<rparr>"
        "''a''" "''i''" 9 None, OF prod.collapse [symmetric], of 0 real]
      register_and_wait_needs_samples [of demo_draws "([], [])" demo_planner
        "''a''" "''i''" 9 None, OF prod.collapse [symmetric], of 0 real 5]
    by (simp add: plan_inv_def demo_planner_def numeral_eq_Suc)
qed

end
