(* ===== verification/Router_Registry.thy ===== *)
theory Router_Registry
  imports PyText "HOL-Library.List_Lexorder" "HOL-Library.Char_ord"
begin

text \<open>
  The worker registry of the slime router (\<open>slime/slime/router/router.py\<close>): registration and
  removal of workers, the choice of the least loaded one, the active request counts with their
  registration sequence numbers, and the wait for the replacement of a failed worker. The
  router is one asyncio event loop, so the code between two awaits is one step.
\<close>

section \<open>State\<close>

record router =
  rt_request_counts :: "(string, int) dict"
  rt_keys_by_url :: "(string, string) dict"
  rt_urls_by_key :: "(string, string) dict"
  rt_seq_by_key :: "(string, int) dict"
  rt_seq_by_url :: "(string, int) dict"
  rt_events_by_key :: "(string, bool) dict"
  rt_failure_counts :: "(string, int) dict"
  rt_selection_cursor :: nat
  rt_reroute_to_healthy :: bool

definition new_router :: "bool \<Rightarrow> router" where
  "new_router reroute =
     \<lparr>rt_request_counts = [], rt_keys_by_url = [], rt_urls_by_key = [], rt_seq_by_key = [],
      rt_seq_by_url = [], rt_events_by_key = [], rt_failure_counts = [], rt_selection_cursor = 0,
      rt_reroute_to_healthy = reroute\<rparr>"

section \<open>Registration\<close>

text \<open>The URL and key of a request, from the query string and the JSON body.\<close>

record worker_params =
  wp_query_url :: "string option"
  wp_query_worker_url :: "string option"
  wp_query_key :: "string option"
  wp_body_url :: "string option"
  wp_body_worker_url :: "string option"
  wp_body_key :: "string option"

fun first_nonempty :: "string option list \<Rightarrow> string" where
  \<comment> \<open>\<open>a or b or c\<close>\<close>
  "first_nonempty [] = ''''"
| "first_nonempty (Some (c # s) # xs) = c # s"
| "first_nonempty (_ # xs) = first_nonempty xs"

definition add_params :: "worker_params \<Rightarrow> string \<times> string" where
  "add_params q =
     (let url = first_nonempty [wp_query_url q, wp_query_worker_url q];
          key = first_nonempty [wp_query_key q]
      in if url = [] \<or> key = []
         then (first_nonempty [Some url, wp_body_url q, wp_body_worker_url q],
               first_nonempty [Some key, wp_body_key q])
         else (url, key))"

definition remove_params :: "worker_params \<Rightarrow> string \<times> string" where
  "remove_params q =
     (let url = first_nonempty [wp_query_url q, wp_query_worker_url q];
          key = first_nonempty [wp_query_key q]
      in if url = []
         then (first_nonempty [Some url, wp_body_url q, wp_body_worker_url q],
               first_nonempty [Some key, wp_body_key q])
         else (url, key))"

definition register_worker :: "string \<Rightarrow> string \<Rightarrow> router \<Rightarrow> router" where
  "register_worker url key r =
     (let seq = dget_def (rt_seq_by_key r) key 0 + 1
      in r\<lparr>rt_request_counts := (if dget (rt_request_counts r) url = None
             then dset url 0 (rt_request_counts r) else rt_request_counts r),
           rt_failure_counts := dset url 0 (rt_failure_counts r),
           rt_keys_by_url := dset url key (rt_keys_by_url r),
           rt_urls_by_key := dset key url (rt_urls_by_key r),
           rt_seq_by_key := dset key seq (rt_seq_by_key r),
           rt_seq_by_url := dset url seq (rt_seq_by_url r),
           rt_events_by_key := dset key True (rt_events_by_key r)\<rparr>)"

definition add_worker :: "worker_params \<Rightarrow> router \<Rightarrow> (int + (string, int) dict) \<times> router" where
  \<comment> \<open>\<open>Inl\<close> the HTTP status of an error\<close>
  "add_worker q r =
     (let (url, key) = add_params q
      in if url = [] then (Inl 400, r)
         else (let r' = register_worker url (if key = [] then url else key) r
               in (Inr (rt_request_counts r'), r')))"

definition unregister_worker :: "string \<Rightarrow> string \<Rightarrow> router \<Rightarrow> router" where
  "unregister_worker url key r =
     r\<lparr>rt_request_counts := dpop url (rt_request_counts r),
       rt_failure_counts := dpop url (rt_failure_counts r),
       rt_seq_by_url := dpop url (rt_seq_by_url r),
       rt_keys_by_url := dpop url (rt_keys_by_url r),
       rt_urls_by_key := (if dget (rt_urls_by_key r) key = Some url
         then dpop key (rt_urls_by_key r) else rt_urls_by_key r)\<rparr>"

definition remove_key :: "string \<Rightarrow> string \<Rightarrow> router \<Rightarrow> string" where
  \<comment> \<open>\<open>worker_key or self.worker_keys_by_url.get(worker_url) or worker_url\<close>\<close>
  "remove_key url key r = first_nonempty [Some key, dget (rt_keys_by_url r) url, Some url]"

definition remove_worker :: "worker_params \<Rightarrow> router \<Rightarrow> (int + bool \<times> string list) \<times> router" where
  "remove_worker q r =
     (let (url, key) = remove_params q
      in if url = [] then (Inl 400, r)
         else (let r' = unregister_worker url (remove_key url key r) r
               in (Inr (dget (rt_request_counts r) url \<noteq> None, dkeys (rt_request_counts r')), r')))"

definition list_workers :: "router \<Rightarrow> string list" where
  "list_workers r = dkeys (rt_request_counts r)"

section \<open>Choosing and counting\<close>

definition worker_candidates :: "string set \<Rightarrow> router \<Rightarrow> string list" where
  "worker_candidates excluded r = filter (\<lambda>u. u \<notin> excluded) (dkeys (rt_request_counts r))"

definition request_count :: "router \<Rightarrow> string \<Rightarrow> int" where
  "request_count r url = dget_def (rt_request_counts r) url 0"

definition least_loaded_workers :: "string set \<Rightarrow> router \<Rightarrow> string list" where
  "least_loaded_workers excluded r =
     (let cs = worker_candidates excluded r; m = Min (set (map (request_count r) cs))
      in sort (filter (\<lambda>u. request_count r u = m) cs))"

definition select_least_loaded_worker_url :: "string set \<Rightarrow> router \<Rightarrow> string res \<times> router" where
  "select_least_loaded_worker_url excluded r =
     (if worker_candidates excluded r = [] then (Inl (RuntimeError ''No workers available in the pool''), r)
      else (let ws = least_loaded_workers excluded r
            in (Inr (ws ! (rt_selection_cursor r mod length ws)),
                r\<lparr>rt_selection_cursor := rt_selection_cursor r + 1\<rparr>)))"

definition bump_count :: "string \<Rightarrow> int \<Rightarrow> router \<Rightarrow> router" where
  "bump_count url d r = r\<lparr>rt_request_counts := dset url (request_count r url + d) (rt_request_counts r)\<rparr>"

definition current_seq :: "router \<Rightarrow> string \<Rightarrow> int" where
  "current_seq r url = dget_def (rt_seq_by_url r) url 0"

definition use_url :: "string set \<Rightarrow> router \<Rightarrow> (string \<times> int) res \<times> router" where
  "use_url excluded r =
     (case select_least_loaded_worker_url excluded r of
        (Inl e, r') \<Rightarrow> (Inl e, r')
      | (Inr url, r') \<Rightarrow> (let r'' = bump_count url 1 r' in (Inr (url, current_seq r'' url), r'')))"

definition reserve_url :: "string \<Rightarrow> router \<Rightarrow> int res \<times> router" where
  "reserve_url url r =
     (if dget (rt_request_counts r) url = None
      then (Inl (RuntimeError (''Cannot reserve unknown worker url '' @ url)), r)
      else (let r' = bump_count url 1 r in (Inr (current_seq r' url), r')))"

definition finish_url :: "string \<Rightarrow> int option \<Rightarrow> router \<Rightarrow> unit res \<times> router" where
  "finish_url url expected r =
     (if dget (rt_request_counts r) url = None then (Inr (), r)
      else if expected \<noteq> None \<and> current_seq r url \<noteq> the expected then (Inr (), r)
      else (let r' = bump_count url (-1) r
            in (if 0 \<le> request_count r' url then Inr ()
                else Inl (AssertionError (''URL '' @ url @ '' count went negative'')), r')))"

section \<open>Replacing a failed worker\<close>

text \<open>
  The waiting loop. \<open>wakes n\<close> is the router when the coroutine looks for the n-th time (after
  the event was set or the poll interval ran out) and \<open>clock n\<close> the time then; a wait that
  blocks for ever is one that has no n-th look, so out of fuel (\<open>None\<close>) is "still waiting".
\<close>

fun recovery_loop :: "string \<Rightarrow> int \<Rightarrow> real option \<Rightarrow> (nat \<Rightarrow> router) \<Rightarrow> (nat \<Rightarrow> real) \<Rightarrow> nat \<Rightarrow> nat \<Rightarrow>
    string option option" where
  "recovery_loop key failed_seq deadline wakes clock 0 n = None"
| "recovery_loop key failed_seq deadline wakes clock (Suc fuel) n =
     (let r = wakes n; url = first_nonempty [dget (rt_urls_by_key r) key]
      in if url \<noteq> [] \<and> failed_seq < dget_def (rt_seq_by_key r) key 0 then Some (Some url)
         else (case deadline of
                 None \<Rightarrow> recovery_loop key failed_seq deadline wakes clock fuel (Suc n)
               | Some d \<Rightarrow> (if d - clock n \<le> 0 then Some None
                           else recovery_loop key failed_seq deadline wakes clock fuel (Suc n))))"

definition effective_failed_seq :: "string \<Rightarrow> string \<Rightarrow> router \<Rightarrow> int" where
  "effective_failed_seq key failed_url r = max (current_seq r failed_url) (dget_def (rt_seq_by_key r) key 0)"

definition wait_for_worker_recovery :: "real \<Rightarrow> real \<Rightarrow> string \<Rightarrow> string \<Rightarrow> (nat \<Rightarrow> router) \<Rightarrow> (nat \<Rightarrow> real) \<Rightarrow>
    nat \<Rightarrow> string option option" where
  "wait_for_worker_recovery wait_seconds t0 key failed_url wakes clock fuel =
     recovery_loop key (effective_failed_seq key failed_url (wakes 0))
       (if 0 < wait_seconds then Some (t0 + wait_seconds) else None) wakes clock fuel 0"

definition resolve_failed_worker_url :: "real \<Rightarrow> real \<Rightarrow> string \<Rightarrow> string \<Rightarrow> router \<Rightarrow> (nat \<Rightarrow> router) \<Rightarrow>
    (nat \<Rightarrow> real) \<Rightarrow> nat \<Rightarrow> string option option \<times> router" where
  "resolve_failed_worker_url wait_seconds t0 key failed_url r wakes clock fuel =
     (if rt_reroute_to_healthy r
      then (case select_least_loaded_worker_url {failed_url} r of
              (Inr url, r') \<Rightarrow> (Some (Some url), r')
            | (Inl e, r') \<Rightarrow> (wait_for_worker_recovery wait_seconds t0 key failed_url wakes clock fuel, r'))
      else (wait_for_worker_recovery wait_seconds t0 key failed_url wakes clock fuel, r))"

definition build_target_url :: "string \<Rightarrow> string \<Rightarrow> string \<Rightarrow> string" where
  "build_target_url worker_url path query =
     (let url = worker_url @ ''/'' @ path in if query \<noteq> [] then url @ ''?'' @ query else url)"

definition prepare_forward_headers :: "(string, string) dict \<Rightarrow> (string, string) dict" where
  "prepare_forward_headers headers =
     fold dpop [''content-length'', ''host'', ''transfer-encoding'', ''connection''] headers"

definition prepare_response_headers :: "(string, string) dict \<Rightarrow> (string, string) dict" where
  "prepare_response_headers headers = fold dpop [''content-length'', ''transfer-encoding'', ''connection''] headers"

section \<open>The retrying proxy\<close>

text \<open>
  The catch-all branch of \<open>proxy\<close>: up to \<open>max_retries + 1\<close> attempts, each on a worker not tried
  before. \<open>send n url\<close> is the n-th upstream call: a reply, a transport error (retried), or
  another exception (not retried). Other requests run between the reservation and the end of
  the call: \<open>others n\<close> is what they do to the router.
\<close>

datatype 'r sent = Replied 'r | Transport_Error exc | Other_Error exc

definition note_failure :: "string \<Rightarrow> router \<Rightarrow> router" where
  "note_failure url r = r\<lparr>rt_failure_counts := dset url (dget_def (rt_failure_counts r) url 0 + 1) (rt_failure_counts r)\<rparr>"

definition finish_after :: "'r res \<Rightarrow> string \<Rightarrow> int \<Rightarrow> router \<Rightarrow> 'r res \<times> router" where
  \<comment> \<open>the \<open>finally\<close> clause: a failing assertion replaces the outcome\<close>
  "finish_after out url seq r =
     (case finish_url url (Some seq) r of (Inr _, r') \<Rightarrow> (out, r') | (Inl e, r') \<Rightarrow> (Inl e, r'))"

fun proxy_attempts :: "(nat \<Rightarrow> string \<Rightarrow> 'r sent) \<Rightarrow> (nat \<Rightarrow> router \<Rightarrow> router) \<Rightarrow> nat \<Rightarrow> nat \<Rightarrow> string set \<Rightarrow> router \<Rightarrow>
    'r res \<times> router" where
  "proxy_attempts send others left n excluded r =
     (case use_url excluded r of
        (Inl e, r') \<Rightarrow> (Inl e, r')
      | (Inr (url, seq), r') \<Rightarrow>
          (let r1 = others n r'
           in case send n url of
                Replied x \<Rightarrow> finish_after (Inr x) url seq r1
              | Other_Error e \<Rightarrow> finish_after (Inl e) url seq r1
              | Transport_Error e \<Rightarrow>
                  (let r2 = note_failure url r1
                   in case left of
                        0 \<Rightarrow> finish_after (Inl e) url seq r2
                      | Suc left' \<Rightarrow>
                          (case finish_url url (Some seq) r2 of
                             (Inl e', r3) \<Rightarrow> (Inl e', r3)
                           | (Inr _, r3) \<Rightarrow> proxy_attempts send others left' (Suc n) (insert url excluded) r3))))"

declare proxy_attempts.simps [simp del]

definition proxy_retry :: "(nat \<Rightarrow> string \<Rightarrow> 'r sent) \<Rightarrow> (nat \<Rightarrow> router \<Rightarrow> router) \<Rightarrow> nat \<Rightarrow> router \<Rightarrow> 'r res \<times> router" where
  "proxy_retry send others max_retries r = proxy_attempts send others max_retries 0 {} r"

end
