(* ===== verification/Registry_Properties.thy ===== *)
theory Registry_Properties
  imports Router_Registry
begin

text \<open>
  What holds of the worker registry: the choice of a worker, the request counts under all
  interleavings of requests with (re-)registrations, and the wait for a replacement.
\<close>

section \<open>Field updates\<close>

lemma request_count_simps [simp]:
  "request_count (bump_count u d r) v = (if v = u then request_count r u + d else request_count r v)"
  "request_count (note_failure u r) v = request_count r v"
  "request_count (r\<lparr>rt_selection_cursor := c\<rparr>) v = request_count r v"
  by (simp_all add: request_count_def bump_count_def note_failure_def)

lemma current_seq_simps [simp]:
  "current_seq (bump_count u d r) v = current_seq r v"
  "current_seq (note_failure u r) v = current_seq r v"
  "current_seq (r\<lparr>rt_selection_cursor := c\<rparr>) v = current_seq r v"
  by (simp_all add: current_seq_def bump_count_def note_failure_def)

lemma bump_frame [frame_simps]:
  "rt_seq_by_key (bump_count u d r) = rt_seq_by_key r"
  "rt_seq_by_url (bump_count u d r) = rt_seq_by_url r"
  "rt_urls_by_key (bump_count u d r) = rt_urls_by_key r"
  "dget (rt_request_counts (bump_count u d r)) v =
     (if v = u then Some (request_count r u + d) else dget (rt_request_counts r) v)"
  by (simp_all add: bump_count_def dget_dset)

lemma note_failure_frame [frame_simps]:
  "rt_seq_by_key (note_failure u r) = rt_seq_by_key r"
  "rt_seq_by_url (note_failure u r) = rt_seq_by_url r"
  "rt_urls_by_key (note_failure u r) = rt_urls_by_key r"
  "rt_request_counts (note_failure u r) = rt_request_counts r"
  by (simp_all add: note_failure_def)

section \<open>The least loaded worker\<close>

lemma shifted_mod_inj:
  fixes c n :: nat
  assumes "(c + i) mod n = (c + j) mod n" and "i \<le> j" and "j < n"
  shows "i = j"
proof -
  have "n dvd (c + j) - (c + i)" using assms(1,2) by (metis add_le_cancel_left mod_eq_dvd_iff_nat)
  then have "n dvd j - i" by simp
  then show ?thesis using assms(2,3) by (auto dest: dvd_imp_le)
qed

lemma rotate_mod_image:
  fixes c n :: nat
  assumes "0 < n"
  shows "(\<lambda>i. (c + i) mod n) ` {0..<n} = {0..<n}"
proof (rule endo_inj_surj)
  show "inj_on (\<lambda>i. (c + i) mod n) {0..<n}"
  proof (rule inj_onI)
    fix i j
    assume "i \<in> {0..<n}" "j \<in> {0..<n}" "(c + i) mod n = (c + j) mod n"
    then show "i = j" using shifted_mod_inj [of c i n j] shifted_mod_inj [of c j n i] by (cases "i \<le> j") auto
  qed
qed (use assms in auto)

lemma least_loaded_set:
  assumes "worker_candidates ex r \<noteq> []"
  shows "set (least_loaded_workers ex r) =
    {u \<in> set (worker_candidates ex r). \<forall>v \<in> set (worker_candidates ex r). request_count r u \<le> request_count r v}"
    and "least_loaded_workers ex r \<noteq> []"
proof -
  let ?cs = "worker_candidates ex r" and ?m = "Min (request_count r ` set (worker_candidates ex r))"
  have min: "request_count r u = ?m \<longleftrightarrow> (\<forall>v \<in> set ?cs. request_count r u \<le> request_count r v)" if "u \<in> set ?cs" for u
  proof
    assume "request_count r u = ?m"
    then show "\<forall>v \<in> set ?cs. request_count r u \<le> request_count r v" by (simp add: Min_le)
  next
    assume le: "\<forall>v \<in> set ?cs. request_count r u \<le> request_count r v"
    show "request_count r u = ?m"
      by (rule Min_eqI [symmetric]) (use le that in auto)
  qed
  then show "set (least_loaded_workers ex r) = {u \<in> set ?cs. \<forall>v \<in> set ?cs. request_count r u \<le> request_count r v}"
    by (auto simp: least_loaded_workers_def Let_def)
  have "?m \<in> request_count r ` set ?cs" using assms by (intro Min_in) auto
  then obtain u where "u \<in> set ?cs" "request_count r u = ?m" by auto
  then have "u \<in> set (least_loaded_workers ex r)" by (simp add: least_loaded_workers_def Let_def)
  then show "least_loaded_workers ex r \<noteq> []" by auto
qed

lemma select_Inr:
  assumes "select_least_loaded_worker_url ex r = (Inr u, r')"
  shows "u \<in> set (least_loaded_workers ex r)" "r' = r\<lparr>rt_selection_cursor := rt_selection_cursor r + 1\<rparr>"
    "worker_candidates ex r \<noteq> []"
    "u = least_loaded_workers ex r ! (rt_selection_cursor r mod length (least_loaded_workers ex r))"
  using assms least_loaded_set(2) [of ex r]
  by (auto simp: select_least_loaded_worker_url_def Let_def split: if_splits)

lemma candidate_live: "u \<in> set (worker_candidates ex r) \<longleftrightarrow> u \<notin> ex \<and> dget (rt_request_counts r) u \<noteq> None"
  by (auto simp: worker_candidates_def map_of_eq_None_iff)

text \<open>A request gets a registered worker that is not excluded and whose count no other such
  worker undercuts, and one is refused only when every registered worker is excluded; a run of
  as many selections as there are least loaded workers, with the counts unchanged, picks each of
  them once (the cursor is a round robin).\<close>

theorem selection_is_least_loaded:
  shows "(\<forall>u r'. use_url ex r = (Inr (u, s), r') \<longrightarrow> u \<notin> ex \<and> dget (rt_request_counts r) u \<noteq> None \<and>
      (\<forall>v. v \<notin> ex \<and> dget (rt_request_counts r) v \<noteq> None \<longrightarrow> request_count r u \<le> request_count r v) \<and>
      request_count r' u = request_count r u + 1 \<and> s = current_seq r u) \<and>
    (isl (fst (use_url ex r)) \<longleftrightarrow> (\<forall>v. dget (rt_request_counts r) v \<noteq> None \<longrightarrow> v \<in> ex)) \<and>
    (worker_candidates ex r \<noteq> [] \<longrightarrow>
      set (map (\<lambda>i. projr (fst (select_least_loaded_worker_url ex (r\<lparr>rt_selection_cursor := rt_selection_cursor r + i\<rparr>))))
        [0..<length (least_loaded_workers ex r)]) = set (least_loaded_workers ex r))"
proof (intro conjI allI impI)
  fix u r'
  assume "use_url ex r = (Inr (u, s), r')"
  then obtain r1 where sel: "select_least_loaded_worker_url ex r = (Inr u, r1)"
    and eq: "s = current_seq (bump_count u 1 r1) u" "r' = bump_count u 1 r1"
    by (auto simp: use_url_def Let_def split: prod.splits sum.splits)
  note u = select_Inr [OF sel]
  with least_loaded_set(1) [OF u(3)] have mem: "u \<in> set (worker_candidates ex r)"
    and le: "\<forall>v \<in> set (worker_candidates ex r). request_count r u \<le> request_count r v" by auto
  from mem show "u \<notin> ex" "dget (rt_request_counts r) u \<noteq> None" by (simp_all add: candidate_live)
  show "request_count r u \<le> request_count r v" if "v \<notin> ex \<and> dget (rt_request_counts r) v \<noteq> None" for v
    using le that by (simp add: candidate_live)
  show "request_count r' u = request_count r u + 1" "s = current_seq r u"
    using eq u(2) by simp_all
next
  show "isl (fst (use_url ex r)) = (\<forall>v. dget (rt_request_counts r) v \<noteq> None \<longrightarrow> v \<in> ex)"
  proof (cases "worker_candidates ex r = []")
    case True
    then have "\<forall>v. dget (rt_request_counts r) v \<noteq> None \<longrightarrow> v \<in> ex"
      by (metis candidate_live empty_iff list.set(1))
    with True show ?thesis by (simp add: use_url_def select_least_loaded_worker_url_def)
  next
    case False
    then obtain v where "v \<in> set (worker_candidates ex r)" by (cases "worker_candidates ex r") auto
    with False show ?thesis
      by (auto simp: use_url_def select_least_loaded_worker_url_def Let_def candidate_live)
  qed
next
  assume ne: "worker_candidates ex r \<noteq> []"
  let ?ws = "least_loaded_workers ex r" and ?c = "rt_selection_cursor r"
  have same: "least_loaded_workers ex (r\<lparr>rt_selection_cursor := k\<rparr>) = ?ws"
    "worker_candidates ex (r\<lparr>rt_selection_cursor := k\<rparr>) = worker_candidates ex r" for k
    by (simp_all add: least_loaded_workers_def worker_candidates_def)
  have len: "0 < length ?ws" using least_loaded_set(2) [OF ne] by simp
  have "(\<lambda>i. (?c + i) mod length ?ws) ` {0..<length ?ws} = {0..<length ?ws}"
    by (rule rotate_mod_image [OF len])
  then have "(\<lambda>i. ?ws ! ((?c + i) mod length ?ws)) ` {0..<length ?ws} = (!) ?ws ` {0..<length ?ws}"
    by (metis (no_types) image_image)
  also have "\<dots> = set ?ws" by (simp add: nth_image)
  finally show "set (map (\<lambda>i. projr (fst (select_least_loaded_worker_url ex (r\<lparr>rt_selection_cursor := ?c + i\<rparr>))))
      [0..<length ?ws]) = set ?ws"
    using ne by (simp add: select_least_loaded_worker_url_def Let_def same)
qed

definition demo_router :: router where
  "demo_router = register_worker ''b'' ''k2'' (register_worker ''a'' ''k1'' (new_router False))"

theorem selection_is_least_loaded_witness:
  "fst (use_url {} demo_router) = Inr (''a'', 1) \<and> \<not> isl (fst (use_url {''b''} demo_router)) \<and>
   isl (fst (use_url {''a'', ''b''} demo_router))"
proof -
  have live: "dget (rt_request_counts demo_router) v \<noteq> None \<longleftrightarrow> v = ''a'' \<or> v = ''b''" for v
    by (simp add: demo_router_def register_worker_def new_router_def Let_def)
  have "fst (use_url {} demo_router) = Inr (''a'', 1)" by code_simp
  then show ?thesis
    using selection_is_least_loaded [of "{''b''}" demo_router 0] selection_is_least_loaded [of "{''a'', ''b''}" demo_router 0] live
    by auto
qed

section \<open>Counts under interleaving\<close>

text \<open>
  The registry with the reservations its requests hold, each with the sequence number it was
  made under. \<open>key_of\<close> is the key a worker address is registered and removed under: the
  hypothesis that it does not change is the documented meaning of the key.
\<close>

type_synonym registry = "router \<times> (string \<times> int) multiset"

inductive registry_step :: "(string \<Rightarrow> string) \<Rightarrow> registry \<Rightarrow> registry \<Rightarrow> bool" for key_of where
  adds: "url \<noteq> [] \<Longrightarrow> registry_step key_of (r, R) (register_worker url (key_of url) r, R)"
| removes: "registry_step key_of (r, R) (unregister_worker url (key_of url) r, R)"
| uses: "use_url ex r = (Inr h, r') \<Longrightarrow> registry_step key_of (r, R) (r', add_mset h R)"
| refuses: "use_url ex r = (Inl e, r') \<Longrightarrow> registry_step key_of (r, R) (r', R)"
| reroutes: "select_least_loaded_worker_url ex r = (x, r') \<Longrightarrow> registry_step key_of (r, R) (r', R)"
| reserves: "reserve_url url r = (Inr seq, r') \<Longrightarrow> registry_step key_of (r, R) (r', add_mset (url, seq) R)"
| finishes: "finish_url url (Some seq) r = (x, r') \<Longrightarrow> registry_step key_of (r, add_mset (url, seq) R) (r', R)"
| fails: "registry_step key_of (r, R) (note_failure url r, R)"

inductive_cases registry_stepE: "registry_step key_of (r, R) (r', R')"

definition key_seq :: "router \<Rightarrow> string \<Rightarrow> int" where
  "key_seq r k = dget_def (rt_seq_by_key r) k 0"

definition seqs_inv :: "(string \<Rightarrow> string) \<Rightarrow> registry \<Rightarrow> bool" where
  "seqs_inv key_of s = (case s of (r, R) \<Rightarrow>
     (\<forall>u n. (u, n) \<in># R \<longrightarrow> n \<le> key_seq r (key_of u)) \<and> (\<forall>u. current_seq r u \<le> key_seq r (key_of u)) \<and>
     (\<forall>k. 0 \<le> key_seq r k))"

definition counts_inv :: "registry \<Rightarrow> bool" where
  "counts_inv s = (case s of (r, R) \<Rightarrow>
     \<forall>u c. dget (rt_request_counts r) u = Some c \<longrightarrow> int (count R (u, current_seq r u)) \<le> c)"

definition urls_inv :: "(string \<Rightarrow> string) \<Rightarrow> registry \<Rightarrow> bool" where
  "urls_inv key_of s = (case s of (r, R) \<Rightarrow>
     \<forall>k u. dget (rt_urls_by_key r) k = Some u \<longrightarrow> key_of u = k \<and> dget (rt_request_counts r) u \<noteq> None)"

definition registry_inv :: "(string \<Rightarrow> string) \<Rightarrow> registry \<Rightarrow> bool" where
  "registry_inv key_of s \<longleftrightarrow> seqs_inv key_of s \<and> counts_inv s \<and> urls_inv key_of s"

definition registry_init :: "registry \<Rightarrow> bool" where
  "registry_init s \<longleftrightarrow> (\<exists>b. s = (new_router b, {#}))"

lemma registry_init_inv: "registry_init s \<Longrightarrow> registry_inv key_of s"
  by (auto simp: registry_init_def registry_inv_def seqs_inv_def counts_inv_def urls_inv_def new_router_def
      key_seq_def current_seq_def dget_def_def)

lemma use_cases:
  assumes "use_url ex r = (Inr h, r')"
  obtains u where "h = (u, current_seq r u)" "dget (rt_request_counts r) u \<noteq> None"
    "r' = bump_count u 1 (r\<lparr>rt_selection_cursor := rt_selection_cursor r + 1\<rparr>)"
proof -
  obtain u r1 where sel: "select_least_loaded_worker_url ex r = (Inr u, r1)"
    and eq: "h = (u, current_seq (bump_count u 1 r1) u)" "r' = bump_count u 1 r1"
    using assms by (auto simp: use_url_def Let_def split: prod.splits sum.splits)
  note u = select_Inr [OF sel]
  show ?thesis
  proof (rule that)
    show "dget (rt_request_counts r) u \<noteq> None"
      using least_loaded_set(1) [OF u(3)] u(1) by (auto simp: candidate_live)
  qed (use eq u(2) in simp_all)
qed

lemma use_Inl: "use_url ex r = (Inl e, r') \<Longrightarrow> r' = r"
  by (auto simp: use_url_def select_least_loaded_worker_url_def Let_def split: prod.splits sum.splits if_splits)

lemma select_frame:
  assumes "select_least_loaded_worker_url ex r = (x, r')"
  shows "rt_request_counts r' = rt_request_counts r" "rt_seq_by_key r' = rt_seq_by_key r"
    "rt_seq_by_url r' = rt_seq_by_url r" "rt_urls_by_key r' = rt_urls_by_key r"
  using assms by (auto simp: select_least_loaded_worker_url_def Let_def split: if_splits)

lemma finish_cases:
  assumes "finish_url u (Some s) r = (x, r')"
  obtains (skip) "r' = r" "x = Inr ()" "dget (rt_request_counts r) u = None \<or> current_seq r u \<noteq> s"
  | (finish) c where "dget (rt_request_counts r) u = Some c" "current_seq r u = s" "r' = bump_count u (-1) r"
      "x = Inr () \<longleftrightarrow> 1 \<le> c"
proof (cases "dget (rt_request_counts r) u")
  case None
  with assms show ?thesis by (intro skip) (auto simp: finish_url_def)
next
  case (Some c)
  show ?thesis
  proof (cases "current_seq r u = s")
    case True
    have "request_count r u = c" using Some by (simp add: request_count_def dget_def_def)
    then have "request_count (bump_count u (-1) r) u = c - 1" by simp
    with assms Some True show ?thesis
      by (intro finish [of c]) (auto simp: finish_url_def Let_def split: if_splits)
  next
    case False
    with assms Some show ?thesis by (intro skip) (auto simp: finish_url_def)
  qed
qed

lemma reserve_cases:
  assumes "reserve_url u r = (Inr s, r')"
  shows "dget (rt_request_counts r) u \<noteq> None" "s = current_seq r u" "r' = bump_count u 1 r"
  using assms by (auto simp: reserve_url_def Let_def split: if_splits)

subsection \<open>Sequence numbers\<close>

lemma key_seq_frame [frame_simps]:
  "key_seq (bump_count u d r) k = key_seq r k"
  "key_seq (note_failure u r) k = key_seq r k"
  "key_seq (unregister_worker u k' r) k = key_seq r k"
  by (simp_all add: key_seq_def frame_simps unregister_worker_def)

lemma key_seq_register:
  "key_seq (register_worker u k r) k' = (if k' = k then key_seq r k + 1 else key_seq r k')"
  by (simp add: key_seq_def register_worker_def Let_def)

lemma current_seq_register:
  "current_seq (register_worker u k r) v = (if v = u then key_seq r k + 1 else current_seq r v)"
  by (simp add: current_seq_def key_seq_def register_worker_def Let_def)

lemma current_seq_unregister:
  "current_seq (unregister_worker u k r) v = (if v = u then 0 else current_seq r v)"
  by (simp add: current_seq_def unregister_worker_def)

lemma cursor_seqs [simp]: "key_seq (r\<lparr>rt_selection_cursor := c\<rparr>) k = key_seq r k"
  by (simp add: key_seq_def)

lemma seqs_inv_step: "registry_step key_of s t \<Longrightarrow> seqs_inv key_of s \<Longrightarrow> seqs_inv key_of t"
proof (induction rule: registry_step.induct)
  case (adds url r R)
  then show ?case
    by (simp add: seqs_inv_def key_seq_register current_seq_register) (smt (verit) adds)
next
  case (removes r R url)
  then show ?case by (simp add: seqs_inv_def frame_simps current_seq_unregister)
next
  case (uses ex r h r' R)
  from uses(1) show ?case
    by (rule use_cases) (use uses(2) in \<open>auto simp: seqs_inv_def frame_simps\<close>)
next
  case (refuses ex r e r' R)
  then show ?case using use_Inl by blast
next
  case (reroutes ex r x r' R)
  then show ?case using select_frame [OF reroutes(1)] by (simp add: seqs_inv_def key_seq_def current_seq_def)
next
  case (reserves url r seq r' R)
  then show ?case using reserve_cases [OF reserves(1)] by (auto simp: seqs_inv_def frame_simps)
next
  case (finishes url seq r x r' R)
  from finishes(1) show ?case
    by (cases rule: finish_cases) (use finishes(2) in \<open>auto simp: seqs_inv_def frame_simps\<close>)
qed (simp add: seqs_inv_def frame_simps)

subsection \<open>Counts\<close>

lemma counts_register:
  "dget (rt_request_counts (register_worker u k r)) v =
     (if v = u \<and> dget (rt_request_counts r) u = None then Some 0 else dget (rt_request_counts r) v)"
  by (simp add: register_worker_def Let_def dget_dset)

lemma counts_unregister:
  "dget (rt_request_counts (unregister_worker u k r)) v = (if v = u then None else dget (rt_request_counts r) v)"
  by (simp add: unregister_worker_def dget_dpop)

lemma counts_invD: "counts_inv (r, R) \<Longrightarrow> dget (rt_request_counts r) u = Some c \<Longrightarrow> int (count R (u, current_seq r u)) \<le> c"
  by (simp add: counts_inv_def)

lemma counts_inv_mono:
  assumes "counts_inv (r, R)" and "R' \<subseteq># R"
  shows "counts_inv (r, R')"
  unfolding counts_inv_def prod.case
proof (intro allI impI)
  fix u c
  assume "dget (rt_request_counts r) u = Some c"
  then have "int (count R (u, current_seq r u)) \<le> c" by (rule counts_invD [OF assms(1)])
  moreover have "count R' (u, current_seq r u) \<le> count R (u, current_seq r u)"
    by (rule mset_subset_eq_count [OF assms(2)])
  ultimately show "int (count R' (u, current_seq r u)) \<le> c" by linarith
qed

lemma counts_inv_step: "registry_step key_of s t \<Longrightarrow> seqs_inv key_of s \<Longrightarrow> counts_inv s \<Longrightarrow> counts_inv t"
proof (induction rule: registry_step.induct)
  case (adds url r R)
  have fresh: "count R (url, key_seq r (key_of url) + 1) = 0"
  proof (rule ccontr)
    assume "count R (url, key_seq r (key_of url) + 1) \<noteq> 0"
    then have "(url, key_seq r (key_of url) + 1) \<in># R" by (simp add: count_eq_zero_iff)
    then show False using adds(2) by (fastforce simp: seqs_inv_def)
  qed
  have "0 \<le> c" if "dget (rt_request_counts r) u = Some c" for u c
    using adds(3) that by (fastforce simp: counts_inv_def)
  with fresh adds(3) show ?case
    by (auto simp: counts_inv_def counts_register current_seq_register)
next
  case (removes r R url)
  then show ?case by (auto simp: counts_inv_def counts_unregister current_seq_unregister)
next
  case (uses ex r h r' R)
  from uses(1) show ?case
    by (rule use_cases) (use uses(3) in \<open>auto simp: counts_inv_def frame_simps request_count_def dget_def_def\<close>)
next
  case (refuses ex r e r' R)
  then show ?case using use_Inl by blast
next
  case (reroutes ex r x r' R)
  then show ?case using select_frame [OF reroutes(1)] by (simp add: counts_inv_def current_seq_def)
next
  case (reserves url r seq r' R)
  then show ?case
    using reserve_cases [OF reserves(1)] by (auto simp: counts_inv_def frame_simps request_count_def dget_def_def)
next
  case (finishes url seq r x r' R)
  from finishes(1) show ?case
  proof (cases rule: finish_cases)
    case skip
    have "counts_inv (r, R)" by (rule counts_inv_mono [OF finishes(3)]) simp
    with skip show ?thesis by simp
  next
    case (finish c)
    have "int (count R (u, current_seq r' u)) \<le> b" if b: "dget (rt_request_counts r') u = Some b" for u b
    proof (cases "u = url")
      case True
      with counts_invD [OF finishes(3) finish(1)] finish b show ?thesis
        by (simp add: frame_simps request_count_def dget_def_def)
    next
      case False
      with b finish have "dget (rt_request_counts r) u = Some b" by (simp add: frame_simps)
      from counts_invD [OF finishes(3) this] False finish show ?thesis by simp
    qed
    then show ?thesis by (simp add: counts_inv_def)
  qed
qed (simp add: counts_inv_def frame_simps)

lemma urls_register:
  "dget (rt_urls_by_key (register_worker u k r)) k' = (if k' = k then Some u else dget (rt_urls_by_key r) k')"
  by (simp add: register_worker_def Let_def dget_dset)

lemma urls_unregister:
  "dget (rt_urls_by_key (unregister_worker u k r)) k' =
     (if k' = k \<and> dget (rt_urls_by_key r) k = Some u then None else dget (rt_urls_by_key r) k')"
  by (simp add: unregister_worker_def dget_dpop)

lemma urls_inv_step: "registry_step key_of s t \<Longrightarrow> urls_inv key_of s \<Longrightarrow> urls_inv key_of t"
proof (induction rule: registry_step.induct)
  case (adds url r R)
  then show ?case by (auto simp: urls_inv_def urls_register counts_register)
next
  case (removes r R url)
  then show ?case by (auto simp: urls_inv_def urls_unregister counts_unregister)
next
  case (uses ex r h r' R)
  from uses(1) show ?case
    by (rule use_cases) (use uses(2) in \<open>auto simp: urls_inv_def frame_simps\<close>)
next
  case (refuses ex r e r' R)
  then show ?case using use_Inl by blast
next
  case (reroutes ex r x r' R)
  then show ?case using select_frame [OF reroutes(1)] by (simp add: urls_inv_def)
next
  case (reserves url r seq r' R)
  then show ?case using reserve_cases [OF reserves(1)] by (auto simp: urls_inv_def frame_simps)
next
  case (finishes url seq r x r' R)
  from finishes(1) show ?case
    by (cases rule: finish_cases) (use finishes(2) in \<open>auto simp: urls_inv_def frame_simps\<close>)
qed (simp add: urls_inv_def frame_simps)

lemma registry_inv_step: "registry_step key_of s t \<Longrightarrow> registry_inv key_of s \<Longrightarrow> registry_inv key_of t"
  by (simp add: registry_inv_def seqs_inv_step counts_inv_step urls_inv_step)

interpretation registry: stepping registry_init "registry_step key_of" "registry_inv key_of" for key_of
  by unfold_locales (auto intro: registry_init_inv registry_inv_step)

text \<open>C8. When every address keeps its worker key, then after any interleaving of registrations,
  re-registrations, removals and requests: a registered worker's count is at least the number of
  open requests made since its last registration, so finishing any request never trips the
  "count went negative" assertion, and the address a key points to can always be reserved.\<close>

theorem request_counts_safe:
  assumes "registry_init s" and "(registry_step key_of)\<^sup>*\<^sup>* s (r, R)"
  shows "(\<forall>u c. dget (rt_request_counts r) u = Some c \<longrightarrow> int (count R (u, current_seq r u)) \<le> c) \<and>
    (\<forall>u n. (u, n) \<in># R \<longrightarrow> fst (finish_url u (Some n) r) = Inr ()) \<and>
    (\<forall>k u. dget (rt_urls_by_key r) k = Some u \<longrightarrow> \<not> isl (fst (reserve_url u r)))"
proof -
  have inv: "registry_inv key_of (r, R)" by (rule registry.reachable_inv [OF assms])
  have fin: "fst (finish_url u (Some n) r) = Inr ()" if "(u, n) \<in># R" for u n
  proof -
    obtain x r' where f: "finish_url u (Some n) r = (x, r')" by fastforce
    then show ?thesis
    proof (cases rule: finish_cases)
      case (finish c)
      have "0 < count R (u, n)" using that by simp
      moreover have "int (count R (u, current_seq r u)) \<le> c"
        using inv finish(1) by (simp add: registry_inv_def counts_inv_def)
      ultimately have "1 \<le> c" unfolding finish(2) by linarith
      with finish f show ?thesis by simp
    qed (simp add: f)
  qed
  have "dget (rt_request_counts r) u \<noteq> None" if "dget (rt_urls_by_key r) k = Some u" for k u
    using inv that unfolding registry_inv_def urls_inv_def prod.case by blast
  then have "\<not> isl (fst (reserve_url u r))" if "dget (rt_urls_by_key r) k = Some u" for k u
    using that by (fastforce simp: reserve_url_def Let_def)
  with fin inv show ?thesis by (simp add: registry_inv_def counts_inv_def)
qed

definition demo_key :: "string \<Rightarrow> string" where
  "demo_key u = ''k''"

definition demo_used :: router where
  "demo_used = snd (use_url {} (register_worker ''a'' ''k'' (new_router False)))"

lemma demo_registry_run:
  "(registry_step demo_key)\<^sup>*\<^sup>* (new_router False, {#}) (demo_used, {#(''a'', 1)#})"
proof -
  have "registry_step demo_key (new_router False, {#}) (register_worker ''a'' (demo_key ''a'') (new_router False), {#})"
    by (rule adds) simp
  moreover have "registry_step demo_key (register_worker ''a'' (demo_key ''a'') (new_router False), {#})
      (demo_used, {#(''a'', 1)#})"
  proof -
    have "use_url {} (register_worker ''a'' (demo_key ''a'') (new_router False)) = (Inr (''a'', 1), demo_used)"
      by code_simp
    then show ?thesis by (rule uses)
  qed
  ultimately show ?thesis by (meson converse_rtranclp_into_rtranclp rtranclp.rtrancl_refl)
qed

theorem request_counts_safe_witness:
  "fst (finish_url ''a'' (Some 1) demo_used) = Inr () \<and> \<not> isl (fst (reserve_url ''a'' demo_used))"
proof -
  have "registry_init (new_router False, {#})" by (auto simp: registry_init_def)
  moreover have "dget (rt_urls_by_key demo_used) ''k'' = Some ''a''" by code_simp
  ultimately show ?thesis using request_counts_safe [OF _ demo_registry_run] by auto
qed

text \<open>The key has to stay the same: a worker registered under one key, removed while a request
  is open and registered again under a fresh key gets the sequence number 1 a second time, so the
  old request passes the staleness check and drives the new count to -1, which raises.\<close>

theorem changed_key_trips_assertion:
  "let r1 = register_worker ''u'' ''k1'' (new_router False);
       (h, r2) = use_url {} r1;
       r3 = register_worker ''u'' ''k2'' (unregister_worker ''u'' ''k1'' r2)
   in h = Inr (''u'', 1) \<and> fst (finish_url ''u'' (Some 1) r3) =
        Inl (AssertionError ''URL u count went negative'') \<and>
      request_count (snd (finish_url ''u'' (Some 1) r3)) ''u'' = -1"
  by code_simp

text \<open>Registering a live worker again keeps its count but outdates every open reservation:
  finishing all of them, in whatever order, no longer lowers the count, which stays at the number
  of requests that were open, so the worker looks that much busier until it is removed.\<close>

theorem reregistration_leaks_count:
  assumes "dget (rt_request_counts r) u = Some c" and "\<forall>n \<in> set ns. n \<le> key_seq r k"
  shows "request_count (fold (\<lambda>n x. snd (finish_url u (Some n) x)) ns (register_worker u k r)) u = c"
proof -
  let ?r = "register_worker u k r"
  have "snd (finish_url u (Some n) ?r) = ?r" if "n \<in> set ns" for n
    using assms that by (auto simp: finish_url_def current_seq_register counts_register)
  then have "fold (\<lambda>n x. snd (finish_url u (Some n) x)) ns ?r = ?r"
    by (induction ns) auto
  moreover have "request_count ?r u = c"
    using assms(1) by (simp add: request_count_def dget_def_def counts_register)
  ultimately show ?thesis by simp
qed

theorem reregistration_leaks_count_witness:
  "request_count (fold (\<lambda>n x. snd (finish_url ''a'' (Some n) x)) [1] (register_worker ''a'' ''k'' demo_used)) ''a'' = 1"
proof (rule reregistration_leaks_count)
  show "dget (rt_request_counts demo_used) ''a'' = Some 1" by code_simp
  show "\<forall>n \<in> set [1]. n \<le> key_seq demo_used ''k''" by code_simp
qed

section \<open>Waiting for a replacement\<close>

lemma first_nonempty_single: "first_nonempty [x] = u \<Longrightarrow> u \<noteq> [] \<Longrightarrow> x = Some u"
  by (cases x; cases "the x") auto

lemma recovery_loop_Some:
  "recovery_loop key s d wakes clock fuel n = Some (Some url) \<Longrightarrow>
   \<exists>m. n \<le> m \<and> m < n + fuel \<and> dget (rt_urls_by_key (wakes m)) key = Some url \<and> url \<noteq> [] \<and>
     s < key_seq (wakes m) key"
proof (induction fuel arbitrary: n)
  case (Suc fuel)
  show ?case
  proof (cases "first_nonempty [dget (rt_urls_by_key (wakes n)) key] \<noteq> [] \<and> s < key_seq (wakes n) key")
    case True
    then have "first_nonempty [dget (rt_urls_by_key (wakes n)) key] = url"
      using Suc.prems by (simp add: Let_def key_seq_def)
    with True have "dget (rt_urls_by_key (wakes n)) key = Some url \<and> url \<noteq> []"
      using first_nonempty_single by blast
    with True show ?thesis by (intro exI [of _ n]) simp
  next
    case False
    then have "recovery_loop key s d wakes clock fuel (Suc n) = Some (Some url)"
      using Suc.prems by (auto simp: Let_def key_seq_def split: option.splits if_splits)
    from Suc.IH [OF this] obtain m where "Suc n \<le> m" "m < Suc n + fuel"
      "dget (rt_urls_by_key (wakes m)) key = Some url" "url \<noteq> []" "s < key_seq (wakes m) key" by blast
    then show ?thesis by (intro exI [of _ m]) simp
  qed
qed simp

lemma recovery_loop_stuck:
  "(\<And>m. key_seq (wakes m) key \<le> s) \<Longrightarrow> recovery_loop key s None wakes clock fuel n = None"
  by (induction fuel arbitrary: n) (auto simp: Let_def key_seq_def not_less)

lemma recovery_loop_found:
  assumes "dget (rt_urls_by_key (wakes (n + k))) key = Some url" "url \<noteq> []" "s < key_seq (wakes (n + k)) key"
  shows "recovery_loop key s None wakes clock (Suc k) n \<noteq> None"
  using assms
proof (induction k arbitrary: n)
  case 0
  then show ?case by (cases url) (simp_all add: Let_def key_seq_def)
next
  case (Suc k)
  then have "recovery_loop key s None wakes clock (Suc k) (Suc n) \<noteq> None" by (intro Suc.IH) simp_all
  then show ?case by (subst recovery_loop.simps) (auto simp: Let_def)
qed

text \<open>A request that waits for the replacement of a failed worker only ever continues on a
  worker registered under the same key after the wait began (a sequence number above all those
  seen then), and with no wait limit it does continue once such a worker is there. But a
  replacement that registered between the failure and the start of the wait does not count: unless
  yet another registration follows, the request waits for ever next to a healthy worker.\<close>

theorem recovery_needs_later_registration:
  "(\<forall>url. wait_for_worker_recovery ws t0 key failed wakes clock fuel = Some (Some url) \<longrightarrow>
      (\<exists>m < fuel. dget (rt_urls_by_key (wakes m)) key = Some url \<and> key_seq (wakes 0) key < key_seq (wakes m) key)) \<and>
   (ws \<le> 0 \<and> dget (rt_urls_by_key (wakes m)) key = Some (c # url) \<and>
      effective_failed_seq key failed (wakes 0) < key_seq (wakes m) key \<longrightarrow>
      wait_for_worker_recovery ws t0 key failed wakes clock (Suc m) \<noteq> None) \<and>
   (ws \<le> 0 \<and> (\<forall>m. key_seq (wakes m) key = key_seq (wakes 0) key) \<longrightarrow>
      wait_for_worker_recovery ws t0 key failed wakes clock fuel = None)"
proof (intro conjI allI impI)
  fix url
  assume "wait_for_worker_recovery ws t0 key failed wakes clock fuel = Some (Some url)"
  from recovery_loop_Some [OF this [unfolded wait_for_worker_recovery_def]]
  show "\<exists>m < fuel. dget (rt_urls_by_key (wakes m)) key = Some url \<and> key_seq (wakes 0) key < key_seq (wakes m) key"
    by (auto simp: effective_failed_seq_def key_seq_def)
next
  assume "ws \<le> 0 \<and> dget (rt_urls_by_key (wakes m)) key = Some (c # url) \<and>
    effective_failed_seq key failed (wakes 0) < key_seq (wakes m) key"
  then show "wait_for_worker_recovery ws t0 key failed wakes clock (Suc m) \<noteq> None"
    using recovery_loop_found [of wakes 0 m key "c # url"] by (simp add: wait_for_worker_recovery_def del: recovery_loop.simps)
next
  assume same: "ws \<le> 0 \<and> (\<forall>m. key_seq (wakes m) key = key_seq (wakes 0) key)"
  then have "key_seq (wakes m) key \<le> effective_failed_seq key failed (wakes 0)" for m
    by (metis effective_failed_seq_def key_seq_def max.cobounded2)
  with same show "wait_for_worker_recovery ws t0 key failed wakes clock fuel = None"
    by (simp add: wait_for_worker_recovery_def recovery_loop_stuck)
qed

definition demo_replaced :: router where
  \<comment> \<open>the worker \<open>old\<close> failed, its replacement \<open>new\<close> is already registered\<close>
  "demo_replaced = register_worker ''new'' ''k'' (unregister_worker ''old'' ''k''
     (register_worker ''old'' ''k'' (new_router False)))"

theorem recovery_needs_later_registration_witness:
  "dget (rt_urls_by_key demo_replaced) ''k'' = Some ''new'' \<and>
   (\<forall>fuel. wait_for_worker_recovery (-1) 0 ''k'' ''old'' (\<lambda>_. demo_replaced) (\<lambda>_. 0) fuel = None)"
proof -
  have "dget (rt_urls_by_key demo_replaced) ''k'' = Some ''new''" by code_simp
  then show ?thesis
    using recovery_needs_later_registration [of "-1" 0 "''k''" "''old''" "\<lambda>_. demo_replaced" "\<lambda>_. 0"] by simp
qed

section \<open>The retrying proxy\<close>

lemma finish_after_use:
  assumes "use_url ex r = (Inr (u, s), r')" and "\<And>v. 0 \<le> request_count r v"
  shows "\<exists>r''. finish_url u (Some s) r' = (Inr (), r'') \<and> (\<forall>v. request_count r'' v = request_count r v)"
    and "\<exists>r''. finish_url u (Some s) (note_failure w r') = (Inr (), r'') \<and> (\<forall>v. request_count r'' v = request_count r v)"
proof -
  from assms(1) obtain "s = current_seq r u" "dget (rt_request_counts r) u \<noteq> None"
    "r' = bump_count u 1 (r\<lparr>rt_selection_cursor := rt_selection_cursor r + 1\<rparr>)"
    by (auto elim: use_cases)
  then show "\<exists>r''. finish_url u (Some s) r' = (Inr (), r'') \<and> (\<forall>v. request_count r'' v = request_count r v)"
    and "\<exists>r''. finish_url u (Some s) (note_failure w r') = (Inr (), r'') \<and> (\<forall>v. request_count r'' v = request_count r v)"
    using assms(2) by (auto simp: finish_url_def Let_def frame_simps)
qed

definition same_counts :: "router \<Rightarrow> router \<Rightarrow> bool" where
  "same_counts r r' \<longleftrightarrow> (\<forall>v. request_count r' v = request_count r v)"

lemma finish_after_counts:
  assumes "use_url ex r = (Inr (u, s), r')" and "\<And>v. 0 \<le> request_count r v"
  shows "same_counts r (snd (finish_after out u s r'))"
    and "same_counts r (snd (finish_after out u s (note_failure w r')))"
  using finish_after_use(1) [OF assms] finish_after_use(2) [OF assms, of w]
  by (auto simp: finish_after_def same_counts_def)

lemma proxy_attempts_counts:
  assumes "\<And>v. 0 \<le> request_count r v"
  shows "same_counts r (snd (proxy_attempts send (\<lambda>_ x. x) left n ex r))"
  using assms
proof (induction left arbitrary: n ex r)
  case 0
  show ?case
  proof (cases "use_url ex r")
    case (Pair a r')
    show ?thesis
    proof (cases a)
      case (Inl e)
      with Pair use_Inl [of ex r e r'] show ?thesis by (simp add: proxy_attempts.simps [of _ _ 0] same_counts_def)
    next
      case (Inr h)
      obtain u s where h: "h = (u, s)" by (cases h)
      note fin = finish_after_counts [OF Pair [unfolded Inr h] 0]
      with Pair Inr h show ?thesis
        by (cases "send n u") (simp_all add: proxy_attempts.simps [of _ _ 0] Let_def)
    qed
  qed
next
  case (Suc left)
  show ?case
  proof (cases "use_url ex r")
    case (Pair a r')
    show ?thesis
    proof (cases a)
      case (Inl e)
      with Pair use_Inl [of ex r e r'] show ?thesis by (simp add: proxy_attempts.simps [of _ _ "Suc left"] same_counts_def)
    next
      case (Inr h)
      obtain u s where h: "h = (u, s)" by (cases h)
      note fin = finish_after_use [OF Pair [unfolded Inr h] Suc.prems]
        and after = finish_after_counts(1) [OF Pair [unfolded Inr h] Suc.prems]
      show ?thesis
      proof (cases "send n u")
        case (Transport_Error e)
        obtain r3 where r3: "finish_url u (Some s) (note_failure u r') = (Inr (), r3)"
          "\<And>v. request_count r3 v = request_count r v" using fin(2) by blast
        then have "same_counts r3 (snd (proxy_attempts send (\<lambda>_ x. x) left (Suc n) (insert u ex) r3))"
          using Suc.prems by (intro Suc.IH) simp
        with Pair Inr h Transport_Error r3 show ?thesis
          by (simp add: proxy_attempts.simps [of _ _ "Suc left"] same_counts_def Let_def)
      qed (use after Pair Inr h in \<open>simp_all add: proxy_attempts.simps [of _ _ "Suc left"] Let_def\<close>)
    qed
  qed
qed

text \<open>A proxied request, however many attempts it makes and however it ends, gives back every
  reservation it took: with no other request in between, all request counts are as before.\<close>

theorem proxy_retry_balanced:
  assumes "\<And>v. 0 \<le> request_count r v"
  shows "request_count (snd (proxy_retry send (\<lambda>_ x. x) max_retries r)) u = request_count r u"
  using proxy_attempts_counts [of r send max_retries 0 "{}"] assms
  by (simp add: proxy_retry_def same_counts_def)

theorem proxy_retry_balanced_witness:
  "request_count (snd (proxy_retry (\<lambda>n u. if n = 0 then Transport_Error (OtherError ''reset'') else Replied (0 :: nat))
     (\<lambda>_ x. x) 2 demo_router)) ''a'' = 0"
proof -
  have "0 \<le> request_count demo_router v" for v
    by (simp add: request_count_def dget_def_def demo_router_def register_worker_def new_router_def Let_def)
  moreover have "request_count demo_router ''a'' = 0" by code_simp
  ultimately show ?thesis using proxy_retry_balanced [of demo_router] by metis
qed

end
