(* ===== verification/Router_Generate.thy ===== *)
theory Router_Generate
  imports Router_Registry
begin

text \<open>
  The \<open>/generate\<close> proxy of the slime router (\<open>slime/slime/router/router.py\<close>): it reads the
  token stream of a worker, aggregates it, checkpoints it, and when the worker fails or is
  replaced continues the request elsewhere from the tokens it has. What a worker streams, what
  the registry says at each look and where a failed request resumes are parameters; the
  reservations a request takes and gives back are logged.
\<close>

section \<open>Token ids\<close>

definition to_int_token_id :: "jval \<Rightarrow> int option" where
  "to_int_token_id v =
     (case v of
        JI i \<Rightarrow> Some i
      | JR x \<Rightarrow> (if of_int \<lfloor>x\<rfloor> = x then Some \<lfloor>x\<rfloor> else None)
      | JS s \<Rightarrow>
          (let stripped = strip s; negative = starts_with ''-'' stripped;
               body = (if negative then tl stripped else stripped)
           in if all_digits body
              then Some (if negative then - int (nat_of_digits body) else int (nat_of_digits body)) else None)
      | _ \<Rightarrow> None)"

lemma to_int_JI [simp]: "to_int_token_id (JI i) = Some i"
  by (simp add: to_int_token_id_def)

definition normalize_output_ids :: "jval option \<Rightarrow> int list" where
  "normalize_output_ids v = (case v of Some (JL xs) \<Rightarrow> List.map_filter to_int_token_id xs | _ \<Rightarrow> [])"

definition entry_token_id :: "jval \<Rightarrow> int option" where
  "entry_token_id entry =
     (case entry of
        JL (a # b # rest) \<Rightarrow> to_int_token_id b
      | JD d \<Rightarrow> (case dget d ''token_id'' of
                  Some v \<Rightarrow> to_int_token_id v
                | None \<Rightarrow> (case dget d ''id'' of Some v \<Rightarrow> to_int_token_id v | None \<Rightarrow> None))
      | _ \<Rightarrow> None)"

text \<open>One chunk of the stream: the JSON object after \<open>data:\<close>.\<close>

record gen_chunk =
  gd_error :: "string option"
  gd_text :: "string option"
  gd_output_ids :: "jval option"
  gd_prompt_tokens :: "int option"
  gd_token_logprobs :: "jval list"
  gd_token_ids_logprobs :: "jval list"
  gd_top_logprobs :: "jval list"

definition extract_output_ids_from_meta_info :: "gen_chunk \<Rightarrow> int list" where
  "extract_output_ids_from_meta_info c = List.map_filter entry_token_id (gd_token_logprobs c)"

definition extract_chunk_output_ids :: "gen_chunk \<Rightarrow> int list" where
  "extract_chunk_output_ids c =
     (let ids = normalize_output_ids (gd_output_ids c)
      in if ids \<noteq> [] then ids else extract_output_ids_from_meta_info c)"

section \<open>The state of a request\<close>

record aggregate =
  ag_output_ids :: "int list"
  ag_token_logprobs :: "jval list"
  ag_token_ids_logprobs :: "jval list"
  ag_top_logprobs :: "jval list"

record gen_checkpoint =
  kp_aggregate :: aggregate
  kp_text_prefix :: string
  kp_count :: nat

record gen_state =
  gs_aggregate :: aggregate
  gs_checkpoint :: gen_checkpoint
  gs_first_prompt_tokens :: "int option"
  gs_completed_text_prefix :: string
  gs_next_target :: int
  gs_pending :: "gen_chunk option"
  gs_pending_count :: int
  gs_attempt_text :: string
  gs_attempt_ids :: "int list"
  gs_meta :: "gen_chunk option"

record gen_config =
  gf_coalesce_chunks :: int
  gf_checkpoint_tokens :: int
  gf_max_attempts :: nat
  gf_disable_recovery :: bool

definition empty_aggregate :: aggregate where
  "empty_aggregate = \<lparr>ag_output_ids = [], ag_token_logprobs = [], ag_token_ids_logprobs = [], ag_top_logprobs = []\<rparr>"

definition empty_checkpoint :: gen_checkpoint where
  "empty_checkpoint = \<lparr>kp_aggregate = empty_aggregate, kp_text_prefix = '''', kp_count = 0\<rparr>"

definition new_gen_state :: "gen_config \<Rightarrow> gen_state" where
  "new_gen_state cfg =
     \<lparr>gs_aggregate = empty_aggregate, gs_checkpoint = empty_checkpoint, gs_first_prompt_tokens = None,
      gs_completed_text_prefix = '''', gs_next_target = gf_checkpoint_tokens cfg, gs_pending = None,
      gs_pending_count = 0, gs_attempt_text = '''', gs_attempt_ids = [], gs_meta = None\<rparr>"

definition start_attempt :: "gen_state \<Rightarrow> gen_state" where
  "start_attempt st = st\<lparr>gs_attempt_text := '''', gs_attempt_ids := [], gs_meta := None\<rparr>"

definition capture_generate_checkpoint :: "gen_state \<Rightarrow> gen_checkpoint" where
  "capture_generate_checkpoint st =
     \<lparr>kp_aggregate = gs_aggregate st, kp_text_prefix = gs_completed_text_prefix st @ gs_attempt_text st,
      kp_count = kp_count (gs_checkpoint st) + 1\<rparr>"

definition restore_generate_checkpoint :: "gen_state \<Rightarrow> gen_state" where
  "restore_generate_checkpoint st =
     st\<lparr>gs_aggregate := kp_aggregate (gs_checkpoint st), gs_completed_text_prefix := kp_text_prefix (gs_checkpoint st)\<rparr>"

definition reset_generate_recovery_state :: "gen_config \<Rightarrow> gen_state \<Rightarrow> gen_state" where
  "reset_generate_recovery_state cfg st =
     st\<lparr>gs_aggregate := empty_aggregate, gs_completed_text_prefix := '''', gs_checkpoint := empty_checkpoint,
        gs_next_target := gf_checkpoint_tokens cfg\<rparr>"

section \<open>Taking in a chunk\<close>

definition new_entries :: "jval list \<Rightarrow> nat \<Rightarrow> nat \<Rightarrow> nat \<Rightarrow> jval list" where
  \<comment> \<open>the entries of a log-probability list for the positions \<open>i..<j\<close>, \<open>k\<close> of them new\<close>
  "new_entries xs i j k = (if j \<le> length xs then take (j - i) (drop i xs) else drop (length xs - k) xs)"

function advance_target :: "int \<Rightarrow> int \<Rightarrow> int \<Rightarrow> int" where
  \<comment> \<open>the constructor clamps the step to at least 1\<close>
  "advance_target step n target = (if target \<le> n then advance_target step n (target + max 1 step) else target)"
  by pat_completeness auto
termination
  by (relation "measure (\<lambda>(step, n, target). nat (n + 1 - target))") auto

declare advance_target.simps [simp del]

definition absorb_tokens :: "gen_chunk \<Rightarrow> int list \<Rightarrow> nat \<Rightarrow> gen_state \<Rightarrow> gen_state" where
  \<comment> \<open>the new tokens, which start at position \<open>i\<close> of the chunk, and their log-probabilities\<close>
  "absorb_tokens c new i st =
     (let a = gs_aggregate st; k = length new; j = i + k
      in st\<lparr>gs_aggregate :=
           \<lparr>ag_output_ids = ag_output_ids a @ new,
            ag_token_logprobs = ag_token_logprobs a @ new_entries (gd_token_logprobs c) i j k,
            ag_token_ids_logprobs = ag_token_ids_logprobs a @ new_entries (gd_token_ids_logprobs c) i j k,
            ag_top_logprobs = ag_top_logprobs a @ new_entries (gd_top_logprobs c) i j k\<rparr>\<rparr>)"

definition maybe_checkpoint :: "gen_config \<Rightarrow> gen_state \<Rightarrow> gen_state" where
  "maybe_checkpoint cfg st =
     (let n = int (length (ag_output_ids (gs_aggregate st)))
      in if gs_next_target st \<le> n
         then st\<lparr>gs_checkpoint := capture_generate_checkpoint st,
                 gs_next_target := advance_target (gf_checkpoint_tokens cfg) n (gs_next_target st)\<rparr>
         else st)"

definition take_chunk :: "gen_config \<Rightarrow> gen_chunk \<Rightarrow> gen_state \<Rightarrow> gen_state" where
  "take_chunk cfg c st =
     (let st1 = st\<lparr>gs_meta := Some c,
            gs_first_prompt_tokens := (case gs_first_prompt_tokens st of None \<Rightarrow> gd_prompt_tokens c | x \<Rightarrow> x),
            gs_attempt_text := (case gd_text c of Some t \<Rightarrow> t | None \<Rightarrow> gs_attempt_text st)\<rparr>;
          ids = extract_chunk_output_ids c; cur = gs_attempt_ids st1
      in if ids = [] then st1
         else (let cumulative = (length cur \<le> length ids \<and> take (length cur) ids = cur);
                   new = (if cumulative then drop (length cur) ids else ids);
                   start = (if cumulative then length cur else 0);
                   st2 = st1\<lparr>gs_attempt_ids := (if cumulative then ids else cur @ ids)\<rparr>
               in if new = [] then st2 else maybe_checkpoint cfg (absorb_tokens c new start st2)))"

definition flush_pending_chunk :: "bool \<Rightarrow> gen_config \<Rightarrow> gen_state \<Rightarrow> gen_chunk option \<times> gen_state" where
  \<comment> \<open>the chunk that carried an error, to be returned as the reply\<close>
  "flush_pending_chunk force cfg st =
     (case gs_pending st of
        None \<Rightarrow> (None, st)
      | Some c \<Rightarrow>
          (if \<not> force \<and> gs_pending_count st < gf_coalesce_chunks cfg then (None, st)
           else (let st1 = st\<lparr>gs_pending := None, gs_pending_count := 0\<rparr>
                 in if gd_error c \<noteq> None then (Some c, st1) else (None, take_chunk cfg c st1))))"

section \<open>One attempt\<close>

text \<open>What the reader of the stream meets: a line that is no data, a chunk, \<open>[DONE]\<close>, a poll
  interval without a line, the end of the stream, or an exception.\<close>

datatype line_event = Other_Line | Data gen_chunk | Done_Line | No_Line | Stream_End | Stream_Error exc

datatype stream_opening = Opened | Open_Error exc | Bad_Status int

record attempt =
  at_opening :: stream_opening
  at_events :: "(router \<times> line_event) list"

record gen_reply =
  go_text :: string
  go_output_ids :: "int list"
  go_prompt_tokens :: "int option"
  go_completion_tokens :: nat
  go_token_logprobs :: "jval list"
  go_token_ids_logprobs :: "jval list"
  go_top_logprobs :: "jval list"

datatype outcome =
    Complete gen_reply
  | Error_Reply gen_chunk
  | Rerouted "string option"
  | Broken exc           \<comment> \<open>an exception the recovery handles\<close>
  | Unhandled exc
  | Reading              \<comment> \<open>the events given so far do not end the attempt\<close>

definition or_meta :: "jval list \<Rightarrow> (gen_chunk \<Rightarrow> jval list) \<Rightarrow> gen_chunk option \<Rightarrow> jval list" where
  "or_meta agg field meta = (if agg \<noteq> [] then agg else (case meta of None \<Rightarrow> [] | Some c \<Rightarrow> field c))"

definition final_reply :: "gen_state \<Rightarrow> gen_reply" where
  "final_reply st =
     (let a = gs_aggregate st
      in \<lparr>go_text = gs_completed_text_prefix st @ gs_attempt_text st,
          go_output_ids = ag_output_ids a,
          go_prompt_tokens = (case gs_first_prompt_tokens st of
            Some n \<Rightarrow> Some n | None \<Rightarrow> Option.bind (gs_meta st) gd_prompt_tokens),
          go_completion_tokens = length (ag_output_ids a),
          go_token_logprobs = or_meta (ag_token_logprobs a) gd_token_logprobs (gs_meta st),
          go_token_ids_logprobs = or_meta (ag_token_ids_logprobs a) gd_token_ids_logprobs (gs_meta st),
          go_top_logprobs = or_meta (ag_top_logprobs a) gd_top_logprobs (gs_meta st)\<rparr>)"

definition unexpected_end :: "string \<Rightarrow> exc" where
  "unexpected_end key = RuntimeError (''[slime-router] /generate stream ended unexpectedly for worker_key='' @ key)"

text \<open>The look at the registry before each line: the key points elsewhere, or the worker is gone.\<close>

definition moved :: "string \<Rightarrow> string \<Rightarrow> router \<Rightarrow> string option option" where
  "moved key url r =
     (case dget (rt_urls_by_key r) key of
        Some (c # cs) \<Rightarrow>
          (if c # cs \<noteq> url then Some (Some (c # cs))
           else if dget (rt_request_counts r) url = None then Some None else None)
      | _ \<Rightarrow> (if dget (rt_request_counts r) url = None then Some None else None))"

fun read_stream :: "gen_config \<Rightarrow> string \<Rightarrow> string \<Rightarrow> (router \<times> line_event) list \<Rightarrow> gen_state \<Rightarrow>
    outcome \<times> gen_state" where
  "read_stream cfg key url [] st = (Reading, st)"
| "read_stream cfg key url ((r, ev) # evs) st =
     (case moved key url r of
        Some new \<Rightarrow> (Rerouted new, st)
      | None \<Rightarrow>
          (case ev of
             Other_Line \<Rightarrow> read_stream cfg key url evs st
           | No_Line \<Rightarrow>
               (case flush_pending_chunk False cfg st of
                  (Some c, st') \<Rightarrow> (Error_Reply c, st')
                | (None, st') \<Rightarrow> read_stream cfg key url evs st')
           | Data c \<Rightarrow>
               (case flush_pending_chunk False cfg
                       (st\<lparr>gs_pending := Some c, gs_pending_count := gs_pending_count st + 1\<rparr>) of
                  (Some e, st') \<Rightarrow> (Error_Reply e, st')
                | (None, st') \<Rightarrow> read_stream cfg key url evs st')
           | Done_Line \<Rightarrow>
               (case flush_pending_chunk True cfg st of
                  (Some c, st') \<Rightarrow> (Error_Reply c, st')
                | (None, st') \<Rightarrow> (Complete (final_reply st'), st'))
           | Stream_End \<Rightarrow>
               (case flush_pending_chunk True cfg st of
                  (Some c, st') \<Rightarrow> (Error_Reply c, st')
                | (None, st') \<Rightarrow> (Broken (unexpected_end key), st'))
           | Stream_Error e \<Rightarrow> (Broken e, st)))"

definition run_attempt :: "gen_config \<Rightarrow> string \<Rightarrow> string \<Rightarrow> attempt \<Rightarrow> gen_state \<Rightarrow> outcome \<times> gen_state" where
  "run_attempt cfg key url a st =
     (case at_opening a of
        Opened \<Rightarrow> read_stream cfg key url (at_events a) st
      | Open_Error e \<Rightarrow> (Broken e, st)
      | Bad_Status n \<Rightarrow> (Unhandled (RequestException (''HTTP status '' @ str_int n)), st))"

section \<open>The request\<close>

record gen_payload =
  py_stream :: bool
  py_input_ids :: "int list"
  py_max_new_tokens :: "int option"

definition build_generate_recovery_payload :: "gen_config \<Rightarrow> gen_payload \<Rightarrow> int list \<Rightarrow> gen_payload" where
  "build_generate_recovery_payload cfg p ids =
     p\<lparr>py_stream := True,
       py_input_ids := (if gf_disable_recovery cfg then py_input_ids p else py_input_ids p @ ids),
       py_max_new_tokens := (if gf_disable_recovery cfg then py_max_new_tokens p
         else map_option (\<lambda>n. max 0 (n - int (length ids))) (py_max_new_tokens p))\<rparr>"

datatype log_entry = Reserve string | Finish string | Failure string

datatype gen_result = Answer gen_reply | Error_Answer gen_chunk | Raised exc | Waiting

text \<open>
  The world of a request: what the n-th attempt streams, where a failed worker's request is
  resolved to (\<open>None\<close> after a wait that timed out), and whether an address is registered when it
  is reserved.
\<close>

record world =
  wd_serve :: "nat \<Rightarrow> string \<Rightarrow> gen_payload \<Rightarrow> attempt"
  wd_resolve :: "nat \<Rightarrow> string \<Rightarrow> string option"
  wd_known :: "nat \<Rightarrow> string \<Rightarrow> bool"

definition after_reroute :: "gen_config \<Rightarrow> gen_state \<Rightarrow> gen_state" where
  "after_reroute cfg st =
     (if gf_disable_recovery cfg \<and> ag_output_ids (gs_aggregate st) \<noteq> [] then reset_generate_recovery_state cfg st
      else st)"

definition after_failure :: "gen_config \<Rightarrow> gen_state \<Rightarrow> gen_state" where
  "after_failure cfg st =
     (if gf_disable_recovery cfg \<and> ag_output_ids (gs_aggregate st) \<noteq> [] then reset_generate_recovery_state cfg st
      else restore_generate_checkpoint st)"

definition close_text :: "gen_state \<Rightarrow> gen_state" where
  "close_text st = st\<lparr>gs_completed_text_prefix := gs_completed_text_prefix st @ gs_attempt_text st\<rparr>"

fun generate_loop :: "gen_config \<Rightarrow> world \<Rightarrow> gen_payload \<Rightarrow> string \<Rightarrow> nat \<Rightarrow> nat \<Rightarrow> string \<Rightarrow> gen_payload \<Rightarrow>
    gen_state \<Rightarrow> log_entry list \<Rightarrow> gen_result \<times> log_entry list" where
  "generate_loop cfg wd payload key left n url cur st trace =
     (case run_attempt cfg key url (wd_serve wd n url cur) (start_attempt st) of
        (Complete r, _) \<Rightarrow> (Answer r, trace @ [Finish url])
      | (Error_Reply c, _) \<Rightarrow> (Error_Answer c, trace @ [Finish url])
      | (Unhandled e, _) \<Rightarrow> (Raised e, trace @ [Finish url])
      | (Reading, _) \<Rightarrow> (Waiting, trace)
      | (Rerouted new, st1) \<Rightarrow>
          (case flush_pending_chunk True cfg st1 of
             (Some c, _) \<Rightarrow> (Error_Answer c, trace @ [Finish url])
           | (None, st2) \<Rightarrow>
               (case left of
                  0 \<Rightarrow> (Raised (RuntimeError (''[slime-router] /generate reroute exhausted for worker_key='' @ key)),
                        trace @ [Finish url])
                | Suc left' \<Rightarrow>
                    (case (case new of Some u \<Rightarrow> Some u | None \<Rightarrow> wd_resolve wd n url) of
                       None \<Rightarrow> (Raised (RuntimeError (''[slime-router] /generate failed to find replacement worker for worker_key='' @ key)),
                                trace @ [Finish url])
                     | Some u \<Rightarrow>
                         (let st3 = after_reroute cfg (close_text st2)
                          in if wd_known wd n u
                             then generate_loop cfg wd payload key left' (Suc n) u
                               (build_generate_recovery_payload cfg payload (ag_output_ids (gs_aggregate st3)))
                               st3 (trace @ [Reserve u, Finish url])
                             else (Raised (RuntimeError (''Cannot reserve unknown worker url '' @ u)),
                                   trace @ [Finish url])))))
      | (Broken e, st1) \<Rightarrow>
          (case flush_pending_chunk True cfg st1 of
             (Some c, _) \<Rightarrow> (Error_Answer c, trace @ [Finish url])
           | (None, st2) \<Rightarrow>
               (case left of
                  0 \<Rightarrow> (Raised e, trace @ [Failure url, Finish url])
                | Suc left' \<Rightarrow>
                    (let st3 = after_failure cfg (close_text st2)
                     in case wd_resolve wd n url of
                          None \<Rightarrow> (Raised e, trace @ [Failure url, Finish url])
                        | Some u \<Rightarrow>
                            (if wd_known wd n u
                             then generate_loop cfg wd payload key left' (Suc n) u
                               (build_generate_recovery_payload cfg payload (ag_output_ids (gs_aggregate st3)))
                               st3 (trace @ [Failure url, Reserve u, Finish url])
                             else (Raised (RuntimeError (''Cannot reserve unknown worker url '' @ u)),
                                   trace @ [Failure url, Finish url]))))))"

declare generate_loop.simps [simp del]

definition proxy_generate :: "gen_config \<Rightarrow> world \<Rightarrow> string \<Rightarrow> string \<Rightarrow> gen_payload \<Rightarrow> gen_result \<times> log_entry list" where
  \<comment> \<open>\<open>url\<close> is the worker \<open>_use_url\<close> chose, \<open>key\<close> its key\<close>
  "proxy_generate cfg wd url key payload =
     (let p = payload\<lparr>py_stream := True\<rparr>
      in generate_loop cfg wd p key (gf_max_attempts cfg) 0 url p (new_gen_state cfg) [Reserve url])"

section \<open>Without a stream\<close>

datatype 'r nonstream_step = NS_Moved "string option" | NS_Reply 'r | NS_Error exc | NS_Unhandled exc

datatype 'r nonstream_result = NS_Answer 'r | NS_Raised exc | NS_None

fun nonstream_loop :: "(nat \<Rightarrow> string \<Rightarrow> 'r nonstream_step) \<Rightarrow> (nat \<Rightarrow> string \<Rightarrow> string option) \<Rightarrow>
    (nat \<Rightarrow> string \<Rightarrow> bool) \<Rightarrow> string \<Rightarrow> nat \<Rightarrow> nat \<Rightarrow> string \<Rightarrow> log_entry list \<Rightarrow>
    'r nonstream_result \<times> log_entry list" where
  \<comment> \<open>\<open>left\<close> attempts remain, this one included; without any the loop is over and the function
      returns \<open>None\<close>\<close>
  "nonstream_loop step resolve known key 0 n url trace = (NS_None, trace)"
| "nonstream_loop step resolve known key (Suc left) n url trace =
     (case step n url of
        NS_Reply r \<Rightarrow> (NS_Answer r, trace @ [Finish url])
      | NS_Unhandled e \<Rightarrow> (NS_Raised e, trace @ [Finish url])
      | NS_Moved new \<Rightarrow>
          (case (case new of Some u \<Rightarrow> Some u | None \<Rightarrow> resolve n url) of
             None \<Rightarrow> (NS_Raised (RuntimeError (''[slime-router] /generate_nonstream failed to find replacement worker for worker_key='' @ key)),
                      trace @ [Finish url])
           | Some u \<Rightarrow>
               (if known n u then nonstream_loop step resolve known key left (Suc n) u (trace @ [Reserve u, Finish url])
                else (NS_Raised (RuntimeError (''Cannot reserve unknown worker url '' @ u)), trace @ [Finish url])))
      | NS_Error e \<Rightarrow>
          (if left = 0 then (NS_Raised e, trace @ [Failure url, Finish url])
           else (case resolve n url of
                   None \<Rightarrow> (NS_Raised e, trace @ [Failure url, Finish url])
                 | Some u \<Rightarrow>
                     (if known n u
                      then nonstream_loop step resolve known key left (Suc n) u (trace @ [Failure url, Reserve u, Finish url])
                      else (NS_Raised (RuntimeError (''Cannot reserve unknown worker url '' @ u)),
                            trace @ [Failure url, Finish url])))))"

definition proxy_generate_nonstream :: "(nat \<Rightarrow> string \<Rightarrow> 'r nonstream_step) \<Rightarrow> (nat \<Rightarrow> string \<Rightarrow> string option) \<Rightarrow>
    (nat \<Rightarrow> string \<Rightarrow> bool) \<Rightarrow> nat \<Rightarrow> string \<Rightarrow> string \<Rightarrow> 'r nonstream_result \<times> log_entry list" where
  "proxy_generate_nonstream step resolve known max_attempts url key =
     nonstream_loop step resolve known key (Suc max_attempts) 0 url [Reserve url]"

end
