(* ===== verification/Generate_Properties.thy ===== *)
theory Generate_Properties
  imports Router_Generate
begin

text \<open>
  What the \<open>/generate\<close> proxy returns when workers fail: for a deterministic model whose workers
  stream growing prefixes of their continuation, the answer is the one a worker that never fails
  gives; and every reservation of a request is given back, with the exception the last theorem
  shows.
\<close>

section \<open>A deterministic model\<close>

record lm =
  lm_next :: "int list \<Rightarrow> int"
  lm_stop :: "int \<Rightarrow> bool"                          \<comment> \<open>end-of-sequence and other stop tokens\<close>
  lm_word :: "int \<Rightarrow> string"
  lm_logprob :: "(int list \<Rightarrow> jval) option"         \<comment> \<open>the entry of the token after a context, when requested\<close>
  lm_ids_logprob :: "(int list \<Rightarrow> jval) option"
  lm_top_logprob :: "(int list \<Rightarrow> jval) option"

fun decode :: "lm \<Rightarrow> int list \<Rightarrow> nat \<Rightarrow> int list" where
  \<comment> \<open>the tokens the model continues a context with: up to its first stop token, at most \<open>n\<close>\<close>
  "decode m ctx 0 = []"
| "decode m ctx (Suc n) = (let t = lm_next m ctx in t # (if lm_stop m t then [] else decode m (ctx @ [t]) n))"

definition ended :: "lm \<Rightarrow> int list \<Rightarrow> bool" where
  "ended m ids = (ids \<noteq> [] \<and> lm_stop m (last ids))"

definition wording :: "(int \<Rightarrow> string) \<Rightarrow> int list \<Rightarrow> string" where
  "wording tok ids = concat (map tok ids)"

definition scored :: "(int list \<Rightarrow> jval) option \<Rightarrow> int list \<Rightarrow> int list \<Rightarrow> jval list" where
  "scored f ctx ids = (case f of None \<Rightarrow> [] | Some g \<Rightarrow> map (\<lambda>i. g (ctx @ take i ids)) [0..<length ids])"

lemma length_decode: "length (decode m ctx n) \<le> n"
  by (induction n arbitrary: ctx) (auto simp: Let_def)

lemma decode_not_empty: "0 < n \<Longrightarrow> decode m ctx n \<noteq> []"
  by (cases n) (auto simp: Let_def)

lemma prefix_decode:
  "prefix ids (decode m ctx n) \<Longrightarrow> \<not> ended m ids \<Longrightarrow> ids @ decode m (ctx @ ids) (n - length ids) = decode m ctx n"
proof (induction ids arbitrary: ctx n)
  case (Cons t ids)
  obtain n' where n: "n = Suc n'" using Cons.prems(1) by (cases n) auto
  have t: "t = lm_next m ctx" using Cons.prems(1) by (simp add: n Let_def)
  show ?case
  proof (cases "lm_stop m t")
    case True
    with Cons.prems t n have "ids = []" by (simp add: Let_def)
    with True Cons.prems(2) show ?thesis by (simp add: ended_def)
  next
    case False
    with Cons.prems t n have "prefix ids (decode m (ctx @ [t]) n')" "\<not> ended m ids" by (auto simp: ended_def Let_def)
    from Cons.IH [OF this] t False show ?thesis by (simp add: n Let_def)
  qed
qed simp

lemma ended_prefix: "prefix ids (decode m ctx n) \<Longrightarrow> ended m ids \<Longrightarrow> ids = decode m ctx n"
proof (induction ids arbitrary: ctx n)
  case (Cons t ids)
  obtain n' where n: "n = Suc n'" using Cons.prems(1) by (cases n) auto
  have t: "t = lm_next m ctx" using Cons.prems(1) by (simp add: n Let_def)
  show ?case
  proof (cases "lm_stop m t")
    case True
    with Cons.prems t n show ?thesis by (simp add: Let_def)
  next
    case False
    with Cons.prems t n have "prefix ids (decode m (ctx @ [t]) n')" "ended m ids" by (auto simp: ended_def Let_def split: if_splits)
    from Cons.IH [OF this] t False show ?thesis by (simp add: n Let_def)
  qed
qed (simp add: ended_def)

lemma wording_simps [simp]: "wording tok [] = []" "wording tok (a @ b) = wording tok a @ wording tok b"
  by (simp_all add: wording_def)

lemma scored_simps [simp]: "scored f ctx [] = []" "scored None ctx ids = []"
  by (simp_all add: scored_def split: option.splits)

lemma scored_append: "scored f ctx (a @ b) = scored f ctx a @ scored f (ctx @ a) b"
proof (cases f)
  case (Some g)
  have "[0..<length a + length b] = [0..<length a] @ map (\<lambda>i. i + length a) [0..<length b]"
    using upt_add_eq_append [of 0 "length a" "length b"] map_add_upt [of "length a" "length b"] by (simp add: add.commute)
  with Some show ?thesis by (simp add: scored_def comp_def)
qed simp

lemma new_entries_scored:
  "new_entries (scored f ctx (a @ b)) (length a) (length a + length b) (length b) = scored f (ctx @ a) b"
  by (cases f) (simp_all add: new_entries_def scored_append, simp_all add: scored_def)

text \<open>
  What a worker of that model may stream: chunks that carry the tokens of the attempt so far, with
  their text and log-probabilities, and \<open>[DONE]\<close> after the whole continuation only.  An attempt is
  undisturbed if the worker, once it has sent its stop token, neither fails nor is replaced before
  \<open>[DONE]\<close>.
\<close>

definition chunk_ok :: "lm \<Rightarrow> int list \<Rightarrow> int list \<Rightarrow> nat \<Rightarrow> gen_chunk \<Rightarrow> bool" where
  "chunk_ok m input full k c \<longleftrightarrow>
     (let ids = extract_chunk_output_ids c
      in gd_error c = None \<and> prefix ids full \<and> k \<le> length ids \<and> gd_text c = Some (wording (lm_word m) ids) \<and>
         gd_prompt_tokens c = Some (int (length input)) \<and> gd_token_logprobs c = scored (lm_logprob m) input ids \<and>
         gd_token_ids_logprobs c = scored (lm_ids_logprob m) input ids \<and> gd_top_logprobs c = scored (lm_top_logprob m) input ids)"

fun honest :: "lm \<Rightarrow> int list \<Rightarrow> int list \<Rightarrow> nat \<Rightarrow> line_event list \<Rightarrow> bool" where
  "honest m input full k [] = True"
| "honest m input full k (Data c # es) = (chunk_ok m input full k c \<and> honest m input full (length (extract_chunk_output_ids c)) es)"
| "honest m input full k (Done_Line # es) = (k = length full)"
| "honest m input full k (e # es) = honest m input full k es"

definition calm :: "string \<Rightarrow> string \<Rightarrow> router \<times> line_event \<Rightarrow> bool" where
  "calm key url p = (moved key url (fst p) = None \<and> (case snd p of Stream_End \<Rightarrow> False | Stream_Error e \<Rightarrow> False | _ \<Rightarrow> True))"

fun undisturbed :: "lm \<Rightarrow> string \<Rightarrow> string \<Rightarrow> (router \<times> line_event) list \<Rightarrow> bool" where
  "undisturbed m key url [] = True"
| "undisturbed m key url ((r, Data c) # evs) =
     ((ended m (extract_chunk_output_ids c) \<longrightarrow> list_all (calm key url) evs) \<and> undisturbed m key url evs)"
| "undisturbed m key url ((r, e) # evs) = undisturbed m key url evs"

section \<open>One attempt\<close>

definition aggregate_ok :: "lm \<Rightarrow> int list \<Rightarrow> aggregate \<Rightarrow> bool" where
  "aggregate_ok m prompt a \<longleftrightarrow> ag_token_logprobs a = scored (lm_logprob m) prompt (ag_output_ids a) \<and>
     ag_token_ids_logprobs a = scored (lm_ids_logprob m) prompt (ag_output_ids a) \<and>
     ag_top_logprobs a = scored (lm_top_logprob m) prompt (ag_output_ids a)"

definition saved_inv :: "lm \<Rightarrow> int list \<Rightarrow> int list \<Rightarrow> gen_state \<Rightarrow> bool" where
  \<comment> \<open>aggregate and checkpoint hold part of \<open>W\<close>, and the prompt's length is known as soon as they hold a token\<close>
  "saved_inv m prompt W st \<longleftrightarrow>
     (let ids = ag_output_ids (gs_aggregate st); saved = ag_output_ids (kp_aggregate (gs_checkpoint st))
      in prefix ids W \<and> prefix saved W \<and> length saved \<le> length ids \<and> aggregate_ok m prompt (gs_aggregate st) \<and>
         aggregate_ok m prompt (kp_aggregate (gs_checkpoint st)) \<and>
         kp_text_prefix (gs_checkpoint st) = wording (lm_word m) saved \<and>
         (case gs_first_prompt_tokens st of None \<Rightarrow> ids = [] | Some n \<Rightarrow> n = int (length prompt)))"

definition core_inv :: "lm \<Rightarrow> int list \<Rightarrow> int list \<Rightarrow> int list \<Rightarrow> gen_state \<Rightarrow> bool" where
  "core_inv m prompt base full st \<longleftrightarrow> saved_inv m prompt (base @ full) st \<and>
     ag_output_ids (gs_aggregate st) = base @ gs_attempt_ids st \<and> gs_attempt_text st = wording (lm_word m) (gs_attempt_ids st) \<and>
     gs_completed_text_prefix st = wording (lm_word m) base \<and>
     (case gs_meta st of None \<Rightarrow> True
      | Some c \<Rightarrow> (lm_logprob m = None \<longrightarrow> gd_token_logprobs c = []) \<and> (lm_ids_logprob m = None \<longrightarrow> gd_token_ids_logprobs c = []) \<and>
          (lm_top_logprob m = None \<longrightarrow> gd_top_logprobs c = []))"

definition attempt_inv :: "lm \<Rightarrow> int list \<Rightarrow> int list \<Rightarrow> int list \<Rightarrow> nat \<Rightarrow> gen_state \<Rightarrow> bool" where
  "attempt_inv m prompt base full k st \<longleftrightarrow> core_inv m prompt base full st \<and>
     (case gs_pending st of
        None \<Rightarrow> length (gs_attempt_ids st) = k
      | Some c \<Rightarrow> chunk_ok m (prompt @ base) full (length (gs_attempt_ids st)) c \<and> length (extract_chunk_output_ids c) = k)"

lemma absorb_frame [frame_simps]:
  "gs_attempt_ids (absorb_tokens c new i st) = gs_attempt_ids st"
  "gs_attempt_text (absorb_tokens c new i st) = gs_attempt_text st"
  "gs_completed_text_prefix (absorb_tokens c new i st) = gs_completed_text_prefix st"
  "gs_checkpoint (absorb_tokens c new i st) = gs_checkpoint st"
  "gs_pending (absorb_tokens c new i st) = gs_pending st"
  "gs_meta (absorb_tokens c new i st) = gs_meta st"
  "gs_first_prompt_tokens (absorb_tokens c new i st) = gs_first_prompt_tokens st"
  "ag_output_ids (gs_aggregate (absorb_tokens c new i st)) = ag_output_ids (gs_aggregate st) @ new"
  by (simp_all add: absorb_tokens_def Let_def)

lemma maybe_checkpoint_frame [frame_simps]:
  "gs_attempt_ids (maybe_checkpoint cfg st) = gs_attempt_ids st"
  "gs_pending (maybe_checkpoint cfg st) = gs_pending st"
  by (simp_all add: maybe_checkpoint_def Let_def)

lemma core_inv_checkpoint: "core_inv m prompt base full st \<Longrightarrow> core_inv m prompt base full (maybe_checkpoint cfg st)"
  by (auto simp: core_inv_def saved_inv_def maybe_checkpoint_def capture_generate_checkpoint_def Let_def split: option.splits)

lemma core_inv_meta:
  assumes "core_inv m prompt base full st" and "chunk_ok m (prompt @ base) full k c"
    and "gs_attempt_ids st = extract_chunk_output_ids c"
  shows "core_inv m prompt base full (st\<lparr>gs_meta := Some c,
      gs_first_prompt_tokens := (case gs_first_prompt_tokens st of None \<Rightarrow> gd_prompt_tokens c | x \<Rightarrow> x),
      gs_attempt_text := wording (lm_word m) (extract_chunk_output_ids c), gs_attempt_ids := extract_chunk_output_ids c\<rparr>)"
  using assms by (auto simp: core_inv_def saved_inv_def chunk_ok_def Let_def split: option.splits)

lemma core_inv_absorb:
  assumes inv: "core_inv m prompt base full st" and ok: "chunk_ok m (prompt @ base) full k c"
    and ids: "extract_chunk_output_ids c = gs_attempt_ids st @ new"
  shows "core_inv m prompt base full (absorb_tokens c new (length (gs_attempt_ids st)) (st\<lparr>gs_meta := Some c,
      gs_first_prompt_tokens := (case gs_first_prompt_tokens st of None \<Rightarrow> gd_prompt_tokens c | x \<Rightarrow> x),
      gs_attempt_text := wording (lm_word m) (extract_chunk_output_ids c), gs_attempt_ids := extract_chunk_output_ids c\<rparr>))"
    (is "core_inv m prompt base full (absorb_tokens c new ?i ?st)")
proof -
  note new = new_entries_scored [where a = "gs_attempt_ids st" and b = new and ctx = "prompt @ base"]
  have "aggregate_ok m prompt (gs_aggregate (absorb_tokens c new ?i ?st))"
    using inv ok new by (simp add: core_inv_def saved_inv_def chunk_ok_def aggregate_ok_def absorb_tokens_def ids scored_append Let_def)
  moreover have "prefix (base @ extract_chunk_output_ids c) (base @ full)" using ok by (simp add: chunk_ok_def Let_def)
  moreover have "case gs_first_prompt_tokens ?st of None \<Rightarrow> False | Some n \<Rightarrow> n = int (length prompt)"
  proof (cases "gs_first_prompt_tokens st")
    case None
    with inv have "base = []" by (auto simp: core_inv_def saved_inv_def Let_def)
    with None ok show ?thesis by (simp add: chunk_ok_def Let_def)
  qed (use inv in \<open>simp add: core_inv_def saved_inv_def Let_def\<close>)
  moreover have "prefix (ag_output_ids (kp_aggregate (gs_checkpoint st))) (base @ full)"
      "length (ag_output_ids (kp_aggregate (gs_checkpoint st))) \<le> length (base @ gs_attempt_ids st)"
    using inv by (auto simp: core_inv_def saved_inv_def Let_def)
  ultimately show ?thesis using inv ok
    by (auto simp: core_inv_def saved_inv_def chunk_ok_def frame_simps ids Let_def split: option.splits)
qed

lemma take_chunk_core:
  assumes inv: "core_inv m prompt base full st" and ok: "chunk_ok m (prompt @ base) full (length (gs_attempt_ids st)) c"
  shows "core_inv m prompt base full (take_chunk cfg c st) \<and>
    gs_attempt_ids (take_chunk cfg c st) = extract_chunk_output_ids c \<and>
    gs_pending (take_chunk cfg c st) = gs_pending st"
proof -
  let ?ids = "extract_chunk_output_ids c" and ?cur = "gs_attempt_ids st"
  let ?st = "st\<lparr>gs_meta := Some c,
      gs_first_prompt_tokens := (case gs_first_prompt_tokens st of None \<Rightarrow> gd_prompt_tokens c | x \<Rightarrow> x),
      gs_attempt_text := wording (lm_word m) ?ids, gs_attempt_ids := ?ids\<rparr>"
  have "prefix ?cur full" using inv by (auto simp: core_inv_def saved_inv_def Let_def)
  then have "prefix ?cur ?ids" using ok by (auto simp: chunk_ok_def Let_def intro: prefix_length_prefix)
  then obtain new where new: "?ids = ?cur @ new" by (auto simp: prefix_def)
  have take: "take_chunk cfg c st =
      (if new = [] then ?st else maybe_checkpoint cfg (absorb_tokens c new (length ?cur) ?st))"
    using ok new by (cases "?ids = []") (auto simp: take_chunk_def Let_def chunk_ok_def)
  show ?thesis
  proof (cases "new = []")
    case True
    then show ?thesis using core_inv_meta [OF inv ok] new by (simp add: take)
  next
    case False
    then show ?thesis using core_inv_checkpoint [OF core_inv_absorb [OF inv ok new]] by (simp add: take frame_simps)
  qed
qed

lemma core_inv_pending [simp]:
  "core_inv m prompt base full (st\<lparr>gs_pending := x, gs_pending_count := y\<rparr>) = core_inv m prompt base full st"
  "core_inv m prompt base full (st\<lparr>gs_pending := x\<rparr>) = core_inv m prompt base full st"
  by (simp_all add: core_inv_def saved_inv_def)

lemma flush_inv:
  assumes "attempt_inv m prompt base full k st"
  obtains st' where "flush_pending_chunk force cfg st = (None, st')" "attempt_inv m prompt base full k st'"
    "force \<Longrightarrow> gs_pending st' = None"
proof (cases "gs_pending st")
  case None
  with assms show ?thesis by (intro that [of st]) (simp_all add: flush_pending_chunk_def)
next
  case (Some c)
  then have c: "chunk_ok m (prompt @ base) full (length (gs_attempt_ids st)) c" "length (extract_chunk_output_ids c) = k"
    and core: "core_inv m prompt base full st"
    using assms by (simp_all add: attempt_inv_def)
  show ?thesis
  proof (cases "\<not> force \<and> gs_pending_count st < gf_coalesce_chunks cfg")
    case True
    with Some assms show ?thesis by (intro that [of st]) (simp_all add: flush_pending_chunk_def)
  next
    case False
    let ?st1 = "st\<lparr>gs_pending := None, gs_pending_count := 0\<rparr>"
    have "gd_error c = None" using c(1) by (simp add: chunk_ok_def Let_def)
    moreover have "core_inv m prompt base full ?st1" "chunk_ok m (prompt @ base) full (length (gs_attempt_ids ?st1)) c"
      using core c(1) by simp_all
    note take_chunk_core [OF this, of cfg]
    ultimately show ?thesis
      using False Some c(2)
      by (intro that [of "take_chunk cfg c ?st1"]) (auto simp: flush_pending_chunk_def Let_def attempt_inv_def)
  qed
qed

lemma pend_inv:
  assumes "attempt_inv m prompt base full k st" and "chunk_ok m (prompt @ base) full k c"
  shows "attempt_inv m prompt base full (length (extract_chunk_output_ids c)) (st\<lparr>gs_pending := Some c, gs_pending_count := n\<rparr>)"
proof -
  have "length (gs_attempt_ids st) \<le> k"
    using assms(1) by (auto simp: attempt_inv_def chunk_ok_def Let_def split: option.splits)
  with assms show ?thesis by (auto simp: attempt_inv_def chunk_ok_def Let_def)
qed

definition reply_for :: "lm \<Rightarrow> int list \<Rightarrow> int list \<Rightarrow> gen_reply" where
  \<comment> \<open>the whole reply to a prompt that was continued by \<open>ids\<close>\<close>
  "reply_for m prompt ids =
     \<lparr>go_text = wording (lm_word m) ids, go_output_ids = ids, go_prompt_tokens = Some (int (length prompt)),
      go_completion_tokens = length ids, go_token_logprobs = scored (lm_logprob m) prompt ids,
      go_token_ids_logprobs = scored (lm_ids_logprob m) prompt ids, go_top_logprobs = scored (lm_top_logprob m) prompt ids\<rparr>"

lemma scored_empty: "scored f ctx ids = [] \<longleftrightarrow> f = None \<or> ids = []"
  by (auto simp: scored_def split: option.splits)

lemma final_reply_core:
  assumes "core_inv m prompt base full st" and "gs_attempt_ids st = full" and "base @ full \<noteq> []"
  shows "final_reply st = reply_for m prompt (base @ full)"
proof -
  have ids: "ag_output_ids (gs_aggregate st) = base @ full" using assms(1,2) by (simp add: core_inv_def)
  have agg: "aggregate_ok m prompt (gs_aggregate st)" using assms(1) by (simp add: core_inv_def saved_inv_def Let_def)
  have prompt: "gs_first_prompt_tokens st = Some (int (length prompt))"
    using assms(1,3) ids by (auto simp: core_inv_def saved_inv_def Let_def split: option.splits)
  have words: "gs_completed_text_prefix st @ gs_attempt_text st = wording (lm_word m) (base @ full)"
    using assms(1,2) by (simp add: core_inv_def)
  have meta: "or_meta (scored f prompt (base @ full)) field (gs_meta st) = scored f prompt (base @ full)"
    if "f = None \<Longrightarrow> (case gs_meta st of None \<Rightarrow> True | Some c \<Rightarrow> field c = [])" for f field
    using that assms(3) by (cases f) (auto simp: or_meta_def scored_empty split: option.splits)
  have "or_meta (scored (lm_logprob m) prompt (base @ full)) gd_token_logprobs (gs_meta st) = scored (lm_logprob m) prompt (base @ full)"
    "or_meta (scored (lm_ids_logprob m) prompt (base @ full)) gd_token_ids_logprobs (gs_meta st) = scored (lm_ids_logprob m) prompt (base @ full)"
    "or_meta (scored (lm_top_logprob m) prompt (base @ full)) gd_top_logprobs (gs_meta st) = scored (lm_top_logprob m) prompt (base @ full)"
    by (rule meta, use assms(1) in \<open>simp add: core_inv_def split: option.splits\<close>)+
  with agg ids prompt words show ?thesis by (simp add: final_reply_def reply_for_def aggregate_ok_def Let_def)
qed

lemma attempt_ids_take:
  assumes "attempt_inv m prompt base full k st" and "gs_pending st = None"
  shows "gs_attempt_ids st = take k full" and "k \<le> length full"
proof -
  have "prefix (base @ gs_attempt_ids st) (base @ full)" "length (gs_attempt_ids st) = k"
    using assms by (auto simp: attempt_inv_def core_inv_def saved_inv_def Let_def)
  then show "gs_attempt_ids st = take k full" "k \<le> length full" by (auto simp: prefix_def)
qed

lemma read_stream_inv:
  assumes "attempt_inv m prompt base full k st" and "honest m (prompt @ base) full k (map snd evs)" and "base @ full \<noteq> []"
    and "read_stream cfg key url evs st = (out, st')"
    and "b \<Longrightarrow> undisturbed m key url evs \<and> (ended m (take k full) \<longrightarrow> list_all (calm key url) evs)"
  shows "(\<forall>c. out \<noteq> Error_Reply c) \<and> (\<forall>r. out = Complete r \<longrightarrow> r = reply_for m prompt (base @ full)) \<and>
    (\<exists>k'. attempt_inv m prompt base full k' st' \<and> (b \<and> (\<exists>x e. out = Rerouted x \<or> out = Broken e) \<longrightarrow> \<not> ended m (take k' full)))"
  using assms(1,2,4,5)
proof (induction evs arbitrary: k st)
  case (Cons e evs)
  obtain r ev where e: "e = (r, ev)" by (cases e)
  show ?case
  proof (cases "moved key url r")
    case (Some new)
    then have "b \<Longrightarrow> \<not> ended m (take k full)" using Cons.prems(4) e by (auto simp: calm_def)
    with Cons.prems Some e show ?thesis by auto
  next
    case None
    note stay = None
    have flush_on: "\<exists>st1. flush_pending_chunk force cfg st = (None, st1) \<and> attempt_inv m prompt base full k st1 \<and> (force \<longrightarrow> gs_pending st1 = None)"
      for force using flush_inv [OF Cons.prems(1)] by metis
    have later: "b \<Longrightarrow> undisturbed m key url evs \<and> (ended m (take k full) \<longrightarrow> list_all (calm key url) evs)"
      if "\<And>c. ev \<noteq> Data c" using Cons.prems(4) e that by (cases ev) auto
    show ?thesis
    proof (cases ev)
      case Other_Line
      then show ?thesis using Cons.prems stay e later by (intro Cons.IH [of k st]) simp_all
    next
      case No_Line
      obtain st1 where f: "flush_pending_chunk False cfg st = (None, st1)" "attempt_inv m prompt base full k st1"
        using flush_on [of False] by blast
      with Cons.prems stay e No_Line later show ?thesis by (intro Cons.IH [OF f(2)]) simp_all
    next
      case (Data c)
      have ok: "chunk_ok m (prompt @ base) full k c" "honest m (prompt @ base) full (length (extract_chunk_output_ids c)) (map snd evs)"
        using Cons.prems(2) e Data by simp_all
      have ids: "take (length (extract_chunk_output_ids c)) full = extract_chunk_output_ids c"
        using ok(1) by (auto simp: chunk_ok_def Let_def prefix_def)
      obtain st1 where f: "flush_pending_chunk False cfg
            (st\<lparr>gs_pending := Some c, gs_pending_count := gs_pending_count st + 1\<rparr>) = (None, st1)"
          "attempt_inv m prompt base full (length (extract_chunk_output_ids c)) st1"
        using flush_inv [OF pend_inv [OF Cons.prems(1) ok(1)]] by metis
      show ?thesis using Cons.prems(3,4) stay e Data ok(2) f(1) by (intro Cons.IH [OF f(2)]) (simp_all add: ids)
    next
      case Done_Line
      obtain st1 where f: "flush_pending_chunk True cfg st = (None, st1)" "attempt_inv m prompt base full k st1"
          "gs_pending st1 = None"
        using flush_on [of True] by blast
      have "k = length full" using Cons.prems(2) e Done_Line by simp
      then have "core_inv m prompt base full st1" "gs_attempt_ids st1 = full"
        using f(2) attempt_ids_take [OF f(2,3)] by (simp_all add: attempt_inv_def)
      from final_reply_core [OF this assms(3)] f Cons.prems(3) stay e Done_Line show ?thesis by auto
    next
      case Stream_End
      obtain st1 where f: "flush_pending_chunk True cfg st = (None, st1)" "attempt_inv m prompt base full k st1"
        using flush_on [of True] by blast
      have "b \<Longrightarrow> \<not> ended m (take k full)" using Cons.prems(4) e Stream_End by (auto simp: calm_def)
      with f Cons.prems(3) stay e Stream_End show ?thesis by auto
    next
      case (Stream_Error x)
      then have "b \<Longrightarrow> \<not> ended m (take k full)" using Cons.prems(4) e by (auto simp: calm_def)
      with Cons.prems stay e Stream_Error show ?thesis by auto
    qed
  qed
qed auto

section \<open>The whole request\<close>

definition rest_inv :: "bool \<Rightarrow> lm \<Rightarrow> gen_config \<Rightarrow> int list \<Rightarrow> int list \<Rightarrow> gen_state \<Rightarrow> bool" where
  \<comment> \<open>between two attempts, of which none was disturbed if \<open>b\<close>: what is kept is part of \<open>W\<close>\<close>
  "rest_inv b m cfg prompt W st \<longleftrightarrow> saved_inv m prompt W st \<and>
     gs_completed_text_prefix st = wording (lm_word m) (ag_output_ids (gs_aggregate st)) \<and> gs_pending st = None \<and>
     (gf_disable_recovery cfg \<longrightarrow> ag_output_ids (gs_aggregate st) = []) \<and> (b \<longrightarrow> \<not> ended m (ag_output_ids (gs_aggregate st)))"

lemma rest_inv_new: "rest_inv b m cfg prompt W (new_gen_state cfg)"
  by (simp add: rest_inv_def saved_inv_def aggregate_ok_def new_gen_state_def empty_aggregate_def empty_checkpoint_def ended_def Let_def)

lemma start_attempt_inv:
  assumes "rest_inv b m cfg prompt W st" and "ag_output_ids (gs_aggregate st) @ full = W"
  shows "attempt_inv m prompt (ag_output_ids (gs_aggregate st)) full 0 (start_attempt st)"
  using assms by (simp add: rest_inv_def attempt_inv_def core_inv_def saved_inv_def start_attempt_def Let_def)

lemma ended_append: "ended m (a @ b) \<longleftrightarrow> (if b = [] then ended m a else ended m b)"
  by (simp add: ended_def)

lemma close_text_saved: "saved_inv m prompt W (close_text st) = saved_inv m prompt W st"
  by (simp add: saved_inv_def close_text_def)

lemma after_inv:
  assumes inv: "attempt_inv m prompt base full k st" and pend: "gs_pending st = None"
    and still: "b \<Longrightarrow> base @ full = decode m ctx n \<and> \<not> ended m base \<and> \<not> ended m (take k full)"
  shows "rest_inv b m cfg prompt (base @ full) (after_reroute cfg (close_text st))"
    and "rest_inv b m cfg prompt (base @ full) (after_failure cfg (close_text st))"
proof -
  let ?saved = "ag_output_ids (kp_aggregate (gs_checkpoint st))"
  have core: "core_inv m prompt base full st" using inv by (simp add: attempt_inv_def)
  have ids: "ag_output_ids (gs_aggregate st) = base @ take k full"
    using core attempt_ids_take [OF inv pend] by (simp add: core_inv_def)
  have open_ids: "\<not> ended m (base @ take k full)" if b using still [OF that] by (simp add: ended_append)
  have open_saved: "\<not> ended m ?saved" if b
  proof
    assume end_saved: "ended m ?saved"
    have saved: "prefix ?saved (base @ full)" "length ?saved \<le> length (base @ take k full)"
      using core unfolding ids [symmetric] core_inv_def saved_inv_def Let_def by blast+
    have "?saved = base @ full" using ended_prefix [of ?saved m ctx n] still [OF that] saved(1) end_saved by simp
    with saved(2) have "base @ take k full = base @ full" by simp
    with \<open>?saved = base @ full\<close> end_saved open_ids [OF that] show False by simp
  qed
  have start: "rest_inv b m cfg prompt (base @ full) (reset_generate_recovery_state cfg (close_text st))"
    using core pend by (auto simp: rest_inv_def saved_inv_def core_inv_def close_text_def reset_generate_recovery_state_def aggregate_ok_def
        empty_aggregate_def empty_checkpoint_def ended_def Let_def split: option.splits)
  have stop: "gs_completed_text_prefix (close_text st) = wording (lm_word m) (base @ take k full)" "gs_pending (close_text st) = None"
      "ag_output_ids (gs_aggregate (close_text st)) = base @ take k full" "gs_checkpoint (close_text st) = gs_checkpoint st"
    using core pend ids by (simp_all add: core_inv_def close_text_def)
  have "saved_inv m prompt (base @ full) (close_text st)" 
    by (simp add: close_text_saved conjunct1 [OF core [unfolded core_inv_def]])
  moreover from this have "saved_inv m prompt (base @ full) (restore_generate_checkpoint (close_text st))"
    by (auto simp: saved_inv_def restore_generate_checkpoint_def Let_def split: option.splits)
  ultimately have kept: "rest_inv b m cfg prompt (base @ full) (close_text st)"
      "rest_inv b m cfg prompt (base @ full) (restore_generate_checkpoint (close_text st))"
    if "\<not> (gf_disable_recovery cfg \<and> base @ take k full \<noteq> [])"
    using that stop open_ids open_saved core
    by (auto simp: rest_inv_def restore_generate_checkpoint_def core_inv_def saved_inv_def Let_def)
  show "rest_inv b m cfg prompt (base @ full) (after_reroute cfg (close_text st))"
    using start kept(1) by (simp add: after_reroute_def stop(3))
  show "rest_inv b m cfg prompt (base @ full) (after_failure cfg (close_text st))"
    using start kept(2) by (simp add: after_failure_def stop(3))
qed

definition payload_fits :: "gen_payload \<Rightarrow> int list \<Rightarrow> gen_payload \<Rightarrow> bool" where
  \<comment> \<open>the payload of an attempt that continues from \<open>ids\<close>\<close>
  "payload_fits payload ids cur \<longleftrightarrow> py_input_ids cur = py_input_ids payload @ ids \<and>
     map_option nat (py_max_new_tokens cur) = map_option (\<lambda>n. nat n - length ids) (py_max_new_tokens payload)"

lemma fits_recovery:
  "(gf_disable_recovery cfg \<longrightarrow> ids = []) \<Longrightarrow> payload_fits payload ids (build_generate_recovery_payload cfg payload ids)"
  by (cases "py_max_new_tokens payload") (auto simp: payload_fits_def build_generate_recovery_payload_def)

definition budget :: "gen_payload \<Rightarrow> nat" where
  "budget p = nat (case py_max_new_tokens p of None \<Rightarrow> 0 | Some n \<Rightarrow> n)"

definition continuation :: "lm \<Rightarrow> gen_payload \<Rightarrow> int list" where
  \<comment> \<open>what the deterministic model answers to a payload with a token budget\<close>
  "continuation m p = decode m (py_input_ids p) (budget p)"

definition allowed :: "bool \<Rightarrow> lm \<Rightarrow> gen_payload \<Rightarrow> int list \<Rightarrow> bool" where
  "allowed b m payload W \<longleftrightarrow> (if b then W = continuation m payload else prefix (continuation m payload) W \<and> length W \<le> budget payload)"

lemma continuation_fits:
  assumes fits: "payload_fits payload ids cur" and some: "py_max_new_tokens payload \<noteq> None"
    and W: "allowed b m payload W" "prefix ids W" and still: "b \<Longrightarrow> \<not> ended m ids"
  shows "allowed b m payload (ids @ continuation m cur)"
proof -
  have cur: "continuation m cur = decode m (py_input_ids payload @ ids) (budget payload - length ids)"
    using fits some by (auto simp: payload_fits_def continuation_def budget_def map_option_case split: option.splits)
  have on: "ids @ continuation m cur = continuation m payload" if "prefix ids (continuation m payload)" "\<not> ended m ids"
    unfolding cur using prefix_decode [OF that [unfolded continuation_def]] by (simp add: continuation_def)
  show ?thesis
  proof (cases b)
    case True
    with W still on show ?thesis by (simp add: allowed_def)
  next
    case False
    then have whole: "prefix (continuation m payload) W" "length W \<le> budget payload" using W(1) by (simp_all add: allowed_def)
    have "length (ids @ continuation m cur) \<le> budget payload"
      using prefix_length_le [OF W(2)] whole(2) length_decode [of m "py_input_ids payload @ ids" "budget payload - length ids"] by (simp add: cur)
    moreover have "prefix (continuation m payload) (ids @ continuation m cur)"
    proof (cases "prefix ids (continuation m payload)")
      case True
      show ?thesis
      proof (cases "ended m ids")
        case True
        with \<open>prefix ids (continuation m payload)\<close> have "ids = continuation m payload" by (simp add: continuation_def ended_prefix)
        then show ?thesis by simp
      qed (use on True in simp)
    next
      case False
      with whole(1) W(2) have "prefix (continuation m payload) ids" by (meson prefix_same_cases)
      then show ?thesis by simp
    qed
    ultimately show ?thesis using False by (simp add: allowed_def)
  qed
qed

definition good_answer :: "bool \<Rightarrow> lm \<Rightarrow> gen_payload \<Rightarrow> gen_reply \<Rightarrow> bool" where
  "good_answer b m payload r \<longleftrightarrow> (\<exists>W. allowed b m payload W \<and> r = reply_for m (py_input_ids payload) W)"

lemma attempt_result:
  assumes rest: "rest_inv b m cfg (py_input_ids payload) W st" and W: "allowed b m payload W"
    and fits: "payload_fits payload (ag_output_ids (gs_aggregate st)) cur"
    and some: "py_max_new_tokens payload \<noteq> None" "0 < budget payload"
    and honest: "honest m (py_input_ids cur) (continuation m cur) 0 (map snd (at_events a))"
    and still: "b \<Longrightarrow> undisturbed m key url (at_events a)"
    and run: "run_attempt cfg key url a (start_attempt st) = (out, st1)"
  shows "\<forall>c. out \<noteq> Error_Reply c" and "\<forall>r. out = Complete r \<longrightarrow> good_answer b m payload r"
    and "\<exists>st2. flush_pending_chunk True cfg st1 = (None, st2) \<and> ((\<exists>x e. out = Rerouted x \<or> out = Broken e) \<longrightarrow>
      (\<exists>W. allowed b m payload W \<and> rest_inv b m cfg (py_input_ids payload) W (after_reroute cfg (close_text st2)) \<and>
        rest_inv b m cfg (py_input_ids payload) W (after_failure cfg (close_text st2))))"
proof -
  let ?base = "ag_output_ids (gs_aggregate st)" and ?full = "continuation m cur" and ?prompt = "py_input_ids payload"
  have base: "prefix ?base W" "b \<Longrightarrow> \<not> ended m ?base" using rest by (simp_all add: rest_inv_def saved_inv_def Let_def)
  have W': "allowed b m payload (?base @ ?full)" by (rule continuation_fits [OF fits some(1) W base])
  have "prefix (continuation m payload) (?base @ ?full)" using W' by (auto simp: allowed_def split: if_splits)
  moreover have "continuation m payload \<noteq> []" using some(2) by (simp add: continuation_def decode_not_empty)
  ultimately have ne: "?base @ ?full \<noteq> []" by (auto simp del: append_is_Nil_conv)
  have "prefix ?base (?base @ ?full)" "prefix (ag_output_ids (kp_aggregate (gs_checkpoint st))) (?base @ ?full)"
    using rest base(1) by (auto simp: rest_inv_def saved_inv_def Let_def intro: prefix_prefix prefix_length_prefix)
  with rest have "rest_inv b m cfg ?prompt (?base @ ?full) st" by (simp add: rest_inv_def saved_inv_def Let_def)
  note start = start_attempt_inv [OF this refl]
  have input: "py_input_ids cur = ?prompt @ ?base" using fits by (simp add: payload_fits_def)
  have all: "(\<forall>c. out \<noteq> Error_Reply c) \<and> (\<forall>r. out = Complete r \<longrightarrow> r = reply_for m ?prompt (?base @ ?full)) \<and>
      (\<exists>k. attempt_inv m ?prompt ?base ?full k st1 \<and> (b \<and> (\<exists>x e. out = Rerouted x \<or> out = Broken e) \<longrightarrow> \<not> ended m (take k ?full)))"
  proof (cases "at_opening a")
    case Opened
    with run have "read_stream cfg key url (at_events a) (start_attempt st) = (out, st1)"
      by (simp add: run_attempt_def)
    from read_stream_inv [OF start _ ne this, of b] honest input still show ?thesis by (simp add: ended_def)
  next
    case (Open_Error e)
    with run start show ?thesis by (auto simp: run_attempt_def ended_def intro!: exI [of _ 0])
  next
    case (Bad_Status s)
    with run start show ?thesis by (auto simp: run_attempt_def)
  qed
  then show "\<forall>c. out \<noteq> Error_Reply c" and "\<forall>r. out = Complete r \<longrightarrow> good_answer b m payload r"
    using W' by (auto simp: good_answer_def)
  from all obtain k where k: "attempt_inv m ?prompt ?base ?full k st1"
    "b \<Longrightarrow> (\<exists>x e. out = Rerouted x \<or> out = Broken e) \<Longrightarrow> \<not> ended m (take k ?full)" by blast
  then obtain st2 where st2: "flush_pending_chunk True cfg st1 = (None, st2)" "attempt_inv m ?prompt ?base ?full k st2" "gs_pending st2 = None"
    using flush_inv by metis
  have "rest_inv b m cfg ?prompt (?base @ ?full) (after_reroute cfg (close_text st2)) \<and>
      rest_inv b m cfg ?prompt (?base @ ?full) (after_failure cfg (close_text st2))" if "\<exists>x e. out = Rerouted x \<or> out = Broken e"
  proof -
    have "?base @ ?full = decode m ?prompt (budget payload) \<and> \<not> ended m ?base \<and> \<not> ended m (take k ?full)" if b
      using W' base(2) k(2) that \<open>\<exists>x e. out = Rerouted x \<or> out = Broken e\<close> by (simp add: allowed_def continuation_def)
    from after_inv [OF st2(2,3) this] show ?thesis by blast
  qed
  then show "\<exists>st2. flush_pending_chunk True cfg st1 = (None, st2) \<and> ((\<exists>x e. out = Rerouted x \<or> out = Broken e) \<longrightarrow>
      (\<exists>W. allowed b m payload W \<and> rest_inv b m cfg ?prompt W (after_reroute cfg (close_text st2)) \<and>
        rest_inv b m cfg ?prompt W (after_failure cfg (close_text st2))))"
    by (intro exI [of _ st2] conjI impI exI [of _ "?base @ ?full"]) (simp_all add: st2(1) W')
qed

lemma generate_loop_answer:
  assumes honest: "\<And>n url cur. honest m (py_input_ids cur) (continuation m cur) 0 (map snd (at_events (wd_serve wd n url cur)))"
    and still: "\<And>n url cur. b \<Longrightarrow> undisturbed m key url (at_events (wd_serve wd n url cur))"
    and some: "py_max_new_tokens payload \<noteq> None" "0 < budget payload"
  shows "rest_inv b m cfg (py_input_ids payload) W st \<Longrightarrow> allowed b m payload W \<Longrightarrow>
    payload_fits payload (ag_output_ids (gs_aggregate st)) cur \<Longrightarrow>
    generate_loop cfg wd payload key left n url cur st trace = (res, trace') \<Longrightarrow>
    (\<forall>c. res \<noteq> Error_Answer c) \<and> (\<forall>r. res = Answer r \<longrightarrow> good_answer b m payload r)"
proof (induction left arbitrary: n url cur st trace W)
  case (0 n url cur st trace W)
  obtain out st1 where run: "run_attempt cfg key url (wd_serve wd n url cur) (start_attempt st) = (out, st1)" by fastforce
  note att = attempt_result [OF 0(1-3) some honest still run]
  from att(3) obtain st2 where "flush_pending_chunk True cfg st1 = (None, st2)" by blast
  with att(1,2) run 0(4) show ?case
    by (cases out) (auto simp: generate_loop.simps [of cfg wd payload key 0])
next
  case (Suc left n url cur st trace W)
  obtain out st1 where run: "run_attempt cfg key url (wd_serve wd n url cur) (start_attempt st) = (out, st1)" by fastforce
  note att = attempt_result [OF Suc.prems(1-3) some honest still run]
  from att(3) obtain st2 W' where flush: "flush_pending_chunk True cfg st1 = (None, st2)"
    and inv: "(\<exists>x e. out = Rerouted x \<or> out = Broken e) \<Longrightarrow> allowed b m payload W' \<and>
      rest_inv b m cfg (py_input_ids payload) W' (after_reroute cfg (close_text st2)) \<and>
      rest_inv b m cfg (py_input_ids payload) W' (after_failure cfg (close_text st2))" by blast
  have next_attempt: "(\<forall>c. res \<noteq> Error_Answer c) \<and> (\<forall>r. res = Answer r \<longrightarrow> good_answer b m payload r)"
    if "rest_inv b m cfg (py_input_ids payload) W' st3" and "allowed b m payload W'"
      and "generate_loop cfg wd payload key left (Suc n) u
        (build_generate_recovery_payload cfg payload (ag_output_ids (gs_aggregate st3))) st3 tr = (res, trace')" for st3 u tr
    using that by (intro Suc.IH [OF that(1,2) fits_recovery that(3)]) (simp add: rest_inv_def)
  show ?case
  proof (cases out)
    case (Rerouted new)
    then have "allowed b m payload W'" "rest_inv b m cfg (py_input_ids payload) W' (after_reroute cfg (close_text st2))" using inv by blast+
    with run flush Rerouted Suc.prems(4) next_attempt show ?thesis
      by (auto simp: generate_loop.simps [of cfg wd payload key "Suc left"] Let_def split: option.splits if_splits)
  next
    case (Broken e)
    then have "allowed b m payload W'" "rest_inv b m cfg (py_input_ids payload) W' (after_failure cfg (close_text st2))" using inv by blast+
    with run flush Broken Suc.prems(4) next_attempt show ?thesis
      by (auto simp: generate_loop.simps [of cfg wd payload key "Suc left"] Let_def split: option.splits if_splits)
  qed (use att(1,2) run Suc.prems(4) in \<open>auto simp: generate_loop.simps [of cfg wd payload key "Suc left"]\<close>)
qed

lemma proxy_answer:
  assumes "\<And>n url cur. honest m (py_input_ids cur) (continuation m cur) 0 (map snd (at_events (wd_serve wd n url cur)))"
    and "\<And>n url cur. b \<Longrightarrow> undisturbed m key url (at_events (wd_serve wd n url cur))"
    and "0 < budget payload"
  shows "(\<forall>c. fst (proxy_generate cfg wd url key payload) \<noteq> Error_Answer c) \<and>
    (\<forall>r. fst (proxy_generate cfg wd url key payload) = Answer r \<longrightarrow> good_answer b m payload r)"
proof -
  let ?p = "payload\<lparr>py_stream := True\<rparr>"
  have same: "budget ?p = budget payload" "allowed b m ?p = allowed b m payload" "good_answer b m ?p = good_answer b m payload"
    by (simp_all add: fun_eq_iff budget_def continuation_def allowed_def good_answer_def)
  have some: "py_max_new_tokens ?p \<noteq> None" "0 < budget ?p" using assms(3) same by (auto simp: budget_def split: option.splits)
  have "payload_fits ?p (ag_output_ids (gs_aggregate (new_gen_state cfg))) ?p"
    by (cases "py_max_new_tokens payload") (simp_all add: payload_fits_def new_gen_state_def empty_aggregate_def)
  moreover have "allowed b m ?p (continuation m ?p)" by (simp add: allowed_def continuation_def length_decode)
  ultimately show ?thesis
    using generate_loop_answer [OF assms(1,2) some rest_inv_new, where b = b and left = "gf_max_attempts cfg" and n = 0 and url = url and cur = ?p
        and trace = "[Reserve url]" and cfg = cfg and W = "continuation m ?p"
        and res = "fst (proxy_generate cfg wd url key payload)" and trace' = "snd (proxy_generate cfg wd url key payload)"]
    by (simp add: proxy_generate_def same Let_def)
qed


definition demo_model :: lm where
  \<comment> \<open>the next token is the length of the context, 6 stops\<close>
  "demo_model = \<lparr>lm_next = (\<lambda>ctx. int (length ctx)), lm_stop = (\<lambda>t. t = 6), lm_word = (\<lambda>t. ''t''),
     lm_logprob = Some (\<lambda>ctx. JI (int (length ctx))), lm_ids_logprob = None, lm_top_logprob = None\<rparr>"

definition demo_chunk :: "int list \<Rightarrow> int list \<Rightarrow> gen_chunk" where
  "demo_chunk input ids = \<lparr>gd_error = None, gd_text = Some (wording (lm_word demo_model) ids),
     gd_output_ids = Some (JL (map JI ids)), gd_prompt_tokens = Some (int (length input)),
     gd_token_logprobs = (if ids = [] then [] else scored (lm_logprob demo_model) input ids),
     gd_token_ids_logprobs = [], gd_top_logprobs = []\<rparr>"

definition demo_registry :: router where
  "demo_registry = register_worker ''a'' ''k'' (new_router False)"

definition demo_serve :: "nat \<Rightarrow> nat \<Rightarrow> string \<Rightarrow> gen_payload \<Rightarrow> attempt" where
  \<comment> \<open>the first attempt breaks after \<open>k\<close> tokens, the others stream to the end\<close>
  "demo_serve k n url cur =
     (let full = continuation demo_model cur
      in \<lparr>at_opening = Opened, at_events = map (\<lambda>e. (demo_registry, e))
           (if n = 0 then [Data (demo_chunk (py_input_ids cur) (take k full)), Stream_Error (OtherError ''reset'')]
            else [Data (demo_chunk (py_input_ids cur) full), Done_Line])\<rparr>)"

definition demo_world :: "nat \<Rightarrow> world" where
  "demo_world k = \<lparr>wd_serve = demo_serve k, wd_resolve = (\<lambda>_ _. Some ''a''), wd_known = (\<lambda>_ _. True)\<rparr>"

definition demo_config :: gen_config where
  "demo_config = \<lparr>gf_coalesce_chunks = 1, gf_checkpoint_tokens = 1, gf_max_attempts = 2, gf_disable_recovery = False\<rparr>"

definition demo_payload :: gen_payload where
  "demo_payload = \<lparr>py_stream = False, py_input_ids = [7, 8], py_max_new_tokens = Some 8\<rparr>"

lemma normalize_ints: "List.map_filter to_int_token_id (map JI ids) = ids"
  by (induction ids) (simp_all add: List.map_filter_simps)

lemma demo_extract: "extract_chunk_output_ids (demo_chunk input ids) = ids"
  by (simp add: extract_chunk_output_ids_def demo_chunk_def normalize_output_ids_def normalize_ints
      extract_output_ids_from_meta_info_def List.map_filter_simps)

lemma demo_honest:
  "honest demo_model (py_input_ids cur) (continuation demo_model cur) 0 (map snd (at_events (wd_serve (demo_world k) n url cur)))"
  by (auto simp: demo_world_def demo_serve_def Let_def comp_def chunk_ok_def demo_extract take_is_prefix)
    (auto simp: demo_chunk_def demo_model_def)


text \<open>The condition is needed.  A worker that fails after it has sent its stop token, but before \<open>[DONE]\<close>, is
  continued behind the stop token: the answer gets tokens that a worker that never fails does not give.\<close>

lemma failure_after_stop_goes_on:
  "continuation demo_model demo_payload = [2, 3, 4, 5, 6] \<and>
   (case fst (proxy_generate demo_config (demo_world 5) ''a'' ''k'' demo_payload) of
      Answer r \<Rightarrow> go_output_ids r = [2, 3, 4, 5, 6, 7, 8, 9] | _ \<Rightarrow> False)"
  by code_simp

section \<open>Reservations of a request\<close>

definition reserved :: "log_entry list \<Rightarrow> string multiset" where
  "reserved trace = mset (List.map_filter (\<lambda>e. case e of Reserve u \<Rightarrow> Some u | _ \<Rightarrow> None) trace)"

definition finished :: "log_entry list \<Rightarrow> string multiset" where
  "finished trace = mset (List.map_filter (\<lambda>e. case e of Finish u \<Rightarrow> Some u | _ \<Rightarrow> None) trace)"

lemma ledger_simps [simp]:
  "reserved [] = {#}" "finished [] = {#}"
  "reserved (Reserve u # t) = add_mset u (reserved t)" "reserved (Finish u # t) = reserved t"
  "reserved (Failure u # t) = reserved t"
  "finished (Reserve u # t) = finished t" "finished (Finish u # t) = add_mset u (finished t)"
  "finished (Failure u # t) = finished t"
  "reserved (s @ t) = reserved s + reserved t" "finished (s @ t) = finished s + finished t"
  by (simp_all add: reserved_def finished_def List.map_filter_def)

definition holds :: "string \<Rightarrow> log_entry list \<Rightarrow> bool" where
  \<comment> \<open>the request holds one reservation, of \<open>url\<close>\<close>
  "holds url trace \<longleftrightarrow> reserved trace = add_mset url (finished trace)"

lemma generate_loop_balanced:
  "holds url trace \<Longrightarrow> generate_loop cfg wd payload key left n url cur st trace = (res, trace') \<Longrightarrow>
   res \<noteq> Waiting \<Longrightarrow> reserved trace' = finished trace'"
proof (induction left arbitrary: n url cur st trace)
  case 0
  note loop = 0(2) [unfolded generate_loop.simps [of cfg wd payload key 0] Let_def]
  show ?case
    using loop 0(1,3) by (auto simp: holds_def split: prod.splits outcome.splits option.splits)
next
  case (Suc left)
  note loop = Suc.prems(2) [unfolded generate_loop.simps [of cfg wd payload key "Suc left"] Let_def]
  have step1: "reserved trace' = finished trace'"
    if "generate_loop cfg wd payload key left (Suc n) u p st3 (trace @ [Reserve u, Finish url]) = (res, trace')" for u p st3
    using Suc.prems(1) by (intro Suc.IH [OF _ that Suc.prems(3)]) (simp add: holds_def)
  have step2: "reserved trace' = finished trace'"
    if "generate_loop cfg wd payload key left (Suc n) u p st3 (trace @ [Failure url, Reserve u, Finish url]) = (res, trace')" for u p st3
    using Suc.prems(1) by (intro Suc.IH [OF _ that Suc.prems(3)]) (simp add: holds_def)
  obtain out st1 where run: "run_attempt cfg key url (wd_serve wd n url cur) (start_attempt st) = (out, st1)" by fastforce
  obtain err st2 where flush: "flush_pending_chunk True cfg st1 = (err, st2)" by fastforce
  show ?case
  proof (cases out)
    case (Rerouted new)
    show ?thesis
    proof (cases err)
      case (Some c)
      with loop run flush Rerouted Suc.prems(1) show ?thesis by (auto simp: holds_def)
    next
      case None
      obtain dest where dest: "(case new of Some u \<Rightarrow> Some u | None \<Rightarrow> wd_resolve wd n url) = dest" by simp
      from loop run flush Rerouted None Suc.prems(1) step1 show ?thesis
        by (cases dest) (auto simp: dest holds_def split: if_splits)
    qed
  next
    case (Broken e)
    show ?thesis
    proof (cases err)
      case (Some c)
      with loop run flush Broken Suc.prems(1) show ?thesis by (auto simp: holds_def)
    next
      case None
      from loop run flush Broken None Suc.prems(1) step2 show ?thesis
        by (cases "wd_resolve wd n url") (auto simp: holds_def split: if_splits)
    qed
  qed (use loop run Suc.prems(1,3) in \<open>auto simp: holds_def\<close>)
qed

text \<open>C10. The streaming proxy gives back every reservation it took, one by one and address by
  address, however the request ends: answered, answered with an error body, or raised after the
  last attempt. At any time it holds at most the one of its current worker.\<close>

theorem generate_reservations_balanced:
  assumes "fst (proxy_generate cfg wd url key payload) \<noteq> Waiting"
  shows "reserved (snd (proxy_generate cfg wd url key payload)) = finished (snd (proxy_generate cfg wd url key payload))"
proof -
  have "holds url [Reserve url]" by (simp add: holds_def)
  from generate_loop_balanced [OF this, of cfg wd "payload\<lparr>py_stream := True\<rparr>" key "gf_max_attempts cfg" 0
      "payload\<lparr>py_stream := True\<rparr>" "new_gen_state cfg" "fst (proxy_generate cfg wd url key payload)"
      "snd (proxy_generate cfg wd url key payload)"] assms
  show ?thesis by (simp add: proxy_generate_def Let_def)
qed

theorem generate_reservations_balanced_witness:
  "reserved (snd (proxy_generate demo_config (demo_world 2) ''a'' ''k'' demo_payload)) = {#''a'', ''a''#} \<and>
   finished (snd (proxy_generate demo_config (demo_world 2) ''a'' ''k'' demo_payload)) = {#''a'', ''a''#}"
proof -
  have "fst (proxy_generate demo_config (demo_world 2) ''a'' ''k'' demo_payload) \<noteq> Waiting \<and>
      snd (proxy_generate demo_config (demo_world 2) ''a'' ''k'' demo_payload) =
        [Reserve ''a'', Failure ''a'', Reserve ''a'', Finish ''a'', Finish ''a'']" by code_simp
  then show ?thesis using generate_reservations_balanced [of demo_config "demo_world 2" "''a''" "''k''" demo_payload] by simp
qed

lemma nonstream_balance:
  "holds url trace \<Longrightarrow> nonstream_loop step resolve known key left n url trace = (res, trace') \<Longrightarrow>
   (if res = NS_None then \<exists>u. holds u trace' else reserved trace' = finished trace')"
proof (induction left arbitrary: n url trace)
  case 0
  then show ?case by auto
next
  case (Suc left)
  have step1: ?case
    if "nonstream_loop step resolve known key left (Suc n) u (trace @ [Reserve u, Finish url]) = (res, trace')" for u
    using Suc.prems(1) by (intro Suc.IH [OF _ that]) (simp add: holds_def)
  have step2: ?case
    if "nonstream_loop step resolve known key left (Suc n) u (trace @ [Failure url, Reserve u, Finish url]) = (res, trace')" for u
    using Suc.prems(1) by (intro Suc.IH [OF _ that]) (simp add: holds_def)
  show ?case
  proof (cases "step n url")
    case (NS_Moved new)
    obtain dest where dest: "(case new of Some u \<Rightarrow> Some u | None \<Rightarrow> resolve n url) = dest" by simp
    show ?thesis
    proof (cases dest)
      case None
      with Suc.prems dest NS_Moved show ?thesis by (auto simp: holds_def)
    next
      case (Some u)
      then show ?thesis using Suc.prems dest NS_Moved step1 [of u] by (cases "known n u") (auto simp: holds_def)
    qed
  next
    case (NS_Error e)
    show ?thesis
    proof (cases "resolve n url")
      case None
      with Suc.prems NS_Error show ?thesis by (auto simp: holds_def split: if_splits)
    next
      case (Some u)
      then show ?thesis using Suc.prems NS_Error step2 [of u] by (cases "left = 0"; cases "known n u") (auto simp: holds_def)
    qed
  qed (use Suc.prems in \<open>auto simp: holds_def\<close>)
qed

text \<open>The non-streaming proxy gives back all its reservations when it answers or raises. But when
  its worker is replaced before the last attempt is sent, it reserves the replacement, leaves the
  loop and returns nothing: the request is answered with a null body and exactly one reservation
  is never given back. (The streaming proxy raises in that case.)\<close>

theorem nonstream_leaks_on_late_move:
  "(case proxy_generate_nonstream step resolve known max_attempts url key of
      (NS_None, trace) \<Rightarrow> \<exists>u. reserved trace = add_mset u (finished trace)
    | (_, trace) \<Rightarrow> reserved trace = finished trace) \<and>
   proxy_generate_nonstream (\<lambda>n u. NS_Moved (Some ''b'')) resolve (\<lambda>_ _. True) 0 ''a'' key =
     (NS_None :: 'r nonstream_result, [Reserve ''a'', Reserve ''b'', Finish ''a''])"
proof
  have "holds url [Reserve url]" by (simp add: holds_def)
  from nonstream_balance [OF this, of step resolve known key "Suc max_attempts" 0
      "fst (proxy_generate_nonstream step resolve known max_attempts url key)"
      "snd (proxy_generate_nonstream step resolve known max_attempts url key)"]
  show "case proxy_generate_nonstream step resolve known max_attempts url key of
      (NS_None, trace) \<Rightarrow> \<exists>u. reserved trace = add_mset u (finished trace)
    | (_, trace) \<Rightarrow> reserved trace = finished trace"
    by (auto simp: proxy_generate_nonstream_def holds_def simp del: nonstream_loop.simps
        split: prod.splits nonstream_result.splits)
qed (simp add: proxy_generate_nonstream_def)

definition read_increments :: "int \<Rightarrow> int list \<Rightarrow> int list" where
  \<comment> \<open>the tokens answered for a worker that streams one token per chunk\<close>
  "read_increments window xs =
     (case read_stream (demo_config\<lparr>gf_coalesce_chunks := window\<rparr>) ''k'' ''a''
             (map (\<lambda>x. (demo_registry, Data (demo_chunk [] [x]))) xs @ [(demo_registry, Done_Line)])
             (start_attempt (new_gen_state demo_config)) of
        (Complete r, _) \<Rightarrow> go_output_ids r
      | _ \<Rightarrow> [])"

text \<open>The aggregation reads chunks as cumulative. A worker that streams increments loses tokens:
  with a coalescing window of two the increments 1, 2, 3 are answered as 2, 3, and even without
  coalescing an increment that repeats the tokens so far is taken for a chunk without news.\<close>

theorem incremental_chunks_lose_tokens:
  "read_increments 2 [1, 2, 3] = [2, 3] \<and> read_increments 1 [1, 2, 3] = [1, 2, 3] \<and> read_increments 1 [5, 5] = [5]"
proof (intro conjI)
  show "read_increments 2 [1, 2, 3] = [2, 3]" by code_simp
  show "read_increments 1 [1, 2, 3] = [1, 2, 3]" by code_simp
  show "read_increments 1 [5, 5] = [5]" by code_simp
qed

end
