(* ===== verification/Radix_Trie.thy ===== *)
theory Radix_Trie
  imports PyText
begin

text \<open>
  \<open>middleware_hub/radix_tree.py\<close>: the string trie in which the router keeps the tokens of texts it
  has seen.  A node is its data (\<open>node\<close>) with its children in list order; the object identity the
  code compares with \<open>==\<close> is the \<open>id\<close> every \<open>StringTreeNode\<close> draws from a counter.  \<open>token_ids\<close>
  and \<open>logp\<close> are assigned together wherever the code assigns them, so they are one optional value;
  access times are never read and are left out, access counts are kept.
\<close>

section \<open>Nodes\<close>

record node_value =
  nv_tokens :: "int list"
  nv_logp :: "real list"
  nv_mask :: "int list option"

record node =
  nd_id :: nat
  nd_key :: string
  nd_value :: "node_value option"
  nd_access :: nat
  nd_ref :: nat
  nd_version :: "int option"

datatype rtree = RNode (nd: node) (kids: "rtree list")

definition new_tree_node :: "nat \<Rightarrow> node" where
  "new_tree_node i = \<lparr>nd_id = i, nd_key = [], nd_value = None, nd_access = 0, nd_ref = 0, nd_version = None\<rparr>"

definition is_leaf :: "rtree \<Rightarrow> bool" where
  "is_leaf t = (kids t = [])"

definition has_value :: "node \<Rightarrow> bool" where
  "has_value n = (nd_value n \<noteq> None)"

definition is_evictable :: "node \<Rightarrow> bool" where
  "is_evictable n = (nd_ref n = 0 \<and> nd_value n \<noteq> None)"

definition validate_token_logp_consistency :: "node \<Rightarrow> bool" where
  "validate_token_logp_consistency n =
     (case nd_value n of None \<Rightarrow> True
      | Some v \<Rightarrow>
          (nv_tokens v \<noteq> [] \<longrightarrow>
             length (nv_logp v) = length (nv_tokens v) \<and>
             (case nv_mask v of None \<Rightarrow> True | Some m \<Rightarrow> length m = length (nv_tokens v))))"

definition touch :: "node \<Rightarrow> node" where
  "touch n = n\<lparr>nd_access := nd_access n + 1\<rparr>"

definition tokens_of :: "node \<Rightarrow> int list" where
  "tokens_of n = (case nd_value n of None \<Rightarrow> [] | Some v \<Rightarrow> nv_tokens v)"

section \<open>The best child\<close>

fun best_loop :: "string \<Rightarrow> rtree list \<Rightarrow> nat \<Rightarrow> nat option \<Rightarrow> nat \<Rightarrow> nat option" where
  "best_loop str [] i best len = best"
| "best_loop str (c # cs) i best len =
     (if starts_with (nd_key (nd c)) str \<and> len < length (nd_key (nd c))
      then best_loop str cs (Suc i) (Some i) (length (nd_key (nd c)))
      else best_loop str cs (Suc i) best len)"

definition best_child :: "string \<Rightarrow> rtree list \<Rightarrow> nat option" where
  "best_child str cs = best_loop str cs 0 None 0"

lemma best_loop_cases:
  "best_loop str cs i best len = Some j \<Longrightarrow>
     best = Some j \<and> (\<forall>c\<in>set cs. prefix (nd_key (nd c)) str \<longrightarrow> length (nd_key (nd c)) \<le> len) \<or>
     (i \<le> j \<and> j < i + length cs \<and> prefix (nd_key (nd (cs ! (j - i)))) str \<and> len < length (nd_key (nd (cs ! (j - i)))) \<and>
      (\<forall>c\<in>set cs. prefix (nd_key (nd c)) str \<longrightarrow> length (nd_key (nd c)) \<le> length (nd_key (nd (cs ! (j - i))))))"
proof (induction cs arbitrary: i best len)
  case (Cons c cs)
  show ?case
  proof (cases "starts_with (nd_key (nd c)) str \<and> len < length (nd_key (nd c))")
    case True
    then have "best_loop str cs (Suc i) (Some i) (length (nd_key (nd c))) = Some j"
      using Cons.prems by simp
    from Cons.IH [OF this] True show ?thesis
      by (auto simp: starts_with_prefix nth_Cons')
  next
    case False
    then have "best_loop str cs (Suc i) best len = Some j"
      using Cons.prems by (simp split: if_splits)
    from Cons.IH [OF this] False show ?thesis
      by (auto simp: starts_with_prefix nth_Cons')
  qed
qed simp

lemma best_loop_None:
  "best_loop str cs i best len = None \<Longrightarrow>
     best = None \<and> (\<forall>c\<in>set cs. prefix (nd_key (nd c)) str \<longrightarrow> length (nd_key (nd c)) \<le> len)"
  by (induction str cs i best len rule: best_loop.induct) (auto simp: starts_with_prefix split: if_splits)

lemma best_child_Some:
  "best_child str cs = Some i \<Longrightarrow>
     i < length cs \<and> nd_key (nd (cs ! i)) \<noteq> [] \<and> prefix (nd_key (nd (cs ! i))) str \<and>
     (\<forall>c\<in>set cs. prefix (nd_key (nd c)) str \<longrightarrow> length (nd_key (nd c)) \<le> length (nd_key (nd (cs ! i))))"
  unfolding best_child_def by (drule best_loop_cases) auto

lemma best_child_None:
  "best_child str cs = None \<Longrightarrow> c \<in> set cs \<Longrightarrow> prefix (nd_key (nd c)) str \<Longrightarrow> nd_key (nd c) = []"
  unfolding best_child_def by (drule best_loop_None) auto

lemma best_child_decreases:
  "best_child str cs = Some i \<Longrightarrow> length (drop (length (nd_key (nd (cs ! i)))) str) < length str"
  by (drule best_child_Some) (cases str; auto)

section \<open>\<open>find_longest_prefix\<close>\<close>

record match_result =
  mr_prefix :: string
  mr_tokens :: "int list"
  mr_logp :: "real list"
  mr_mask :: "int list"
  mr_remaining :: string
  mr_node :: nat

definition stop_at :: "node \<Rightarrow> string \<Rightarrow> match_result" where
  "stop_at n str =
     \<lparr>mr_prefix = [], mr_tokens = [], mr_logp = [], mr_mask = [], mr_remaining = str, mr_node = nd_id n\<rparr>"

definition stored_mask :: "node_value \<Rightarrow> int list" where
  "stored_mask v = (case nv_mask v of Some m \<Rightarrow> m | None \<Rightarrow> replicate (length (nv_tokens v)) 1)"

definition pass_node :: "node \<Rightarrow> match_result \<Rightarrow> match_result" where
  \<comment> \<open>what the loop has collected when it goes on from this node\<close>
  "pass_node n m =
     (let m1 = m\<lparr>mr_prefix := nd_key n @ mr_prefix m\<rparr>
      in case nd_value n of None \<Rightarrow> m1
         | Some v \<Rightarrow> m1\<lparr>mr_tokens := nv_tokens v @ mr_tokens m, mr_logp := nv_logp v @ mr_logp m,
                        mr_mask := stored_mask v @ mr_mask m\<rparr>)"

function find_walk :: "rtree \<Rightarrow> string \<Rightarrow> rtree \<times> match_result \<times> nat" where
  "find_walk (RNode n cs) str =
     (if str = [] then (RNode n cs, stop_at n str, 0)
      else case best_child str cs of
        None \<Rightarrow> (RNode n cs, stop_at n str, 0)
      | Some i \<Rightarrow>
          (case find_walk (RNode (touch (nd (cs ! i))) (kids (cs ! i)))
                  (drop (length (nd_key (nd (cs ! i)))) str) of
             (c, m, hits) \<Rightarrow>
               (RNode n (cs[i := c]), pass_node (nd (cs ! i)) m,
                hits + (if has_value (nd (cs ! i)) then 1 else 0))))"
  by pat_completeness auto
termination
  by (relation "measure (\<lambda>(t, str). length str)") (auto dest: best_child_decreases)

declare find_walk.simps [simp del]

record trie =
  tr_root :: rtree
  tr_counter :: nat
  tr_max_cache_size :: int
  tr_gc_threshold_k :: int
  tr_tokenizer :: "(string \<Rightarrow> int list) option"
  tr_total_entries :: int
  tr_cache_hits :: nat
  tr_cache_misses :: nat
  tr_cur_cache_size :: int

definition new_root :: "nat \<Rightarrow> rtree" where
  "new_root i = RNode ((new_tree_node i)\<lparr>nd_ref := 1\<rparr>) []"

definition new_trie :: "int \<Rightarrow> int \<Rightarrow> (string \<Rightarrow> int list) option \<Rightarrow> trie" where
  "new_trie max_size k tok =
     \<lparr>tr_root = new_root 0, tr_counter = 1, tr_max_cache_size = max_size, tr_gc_threshold_k = k,
      tr_tokenizer = tok, tr_total_entries = 0, tr_cache_hits = 0, tr_cache_misses = 0, tr_cur_cache_size = 0\<rparr>"

definition find_longest_prefix :: "trie \<Rightarrow> string \<Rightarrow> trie \<times> match_result" where
  "find_longest_prefix tr str =
     (if str = [] then (tr, stop_at (nd (tr_root tr)) str)
      else case find_walk (tr_root tr) str of
        (rt, m, hits) \<Rightarrow>
          (tr\<lparr>tr_root := rt, tr_cache_hits := tr_cache_hits tr + hits,
              tr_cache_misses := tr_cache_misses tr + (if mr_tokens m = [] then 1 else 0)\<rparr>, m))"

section \<open>\<open>insert\<close>\<close>

definition fill_node :: "int list \<Rightarrow> real list \<Rightarrow> int list \<Rightarrow> node \<Rightarrow> node" where
  "fill_node toks logp lmask n =
     (if toks = [] then n
      else touch (n\<lparr>nd_value := Some \<lparr>nv_tokens = toks, nv_logp = logp, nv_mask = Some lmask\<rparr>\<rparr>))"

text \<open>The walk of \<open>_insert\<close>: the new tree, the entries and the tokens it added.\<close>

function insert_walk :: "nat \<Rightarrow> int option \<Rightarrow> rtree \<Rightarrow> string \<Rightarrow> int list \<Rightarrow> real list \<Rightarrow> int list \<Rightarrow>
    rtree \<times> nat \<times> nat" where
  "insert_walk new_id version (RNode n cs) str toks logp lmask =
     (if str = [] then
        (if has_value n then (RNode n cs, 0, 0) else (RNode (fill_node toks logp lmask n) cs, 0, length toks))
      else case best_child str cs of
        None \<Rightarrow>
          (RNode n (cs @ [RNode (fill_node toks logp lmask
             ((new_tree_node new_id)\<lparr>nd_key := str, nd_version := version\<rparr>)) []]), 1, length toks)
      | Some i \<Rightarrow>
          (let c = cs ! i; skip = length (tokens_of (nd c))
           in case insert_walk new_id version c (drop (length (nd_key (nd c))) str)
                     (drop skip toks) (drop skip logp) (drop skip lmask) of
                (c', entries, added) \<Rightarrow> (RNode n (cs[i := c']), entries, added)))"
  by pat_completeness auto
termination
  by (relation "measure (\<lambda>(i, v, t, str, a, b, c). length str)") (auto dest: best_child_decreases)

declare insert_walk.simps [simp del]

definition insert_text :: "trie \<Rightarrow> string \<Rightarrow> int list \<Rightarrow> real list \<Rightarrow> int list \<Rightarrow> int option \<Rightarrow> trie" where
  \<comment> \<open>\<open>_insert\<close>\<close>
  "insert_text tr str toks logp lmask version =
     (case insert_walk (tr_counter tr) version (tr_root tr) str toks logp lmask of
        (rt, entries, added) \<Rightarrow>
          tr\<lparr>tr_root := rt, tr_counter := tr_counter tr + entries,
             tr_total_entries := tr_total_entries tr + int entries,
             tr_cur_cache_size := tr_cur_cache_size tr + int added\<rparr>)"

section \<open>Removal\<close>

fun subtree_sum :: "(node \<Rightarrow> nat) \<Rightarrow> rtree \<Rightarrow> nat" where
  "subtree_sum f (RNode n cs) = f n + sum_list (map (subtree_sum f) cs)"

fun drop_node :: "nat \<Rightarrow> rtree \<Rightarrow> rtree" where
  \<comment> \<open>\<open>node.parent.children.remove(node)\<close>\<close>
  "drop_node i (RNode n cs) = RNode n (map (drop_node i) (filter (\<lambda>c. nd_id (nd c) \<noteq> i) cs))"

definition remove_node_and_descendants :: "rtree \<Rightarrow> trie \<Rightarrow> trie \<times> nat" where
  "remove_node_and_descendants t tr =
     (tr\<lparr>tr_root := drop_node (nd_id (nd t)) (tr_root tr),
         tr_total_entries := tr_total_entries tr - int (subtree_sum (\<lambda>_. 1) t),
         tr_cur_cache_size := tr_cur_cache_size tr - int (subtree_sum (\<lambda>n. length (tokens_of n)) t)\<rparr>,
      subtree_sum (\<lambda>n. if has_value n then 1 else 0) t)"

definition clean_node_subtree :: "rtree \<Rightarrow> trie \<Rightarrow> trie \<times> nat" where
  "clean_node_subtree t tr =
     (if nd_id (nd t) = nd_id (nd (tr_root tr)) then (tr, 0) else remove_node_and_descendants t tr)"

fun below :: "rtree \<Rightarrow> rtree list" where
  \<comment> \<open>all subtrees under a node, depth first\<close>
  "below (RNode n cs) = concat (map (\<lambda>c. c # below c) cs)"

definition find_node_by_text :: "trie \<Rightarrow> string \<Rightarrow> trie \<times> rtree option" where
  "find_node_by_text tr str =
     (case find_longest_prefix tr str of
        (tr', m) \<Rightarrow>
          (tr', if mr_prefix m = str then find (\<lambda>t. nd_id (nd t) = mr_node m) (tr_root tr' # below (tr_root tr'))
                else None))"

definition remove_text :: "trie \<Rightarrow> string \<Rightarrow> trie \<times> bool" where
  \<comment> \<open>\<open>remove\<close>\<close>
  "remove_text tr str =
     (case find_node_by_text tr str of
        (tr', None) \<Rightarrow> (tr', False)
      | (tr', Some t) \<Rightarrow> (case clean_node_subtree t tr' of (tr'', removed) \<Rightarrow> (tr'', 0 < removed)))"

section \<open>Garbage collection by weight version\<close>

definition outdated :: "int \<Rightarrow> node \<Rightarrow> bool" where
  "outdated threshold n =
     ((case nd_version n of None \<Rightarrow> False | Some v \<Rightarrow> v \<le> threshold) \<and> has_value n)"

fun check_node :: "int \<Rightarrow> rtree \<Rightarrow> rtree list" where
  "check_node threshold (RNode n cs) =
     (if outdated threshold n then [RNode n cs] else concat (map (check_node threshold) cs))"

definition find_outdated_nodes :: "int \<Rightarrow> rtree \<Rightarrow> rtree list" where
  "find_outdated_nodes threshold rt = concat (map (check_node threshold) (kids rt))"

definition newer_than :: "int option \<Rightarrow> int option \<Rightarrow> bool" where
  "newer_than a b = (case a of None \<Rightarrow> False | Some v \<Rightarrow> (case b of None \<Rightarrow> False | Some w \<Rightarrow> w < v))"

definition newer_msg :: "int option \<Rightarrow> int option \<Rightarrow> string" where
  "newer_msg a b =
     (case (a, b) of
        (Some v, Some w) \<Rightarrow> ''Child node weight_version '' @ str_int v @ '' > parent weight_version '' @ str_int w
      | _ \<Rightarrow> [])"

fun first_some :: "'a option list \<Rightarrow> 'a option" where
  "first_some [] = None"
| "first_some (None # xs) = first_some xs"
| "first_some (Some x # xs) = Some x"

fun validate_recursive :: "rtree \<Rightarrow> int option \<Rightarrow> string option" where
  \<comment> \<open>the message of the first assertion that fails\<close>
  "validate_recursive (RNode n cs) parent_version =
     (if newer_than (nd_version n) parent_version then Some (newer_msg (nd_version n) parent_version)
      else first_some (map (\<lambda>c. validate_recursive c (nd_version n)) cs))"

definition validate_subtree_weight_versions :: "rtree \<Rightarrow> string option" where
  "validate_subtree_weight_versions t = validate_recursive t (nd_version (nd t))"

fun gc_loop :: "rtree list \<Rightarrow> trie \<Rightarrow> nat \<Rightarrow> trie \<times> (exc + nat)" where
  "gc_loop [] tr removed = (tr, Inr removed)"
| "gc_loop (t # ts) tr removed =
     (case validate_subtree_weight_versions t of
        Some msg \<Rightarrow> (tr, Inl (AssertionError msg))
      | None \<Rightarrow> (case clean_node_subtree t tr of (tr', k) \<Rightarrow> gc_loop ts tr' (removed + k)))"

definition gc_by_weight_version :: "trie \<Rightarrow> int option \<Rightarrow> trie \<times> (exc + nat)" where
  "gc_by_weight_version tr version =
     (case version of None \<Rightarrow> (tr, Inr 0)
      | Some v \<Rightarrow> gc_loop (find_outdated_nodes (v - tr_gc_threshold_k tr) (tr_root tr)) tr 0)"

definition insert_trie :: "trie \<Rightarrow> string \<Rightarrow> int list \<Rightarrow> real list option \<Rightarrow> int list option \<Rightarrow> int option \<Rightarrow>
    trie \<times> (exc + bool)" where
  \<comment> \<open>\<open>insert\<close>\<close>
  "insert_trie tr str toks logp lmask version =
     (if str = [] \<or> toks = [] then (tr, Inr False)
      else if (case logp of None \<Rightarrow> False | Some l \<Rightarrow> length l \<noteq> length toks) then (tr, Inr False)
      else if (case lmask of None \<Rightarrow> False | Some l \<Rightarrow> length l \<noteq> length toks) then (tr, Inr False)
      else
        (let l = (case logp of None \<Rightarrow> replicate (length toks) 0 | Some l \<Rightarrow> l);
             m = (case lmask of None \<Rightarrow> replicate (length toks) 0 | Some m \<Rightarrow> m);
             tr1 = insert_text tr str toks l m version
         in if tr_max_cache_size tr1 < tr_cur_cache_size tr1 \<and> version \<noteq> None
            then (case gc_by_weight_version tr1 version of
                    (tr2, Inl e) \<Rightarrow> (tr2, Inl e)
                  | (tr2, Inr _) \<Rightarrow> (tr2, Inr True))
            else (tr1, Inr True)))"

section \<open>Statistics, \<open>clear\<close> and \<open>retrieve_from_text\<close>\<close>

record trie_stats =
  ts_total_entries :: int
  ts_cache_hits :: nat
  ts_cache_misses :: nat
  ts_hit_rate :: real
  ts_max_cache_size :: int
  ts_cur_cache_size :: int
  ts_gc_threshold_k :: int

definition get_stats :: "trie \<Rightarrow> trie_stats" where
  "get_stats tr =
     \<lparr>ts_total_entries = tr_total_entries tr, ts_cache_hits = tr_cache_hits tr, ts_cache_misses = tr_cache_misses tr,
      ts_hit_rate = (if 0 < tr_cache_hits tr + tr_cache_misses tr
        then real (tr_cache_hits tr) / real (tr_cache_hits tr + tr_cache_misses tr) else 0),
      ts_max_cache_size = tr_max_cache_size tr, ts_cur_cache_size = tr_cur_cache_size tr,
      ts_gc_threshold_k = tr_gc_threshold_k tr\<rparr>"

definition clear_trie :: "trie \<Rightarrow> trie" where
  "clear_trie tr =
     tr\<lparr>tr_root := new_root (tr_counter tr), tr_counter := tr_counter tr + 1, tr_total_entries := 0,
        tr_cache_hits := 0, tr_cache_misses := 0, tr_cur_cache_size := 0\<rparr>"

definition empty_input_msg :: string where
  "empty_input_msg = ''Tokenizer or input text can'' @ [CHR 0x27] @ ''t be empty''"

definition retrieve_from_text :: "trie \<Rightarrow> string \<Rightarrow> bool \<Rightarrow> trie \<times> (exc + int list \<times> real list \<times> int list)" where
  "retrieve_from_text tr str return_logprob =
     (case find_longest_prefix tr str of
        (tr1, m) \<Rightarrow>
          (if mr_prefix m \<noteq> [] \<and> mr_tokens m \<noteq> []
           then (case tr_tokenizer tr1 of
                   None \<Rightarrow> (tr1, Inl (TypeError (CHR 0x27 # ''NoneType'' @ [CHR 0x27] @ '' object is not callable'')))
                 | Some tok \<Rightarrow>
                     (let more = tok (mr_remaining m); toks = mr_tokens m @ more
                      in (tr1, Inr (toks,
                           (if return_logprob then mr_logp m @ replicate (length more) 0
                            else replicate (length toks) 0),
                           mr_mask m @ replicate (length more) 0))))
           else (case tr_tokenizer tr1 of
                   None \<Rightarrow> (tr1, Inl (ValueError empty_input_msg))
                 | Some tok \<Rightarrow>
                     (if str = [] then (tr1, Inl (ValueError empty_input_msg))
                      else let toks = tok str
                        in case insert_trie tr1 str toks None None None of
                             (tr2, Inl e) \<Rightarrow> (tr2, Inl e)
                           | (tr2, Inr _) \<Rightarrow>
                               (tr2, Inr (toks, replicate (length toks) 0, replicate (length toks) 0))))))"

end
