(* ===== verification/Radix_Walk.thy ===== *)
theory Radix_Walk
  imports Radix_Trie
begin

text \<open>
  The walks of the string trie: greedy descent finds the longest stored text, because the order of
  siblings never hides one behind another; an insertion stores exactly its text, keeps that order,
  and decides what a later look-up of the text returns.
\<close>

section \<open>Stored texts and the order of siblings\<close>

abbreviation key_of :: "rtree \<Rightarrow> string" where
  "key_of t \<equiv> nd_key (nd t)"

fun texts :: "rtree \<Rightarrow> string list" where
  \<comment> \<open>the texts of all nodes, relative to this one\<close>
  "texts (RNode n cs) = [] # concat (map (\<lambda>c. map ((@) (key_of c)) (texts c)) cs)"

definition texts_via :: "rtree \<Rightarrow> string list" where
  "texts_via c = map ((@) (key_of c)) (texts c)"

lemma texts_RNode: "texts (RNode n cs) = [] # concat (map texts_via cs)"
  by (simp add: texts_via_def [abs_def])

lemma Nil_in_texts [simp]: "[] \<in> set (texts t)"
  by (cases t) simp

lemma in_texts_via: "x \<in> set (texts_via c) \<longleftrightarrow> (\<exists>y\<in>set (texts c). x = key_of c @ y)"
  by (auto simp: texts_via_def)

lemma in_texts_RNode:
  "x \<in> set (texts (RNode n cs)) \<longleftrightarrow> x = [] \<or> (\<exists>i<length cs. x \<in> set (texts_via (cs ! i)))"
  by (auto simp: texts_RNode all_set_conv_all_nth Bex_def simp del: texts.simps) (auto simp: in_set_conv_nth)

fun ordered :: "rtree \<Rightarrow> bool" where
  \<comment> \<open>no text under a later sibling extends the key of an earlier one\<close>
  "ordered (RNode n cs) =
     (list_all (\<lambda>c. key_of c \<noteq> [] \<and> ordered c) cs \<and>
      sorted_wrt (\<lambda>c e. \<forall>x\<in>set (texts_via e). \<not> prefix (key_of c) x) cs)"

lemma ordered_child:
  "ordered (RNode n cs) \<Longrightarrow> i < length cs \<Longrightarrow> ordered (cs ! i) \<and> key_of (cs ! i) \<noteq> []"
  by (auto simp: list_all_length)

lemma ordered_siblings:
  "ordered (RNode n cs) \<Longrightarrow> i < j \<Longrightarrow> j < length cs \<Longrightarrow> x \<in> set (texts_via (cs ! j)) \<Longrightarrow>
     \<not> prefix (key_of (cs ! i)) x"
  by (auto simp: sorted_wrt_iff_nth_less)

lemma ordered_RNode_I:
  assumes "\<And>i. i < length cs \<Longrightarrow> ordered (cs ! i) \<and> key_of (cs ! i) \<noteq> []"
    and "\<And>i j x. i < j \<Longrightarrow> j < length cs \<Longrightarrow> x \<in> set (texts_via (cs ! j)) \<Longrightarrow> \<not> prefix (key_of (cs ! i)) x"
  shows "ordered (RNode n cs)"
  using assms by (auto simp: list_all_length sorted_wrt_iff_nth_less)

lemma key_in_texts_via [simp]: "key_of c \<in> set (texts_via c)"
  by (auto simp: in_texts_via intro: bexI [of _ "[]"])

text \<open>The best child is the one through which the longest stored prefix goes.\<close>

lemma best_child_covers:
  assumes ord: "ordered (RNode n cs)" and best: "best_child str cs = Some i"
    and j: "j < length cs" and x: "x \<in> set (texts_via (cs ! j))" "prefix x str"
  shows "j = i \<or> length x < length (key_of (cs ! i))"
proof (rule ccontr)
  assume no: "\<not> ?thesis"
  note b = best_child_Some [OF best]
  from x(1) have kx: "prefix (key_of (cs ! j)) x" by (auto simp: in_texts_via)
  from kx x(2) have kj: "prefix (key_of (cs ! j)) str" by (rule prefix_order.trans)
  from kj b j have le: "length (key_of (cs ! j)) \<le> length (key_of (cs ! i))" by auto
  from no have "length (key_of (cs ! i)) \<le> length x" by simp
  with b x(2) have ix: "prefix (key_of (cs ! i)) x"
    by (blast intro: prefix_length_prefix)
  from kj b le have ji: "prefix (key_of (cs ! j)) (key_of (cs ! i))"
    by (blast intro: prefix_length_prefix)
  from no have "j < i \<or> i < j" by auto
  then show False
  proof
    assume "i < j"
    from ordered_siblings [OF ord this j x(1)] ix show False ..
  next
    assume "j < i"
    from ordered_siblings [OF ord this _ key_in_texts_via] b ji show False by blast
  qed
qed

section \<open>The walk of a look-up\<close>

function walk_end :: "rtree \<Rightarrow> string \<Rightarrow> rtree" where
  "walk_end (RNode n cs) str =
     (if str = [] then RNode n cs
      else case best_child str cs of None \<Rightarrow> RNode n cs
      | Some i \<Rightarrow> walk_end (cs ! i) (drop (length (key_of (cs ! i))) str))"
  by pat_completeness auto
termination
  by (relation "measure (\<lambda>(t, str). length str)") (auto dest: best_child_decreases)

declare walk_end.simps [simp del]

lemma pass_node_simps [simp]:
  "mr_prefix (pass_node n m) = nd_key n @ mr_prefix m"
  "mr_remaining (pass_node n m) = mr_remaining m"
  "mr_node (pass_node n m) = mr_node m"
  "mr_tokens (pass_node n m) = tokens_of n @ mr_tokens m"
  by (auto simp: pass_node_def Let_def tokens_of_def split: option.splits)

lemma stop_at_simps [simp]:
  "mr_prefix (stop_at n s) = []" "mr_remaining (stop_at n s) = s" "mr_tokens (stop_at n s) = []"
  "mr_logp (stop_at n s) = []" "mr_mask (stop_at n s) = []" "mr_node (stop_at n s) = nd_id n"
  by (simp_all add: stop_at_def)

lemma touch_simps [simp]:
  "nd_key (touch n) = nd_key n" "nd_value (touch n) = nd_value n" "nd_id (touch n) = nd_id n"
  "nd_version (touch n) = nd_version n" "nd_ref (touch n) = nd_ref n"
  "tokens_of (touch n) = tokens_of n" "has_value (touch n) = has_value n"
  by (simp_all add: touch_def tokens_of_def has_value_def)

lemma rtree_touch_simps [simp]:
  "texts (RNode (touch n) cs) = texts (RNode n cs)" "ordered (RNode (touch n) cs) = ordered (RNode n cs)"
  by simp_all

lemma texts_via_kids: "texts (RNode n (kids c)) = texts c"
  by (cases c) simp

lemma ordered_kids: "ordered (RNode n (kids c)) = ordered c"
  by (cases c) simp

lemma find_walk_split: "fst (snd (find_walk t str)) = m \<Longrightarrow> mr_prefix m @ mr_remaining m = str"
proof (induction t str arbitrary: m rule: find_walk.induct)
  case (1 n cs str)
  show ?case
  proof (cases "str = [] \<or> best_child str cs = None")
    case True
    with 1 show ?thesis by (auto simp: find_walk.simps [of n cs str])
  next
    case False
    then obtain i where i: "best_child str cs = Some i" and ne: "str \<noteq> []" by auto
    obtain c m' h where f: "find_walk (RNode (touch (nd (cs ! i))) (kids (cs ! i)))
        (drop (length (key_of (cs ! i))) str) = (c, m', h)" by (rule prod_cases3)
    from 1(1) [OF ne i, of m'] f have IH: "mr_prefix m' @ mr_remaining m' = drop (length (key_of (cs ! i))) str"
      by simp
    from i f ne 1(2) have m: "m = pass_node (nd (cs ! i)) m'" by (simp add: find_walk.simps [of n cs str])
    from best_child_Some [OF i] have "key_of (cs ! i) @ drop (length (key_of (cs ! i))) str = str"
      by (auto simp: prefix_def)
    with m IH show ?thesis by simp
  qed
qed

lemma find_walk_stored:
  "fst (snd (find_walk t str)) = m \<Longrightarrow> mr_prefix m \<in> set (texts t)"
proof (induction t str arbitrary: m rule: find_walk.induct)
  case (1 n cs str)
  show ?case
  proof (cases "str = [] \<or> best_child str cs = None")
    case True
    with 1 show ?thesis by (auto simp: find_walk.simps [of n cs str])
  next
    case False
    then obtain i where i: "best_child str cs = Some i" and ne: "str \<noteq> []" by auto
    obtain c m' h where f: "find_walk (RNode (touch (nd (cs ! i))) (kids (cs ! i)))
        (drop (length (key_of (cs ! i))) str) = (c, m', h)" by (rule prod_cases3)
    from 1(1) [OF ne i, of m'] f have IH: "mr_prefix m' \<in> set (texts (cs ! i))"
      by (simp only: texts_via_kids snd_conv fst_conv)
    from i f ne 1(2) have m: "m = pass_node (nd (cs ! i)) m'" by (simp add: find_walk.simps [of n cs str])
    from IH m best_child_Some [OF i] show ?thesis
      unfolding in_texts_RNode by (auto simp: in_texts_via)
  qed
qed

lemma find_walk_longest:
  "fst (snd (find_walk t str)) = m \<Longrightarrow> ordered t \<Longrightarrow> x \<in> set (texts t) \<Longrightarrow> prefix x str \<Longrightarrow>
     length x \<le> length (mr_prefix m)"
proof (induction t str arbitrary: m x rule: find_walk.induct)
  case (1 n cs str)
  show ?case
  proof (cases "x = []")
    case False
    with 1(4) obtain j where j: "j < length cs" "x \<in> set (texts_via (cs ! j))"
      unfolding in_texts_RNode by auto
    from False 1(5) have ne: "str \<noteq> []" by auto
    from j 1(5) have kj: "prefix (key_of (cs ! j)) str"
      by (auto simp: in_texts_via dest: append_prefixD)
    have "best_child str cs \<noteq> None"
    proof
      assume "best_child str cs = None"
      from best_child_None [OF this nth_mem kj] j ordered_child [OF 1(3)] show False by blast
    qed
    then obtain i where i: "best_child str cs = Some i" by blast
    obtain c m' h where f: "find_walk (RNode (touch (nd (cs ! i))) (kids (cs ! i)))
        (drop (length (key_of (cs ! i))) str) = (c, m', h)" by (rule prod_cases3)
    from i f ne 1(2) have m: "m = pass_node (nd (cs ! i)) m'" by (simp add: find_walk.simps [of n cs str])
    from best_child_covers [OF 1(3) i j(1) j(2) 1(5)] show ?thesis
    proof
      assume ji: "j = i"
      with j obtain y where y: "y \<in> set (texts (cs ! i))" "x = key_of (cs ! i) @ y" by (auto simp: in_texts_via)
      with 1(5) have py: "prefix y (drop (length (key_of (cs ! i))) str)" by (auto simp: prefix_def)
      have "ordered (RNode (touch (nd (cs ! i))) (kids (cs ! i)))"
        using ordered_child [OF 1(3), of i] best_child_Some [OF i] by (simp only: ordered_kids)
      moreover have "y \<in> set (texts (RNode (touch (nd (cs ! i))) (kids (cs ! i))))"
        using y(1) by (simp only: texts_via_kids)
      ultimately have "length y \<le> length (mr_prefix m')"
        using 1(1) [OF ne i, of m' y] f py by simp
      with y m show ?thesis by simp
    next
      assume "length x < length (key_of (cs ! i))"
      with m show ?thesis by simp
    qed
  qed simp
qed

section \<open>The walk of an insertion\<close>

lemma fill_node_simps [simp]:
  "nd_key (fill_node toks lp lm n) = nd_key n" "nd_id (fill_node toks lp lm n) = nd_id n"
  "nd_version (fill_node toks lp lm n) = nd_version n"
  "tokens_of (fill_node toks lp lm n) = (if toks = [] then tokens_of n else toks)"
  "has_value (fill_node toks lp lm n) = (has_value n \<or> toks \<noteq> [])"
  by (simp_all add: fill_node_def touch_def tokens_of_def has_value_def)

lemma new_tree_node_simps [simp]:
  "nd_id (new_tree_node i) = i" "nd_key (new_tree_node i) = []" "nd_value (new_tree_node i) = None"
  "nd_version (new_tree_node i) = None"
  by (simp_all add: new_tree_node_def)

lemma insert_walk_None:
  "str \<noteq> [] \<Longrightarrow> best_child str cs = None \<Longrightarrow>
     insert_walk i v (RNode n cs) str toks lp lm =
       (RNode n (cs @ [RNode (fill_node toks lp lm ((new_tree_node i)\<lparr>nd_key := str, nd_version := v\<rparr>)) []]), 1, length toks)"
  by (simp add: insert_walk.simps [of i v n cs])

lemma insert_walk_Some:
  "str \<noteq> [] \<Longrightarrow> best_child str cs = Some j \<Longrightarrow>
     insert_walk i v (cs ! j) (drop (length (key_of (cs ! j))) str) (drop (length (tokens_of (nd (cs ! j)))) toks)
       (drop (length (tokens_of (nd (cs ! j)))) lp) (drop (length (tokens_of (nd (cs ! j)))) lm) = (c, e, a) \<Longrightarrow>
     insert_walk i v (RNode n cs) str toks lp lm = (RNode n (cs[j := c]), e, a)"
  by (simp add: insert_walk.simps [of i v n cs] Let_def)

lemma insert_walk_Nil:
  "insert_walk i v (RNode n cs) [] toks lp lm =
     (if has_value n then (RNode n cs, 0, 0) else (RNode (fill_node toks lp lm n) cs, 0, length toks))"
  by (simp add: insert_walk.simps [of i v n cs])

text \<open>Cases of a walk over a tree, shared by every induction over \<open>insert_walk\<close>.\<close>

lemma insert_walk_rule [case_names Nil Leaf Descend]:
  assumes nil: "\<And>n cs toks lp lm. P (RNode n cs) [] toks lp lm
      (if has_value n then (RNode n cs, 0, 0) else (RNode (fill_node toks lp lm n) cs, 0, length toks))"
    and leaf: "\<And>n cs str toks lp lm. str \<noteq> [] \<Longrightarrow> best_child str cs = None \<Longrightarrow>
      P (RNode n cs) str toks lp lm
        (RNode n (cs @ [RNode (fill_node toks lp lm ((new_tree_node i)\<lparr>nd_key := str, nd_version := v\<rparr>)) []]), 1, length toks)"
    and step: "\<And>n cs str toks lp lm j c e a. str \<noteq> [] \<Longrightarrow> best_child str cs = Some j \<Longrightarrow>
      P (cs ! j) (drop (length (key_of (cs ! j))) str) (drop (length (tokens_of (nd (cs ! j)))) toks)
        (drop (length (tokens_of (nd (cs ! j)))) lp) (drop (length (tokens_of (nd (cs ! j)))) lm) (c, e, a) \<Longrightarrow>
      insert_walk i v (cs ! j) (drop (length (key_of (cs ! j))) str) (drop (length (tokens_of (nd (cs ! j)))) toks)
        (drop (length (tokens_of (nd (cs ! j)))) lp) (drop (length (tokens_of (nd (cs ! j)))) lm) = (c, e, a) \<Longrightarrow>
      P (RNode n cs) str toks lp lm (RNode n (cs[j := c]), e, a)"
  shows "P t str toks lp lm (insert_walk i v t str toks lp lm)"
proof (induction "length str" arbitrary: t str toks lp lm rule: less_induct)
  case less
  obtain n cs where t: "t = RNode n cs" by (cases t)
  show ?case
  proof (cases "str = []")
    case True
    then show ?thesis using nil by (simp add: t insert_walk_Nil)
  next
    case ne: False
    show ?thesis
    proof (cases "best_child str cs")
      case None
      with ne leaf show ?thesis by (simp add: t insert_walk_None)
    next
      case (Some j)
      obtain c e a where w: "insert_walk i v (cs ! j) (drop (length (key_of (cs ! j))) str)
          (drop (length (tokens_of (nd (cs ! j)))) toks) (drop (length (tokens_of (nd (cs ! j)))) lp)
          (drop (length (tokens_of (nd (cs ! j)))) lm) = (c, e, a)" by (rule prod_cases3)
      from less [OF best_child_decreases [OF Some]] w step [OF ne Some] ne Some show ?thesis
        by (metis t insert_walk_Some)
    qed
  qed
qed

lemma insert_walk_key:
  "key_of (fst (insert_walk i v t str toks lp lm)) = key_of t \<and> nd_id (nd (fst (insert_walk i v t str toks lp lm))) = nd_id (nd t)"
  by (rule insert_walk_rule [where P = "\<lambda>t str toks lp lm r. key_of (fst r) = key_of t \<and> nd_id (nd (fst r)) = nd_id (nd t)"]) auto

lemma nth_list_update_cases:
  "i < length cs \<Longrightarrow> cs[i := c] ! j = (if j = i then c else cs ! j)"
  by auto

lemma insert_walk_texts:
  "set (texts (fst (insert_walk i v t str toks lp lm))) = insert str (set (texts t))"
proof (rule insert_walk_rule [where P = "\<lambda>t str toks lp lm r. key_of (fst r) = key_of t \<and> set (texts (fst r)) = insert str (set (texts t))", THEN conjunct2])
  fix n cs toks lp lm
  show "key_of (fst (if has_value n then (RNode n cs, 0, 0) else (RNode (fill_node toks lp lm n) cs, 0, length toks))) = key_of (RNode n cs) \<and>
     set (texts (fst (if has_value n then (RNode n cs, 0, 0) else (RNode (fill_node toks lp lm n) cs, 0, length toks)))) =
      insert [] (set (texts (RNode n cs)))" by auto
next
  fix n :: node and cs and str :: string and toks lp lm j c e a
  assume ne: "str \<noteq> []" and b: "best_child str cs = Some j"
    and IH: "key_of (fst (c, e, a)) = key_of (cs ! j) \<and>
      set (texts (fst (c, e, a))) = insert (drop (length (key_of (cs ! j))) str) (set (texts (cs ! j)))"
  note j = best_child_Some [OF b]
  from j have str: "str = key_of (cs ! j) @ drop (length (key_of (cs ! j))) str" by (auto simp: prefix_def)
  from IH str have via: "set (texts_via c) = insert str (set (texts_via (cs ! j)))"
    by (auto simp: in_texts_via)
  have "x \<in> set (texts (RNode n (cs[j := c]))) \<longleftrightarrow> x \<in> insert str (set (texts (RNode n cs)))" for x
  proof -
    have *: "(\<exists>k<length (cs[j := c]). x \<in> set (texts_via (cs[j := c] ! k))) \<longleftrightarrow> x = str \<or> (\<exists>k<length cs. x \<in> set (texts_via (cs ! k)))"
      using j via by (auto simp: nth_list_update_cases)
    show ?thesis unfolding in_texts_RNode insert_iff * by blast
  qed
  then show "key_of (fst (RNode n (cs[j := c]), e, a)) = key_of (RNode n cs) \<and>
      set (texts (fst (RNode n (cs[j := c]), e, a))) = insert str (set (texts (RNode n cs)))" by auto
next
  fix n :: node and cs and str :: string and toks lp lm
  assume "str \<noteq> []"
  show "key_of (fst (RNode n (cs @ [RNode (fill_node toks lp lm ((new_tree_node i)\<lparr>nd_key := str, nd_version := v\<rparr>)) []]), 1, length toks)) = key_of (RNode n cs) \<and>
    set (texts (fst (RNode n (cs @ [RNode (fill_node toks lp lm ((new_tree_node i)\<lparr>nd_key := str, nd_version := v\<rparr>)) []]), 1, length toks))) =
      insert str (set (texts (RNode n cs)))" by auto
qed

lemma insert_walk_ordered: "ordered t \<Longrightarrow> ordered (fst (insert_walk i v t str toks lp lm))"
proof (rule insert_walk_rule [where P = "\<lambda>t str toks lp lm r. ordered t \<longrightarrow> ordered (fst r)", THEN mp])
  fix n cs toks lp lm
  show "ordered (RNode n cs) \<longrightarrow>
    ordered (fst (if has_value n then (RNode n cs, 0::nat, 0::nat) else (RNode (fill_node toks lp lm n) cs, 0, length toks)))"
    by auto
next
  fix n cs and str :: string and toks lp lm
  assume ne: "str \<noteq> []" and b: "best_child str cs = None"
  from best_child_None [OF b] ne
  show "ordered (RNode n cs) \<longrightarrow>
    ordered (fst (RNode n (cs @ [RNode (fill_node toks lp lm ((new_tree_node i)\<lparr>nd_key := str, nd_version := v\<rparr>)) []]), 1::nat, length toks))"
    by (auto simp: sorted_wrt_append texts_via_def list_all_iff)
next
  fix n cs and str :: string and toks lp lm j c e a
  assume ne: "str \<noteq> []" and b: "best_child str cs = Some j"
    and IH: "ordered (cs ! j) \<longrightarrow> ordered (fst (c, e, a))"
    and w: "insert_walk i v (cs ! j) (drop (length (key_of (cs ! j))) str)
        (drop (length (tokens_of (nd (cs ! j)))) toks) (drop (length (tokens_of (nd (cs ! j)))) lp)
        (drop (length (tokens_of (nd (cs ! j)))) lm) = (c, e, a)"
  note j = best_child_Some [OF b]
  have c: "key_of c = key_of (cs ! j)" "set (texts c) = insert (drop (length (key_of (cs ! j))) str) (set (texts (cs ! j)))"
    using insert_walk_key [of i v "cs ! j"] insert_walk_texts [of i v "cs ! j"] w by (metis fst_conv)+
  have via: "set (texts_via c) = insert str (set (texts_via (cs ! j)))"
    using c j by (auto simp: in_texts_via prefix_def)
  show "ordered (RNode n cs) \<longrightarrow> ordered (fst (RNode n (cs[j := c]), e, a))"
  proof
    assume ord: "ordered (RNode n cs)"
    have "ordered (RNode n (cs[j := c]))"
    proof (rule ordered_RNode_I)
      fix k assume "k < length (cs[j := c])"
      then show "ordered (cs[j := c] ! k) \<and> key_of (cs[j := c] ! k) \<noteq> []"
        using ordered_child [OF ord] IH c j by (auto simp: nth_list_update_cases)
    next
      fix k l x
      assume kl: "k < l" "l < length (cs[j := c])" and x: "x \<in> set (texts_via (cs[j := c] ! l))"
      have key: "key_of (cs[j := c] ! k) = key_of (cs ! k)" using c j by (auto simp: nth_list_update_cases)
      show "\<not> prefix (key_of (cs[j := c] ! k)) x"
      proof (cases "x \<in> set (texts_via (cs ! l))")
        case True
        with ordered_siblings [OF ord kl(1)] kl(2) key show ?thesis by auto
      next
        case False
        with x via j have l: "l = j" "x = str" by (auto simp: nth_list_update_cases split: if_splits)
        show ?thesis
        proof
          assume "prefix (key_of (cs[j := c] ! k)) x"
          with key l have p: "prefix (key_of (cs ! k)) str" by simp
          with j kl l have "length (key_of (cs ! k)) \<le> length (key_of (cs ! j))" by auto
          with p j have "prefix (key_of (cs ! k)) (key_of (cs ! j))" by (blast intro: prefix_length_prefix)
          with ordered_siblings [OF ord kl(1) _ key_in_texts_via] kl l show False by auto
        qed
      qed
    qed
    then show "ordered (fst (RNode n (cs[j := c]), e, a))" by simp
  qed
qed

section \<open>What a look-up finds after an insertion\<close>

abbreviation lookup :: "rtree \<Rightarrow> string \<Rightarrow> match_result" where
  "lookup t str \<equiv> fst (snd (find_walk t str))"

definition logp_of :: "node \<Rightarrow> real list" where
  "logp_of n = (case nd_value n of None \<Rightarrow> [] | Some v \<Rightarrow> nv_logp v)"

definition mask_of :: "node \<Rightarrow> int list" where
  "mask_of n = (case nd_value n of None \<Rightarrow> [] | Some v \<Rightarrow> stored_mask v)"

lemma pass_node_more [simp]:
  "mr_logp (pass_node n m) = logp_of n @ mr_logp m" "mr_mask (pass_node n m) = mask_of n @ mr_mask m"
  by (auto simp: pass_node_def Let_def logp_of_def mask_of_def split: option.splits)

lemma logp_mask_simps [simp]:
  "logp_of (touch n) = logp_of n" "mask_of (touch n) = mask_of n"
  "logp_of (fill_node toks lp lm n) = (if toks = [] then logp_of n else lp)"
  "mask_of (fill_node toks lp lm n) = (if toks = [] then mask_of n else lm)"
  by (auto simp: fill_node_def touch_def logp_of_def mask_of_def stored_mask_def)

lemma has_value_of: "\<not> has_value n \<Longrightarrow> tokens_of n = [] \<and> logp_of n = [] \<and> mask_of n = []"
  by (simp add: has_value_def tokens_of_def logp_of_def mask_of_def)

lemma lookup_Nil [simp]: "lookup t [] = stop_at (nd t) []"
  by (cases t) (simp add: find_walk.simps [of _ _ "[]"])

lemma lookup_None: "best_child str cs = None \<Longrightarrow> lookup (RNode n cs) str = stop_at n str"
  by (simp add: find_walk.simps [of n cs str])

lemma lookup_touch: "snd (find_walk (RNode (touch n) cs) str) = snd (find_walk (RNode n cs) str)"
  unfolding find_walk.simps [of "touch n" cs str] find_walk.simps [of n cs str]
  by (auto simp: stop_at_def split: option.splits prod.splits)

lemma lookup_touch_kids [simp]:
  "lookup (RNode (touch (nd c)) (kids c)) str = lookup c str"
  by (cases c) (simp add: lookup_touch)

lemma lookup_Some:
  "str \<noteq> [] \<Longrightarrow> best_child str cs = Some i \<Longrightarrow>
     lookup (RNode n cs) str = pass_node (nd (cs ! i)) (lookup (cs ! i) (drop (length (key_of (cs ! i))) str))"
  using lookup_touch_kids [of "cs ! i" "drop (length (key_of (cs ! i))) str"]
  by (auto simp: find_walk.simps [of n cs str] split: prod.splits simp del: lookup_touch_kids)

lemma walk_end_simps:
  "walk_end t [] = t"
  "best_child str cs = None \<Longrightarrow> walk_end (RNode n cs) str = RNode n cs"
  "str \<noteq> [] \<Longrightarrow> best_child str cs = Some i \<Longrightarrow>
     walk_end (RNode n cs) str = walk_end (cs ! i) (drop (length (key_of (cs ! i))) str)"
  by (cases t; simp add: walk_end.simps [of _ _ "[]"])
    (simp_all add: walk_end.simps [of n cs str])

lemma best_loop_cong: "map key_of cs = map key_of ds \<Longrightarrow> best_loop str cs i b l = best_loop str ds i b l"
proof (induction cs arbitrary: ds i b l)
  case (Cons c cs)
  then obtain d ds' where ds: "ds = d # ds'" "key_of d = key_of c" "map key_of cs = map key_of ds'"
    by (cases ds) auto
  have "best_loop str cs i' b' l' = best_loop str ds' i' b' l'" for i' b' l'
    by (rule Cons.IH) (rule ds(3))
  then show ?case by (simp add: ds)
qed simp

lemma best_child_cong: "map key_of cs = map key_of ds \<Longrightarrow> best_child str cs = best_child str ds"
  unfolding best_child_def by (rule best_loop_cong)

lemma nth_list_update_any: "i < length cs \<Longrightarrow> cs[j := c] ! i = (if i = j then c else cs ! i)"
  by auto

lemma best_child_update:
  "key_of c = key_of (cs ! j) \<Longrightarrow> best_child str (cs[j := c]) = best_child str cs"
  by (rule best_child_cong) (rule nth_equalityI; auto simp: nth_list_update_any)

lemma best_child_new:
  assumes "best_child str cs = None" "str \<noteq> []" "key_of c = str"
  shows "best_child str (cs @ [c]) = Some (length cs)"
proof (cases "best_child str (cs @ [c])")
  case None
  from best_child_None [OF None, of c] assms show ?thesis by simp
next
  case (Some k)
  note k = best_child_Some [OF Some]
  have "\<not> k < length cs"
  proof
    assume kl: "k < length cs"
    with k have "prefix (key_of (cs ! k)) str" "key_of (cs ! k) \<noteq> []" by (auto simp: nth_append)
    with best_child_None [OF assms(1) nth_mem [OF kl]] show False by blast
  qed
  with k Some show ?thesis by auto
qed

definition exact :: "rtree \<Rightarrow> string \<Rightarrow> bool" where
  \<comment> \<open>the text has a node with tokens of its own\<close>
  "exact t str = (mr_remaining (lookup t str) = [] \<and> has_value (nd (walk_end t str)))"

definition added_part :: "rtree \<Rightarrow> string \<Rightarrow> 'a list \<Rightarrow> 'a list" where
  "added_part t str xs = (if exact t str then [] else drop (length (mr_tokens (lookup t str))) xs)"

lemma exact_step:
  "str \<noteq> [] \<Longrightarrow> best_child str cs = Some j \<Longrightarrow>
     exact (RNode n cs) str = exact (cs ! j) (drop (length (key_of (cs ! j))) str)"
  by (simp add: exact_def lookup_Some walk_end_simps)

lemma added_step:
  "str \<noteq> [] \<Longrightarrow> best_child str cs = Some j \<Longrightarrow>
     added_part (RNode n cs) str xs =
       added_part (cs ! j) (drop (length (key_of (cs ! j))) str) (drop (length (tokens_of (nd (cs ! j)))) xs)"
  by (simp add: added_part_def exact_step lookup_Some add.commute)

lemma lookup_insert_walk:
  assumes "length lp = length toks" "length lm = length toks"
  shows "(let t' = fst (insert_walk i v t str toks lp lm); m = lookup t str; m' = lookup t' str
     in mr_prefix m' = str \<and> mr_remaining m' = [] \<and>
        tokens_of (nd t') @ mr_tokens m' = tokens_of (nd t) @ mr_tokens m @ added_part t str toks \<and>
        logp_of (nd t') @ mr_logp m' = logp_of (nd t) @ mr_logp m @ added_part t str lp \<and>
        mask_of (nd t') @ mr_mask m' = mask_of (nd t) @ mr_mask m @ added_part t str lm)" (is "?Q t str toks lp lm (insert_walk i v t str toks lp lm)")
proof -
  let ?P = "\<lambda>t str toks (lp :: real list) (lm :: int list) r :: rtree \<times> nat \<times> nat.
     length lp = length toks \<longrightarrow> length lm = length toks \<longrightarrow>
     mr_prefix (lookup (fst r) str) = str \<and> mr_remaining (lookup (fst r) str) = [] \<and>
     key_of (fst r) = key_of t \<and>
     tokens_of (nd (fst r)) @ mr_tokens (lookup (fst r) str) = tokens_of (nd t) @ mr_tokens (lookup t str) @ added_part t str toks \<and>
     logp_of (nd (fst r)) @ mr_logp (lookup (fst r) str) = logp_of (nd t) @ mr_logp (lookup t str) @ added_part t str lp \<and>
     mask_of (nd (fst r)) @ mr_mask (lookup (fst r) str) = mask_of (nd t) @ mr_mask (lookup t str) @ added_part t str lm"
  have "?P t str toks lp lm (insert_walk i v t str toks lp lm)"
  proof (rule insert_walk_rule [where P = ?P])
    fix n cs toks and lp :: "real list" and lm :: "int list"
    show "?P (RNode n cs) [] toks lp lm
      (if has_value n then (RNode n cs, 0, 0) else (RNode (fill_node toks lp lm n) cs, 0, length toks))"
      using has_value_of [of n] by (auto simp: added_part_def exact_def walk_end_simps)
  next
    fix n cs str toks and lp :: "real list" and lm :: "int list"
    assume ne: "str \<noteq> []" and b: "best_child str cs = None"
    show "?P (RNode n cs) str toks lp lm
      (RNode n (cs @ [RNode (fill_node toks lp lm ((new_tree_node i)\<lparr>nd_key := str, nd_version := v\<rparr>)) []]), 1, length toks)"
      using ne b by (simp add: lookup_Some [OF ne best_child_new] lookup_None added_part_def exact_def)
        (simp add: tokens_of_def logp_of_def mask_of_def)
  next
    fix n cs str toks and lp :: "real list" and lm :: "int list" and j c and e a :: nat
    assume ne: "str \<noteq> []" and b: "best_child str cs = Some j"
      and IH: "?P (cs ! j) (drop (length (key_of (cs ! j))) str) (drop (length (tokens_of (nd (cs ! j)))) toks)
        (drop (length (tokens_of (nd (cs ! j)))) lp) (drop (length (tokens_of (nd (cs ! j)))) lm) (c, e, a)"
    note j = best_child_Some [OF b]
    from j have str: "key_of (cs ! j) @ drop (length (key_of (cs ! j))) str = str" by (auto simp: prefix_def)
    show "?P (RNode n cs) str toks lp lm (RNode n (cs[j := c]), e, a)"
    proof (intro impI)
      assume len: "length lp = length toks" "length lm = length toks"
      define s' where "s' = drop (length (key_of (cs ! j))) str"
      define k where "k = length (tokens_of (nd (cs ! j)))"
      have IH': "mr_prefix (lookup c s') = s'" "mr_remaining (lookup c s') = []" "key_of c = key_of (cs ! j)"
        "tokens_of (nd c) @ mr_tokens (lookup c s') = tokens_of (nd (cs ! j)) @ mr_tokens (lookup (cs ! j) s') @ added_part (cs ! j) s' (drop k toks)"
        "logp_of (nd c) @ mr_logp (lookup c s') = logp_of (nd (cs ! j)) @ mr_logp (lookup (cs ! j) s') @ added_part (cs ! j) s' (drop k lp)"
        "mask_of (nd c) @ mr_mask (lookup c s') = mask_of (nd (cs ! j)) @ mr_mask (lookup (cs ! j) s') @ added_part (cs ! j) s' (drop k lm)"
        using IH len unfolding s'_def k_def by simp_all
      have b': "best_child str (cs[j := c]) = Some j" by (simp add: best_child_update b IH'(3))
      have c: "lookup (RNode n (cs[j := c])) str = pass_node (nd c) (lookup c s')"
        "lookup (RNode n cs) str = pass_node (nd (cs ! j)) (lookup (cs ! j) s')"
        using j IH'(3) by (simp_all add: lookup_Some [OF ne b'] lookup_Some [OF ne b] s'_def)
      have add_real: "added_part (RNode n cs) str xs = added_part (cs ! j) s' (drop k xs)" for xs :: "real list"
        by (simp add: added_step [OF ne b] s'_def k_def)
      have add_int: "added_part (RNode n cs) str xs = added_part (cs ! j) s' (drop k xs)" for xs :: "int list"
        by (simp add: added_step [OF ne b] s'_def k_def)
      have key: "key_of (cs ! j) @ s' = str" using str by (simp add: s'_def)
      show "mr_prefix (lookup (fst (RNode n (cs[j := c]), e, a)) str) = str \<and>
        mr_remaining (lookup (fst (RNode n (cs[j := c]), e, a)) str) = [] \<and>
        key_of (fst (RNode n (cs[j := c]), e, a)) = key_of (RNode n cs) \<and>
        tokens_of (nd (fst (RNode n (cs[j := c]), e, a))) @ mr_tokens (lookup (fst (RNode n (cs[j := c]), e, a)) str) =
          tokens_of (nd (RNode n cs)) @ mr_tokens (lookup (RNode n cs) str) @ added_part (RNode n cs) str toks \<and>
        logp_of (nd (fst (RNode n (cs[j := c]), e, a))) @ mr_logp (lookup (fst (RNode n (cs[j := c]), e, a)) str) =
          logp_of (nd (RNode n cs)) @ mr_logp (lookup (RNode n cs) str) @ added_part (RNode n cs) str lp \<and>
        mask_of (nd (fst (RNode n (cs[j := c]), e, a))) @ mr_mask (lookup (fst (RNode n (cs[j := c]), e, a)) str) =
          mask_of (nd (RNode n cs)) @ mr_mask (lookup (RNode n cs) str) @ added_part (RNode n cs) str lm"
        unfolding fst_conv c add_int add_real by (simp add: IH' key)
    qed
  qed
  with assms show ?thesis by (simp add: Let_def)
qed

end
