(* ===== verification/Radix_Removal.thy ===== *)
theory Radix_Removal
  imports Radix_Walk
begin

text \<open>
  Nodes of the string trie with their identities, what a look-up leaves alone, and what taking a
  subtree out does to sums, identities, stored texts and the order of siblings.
\<close>

section \<open>Nodes, identities and sums\<close>

fun nodes :: "rtree \<Rightarrow> node list" where
  "nodes (RNode n cs) = n # concat (map nodes cs)"

abbreviation ids :: "rtree \<Rightarrow> nat list" where
  "ids t \<equiv> map nd_id (nodes t)"

lemma split_update:
  "j < length cs \<Longrightarrow> \<exists>xs ys. cs = xs @ cs ! j # ys \<and> (\<forall>c. cs[j := c] = xs @ c # ys)"
  using id_take_nth_drop [of j cs] upd_conv_take_nth_drop [of j cs] by blast

lemma nd_in_nodes [simp]: "nd t \<in> set (nodes t)"
  by (cases t) simp

lemma sum_list_map_concat:
  fixes f :: "'a \<Rightarrow> nat"
  shows "sum_list (map f (concat (map g cs))) = sum_list (map (\<lambda>c. sum_list (map f (g c))) cs)"
  by (induction cs) simp_all

lemma subtree_sum_nodes: "subtree_sum f t = sum_list (map f (nodes t))"
  by (induction t) (simp add: sum_list_map_concat cong: map_cong)

lemma below_in:
  "u \<in> set (below t) \<Longrightarrow> set (nodes u) \<subseteq> set (tl (nodes t)) \<and> set (below u) \<subseteq> set (below t)"
proof (induction t)
  case (RNode n cs)
  from RNode.prems obtain c where c: "c \<in> set cs" "u = c \<or> u \<in> set (below c)" by auto
  from c(2) show ?case
  proof
    assume "u = c"
    with c(1) show ?thesis by auto
  next
    assume u: "u \<in> set (below c)"
    have "set (tl (nodes c)) \<subseteq> set (nodes c)" by (cases "nodes c") auto
    with RNode.IH [OF c(1) u] c(1) show ?thesis by auto
  qed
qed

lemma below_nodes: "u \<in> set (below t) \<Longrightarrow> set (nodes u) \<subseteq> set (nodes t)"
  using below_in [of u t] by (cases "nodes t") auto

subsection \<open>Access counts do not matter\<close>

definition quiet :: "node \<Rightarrow> node" where
  "quiet n = n\<lparr>nd_access := 0\<rparr>"

fun forget :: "rtree \<Rightarrow> rtree" where
  "forget (RNode n cs) = RNode (quiet n) (map forget cs)"

lemma quiet_simps [simp]:
  "nd_key (quiet n) = nd_key n" "nd_value (quiet n) = nd_value n" "nd_id (quiet n) = nd_id n"
  "nd_version (quiet n) = nd_version n" "tokens_of (quiet n) = tokens_of n" "has_value (quiet n) = has_value n"
  "outdated k (quiet n) = outdated k n" "quiet (touch n) = quiet n"
  by (simp_all add: quiet_def tokens_of_def has_value_def outdated_def touch_def)

lemma nd_forget [simp]: "nd (forget t) = quiet (nd t)"
  by (cases t) simp

lemma texts_forget [simp]: "texts (forget t) = texts t"
proof (induction t)
  case (RNode n cs)
  then have "map (\<lambda>c. map ((@) (key_of c)) (texts (forget c))) cs = map (\<lambda>c. map ((@) (key_of c)) (texts c)) cs"
    by simp
  then show ?case by (simp add: o_def cong: map_cong)
qed

lemma texts_via_forget [simp]: "texts_via (forget t) = texts_via t"
  by (simp add: texts_via_def)

lemma ordered_forget [simp]: "ordered (forget t) = ordered t"
  by (induction t) (auto simp: list_all_iff sorted_wrt_map)

lemma nodes_forget: "nodes (forget t) = map quiet (nodes t)"
proof (induction t)
  case (RNode n cs)
  then have "map (nodes \<circ> forget) cs = map (\<lambda>c. map quiet (nodes c)) cs" by simp
  then show ?case by (simp add: map_concat o_def cong: map_cong)
qed

lemma ids_forget [simp]: "ids (forget t) = ids t"
  by (simp add: nodes_forget o_def)

lemma forget_find_walk [simp]: "forget (fst (find_walk t str)) = forget t"
proof (induction t str rule: find_walk.induct)
  case (1 n cs str)
  show ?case
  proof (cases "str = [] \<or> best_child str cs = None")
    case True
    then show ?thesis by (auto simp: find_walk.simps [of n cs str])
  next
    case False
    then obtain i where i: "best_child str cs = Some i" and ne: "str \<noteq> []" by auto
    note i' = best_child_Some [OF i]
    obtain c m h where f: "find_walk (RNode (touch (nd (cs ! i))) (kids (cs ! i)))
        (drop (length (key_of (cs ! i))) str) = (c, m, h)" by (rule prod_cases3)
    from 1 [OF ne i] f have c: "forget c = forget (cs ! i)" by (cases "cs ! i") simp
    from i' have "i < length cs" by simp
    then obtain xs ys where s: "cs = xs @ cs ! i # ys" "\<And>c. cs[i := c] = xs @ c # ys"
      using split_update by metis
    have "map forget (cs[i := c]) = map forget cs"
      by (subst (2) s(1)) (simp add: s(2) c)
    then show ?thesis using i ne f by (simp add: find_walk.simps [of n cs str])
  qed
qed

section \<open>Removal\<close>

lemma drop_node_root [simp]: "nd (drop_node i t) = nd t"
  by (cases t) simp

lemma drop_absent: "i \<notin> set (ids t) \<Longrightarrow> drop_node i t = t"
proof (induction t)
  case (RNode n cs)
  have "nd_id (nd c) \<noteq> i" if "c \<in> set cs" for c
    using that RNode.prems by (auto simp: image_iff) (metis nd_in_nodes)
  then have "filter (\<lambda>c. nd_id (nd c) \<noteq> i) cs = cs" by simp
  moreover have "map (drop_node i) cs = cs"
    by (rule map_idI) (rule RNode.IH, use RNode.prems in auto)
  ultimately show ?case by simp
qed

lemma drop_absent_kids:
  "i \<notin> set (map nd_id (concat (map nodes cs))) \<Longrightarrow> map (drop_node i) (filter (\<lambda>c. nd_id (nd c) \<noteq> i) cs) = cs"
  using drop_absent [of i "RNode \<lparr>nd_id = Suc i, nd_key = [], nd_value = None, nd_access = 0, nd_ref = 0, nd_version = None\<rparr> cs"]
  by simp

text \<open>With distinct identities the node is under exactly one child.\<close>

lemma drop_node_at:
  assumes dist: "distinct (ids (RNode n (xs @ c # ys)))" and i: "i \<in> set (ids c)"
  shows "drop_node i (RNode n (xs @ c # ys)) =
    RNode n (if nd_id (nd c) = i then xs @ ys else xs @ drop_node i c # ys)"
proof -
  from dist have "distinct (map nd_id (concat (map nodes xs)) @ ids c @ map nd_id (concat (map nodes ys)))"
    by simp
  with i have "i \<notin> set (map nd_id (concat (map nodes xs)))" "i \<notin> set (map nd_id (concat (map nodes ys)))"
    unfolding distinct_append set_append by blast+
  from this [THEN drop_absent_kids] show ?thesis by simp
qed

lemma distinct_ids_child: "distinct (ids (RNode n cs)) \<Longrightarrow> c \<in> set cs \<Longrightarrow> distinct (ids c)"
  by (auto simp: in_set_conv_decomp)

lemma below_cases:
  assumes "u \<in> set (below (RNode n cs))"
  obtains xs c ys where "cs = xs @ c # ys" "u = c \<or> u \<in> set (below c)" "nd_id (nd u) \<in> set (ids c)"
proof -
  from assms obtain c where c: "c \<in> set cs" "u = c \<or> u \<in> set (below c)" by auto
  then obtain xs ys where "cs = xs @ c # ys" by (auto simp: in_set_conv_decomp)
  moreover have "nd u \<in> set (nodes c)"
    using c(2) below_nodes [of u c] nd_in_nodes [of u] by blast
  ultimately show ?thesis using c that by auto
qed

lemma below_not_root:
  assumes "distinct (ids t)" "u \<in> set (below t)" shows "nd_id (nd u) \<noteq> nd_id (nd t)"
proof -
  obtain n cs where t: "t = RNode n cs" by (cases t)
  from below_in [OF assms(2)] nd_in_nodes [of u] have "nd u \<in> set (tl (nodes t))" by auto
  then have "nd_id (nd u) \<in> nd_id ` set (tl (nodes t))" by (rule imageI)
  with assms(1) show ?thesis by (auto simp: t simp del: set_concat)
qed

lemma drop_sum:
  "distinct (ids t) \<Longrightarrow> u \<in> set (below t) \<Longrightarrow>
     subtree_sum f (drop_node (nd_id (nd u)) t) + subtree_sum f u = subtree_sum f t"
proof (induction t)
  case (RNode n cs)
  from RNode.prems(2) obtain xs c ys where cs: "cs = xs @ c # ys" and u: "u = c \<or> u \<in> set (below c)"
    and i: "nd_id (nd u) \<in> set (ids c)" by (rule below_cases)
  note at = drop_node_at [OF RNode.prems(1) [unfolded cs] i]
  have d: "distinct (ids c)" using RNode.prems(1) cs by auto
  show ?case
  proof (cases "u = c")
    case True
    then show ?thesis using at by (simp add: cs del: drop_node.simps)
  next
    case False
    with u have b: "u \<in> set (below c)" by simp
    from below_not_root [OF d b] have "nd_id (nd c) \<noteq> nd_id (nd u)" by simp
    moreover from RNode.IH [of c, OF _ d b] cs
    have "subtree_sum f (drop_node (nd_id (nd u)) c) + subtree_sum f u = subtree_sum f c" by simp
    ultimately show ?thesis using at by (simp add: cs del: drop_node.simps)
  qed
qed

lemma drop_nodes_subseq: "subseq (nodes (drop_node i t)) (nodes t)"
proof (induction t)
  case (RNode n cs)
  have "subseq (concat (map nodes (map (drop_node i) (filter P ds)))) (concat (map nodes ds))"
    if "\<And>c. c \<in> set ds \<Longrightarrow> subseq (nodes (drop_node i c)) (nodes c)" for P ds
    using that by (induction ds) (auto intro: list_emb_append_mono subseq_drop_many)
  from this [OF RNode.IH] show ?case by simp
qed

lemma subseq_facts: "subseq xs ys \<Longrightarrow> set xs \<subseteq> set ys \<and> (distinct ys \<longrightarrow> distinct xs)"
  by (induction rule: list_emb.induct) auto

lemma drop_nodes_set: "set (nodes (drop_node i t)) \<subseteq> set (nodes t)"
  using subseq_facts [OF drop_nodes_subseq] by blast

lemma drop_distinct: "distinct (ids t) \<Longrightarrow> distinct (ids (drop_node i t))"
  using subseq_facts [OF subseq_map [OF drop_nodes_subseq]] by blast

lemma drop_texts: "set (texts (drop_node i t)) \<subseteq> set (texts t)"
proof (induction t)
  case (RNode n cs)
  then show ?case by auto
qed

lemma drop_texts_via: "set (texts_via (drop_node i t)) \<subseteq> set (texts_via t)"
  using drop_texts [of i t] by (auto simp: texts_via_def)

lemma drop_ordered: "ordered t \<Longrightarrow> ordered (drop_node i t)"
proof (induction t)
  case (RNode n cs)
  have "sorted_wrt (\<lambda>c e. \<forall>x\<in>set (texts_via e). \<not> prefix (key_of c) x) (map (drop_node i) (filter P cs))" for P
  proof -
    have s: "sorted_wrt (\<lambda>c e. \<forall>x\<in>set (texts_via e). \<not> prefix (key_of c) x) (filter P cs)"
      using RNode.prems by (simp add: sorted_wrt_filter)
    show ?thesis
      unfolding sorted_wrt_map by (rule sorted_wrt_mono_rel [OF _ s]) (use drop_texts_via in fastforce)
  qed
  then show ?case using RNode by (auto simp: list_all_iff)
qed

end
