(* ===== verification/Radix_State.thy ===== *)
theory Radix_State
  imports Radix_Removal
begin

text \<open>
  The state of the string trie: its invariant (order of siblings, distinct identities, consistent
  values, exact counters), kept by every operation, and what a garbage collection leaves.
\<close>

section \<open>The state of the trie\<close>

definition value_ok :: "node \<Rightarrow> bool" where
  "value_ok n =
     (case nd_value n of None \<Rightarrow> True
      | Some v \<Rightarrow> nv_tokens v \<noteq> [] \<and> length (nv_logp v) = length (nv_tokens v) \<and>
          (case nv_mask v of None \<Rightarrow> True | Some m \<Rightarrow> length m = length (nv_tokens v)))"

definition tree_size :: "rtree \<Rightarrow> nat" where
  "tree_size t = subtree_sum (\<lambda>n. length (tokens_of n)) t"

definition tree_nodes :: "rtree \<Rightarrow> nat" where
  "tree_nodes t = subtree_sum (\<lambda>_. 1) t"

definition tree_values :: "rtree \<Rightarrow> nat" where
  "tree_values t = subtree_sum (\<lambda>n. if has_value n then 1 else 0) t"

definition trie_ok :: "trie \<Rightarrow> bool" where
  "trie_ok tr =
     (ordered (tr_root tr) \<and> distinct (ids (tr_root tr)) \<and>
      (\<forall>n\<in>set (nodes (tr_root tr)). nd_id n < tr_counter tr \<and> value_ok n) \<and>
      \<not> has_value (nd (tr_root tr)) \<and>
      tr_total_entries tr + 1 = int (tree_nodes (tr_root tr)) \<and>
      tr_cur_cache_size tr = int (tree_size (tr_root tr)))"

lemma trie_okD:
  assumes "trie_ok tr"
  shows "ordered (tr_root tr)" "distinct (ids (tr_root tr))"
    "n \<in> set (nodes (tr_root tr)) \<Longrightarrow> nd_id n < tr_counter tr"
    "n \<in> set (nodes (tr_root tr)) \<Longrightarrow> value_ok n"
    "\<not> has_value (nd (tr_root tr))"
    "tr_total_entries tr + 1 = int (tree_nodes (tr_root tr))"
    "tr_cur_cache_size tr = int (tree_size (tr_root tr))"
  using assms by (auto simp: trie_ok_def)

lemma value_ok_simps [simp]:
  "value_ok (touch n) = value_ok n" "value_ok (quiet n) = value_ok n"
  by (simp_all add: value_ok_def quiet_def)

lemma value_ok_tokens: "value_ok n \<Longrightarrow> length (logp_of n) = length (tokens_of n) \<and> length (mask_of n) = length (tokens_of n)"
  by (auto simp: value_ok_def tokens_of_def logp_of_def mask_of_def stored_mask_def split: option.splits)

lemma value_ok_consistent: "value_ok n \<Longrightarrow> validate_token_logp_consistency n"
  by (auto simp: value_ok_def validate_token_logp_consistency_def split: option.splits)

text \<open>A look-up changes access counts and statistics only.\<close>

lemma sum_forget:
  fixes f :: "node \<Rightarrow> nat"
  shows "(\<And>n. f (quiet n) = f n) \<Longrightarrow> subtree_sum f (forget t) = subtree_sum f t"
  by (simp add: subtree_sum_nodes nodes_forget o_def)

lemma trie_ok_forget:
  assumes eq: "forget r = forget (tr_root tr)" and ok: "trie_ok tr"
  shows "trie_ok (tr\<lparr>tr_root := r, tr_cache_hits := h, tr_cache_misses := m\<rparr>)"
proof -
  have "ordered r" "distinct (ids r)"
    using trie_okD(1,2) [OF ok] by (metis eq ordered_forget, metis eq ids_forget)
  moreover have "nd_id n < tr_counter tr \<and> value_ok n" if "n \<in> set (nodes r)" for n
  proof -
    from that have "quiet n \<in> set (nodes (forget r))" by (simp add: nodes_forget)
    with eq obtain n' where "n' \<in> set (nodes (tr_root tr))" "quiet n' = quiet n"
      by (auto simp: nodes_forget)
    with trie_okD(3,4) [OF ok] show ?thesis by (metis quiet_simps(3) value_ok_simps(2))
  qed
  moreover have "\<not> has_value (nd r)" using trie_okD(5) [OF ok] by (metis eq nd_forget quiet_simps(6))
  moreover have "tree_nodes r = tree_nodes (tr_root tr)" "tree_size r = tree_size (tr_root tr)"
    unfolding tree_nodes_def tree_size_def
    by (metis (no_types, lifting) eq sum_forget, metis (no_types, lifting) eq sum_forget quiet_simps(5))
  ultimately show ?thesis using trie_okD(6,7) [OF ok] by (simp add: trie_ok_def)
qed

lemma find_longest_prefix_lookup:
  "snd (find_longest_prefix tr str) = lookup (tr_root tr) str"
  by (simp add: find_longest_prefix_def split: prod.splits)

lemma find_longest_prefix_root:
  "forget (tr_root (fst (find_longest_prefix tr str))) = forget (tr_root tr)"
proof -
  obtain r m h where w: "find_walk (tr_root tr) str = (r, m, h)" by (rule prod_cases3)
  with forget_find_walk [of "tr_root tr" str] show ?thesis by (simp add: find_longest_prefix_def)
qed

lemma find_longest_prefix_frame:
  "\<exists>r h m. fst (find_longest_prefix tr str) = tr\<lparr>tr_root := r, tr_cache_hits := h, tr_cache_misses := m\<rparr> \<and>
     forget r = forget (tr_root tr)"
proof (cases "str = []")
  case True
  then have "fst (find_longest_prefix tr str) = tr\<lparr>tr_root := tr_root tr, tr_cache_hits := tr_cache_hits tr, tr_cache_misses := tr_cache_misses tr\<rparr>"
    by (simp add: find_longest_prefix_def)
  then show ?thesis by blast
next
  case False
  obtain r m h where w: "find_walk (tr_root tr) str = (r, m, h)" by (rule prod_cases3)
  with forget_find_walk [of "tr_root tr" str] have "forget r = forget (tr_root tr)" by simp
  then show ?thesis
    using False w
    by (intro exI [of _ r] exI [of _ "tr_cache_hits tr + h"]
        exI [of _ "tr_cache_misses tr + (if mr_tokens m = [] then 1 else 0)"])
      (simp add: find_longest_prefix_def)
qed

lemma find_trie_ok: "trie_ok tr \<Longrightarrow> trie_ok (fst (find_longest_prefix tr str))"
  using find_longest_prefix_frame [of tr str] trie_ok_forget by metis

section \<open>Insertion keeps the state\<close>

lemma nodes_update:
  assumes "j < length cs"
  shows "mset (nodes (RNode n (cs[j := c]))) + mset (nodes (cs ! j)) = mset (nodes (RNode n cs)) + mset (nodes c)"
proof -
  from split_update [OF assms] obtain xs ys where "cs = xs @ cs ! j # ys" "cs[j := c] = xs @ c # ys" by blast
  then have "mset (nodes (RNode n cs)) = add_mset n (mset (concat (map nodes xs)) + mset (nodes (cs ! j)) + mset (concat (map nodes ys)))"
    "mset (nodes (RNode n (cs[j := c]))) = add_mset n (mset (concat (map nodes xs)) + mset (nodes c) + mset (concat (map nodes ys)))"
    by (metis (no_types, lifting) nodes.simps concat_append map_append mset.simps(2) mset_append union_assoc concat.simps(2) list.map(2))+
  then show ?thesis by simp
qed

text \<open>An insertion fills one node that was empty, or adds one, or changes nothing.\<close>

definition inserted :: "nat \<Rightarrow> rtree \<Rightarrow> rtree \<Rightarrow> nat \<Rightarrow> nat \<Rightarrow> bool" where
  "inserted i t t' e a \<longleftrightarrow>
     (e = 0 \<and> a = 0 \<and> mset (nodes t') = mset (nodes t)) \<or>
     (\<exists>toks lp lm. length lp = length toks \<and> length lm = length toks \<and> a = length toks \<and>
        ((e = 0 \<and> (\<exists>n\<in>set (nodes t). \<not> has_value n \<and>
            mset (nodes t') + {#n#} = mset (nodes t) + {#fill_node toks lp lm n#})) \<or>
         (e = 1 \<and> (\<exists>s v. mset (nodes t') =
            mset (nodes t) + {#fill_node toks lp lm ((new_tree_node i)\<lparr>nd_key := s, nd_version := v\<rparr>)#}))))"

lemma mset_exchange:
  fixes A :: "'a multiset"
  assumes "A + B = C + D" "D + X = B + Y" shows "A + X = C + Y"
proof (rule multiset_eqI)
  fix x
  have "count (A + B) x = count (C + D) x" "count (D + X) x = count (B + Y) x" using assms by simp_all
  then show "count (A + X) x = count (C + Y) x" by simp
qed

lemma inserted_leaf:
  "length lp = length toks \<Longrightarrow> length lm = length toks \<Longrightarrow>
     mset (nodes t') = mset (nodes t) + {#fill_node toks lp lm ((new_tree_node i)\<lparr>nd_key := s, nd_version := v\<rparr>)#} \<Longrightarrow>
     inserted i t t' 1 (length toks)"
  unfolding inserted_def by blast

lemma inserted_update:
  assumes ins: "inserted i (cs ! j) c e a" and j: "j < length cs"
  shows "inserted i (RNode n cs) (RNode n (cs[j := c])) e a"
proof -
  have up: "mset (nodes (RNode n (cs[j := c]))) + mset (nodes (cs ! j)) = mset (nodes (RNode n cs)) + mset (nodes c)"
    by (rule nodes_update [OF j])
  have sub: "m \<in> set (nodes (RNode n cs))" if "m \<in> set (nodes (cs ! j))" for m
    using that j by auto
  from ins consider
      "e = 0" "a = 0" "mset (nodes c) = mset (nodes (cs ! j))"
    | toks lp lm m where "length lp = length toks" "length lm = length toks" "a = length toks" "e = 0"
        "m \<in> set (nodes (cs ! j))" "\<not> has_value m"
        "mset (nodes c) + {#m#} = mset (nodes (cs ! j)) + {#fill_node toks lp lm m#}"
    | toks lp lm s v where "length lp = length toks" "length lm = length toks" "a = length toks" "e = 1"
        "mset (nodes c) = mset (nodes (cs ! j)) + {#fill_node toks lp lm ((new_tree_node i)\<lparr>nd_key := s, nd_version := v\<rparr>)#}"
    unfolding inserted_def by blast
  then show ?thesis
  proof cases
    case 1
    with up show ?thesis unfolding inserted_def by simp
  next
    case 2
    from up 2(7) have "mset (nodes (RNode n (cs[j := c]))) + {#m#} = mset (nodes (RNode n cs)) + {#fill_node toks lp lm m#}"
      by (rule mset_exchange)
    with 2 sub show ?thesis unfolding inserted_def by blast
  next
    case 3
    from up have "mset (nodes (RNode n (cs[j := c]))) =
        mset (nodes (RNode n cs)) + {#fill_node toks lp lm ((new_tree_node i)\<lparr>nd_key := s, nd_version := v\<rparr>)#}"
      by (simp only: 3(5)) (simp only: ac_simps add_left_cancel)
    with 3 show ?thesis unfolding inserted_def by blast
  qed
qed

lemma insert_walk_inserted:
  assumes "length lp = length toks" "length lm = length toks"
  shows "inserted i t (fst (insert_walk i v t str toks lp lm)) (fst (snd (insert_walk i v t str toks lp lm)))
    (snd (snd (insert_walk i v t str toks lp lm)))"
proof -
  let ?P = "\<lambda>t str toks lp lm r. length lp = length toks \<longrightarrow> length lm = length toks \<longrightarrow>
     inserted i t (fst r) (fst (snd r)) (snd (snd r))"
  have "?P t str toks lp lm (insert_walk i v t str toks lp lm)"
  proof (rule insert_walk_rule [where P = ?P])
    fix n cs toks lp lm
    show "?P (RNode n cs) [] toks lp lm
      (if has_value n then (RNode n cs, 0, 0) else (RNode (fill_node toks lp lm n) cs, 0, length toks))"
      by (auto simp: inserted_def)
  next
    fix n cs and str :: string and toks lp lm
    show "?P (RNode n cs) str toks lp lm
      (RNode n (cs @ [RNode (fill_node toks lp lm ((new_tree_node i)\<lparr>nd_key := str, nd_version := v\<rparr>)) []]), 1, length toks)"
      by (auto intro!: inserted_leaf [where s = str and v = v, simplified])
  next
    fix n cs and str :: string and toks lp lm j c and e a :: nat
    assume b: "best_child str cs = Some j"
      and IH: "?P (cs ! j) (drop (length (key_of (cs ! j))) str) (drop (length (tokens_of (nd (cs ! j)))) toks)
        (drop (length (tokens_of (nd (cs ! j)))) lp) (drop (length (tokens_of (nd (cs ! j)))) lm) (c, e, a)"
    from IH best_child_Some [OF b] show "?P (RNode n cs) str toks lp lm (RNode n (cs[j := c]), e, a)"
      by (simp add: inserted_update)
  qed
  with assms show ?thesis by simp
qed

lemma subtree_sum_mset: "subtree_sum f t = sum_mset (image_mset f (mset (nodes t)))"
  by (simp add: subtree_sum_nodes sum_mset_sum_list [symmetric] del: sum_mset_sum_list)

lemma value_ok_fill:
  "length lp = length toks \<Longrightarrow> length lm = length toks \<Longrightarrow> value_ok n \<Longrightarrow> value_ok (fill_node toks lp lm n)"
  by (simp add: fill_node_def value_ok_def touch_def)

lemma inserted_ok:
  assumes ins: "inserted i t t' e a" and dist: "distinct (ids t)"
    and ok: "\<forall>n\<in>set (nodes t). nd_id n < i \<and> value_ok n"
  shows "distinct (ids t') \<and> (\<forall>n\<in>set (nodes t'). nd_id n < i + e \<and> value_ok n) \<and>
    tree_nodes t' = tree_nodes t + e \<and> tree_size t' = tree_size t + a"
proof -
  have new: "value_ok ((new_tree_node i)\<lparr>nd_key := s, nd_version := v\<rparr>)" for s v
    by (simp add: value_ok_def)
  from ins consider
      "e = 0" "a = 0" "mset (nodes t') = mset (nodes t)"
    | toks lp lm m where "length lp = length toks" "length lm = length toks" "a = length toks" "e = 0"
        "m \<in> set (nodes t)" "\<not> has_value m"
        "mset (nodes t') + {#m#} = mset (nodes t) + {#fill_node toks lp lm m#}"
    | toks lp lm s v where "length lp = length toks" "length lm = length toks" "a = length toks" "e = 1"
        "mset (nodes t') = mset (nodes t) + {#fill_node toks lp lm ((new_tree_node i)\<lparr>nd_key := s, nd_version := v\<rparr>)#}"
    unfolding inserted_def by blast
  then show ?thesis
  proof cases
    case 1
    then have "set (nodes t') = set (nodes t)" "mset (ids t') = mset (ids t)"
      by (metis set_mset_mset, metis mset_map)
    with 1 dist ok show ?thesis
      using mset_eq_imp_distinct_iff [of "ids t'" "ids t"] by (auto simp: tree_nodes_def tree_size_def subtree_sum_mset)
  next
    case 2
    have "image_mset nd_id (mset (nodes t') + {#m#}) = image_mset nd_id (mset (nodes t) + {#fill_node toks lp lm m#})"
      by (simp only: 2(7))
    then have "mset (ids t') = mset (ids t)" by simp
    then have d: "distinct (ids t')" using dist mset_eq_imp_distinct_iff by blast
    have "n \<in># mset (nodes t) + {#fill_node toks lp lm m#}" if "n \<in> set (nodes t')" for n
      using that by (simp only: 2(7) [symmetric]) simp
    then have s: "n \<in> set (nodes t) \<or> n = fill_node toks lp lm m" if "n \<in> set (nodes t')" for n
      using that by auto
    have "\<forall>n\<in>set (nodes t'). nd_id n < i + e \<and> value_ok n"
      using s ok 2 value_ok_fill [of lp toks lm m] by fastforce
    moreover have "sum_mset (image_mset f (mset (nodes t'))) + f m =
        sum_mset (image_mset f (mset (nodes t))) + f (fill_node toks lp lm m)" for f :: "node \<Rightarrow> nat"
      using arg_cong [OF 2(7), of "\<lambda>M. sum_mset (image_mset f M)"] by simp
    from this [of "\<lambda>_. 1"] this [of "\<lambda>n. length (tokens_of n)"] has_value_of [OF 2(6)]
    have "tree_nodes t' = tree_nodes t + e \<and> tree_size t' = tree_size t + a"
      using 2(3,4) by (simp add: tree_nodes_def tree_size_def subtree_sum_mset split: if_splits)
    ultimately show ?thesis using d by blast
  next
    case 3
    have "image_mset nd_id (mset (nodes t')) =
        image_mset nd_id (mset (nodes t) + {#fill_node toks lp lm ((new_tree_node i)\<lparr>nd_key := s, nd_version := v\<rparr>)#})"
      by (simp only: 3(5))
    then have "mset (ids t') = mset (i # ids t)" by simp
    moreover have "distinct (i # ids t)" using dist ok by fastforce
    ultimately have d: "distinct (ids t')" using mset_eq_imp_distinct_iff by blast
    have "n \<in># mset (nodes t) + {#fill_node toks lp lm ((new_tree_node i)\<lparr>nd_key := s, nd_version := v\<rparr>)#}"
      if "n \<in> set (nodes t')" for n
      using that by (simp only: 3(5) [symmetric]) simp
    then have n: "n \<in> set (nodes t) \<or> n = fill_node toks lp lm ((new_tree_node i)\<lparr>nd_key := s, nd_version := v\<rparr>)"
      if "n \<in> set (nodes t')" for n using that by auto
    have "\<forall>n\<in>set (nodes t'). nd_id n < i + e \<and> value_ok n"
      using n ok 3 value_ok_fill [OF 3(1,2) new] by fastforce
    moreover have "tree_nodes t' = tree_nodes t + e \<and> tree_size t' = tree_size t + a"
      using 3(3,4) by (simp add: tree_nodes_def tree_size_def subtree_sum_mset 3(5)) (simp add: tokens_of_def)
    ultimately show ?thesis using d by blast
  qed
qed

lemma insert_walk_root:
  "str \<noteq> [] \<Longrightarrow> nd (fst (insert_walk i v t str toks lp lm)) = nd t"
proof -
  have "str \<noteq> [] \<longrightarrow> nd (fst (insert_walk i v t str toks lp lm)) = nd t"
    by (rule insert_walk_rule [where P = "\<lambda>t str toks lp lm r. str \<noteq> [] \<longrightarrow> nd (fst r) = nd t"]) auto
  then show "str \<noteq> [] \<Longrightarrow> ?thesis" by blast
qed

lemma insert_text_ok:
  assumes ok: "trie_ok tr" and ne: "str \<noteq> []" and len: "length lp = length toks" "length lm = length toks"
  shows "trie_ok (insert_text tr str toks lp lm v)"
proof -
  obtain r e a where w: "insert_walk (tr_counter tr) v (tr_root tr) str toks lp lm = (r, e, a)"
    by (rule prod_cases3)
  have ins: "inserted (tr_counter tr) (tr_root tr) r e a"
    using insert_walk_inserted [OF len, of "tr_counter tr" "tr_root tr" v str] w by simp
  have "ordered r"
    using insert_walk_ordered [OF trie_okD(1) [OF ok], of "tr_counter tr" v str toks lp lm] w by simp
  moreover have "nd r = nd (tr_root tr)"
    using insert_walk_root [OF ne, of "tr_counter tr" v "tr_root tr" toks lp lm] w by simp
  moreover note inserted_ok [OF ins trie_okD(2) [OF ok]] trie_okD(3-7) [OF ok]
  ultimately show ?thesis by (simp add: trie_ok_def insert_text_def w)
qed

section \<open>Removal keeps the state\<close>

lemma drop_root_value: "nd (drop_node i t) = nd t"
  by simp

lemma clean_node_subtree_ok:
  assumes ok: "trie_ok tr" and u: "u \<in> set (below (tr_root tr))"
    and res: "clean_node_subtree u tr = (tr', k)"
  shows "trie_ok tr' \<and> tr_root tr' = drop_node (nd_id (nd u)) (tr_root tr) \<and> k = tree_values u \<and>
    tree_values (tr_root tr') + k = tree_values (tr_root tr) \<and> tr_gc_threshold_k tr' = tr_gc_threshold_k tr"
proof -
  note ok' = trie_okD [OF ok]
  note sum = drop_sum [OF ok'(2) u]
  have "nd_id (nd u) \<noteq> nd_id (nd (tr_root tr))" by (rule below_not_root [OF ok'(2) u])
  with res have tr': "tr' = tr\<lparr>tr_root := drop_node (nd_id (nd u)) (tr_root tr),
         tr_total_entries := tr_total_entries tr - int (tree_nodes u),
         tr_cur_cache_size := tr_cur_cache_size tr - int (tree_size u)\<rparr>" and k: "k = tree_values u"
    by (simp_all add: clean_node_subtree_def remove_node_and_descendants_def tree_nodes_def tree_size_def tree_values_def)
  have "tree_nodes (drop_node (nd_id (nd u)) (tr_root tr)) + tree_nodes u = tree_nodes (tr_root tr)"
    "tree_size (drop_node (nd_id (nd u)) (tr_root tr)) + tree_size u = tree_size (tr_root tr)"
    "tree_values (drop_node (nd_id (nd u)) (tr_root tr)) + tree_values u = tree_values (tr_root tr)"
    unfolding tree_nodes_def tree_size_def tree_values_def by (rule sum)+
  moreover have "\<forall>n\<in>set (nodes (drop_node (nd_id (nd u)) (tr_root tr))). nd_id n < tr_counter tr \<and> value_ok n"
    using drop_nodes_set [of "nd_id (nd u)" "tr_root tr"] ok'(3,4) by blast
  ultimately show ?thesis
    using drop_ordered [OF ok'(1)] drop_distinct [OF ok'(2)] ok'(5,6,7)
    by (simp add: trie_ok_def tr' k)
qed

lemma clean_root [simp]: "clean_node_subtree (tr_root tr) tr = (tr, 0)"
  by (simp add: clean_node_subtree_def)

lemma find_node_by_text_in:
  "find_node_by_text tr str = (tr', Some u) \<Longrightarrow>
     tr' = fst (find_longest_prefix tr str) \<and> (u = tr_root tr' \<or> u \<in> set (below (tr_root tr'))) \<and>
     nd_id (nd u) = mr_node (lookup (tr_root tr) str) \<and> mr_prefix (lookup (tr_root tr) str) = str"
  using find_longest_prefix_lookup [of tr str]
  by (auto simp: find_node_by_text_def find_Some_iff split: prod.splits if_splits)

lemma remove_text_ok: "trie_ok tr \<Longrightarrow> trie_ok (fst (remove_text tr str))"
proof (cases "find_node_by_text tr str")
  case (Pair tr' found)
  assume ok: "trie_ok tr"
  have tr': "tr' = fst (find_longest_prefix tr str)"
    using Pair by (simp add: find_node_by_text_def split: prod.splits)
  with ok have ok': "trie_ok tr'" by (simp add: find_trie_ok)
  show ?thesis
  proof (cases found)
    case None
    with ok' Pair show ?thesis by (simp add: remove_text_def)
  next
    case (Some u)
    with Pair find_node_by_text_in have "u = tr_root tr' \<or> u \<in> set (below (tr_root tr'))" by blast
    moreover obtain tr'' k where c: "clean_node_subtree u tr' = (tr'', k)" by (cases "clean_node_subtree u tr'")
    ultimately have "trie_ok tr''" using clean_node_subtree_ok [OF ok' _ c] ok' by auto
    then show ?thesis by (simp add: remove_text_def Pair Some c)
  qed
qed

section \<open>What garbage collection leaves\<close>

fun prune :: "int \<Rightarrow> rtree \<Rightarrow> rtree" where
  \<comment> \<open>the tree without the subtrees of outdated nodes\<close>
  "prune k (RNode n cs) = RNode n (map (prune k) (filter (\<lambda>c. \<not> outdated k (nd c)) cs))"

definition prune_kids :: "int \<Rightarrow> rtree list \<Rightarrow> rtree list" where
  "prune_kids k cs = map (prune k) (filter (\<lambda>c. \<not> outdated k (nd c)) cs)"

lemma prune_kids_simps [simp]:
  "prune_kids k [] = []"
  "prune_kids k (c # cs) = (if outdated k (nd c) then prune_kids k cs else prune k c # prune_kids k cs)"
  by (simp_all add: prune_kids_def)

lemma prune_unfold: "prune k c = RNode (nd c) (prune_kids k (kids c))"
  by (cases c) (simp add: prune_kids_def)

lemma check_unfold:
  "check_node k c = (if outdated k (nd c) then [c] else concat (map (check_node k) (kids c)))"
  by (cases c) simp

lemma drop_unfold:
  "drop_node i c = RNode (nd c) (map (drop_node i) (filter (\<lambda>c. nd_id (nd c) \<noteq> i) (kids c)))"
  by (cases c) simp

lemma check_in: "u \<in> set (check_node k t) \<Longrightarrow> (u = t \<or> u \<in> set (below t)) \<and> outdated k (nd u)"
proof (induction t)
  case (RNode n cs)
  then show ?case by (auto split: if_splits)
qed

lemma check_kids_in:
  "u \<in> set (concat (map (check_node k) cs)) \<Longrightarrow>
     u \<in> set (concat (map (\<lambda>c. c # below c) cs)) \<and> nd_id (nd u) \<in> set (map nd_id (concat (map nodes cs))) \<and> outdated k (nd u)"
proof -
  assume "u \<in> set (concat (map (check_node k) cs))"
  then obtain c where c: "c \<in> set cs" "u \<in> set (check_node k c)" by auto
  from check_in [OF c(2)] below_nodes [of u c] nd_in_nodes [of u] have "nd u \<in> set (nodes c)" by blast
  with c check_in [OF c(2)] show ?thesis by auto
qed

lemma check_none: "check_node k t = [] \<Longrightarrow> n \<in> set (nodes t) \<Longrightarrow> \<not> outdated k n"
  by (induction t) (auto split: if_splits)

lemma prune_none: "check_node k t = [] \<Longrightarrow> prune k t = t"
proof (induction t)
  case (RNode n cs)
  then have c: "check_node k c = []" if "c \<in> set cs" for c using that by (auto split: if_splits)
  then have "\<not> outdated k (nd c)" if "c \<in> set cs" for c using that check_none nd_in_nodes by blast
  then have "filter (\<lambda>c. \<not> outdated k (nd c)) cs = cs" by simp
  then show ?case using RNode.IH c by (simp add: map_idI)
qed

text \<open>Removing the first outdated node leaves exactly the other ones outdated.\<close>

lemma check_tail_list:
  assumes IH: "\<And>c u us. c \<in> set cs \<Longrightarrow> distinct (map nd_id (concat (map nodes (kids c)))) \<Longrightarrow>
      concat (map (check_node k) (kids c)) = u # us \<Longrightarrow>
      (let ds = map (drop_node (nd_id (nd u))) (filter (\<lambda>c. nd_id (nd c) \<noteq> nd_id (nd u)) (kids c))
       in concat (map (check_node k) ds) = us \<and> prune_kids k ds = prune_kids k (kids c))"
    and dist: "distinct (map nd_id (concat (map nodes cs)))"
    and first: "concat (map (check_node k) cs) = u # us"
  shows "let ds = map (drop_node (nd_id (nd u))) (filter (\<lambda>c. nd_id (nd c) \<noteq> nd_id (nd u)) cs)
    in concat (map (check_node k) ds) = us \<and> prune_kids k ds = prune_kids k cs"
  using assms
proof (induction cs)
  case (Cons c cs)
  let ?i = "nd_id (nd u)"
  let ?drop = "\<lambda>cs. map (drop_node ?i) (filter (\<lambda>c. nd_id (nd c) \<noteq> ?i) cs)"
  have d: "distinct (ids c)" "distinct (map nd_id (concat (map nodes cs)))"
    "set (ids c) \<inter> set (map nd_id (concat (map nodes cs))) = {}"
    using Cons.prems(2) unfolding list.map concat.simps map_append distinct_append by blast+
  show ?case
  proof (cases "outdated k (nd c)")
    case True
    with Cons.prems(3) have u: "u = c" and us: "us = concat (map (check_node k) cs)"
      by (simp_all add: check_unfold [of k c])
    have "?i \<in> set (ids c)" unfolding u set_map by (rule imageI) (rule nd_in_nodes)
    with d(3) have "?i \<notin> set (map nd_id (concat (map nodes cs)))" by blast
    then have "?drop cs = cs" by (rule drop_absent_kids)
    with True u us show ?thesis by (simp add: Let_def)
  next
    case no: False
    show ?thesis
    proof (cases "concat (map (check_node k) (kids c))")
      case Nil
      with no Cons.prems(3) have first: "concat (map (check_node k) cs) = u # us" and c: "check_node k c = []"
        by (simp_all add: check_unfold [of k c])
      have "?i \<in> set (map nd_id (concat (map nodes cs)))" using check_kids_in [of u k cs] first by simp
      with d(3) have i: "?i \<notin> set (ids c)" by blast
      then have "nd_id (nd c) \<noteq> ?i" unfolding set_map by (metis imageI nd_in_nodes)
      with drop_absent [OF i] have drop: "?drop (c # cs) = c # ?drop cs" by simp
      have "concat (map (check_node k) (?drop cs)) = us \<and> prune_kids k (?drop cs) = prune_kids k cs"
        using Cons.IH [OF _ d(2) first] Cons.prems(1) unfolding Let_def by (meson list.set_intros(2))
      then show ?thesis unfolding Let_def drop using c no by (simp del: check_node.simps drop_node.simps)
    next
      case (Cons v vs)
      with no Cons.prems(3) have u: "u = v" and us: "us = vs @ concat (map (check_node k) cs)"
        by (simp_all add: check_unfold [of k c])
      obtain n es where c: "c = RNode n es" by (cases c)
      have dk: "distinct (map nd_id (concat (map nodes (kids c))))" "nd_id n \<notin> set (map nd_id (concat (map nodes es)))"
        using d(1) by (simp_all add: c)
      have iv: "?i \<in> set (map nd_id (concat (map nodes es)))"
      proof -
        have "u \<in> set (concat (map (check_node k) (kids c)))" using Cons u by (simp del: set_concat)
        from check_kids_in [OF this] show ?thesis unfolding c rtree.sel by blast
      qed
      then have i: "?i \<in> set (ids c)" "nd_id (nd c) \<noteq> ?i" using dk(2) by (auto simp: c)
      from i(1) d(3) have "?i \<notin> set (map nd_id (concat (map nodes cs)))" by blast
      then have rest: "?drop cs = cs" by (rule drop_absent_kids)
      from Cons.prems(1) [of c, OF _ dk(1), of v vs] Cons u
      have "concat (map (check_node k) (?drop (kids c))) = vs" "prune_kids k (?drop (kids c)) = prune_kids k (kids c)"
        by (simp_all add: Let_def)
      then have "check_node k (drop_node ?i c) = vs" "prune k (drop_node ?i c) = prune k c"
        using no by (simp_all add: drop_unfold [of ?i c] check_unfold prune_unfold)
      with i no us rest show ?thesis by (simp add: Let_def)
    qed
  qed
qed simp

lemma check_tail:
  "distinct (map nd_id (concat (map nodes (kids t)))) \<Longrightarrow> concat (map (check_node k) (kids t)) = u # us \<Longrightarrow>
     (let ds = map (drop_node (nd_id (nd u))) (filter (\<lambda>c. nd_id (nd c) \<noteq> nd_id (nd u)) (kids t))
      in concat (map (check_node k) ds) = us \<and> prune_kids k ds = prune_kids k (kids t))"
proof (induction t arbitrary: u us)
  case (RNode n cs)
  show ?case
    unfolding rtree.sel by (rule check_tail_list [OF RNode.IH]) (use RNode.prems in simp_all)
qed

lemma outdated_tail:
  assumes "distinct (ids t)" "find_outdated_nodes k t = u # us"
  shows "find_outdated_nodes k (drop_node (nd_id (nd u)) t) = us \<and>
    prune k (drop_node (nd_id (nd u)) t) = prune k t \<and> u \<in> set (below t)"
proof -
  obtain n cs where t: "t = RNode n cs" by (cases t)
  from assms(2) have "concat (map (check_node k) cs) = u # us" by (simp add: t find_outdated_nodes_def)
  then have "u \<in> set (concat (map (check_node k) cs))" by (simp del: set_concat)
  from check_kids_in [OF this] have "u \<in> set (below t)" unfolding t below.simps by blast
  with check_tail [of t k u us] assms show ?thesis
    by (simp add: find_outdated_nodes_def t prune_unfold Let_def)
qed

lemma outdated_none:
  "find_outdated_nodes k t = [] \<Longrightarrow> prune k t = t \<and> (\<forall>n\<in>set (tl (nodes t)). \<not> outdated k n)"
proof (cases t)
  case (RNode n cs)
  assume "find_outdated_nodes k t = []"
  then have c: "check_node k c = []" if "c \<in> set cs" for c using that by (simp add: RNode find_outdated_nodes_def)
  then have "\<not> outdated k (nd c)" if "c \<in> set cs" for c using that check_none nd_in_nodes by blast
  with c check_none show ?thesis by (auto simp: RNode map_idI prune_none)
qed

lemma gc_loop_spec:
  assumes "trie_ok tr" "find_outdated_nodes k (tr_root tr) = ts" "gc_loop ts tr j = (tr', res)"
  shows "trie_ok tr' \<and> prune k (tr_root tr') = prune k (tr_root tr) \<and> tr_gc_threshold_k tr' = tr_gc_threshold_k tr \<and>
    (case res of
       Inr m \<Rightarrow> (\<forall>u\<in>set ts. validate_subtree_weight_versions u = None) \<and>
          find_outdated_nodes k (tr_root tr') = [] \<and> m + tree_values (tr_root tr') = j + tree_values (tr_root tr)
     | Inl e \<Rightarrow> \<exists>u\<in>set ts. \<exists>msg. validate_subtree_weight_versions u = Some msg \<and> e = AssertionError msg)"
  using assms
proof (induction ts arbitrary: tr j)
  case (Cons u us)
  note ok = trie_okD [OF Cons.prems(1)]
  note tail = outdated_tail [OF ok(2) Cons.prems(2)]
  show ?case
  proof (cases "validate_subtree_weight_versions u")
    case (Some msg)
    with Cons.prems show ?thesis by auto
  next
    case None
    obtain tr1 n where c: "clean_node_subtree u tr = (tr1, n)" by (cases "clean_node_subtree u tr")
    note c' = clean_node_subtree_ok [OF Cons.prems(1) _ c]
    with tail have t1: "trie_ok tr1" "find_outdated_nodes k (tr_root tr1) = us"
      "prune k (tr_root tr1) = prune k (tr_root tr)" "tree_values (tr_root tr1) + n = tree_values (tr_root tr)"
      "tr_gc_threshold_k tr1 = tr_gc_threshold_k tr" by auto
    from None c Cons.prems(3) have "gc_loop us tr1 (j + n) = (tr', res)" by simp
    from Cons.IH [OF t1(1,2) this] t1 None show ?thesis by (auto split: sum.splits)
  qed
qed (auto split: sum.splits)

lemma gc_by_weight_version_ok: "trie_ok tr \<Longrightarrow> trie_ok (fst (gc_by_weight_version tr v))"
  using gc_loop_spec [of tr]
  by (auto simp: gc_by_weight_version_def split: option.splits) (metis prod.collapse)

lemma insert_trie_ok:
  assumes ok: "trie_ok tr" shows "trie_ok (fst (insert_trie tr str toks lp lm v))"
proof (cases "str = [] \<or> toks = [] \<or> (case lp of None \<Rightarrow> False | Some l \<Rightarrow> length l \<noteq> length toks) \<or>
    (case lm of None \<Rightarrow> False | Some l \<Rightarrow> length l \<noteq> length toks)")
  case True
  then show ?thesis using ok by (auto simp: insert_trie_def)
next
  case False
  define l where "l = (case lp of None \<Rightarrow> replicate (length toks) 0 | Some l \<Rightarrow> l)"
  define m where "m = (case lm of None \<Rightarrow> replicate (length toks) 0 | Some m \<Rightarrow> m)"
  have len: "length l = length toks" "length m = length toks"
    using False by (auto simp: l_def m_def split: option.splits)
  have ok1: "trie_ok (insert_text tr str toks l m v)"
    by (rule insert_text_ok) (use ok False len in auto)
  obtain tr2 r where g: "gc_by_weight_version (insert_text tr str toks l m v) v = (tr2, r)"
    by (cases "gc_by_weight_version (insert_text tr str toks l m v) v")
  with gc_by_weight_version_ok [OF ok1, of v] have "trie_ok tr2" by simp
  moreover have "fst (insert_trie tr str toks lp lm v) \<in> {insert_text tr str toks l m v, tr2}"
    unfolding insert_trie_def l_def [symmetric] m_def [symmetric] using False g
    by (auto simp: Let_def split: sum.splits)
  ultimately show ?thesis using ok1 by auto
qed

lemma new_root_ok: "nodes (new_root i) = [(new_tree_node i)\<lparr>nd_ref := 1\<rparr>]" "ordered (new_root i)" "nd (new_root i) = (new_tree_node i)\<lparr>nd_ref := 1\<rparr>"
  by (simp_all add: new_root_def)

lemma new_trie_ok: "trie_ok (new_trie mx k tok)"
  by (simp add: trie_ok_def new_trie_def new_root_ok tree_nodes_def tree_size_def subtree_sum_nodes)
    (simp add: value_ok_def has_value_def tokens_of_def)

lemma clear_trie_ok: "trie_ok (clear_trie tr)"
  by (simp add: trie_ok_def clear_trie_def new_root_ok tree_nodes_def tree_size_def subtree_sum_nodes)
    (simp add: value_ok_def has_value_def tokens_of_def)

lemma retrieve_from_text_ok: "trie_ok tr \<Longrightarrow> trie_ok (fst (retrieve_from_text tr str b))"
proof -
  assume ok: "trie_ok tr"
  obtain tr1 m where f: "find_longest_prefix tr str = (tr1, m)" by (cases "find_longest_prefix tr str")
  with find_trie_ok [OF ok, of str] have ok1: "trie_ok tr1" by simp
  have ok2: "trie_ok (fst (insert_trie tr1 str toks None None None))" for toks by (rule insert_trie_ok [OF ok1])
  show ?thesis
  proof (cases "tr_tokenizer tr1")
    case None
    with ok1 f show ?thesis by (simp add: retrieve_from_text_def)
  next
    case (Some tok)
    obtain tr2 r where i: "insert_trie tr1 str (tok str) None None None = (tr2, r)"
      by (cases "insert_trie tr1 str (tok str) None None None")
    with ok2 [of "tok str"] have "trie_ok tr2" by simp
    with ok1 f Some i show ?thesis by (cases r) (simp_all add: retrieve_from_text_def Let_def)
  qed
qed

section \<open>Histories of a trie\<close>

datatype trie_op =
    Op_Find string
  | Op_Insert string "int list" "real list option" "int list option" "int option"
  | Op_Remove string
  | Op_Gc "int option"
  | Op_Retrieve string bool
  | Op_Clear

fun apply_op :: "trie_op \<Rightarrow> trie \<Rightarrow> trie" where
  "apply_op (Op_Find s) tr = fst (find_longest_prefix tr s)"
| "apply_op (Op_Insert s toks lp lm v) tr = fst (insert_trie tr s toks lp lm v)"
| "apply_op (Op_Remove s) tr = fst (remove_text tr s)"
| "apply_op (Op_Gc v) tr = fst (gc_by_weight_version tr v)"
| "apply_op (Op_Retrieve s b) tr = fst (retrieve_from_text tr s b)"
| "apply_op Op_Clear tr = clear_trie tr"

definition trie_after :: "int \<Rightarrow> int \<Rightarrow> (string \<Rightarrow> int list) option \<Rightarrow> trie_op list \<Rightarrow> trie" where
  "trie_after mx k tok ops = fold apply_op ops (new_trie mx k tok)"

lemma apply_op_ok: "trie_ok tr \<Longrightarrow> trie_ok (apply_op op tr)"
  by (cases op) (simp_all add: find_trie_ok insert_trie_ok remove_text_ok gc_by_weight_version_ok
    retrieve_from_text_ok clear_trie_ok)

lemma trie_after_ok: "trie_ok (trie_after mx k tok ops)"
proof -
  have "trie_ok (fold apply_op ops tr)" if "trie_ok tr" for tr
    using that by (induction ops arbitrary: tr) (simp_all add: apply_op_ok)
  then show ?thesis by (simp add: trie_after_def new_trie_ok)
qed

end
