(* ===== verification/Radix_Middleware.thy ===== *)
theory Radix_Middleware
  imports Radix_Trie
begin

text \<open>
  \<open>middleware_hub/radix_tree_middleware.py\<close>: the middleware that looks a prompt up in the trie
  before a generate request and stores prompt and answer after it, and the router's
  \<open>/retrieve_from_text\<close> route.  The tokenizer and the rest of the application (\<open>call_next\<close>) are
  parameters; the reply is what the middleware can read of it.
\<close>

section \<open>Replies\<close>

record engine_meta =
  em_finish_type :: "string jfield"
  em_output_token_logprobs :: "(real \<times> int) list option"
  em_weight_version :: "int jfield"

record engine_reply =
  er_text :: "string option"
  er_has_output_ids :: bool
  er_meta_info :: "engine_meta option"

text \<open>
  How a response looks to the middleware: without a body or content it can read, with one that does
  not parse, with a JSON object, or with other JSON.
\<close>

datatype reply_view = No_Body | Parse_Failed | Json_Object engine_reply | Json_Other

fun read_view :: "reply_view \<Rightarrow> engine_reply option \<Rightarrow> engine_reply option" where
  \<comment> \<open>\<open>response_data\<close> after an attempt, \<open>Some\<close> when it is a dictionary\<close>
  "read_view No_Body old = old"
| "read_view Parse_Failed old = None"
| "read_view (Json_Object d) old = Some d"
| "read_view Json_Other old = None"

definition abort_name :: string where
  "abort_name = ''abort''"

definition not_subscriptable :: string where
  "not_subscriptable = CHR 0x27 # ''NoneType'' @ [CHR 0x27] @ '' object is not subscriptable''"

definition reply_finished :: "engine_reply option \<Rightarrow> exc + bool" where
  \<comment> \<open>the test that ends the loop\<close>
  "reply_finished d =
     (case d of None \<Rightarrow> Inr False
      | Some r \<Rightarrow>
          (case er_meta_info r of None \<Rightarrow> Inr False
           | Some m \<Rightarrow>
               (case em_finish_type m of
                  Absent \<Rightarrow> Inr False
                | Null \<Rightarrow> Inl (TypeError not_subscriptable)
                | Val t \<Rightarrow> Inr (t \<noteq> abort_name))))"

section \<open>The attempts\<close>

fun attempt_loop :: "(nat \<Rightarrow> exc + 'r \<times> reply_view) \<Rightarrow> nat \<Rightarrow> nat \<Rightarrow> 'r option \<Rightarrow> engine_reply option \<Rightarrow>
    exc + 'r option \<times> engine_reply option" where
  \<comment> \<open>\<open>left\<close> attempts remain, \<open>n\<close> were made; between them the middleware sleeps 30 seconds\<close>
  "attempt_loop call 0 n resp d = Inr (resp, d)"
| "attempt_loop call (Suc left) n resp d =
     (case call n of
        Inl e \<Rightarrow> Inl e
      | Inr rv \<Rightarrow>
          (let d' = read_view (snd rv) d
           in case reply_finished d' of
                Inl e \<Rightarrow> Inl e
              | Inr fin \<Rightarrow> if fin then Inr (Some (fst rv), d') else attempt_loop call left (Suc n) (Some (fst rv)) d'))"

section \<open>Storing the answer\<close>

definition cache_reply :: "(string \<Rightarrow> int list) \<Rightarrow> trie \<Rightarrow> string \<Rightarrow> int list \<Rightarrow> real list \<Rightarrow> int list \<Rightarrow>
    engine_reply option \<Rightarrow> trie" where
  \<comment> \<open>every exception in here is caught and dropped\<close>
  "cache_reply tok tr input_text input_tokens input_logprobs input_loss_mask d =
     (case d of None \<Rightarrow> tr
      | Some r \<Rightarrow>
          (case er_text r of None \<Rightarrow> tr
           | Some generated \<Rightarrow>
               (if \<not> er_has_output_ids r \<or> input_text @ generated = [] then tr
                else case er_meta_info r of None \<Rightarrow> tr
                | Some m \<Rightarrow>
                    (case em_weight_version m of Absent \<Rightarrow> tr
                     | v \<Rightarrow>
                         (let version = (case v of Val i \<Rightarrow> Some i | _ \<Rightarrow> None)
                          in case em_output_token_logprobs m of
                               Some items \<Rightarrow>
                                 fst (insert_trie tr (input_text @ generated)
                                   (input_tokens @ map snd items)
                                   (Some (input_logprobs @ map fst items))
                                   (Some (input_loss_mask @ replicate (length items) 1)) version)
                             | None \<Rightarrow>
                                 (let ids = tok generated
                                  in fst (insert_trie tr (input_text @ generated) (input_tokens @ ids) None
                                       (Some (input_loss_mask @ replicate (length ids) 1)) version)))))))"

record generate_request =
  gr_path :: string
  gr_text :: "string jfield"
  gr_input_ids :: "int list option"

definition generate_paths :: "string list" where
  "generate_paths = [''/generate'', ''/generate_nonstream'']"

definition request_text :: "(int list \<Rightarrow> string) \<Rightarrow> generate_request \<Rightarrow> string option" where
  "request_text decode q =
     (case gr_text q of
        Val s \<Rightarrow> Some s
      | Null \<Rightarrow> None
      | Absent \<Rightarrow> map_option decode (gr_input_ids q))"

definition dispatch :: "(string \<Rightarrow> int list) \<Rightarrow> (int list \<Rightarrow> string) \<Rightarrow> (int list option \<Rightarrow> nat \<Rightarrow> exc + 'r \<times> reply_view) \<Rightarrow>
    trie \<Rightarrow> generate_request \<Rightarrow> trie \<times> (exc + 'r option)" where
  \<comment> \<open>\<open>call\<close> is \<open>call_next\<close>, given the \<open>input_tokens\<close> added to the request\<close>
  "dispatch tok decode call tr q =
     (let pass = (case call None 0 of Inl e \<Rightarrow> (tr, Inl e) | Inr rv \<Rightarrow> (tr, Inr (Some (fst rv))))
      in if gr_path q \<notin> set generate_paths then pass
         else case request_text decode q of None \<Rightarrow> pass
         | Some input_text \<Rightarrow>
             (if input_text = [] then pass
              else case retrieve_from_text tr input_text True of
                (tr1, Inl e) \<Rightarrow> (tr1, Inl e)
              | (tr1, Inr tlm) \<Rightarrow>
                  (case attempt_loop (call (Some (fst tlm))) 5 0 None None of
                     Inl e \<Rightarrow> (tr1, Inl e)
                   | Inr rd \<Rightarrow>
                       (cache_reply tok tr1 input_text (fst tlm) (fst (snd tlm)) (snd (snd tlm)) (snd rd),
                        Inr (fst rd)))))"

section \<open>The route\<close>

record retrieve_reply =
  rr_tokens :: "int list"
  rr_response :: string
  rr_loss_mask :: "int list"
  rr_token_length :: nat
  rr_loss_mask_length :: nat
  rr_rollout_logp :: "real list"

definition retrieve_route :: "trie \<Rightarrow> string option \<Rightarrow> trie \<times> (exc + retrieve_reply)" where
  \<comment> \<open>\<open>SlimeRouter.retrieve_from_text\<close>\<close>
  "retrieve_route tr body_text =
     (let str = (case body_text of None \<Rightarrow> [] | Some s \<Rightarrow> s)
      in case retrieve_from_text tr str True of
           (tr', Inl e) \<Rightarrow> (tr', Inl e)
         | (tr', Inr (toks, logp, lm)) \<Rightarrow>
             (tr', Inr \<lparr>rr_tokens = toks, rr_response = str, rr_loss_mask = lm, rr_token_length = length toks,
                        rr_loss_mask_length = length lm, rr_rollout_logp = logp\<rparr>))"

section \<open>Cutting a sample\<close>

fun from_first_one :: "int list \<Rightarrow> int list" where
  \<comment> \<open>\<open>mask[mask.index(1):]\<close>, nothing without a \<open>1\<close>\<close>
  "from_first_one [] = []"
| "from_first_one (x # xs) = (if x = 1 then x # xs else from_first_one xs)"

definition get_response_lengths :: "int list list \<Rightarrow> nat list" where
  "get_response_lengths masks = map (\<lambda>m. length (from_first_one m)) masks"

definition py_last :: "nat \<Rightarrow> 'a list \<Rightarrow> 'a list" where
  \<comment> \<open>\<open>xs[-n:]\<close>: the whole list for \<open>n = 0\<close>\<close>
  "py_last n xs = (if n = 0 then xs else drop (length xs - n) xs)"

record cut_sample =
  cs_prompt :: string
  cs_response :: string
  cs_tokens :: "int list"
  cs_loss_mask :: "int list"
  cs_response_length :: nat
  cs_rollout_log_probs :: "real list"

definition postprocess_sample :: "bool \<Rightarrow> (string \<Rightarrow> exc + retrieve_reply) \<Rightarrow> cut_sample \<Rightarrow> string \<Rightarrow> exc + cut_sample" where
  \<comment> \<open>\<open>postprocess_sample_with_radix_tree\<close>; \<open>post\<close> is the call of the route\<close>
  "postprocess_sample partial_rollout post sample output_text =
     (if partial_rollout
      then Inl (AssertionError ''Currently partial rollout is not supported when using slime router'')
      else case post (cs_prompt sample @ output_text) of
        Inl e \<Rightarrow> Inl e
      | Inr r \<Rightarrow>
          (let n = hd (get_response_lengths [rr_loss_mask r])
           in Inr (sample\<lparr>cs_tokens := rr_tokens r, cs_response := cs_response sample @ output_text,
                cs_response_length := n, cs_loss_mask := py_last n (rr_loss_mask r),
                cs_rollout_log_probs := py_last n (rr_rollout_logp r)\<rparr>)))"

end
