(* ===== verification/Radix_Properties.thy ===== *)
theory Radix_Properties
  imports Radix_State Radix_Middleware
begin

text \<open>
  What the string trie promises: look-ups find the longest stored prefix, counters are exact, a
  stored token sequence comes back, and what removal, garbage collection and the middleware do.
\<close>

section \<open>An index of prefixes\<close>

text \<open>
  The contract the middleware relies on: a store of texts in which a look-up finds the longest
  stored prefix of a query, and an insertion adds exactly its text.
\<close>

locale prefix_index =
  fixes valid :: "'s \<Rightarrow> bool"
    and stored :: "'s \<Rightarrow> string set"
    and find_prefix :: "'s \<Rightarrow> string \<Rightarrow> string"
    and add :: "'s \<Rightarrow> string \<Rightarrow> 's"
  assumes found_stored: "find_prefix s q \<in> stored s"
    and found_prefix: "prefix (find_prefix s q) q"
    and found_longest: "valid s \<Longrightarrow> x \<in> stored s \<Longrightarrow> prefix x q \<Longrightarrow> length x \<le> length (find_prefix s q)"
    and add_valid: "valid s \<Longrightarrow> x \<noteq> [] \<Longrightarrow> valid (add s x)"
    and add_stored: "stored (add s x) = insert x (stored s)"
begin

lemma find_stored: "valid s \<Longrightarrow> x \<in> stored s \<Longrightarrow> find_prefix s x = x"
  using found_longest [of s x x] found_prefix [of s x]
  by (metis order_refl prefix_def append_eq_conv_conj take_all)

lemma find_added: "valid s \<Longrightarrow> x \<noteq> [] \<Longrightarrow> find_prefix (add s x) x = x"
  by (rule find_stored) (simp_all add: add_valid add_stored)

lemma find_grows: "valid s \<Longrightarrow> x \<noteq> [] \<Longrightarrow> length (find_prefix s q) \<le> length (find_prefix (add s x) q)"
  by (rule found_longest) (simp_all add: add_valid add_stored found_stored found_prefix)

lemma find_unique:
  "valid s \<Longrightarrow> x \<in> stored s \<Longrightarrow> prefix x q \<Longrightarrow> (\<And>y. y \<in> stored s \<Longrightarrow> prefix y q \<Longrightarrow> length y \<le> length x) \<Longrightarrow>
     find_prefix s q = x"
  using found_longest [of s x q] found_prefix [of s q] found_stored [of s q]
  by (metis le_antisym prefix_length_prefix prefix_order.antisym)

end

definition stored_texts :: "trie \<Rightarrow> string list" where
  "stored_texts tr = texts (tr_root tr)"

interpretation radix: prefix_index
  trie_ok
  "\<lambda>tr. set (stored_texts tr)"
  "\<lambda>tr q. mr_prefix (snd (find_longest_prefix tr q))"
  "\<lambda>tr x. insert_text tr x toks (replicate (length toks) lp) (replicate (length toks) lm) v"
  for toks lp lm v
proof
  fix s q x
  show "mr_prefix (snd (find_longest_prefix s q)) \<in> set (stored_texts s)"
    by (simp add: find_longest_prefix_lookup stored_texts_def find_walk_stored)
  show "prefix (mr_prefix (snd (find_longest_prefix s q))) q"
    by (metis find_longest_prefix_lookup find_walk_split prefixI)
  show "trie_ok s \<Longrightarrow> x \<in> set (stored_texts s) \<Longrightarrow> prefix x q \<Longrightarrow>
      length x \<le> length (mr_prefix (snd (find_longest_prefix s q)))"
    by (simp add: find_longest_prefix_lookup stored_texts_def find_walk_longest trie_okD(1))
  show "trie_ok s \<Longrightarrow> x \<noteq> [] \<Longrightarrow> trie_ok (insert_text s x toks (replicate (length toks) lp) (replicate (length toks) lm) v)"
    by (simp add: insert_text_ok)
  show "set (stored_texts (insert_text s x toks (replicate (length toks) lp) (replicate (length toks) lm) v)) =
      insert x (set (stored_texts s))"
    using insert_walk_texts [of "tr_counter s" v "tr_root s" x toks]
    by (simp add: stored_texts_def insert_text_def split: prod.splits) (metis fst_conv)
qed

section \<open>Look-up and counters\<close>

definition longest_prefix_of :: "string list \<Rightarrow> string \<Rightarrow> string option" where
  \<comment> \<open>the reference: scan all texts\<close>
  "longest_prefix_of xs q = first_max length (filter (\<lambda>x. prefix x q) xs)"

lemma first_max_unique:
  "x \<in> set xs \<Longrightarrow> (\<And>y. y \<in> set xs \<Longrightarrow> f y < f x \<or> y = x) \<Longrightarrow> first_max f xs = Some x"
proof -
  assume x: "x \<in> set xs" and m: "\<And>y. y \<in> set xs \<Longrightarrow> f y < f x \<or> y = x"
  from x have "first_max f xs \<noteq> None" by auto
  then obtain z where z: "first_max f xs = Some z" by blast
  from first_max_Some [OF z] x m show ?thesis using z by (metis leD)
qed

text \<open>C11. In every history of the trie, the descent of \<open>find_longest_prefix\<close> (the longest matching
  child at every node) finds what a scan of all stored texts finds: the longest one that is a prefix
  of the query; the rest of the query is returned as remaining.\<close>

theorem finds_longest_stored_prefix:
  "(let tr = trie_after mx k tok ops; m = snd (find_longest_prefix tr q)
    in longest_prefix_of (stored_texts tr) q = Some (mr_prefix m) \<and> mr_prefix m @ mr_remaining m = q)"
proof -
  define tr where "tr = trie_after mx k tok ops"
  define m where "m = snd (find_longest_prefix tr q)"
  have ok: "trie_ok tr" by (simp add: tr_def trie_after_ok)
  note found = radix.found_stored [of tr q] radix.found_prefix [of tr q]
  have "longest_prefix_of (stored_texts tr) q = Some (mr_prefix m)"
    unfolding longest_prefix_of_def m_def
  proof (rule first_max_unique)
    show "mr_prefix (snd (find_longest_prefix tr q)) \<in> set (filter (\<lambda>x. prefix x q) (stored_texts tr))"
      using found by simp
    fix y assume "y \<in> set (filter (\<lambda>x. prefix x q) (stored_texts tr))"
    then have y: "y \<in> set (stored_texts tr)" "prefix y q" by auto
    from radix.found_longest [OF ok y] y(2) found(2)
    show "length y < length (mr_prefix (snd (find_longest_prefix tr q))) \<or> y = mr_prefix (snd (find_longest_prefix tr q))"
      by (metis le_neq_implies_less prefix_length_prefix prefix_order.antisym order_refl)
  qed
  moreover have "mr_prefix m @ mr_remaining m = q"
    by (simp add: m_def find_longest_prefix_lookup find_walk_split)
  ultimately show ?thesis by (simp add: tr_def m_def Let_def)
qed

text \<open>C13. In every history, garbage collections that raise included, \<open>get_stats\<close> reports the number
  of nodes below the root and the number of tokens they hold, every node's tokens, log-probabilities
  and loss mask agree in length, and no two nodes share an identity.\<close>

theorem trie_counters_exact:
  "(let tr = trie_after mx k tok ops
    in ts_total_entries (get_stats tr) = int (length (nodes (tr_root tr))) - 1 \<and>
       ts_cur_cache_size (get_stats tr) = (\<Sum>n\<leftarrow>nodes (tr_root tr). int (length (tokens_of n))) \<and>
       list_all validate_token_logp_consistency (nodes (tr_root tr)) \<and> distinct (ids (tr_root tr)))"
proof -
  define tr where "tr = trie_after mx k tok ops"
  have ok: "trie_ok tr" by (simp add: tr_def trie_after_ok)
  note ok' = trie_okD [OF ok]
  have "tree_nodes (tr_root tr) = length (nodes (tr_root tr))"
    by (simp add: tree_nodes_def subtree_sum_nodes sum_list_triv)
  moreover have "int (sum_list (map f ns)) = (\<Sum>n\<leftarrow>ns. int (f n))" for f :: "node \<Rightarrow> nat" and ns
    by (induction ns) simp_all
  ultimately have "ts_total_entries (get_stats tr) = int (length (nodes (tr_root tr))) - 1 \<and>
      ts_cur_cache_size (get_stats tr) = (\<Sum>n\<leftarrow>nodes (tr_root tr). int (length (tokens_of n)))"
    using ok'(6,7) by (simp add: get_stats_def tree_size_def subtree_sum_nodes)
  moreover have "list_all validate_token_logp_consistency (nodes (tr_root tr))"
    using ok'(4) value_ok_consistent by (auto simp: list_all_iff)
  ultimately show ?thesis using ok'(2) by (simp add: tr_def Let_def)
qed

section \<open>Tokens come back\<close>

lemma insert_walk_added: "snd (snd (insert_walk i v t str toks lp lm)) \<le> length toks"
  by (rule insert_walk_rule [where P = "\<lambda>t str toks lp lm r. snd (snd r) \<le> length toks"]) auto

lemma insert_text_root: "tr_root (insert_text tr str toks lp lm v) = fst (insert_walk (tr_counter tr) v (tr_root tr) str toks lp lm)"
  by (simp add: insert_text_def split: prod.splits)

lemma insert_text_size:
  "tr_cur_cache_size (insert_text tr str toks lp lm v) \<le> tr_cur_cache_size tr + int (length toks)"
  using insert_walk_added [of "tr_counter tr" v "tr_root tr" str toks lp lm]
  by (cases "insert_walk (tr_counter tr) v (tr_root tr) str toks lp lm") (simp add: insert_text_def)

lemma insert_trie_no_gc:
  assumes "str \<noteq> []" "toks \<noteq> []" "length lp = length toks" "length lm = length toks"
    and room: "v = None \<or> tr_cur_cache_size tr + int (length toks) \<le> tr_max_cache_size tr"
  shows "insert_trie tr str toks (Some lp) (Some lm) v = (insert_text tr str toks lp lm v, Inr True)"
proof -
  have "tr_max_cache_size (insert_text tr str toks lp lm v) = tr_max_cache_size tr"
    by (simp add: insert_text_def split: prod.splits)
  with room insert_text_size [of tr str toks lp lm v] assms show ?thesis
    by (auto simp: insert_trie_def Let_def)
qed

lemma insert_text_lookup:
  fixes tr :: trie and str :: string and toks :: "int list" and v :: "int option"
  assumes ne: "str \<noteq> []" and len: "length lp = length toks" "length lm = length toks"
  defines "m \<equiv> lookup (tr_root tr) str" and "m' \<equiv> lookup (tr_root (insert_text tr str toks lp lm v)) str"
  shows "mr_prefix m' = str \<and> mr_remaining m' = [] \<and>
    mr_tokens m' = mr_tokens m @ added_part (tr_root tr) str toks \<and>
    mr_logp m' = mr_logp m @ added_part (tr_root tr) str lp \<and>
    mr_mask m' = mr_mask m @ added_part (tr_root tr) str lm"
  using lookup_insert_walk [OF len, of "tr_counter tr" v "tr_root tr" str]
    insert_walk_root [OF ne, of "tr_counter tr" v "tr_root tr" toks lp lm]
  by (simp add: m_def m'_def insert_text_root Let_def)




text \<open>The tokens a new text skips are counted, not compared: a text tokenized differently from its
  cached prefix comes back with the prefix's tokens, or with fewer tokens than were stored; and a text that is
  cached keeps its old tokens, although the second insertion reports success.\<close>

theorem retokenized_text_is_mixed:
  "(let tr = trie_after 100 5 None [Op_Insert ''ab'' [5] None None None, Op_Insert ''abc'' [6] None None None]
    in mr_prefix (snd (find_longest_prefix tr ''abc'')) = ''abc'' \<and>
       mr_tokens (snd (find_longest_prefix tr ''abc'')) = [5]) \<and>
   (let r = insert_trie (trie_after 100 5 None [Op_Insert ''ab'' [1] None None None]) ''ab'' [1, 2] None None None
    in snd r = Inr True \<and> mr_tokens (snd (find_longest_prefix (fst r) ''ab'')) = [1])"
  by (rule conjI; code_simp)

section \<open>Garbage collection\<close>

text \<open>In every history, a garbage collection that returns has removed exactly the subtrees whose
  top node has tokens and a weight version at or below the threshold; it returns the number of nodes
  with tokens it took, no outdated node is left, and no removed subtree held a node newer than its
  parent.\<close>

theorem gc_leaves_recent_nodes:
  assumes "tr = trie_after mx k tok ops" "gc_by_weight_version tr (Some v) = (tr', Inr n)"
  shows "tr_root tr' = prune (v - tr_gc_threshold_k tr) (tr_root tr) \<and>
    n + tree_values (tr_root tr') = tree_values (tr_root tr) \<and>
    list_all (\<lambda>n. \<not> outdated (v - tr_gc_threshold_k tr) n) (tl (nodes (tr_root tr'))) \<and>
    list_all (\<lambda>u. validate_subtree_weight_versions u = None) (find_outdated_nodes (v - tr_gc_threshold_k tr) (tr_root tr))"
proof -
  have ok: "trie_ok tr" by (simp add: assms(1) trie_after_ok)
  from assms(2) have "gc_loop (find_outdated_nodes (v - tr_gc_threshold_k tr) (tr_root tr)) tr 0 = (tr', Inr n)"
    by (simp add: gc_by_weight_version_def)
  from gc_loop_spec [OF ok refl this] have s: "prune (v - tr_gc_threshold_k tr) (tr_root tr') = prune (v - tr_gc_threshold_k tr) (tr_root tr)"
    "find_outdated_nodes (v - tr_gc_threshold_k tr) (tr_root tr') = []"
    "n + tree_values (tr_root tr') = tree_values (tr_root tr)"
    "\<forall>u\<in>set (find_outdated_nodes (v - tr_gc_threshold_k tr) (tr_root tr)). validate_subtree_weight_versions u = None"
    by simp_all
  from outdated_none [OF s(2)] s show ?thesis by (simp add: list_all_iff)
qed

definition gc_example :: "trie_op list" where
  "gc_example = [Op_Insert ''a'' [1] None None (Some 1), Op_Insert ''b'' [2] None None (Some 7)]"

lemma gc_leaves_recent_nodes_witness:
  "\<exists>tr'. gc_by_weight_version (trie_after 100 5 None gc_example) (Some 7) = (tr', Inr 1) \<and>
     tr_root tr' = prune 2 (tr_root (trie_after 100 5 None gc_example))"
proof -
  define tr where "tr = trie_after 100 5 None gc_example"
  obtain tr' r where g: "gc_by_weight_version tr (Some 7) = (tr', r)" by (cases "gc_by_weight_version tr (Some 7)")
  have "snd (gc_by_weight_version (trie_after 100 5 None gc_example) (Some 7)) = Inr 1" by code_simp
  with g have r: "r = Inr 1" by (simp add: tr_def)
  have "tr_gc_threshold_k (trie_after 100 5 None gc_example) = 5" by code_simp
  with gc_leaves_recent_nodes [OF tr_def, of 7 tr' 1] g r show ?thesis
    unfolding tr_def by (intro exI [of _ tr']) simp
qed

lemma first_some_None: "first_some xs = None \<Longrightarrow> x \<in> set xs \<Longrightarrow> x = None"
  by (induction xs rule: first_some.induct) auto

lemma validate_newer_child:
  assumes "c \<in> set (kids u)" "newer_than (nd_version (nd c)) (nd_version (nd u))"
  shows "validate_subtree_weight_versions u \<noteq> None"
proof
  assume none: "validate_subtree_weight_versions u = None"
  obtain n cs where u: "u = RNode n cs" by (cases u)
  from none have "first_some (map (\<lambda>c. validate_recursive c (nd_version n)) cs) = None"
    by (simp add: u validate_subtree_weight_versions_def split: if_splits)
  from first_some_None [OF this, of "validate_recursive c (nd_version n)"] assms(1)
  have "validate_recursive c (nd_version n) = None" by (simp add: u)
  with assms(2) show False by (cases c) (simp add: u)
qed

text \<open>A text that extends an outdated one and was stored later has a newer weight version than
  its parent, and then every garbage collection raises an \<open>AssertionError\<close> instead of removing them.\<close>

theorem gc_blocked_by_newer_extension:
  assumes "tr = trie_after mx k tok ops"
    and "u \<in> set (find_outdated_nodes (v - tr_gc_threshold_k tr) (tr_root tr))"
    and "c \<in> set (kids u)" "newer_than (nd_version (nd c)) (nd_version (nd u))"
  shows "\<exists>tr' msg. gc_by_weight_version tr (Some v) = (tr', Inl (AssertionError msg))"
proof -
  have ok: "trie_ok tr" by (simp add: assms(1) trie_after_ok)
  obtain tr' r where g: "gc_by_weight_version tr (Some v) = (tr', r)" by (cases "gc_by_weight_version tr (Some v)")
  then have "gc_loop (find_outdated_nodes (v - tr_gc_threshold_k tr) (tr_root tr)) tr 0 = (tr', r)"
    by (simp add: gc_by_weight_version_def)
  note spec = gc_loop_spec [OF ok refl this]
  from validate_newer_child [OF assms(3,4)] assms(2) spec have "\<exists>e. r = Inl e" by (cases r) auto
  with spec g show ?thesis by auto
qed

definition blocked_example :: "trie_op list" where
  "blocked_example = [Op_Insert ''a'' [1] None None (Some 1), Op_Insert ''ab'' [1, 2] None None (Some 7)]"

lemma gc_blocked_by_newer_extension_witness:
  "\<exists>tr' msg. gc_by_weight_version (trie_after 1 5 None blocked_example) (Some 7) = (tr', Inl (AssertionError msg))"
proof -
  have "let tr = trie_after 1 5 None blocked_example;
      us = find_outdated_nodes (7 - tr_gc_threshold_k tr) (tr_root tr)
    in us \<noteq> [] \<and> kids (hd us) \<noteq> [] \<and> newer_than (nd_version (nd (hd (kids (hd us))))) (nd_version (nd (hd us)))"
    by code_simp
  then show ?thesis
    by (intro gc_blocked_by_newer_extension [OF refl, of
        "hd (find_outdated_nodes (7 - tr_gc_threshold_k (trie_after 1 5 None blocked_example)) (tr_root (trie_after 1 5 None blocked_example)))"
        7 1 5 None blocked_example
        "hd (kids (hd (find_outdated_nodes (7 - tr_gc_threshold_k (trie_after 1 5 None blocked_example)) (tr_root (trie_after 1 5 None blocked_example)))))"])
      (simp_all add: Let_def)
qed

section \<open>Removal\<close>

lemma drop_path:
  "ordered t \<Longrightarrow> distinct (ids t) \<Longrightarrow> str \<noteq> [] \<Longrightarrow> mr_prefix (lookup t str) = str \<Longrightarrow> j = mr_node (lookup t str) \<Longrightarrow>
     j \<in> set (ids t) \<and> j \<noteq> nd_id (nd t) \<and> str \<notin> set (texts (drop_node j t)) \<and>
     (\<forall>x\<in>set (texts t). \<not> prefix str x \<longrightarrow> x \<in> set (texts (drop_node j t)))"
proof (induction "length str" arbitrary: t str rule: less_induct)
  case less
  obtain n cs where t: "t = RNode n cs" by (cases t)
  have "best_child str cs \<noteq> None"
    using less.prems(3,4) by (cases "best_child str cs") (auto simp: t lookup_None)
  then obtain i where i: "best_child str cs = Some i" by blast
  note b = best_child_Some [OF i]
  define c rest where "c = cs ! i" and "rest = drop (length (key_of (cs ! i))) str"
  obtain xs ys where cs: "cs = xs @ c # ys" and len: "length xs = i"
    using b id_take_nth_drop [of i cs] unfolding c_def by (metis length_take min.absorb4)
  have str: "str = key_of c @ rest" using b by (auto simp: prefix_def c_def rest_def)
  have look: "lookup t str = pass_node (nd c) (lookup c rest)"
    by (simp add: t lookup_Some [OF less.prems(3) i] c_def rest_def)
  with less.prems(4) str have pre: "mr_prefix (lookup c rest) = rest" by simp
  have ord: "ordered (RNode n cs)" and dist: "distinct (ids (RNode n (xs @ c # ys)))"
    using less.prems(1,2) by (simp_all add: t cs)
  have others: "str \<notin> set (texts_via e)" if "e \<in> set xs \<or> e \<in> set ys" for e
  proof
    assume e: "str \<in> set (texts_via e)"
    from that obtain l where l: "l < length cs" "l \<noteq> i" "cs ! l = e"
    proof
      assume "e \<in> set xs"
      then obtain l where "l < length xs" "xs ! l = e" by (auto simp: in_set_conv_nth)
      then show thesis using that [of l] len by (simp add: cs nth_append)
    next
      assume "e \<in> set ys"
      then obtain l where "l < length ys" "ys ! l = e" by (auto simp: in_set_conv_nth)
      then show thesis using that [of "Suc (length xs + l)"] len by (simp add: cs nth_append)
    qed
    from best_child_covers [OF ord i l(1), of str] e l have "length str < length (key_of c)" by (simp add: c_def)
    then show False using str by simp
  qed
  have dc: "distinct (ids c)" "nd_id n \<notin> set (ids c)" using dist by auto
  have sub: "set (ids c) \<subseteq> set (ids t)" unfolding t cs by auto
  have oc: "ordered c" using ordered_child [OF ord, of i] b by (simp add: c_def)
  show ?case
  proof (cases "rest = []")
    case True
    then have j: "j = nd_id (nd c)" using less.prems(5) look by simp
    have jc: "j \<in> set (ids c)" unfolding j set_map by (rule imageI) (rule nd_in_nodes)
    have drop: "drop_node j t = RNode n (xs @ ys)" using drop_node_at [OF dist jc] by (simp add: t cs j)
    have "str \<notin> set (texts (drop_node j t))"
      using others less.prems(3) by (auto simp: drop texts_RNode simp del: texts.simps)
    moreover have "x \<in> set (texts (drop_node j t))" if "x \<in> set (texts t)" "\<not> prefix str x" for x
    proof -
      have "x \<notin> set (texts_via c)" using that(2) str True by (auto simp: in_texts_via)
      moreover from that(1) have "x \<in> set (texts (RNode n (xs @ c # ys)))" by (simp only: t cs)
      ultimately show ?thesis unfolding drop by (auto simp: texts_RNode simp del: texts.simps)
    qed
    moreover have "j \<in> set (ids t)" "j \<noteq> nd_id (nd t)" using jc dc(2) sub unfolding t rtree.sel by blast+
    ultimately show ?thesis by blast
  next
    case False
    have lt: "length rest < length str" using b str by (simp add: c_def)
    have j: "j = mr_node (lookup c rest)" using less.prems(5) look by simp
    note IH = less.hyps [OF lt oc dc(1) False pre j]
    then have jc: "j \<in> set (ids c)" "j \<noteq> nd_id (nd c)" by blast+
    have drop: "drop_node j t = RNode n (xs @ drop_node j c # ys)"
      using drop_node_at [OF dist jc(1)] jc(2) by (simp add: t cs del: drop_node.simps)
    have "str \<notin> set (texts_via (drop_node j c))" using IH str by (simp add: in_texts_via)
    then have "str \<notin> set (texts (drop_node j t))"
      using others less.prems(3) by (auto simp: drop texts_RNode simp del: texts.simps)
    moreover have "x \<in> set (texts (drop_node j t))" if x: "x \<in> set (texts t)" "\<not> prefix str x" for x
    proof (cases "x \<in> set (texts_via c)")
      case True
      then obtain y where y: "y \<in> set (texts c)" "x = key_of c @ y" by (auto simp: in_texts_via)
      with x(2) str have "\<not> prefix rest y" by simp
      with IH y have "x \<in> set (texts_via (drop_node j c))" by (auto simp: in_texts_via)
      then show ?thesis by (auto simp: drop texts_RNode simp del: texts.simps)
    next
      case False
      from x(1) have "x \<in> set (texts (RNode n (xs @ c # ys)))" by (simp only: t cs)
      with False show ?thesis unfolding drop by (auto simp: texts_RNode simp del: texts.simps)
    qed
    moreover have "j \<in> set (ids t)" "j \<noteq> nd_id (nd t)" using jc(1) dc(2) sub unfolding t rtree.sel by blast+
    ultimately show ?thesis by blast
  qed
qed

lemma lookup_forget [simp]: "lookup (forget t) str = lookup t str"
proof (induction "length str" arbitrary: t str rule: less_induct)
  case less
  obtain n cs where t: "t = RNode n cs" by (cases t)
  have b: "best_child str (map forget cs) = best_child str cs" by (rule best_child_cong) simp
  show ?case
  proof (cases "str = [] \<or> best_child str cs = None")
    case True
    then show ?thesis by (auto simp: t lookup_None b stop_at_def)
  next
    case False
    then obtain i where i: "best_child str cs = Some i" and ne: "str \<noteq> []" by auto
    have "i < length cs" using best_child_Some [OF i] by simp
    moreover have "pass_node (quiet c) m = pass_node c m" for c m by (simp add: pass_node_def)
    ultimately show ?thesis
      using less [OF best_child_decreases [OF i], of "cs ! i"]
      by (simp add: t lookup_Some [OF ne i] lookup_Some [OF ne, of "map forget cs" i] b i)
  qed
qed

lemma nodes_below: "nodes t = map nd (t # below t)"
proof (induction t)
  case (RNode n cs)
  then have "map nodes cs = map (\<lambda>c. map nd (c # below c)) cs" by simp
  then show ?case by (simp add: map_concat o_def cong: map_cong)
qed

lemma tree_values_forget [simp]: "tree_values (forget t) = tree_values t"
  by (simp add: tree_values_def sum_forget)

lemma find_SomeD: "find P xs = Some x \<Longrightarrow> x \<in> set xs \<and> P x"
  by (induction xs) (auto split: if_splits)

lemma find_node_by_text_found:
  assumes "find_longest_prefix tr str = (tr1, m)" "mr_prefix m = str" "mr_node m \<in> set (ids (tr_root tr1))"
    "mr_node m \<noteq> nd_id (nd (tr_root tr1))"
  obtains u where "find_node_by_text tr str = (tr1, Some u)" "u \<in> set (below (tr_root tr1))" "nd_id (nd u) = mr_node m"
proof -
  have "find (\<lambda>t. nd_id (nd t) = mr_node m) (tr_root tr1 # below (tr_root tr1)) \<noteq> None"
    using assms(3) unfolding nodes_below find_None_iff by auto
  then obtain u where u: "find (\<lambda>t. nd_id (nd t) = mr_node m) (tr_root tr1 # below (tr_root tr1)) = Some u" by blast
  then have "u \<in> set (tr_root tr1 # below (tr_root tr1))" "nd_id (nd u) = mr_node m"
    by (auto dest: find_SomeD simp del: find.simps)
  with assms(4) u that assms(1,2) show ?thesis by (auto simp: find_node_by_text_def simp del: find.simps)
qed

text \<open>In every history, removing a stored text takes it out, takes out only texts that extend it,
  keeps every text that does not, and reports whether any tokens went. (Texts that extend it can stay:
  the witness removes \<open>Hello\<close> and keeps \<open>Hello world\<close>.)\<close>

theorem remove_takes_only_extensions:
  assumes "tr = trie_after mx k tok ops" "str \<noteq> []" "str \<in> set (stored_texts tr)" "remove_text tr str = (tr', b)"
  shows "str \<notin> set (stored_texts tr') \<and> set (stored_texts tr') \<subseteq> set (stored_texts tr) \<and>
    set (filter (\<lambda>x. \<not> prefix str x) (stored_texts tr)) \<subseteq> set (stored_texts tr') \<and>
    (b \<longleftrightarrow> tree_values (tr_root tr') < tree_values (tr_root tr))"
proof -
  have ok: "trie_ok tr" by (simp add: assms(1) trie_after_ok)
  note ok' = trie_okD [OF ok]
  define t where "t = tr_root tr"
  obtain tr1 m where f: "find_longest_prefix tr str = (tr1, m)" by (cases "find_longest_prefix tr str")
  have m: "m = lookup t str" using find_longest_prefix_lookup [of tr str] f by (simp add: t_def)
  have pre: "mr_prefix m = str"
    using radix.find_stored [OF ok assms(3)] f by simp
  have fg: "forget (tr_root tr1) = forget t" using find_longest_prefix_root [of tr str] f by (simp add: t_def)
  have ok1: "trie_ok tr1" using find_trie_ok [OF ok, of str] f by simp
  have st: "stored_texts tr1 = stored_texts tr" unfolding stored_texts_def using fg by (metis t_def texts_forget)
  have lk: "lookup (tr_root tr1) str = m" by (metis fg lookup_forget m)
  note path = drop_path [OF trie_okD(1,2) [OF ok1] assms(2), unfolded lk, OF pre refl]
  from path obtain u where u: "find_node_by_text tr str = (tr1, Some u)" "u \<in> set (below (tr_root tr1))"
    "nd_id (nd u) = mr_node m" using find_node_by_text_found [OF f pre] by blast
  obtain tr2 n where c: "clean_node_subtree u tr1 = (tr2, n)" by (cases "clean_node_subtree u tr1")
  note c' = clean_node_subtree_ok [OF ok1 u(2) c]
  from assms(4) u(1) c have tr': "tr' = tr2" "b \<longleftrightarrow> 0 < n" by (simp_all add: remove_text_def)
  have "tree_values (tr_root tr1) = tree_values t"
    using arg_cong [OF fg, of tree_values] by simp
  moreover have "tree_values (tr_root tr2) + n = tree_values (tr_root tr1)" using c' by blast
  ultimately have b: "b \<longleftrightarrow> tree_values (tr_root tr') < tree_values (tr_root tr)"
    unfolding tr'(1) tr'(2) t_def by linarith
  have root: "stored_texts tr' = texts (drop_node (mr_node m) (tr_root tr1))"
    using c' u(3) unfolding tr'(1) stored_texts_def by metis
  have sub: "set (texts (drop_node (mr_node m) (tr_root tr1))) \<subseteq> set (stored_texts tr)"
    using drop_texts [of "mr_node m" "tr_root tr1"] st unfolding stored_texts_def by metis
  have keep: "set (filter (\<lambda>x. \<not> prefix str x) (stored_texts tr)) \<subseteq> set (texts (drop_node (mr_node m) (tr_root tr1)))"
  proof
    fix x assume "x \<in> set (filter (\<lambda>x. \<not> prefix str x) (stored_texts tr))"
    then have "x \<in> set (stored_texts tr1)" "\<not> prefix str x" using st by auto
    then have "x \<in> set (texts (tr_root tr1))" "\<not> prefix str x" by (simp_all add: stored_texts_def)
    with path show "x \<in> set (texts (drop_node (mr_node m) (tr_root tr1)))" by blast
  qed
  have "str \<notin> set (texts (drop_node (mr_node m) (tr_root tr1)))" using path by blast
  with b sub keep show ?thesis unfolding root by (intro conjI)
qed

lemma remove_takes_only_extensions_witness:
  "(let r = remove_text (trie_after 100 5 None [Op_Insert ''Hello world'' [1] None None None, Op_Insert ''Hello'' [2] None None None]) ''Hello''
    in ''Hello'' \<notin> set (stored_texts (fst r)) \<and> ''Hello world'' \<in> set (stored_texts (fst r)))"
proof -
  define tr where "tr = trie_after 100 5 None [Op_Insert ''Hello world'' [1] None None None, Op_Insert ''Hello'' [2] None None None]"
  have "stored_texts tr = [[], ''Hello world'', ''Hello'']" unfolding tr_def by code_simp
  then have s: "''Hello'' \<in> set (stored_texts tr)" by simp
  obtain tr' b where r: "remove_text tr ''Hello'' = (tr', b)" by (cases "remove_text tr ''Hello''")
  have "stored_texts (fst (remove_text tr ''Hello'')) = [[], ''Hello world'']" unfolding tr_def by code_simp
  with remove_takes_only_extensions [OF tr_def _ s r] r show ?thesis unfolding tr_def [symmetric] by (simp add: Let_def)
qed

section \<open>The middleware\<close>

lemma lookup_lengths:
  "\<forall>n\<in>set (nodes t). value_ok n \<Longrightarrow>
     length (mr_logp (lookup t str)) = length (mr_tokens (lookup t str)) \<and>
     length (mr_mask (lookup t str)) = length (mr_tokens (lookup t str))"
proof (induction "length str" arbitrary: t str rule: less_induct)
  case less
  obtain n cs where t: "t = RNode n cs" by (cases t)
  show ?case
  proof (cases "str = [] \<or> best_child str cs = None")
    case True
    then show ?thesis by (auto simp: t lookup_None)
  next
    case False
    then obtain i where i: "best_child str cs = Some i" and ne: "str \<noteq> []" by auto
    have "i < length cs" using best_child_Some [OF i] by simp
    then have ok: "\<forall>m\<in>set (nodes (cs ! i)). value_ok m" using less.prems by (auto simp: t)
    then have "value_ok (nd (cs ! i))" by simp
    from less.hyps [OF best_child_decreases [OF i] ok] value_ok_tokens [OF this] show ?thesis
      by (simp add: t lookup_Some [OF ne i])
  qed
qed

lemma retrieve_lengths:
  assumes "trie_ok tr" "retrieve_from_text tr str True = (tr', Inr (toks, lp, lm))"
  shows "length lp = length toks \<and> length lm = length toks"
proof -
  obtain tr1 m where f: "find_longest_prefix tr str = (tr1, m)" by (cases "find_longest_prefix tr str")
  have m: "m = lookup (tr_root tr) str" using find_longest_prefix_lookup [of tr str] f by simp
  have len: "length (mr_logp m) = length (mr_tokens m) \<and> length (mr_mask m) = length (mr_tokens m)"
    unfolding m by (rule lookup_lengths) (use trie_okD(4) [OF assms(1)] in blast)
  show ?thesis
    using assms(2) len f by (auto simp: retrieve_from_text_def Let_def split: if_splits option.splits prod.splits sum.splits)
qed

lemma insert_text_tokenizer: "tr_tokenizer (insert_text tr str toks lp lm v) = tr_tokenizer tr"
  by (cases "insert_walk (tr_counter tr) v (tr_root tr) str toks lp lm") (simp add: insert_text_def)

lemma find_tokenizer: "tr_tokenizer (fst (find_longest_prefix tr str)) = tr_tokenizer tr"
  using find_longest_prefix_frame [of tr str] by auto

lemma find_counters:
  "tr_cur_cache_size (fst (find_longest_prefix tr str)) = tr_cur_cache_size tr"
  "tr_max_cache_size (fst (find_longest_prefix tr str)) = tr_max_cache_size tr"
  using find_longest_prefix_frame [of tr str] by auto

lemma clean_tokenizer: "tr_tokenizer (fst (clean_node_subtree u tr)) = tr_tokenizer tr"
  by (simp add: clean_node_subtree_def remove_node_and_descendants_def)

lemma gc_loop_tokenizer: "tr_tokenizer (fst (gc_loop ts tr n)) = tr_tokenizer tr"
proof (induction ts arbitrary: tr n)
  case (Cons t ts)
  then show ?case using clean_tokenizer [of t tr] by (auto split: option.splits prod.splits)
qed simp

lemma gc_tokenizer: "tr_tokenizer (fst (gc_by_weight_version tr v)) = tr_tokenizer tr"
  by (simp add: gc_by_weight_version_def gc_loop_tokenizer split: option.splits)

lemma insert_trie_tokenizer: "tr_tokenizer (fst (insert_trie tr str toks lp lm v)) = tr_tokenizer tr"
proof -
  have gc: "tr_tokenizer tr2 = tr_tokenizer tr'" if "gc_by_weight_version tr' v = (tr2, r)" for tr' tr2 r
    using gc_tokenizer [of tr' v] that by simp
  show ?thesis
    by (auto simp: insert_trie_def Let_def insert_text_tokenizer dest!: gc split: prod.splits sum.splits)
qed

lemma retrieve_tokenizer: "tr_tokenizer (fst (retrieve_from_text tr str b)) = tr_tokenizer tr"
proof -
  obtain tr1 m where f: "find_longest_prefix tr str = (tr1, m)" by (cases "find_longest_prefix tr str")
  have t1: "tr_tokenizer tr1 = tr_tokenizer tr" using find_tokenizer [of tr str] f by simp
  have "tr_tokenizer tr2 = tr_tokenizer tr" if "insert_trie tr1 str toks None None None = (tr2, r)" for toks tr2 r
    using insert_trie_tokenizer [of tr1 str toks None None None] that t1 by simp
  then show ?thesis
    using t1 f by (auto simp: retrieve_from_text_def Let_def split: option.splits prod.splits sum.splits)
qed

lemma remove_tokenizer: "tr_tokenizer (fst (remove_text tr str)) = tr_tokenizer tr"
proof -
  have "tr_tokenizer (fst (find_node_by_text tr str)) = tr_tokenizer tr"
    using find_tokenizer [of tr str] by (cases "find_longest_prefix tr str") (simp add: find_node_by_text_def)
  then show ?thesis
    using clean_tokenizer by (auto simp: remove_text_def split: prod.splits option.splits) (metis fst_conv)+
qed

lemma trie_after_tokenizer: "tr_tokenizer (trie_after mx k tok ops) = tok"
proof -
  have "tr_tokenizer (apply_op op tr) = tr_tokenizer tr" for op tr
    by (cases op) (simp_all add: find_tokenizer insert_trie_tokenizer remove_tokenizer gc_tokenizer
      retrieve_tokenizer clear_trie_def)
  then have "tr_tokenizer (fold apply_op ops tr) = tr_tokenizer tr" for tr
    by (induction ops arbitrary: tr) simp_all
  then show ?thesis by (simp add: trie_after_def new_trie_def)
qed

lemma retrieve_complete:
  assumes "tr_tokenizer tr = Some tok" "tok [] = []" "str \<noteq> []"
    and "mr_prefix (snd (find_longest_prefix tr str)) = str" "mr_remaining (snd (find_longest_prefix tr str)) = []"
    and "mr_tokens (snd (find_longest_prefix tr str)) \<noteq> []"
  shows "snd (retrieve_from_text tr str True) =
    Inr (mr_tokens (snd (find_longest_prefix tr str)), mr_logp (snd (find_longest_prefix tr str)), mr_mask (snd (find_longest_prefix tr str)))"
proof -
  obtain tr1 m where f: "find_longest_prefix tr str = (tr1, m)" by (cases "find_longest_prefix tr str")
  with find_tokenizer [of tr str] assms show ?thesis by (simp add: retrieve_from_text_def Let_def)
qed

text \<open>When a generate request for a prompt is answered with tokens, log-probabilities and a weight
  version, the cache has room, the full text is new, and the cached tokens met on the way are the
  request's own, then retrieving the full text afterwards returns exactly the prompt tokens of the
  request followed by the engine's tokens, with the engine's log-probabilities and a mask that is 1
  on what it generated.\<close>

theorem generated_tokens_are_retrieved:
  assumes "tr = trie_after mx k (Some tok) ops" "tok [] = []"
    and "gr_path q \<in> set generate_paths" "request_text decode q = Some p" "p \<noteq> []"
    and "retrieve_from_text tr p True = (tr1, Inr (it, il, im))"
    and "attempt_loop (call (Some it)) 5 0 None None = Inr (resp, Some \<lparr>er_text = Some g, er_has_output_ids = True,
      er_meta_info = Some \<lparr>em_finish_type = fin, em_output_token_logprobs = Some items, em_weight_version = Val v\<rparr>\<rparr>)"
    and "it @ map snd items \<noteq> []"
    and "tr_cur_cache_size tr1 + int (length it + length items) \<le> tr_max_cache_size tr1"
    and "snd (find_longest_prefix tr1 (p @ g)) = m" "\<not> exact (tr_root tr1) (p @ g)" "prefix (mr_tokens m) (it @ map snd items)"
    and "resp = Some answer"
  shows "\<exists>tr'. dispatch tok decode call tr q = (tr', Inr (Some answer)) \<and>
    snd (retrieve_from_text tr' (p @ g) True) =
      Inr (it @ map snd items, mr_logp m @ drop (length (mr_tokens m)) (il @ map fst items),
           mr_mask m @ drop (length (mr_tokens m)) (im @ replicate (length items) 1))"
proof -
  let ?toks = "it @ map snd items" and ?lp = "il @ map fst items" and ?lm = "im @ replicate (length items) (1 :: int)"
  have ok: "trie_ok tr" by (simp add: assms(1) trie_after_ok)
  note len = retrieve_lengths [OF ok assms(6)]
  have tok1: "tr_tokenizer tr1 = Some tok"
    using retrieve_tokenizer [of tr p True] assms(1,6) by (simp add: trie_after_tokenizer)
  have lens: "length ?lp = length ?toks" "length ?lm = length ?toks" using len by simp_all
  have pg: "p @ g \<noteq> []" using assms(5) by simp
  define tr' where "tr' = insert_text tr1 (p @ g) ?toks ?lp ?lm (Some v)"
  have ins: "insert_trie tr1 (p @ g) ?toks (Some ?lp) (Some ?lm) (Some v) = (tr', Inr True)"
    unfolding tr'_def by (rule insert_trie_no_gc [OF pg assms(8) lens]) (use assms(9) in simp)
  have disp: "dispatch tok decode call tr q = (tr', Inr resp)"
    using assms(3-7) ins by (simp add: dispatch_def cache_reply_def Let_def)
  have look: "mr_prefix (lookup (tr_root tr') (p @ g)) = p @ g \<and> mr_remaining (lookup (tr_root tr') (p @ g)) = [] \<and>
    mr_tokens (lookup (tr_root tr') (p @ g)) = mr_tokens m @ drop (length (mr_tokens m)) ?toks \<and>
    mr_logp (lookup (tr_root tr') (p @ g)) = mr_logp m @ drop (length (mr_tokens m)) ?lp \<and>
    mr_mask (lookup (tr_root tr') (p @ g)) = mr_mask m @ drop (length (mr_tokens m)) ?lm"
    using insert_text_lookup [OF pg lens, of tr1 "Some v"] assms(10,11)
    by (simp add: tr'_def added_part_def find_longest_prefix_lookup)
  have toks: "mr_tokens m @ drop (length (mr_tokens m)) ?toks = ?toks" using assms(12) by (metis append_eq_conv_conj prefix_def)
  have "tr_tokenizer tr' = Some tok" by (simp add: tr'_def insert_text_tokenizer tok1)
  from retrieve_complete [OF this assms(2) pg] look toks assms(8)
  have "snd (retrieve_from_text tr' (p @ g) True) =
      Inr (?toks, mr_logp m @ drop (length (mr_tokens m)) ?lp, mr_mask m @ drop (length (mr_tokens m)) ?lm)"
    unfolding find_longest_prefix_lookup by metis
  with disp assms(13) show ?thesis by blast
qed

definition ex_tokens :: "string \<Rightarrow> int list" where
  "ex_tokens s = map (\<lambda>c. int (of_char c)) s"

definition ex_request :: generate_request where
  "ex_request = \<lparr>gr_path = ''/generate'', gr_text = Val ''p'', gr_input_ids = None\<rparr>"

definition ex_reply :: engine_reply where
  "ex_reply = \<lparr>er_text = Some ''x'', er_has_output_ids = True, er_meta_info =
     Some \<lparr>em_finish_type = Val ''stop'', em_output_token_logprobs = Some [(1, 7)], em_weight_version = Val 3\<rparr>\<rparr>"

definition ex_call :: "int list option \<Rightarrow> nat \<Rightarrow> exc + nat \<times> reply_view" where
  "ex_call it n = Inr (200, Json_Object ex_reply)"

lemma generated_tokens_are_retrieved_witness:
  "\<exists>tr'. dispatch ex_tokens (\<lambda>_. []) ex_call (trie_after 100 5 (Some ex_tokens) []) ex_request = (tr', Inr (Some 200)) \<and>
     snd (retrieve_from_text tr' ''px'' True) = Inr ([112, 7], [0, 1], [0, 1])"
proof -
  define tr where "tr = trie_after 100 5 (Some ex_tokens) []"
  define tr1 where "tr1 = fst (retrieve_from_text tr ''p'' True)"
  have "snd (retrieve_from_text tr ''p'' True) = Inr ([112], [0], [0])" unfolding tr_def by code_simp
  then have r: "retrieve_from_text tr ''p'' True = (tr1, Inr ([112], [0], [0]))"
    unfolding tr1_def by (metis prod.collapse)
  have a: "attempt_loop (ex_call (Some [112])) 5 0 None None = Inr (Some 200, Some ex_reply)" by code_simp
  have room: "tr_cur_cache_size tr1 + int (length [112 :: int] + length [(1 :: real, 7 :: int)]) \<le> tr_max_cache_size tr1"
    unfolding tr1_def tr_def by code_simp
  have new: "\<not> exact (tr_root tr1) (''p'' @ ''x'')" unfolding tr1_def tr_def by code_simp
  have m: "mr_tokens (snd (find_longest_prefix tr1 (''p'' @ ''x''))) = [112]"
    "mr_logp (snd (find_longest_prefix tr1 (''p'' @ ''x''))) = [0]"
    "mr_mask (snd (find_longest_prefix tr1 (''p'' @ ''x''))) = [0]"
    unfolding tr1_def tr_def by code_simp+
  have side: "ex_tokens [] = []" "gr_path ex_request \<in> set generate_paths"
    "request_text (\<lambda>_. []) ex_request = Some ''p''" "''p'' \<noteq> []" "[112] @ map snd [(1 :: real, 7 :: int)] \<noteq> []"
    by (simp_all add: ex_tokens_def ex_request_def generate_paths_def request_text_def)
  have pre: "prefix (mr_tokens (snd (find_longest_prefix tr1 (''p'' @ ''x'')))) ([112] @ map snd [(1 :: real, 7 :: int)])"
    using m(1) by simp
  from m generated_tokens_are_retrieved [where call = ex_call and it = "[112]" and items = "[(1, 7)]" and p = "''p''" and g = "''x''"
      and m = "snd (find_longest_prefix tr1 (''p'' @ ''x''))", OF tr_def side(1-4) r a [unfolded ex_reply_def] side(5) room refl new pre refl]
  show ?thesis by (simp add: tr_def)
qed

text \<open>The sample cut from a route's reply has as many log-probabilities as mask entries; with a 1
  in the mask the response starts at the first one and has the reported length, but without any the
  reported length is 0 while mask and log-probabilities keep the whole sequence.\<close>

theorem sample_cut_lengths:
  assumes "tr = trie_after mx k tok ops"
    and "postprocess_sample False (\<lambda>t. snd (retrieve_route tr (Some t))) s out = Inr s'"
    and "retrieve_route tr (Some (cs_prompt s @ out)) = (tr', Inr r)"
  shows "length (cs_rollout_log_probs s') = length (cs_loss_mask s') \<and> length (cs_tokens s') = length (rr_loss_mask r) \<and>
    (if 1 \<in> set (rr_loss_mask r)
     then cs_response_length s' = length (cs_loss_mask s') \<and> hd (cs_loss_mask s') = 1 \<and>
       cs_loss_mask s' = dropWhile (\<lambda>x. x \<noteq> 1) (rr_loss_mask r)
     else cs_response_length s' = 0 \<and> length (cs_loss_mask s') = length (cs_tokens s'))"
proof -
  have ok: "trie_ok tr" by (simp add: assms(1) trie_after_ok)
  have one: "from_first_one xs = dropWhile (\<lambda>x. x \<noteq> 1) xs" for xs by (induction xs) auto
  from assms(3) obtain toks lp lm tr2 where "retrieve_from_text tr (cs_prompt s @ out) True = (tr2, Inr (toks, lp, lm))"
    and r: "rr_tokens r = toks" "rr_loss_mask r = lm" "rr_rollout_logp r = lp"
    by (auto simp: retrieve_route_def Let_def split: prod.splits sum.splits)
  note len = retrieve_lengths [OF ok this(1)]
  define n where "n = length (dropWhile (\<lambda>x. x \<noteq> 1) lm)"
  have s': "s' = s\<lparr>cs_tokens := toks, cs_response := cs_response s @ out, cs_response_length := n,
      cs_loss_mask := py_last n lm, cs_rollout_log_probs := py_last n lp\<rparr>"
    using assms(2,3) r by (simp add: postprocess_sample_def Let_def get_response_lengths_def one n_def)
  have n: "n = 0 \<longleftrightarrow> 1 \<notin> set lm" by (auto simp: n_def)
  have le: "n \<le> length lm" by (simp add: n_def length_dropWhile_le)
  have "drop (length lm - n) lm = dropWhile (\<lambda>x. x \<noteq> 1) lm"
    unfolding n_def by (metis append_eq_conv_conj length_append add_diff_cancel_right' takeWhile_dropWhile_id)
  moreover have "hd (dropWhile (\<lambda>x. x \<noteq> 1) lm) = 1" if "1 \<in> set lm"
    using hd_dropWhile [of "\<lambda>x. x \<noteq> 1" lm] that by auto
  ultimately show ?thesis using n le len by (simp add: s' r py_last_def n_def)
qed

definition ex_sample :: cut_sample where
  "ex_sample = \<lparr>cs_prompt = ''p'', cs_response = [], cs_tokens = [], cs_loss_mask = [], cs_response_length = 0, cs_rollout_log_probs = []\<rparr>"

lemma sample_cut_lengths_witness:
  "(let tr = trie_after 100 5 (Some ex_tokens) [Op_Insert ''px'' [4, 7] (Some [0, 1]) (Some [0, 1]) None]
    in \<exists>s' tr' r. postprocess_sample False (\<lambda>t. snd (retrieve_route tr (Some t))) ex_sample ''x'' = Inr s' \<and>
      retrieve_route tr (Some ''px'') = (tr', Inr r) \<and> cs_response_length s' = length (cs_loss_mask s') \<and> rr_loss_mask r = [0, 1])"
proof -
  define tr where "tr = trie_after 100 5 (Some ex_tokens) [Op_Insert ''px'' [4, 7] (Some [0, 1]) (Some [0, 1]) None]"
  define r where "r = \<lparr>rr_tokens = [4, 7], rr_response = ''px'', rr_loss_mask = [0, 1], rr_token_length = 2, rr_loss_mask_length = 2, rr_rollout_logp = [0, 1]\<rparr>"
  have "snd (retrieve_route tr (Some (cs_prompt ex_sample @ ''x''))) = Inr r" unfolding tr_def r_def by code_simp
  then obtain tr' where q: "retrieve_route tr (Some (cs_prompt ex_sample @ ''x'')) = (tr', Inr r)" by (metis prod.collapse)
  then obtain s' where p: "postprocess_sample False (\<lambda>t. snd (retrieve_route tr (Some t))) ex_sample ''x'' = Inr s'"
    by (simp add: postprocess_sample_def Let_def)
  from sample_cut_lengths [OF tr_def p q] have "cs_response_length s' = length (cs_loss_mask s')"
    by (simp add: r_def)
  with p q show ?thesis unfolding tr_def [symmetric] by (auto simp: Let_def ex_sample_def r_def)
qed

end
