(* ===== verification/Scheduler_State.thy ===== *)
theory Scheduler_State
  imports PyText
begin

text \<open>
  \<open>online_env_docker_scheduler.py\<close>, first part: the scheduler's configuration and state, resource
  vectors, the resource profiles and what they predict, and the budget an admission is measured
  against.  Floats are reals; the clock is an argument; the profile directory is an argument already
  parsed (what can be read of each file).
\<close>

section \<open>Resource vectors\<close>

record resources =
  rv_memory :: real
  rv_cpu :: real
  rv_disk_read :: real
  rv_disk_write :: real

definition rv_zero :: resources where
  "rv_zero = \<lparr>rv_memory = 0, rv_cpu = 0, rv_disk_read = 0, rv_disk_write = 0\<rparr>"

definition rv_plus :: "resources \<Rightarrow> resources \<Rightarrow> resources" where
  "rv_plus a b =
     \<lparr>rv_memory = rv_memory a + rv_memory b, rv_cpu = rv_cpu a + rv_cpu b,
      rv_disk_read = rv_disk_read a + rv_disk_read b, rv_disk_write = rv_disk_write a + rv_disk_write b\<rparr>"

definition rv_minus :: "resources \<Rightarrow> resources \<Rightarrow> resources" where
  "rv_minus a b =
     \<lparr>rv_memory = max 0 (rv_memory a - rv_memory b), rv_cpu = max 0 (rv_cpu a - rv_cpu b),
      rv_disk_read = max 0 (rv_disk_read a - rv_disk_read b),
      rv_disk_write = max 0 (rv_disk_write a - rv_disk_write b)\<rparr>"

section \<open>Profiles and configuration\<close>

record profile =
  pf_sample_count :: int
  pf_peak_memory :: real
  pf_avg_cpu :: real
  pf_avg_disk_read :: real
  pf_avg_disk_write :: real
  pf_avg_total_time :: real
  pf_last_updated :: real

definition new_profile :: profile where
  "new_profile = \<lparr>pf_sample_count = 0, pf_peak_memory = 0, pf_avg_cpu = 0, pf_avg_disk_read = 0,
     pf_avg_disk_write = 0, pf_avg_total_time = 0, pf_last_updated = 0\<rparr>"

record sched_config =
  sc_enabled :: bool
  sc_sampling_interval :: real
  sc_safety_margin :: real
  sc_memory_oversell :: real
  sc_memory_peak_scale :: real
  sc_cpu_oversell :: real
  sc_disk_read_oversell :: real
  sc_disk_write_oversell :: real
  sc_max_unknown_concurrency :: int
  sc_cold_memory_multiplier :: real
  sc_cold_cpu_multiplier :: real
  sc_max_active :: int
  sc_startup_max_active :: int
  sc_startup_duration :: real
  sc_default_memory :: real
  sc_default_cpu :: real
  sc_default_disk_read :: real
  sc_default_disk_write :: real
  sc_stats_refresh :: real
  sc_use_stats_dir :: bool
  sc_disable_polling :: bool
  sc_live_updates :: bool
  sc_min_live_samples :: int
  sc_min_profile_memory :: real
  sc_max_stats_requests :: int
  sc_realtime_memory :: bool
  sc_realtime_cpu :: bool
  sc_realtime_disk :: bool
  sc_server_refresh :: real
  sc_blocked_log_interval :: real
  sc_preserve_order :: bool
  sc_requeue_threshold :: int
  sc_requeue_offset :: int
  sc_max_requests_per_update :: int
  sc_local_active_discount :: real

definition gib :: real where
  "gib = 1024 ^ 3"

definition default_config :: sched_config where
  "default_config =
     \<lparr>sc_enabled = False, sc_sampling_interval = 10, sc_safety_margin = 9 / 10, sc_memory_oversell = 1,
      sc_memory_peak_scale = 7 / 10, sc_cpu_oversell = 2, sc_disk_read_oversell = 10, sc_disk_write_oversell = 10,
      sc_max_unknown_concurrency = 128, sc_cold_memory_multiplier = 2, sc_cold_cpu_multiplier = 3 / 2,
      sc_max_active = 0, sc_startup_max_active = 0, sc_startup_duration = 0,
      sc_default_memory = 2 * gib, sc_default_cpu = 30, sc_default_disk_read = 2 * gib, sc_default_disk_write = 2 * gib,
      sc_stats_refresh = 60, sc_use_stats_dir = True, sc_disable_polling = False, sc_live_updates = False,
      sc_min_live_samples = 2, sc_min_profile_memory = 0, sc_max_stats_requests = 16,
      sc_realtime_memory = True, sc_realtime_cpu = True, sc_realtime_disk = True, sc_server_refresh = 30,
      sc_blocked_log_interval = 5, sc_preserve_order = False, sc_requeue_threshold = 3, sc_requeue_offset = 5,
      sc_max_requests_per_update = 64, sc_local_active_discount = 7 / 10\<rparr>"

section \<open>Prompts and the scheduler\<close>

record ticket =
  tk_prompt_id :: string
  tk_repo :: string
  tk_rollout_id :: "int option"
  tk_predicted :: resources

record pending_prompt =
  pp_prompt_id :: string
  pp_repo :: string
  pp_data_key :: string
  pp_rollout_id :: "int option"
  pp_group_index :: "int option"
  pp_sample_index :: "int option"
  pp_predicted :: resources
  pp_avg_total_time :: real
  pp_has_history :: bool
  pp_created_at :: real
  pp_admitted :: bool
  pp_blocked_log_ts :: real
  pp_head_block_count :: int

record lease_usage =
  lu_sample_count :: int
  lu_cpu_sample_count :: int
  lu_peak_memory :: real
  lu_avg_cpu :: "real option"
  lu_disk_read :: real
  lu_disk_write :: real

definition new_lease_usage :: lease_usage where
  "new_lease_usage = \<lparr>lu_sample_count = 0, lu_cpu_sample_count = 0, lu_peak_memory = 0, lu_avg_cpu = None,
     lu_disk_read = 0, lu_disk_write = 0\<rparr>"

record active_prompt =
  ap_prompt_id :: string
  ap_repo :: string
  ap_data_key :: string
  ap_rollout_id :: "int option"
  ap_predicted :: resources
  ap_has_history :: bool
  ap_started_at :: real
  ap_sample_count :: int
  ap_cpu_sample_count :: int
  ap_latest_cpu :: "real option"
  ap_cpu_by_lease :: "(string, real) dict"
  ap_usage_by_lease :: "(string, lease_usage) dict"
  ap_peak_memory :: real
  ap_disk_read :: real
  ap_disk_write :: real
  ap_leases :: "string list"
  ap_lease_errors :: "(string, int) dict"

definition new_active :: "string \<Rightarrow> string \<Rightarrow> string \<Rightarrow> int option \<Rightarrow> resources \<Rightarrow> bool \<Rightarrow> real \<Rightarrow> active_prompt" where
  "new_active pid repo key rollout predicted has_history now =
     \<lparr>ap_prompt_id = pid, ap_repo = repo, ap_data_key = key, ap_rollout_id = rollout, ap_predicted = predicted,
      ap_has_history = has_history, ap_started_at = now, ap_sample_count = 0, ap_cpu_sample_count = 0,
      ap_latest_cpu = None, ap_cpu_by_lease = [], ap_usage_by_lease = [], ap_peak_memory = 0, ap_disk_read = 0,
      ap_disk_write = 0, ap_leases = [], ap_lease_errors = []\<rparr>"

text \<open>What the server reported last, each figure with \<open>None\<close> before the first report.\<close>

record server_view =
  sv_memory_available :: "real option"
  sv_memory_total :: "real option"
  sv_cpu_available :: "real option"
  sv_cpu_total :: "real option"
  sv_disk_read_available :: "real option"
  sv_disk_read_total :: "real option"
  sv_disk_write_available :: "real option"
  sv_disk_write_total :: "real option"

definition no_view :: server_view where
  "no_view = \<lparr>sv_memory_available = None, sv_memory_total = None, sv_cpu_available = None, sv_cpu_total = None,
     sv_disk_read_available = None, sv_disk_read_total = None, sv_disk_write_available = None,
     sv_disk_write_total = None\<rparr>"

record scheduler =
  sd_config :: sched_config
  sd_profiles :: "(string, profile) dict"
  sd_active_predicted :: resources
  sd_pending :: "pending_prompt list"
  sd_active :: "(string, active_prompt) dict"
  sd_lease_to_prompt :: "(string, string) dict"
  sd_sampling_cursor :: int
  sd_sampler_running :: bool
  sd_stop_sampling :: bool
  sd_start_ts :: real
  sd_stats_last_refresh :: real
  sd_server :: server_view
  sd_server_last_refresh :: real
  sd_admitted_since_refresh :: int

section \<open>Profiles from observations\<close>

definition rolling_avg :: "real \<Rightarrow> int \<Rightarrow> real \<Rightarrow> real" where
  "rolling_avg old n new = (if n \<le> 0 then new else (old * of_int n + new) / of_int (n + 1))"

definition fold_profile :: "real \<Rightarrow> real \<Rightarrow> real \<Rightarrow> real \<Rightarrow> real \<Rightarrow> real \<Rightarrow> profile \<Rightarrow> profile" where
  "fold_profile memory cpu disk_read disk_write duration ts p =
     (let n = pf_sample_count p
      in \<lparr>pf_sample_count = n + 1,
          pf_peak_memory = max (pf_peak_memory p) (max 0 memory),
          pf_avg_cpu = rolling_avg (pf_avg_cpu p) n (max 0 cpu),
          pf_avg_disk_read = rolling_avg (pf_avg_disk_read p) n (max 0 disk_read),
          pf_avg_disk_write = rolling_avg (pf_avg_disk_write p) n (max 0 disk_write),
          pf_avg_total_time = rolling_avg (pf_avg_total_time p) n (max 0 duration),
          pf_last_updated = max (pf_last_updated p) ts\<rparr>)"

definition update_aggregated_profile :: "string \<Rightarrow> real \<Rightarrow> real \<Rightarrow> real \<Rightarrow> real \<Rightarrow> real \<Rightarrow> real \<Rightarrow>
    (string, profile) dict \<Rightarrow> (string, profile) dict" where
  "update_aggregated_profile key memory cpu disk_read disk_write duration ts agg =
     dset key (fold_profile memory cpu disk_read disk_write duration ts (dget_def agg key new_profile)) agg"

section \<open>Predictions\<close>

definition predict :: "sched_config \<Rightarrow> profile option \<Rightarrow> resources \<times> bool \<times> real" where
  \<comment> \<open>\<open>_predict_for_key\<close> after the profiles have been refreshed\<close>
  "predict cfg prof =
     (let mem_mul = max 1 (sc_cold_memory_multiplier cfg); cpu_mul = max 1 (sc_cold_cpu_multiplier cfg);
          cold = (\<lparr>rv_memory = max 1 (sc_default_memory cfg * mem_mul), rv_cpu = max (1 / 10) (sc_default_cpu cfg * cpu_mul),
                   rv_disk_read = sc_default_disk_read cfg, rv_disk_write = sc_default_disk_write cfg\<rparr>, False, 0)
      in case prof of None \<Rightarrow> cold
         | Some p \<Rightarrow>
             (if pf_sample_count p \<le> 0 then cold
              else
                (let known = \<lparr>rv_memory = max 1 (max (max 0 (sc_min_profile_memory cfg))
                                  (pf_peak_memory p * min 1 (max 0 (sc_memory_peak_scale cfg)))),
                              rv_cpu = max (1 / 10) (pf_avg_cpu p), rv_disk_read = max 1 (pf_avg_disk_read p),
                              rv_disk_write = max 1 (pf_avg_disk_write p)\<rparr>
                 in if pf_sample_count p < max 0 (sc_min_live_samples cfg)
                    then (\<lparr>rv_memory = max (rv_memory known) (sc_default_memory cfg * mem_mul),
                           rv_cpu = max (rv_cpu known) (sc_default_cpu cfg * cpu_mul),
                           rv_disk_read = max (rv_disk_read known) (sc_default_disk_read cfg),
                           rv_disk_write = max (rv_disk_write known) (sc_default_disk_write cfg)\<rparr>,
                          False, max 0 (pf_avg_total_time p))
                    else (known, True, max 0 (pf_avg_total_time p)))))"

section \<open>The budget\<close>

definition unbounded_bytes :: real where
  "unbounded_bytes = 2 ^ 60"

definition unbounded_cpu :: real where
  "unbounded_cpu = 10 ^ 9"

definition base_budget :: "bool \<Rightarrow> real \<Rightarrow> real \<Rightarrow> real option \<Rightarrow> real" where
  \<comment> \<open>one resource: what the server has, nothing before its first report, or no bound\<close>
  "base_budget realtime least unbounded avail =
     (if realtime then (case avail of Some a \<Rightarrow> max least a | None \<Rightarrow> 0) else unbounded)"

definition effective_budget :: "scheduler \<Rightarrow> resources" where
  "effective_budget s =
     (let cfg = sd_config s; sv = sd_server s; m = max (1 / 100) (sc_safety_margin cfg)
      in \<lparr>rv_memory = base_budget (sc_realtime_memory cfg) 1 unbounded_bytes (sv_memory_available sv) * m
             * max 1 (sc_memory_oversell cfg),
          rv_cpu = base_budget (sc_realtime_cpu cfg) (1 / 10) unbounded_cpu (sv_cpu_available sv) * m
             * max 1 (sc_cpu_oversell cfg),
          rv_disk_read = base_budget (sc_realtime_disk cfg) 1 unbounded_bytes (sv_disk_read_available sv) * m
             * max 1 (sc_disk_read_oversell cfg),
          rv_disk_write = base_budget (sc_realtime_disk cfg) 1 unbounded_bytes (sv_disk_write_available sv) * m
             * max 1 (sc_disk_write_oversell cfg)\<rparr>)"

definition scaled_active_for_budget :: "sched_config \<Rightarrow> resources \<Rightarrow> resources" where
  "scaled_active_for_budget cfg a =
     (let d = max 0 (sc_local_active_discount cfg)
      in if d = 1 then a
         else \<lparr>rv_memory = max 0 (rv_memory a * d), rv_cpu = max 0 (rv_cpu a * d),
               rv_disk_read = max 0 (rv_disk_read a * d), rv_disk_write = max 0 (rv_disk_write a * d)\<rparr>)"

definition active_for_budget :: "sched_config \<Rightarrow> resources \<Rightarrow> resources" where
  "active_for_budget cfg a =
     (let s = scaled_active_for_budget cfg a
      in \<lparr>rv_memory = (if sc_realtime_memory cfg then rv_memory s else rv_memory a),
          rv_cpu = (if sc_realtime_cpu cfg then rv_cpu s else rv_cpu a),
          rv_disk_read = (if sc_realtime_disk cfg then rv_disk_read s else rv_disk_read a),
          rv_disk_write = (if sc_realtime_disk cfg then rv_disk_write s else rv_disk_write a)\<rparr>)"

definition fits_virtual :: "resources \<Rightarrow> resources \<Rightarrow> resources \<Rightarrow> bool" where
  "fits_virtual active request budget =
     (rv_memory active + rv_memory request \<le> rv_memory budget \<and> rv_cpu active + rv_cpu request \<le> rv_cpu budget \<and>
      rv_disk_read active + rv_disk_read request \<le> rv_disk_read budget \<and>
      rv_disk_write active + rv_disk_write request \<le> rv_disk_write budget)"

definition fits :: "scheduler \<Rightarrow> resources \<Rightarrow> resources \<Rightarrow> bool" where
  "fits s request budget = fits_virtual (active_for_budget (sd_config s) (sd_active_predicted s)) request budget"

definition is_oversized :: "resources \<Rightarrow> resources \<Rightarrow> bool" where
  "is_oversized request budget =
     (rv_memory budget < rv_memory request \<or> rv_cpu budget < rv_cpu request \<or>
      rv_disk_read budget < rv_disk_read request \<or> rv_disk_write budget < rv_disk_write request)"

definition packing_score :: "real \<Rightarrow> pending_prompt \<Rightarrow> resources \<Rightarrow> resources \<Rightarrow> real" where
  \<comment> \<open>the duration and history terms are commented out in the code\<close>
  "packing_score now r residual budget =
     (let p = pp_predicted r;
          fill_mem = rv_memory p / max 1 (rv_memory residual);
          fill_cpu = rv_cpu p / max 1 (rv_cpu residual);
          fill_r = rv_disk_read p / max 1 (rv_disk_read residual);
          fill_w = rv_disk_write p / max 1 (rv_disk_write residual);
          dom = max (rv_memory p / max 1 (rv_memory budget)) (max (rv_cpu p / max 1 (rv_cpu budget))
            (max (rv_disk_read p / max 1 (rv_disk_read budget)) (rv_disk_write p / max 1 (rv_disk_write budget))));
          age_bonus = min 1 (max 0 ((now - pp_created_at r) / 20))
      in (fill_mem + fill_cpu + fill_r + fill_w) + 6 / 10 * dom + 4 / 10 * age_bonus)"

section \<open>What the server reports\<close>

text \<open>The \<open>pool\<close> object of a status payload: a figure that is missing leaves the old one.\<close>

record pool_report =
  pr_memory_available :: "real jfield"
  pr_memory_total :: "real jfield"
  pr_cpu_available :: "real jfield"
  pr_cpu_total :: "real jfield"
  pr_disk_read_available :: "real jfield"
  pr_disk_read_total :: "real jfield"
  pr_disk_write_available :: "real jfield"
  pr_disk_write_total :: "real jfield"

definition take_figure :: "real jfield \<Rightarrow> real option \<Rightarrow> real option" where
  "take_figure f old = (if f = Absent then old else Some (max 0 (jnum_or f)))"

definition refresh_server_budget :: "real \<Rightarrow> bool \<Rightarrow> bool \<Rightarrow> (exc + pool_report) \<Rightarrow> scheduler \<Rightarrow> scheduler \<times> bool" where
  \<comment> \<open>\<open>_refresh_server_memory_budget_if_needed\<close>; \<open>reply\<close> is the answer of the status call\<close>
  "refresh_server_budget now force has_url reply s =
     (if \<not> force \<and> now - sd_server_last_refresh s < max 1 (sc_server_refresh (sd_config s)) then (s, False)
      else if \<not> has_url then (s\<lparr>sd_server_last_refresh := now\<rparr>, False)
      else case reply of
        Inl e \<Rightarrow> (s\<lparr>sd_server_last_refresh := now\<rparr>, False)
      | Inr r \<Rightarrow>
          (let v = sd_server s
           in (s\<lparr>sd_server :=
                   \<lparr>sv_memory_available = take_figure (pr_memory_available r) (sv_memory_available v),
                    sv_memory_total = take_figure (pr_memory_total r) (sv_memory_total v),
                    sv_cpu_available = take_figure (pr_cpu_available r) (sv_cpu_available v),
                    sv_cpu_total = take_figure (pr_cpu_total r) (sv_cpu_total v),
                    sv_disk_read_available = take_figure (pr_disk_read_available r) (sv_disk_read_available v),
                    sv_disk_read_total = take_figure (pr_disk_read_total r) (sv_disk_read_total v),
                    sv_disk_write_available = take_figure (pr_disk_write_available r) (sv_disk_write_available v),
                    sv_disk_write_total = take_figure (pr_disk_write_total r) (sv_disk_write_total v)\<rparr>,
                 sd_server_last_refresh := now\<rparr>, True)))"

end
