(* ===== verification/Scheduler_Keys.thy ===== *)
theory Scheduler_Keys
  imports PyText
begin

text \<open>
  The names under which the scheduler keeps resource profiles: repository and data keys taken from a
  sample's metadata, its image name or a prompt id.  Metadata are JSON values.
\<close>

section \<open>Words in a name\<close>

definition under :: string where "under = ''_''"
definition dunder :: string where "dunder = ''__''"
definition unknown_key :: string where "unknown_key = ''unknown''"
definition group_marker :: string where "group_marker = ''__g''"

definition strip_chars :: "string \<Rightarrow> string \<Rightarrow> string" where
  \<comment> \<open>\<open>s.strip(chars)\<close>\<close>
  "strip_chars chars s = strip_set (\<lambda>c. c \<in> set chars) s"

definition decode_name :: "string \<Rightarrow> string" where
  "decode_name s = replace_all ''_s_'' ''__'' (replace_all ''_1776_'' ''__'' s)"

definition normalize_repo :: "string \<Rightarrow> string" where
  "normalize_repo repo =
     (let t = strip_chars ''/'' (strip repo)
      in if contains ''/'' t then lower (after_last (CHR ''/'') t) else lower t)"

definition repo_from_instance_id :: "string option \<Rightarrow> string option" where
  "repo_from_instance_id iid =
     (case iid of None \<Rightarrow> None
      | Some i \<Rightarrow>
          (if i = [] then None
           else
             (let tail = (if contains dunder i then (case split_once dunder i of (a, Some b) \<Rightarrow> b | (a, None) \<Rightarrow> a) else i);
                  repo = strip (strip_chars under (before_last (CHR ''-'') tail))
              in if repo = [] then None else Some (lower repo))))"

definition repo_from_image_name :: "string option \<Rightarrow> string option" where
  "repo_from_image_name img =
     (case img of None \<Rightarrow> None
      | Some i \<Rightarrow>
          (if i = [] then None
           else repo_from_instance_id (Some (decode_name (after_last (CHR ''.'') (fst (split_once '':'' i)))))))"

definition data_key_from_prompt_id :: "string option \<Rightarrow> string option" where
  "data_key_from_prompt_id pid =
     (case pid of None \<Rightarrow> None
      | Some p \<Rightarrow>
          (case find_sub group_marker p of
             None \<Rightarrow> None
           | Some i \<Rightarrow>
               (if i = 0 then None
                else
                  (let stem = lower (strip (take i p))
                   in if stem = [] \<or> stem = unknown_key then None else Some stem))))"

definition data_key_from_image_name :: "string option \<Rightarrow> string option" where
  "data_key_from_image_name img =
     (case img of None \<Rightarrow> None
      | Some i \<Rightarrow>
          (if i = [] then None
           else
             (let tag = (if contains '':'' i then lower (strip (after_last (CHR '':'') i)) else []);
                  from_tag = (if tag \<noteq> [] \<and> tag \<noteq> ''latest'' then decode_name tag else [])
              in if from_tag \<noteq> [] \<and> from_tag \<noteq> ''swe-rl'' then Some from_tag
                 else
                   (let name = lower (strip (fst (split_once '':'' (after_last (CHR ''/'') i))))
                    in if name = [] then None
                       else
                         (let d = decode_name name; e = (if contains ''.'' d then after_last (CHR ''.'') d else d)
                          in if e = [] then None else Some e)))))"

section \<open>Keys of a sample\<close>

definition repo_fields :: "string list" where
  "repo_fields = [''repo'', ''repository'', ''repo_name'']"

definition nonblank :: "jval option \<Rightarrow> string option" where
  \<comment> \<open>\<open>isinstance(value, str) and value.strip()\<close>\<close>
  "nonblank v = (case v of Some (JS s) \<Rightarrow> (if strip s \<noteq> [] then Some s else None) | _ \<Rightarrow> None)"

fun first_field :: "string list \<Rightarrow> (string \<times> jval) list \<Rightarrow> string option" where
  "first_field [] d = None"
| "first_field (k # ks) d = (case nonblank (dget d k) of Some s \<Rightarrow> Some s | None \<Rightarrow> first_field ks d)"

definition instance_of :: "(string \<times> jval) list \<Rightarrow> (string \<times> jval) list" where
  "instance_of metadata = (case dget metadata ''instance'' of Some (JD d) \<Rightarrow> d | _ \<Rightarrow> [])"

definition instance_id_of :: "(string \<times> jval) list \<Rightarrow> jval option \<Rightarrow> jval option" where
  \<comment> \<open>\<open>instance_id or instance.get("instance_id")\<close>\<close>
  "instance_id_of metadata iid =
     (case iid of Some v \<Rightarrow> (if truthy v then Some v else dget (instance_of metadata) ''instance_id'')
      | None \<Rightarrow> dget (instance_of metadata) ''instance_id'')"

definition as_str :: "jval option \<Rightarrow> string option" where
  "as_str v = (case v of Some (JS s) \<Rightarrow> Some s | _ \<Rightarrow> None)"

definition extract_repo_key :: "(string \<times> jval) list \<Rightarrow> string option \<Rightarrow> jval option \<Rightarrow> string \<Rightarrow> string" where
  "extract_repo_key metadata img iid fallback =
     (case first_field repo_fields metadata of
        Some s \<Rightarrow> normalize_repo s
      | None \<Rightarrow>
          (case first_field repo_fields (instance_of metadata) of
             Some s \<Rightarrow> normalize_repo s
           | None \<Rightarrow>
               (case repo_from_instance_id (as_str (instance_id_of metadata iid)) of
                  Some r \<Rightarrow> r
                | None \<Rightarrow>
                    (case repo_from_image_name img of Some r \<Rightarrow> r | None \<Rightarrow> fallback))))"

definition extract_data_key :: "(string \<times> jval) list \<Rightarrow> string option \<Rightarrow> jval option \<Rightarrow> string \<Rightarrow> string" where
  "extract_data_key metadata img iid fallback =
     (case nonblank (instance_id_of metadata iid) of
        Some s \<Rightarrow> lower (strip s)
      | None \<Rightarrow> extract_repo_key metadata img iid fallback)"

definition opt_num :: "int option \<Rightarrow> string" where
  "opt_num n = (case n of None \<Rightarrow> ''na'' | Some i \<Rightarrow> str_int i)"

definition build_prompt_id :: "int option \<Rightarrow> int option \<Rightarrow> string option \<Rightarrow> string \<Rightarrow> string" where
  \<comment> \<open>\<open>rand\<close>: the eight random characters\<close>
  "build_prompt_id gid sid iid rand =
     (let stem = (case iid of Some (c # cs) \<Rightarrow> c # cs | _ \<Rightarrow> unknown_key)
      in stem @ group_marker @ opt_num gid @ ''__i'' @ opt_num sid @ dunder @ rand)"

definition infer_rollout_id :: "int option \<Rightarrow> int option \<Rightarrow> int option" where
  "infer_rollout_id group_index batch =
     (case batch of None \<Rightarrow> None
      | Some b \<Rightarrow> (if b \<le> 0 then None else map_option (\<lambda>g. g div b) group_index))"

definition env_flag :: "string option \<Rightarrow> bool \<Rightarrow> bool" where
  "env_flag v default_value =
     (case v of None \<Rightarrow> default_value
      | Some s \<Rightarrow> lower (strip s) \<in> set [''1'', ''true'', ''yes'', ''on''])"

section \<open>Back from a prompt id\<close>

lemma find_sub_first:
  assumes "find_sub m s = Some i" shows "\<And>j. j < i \<Longrightarrow> take (length m) (drop j s) \<noteq> m"
  using assms
proof (induction m s arbitrary: i rule: find_sub.induct)
  case (2 m c s)
  show ?case
  proof (cases "take (length m) (c # s) = m")
    case True
    with 2 show ?thesis by simp
  next
    case False
    with "2.prems"(2) obtain i' where i': "find_sub m s = Some i'" "i = Suc i'" by auto
    show ?thesis
    proof (cases j)
      case 0
      with False show ?thesis by simp
    next
      case (Suc j')
      with "2.prems"(1) i' "2.IH" [OF False, of j' i'] show ?thesis by simp
    qed
  qed
qed (auto split: if_splits)

lemma find_sub_intro:
  "take (length m) (drop i s) = m \<Longrightarrow> m \<noteq> [] \<Longrightarrow> (\<And>j. j < i \<Longrightarrow> take (length m) (drop j s) \<noteq> m) \<Longrightarrow> find_sub m s = Some i"
proof (induction m s arbitrary: i rule: find_sub.induct)
  case (2 m c s)
  show ?case
  proof (cases i)
    case 0
    with 2 show ?thesis by simp
  next
    case (Suc k)
    have "take (length m) (c # s) \<noteq> m" using "2.prems"(3) [of 0] Suc by simp
    moreover from "2.IH" [OF this, of k] "2.prems" Suc have "find_sub m s = Some k"
      by (metis Suc_mono drop_Suc_Cons)
    ultimately show ?thesis using Suc by simp
  qed
qed simp

text \<open>The marker after a stem that does not contain it is the first one.\<close>

lemma find_group_marker:
  assumes "\<not> contains group_marker stem"
  shows "find_sub group_marker (stem @ group_marker @ rest) = Some (length stem)"
proof (rule find_sub_intro)
  show "take (length group_marker) (drop (length stem) (stem @ group_marker @ rest)) = group_marker"
    by (simp add: group_marker_def)
  show "group_marker \<noteq> []" by (simp add: group_marker_def)
  fix j assume j: "j < length stem"
  show "take (length group_marker) (drop j (stem @ group_marker @ rest)) \<noteq> group_marker"
  proof
    assume eq: "take (length group_marker) (drop j (stem @ group_marker @ rest)) = group_marker"
    let ?s = "stem @ group_marker @ rest"
    have len: "j + 2 < length ?s" using j by (simp add: group_marker_def)
    have third: "?s ! (j + 2) = CHR ''g''"
    proof -
      have "take (length group_marker) (drop j ?s) ! 2 = drop j ?s ! 2"
        by (rule nth_take) (simp add: group_marker_def)
      moreover have "drop j ?s ! 2 = ?s ! (j + 2)" by (rule nth_drop) (use len in linarith)
      moreover have "group_marker ! 2 = CHR ''g''" by (simp add: group_marker_def)
      ultimately show ?thesis using eq by metis
    qed
    show False
    proof (cases "j + 2 < length stem")
      case True
      then have "take (length group_marker) (drop j stem) = take (length group_marker) (drop j ?s)"
        by (simp add: group_marker_def)
      from this eq have "take (length group_marker) (drop j stem) = group_marker" by (rule trans)
      then have "drop j stem = group_marker @ drop (length group_marker) (drop j stem)"
        using append_take_drop_id [of "length group_marker" "drop j stem"] by presburger
      then have "stem = take j stem @ group_marker @ drop (length group_marker) (drop j stem)"
        using append_take_drop_id [of j stem] by presburger
      then have "sublist group_marker stem" unfolding sublist_def by blast
      with assms show False by (simp add: contains_iff_sublist)
    next
      case False
      then have "j + 2 = length stem \<or> j + 2 = Suc (length stem)" using j by linarith
      then have "?s ! (j + 2) = CHR ''_''" by (auto simp: nth_append group_marker_def)
      with third show False by simp
    qed
  qed
qed

end
