(* ===== verification/Scheduler_Admission.thy ===== *)
theory Scheduler_Admission
  imports Scheduler_State Scheduler_Keys
begin

text \<open>
  The scheduler's admissions: reading the profile directory, queueing a prompt, choosing the next one
  to run (best fit, or strictly from the head of the queue), the rounds of \<open>admit_prompt\<close>, and the
  offline order of \<open>plan_prompt_order\<close>.  \<open>clock\<close> gives the reading of the clock for each request
  that is scored.  The head-of-line loop need not end, so it is a partial function: \<open>None\<close> is a call
  that never returns.
\<close>

section \<open>The profile directory\<close>

text \<open>One profile file, as far as the code reads it; \<open>None\<close> in a list is a file it skips.\<close>

record stat_file =
  sf_instance_id :: "string jfield"
  sf_image :: "string jfield"
  sf_memory_max :: "real jfield"
  sf_cpu_avg :: "real jfield"
  sf_disk_read_max :: "real jfield"
  sf_disk_write_max :: "real jfield"
  sf_duration :: "real jfield"
  sf_start :: "real jfield"
  sf_end :: "real jfield"

record stats_dir =
  di_replay :: "stat_file option list"
  di_legacy :: "stat_file option list"

definition mib :: real where
  "mib = 1024 * 1024"

definition file_key :: "bool \<Rightarrow> stat_file \<Rightarrow> string option" where
  "file_key replay f =
     (let img = (case sf_image f of Val i \<Rightarrow> Some i | _ \<Rightarrow> None);
          iid = lower (strip (jstr (sf_instance_id f)))
      in if replay \<and> iid \<noteq> [] then Some iid else data_key_from_image_name img)"

definition absorb_file :: "bool \<Rightarrow> stat_file option \<Rightarrow> (string, profile) dict \<Rightarrow> (string, profile) dict" where
  "absorb_file replay fo agg =
     (case fo of None \<Rightarrow> agg
      | Some f \<Rightarrow>
          (case file_key replay f of None \<Rightarrow> agg
           | Some key \<Rightarrow>
               update_aggregated_profile key (max 0 (jnum_or (sf_memory_max f)) * mib) (jnum_or (sf_cpu_avg f))
                 (max 0 (jnum_or (sf_disk_read_max f)) * mib) (max 0 (jnum_or (sf_disk_write_max f)) * mib)
                 (max 0 (max (jnum_or (sf_duration f)) (jnum_or (sf_end f) - jnum_or (sf_start f))))
                 (jnum_or (sf_end f)) agg))"

definition read_stats_dir :: "stats_dir \<Rightarrow> (string, profile) dict" where
  "read_stats_dir d =
     (if di_replay d \<noteq> [] then fold (absorb_file True) (di_replay d) []
      else fold (absorb_file False) (di_legacy d) [])"

definition refresh_resource_profiles :: "real \<Rightarrow> bool \<Rightarrow> stats_dir option \<Rightarrow> scheduler \<Rightarrow> scheduler \<times> nat" where
  \<comment> \<open>no directory is \<open>None\<close>\<close>
  "refresh_resource_profiles now force dir s =
     (if \<not> sc_use_stats_dir (sd_config s) then (s, 0)
      else if \<not> force \<and> now - sd_stats_last_refresh s < max 1 (sc_stats_refresh (sd_config s)) then (s, 0)
      else
        (let s1 = s\<lparr>sd_stats_last_refresh := now\<rparr>
         in case dir of None \<Rightarrow> (s1, 0)
            | Some d \<Rightarrow>
                (let agg = read_stats_dir d
                 in (s1\<lparr>sd_profiles := dmerge (sd_profiles s1) agg\<rparr>, length agg))))"

definition predict_for_key :: "real \<Rightarrow> stats_dir option \<Rightarrow> string \<Rightarrow> scheduler \<Rightarrow> scheduler \<times> resources \<times> bool \<times> real" where
  "predict_for_key now dir key s =
     (let s1 = fst (refresh_resource_profiles now False dir s)
      in (s1, predict (sd_config s1) (dget (sd_profiles s1) key)))"

section \<open>Queueing a prompt\<close>

record sample_info =
  si_metadata :: "(string \<times> jval) list"
  si_image :: "string option"
  si_group_index :: "int option"
  si_index :: "int option"

definition enqueue_prompt :: "real \<Rightarrow> stats_dir option \<Rightarrow> string \<Rightarrow> int option \<Rightarrow> sample_info \<Rightarrow> scheduler \<Rightarrow> scheduler \<times> pending_prompt" where
  \<comment> \<open>the first half of \<open>admit_prompt\<close>; \<open>rand\<close> is the random part of the prompt id, instance ids are strings\<close>
  "enqueue_prompt now dir rand batch q s =
     (let iid = dget (instance_of (si_metadata q)) ''instance_id'';
          repo = extract_repo_key (si_metadata q) (si_image q) iid unknown_key;
          key = extract_data_key (si_metadata q) (si_image q) iid unknown_key;
          (s1, predicted, has_history, avg_time) = predict_for_key now dir key s;
          r = \<lparr>pp_prompt_id = build_prompt_id (si_group_index q) (si_index q) (as_str iid) rand,
               pp_repo = repo, pp_data_key = key, pp_rollout_id = infer_rollout_id (si_group_index q) batch,
               pp_group_index = si_group_index q, pp_sample_index = si_index q, pp_predicted = predicted,
               pp_avg_total_time = avg_time, pp_has_history = has_history, pp_created_at = now,
               pp_admitted = False, pp_blocked_log_ts = 0, pp_head_block_count = 0\<rparr>
      in (s1\<lparr>sd_pending := sd_pending s1 @ [r]\<rparr>, r))"

section \<open>Admission\<close>

definition mark_admitted :: "real \<Rightarrow> pending_prompt \<Rightarrow> scheduler \<Rightarrow> scheduler" where
  "mark_admitted now r s =
     (if pp_admitted r then s
      else s\<lparr>sd_pending := filter (\<lambda>x. pp_prompt_id x \<noteq> pp_prompt_id r) (sd_pending s),
             sd_active_predicted := rv_plus (sd_active_predicted s) (pp_predicted r),
             sd_active := dset (pp_prompt_id r)
               (new_active (pp_prompt_id r) (pp_repo r) (pp_data_key r) (pp_rollout_id r) (pp_predicted r)
                 (pp_has_history r) now) (sd_active s),
             sd_admitted_since_refresh := sd_admitted_since_refresh s + 1\<rparr>)"

definition reset_admission_window :: "scheduler \<Rightarrow> scheduler" where
  "reset_admission_window s = s\<lparr>sd_admitted_since_refresh := 0\<rparr>"

definition startup_active_cap :: "real \<Rightarrow> scheduler \<Rightarrow> int" where
  "startup_active_cap now s =
     (let cap = sc_startup_max_active (sd_config s); duration = max 0 (sc_startup_duration (sd_config s))
      in if cap \<le> 0 then 0 else if duration \<le> 0 then 0 else if now - sd_start_ts s \<le> duration then cap else 0)"

definition active_unknown :: "scheduler \<Rightarrow> int" where
  "active_unknown s = int (length (filter (\<lambda>a. \<not> ap_has_history a) (map snd (sd_active s))))"

definition is_idle :: "resources \<Rightarrow> bool" where
  "is_idle a = (rv_memory a = 0 \<and> rv_cpu a = 0 \<and> rv_disk_read a = 0 \<and> rv_disk_write a = 0)"

definition unknown_blocked :: "scheduler \<Rightarrow> pending_prompt \<Rightarrow> bool" where
  "unknown_blocked s r =
     (let cap = sc_max_unknown_concurrency (sd_config s)
      in \<not> pp_has_history r \<and> 0 < cap \<and> cap \<le> active_unknown s)"

definition at_cap :: "real \<Rightarrow> scheduler \<Rightarrow> bool" where
  \<comment> \<open>the early returns of \<open>_admit_next_unlocked\<close>\<close>
  "at_cap now s =
     (let cfg = sd_config s; n = int (length (sd_active s)); request_cap = max 0 (sc_max_requests_per_update cfg);
          active_cap = max 0 (sc_max_active cfg); startup_cap = startup_active_cap now s
      in 0 < request_cap \<and> request_cap \<le> sd_admitted_since_refresh s \<or>
         0 < active_cap \<and> active_cap \<le> n \<or> 0 < startup_cap \<and> startup_cap \<le> n)"

definition idle_oversized :: "scheduler \<Rightarrow> pending_prompt \<Rightarrow> bool" where
  "idle_oversized s r =
     (is_idle (active_for_budget (sd_config s) (sd_active_predicted s)) \<and>
      is_oversized (pp_predicted r) (effective_budget s))"

definition admissible :: "scheduler \<Rightarrow> pending_prompt \<Rightarrow> bool" where
  "admissible s r = (\<not> unknown_blocked s r \<and> fits s (pp_predicted r) (effective_budget s))"

definition forceable :: "scheduler \<Rightarrow> pending_prompt \<Rightarrow> bool" where
  "forceable s r =
     (\<not> unknown_blocked s r \<and> \<not> fits s (pp_predicted r) (effective_budget s) \<and> idle_oversized s r)"

definition admit_best :: "(pending_prompt \<Rightarrow> real) \<Rightarrow> real \<Rightarrow> scheduler \<Rightarrow> scheduler \<times> pending_prompt option" where
  "admit_best clock now s =
     (let budget = effective_budget s;
          residual = rv_minus budget (active_for_budget (sd_config s) (sd_active_predicted s));
          candidates = filter (admissible s) (sd_pending s);
          oversized = filter (forceable s) (sd_pending s)
      in if candidates = [] then
           (case first_min pp_created_at oversized of
              Some r \<Rightarrow> (mark_admitted now r s, Some r)
            | None \<Rightarrow> (s, None))
         else
           (let r = hd (sort_key_rev (\<lambda>r. packing_score (clock r) r residual budget) candidates)
            in (mark_admitted now r s, Some r)))"

subsection \<open>Head of line\<close>

definition set_head :: "pending_prompt \<Rightarrow> scheduler \<Rightarrow> scheduler" where
  "set_head r s = s\<lparr>sd_pending := r # tl (sd_pending s)\<rparr>"

definition defer_head :: "int \<Rightarrow> scheduler \<Rightarrow> scheduler" where
  "defer_head offset s =
     (case sd_pending s of [] \<Rightarrow> s
      | r # rest \<Rightarrow>
          (let r' = r\<lparr>pp_head_block_count := 0, pp_blocked_log_ts := 0\<rparr>;
               i = min (nat (max 1 offset)) (length rest)
           in s\<lparr>sd_pending := take i rest @ r' # drop i rest\<rparr>))"

partial_function (option) admit_head :: "real \<Rightarrow> scheduler \<Rightarrow> (scheduler \<times> pending_prompt option) option" where
  "admit_head now s =
     (case sd_pending s of [] \<Rightarrow> Some (s, None)
      | r # rest \<Rightarrow>
          (if unknown_blocked s r then Some (s, None)
           else if fits s (pp_predicted r) (effective_budget s) \<or> idle_oversized s r
           then (let r' = r\<lparr>pp_head_block_count := 0\<rparr> in Some (mark_admitted now r' s, Some r'))
           else
             (let r' = r\<lparr>pp_head_block_count := pp_head_block_count r + 1\<rparr>;
                  threshold = max 0 (sc_requeue_threshold (sd_config s));
                  offset = max 1 (sc_requeue_offset (sd_config s))
              in if 0 < threshold \<and> threshold \<le> pp_head_block_count r' \<and> rest \<noteq> []
                 then admit_head now (defer_head offset (set_head r' s))
                 else Some (set_head r' s, None))))"

definition admit_next :: "(pending_prompt \<Rightarrow> real) \<Rightarrow> real \<Rightarrow> scheduler \<Rightarrow> (scheduler \<times> pending_prompt option) option" where
  "admit_next clock now s =
     (if sd_pending s = [] \<or> at_cap now s then Some (s, None)
      else if sc_preserve_order (sd_config s) then admit_head now s
      else Some (admit_best clock now s))"

subsection \<open>A round of \<open>admit_prompt\<close>\<close>

definition note_blocked :: "real \<Rightarrow> string \<Rightarrow> scheduler \<Rightarrow> scheduler" where
  "note_blocked now pid s =
     s\<lparr>sd_pending := map (\<lambda>x. if pp_prompt_id x = pid \<and>
          max (1 / 10) (sc_blocked_log_interval (sd_config s)) \<le> now - pp_blocked_log_ts x
        then x\<lparr>pp_blocked_log_ts := now\<rparr> else x) (sd_pending s)\<rparr>"

definition take_ticket :: "real \<Rightarrow> pending_prompt \<Rightarrow> scheduler \<Rightarrow> scheduler \<times> ticket" where
  \<comment> \<open>the request has been admitted; a missing record is repaired\<close>
  "take_ticket now r s =
     (let (a, s1) = (case dget (sd_active s) (pp_prompt_id r) of
            Some a \<Rightarrow> (a, s)
          | None \<Rightarrow>
              (let a = new_active (pp_prompt_id r) (pp_repo r) (pp_data_key r) (pp_rollout_id r) (pp_predicted r)
                     (pp_has_history r) now
               in (a, s\<lparr>sd_active := dset (pp_prompt_id r) a (sd_active s)\<rparr>)))
      in (s1, \<lparr>tk_prompt_id = pp_prompt_id r, tk_repo = pp_repo r, tk_rollout_id = pp_rollout_id r,
               tk_predicted = ap_predicted a\<rparr>))"

definition admit_round :: "(pending_prompt \<Rightarrow> real) \<Rightarrow> real \<Rightarrow> pending_prompt \<Rightarrow> scheduler \<Rightarrow> (scheduler \<times> ticket option) option" where
  \<comment> \<open>a request is admitted when it is no longer pending\<close>
  "admit_round clock now r s =
     (case admit_next clock now s of None \<Rightarrow> None
      | Some (s1, _) \<Rightarrow>
          (if pp_prompt_id r \<notin> set (map pp_prompt_id (sd_pending s1))
           then (let (s2, t) = take_ticket now r s1 in Some (s2, Some t))
           else Some (note_blocked now (pp_prompt_id r) s1, None)))"

section \<open>Planning an order\<close>

record prompt_spec =
  ps_repo :: string
  ps_data_key :: "string option"
  ps_instance_id :: "string option"
  ps_rollout_id :: "int option"
  ps_group_index :: "int option"
  ps_sample_index :: "int option"

definition spec_key :: "prompt_spec \<Rightarrow> string" where
  "spec_key p =
     (case ps_data_key p of Some (c # cs) \<Rightarrow> c # cs
      | _ \<Rightarrow> (case ps_instance_id p of Some (c # cs) \<Rightarrow> c # cs | _ \<Rightarrow> ps_repo p))"

definition plan_request :: "scheduler \<Rightarrow> real \<Rightarrow> nat \<times> prompt_spec \<Rightarrow> prompt_spec \<times> pending_prompt" where
  "plan_request s now isp =
     (case isp of (i, p) \<Rightarrow>
        (case predict (sd_config s) (dget (sd_profiles s) (spec_key p)) of
           (predicted, has_history, avg_time) \<Rightarrow>
             (p, \<lparr>pp_prompt_id = ''plan-'' @ str_int (int i), pp_repo = ps_repo p, pp_data_key = spec_key p,
                  pp_rollout_id = ps_rollout_id p, pp_group_index = ps_group_index p,
                  pp_sample_index = ps_sample_index p, pp_predicted = predicted, pp_avg_total_time = avg_time,
                  pp_has_history = has_history, pp_created_at = now + real i / 1000, pp_admitted = False,
                  pp_blocked_log_ts = 0, pp_head_block_count = 0\<rparr>)))"

definition wave_choice :: "resources \<Rightarrow> resources \<Rightarrow> ('a \<times> pending_prompt) list \<Rightarrow>
    resources \<times> resources \<times> ('a \<times> pending_prompt) list" where
  \<comment> \<open>what is in use, the residual, and who may be chosen next; a full wave is closed\<close>
  "wave_choice budget active remaining =
     (let fit = filter (\<lambda>x. fits_virtual active (pp_predicted (snd x)) budget) remaining
      in if fit \<noteq> [] then (active, rv_minus budget active, fit)
         else
           (let fresh = filter (\<lambda>x. fits_virtual rv_zero (pp_predicted (snd x)) budget) remaining
            in (rv_zero, budget,
                if fresh \<noteq> [] then fresh
                else (case first_min (\<lambda>x. pp_created_at (snd x)) remaining of None \<Rightarrow> [] | Some x \<Rightarrow> [x]))))"

lemma wave_choice_subset:
  "remaining \<noteq> [] \<Longrightarrow> wave_choice budget active remaining = (a, r, fit) \<Longrightarrow> fit \<noteq> [] \<and> set fit \<subseteq> set remaining"
  by (auto simp: wave_choice_def Let_def split: if_splits option.splits dest: first_min_Some)

definition pick :: "(pending_prompt \<Rightarrow> real) \<Rightarrow> resources \<Rightarrow> resources \<Rightarrow> ('a \<times> pending_prompt) list \<Rightarrow> 'a \<times> pending_prompt" where
  "pick clock budget residual fit =
     hd (sort_key_rev (\<lambda>x. packing_score (clock (snd x)) (snd x) residual budget) fit)"

lemma pick_in: "fit \<noteq> [] \<Longrightarrow> pick clock budget residual fit \<in> set fit"
  unfolding pick_def by (metis hd_in_set set_sort_key_rev sort_key_rev_Nil)

lemma plan_decreases:
  assumes "remaining \<noteq> []" "(a, residual, fit) = wave_choice budget active remaining"
  shows "length (remove1 (pick clock budget residual fit) remaining) < length remaining"
proof -
  from wave_choice_subset [OF assms(1) assms(2) [symmetric]] pick_in [of fit clock budget residual]
  have "pick clock budget residual fit \<in> set remaining" by auto
  then show ?thesis using assms(1) by (simp add: length_remove1)
qed

function plan_loop :: "(nat \<Rightarrow> pending_prompt \<Rightarrow> real) \<Rightarrow> resources \<Rightarrow> resources \<Rightarrow> ('a \<times> pending_prompt) list \<Rightarrow>
    ('a \<times> pending_prompt) list" where
  "plan_loop clock budget active remaining =
     (if remaining = [] then []
      else
        (case wave_choice budget active remaining of (a, residual, fit) \<Rightarrow>
           (let x = pick (clock (length remaining)) budget residual fit;
                a' = (if fits_virtual a (pp_predicted (snd x)) budget then rv_plus a (pp_predicted (snd x)) else a)
            in x # plan_loop clock budget a' (remove1 x remaining))))"
  by pat_completeness auto
termination
  by (relation "measure (\<lambda>(c, b, a, xs). length xs)") (auto simp: Let_def intro: plan_decreases)

declare plan_loop.simps [simp del]

definition plan_prompt_order :: "(nat \<Rightarrow> pending_prompt \<Rightarrow> real) \<Rightarrow> real \<Rightarrow> stats_dir option \<Rightarrow> prompt_spec list \<Rightarrow>
    scheduler \<Rightarrow> scheduler \<times> prompt_spec list" where
  \<comment> \<open>the profiles are refreshed by the first prediction\<close>
  "plan_prompt_order clock now dir specs s =
     (let budget = effective_budget s;
          s1 = (if specs = [] then s else fst (refresh_resource_profiles now False dir s));
          remaining = map (plan_request s1 now) (enumerate 0 specs)
      in (s1, map fst (plan_loop clock budget rv_zero remaining)))"

end
