(* ===== verification/Scheduler_Usage.thy ===== *)
theory Scheduler_Usage
  imports Scheduler_Admission
begin

text \<open>
  What running prompts use: the leases tracked for a prompt, the statistics sampled for them, the
  summary when a prompt finishes, and the profiles learned from it.  The set of a prompt's leases is a
  list without repetition; which of them a sampling round takes (\<open>next(iter(...))\<close>) is a parameter,
  as is the shuffle.
\<close>

section \<open>Leases\<close>

definition set_active :: "string \<Rightarrow> active_prompt \<Rightarrow> scheduler \<Rightarrow> scheduler" where
  "set_active pid a s = s\<lparr>sd_active := dset pid a (sd_active s)\<rparr>"

definition ensure_sampler :: "scheduler \<Rightarrow> scheduler" where
  "ensure_sampler s =
     (if sc_disable_polling (sd_config s) \<or> sd_sampler_running s then s
      else s\<lparr>sd_stop_sampling := False, sd_sampler_running := True\<rparr>)"

definition attach_lease :: "string \<Rightarrow> string \<Rightarrow> scheduler \<Rightarrow> scheduler" where
  "attach_lease pid lease s =
     (if sc_disable_polling (sd_config s) \<or> lease = [] then s
      else case dget (sd_active s) pid of None \<Rightarrow> s
      | Some a \<Rightarrow>
          (let a' = a\<lparr>ap_leases := (if lease \<in> set (ap_leases a) then ap_leases a else ap_leases a @ [lease])\<rparr>;
               s1 = set_active pid a' s
           in ensure_sampler (s1\<lparr>sd_lease_to_prompt := dset lease pid (sd_lease_to_prompt s1)\<rparr>)))"

definition detach_lease :: "string \<Rightarrow> scheduler \<Rightarrow> scheduler" where
  "detach_lease lease s =
     (if sc_disable_polling (sd_config s) \<or> lease = [] then s
      else case dget (sd_lease_to_prompt s) lease of None \<Rightarrow> s
      | Some pid \<Rightarrow>
          (let s1 = s\<lparr>sd_lease_to_prompt := dpop lease (sd_lease_to_prompt s)\<rparr>
           in case dget (sd_active s1) pid of None \<Rightarrow> s1
              | Some a \<Rightarrow>
                  set_active pid (a\<lparr>ap_leases := filter (\<lambda>l. l \<noteq> lease) (ap_leases a),
                                    ap_lease_errors := dpop lease (ap_lease_errors a)\<rparr>) s1))"

section \<open>Statistics\<close>

record usage_payload =
  up_peak_memory :: "real jfield"
  up_memory :: "real jfield"
  up_avg_cpu :: "real jfield"
  up_cpu :: "real jfield"
  up_cpu_valid :: "bool jfield"
  up_peak_disk_read :: "real jfield"
  up_disk_read :: "real jfield"
  up_peak_disk_write :: "real jfield"
  up_disk_write :: "real jfield"

definition num_of :: "real jfield \<Rightarrow> real jfield \<Rightarrow> real" where
  \<comment> \<open>\<open>float(d.get(a, d.get(b, 0.0)) or 0.0)\<close>\<close>
  "num_of a b = (if a = Absent then jnum_or b else jnum_or a)"

definition record_usage :: "string \<Rightarrow> string \<Rightarrow> usage_payload \<Rightarrow> scheduler \<Rightarrow> scheduler" where
  \<comment> \<open>\<open>_record_lease_stats_payload\<close>\<close>
  "record_usage lease pid p s =
     (let memory = num_of (up_peak_memory p) (up_memory p); cpu = num_of (up_avg_cpu p) (up_cpu p);
          valid = (if up_cpu_valid p = Absent then 0 < cpu else jbool (up_cpu_valid p));
          dr = num_of (up_peak_disk_read p) (up_disk_read p); dw = num_of (up_peak_disk_write p) (up_disk_write p)
      in case dget (sd_active s) pid of None \<Rightarrow> s
         | Some a \<Rightarrow>
             (let u = dget_def (ap_usage_by_lease a) lease new_lease_usage;
                  u' = u\<lparr>lu_sample_count := lu_sample_count u + 1, lu_peak_memory := max (lu_peak_memory u) memory,
                         lu_disk_read := max (lu_disk_read u) dr, lu_disk_write := max (lu_disk_write u) dw,
                         lu_cpu_sample_count := lu_cpu_sample_count u + (if valid then 1 else 0),
                         lu_avg_cpu := (if valid then Some cpu else lu_avg_cpu u)\<rparr>;
                  a' = a\<lparr>ap_sample_count := ap_sample_count a + 1,
                         ap_usage_by_lease := dset lease u' (ap_usage_by_lease a),
                         ap_cpu_sample_count := ap_cpu_sample_count a + (if valid then 1 else 0),
                         ap_latest_cpu := (if valid then Some cpu else ap_latest_cpu a),
                         ap_cpu_by_lease := (if valid then dset lease cpu (ap_cpu_by_lease a) else ap_cpu_by_lease a),
                         ap_peak_memory := max (ap_peak_memory a) memory, ap_disk_read := max (ap_disk_read a) dr,
                         ap_disk_write := max (ap_disk_write a) dw,
                         ap_lease_errors := dpop lease (ap_lease_errors a)\<rparr>
              in set_active pid a' s))"

definition unknown_lease_text :: string where
  "unknown_lease_text = ''unknown lease_id''"

definition record_error :: "string \<Rightarrow> string \<Rightarrow> string \<Rightarrow> scheduler \<Rightarrow> scheduler" where
  \<comment> \<open>\<open>_record_lease_stats_error\<close>; \<open>err\<close> is the text of the exception\<close>
  "record_error lease pid err s =
     (case dget (sd_active s) pid of None \<Rightarrow> s
      | Some a \<Rightarrow>
          (let failures = dget_def (ap_lease_errors a) lease 0 + 1;
               a1 = a\<lparr>ap_lease_errors := dset lease failures (ap_lease_errors a)\<rparr>
           in if contains unknown_lease_text (lower err) \<or> 3 \<le> failures
              then (set_active pid (a1\<lparr>ap_leases := filter (\<lambda>l. l \<noteq> lease) (ap_leases a1)\<rparr>) s)
                     \<lparr>sd_lease_to_prompt := dpop lease (sd_lease_to_prompt s)\<rparr>
              else set_active pid a1 s))"

text \<open>One sample of a batch reply: missing or no object, not ok, or a payload.\<close>

datatype usage_item = Item_Missing | Item_Failed string | Item_Ok usage_payload

definition missing_item_msg :: string where
  "missing_item_msg = ''missing lease stats in batch response''"

definition record_item :: "string \<Rightarrow> string \<Rightarrow> usage_item \<Rightarrow> scheduler \<Rightarrow> scheduler" where
  "record_item lease pid it s =
     (case it of
        Item_Missing \<Rightarrow> record_error lease pid missing_item_msg s
      | Item_Failed e \<Rightarrow> record_error lease pid e s
      | Item_Ok p \<Rightarrow> record_usage lease pid p s)"

definition sample_leases :: "(string \<Rightarrow> usage_item) option \<Rightarrow> (string \<Rightarrow> string + usage_payload) \<Rightarrow>
    (string \<times> string) list \<Rightarrow> scheduler \<Rightarrow> scheduler" where
  \<comment> \<open>the batch reply when the client has one and it is valid, else one call per lease\<close>
  "sample_leases batch one leases s =
     (case batch of
        Some items \<Rightarrow> fold (\<lambda>(lease, pid). record_item lease pid (items lease)) leases s
      | None \<Rightarrow>
          fold (\<lambda>(lease, pid) s. case one lease of
              Inl e \<Rightarrow> record_error lease pid e s | Inr p \<Rightarrow> record_usage lease pid p s) leases s)"

section \<open>Choosing what to sample\<close>

definition sampling_candidates :: "(string list \<Rightarrow> string) \<Rightarrow> scheduler \<Rightarrow> (string \<times> string) list" where
  "sampling_candidates some_of s =
     map (\<lambda>(pid, a). (some_of (ap_leases a), pid)) (filter (\<lambda>(pid, a). ap_leases a \<noteq> []) (sd_active s))"

definition rotate_shuffle :: "((string \<times> string) list \<Rightarrow> (string \<times> string) list) \<Rightarrow> nat \<Rightarrow> (string \<times> string) list \<Rightarrow> (string \<times> string) list" where
  "rotate_shuffle shuffle cursor cs =
     (if 1 < length cs
      then (let rot = cursor mod length cs; cs1 = drop rot cs @ take rot cs; h = min (length cs1) 4
            in shuffle (take h cs1) @ drop h cs1)
      else cs)"

definition select_sampling_targets :: "(string list \<Rightarrow> string) \<Rightarrow> ((string \<times> string) list \<Rightarrow> (string \<times> string) list) \<Rightarrow>
    scheduler \<Rightarrow> scheduler \<times> (string \<times> string) list" where
  "select_sampling_targets some_of shuffle s =
     (let cs = sampling_candidates some_of s; n = length cs;
          limit = nat (max 1 (sc_max_stats_requests (sd_config s)));
          ordered = rotate_shuffle shuffle (nat (sd_sampling_cursor s)) cs
      in if cs = [] then (s, [])
         else (s\<lparr>sd_sampling_cursor := (sd_sampling_cursor s + int (min n limit)) mod int n\<rparr>, take limit ordered))"

section \<open>Finishing a prompt\<close>

record summary =
  su_prompt_id :: string
  su_repo :: string
  su_data_key :: string
  su_sample_count :: int
  su_peak_memory :: real
  su_avg_cpu :: real
  su_disk_read :: real
  su_disk_write :: real
  su_started_at :: real
  su_finished_at :: real
  su_total_time :: real
  su_cpu_sample_count :: int
  su_lease_count :: nat

definition mean :: "real list \<Rightarrow> real" where
  "mean xs = sum_list xs / real (length xs)"

definition mean_cpu :: "active_prompt \<Rightarrow> lease_usage list \<Rightarrow> real" where
  "mean_cpu a us =
     (let vs = concat (map (\<lambda>u. case lu_avg_cpu u of Some v \<Rightarrow> (if 0 < lu_cpu_sample_count u then [v] else []) | None \<Rightarrow> []) us)
      in if vs \<noteq> [] then mean vs
         else case ap_latest_cpu a of Some v \<Rightarrow> v | None \<Rightarrow> rv_cpu (ap_predicted a))"

definition usage_of :: "active_prompt \<Rightarrow> int \<times> real \<times> real \<times> real \<times> real \<times> nat" where
  \<comment> \<open>samples, memory, cpu, disk read, disk write and leases of the summary\<close>
  "usage_of a =
     (if ap_sample_count a \<le> 0
      then (1, rv_memory (ap_predicted a), rv_cpu (ap_predicted a), rv_disk_read (ap_predicted a), rv_disk_write (ap_predicted a), 0)
      else
        (let us = filter (\<lambda>u. 0 < lu_sample_count u) (map snd (ap_usage_by_lease a))
         in if us \<noteq> []
            then (ap_sample_count a, mean (map lu_peak_memory us), mean_cpu a us, mean (map lu_disk_read us),
                  mean (map lu_disk_write us), length us)
            else (ap_sample_count a, ap_peak_memory a,
                  (case ap_latest_cpu a of Some v \<Rightarrow> v
                   | None \<Rightarrow> if ap_cpu_by_lease a \<noteq> [] then mean (map snd (ap_cpu_by_lease a)) else rv_cpu (ap_predicted a)),
                  ap_disk_read a, ap_disk_write a, 0)))"

definition profile_key :: "summary \<Rightarrow> string" where
  "profile_key m =
     (let key = lower (strip (su_data_key m)); repo = lower (strip (su_repo m));
          k1 = (if key = [] \<or> key = unknown_key \<or> (repo \<noteq> [] \<and> key = repo)
                then (case data_key_from_prompt_id (Some (su_prompt_id m)) of Some k \<Rightarrow> k | None \<Rightarrow> key) else key)
      in if k1 = [] then (if su_prompt_id m \<noteq> [] then su_prompt_id m else su_repo m) else k1)"

definition update_repo_profile :: "real \<Rightarrow> summary \<Rightarrow> scheduler \<Rightarrow> scheduler" where
  "update_repo_profile now m s =
     (let key = profile_key m; p = dget_def (sd_profiles s) key new_profile; n = pf_sample_count p
      in s\<lparr>sd_profiles := dset key
            \<lparr>pf_sample_count = n + 1, pf_peak_memory = max (pf_peak_memory p) (su_peak_memory m),
             pf_avg_cpu = rolling_avg (pf_avg_cpu p) n (su_avg_cpu m),
             pf_avg_disk_read = rolling_avg (pf_avg_disk_read p) n (su_disk_read m),
             pf_avg_disk_write = rolling_avg (pf_avg_disk_write p) n (su_disk_write m),
             pf_avg_total_time = rolling_avg (pf_avg_total_time p) n (su_total_time m),
             pf_last_updated = now\<rparr> (sd_profiles s)\<rparr>)"

fun refresh_pending :: "string \<Rightarrow> resources \<times> bool \<times> real \<Rightarrow> nat \<Rightarrow> pending_prompt list \<Rightarrow> pending_prompt list" where
  \<comment> \<open>at most \<open>left\<close> requests of the key take the new prediction\<close>
  "refresh_pending key pred left [] = []"
| "refresh_pending key pred left (r # rs) =
     (if left = 0 then r # rs
      else if pp_data_key r \<noteq> key then r # refresh_pending key pred left rs
      else r\<lparr>pp_predicted := fst pred, pp_has_history := fst (snd pred), pp_avg_total_time := snd (snd pred),
             pp_blocked_log_ts := 0, pp_head_block_count := 0\<rparr> # refresh_pending key pred (left - 1) rs)"

definition refresh_pending_predictions :: "real \<Rightarrow> stats_dir option \<Rightarrow> string \<Rightarrow> scheduler \<Rightarrow> scheduler" where
  "refresh_pending_predictions now dir key s =
     (case predict_for_key now dir key s of
        (s1, pred) \<Rightarrow>
          s1\<lparr>sd_pending := refresh_pending key pred (nat (max 1 (sc_max_requests_per_update (sd_config s1)))) (sd_pending s1)\<rparr>)"

definition finish_prompt :: "real \<Rightarrow> stats_dir option \<Rightarrow> string \<Rightarrow> scheduler \<Rightarrow> scheduler \<times> summary option" where
  "finish_prompt now dir pid s =
     (case dget (sd_active s) pid of None \<Rightarrow> (s, None)
      | Some a \<Rightarrow>
          (let s1 = s\<lparr>sd_active := dpop pid (sd_active s),
                      sd_lease_to_prompt := filter (\<lambda>kv. fst kv \<notin> set (ap_leases a)) (sd_lease_to_prompt s),
                      sd_active_predicted := rv_minus (sd_active_predicted s) (ap_predicted a)\<rparr>;
               (n, mem, cpu, dr, dw, k) = usage_of a;
               m = \<lparr>su_prompt_id = pid, su_repo = ap_repo a, su_data_key = ap_data_key a, su_sample_count = n,
                    su_peak_memory = mem, su_avg_cpu = cpu, su_disk_read = dr, su_disk_write = dw,
                    su_started_at = ap_started_at a, su_finished_at = now,
                    su_total_time = max 0 (now - ap_started_at a), su_cpu_sample_count = ap_cpu_sample_count a,
                    su_lease_count = k\<rparr>;
               s2 = (if sc_live_updates (sd_config s1)
                     then refresh_pending_predictions now dir (ap_data_key a) (update_repo_profile now m s1) else s1)
           in (reset_admission_window s2, Some m)))"

definition record_prompt_summary :: "real \<Rightarrow> summary \<Rightarrow> scheduler \<Rightarrow> scheduler" where
  "record_prompt_summary now m s = update_repo_profile now m s"

definition server_refresh_round :: "real \<Rightarrow> bool \<Rightarrow> (exc + pool_report) \<Rightarrow> scheduler \<Rightarrow> scheduler" where
  \<comment> \<open>one round of \<open>_background_server_refresh_loop\<close>\<close>
  "server_refresh_round now has_url reply s =
     (case refresh_server_budget now True has_url reply s of
        (s1, refreshed) \<Rightarrow> if refreshed then reset_admission_window s1 else s1)"

definition close_scheduler :: "scheduler \<Rightarrow> scheduler" where
  "close_scheduler s = s\<lparr>sd_stop_sampling := True, sd_sampler_running := False\<rparr>"

section \<open>Start-up\<close>

definition new_scheduler :: "sched_config \<Rightarrow> real \<Rightarrow> stats_dir option \<Rightarrow> (string, profile) dict option \<Rightarrow> scheduler" where
  \<comment> \<open>\<open>stored\<close>: the profile file, if a path is configured and it can be read\<close>
  "new_scheduler cfg now dir stored =
     (let s = \<lparr>sd_config = cfg, sd_profiles = [], sd_active_predicted = rv_zero, sd_pending = [], sd_active = [],
               sd_lease_to_prompt = [], sd_sampling_cursor = 0, sd_sampler_running = False, sd_stop_sampling = False,
               sd_start_ts = now, sd_stats_last_refresh = 0, sd_server = no_view, sd_server_last_refresh = 0,
               sd_admitted_since_refresh = 0\<rparr>;
          (s1, loaded) = (if sc_use_stats_dir cfg then refresh_resource_profiles now True dir s else (s, 0))
      in if loaded = 0 then (case stored of None \<Rightarrow> s1 | Some d \<Rightarrow> s1\<lparr>sd_profiles := dmerge (sd_profiles s1) d\<rparr>)
         else s1)"

end
