(* ===== verification/Scheduler_Invariant.thy ===== *)
theory Scheduler_Invariant
  imports Scheduler_Usage
begin

text \<open>
  The scheduler as a transition system: every prompt is pending or active, never both, and the sum of
  active predictions that admission works with is exactly the sum over the active prompts.
\<close>

section \<open>Sums of resources\<close>

lemma rv_eq_iff:
  "(a :: resources) = b \<longleftrightarrow>
     rv_memory a = rv_memory b \<and> rv_cpu a = rv_cpu b \<and> rv_disk_read a = rv_disk_read b \<and> rv_disk_write a = rv_disk_write b"
  by (cases a; cases b) auto

lemma rv_simps [simp]:
  "rv_memory (rv_plus a b) = rv_memory a + rv_memory b" "rv_cpu (rv_plus a b) = rv_cpu a + rv_cpu b"
  "rv_disk_read (rv_plus a b) = rv_disk_read a + rv_disk_read b"
  "rv_disk_write (rv_plus a b) = rv_disk_write a + rv_disk_write b"
  "rv_memory rv_zero = 0" "rv_cpu rv_zero = 0" "rv_disk_read rv_zero = 0" "rv_disk_write rv_zero = 0"
  by (simp_all add: rv_plus_def rv_zero_def)

definition nonneg :: "resources \<Rightarrow> bool" where
  "nonneg a = (0 \<le> rv_memory a \<and> 0 \<le> rv_cpu a \<and> 0 \<le> rv_disk_read a \<and> 0 \<le> rv_disk_write a)"

fun rv_sum :: "resources list \<Rightarrow> resources" where
  "rv_sum [] = rv_zero"
| "rv_sum (a # as) = rv_plus a (rv_sum as)"

lemma rv_sum_nonneg: "list_all nonneg as \<Longrightarrow> nonneg (rv_sum as)"
  by (induction as) (simp_all add: nonneg_def)

lemma rv_sum_append: "rv_sum (as @ bs) = rv_plus (rv_sum as) (rv_sum bs)"
  by (induction as) (simp_all add: rv_eq_iff)

lemma rv_minus_exact: "nonneg b \<Longrightarrow> rv_minus (rv_plus a b) a = b"
  by (simp add: rv_minus_def rv_eq_iff nonneg_def)

definition active_sum :: "(string, active_prompt) dict \<Rightarrow> resources" where
  "active_sum d = rv_sum (map (\<lambda>kv. ap_predicted (snd kv)) d)"

lemma active_sum_fresh: "dget d k = None \<Longrightarrow> active_sum (dset k a d) = rv_plus (active_sum d) (ap_predicted a)"
  by (simp add: dset_fresh active_sum_def rv_sum_append rv_eq_iff)

lemma active_sum_same:
  "dget d k = Some a \<Longrightarrow> ap_predicted a' = ap_predicted a \<Longrightarrow> active_sum (dset k a' d) = active_sum d"
  by (induction d) (auto simp: active_sum_def)

lemma active_sum_pop:
  "distinct (dkeys d) \<Longrightarrow> dget d k = Some a \<Longrightarrow> active_sum d = rv_plus (ap_predicted a) (active_sum (dpop k d))"
proof (induction d)
  case (Cons kv d)
  show ?case
  proof (cases "fst kv = k")
    case True
    with Cons.prems have "dget d k = None" "snd kv = a" by (auto simp: map_of_eq_None_iff)
    then have "dpop k d = d" by (simp add: delete_id map_of_eq_None_iff)
    with True \<open>snd kv = a\<close> show ?thesis by (cases kv) (simp add: active_sum_def)
  next
    case False
    with Cons show ?thesis by (cases kv) (auto simp: active_sum_def rv_eq_iff)
  qed
qed simp

section \<open>The invariant\<close>

definition config_ok :: "sched_config \<Rightarrow> bool" where
  "config_ok cfg = (0 \<le> sc_default_disk_read cfg \<and> 0 \<le> sc_default_disk_write cfg)"

definition sched_ids :: "scheduler \<Rightarrow> string list" where
  "sched_ids s = map pp_prompt_id (sd_pending s) @ dkeys (sd_active s)"

definition sched_ok :: "scheduler \<Rightarrow> bool" where
  "sched_ok s =
     (config_ok (sd_config s) \<and> distinct (sched_ids s) \<and>
      (\<forall>r\<in>set (sd_pending s). nonneg (pp_predicted r) \<and> \<not> pp_admitted r) \<and>
      (\<forall>kv\<in>set (sd_active s). nonneg (ap_predicted (snd kv))) \<and>
      sd_active_predicted s = active_sum (sd_active s))"

lemma sched_okD:
  assumes "sched_ok s"
  shows "config_ok (sd_config s)" "distinct (sched_ids s)"
    "r \<in> set (sd_pending s) \<Longrightarrow> nonneg (pp_predicted r) \<and> \<not> pp_admitted r"
    "kv \<in> set (sd_active s) \<Longrightarrow> nonneg (ap_predicted (snd kv))"
    "sd_active_predicted s = active_sum (sd_active s)"
  using assms by (auto simp: sched_ok_def)

text \<open>The invariant looks at five fields only.\<close>

lemma sched_ok_frame:
  "sd_config t = sd_config s \<Longrightarrow> sd_pending t = sd_pending s \<Longrightarrow> sd_active t = sd_active s \<Longrightarrow>
     sd_active_predicted t = sd_active_predicted s \<Longrightarrow> sched_ok s \<Longrightarrow> sched_ok t"
  by (simp add: sched_ok_def sched_ids_def)

lemma sched_ok_updates [simp]:
  "sched_ok (s\<lparr>sd_profiles := x0\<rparr>) = sched_ok s"
  "sched_ok (s\<lparr>sd_lease_to_prompt := x1\<rparr>) = sched_ok s"
  "sched_ok (s\<lparr>sd_sampling_cursor := x2\<rparr>) = sched_ok s"
  "sched_ok (s\<lparr>sd_sampler_running := x3\<rparr>) = sched_ok s"
  "sched_ok (s\<lparr>sd_stop_sampling := x4\<rparr>) = sched_ok s"
  "sched_ok (s\<lparr>sd_stats_last_refresh := x5\<rparr>) = sched_ok s"
  "sched_ok (s\<lparr>sd_server := x6\<rparr>) = sched_ok s"
  "sched_ok (s\<lparr>sd_server_last_refresh := x7\<rparr>) = sched_ok s"
  "sched_ok (s\<lparr>sd_admitted_since_refresh := x8\<rparr>) = sched_ok s"
  by (simp_all add: sched_ok_def sched_ids_def)

lemma sched_ok_pending:
  assumes ok: "sched_ok s" and frame: "sd_config t = sd_config s" "sd_active t = sd_active s"
      "sd_active_predicted t = sd_active_predicted s"
    and ids: "mset (map pp_prompt_id (sd_pending t)) = mset (map pp_prompt_id (sd_pending s))"
    and good: "\<And>r. r \<in> set (sd_pending t) \<Longrightarrow> nonneg (pp_predicted r) \<and> \<not> pp_admitted r"
  shows "sched_ok t"
proof -
  have "mset (sched_ids t) = mset (sched_ids s)" using ids by (simp add: sched_ids_def frame)
  then have "distinct (sched_ids t)" using sched_okD(2) [OF ok] mset_eq_imp_distinct_iff by blast
  then show ?thesis using ok good by (simp add: sched_ok_def frame)
qed

lemma predict_nonneg: "config_ok cfg \<Longrightarrow> nonneg (fst (predict cfg p))"
  by (auto simp: predict_def nonneg_def config_ok_def Let_def le_max_iff_disj split: option.splits)

section \<open>Operations keep it\<close>

lemma refresh_profiles_frame [simp]:
  "sd_config (fst (refresh_resource_profiles now f dir s)) = sd_config s"
  "sd_pending (fst (refresh_resource_profiles now f dir s)) = sd_pending s"
  "sd_active (fst (refresh_resource_profiles now f dir s)) = sd_active s"
  "sd_active_predicted (fst (refresh_resource_profiles now f dir s)) = sd_active_predicted s"
  by (simp_all add: refresh_resource_profiles_def Let_def split: option.splits)

lemma predict_for_key_frame:
  "predict_for_key now dir key s = (t, pred) \<Longrightarrow> config_ok (sd_config s) \<Longrightarrow>
     sd_config t = sd_config s \<and> sd_pending t = sd_pending s \<and> sd_active t = sd_active s \<and>
     sd_active_predicted t = sd_active_predicted s \<and> nonneg (fst pred)"
  by (auto simp: predict_for_key_def Let_def predict_nonneg)

lemma enqueue_ok:
  assumes ok: "sched_ok s" and e: "enqueue_prompt now dir rand batch q s = (t, r)" and fresh: "pp_prompt_id r \<notin> set (sched_ids s)"
  shows "sched_ok t"
proof -
  define key where "key = extract_data_key (si_metadata q) (si_image q) (dget (instance_of (si_metadata q)) ''instance_id'') unknown_key"
  obtain s1 pred where p: "predict_for_key now dir key s = (s1, pred)" by (cases "predict_for_key now dir key s")
  note f = predict_for_key_frame [OF p sched_okD(1) [OF ok]]
  obtain pr hh av where pred: "pred = (pr, hh, av)" by (rule prod_cases3)
  from e p pred have t: "t = s1\<lparr>sd_pending := sd_pending s1 @ [r]\<rparr>" and r: "pp_predicted r = fst pred" "\<not> pp_admitted r"
    by (auto simp: enqueue_prompt_def Let_def key_def)
  have "distinct (sched_ids t)"
    using sched_okD(2) [OF ok] fresh f by (auto simp: t sched_ids_def)
  then show ?thesis using ok f r by (auto simp: sched_ok_def t)
qed

lemma filter_ids:
  "distinct (map pp_prompt_id xs) \<Longrightarrow> r \<in> set xs \<Longrightarrow>
     set (map pp_prompt_id (filter (\<lambda>x. pp_prompt_id x \<noteq> pp_prompt_id r) xs)) = set (map pp_prompt_id xs) - {pp_prompt_id r}"
  by auto

lemma mark_admitted_ok:
  assumes ok: "sched_ok s" and r: "r' \<in> set (sd_pending s)" "pp_prompt_id r = pp_prompt_id r'" "pp_predicted r = pp_predicted r'"
    "\<not> pp_admitted r"
  shows "sched_ok (mark_admitted now r s)"
proof -
  note ok' = sched_okD [OF ok]
  have dist: "distinct (map pp_prompt_id (sd_pending s))" "distinct (dkeys (sd_active s))"
    "set (map pp_prompt_id (sd_pending s)) \<inter> set (dkeys (sd_active s)) = {}"
    using ok'(2) by (auto simp: sched_ids_def)
  then have new: "dget (sd_active s) (pp_prompt_id r) = None" using r by (auto simp: map_of_eq_None_iff)
  let ?a = "new_active (pp_prompt_id r) (pp_repo r) (pp_data_key r) (pp_rollout_id r) (pp_predicted r) (pp_has_history r) now"
  let ?p = "filter (\<lambda>x. pp_prompt_id x \<noteq> pp_prompt_id r) (sd_pending s)"
  have a: "dset (pp_prompt_id r) ?a (sd_active s) = sd_active s @ [(pp_prompt_id r, ?a)]" by (rule dset_fresh [OF new])
  have sum: "active_sum (dset (pp_prompt_id r) ?a (sd_active s)) = rv_plus (active_sum (sd_active s)) (pp_predicted r)"
    by (subst active_sum_fresh [OF new]) (simp add: new_active_def)
  have "distinct (map pp_prompt_id ?p)" using dist(1) by (rule distinct_map_filter)
  moreover have "set (map pp_prompt_id ?p) \<inter> insert (pp_prompt_id r) (set (dkeys (sd_active s))) = {}"
    using dist(3) by auto
  moreover have "pp_prompt_id r \<notin> set (dkeys (sd_active s))" using new by (simp add: map_of_eq_None_iff)
  ultimately have "distinct (map pp_prompt_id ?p @ dkeys (sd_active s) @ [pp_prompt_id r])"
    using dist(2) by auto
  moreover have "nonneg (ap_predicted ?a)" using ok'(3) [OF r(1)] r(3) by (simp add: new_active_def)
  ultimately show ?thesis
    using ok r(4) sum by (auto simp: sched_ok_def mark_admitted_def sched_ids_def a)
qed

subsection \<open>Rounds of admission\<close>

lemma is_admitted_sub: "first_min f (filter P xs) = Some r \<Longrightarrow> r \<in> set xs \<and> P r"
  using first_min_Some [of f "filter P xs" r] by auto

lemma admit_best_cases:
  assumes "admit_best clock now s = (t, ro)"
  shows "(ro = None \<and> t = s \<and> filter (admissible s) (sd_pending s) = [] \<and> filter (forceable s) (sd_pending s) = []) \<or>
    (\<exists>r. ro = Some r \<and> r \<in> set (sd_pending s) \<and> t = mark_admitted now r s \<and>
      (admissible s r \<and>
         (\<forall>x\<in>set (filter (admissible s) (sd_pending s)).
            packing_score (clock x) x (rv_minus (effective_budget s) (active_for_budget (sd_config s) (sd_active_predicted s))) (effective_budget s)
            \<le> packing_score (clock r) r (rv_minus (effective_budget s) (active_for_budget (sd_config s) (sd_active_predicted s))) (effective_budget s)) \<or>
       forceable s r \<and> filter (admissible s) (sd_pending s) = [] \<and>
         (\<forall>x\<in>set (filter (forceable s) (sd_pending s)). pp_created_at r \<le> pp_created_at x)))"
proof (cases "filter (admissible s) (sd_pending s) = []")
  case True
  show ?thesis
  proof (cases "first_min pp_created_at (filter (forceable s) (sd_pending s))")
    case None
    with True assms show ?thesis by (auto simp: admit_best_def Let_def)
  next
    case (Some r)
    with True assms have "ro = Some r" "t = mark_admitted now r s" by (auto simp: admit_best_def Let_def)
    with is_admitted_sub [OF Some] first_min_Some [OF Some] True show ?thesis by blast
  qed
next
  case False
  define score where "score = (\<lambda>r. packing_score (clock r) r
    (rv_minus (effective_budget s) (active_for_budget (sd_config s) (sd_active_predicted s))) (effective_budget s))"
  obtain r rs where srt: "sort_key_rev score (filter (admissible s) (sd_pending s)) = r # rs"
    using False by (metis neq_Nil_conv sort_key_rev_Nil)
  from False assms srt have "ro = Some r" "t = mark_admitted now r s"
    unfolding score_def by (simp_all add: admit_best_def Let_def)
  moreover have "r \<in> set (sd_pending s)" "admissible s r" using sort_key_rev_hd(1) [OF srt] by auto
  ultimately show ?thesis using sort_key_rev_hd(2) [OF srt] unfolding score_def by blast
qed

lemma set_head_ok: "sched_ok s \<Longrightarrow> sd_pending s = r # rest \<Longrightarrow> sched_ok (set_head (r\<lparr>pp_head_block_count := n\<rparr>) s)"
  by (rule sched_ok_pending) (auto simp: set_head_def sched_ok_def)

lemma defer_head_ok:
  assumes ok: "sched_ok s" shows "sched_ok (defer_head k s)"
proof (cases "sd_pending s")
  case Nil
  with ok show ?thesis by (simp add: defer_head_def)
next
  case (Cons r rest)
  let ?i = "min (nat (max 1 k)) (length rest)"
  let ?r = "r\<lparr>pp_head_block_count := 0, pp_blocked_log_ts := 0\<rparr>"
  have d: "defer_head k s = s\<lparr>sd_pending := take ?i rest @ ?r # drop ?i rest\<rparr>" by (simp add: defer_head_def Cons Let_def)
  have m: "mset (map pp_prompt_id (take ?i rest)) + mset (map pp_prompt_id (drop ?i rest)) = mset (map pp_prompt_id rest)"
    by (metis append_take_drop_id map_append mset_append)
  show ?thesis unfolding d
  proof (rule sched_ok_pending [OF ok])
    show "mset (map pp_prompt_id (sd_pending (s\<lparr>sd_pending := take ?i rest @ ?r # drop ?i rest\<rparr>))) =
        mset (map pp_prompt_id (sd_pending s))"
      using m by (simp add: Cons)
    fix x assume "x \<in> set (sd_pending (s\<lparr>sd_pending := take ?i rest @ ?r # drop ?i rest\<rparr>))"
    then have "x = ?r \<or> x \<in> set rest" by (auto dest: in_set_takeD in_set_dropD)
    then show "nonneg (pp_predicted x) \<and> \<not> pp_admitted x" using sched_okD(3) [OF ok] Cons by auto
  qed simp_all
qed

lemma admit_head_keeps:
  assumes ret: "admit_head now s = Some (t, ro)" and start: "P s"
    and head: "\<And>s r rest n. P s \<Longrightarrow> sd_pending s = r # rest \<Longrightarrow> P (set_head (r\<lparr>pp_head_block_count := n\<rparr>) s)"
    and later: "\<And>s k. P s \<Longrightarrow> P (defer_head k s)"
    and mark: "\<And>s r rest. P s \<Longrightarrow> sd_pending s = r # rest \<Longrightarrow> P (mark_admitted now (r\<lparr>pp_head_block_count := 0\<rparr>) s)"
  shows "P t"
proof -
  have "n = now \<longrightarrow> P s \<longrightarrow> P (fst (t, ro))" if "n = now" for n
  proof (rule admit_head.raw_induct [where P = "\<lambda>n s y. n = now \<longrightarrow> P s \<longrightarrow> P (fst y)", OF _ ret [folded that]])
    fix f n s y
    assume IH: "\<And>n s y. f n s = Some y \<Longrightarrow> n = now \<longrightarrow> P s \<longrightarrow> P (fst y)"
      and e: "(case sd_pending s of [] \<Rightarrow> Some (s, None)
      | r # rest \<Rightarrow>
          (if unknown_blocked s r then Some (s, None)
           else if fits s (pp_predicted r) (effective_budget s) \<or> idle_oversized s r
           then (let r' = r\<lparr>pp_head_block_count := 0\<rparr> in Some (mark_admitted n r' s, Some r'))
           else
             (let r' = r\<lparr>pp_head_block_count := pp_head_block_count r + 1\<rparr>;
                  threshold = max 0 (sc_requeue_threshold (sd_config s));
                  offset = max 1 (sc_requeue_offset (sd_config s))
              in if 0 < threshold \<and> threshold \<le> pp_head_block_count r' \<and> rest \<noteq> []
                 then f n (defer_head offset (set_head r' s))
                 else Some (set_head r' s, None)))) = Some y"
    have "P (fst y)" if P: "P s" and n: "n = now"
    proof (cases "sd_pending s")
      case Nil
      with e P show ?thesis by auto
    next
      case (Cons r rest)
      from e Cons n mark [OF P Cons] head [OF P Cons] later IH P show ?thesis
        by (auto simp: Let_def split: if_splits)
    qed
    then show "n = now \<longrightarrow> P s \<longrightarrow> P (fst y)" by blast
  qed
  with start show ?thesis by simp
qed

lemma set_head_ids: "sd_pending s = r # rest \<Longrightarrow> set (sched_ids (set_head (r\<lparr>pp_head_block_count := n\<rparr>) s)) = set (sched_ids s)"
  by (simp add: set_head_def sched_ids_def)

lemma defer_head_ids: "set (sched_ids (defer_head k s)) = set (sched_ids s)"
proof (cases "sd_pending s")
  case (Cons r rest)
  have "f ` set (take i rest) \<union> f ` set (drop i rest) = f ` set rest" for i and f :: "pending_prompt \<Rightarrow> string"
    by (simp only: image_Un [symmetric] set_append [symmetric] append_take_drop_id)
  then show ?thesis by (simp add: defer_head_def Cons Let_def sched_ids_def Un_assoc [symmetric])
qed (simp add: defer_head_def)

lemma mark_admitted_ids:
  "r' \<in> set (sd_pending s) \<Longrightarrow> pp_prompt_id r = pp_prompt_id r' \<Longrightarrow> \<not> pp_admitted r \<Longrightarrow>
     set (sched_ids (mark_admitted now r s)) = set (sched_ids s)"
  by (auto simp: mark_admitted_def sched_ids_def keys_dset)

definition ok_with :: "string set \<Rightarrow> scheduler \<Rightarrow> bool" where
  "ok_with ids s = (sched_ok s \<and> set (sched_ids s) = ids)"

lemma mark_admitted_ok_with:
  "ok_with ids s \<Longrightarrow> r' \<in> set (sd_pending s) \<Longrightarrow> pp_prompt_id r = pp_prompt_id r' \<Longrightarrow> pp_predicted r = pp_predicted r' \<Longrightarrow>
     pp_admitted r = pp_admitted r' \<Longrightarrow> ok_with ids (mark_admitted now r s)"
  using mark_admitted_ok [of s r' r now] mark_admitted_ids [of r' s r now] sched_okD(3) [of s r'] by (auto simp: ok_with_def)

lemma admit_head_ok:
  assumes ret: "admit_head now s = Some (t, ro)" and ok: "ok_with ids s" shows "ok_with ids t"
  using ret ok
proof (rule admit_head_keeps)
  fix s r rest n assume "ok_with ids s" "sd_pending s = r # rest"
  then show "ok_with ids (set_head (r\<lparr>pp_head_block_count := n\<rparr>) s)" "ok_with ids (mark_admitted now (r\<lparr>pp_head_block_count := 0\<rparr>) s)"
    using set_head_ok set_head_ids mark_admitted_ok_with [of ids s r "r\<lparr>pp_head_block_count := 0\<rparr>" now] by (auto simp: ok_with_def)
next
  fix s k assume "ok_with ids s"
  then show "ok_with ids (defer_head k s)" by (simp add: ok_with_def defer_head_ok defer_head_ids)
qed

lemma admit_best_ok:
  assumes "admit_best clock now s = (t, ro)" and ok: "ok_with ids s" shows "ok_with ids t"
proof -
  from admit_best_cases [OF assms(1)] have "t = s \<or> (\<exists>r. r \<in> set (sd_pending s) \<and> t = mark_admitted now r s)"
    by blast
  with ok mark_admitted_ok_with [OF ok] show ?thesis by blast
qed

lemma admit_next_ok:
  "admit_next clock now s = Some (t, ro) \<Longrightarrow> ok_with ids s \<Longrightarrow> ok_with ids t"
  by (auto simp: admit_next_def split: if_splits intro: admit_head_ok admit_best_ok)

lemma note_blocked_ids [simp]: "map pp_prompt_id (sd_pending (note_blocked now pid s)) = map pp_prompt_id (sd_pending s)"
  by (simp add: note_blocked_def o_def if_distrib cong: if_cong)

lemma note_blocked_ok:
  assumes "sched_ok s" shows "sched_ok (note_blocked now pid s)"
proof (rule sched_ok_pending [OF assms])
  show "mset (map pp_prompt_id (sd_pending (note_blocked now pid s))) = mset (map pp_prompt_id (sd_pending s))"
    by (simp only: note_blocked_ids)
  fix r assume "r \<in> set (sd_pending (note_blocked now pid s))"
  then show "nonneg (pp_predicted r) \<and> \<not> pp_admitted r"
    using sched_okD(3) [OF assms] by (auto simp: note_blocked_def split: if_splits)
qed (simp_all add: note_blocked_def)


lemma note_blocked_ids_all: "set (sched_ids (note_blocked now pid s)) = set (sched_ids s)"
  unfolding sched_ids_def set_append note_blocked_ids by (simp add: note_blocked_def)

text \<open>A request that is no longer pending is active, so the repair in \<open>admit_prompt\<close> never happens.\<close>

lemma take_ticket_id: "pp_prompt_id r \<in> set (dkeys (sd_active s)) \<Longrightarrow> fst (take_ticket now r s) = s"
  by (auto simp: take_ticket_def map_of_eq_None_iff split: option.splits)

lemma admit_round_ok:
  assumes "admit_round clock now r s = Some (t, tk)" and ok: "ok_with ids s" and r: "pp_prompt_id r \<in> ids"
  shows "ok_with ids t"
proof -
  from assms(1) obtain s1 ro where n: "admit_next clock now s = Some (s1, ro)"
    by (auto simp: admit_round_def split: option.splits)
  note ok1 = admit_next_ok [OF n ok]
  show ?thesis
  proof (cases "pp_prompt_id r \<in> set (map pp_prompt_id (sd_pending s1))")
    case True
    with assms(1) n have "t = note_blocked now (pp_prompt_id r) s1" by (auto simp: admit_round_def)
    with ok1 show ?thesis by (simp add: ok_with_def note_blocked_ok note_blocked_ids_all)
  next
    case False
    with ok1 r have "pp_prompt_id r \<in> set (dkeys (sd_active s1))" by (auto simp: ok_with_def sched_ids_def)
    with False assms(1) n take_ticket_id [of r s1 now] have "t = s1" by (auto simp: admit_round_def split: prod.splits)
    with ok1 show ?thesis by simp
  qed
qed

section \<open>Running and finished prompts\<close>

lemma set_active_ok:
  assumes ok: "sched_ok s" and a: "dget (sd_active s) pid = Some a" "ap_predicted a' = ap_predicted a"
  shows "sched_ok (set_active pid a' s)"
proof -
  have keys: "dkeys (dset pid a' (sd_active s)) = dkeys (sd_active s)"
    using a(1) by (simp add: update_keys map_of_eq_None_iff) (metis dkeys_set map_of_eq_None_iff option.distinct(1))
  have "kv \<in> set (dset pid a' d) \<Longrightarrow> kv = (pid, a') \<or> kv \<in> set d" for kv d
    by (induction d) (auto split: if_splits)
  moreover have "nonneg (ap_predicted a)" using sched_okD(4) [OF ok, of "(pid, a)"] a(1) by (auto dest: map_of_SomeD)
  ultimately show ?thesis
    using ok a(2) active_sum_same [OF a] by (fastforce simp: sched_ok_def set_active_def sched_ids_def keys)
qed


lemma attach_ok: "sched_ok s \<Longrightarrow> sched_ok (attach_lease pid lease s)"
  by (auto simp: attach_lease_def ensure_sampler_def Let_def set_active_ok split: option.splits)

lemma detach_ok: "sched_ok s \<Longrightarrow> sched_ok (detach_lease lease s)"
  by (auto simp: detach_lease_def Let_def split: option.splits intro!: set_active_ok)

lemma record_usage_ok: "sched_ok s \<Longrightarrow> sched_ok (record_usage lease pid p s)"
  by (auto simp: record_usage_def Let_def split: option.splits intro!: set_active_ok)

lemma record_error_ok: "sched_ok s \<Longrightarrow> sched_ok (record_error lease pid err s)"
  by (auto simp: record_error_def Let_def set_active_ok split: option.splits)

lemma record_item_ok: "sched_ok s \<Longrightarrow> sched_ok (record_item lease pid it s)"
  by (auto simp: record_item_def record_usage_ok record_error_ok split: usage_item.split)

lemma refresh_pending_ids [simp]: "map pp_prompt_id (refresh_pending key pred n rs) = map pp_prompt_id rs"
  by (induction key pred n rs rule: refresh_pending.induct) auto

lemma refresh_pending_good:
  "nonneg (fst pred) \<Longrightarrow> \<forall>r\<in>set rs. nonneg (pp_predicted r) \<and> \<not> pp_admitted r \<Longrightarrow>
     \<forall>r\<in>set (refresh_pending key pred n rs). nonneg (pp_predicted r) \<and> \<not> pp_admitted r"
  by (induction key pred n rs rule: refresh_pending.induct) auto

lemma refresh_predictions_ok:
  assumes ok: "sched_ok s" shows "sched_ok (refresh_pending_predictions now dir key s)"
proof -
  obtain s1 pred where p: "predict_for_key now dir key s = (s1, pred)" by (cases "predict_for_key now dir key s")
  note f = predict_for_key_frame [OF p sched_okD(1) [OF ok]]
  show ?thesis
  proof (rule sched_ok_pending [OF ok])
    show "mset (map pp_prompt_id (sd_pending (refresh_pending_predictions now dir key s))) = mset (map pp_prompt_id (sd_pending s))"
      using f by (simp add: refresh_pending_predictions_def p del: mset_map)
    fix r assume "r \<in> set (sd_pending (refresh_pending_predictions now dir key s))"
    with refresh_pending_good [of pred "sd_pending s"] f sched_okD(3) [OF ok] show "nonneg (pp_predicted r) \<and> \<not> pp_admitted r"
      by (auto simp: refresh_pending_predictions_def p)
  qed (use f in \<open>simp_all add: refresh_pending_predictions_def p\<close>)
qed

lemma dpop_filter: "dpop k d = filter (\<lambda>kv. fst kv \<noteq> k) d"
  by (induction d) auto

lemma active_sum_nonneg: "\<forall>kv\<in>set d. nonneg (ap_predicted (snd kv)) \<Longrightarrow> nonneg (active_sum d)"
  unfolding active_sum_def by (rule rv_sum_nonneg) (simp add: list_all_iff)

lemma pop_active_ok:
  assumes ok: "sched_ok s" and a: "dget (sd_active s) pid = Some a"
  shows "sched_ok (s\<lparr>sd_active := dpop pid (sd_active s), sd_lease_to_prompt := l,
    sd_active_predicted := rv_minus (sd_active_predicted s) (ap_predicted a)\<rparr>)"
proof -
  have dist: "distinct (dkeys (sd_active s))" using sched_okD(2) [OF ok] by (simp add: sched_ids_def)
  have sub: "set (dpop pid (sd_active s)) \<subseteq> set (sd_active s)" by (simp add: dpop_filter)
  then have nn: "nonneg (active_sum (dpop pid (sd_active s)))"
    using sched_okD(4) [OF ok] by (intro active_sum_nonneg) auto
  have "rv_minus (sd_active_predicted s) (ap_predicted a) = active_sum (dpop pid (sd_active s))"
    unfolding sched_okD(5) [OF ok] active_sum_pop [OF dist a] by (rule rv_minus_exact [OF nn])
  moreover have "distinct (sched_ids (s\<lparr>sd_active := dpop pid (sd_active s)\<rparr>))"
    using sched_okD(2) [OF ok] distinct_dpop [OF dist, of pid] sub by (auto simp: sched_ids_def)
  ultimately show ?thesis using ok sub by (auto simp: sched_ok_def sched_ids_def)
qed

lemma finish_ok:
  assumes ok: "sched_ok s" shows "sched_ok (fst (finish_prompt now dir pid s))"
proof (cases "dget (sd_active s) pid")
  case None
  with ok show ?thesis by (simp add: finish_prompt_def)
next
  case (Some a)
  note ok1 = pop_active_ok [OF ok Some]
  have "sched_ok (update_repo_profile now m t) = sched_ok t" "sched_ok (reset_admission_window t) = sched_ok t" for m t
    by (simp_all add: update_repo_profile_def reset_admission_window_def Let_def)
  with ok1 show ?thesis
    by (auto simp: finish_prompt_def Some Let_def split: prod.splits intro!: refresh_predictions_ok)
qed


section \<open>The scheduler's histories\<close>

text \<open>
  Every region of the code between two awaits is a step.  A prompt id is fresh when it is drawn (eight
  random hexadecimal digits), and a round of admission is run for a prompt that is pending or active,
  as \<open>admit_prompt\<close> does for its own prompt.
\<close>

inductive sched_step :: "scheduler \<Rightarrow> scheduler \<Rightarrow> bool" where
  enqueue: "enqueue_prompt now dir rand batch q s = (t, r) \<Longrightarrow> pp_prompt_id r \<notin> set (sched_ids s) \<Longrightarrow> sched_step s t"
| admit: "pp_prompt_id r \<in> set (sched_ids s) \<Longrightarrow> admit_round clock now r s = Some (t, tk) \<Longrightarrow> sched_step s t"
| finish: "sched_step s (fst (finish_prompt now dir pid s))"
| attach: "sched_step s (attach_lease pid lease s)"
| detach: "sched_step s (detach_lease lease s)"
| sample: "sched_step s (record_item lease pid it s)"
| select: "sched_step s (fst (select_sampling_targets some_of shuffle s))"
| server: "sched_step s (server_refresh_round now has_url reply s)"
| plan: "sched_step s (fst (plan_prompt_order clock now dir specs s))"
| summary: "sched_step s (record_prompt_summary now m s)"
| close: "sched_step s (close_scheduler s)"

definition sched_init :: "scheduler \<Rightarrow> bool" where
  "sched_init s = (\<exists>cfg now dir stored. config_ok cfg \<and> s = new_scheduler cfg now dir stored)"

lemma refresh_profiles_ok: "sched_ok s \<Longrightarrow> sched_ok (fst (refresh_resource_profiles now f dir s))"
  by (rule sched_ok_frame) simp_all

lemma new_scheduler_ok:
  assumes "config_ok cfg" shows "sched_ok (new_scheduler cfg now dir stored)"
proof -
  define s where "s = \<lparr>sd_config = cfg, sd_profiles = [], sd_active_predicted = rv_zero, sd_pending = [], sd_active = [],
    sd_lease_to_prompt = [], sd_sampling_cursor = 0, sd_sampler_running = False, sd_stop_sampling = False,
    sd_start_ts = now, sd_stats_last_refresh = 0, sd_server = no_view, sd_server_last_refresh = 0,
    sd_admitted_since_refresh = 0\<rparr>"
  have ok: "sched_ok s" using assms by (simp add: s_def sched_ok_def sched_ids_def active_sum_def)
  obtain s1 n where p: "(if sc_use_stats_dir cfg then refresh_resource_profiles now True dir s else (s, 0)) = (s1, n)"
    by (rule prod.exhaust)
  have "s1 = fst (if sc_use_stats_dir cfg then refresh_resource_profiles now True dir s else (s, 0))" by (simp add: p)
  with ok have ok1: "sched_ok s1" by (simp add: refresh_profiles_ok split: if_split_asm)
  have "new_scheduler cfg now dir stored = (if n = 0 then (case stored of None \<Rightarrow> s1
      | Some d \<Rightarrow> s1\<lparr>sd_profiles := dmerge (sd_profiles s1) d\<rparr>) else s1)"
    unfolding new_scheduler_def Let_def s_def [symmetric] p by simp
  with ok1 show ?thesis by (simp split: option.split)
qed

lemma server_refresh_ok: "sched_ok (server_refresh_round now has_url reply s) = sched_ok s"
  by (simp add: server_refresh_round_def refresh_server_budget_def reset_admission_window_def Let_def split: sum.split)

lemma sched_step_ok: "sched_step s t \<Longrightarrow> sched_ok s \<Longrightarrow> sched_ok t"
proof (induction rule: sched_step.induct)
  case (admit r s clock now t tk)
  then have "ok_with (set (sched_ids s)) s" by (simp add: ok_with_def)
  with admit_round_ok [OF admit(2) this admit(1)] show ?case by (simp add: ok_with_def)
next
  case (plan s clock now dir specs)
  then show ?case by (simp add: plan_prompt_order_def Let_def refresh_profiles_ok)
qed (auto simp: enqueue_ok finish_ok attach_ok detach_ok record_item_ok server_refresh_ok
    select_sampling_targets_def record_prompt_summary_def update_repo_profile_def close_scheduler_def Let_def)

interpretation sched: stepping sched_init sched_step sched_ok
  by unfold_locales (auto simp: sched_init_def new_scheduler_ok intro: sched_step_ok)

end
