(* ===== verification/Scheduler_Properties.thy ===== *)
theory Scheduler_Properties
  imports Scheduler_Invariant
begin

text \<open>
  What the scheduler promises: exact accounting of the active predictions, admissions within the budget
  and by best fit, progress when nothing runs, and when the head-of-line loop ends.
\<close>

section \<open>A concrete scheduler\<close>

text \<open>The default configuration, and one prompt without any metadata queued.\<close>

definition w_start :: scheduler where
  "w_start = new_scheduler default_config 0 None None"

definition w_sample :: sample_info where
  "w_sample = \<lparr>si_metadata = [], si_image = None, si_group_index = None, si_index = None\<rparr>"

definition w_queued :: scheduler where
  "w_queued = fst (enqueue_prompt 0 None ''r'' None w_sample w_start)"

lemma w_start_fields: "sd_active w_start = []" "sd_pending w_start = []" "sd_config w_start = default_config" 
  "sd_admitted_since_refresh w_start = 0" "sd_active_predicted w_start = rv_zero" "sd_server w_start = no_view"
  by (simp_all add: w_start_def new_scheduler_def refresh_resource_profiles_def Let_def default_config_def)

lemma w_queued_fields:
  "sd_active w_queued = []" "sd_config w_queued = default_config" "sd_admitted_since_refresh w_queued = 0"
  "sd_active_predicted w_queued = rv_zero" "sd_server w_queued = no_view"
  using w_start_fields
  by (simp_all add: w_queued_def enqueue_prompt_def predict_for_key_def refresh_resource_profiles_def Let_def split: prod.splits)

lemma w_queue: "\<exists>r. sd_pending w_queued = [r]"
  using w_start_fields
  by (simp_all add: w_queued_def enqueue_prompt_def predict_for_key_def refresh_resource_profiles_def Let_def split: prod.splits)

lemma w_queued_step: "sched_step w_start w_queued"
  unfolding w_queued_def
  by (rule sched_step.enqueue [where now = 0 and dir = None and rand = "''r''" and batch = None and q = w_sample
        and r = "snd (enqueue_prompt 0 None ''r'' None w_sample w_start)"]) (use w_start_fields in \<open>auto simp: sched_ids_def\<close>)

lemma w_reached: "sched_step\<^sup>*\<^sup>* (new_scheduler default_config 0 None None) w_queued"
  using w_queued_step unfolding w_start_def by blast

lemma w_config_ok: "config_ok default_config"
  by (simp add: config_ok_def default_config_def gib_def)

lemma w_queued_ok: "sched_ok w_queued"
  using sched.reachable_inv [OF _ w_reached] w_config_ok unfolding sched_init_def by blast

section \<open>Exact accounting\<close>

text \<open>C14. The sum of active predictions that admission measures against is, in every history of the
  scheduler, exactly the sum over the prompts now active: the clamping subtraction of \<open>finish_prompt\<close> never
  cuts anything off.  No prompt is both pending and active or queued twice, and no prediction is negative.\<close>

theorem active_predictions_exact:
  assumes "config_ok cfg" and "sched_step\<^sup>*\<^sup>* (new_scheduler cfg now dir stored) s"
  shows "sd_active_predicted s = active_sum (sd_active s) \<and> distinct (sched_ids s) \<and>
    (\<forall>r\<in>set (sd_pending s). nonneg (pp_predicted r)) \<and> (\<forall>kv\<in>set (sd_active s). nonneg (ap_predicted (snd kv)))"
proof -
  have "sched_init (new_scheduler cfg now dir stored)" using assms(1) unfolding sched_init_def by blast
  from sched.reachable_inv [OF this assms(2)] show ?thesis by (simp add: sched_ok_def)
qed

lemma active_predictions_exact_witness:
  "sd_active_predicted w_queued = active_sum (sd_active w_queued) \<and> distinct (sched_ids w_queued)"
  using active_predictions_exact [OF w_config_ok w_reached] by blast

section \<open>What is admitted\<close>

definition same_request :: "pending_prompt \<Rightarrow> pending_prompt \<Rightarrow> bool" where
  "same_request r q = (pp_prompt_id r = pp_prompt_id q \<and> pp_predicted r = pp_predicted q \<and> pp_has_history r = pp_has_history q)"

definition may_admit :: "scheduler \<Rightarrow> pending_prompt \<Rightarrow> bool" where
  "may_admit s r = (\<not> unknown_blocked s r \<and> (fits s (pp_predicted r) (effective_budget s) \<or> idle_oversized s r))"

text \<open>A requeue changes neither the budget nor who is active.\<close>

lemma defer_frame [simp]:
  "sd_config (defer_head k s) = sd_config s" "sd_active (defer_head k s) = sd_active s"
  "sd_active_predicted (defer_head k s) = sd_active_predicted s" "sd_server (defer_head k s) = sd_server s"
  by (simp_all add: defer_head_def Let_def split: list.split)

lemma set_head_frame [simp]:
  "sd_config (set_head r s) = sd_config s" "sd_active (set_head r s) = sd_active s"
  "sd_active_predicted (set_head r s) = sd_active_predicted s" "sd_server (set_head r s) = sd_server s"
  by (simp_all add: set_head_def)

lemma budget_frame: "sd_config t = sd_config s \<Longrightarrow> sd_server t = sd_server s \<Longrightarrow> effective_budget t = effective_budget s"
  by (simp add: effective_budget_def)

definition same_room :: "scheduler \<Rightarrow> scheduler \<Rightarrow> bool" where
  "same_room t s = (sd_config t = sd_config s \<and> sd_server t = sd_server s \<and> sd_active t = sd_active s \<and>
     sd_active_predicted t = sd_active_predicted s)"

lemma room_frame:
  assumes "same_room t s"
  shows "effective_budget t = effective_budget s" "fits t p b = fits s p b" "idle_oversized t r = idle_oversized s r"
    "unknown_blocked t r = unknown_blocked s r" "may_admit t r = may_admit s r"
  using assms budget_frame [of t s]
  by (simp_all add: same_room_def fits_def idle_oversized_def unknown_blocked_def active_unknown_def may_admit_def Let_def)

lemma same_request_room: "same_request r q \<Longrightarrow> may_admit s r = may_admit s q"
  by (simp add: same_request_def may_admit_def idle_oversized_def unknown_blocked_def Let_def)

lemma deferred_requests:
  assumes "sd_pending s = r # rest" "x \<in> set (sd_pending (defer_head k (set_head (r\<lparr>pp_head_block_count := n\<rparr>) s)))"
  obtains q where "q \<in> set (sd_pending s)" "same_request x q"
proof -
  let ?i = "min (nat (max 1 k)) (length rest)"
  from assms have "x \<in> set (take ?i rest) \<or> x \<in> set (drop ?i rest) \<or> x = r\<lparr>pp_head_block_count := 0, pp_blocked_log_ts := 0\<rparr>"
    by (auto simp: defer_head_def set_head_def Let_def)
  then have "x \<in> set rest \<or> same_request x r" by (auto simp: same_request_def dest: in_set_takeD in_set_dropD)
  then show thesis
  proof
    assume "x \<in> set rest"
    with assms(1) that [of x] show thesis by (simp add: same_request_def)
  next
    assume "same_request x r"
    with assms(1) that [of r] show thesis by simp
  qed
qed

lemma admit_head_admits:
  assumes ret: "admit_head now s = Some (t, ro)"
  shows "case ro of None \<Rightarrow> True | Some r \<Rightarrow> may_admit s r \<and> (\<exists>q\<in>set (sd_pending s). same_request r q)"
proof -
  have "case snd (t, ro) of None \<Rightarrow> True | Some r \<Rightarrow> may_admit s r \<and> (\<exists>q\<in>set (sd_pending s). same_request r q)"
  proof (rule admit_head.raw_induct [where P = "\<lambda>now s y. case snd y of None \<Rightarrow> True
      | Some r \<Rightarrow> may_admit s r \<and> (\<exists>q\<in>set (sd_pending s). same_request r q)", OF _ ret])
    fix f now s and y :: "scheduler \<times> pending_prompt option"
    assume IH: "\<And>now s y. f now s = Some y \<Longrightarrow> case snd y of None \<Rightarrow> True
        | Some r \<Rightarrow> may_admit s r \<and> (\<exists>q\<in>set (sd_pending s). same_request r q)"
      and e: "(case sd_pending s of [] \<Rightarrow> Some (s, None)
      | r # rest \<Rightarrow>
          (if unknown_blocked s r then Some (s, None)
           else if fits s (pp_predicted r) (effective_budget s) \<or> idle_oversized s r
           then (let r' = r\<lparr>pp_head_block_count := 0\<rparr> in Some (mark_admitted now r' s, Some r'))
           else
             (let r' = r\<lparr>pp_head_block_count := pp_head_block_count r + 1\<rparr>;
                  threshold = max 0 (sc_requeue_threshold (sd_config s));
                  offset = max 1 (sc_requeue_offset (sd_config s))
              in if 0 < threshold \<and> threshold \<le> pp_head_block_count r' \<and> rest \<noteq> []
                 then f now (defer_head offset (set_head r' s))
                 else Some (set_head r' s, None)))) = Some y"
    show "case snd y of None \<Rightarrow> True | Some r \<Rightarrow> may_admit s r \<and> (\<exists>q\<in>set (sd_pending s). same_request r q)"
    proof (cases "sd_pending s")
      case Nil
      with e show ?thesis by auto
    next
      case (Cons r rest)
      let ?u = "defer_head (max 1 (sc_requeue_offset (sd_config s))) (set_head (r\<lparr>pp_head_block_count := pp_head_block_count r + 1\<rparr>) s)"
      consider "snd y = None" | "y = (mark_admitted now (r\<lparr>pp_head_block_count := 0\<rparr>) s, Some (r\<lparr>pp_head_block_count := 0\<rparr>))"
          "may_admit s r" | "f now ?u = Some y"
        using e Cons by (auto simp: Let_def may_admit_def split: if_splits)
      then show ?thesis
      proof cases
        case 2
        then have "same_request (r\<lparr>pp_head_block_count := 0\<rparr>) r" by (simp add: same_request_def)
        with 2 Cons same_request_room [of _ r s] show ?thesis by auto
      next
        case 3
        show ?thesis
        proof (cases "snd y")
          case (Some p)
          from IH [OF 3] Some obtain x where p: "may_admit ?u p" and x: "x \<in> set (sd_pending ?u)" "same_request p x" by auto
          obtain q where q: "q \<in> set (sd_pending s)" "same_request x q" by (rule deferred_requests [OF Cons x(1)])
          have "same_room ?u s" by (simp add: same_room_def)
          from room_frame(5) [OF this] p have "may_admit s p" by simp
          moreover from x(2) q(2) have "same_request p q" by (simp add: same_request_def)
          ultimately show ?thesis using Some q(1) by auto
        qed simp
      qed simp
    qed
  qed
  then show ?thesis by simp
qed


lemma not_fits_oversized: "active_for_budget (sd_config s) (sd_active_predicted s) = rv_zero \<Longrightarrow> \<not> fits s p b \<Longrightarrow> is_oversized p b"
  by (auto simp: fits_def fits_virtual_def is_oversized_def)

definition best_score :: "(pending_prompt \<Rightarrow> real) \<Rightarrow> scheduler \<Rightarrow> pending_prompt \<Rightarrow> real" where
  "best_score clock s r =
     packing_score (clock r) r (rv_minus (effective_budget s) (active_for_budget (sd_config s) (sd_active_predicted s)))
       (effective_budget s)"

text \<open>C15. An admission respects the budget.  The admitted prompt was queued, is not an unknown one beyond the
  cap for unknown prompts, and either what is active, scaled as configured, plus its prediction is within the
  budget in each resource, or nothing counts as active and it alone exceeds the budget.  With best fit it has,
  among all prompts that may be admitted and fit, a maximal packing score.  The caps were not reached.\<close>

theorem admission_within_budget:
  assumes "admit_next clock now s = Some (t, Some r)"
  shows "(\<exists>q\<in>set (sd_pending s). same_request r q) \<and> \<not> unknown_blocked s r \<and> \<not> at_cap now s \<and>
    (fits_virtual (active_for_budget (sd_config s) (sd_active_predicted s)) (pp_predicted r) (effective_budget s) \<or>
     is_idle (active_for_budget (sd_config s) (sd_active_predicted s)) \<and> is_oversized (pp_predicted r) (effective_budget s)) \<and>
    (\<not> sc_preserve_order (sd_config s) \<longrightarrow> t = mark_admitted now r s \<and>
      (\<forall>x\<in>set (sd_pending s). admissible s x \<longrightarrow> admissible s r \<and> best_score clock s x \<le> best_score clock s r))"
proof (cases "sc_preserve_order (sd_config s)")
  case True
  with assms have "admit_head now s = Some (t, Some r)" "\<not> at_cap now s" by (auto simp: admit_next_def split: if_splits)
  with admit_head_admits [OF this(1)] True show ?thesis by (simp add: may_admit_def idle_oversized_def fits_def)
next
  case False
  with assms have best: "admit_best clock now s = (t, Some r)" and cap: "\<not> at_cap now s" by (auto simp: admit_next_def split: if_splits)
  have refl: "same_request r r" by (simp add: same_request_def)
  from admit_best_cases [OF best] obtain c: "r \<in> set (sd_pending s)" "t = mark_admitted now r s" and
    d: "admissible s r \<and> (\<forall>x\<in>set (filter (admissible s) (sd_pending s)). best_score clock s x \<le> best_score clock s r) \<or>
      forceable s r \<and> filter (admissible s) (sd_pending s) = []"
    unfolding best_score_def by blast
  from d show ?thesis
  proof
    assume "admissible s r \<and> (\<forall>x\<in>set (filter (admissible s) (sd_pending s)). best_score clock s x \<le> best_score clock s r)"
    with c cap refl False show ?thesis by (auto simp: admissible_def fits_def)
  next
    assume f: "forceable s r \<and> filter (admissible s) (sd_pending s) = []"
    then have "\<forall>x\<in>set (sd_pending s). \<not> admissible s x" by (simp add: filter_empty_conv)
    with f c cap refl False show ?thesis by (auto simp: forceable_def idle_oversized_def)
  qed
qed

section \<open>Progress\<close>

lemma idle_active_for_budget: "active_for_budget cfg rv_zero = rv_zero"
  by (simp add: active_for_budget_def scaled_active_for_budget_def Let_def rv_eq_iff)

lemma idle_may_admit:
  assumes ok: "sched_ok s" and idle: "sd_active s = []"
  shows "may_admit s r" and "\<not> fits s (pp_predicted r) (effective_budget s) \<Longrightarrow> forceable s r"
proof -
  have z: "sd_active_predicted s = rv_zero" using sched_okD(5) [OF ok] idle by (simp add: active_sum_def)
  have u: "\<not> unknown_blocked s r" by (simp add: unknown_blocked_def active_unknown_def idle Let_def)
  have i: "is_idle (active_for_budget (sd_config s) (sd_active_predicted s))"
    by (simp add: z idle_active_for_budget is_idle_def)
  have o: "is_oversized (pp_predicted r) (effective_budget s)" if "\<not> fits s (pp_predicted r) (effective_budget s)"
    by (rule not_fits_oversized [OF _ that]) (simp add: z idle_active_for_budget)
  from u i o show "may_admit s r" "\<not> fits s (pp_predicted r) (effective_budget s) \<Longrightarrow> forceable s r"
    by (auto simp: may_admit_def forceable_def idle_oversized_def)
qed

lemma idle_admits:
  assumes ok: "sched_ok s" and idle: "sd_active s = []" and queue: "sd_pending s \<noteq> []"
    and window: "sc_max_requests_per_update (sd_config s) \<le> 0 \<or>
      sd_admitted_since_refresh s < sc_max_requests_per_update (sd_config s)"
  shows "\<exists>t r. admit_next clock now s = Some (t, Some r) \<and> pp_prompt_id r \<in> pp_prompt_id ` set (sd_pending s) \<and>
    dkeys (sd_active t) = [pp_prompt_id r]"
proof -
  have cap: "\<not> at_cap now s" using window idle by (auto simp: at_cap_def Let_def)
  have marked: "dkeys (sd_active (mark_admitted now r s)) = [pp_prompt_id r]" if "\<not> pp_admitted r" for r
    using that idle by (simp add: mark_admitted_def)
  note na = sched_okD(3) [OF ok]
  show ?thesis
  proof (cases "sc_preserve_order (sd_config s)")
    case True
    obtain r rest where q: "sd_pending s = r # rest" using queue by (cases "sd_pending s") auto
    let ?r = "r\<lparr>pp_head_block_count := 0\<rparr>"
    have "admit_head now s = Some (mark_admitted now ?r s, Some ?r)"
      using idle_may_admit(1) [OF ok idle, of r] by (simp add: admit_head.simps [of now s] q may_admit_def Let_def)
    with True q cap marked [of ?r] na [of r] show ?thesis by (simp add: admit_next_def)
  next
    case False
    obtain t ro where best: "admit_best clock now s = (t, ro)" by (cases "admit_best clock now s")
    obtain r where r: "r \<in> set (sd_pending s)" using queue by (cases "sd_pending s") auto
    have "admissible s r \<or> forceable s r"
      using idle_may_admit [OF ok idle, of r] by (auto simp: may_admit_def admissible_def)
    then have "filter (admissible s) (sd_pending s) \<noteq> [] \<or> filter (forceable s) (sd_pending s) \<noteq> []"
      using r by (auto simp: filter_empty_conv)
    with admit_best_cases [OF best] obtain p where "ro = Some p" "p \<in> set (sd_pending s)" "t = mark_admitted now p s" by blast
    with best False queue cap marked [of p] na [of p] show ?thesis by (simp add: admit_next_def)
  qed
qed



lemma w_window:
  "sd_pending w_queued \<noteq> []" "sc_max_requests_per_update (sd_config w_queued) \<le> 0 \<or>
     sd_admitted_since_refresh w_queued < sc_max_requests_per_update (sd_config w_queued)"
  using w_queue w_queued_fields by (auto simp: default_config_def)


lemma admission_within_budget_witness:
  "\<exists>t r. admit_next (\<lambda>r. 0) 0 w_queued = Some (t, Some r) \<and> \<not> at_cap 0 w_queued \<and> \<not> unknown_blocked w_queued r"
proof -
  obtain t r where "admit_next (\<lambda>r. 0) 0 w_queued = Some (t, Some r)"
    using idle_admits [OF w_queued_ok w_queued_fields(1) w_window, of "\<lambda>r. 0" 0] by blast
  with admission_within_budget [OF this] show ?thesis by blast
qed

section \<open>The head-of-line loop\<close>

definition ripe :: "scheduler \<Rightarrow> nat" where
  \<comment> \<open>how many queued requests the next block would send back\<close>
  "ripe s = length (filter (\<lambda>r. sc_requeue_threshold (sd_config s) \<le> pp_head_block_count r + 1) (sd_pending s))"

lemma filter_take_drop: "length (filter P (take i xs)) + length (filter P (drop i xs)) = length (filter P xs)"
  by (metis append_take_drop_id filter_append length_append)

lemma defer_ripe:
  assumes q: "sd_pending s = r # rest" and two: "2 \<le> sc_requeue_threshold (sd_config s)"
    and due: "sc_requeue_threshold (sd_config s) \<le> pp_head_block_count r + 1"
  shows "ripe (defer_head k (set_head (r\<lparr>pp_head_block_count := n\<rparr>) s)) < ripe s"
  using two due filter_take_drop [of "\<lambda>r. sc_requeue_threshold (sd_config s) \<le> pp_head_block_count r + 1" _ rest]
  by (simp add: ripe_def q defer_head_def set_head_def Let_def)

text \<open>C17. The head-of-line loop returns, for every queue, unless the requeue threshold is exactly 1: a block
  sends the head back at most once per queued request, because it resets the request's count.  With the
  default threshold of 3, and with requeueing switched off, an admission round always returns.\<close>

theorem head_of_line_returns:
  assumes "sc_requeue_threshold (sd_config s) \<noteq> 1"
  shows "\<exists>t ro. admit_head now s = Some (t, ro)"
  using assms
proof (induction "ripe s" arbitrary: s rule: less_induct)
  case (less s)
  show ?case
  proof (cases "sd_pending s")
    case Nil
    then show ?thesis by (simp add: admit_head.simps [of now s])
  next
    case (Cons r rest)
    let ?u = "defer_head (max 1 (sc_requeue_offset (sd_config s))) (set_head (r\<lparr>pp_head_block_count := pp_head_block_count r + 1\<rparr>) s)"
    have "\<exists>t ro. admit_head now ?u = Some (t, ro)"
      if "0 < sc_requeue_threshold (sd_config s)" "sc_requeue_threshold (sd_config s) \<le> pp_head_block_count r + 1"
    proof (rule less.hyps)
      show "ripe ?u < ripe s" by (rule defer_ripe [OF Cons _ that(2)]) (use that(1) less.prems in simp)
    qed (use less.prems in simp)
    then show ?thesis by (auto simp: admit_head.simps [of now s] Cons Let_def less_max_iff_disj)
  qed
qed

lemma head_of_line_returns_witness: "\<exists>t ro. admit_head 0 (new_scheduler default_config 0 None None) = Some (t, ro)"
  by (rule head_of_line_returns) (simp add: new_scheduler_def default_config_def refresh_resource_profiles_def Let_def)

text \<open>With the threshold 1 a head that does not fit is sent back at once, and when no queued request may be
  admitted the loop goes round for ever, holding the scheduler's lock.\<close>

definition all_blocked :: "scheduler \<Rightarrow> bool" where
  "all_blocked s = (1 < length (sd_pending s) \<and> sc_requeue_threshold (sd_config s) = 1 \<and>
     (\<forall>r\<in>set (sd_pending s). 0 \<le> pp_head_block_count r \<and> \<not> unknown_blocked s r \<and> \<not> may_admit s r))"

lemma defer_all_blocked:
  assumes blocked: "all_blocked s" and q: "sd_pending s = r # rest"
  shows "all_blocked (defer_head k (set_head (r\<lparr>pp_head_block_count := n\<rparr>) s))" (is "all_blocked ?u")
proof -
  have room: "same_room ?u s" by (simp add: same_room_def)
  have len: "length (sd_pending ?u) = length (sd_pending s)" by (simp add: q defer_head_def set_head_def Let_def)
  have "0 \<le> pp_head_block_count x \<and> \<not> unknown_blocked ?u x \<and> \<not> may_admit ?u x" if x: "x \<in> set (sd_pending ?u)" for x
  proof -
    let ?i = "min (nat (max 1 k)) (length rest)"
    from x q have "x \<in> set (take ?i rest) \<or> x \<in> set (drop ?i rest) \<or> x = r\<lparr>pp_head_block_count := 0, pp_blocked_log_ts := 0\<rparr>"
      by (auto simp: defer_head_def set_head_def Let_def)
    then have "x \<in> set rest \<or> pp_head_block_count x = 0" by (auto dest: in_set_takeD in_set_dropD)
    then have count: "0 \<le> pp_head_block_count x" using blocked q by (auto simp: all_blocked_def)
    obtain y where y: "y \<in> set (sd_pending s)" "same_request x y" by (rule deferred_requests [OF q x])
    have "unknown_blocked s x = unknown_blocked s y" using y(2) by (simp add: same_request_def unknown_blocked_def Let_def)
    with blocked y same_request_room [OF y(2), of s] count show ?thesis
      unfolding room_frame [OF room] by (simp add: all_blocked_def)
  qed
  with blocked len show ?thesis by (simp add: all_blocked_def)
qed

theorem head_of_line_hangs:
  assumes "all_blocked s" shows "admit_head now s = None"
proof (rule ccontr)
  assume "admit_head now s \<noteq> None"
  then obtain y where ret: "admit_head now s = Some y" by blast
  have "\<not> all_blocked s"
  proof (rule admit_head.raw_induct [where P = "\<lambda>now s y. \<not> all_blocked s", OF _ ret])
    fix f now s and y :: "scheduler \<times> pending_prompt option"
    assume IH: "\<And>now s y. f now s = Some y \<Longrightarrow> \<not> all_blocked s"
      and e: "(case sd_pending s of [] \<Rightarrow> Some (s, None)
      | r # rest \<Rightarrow>
          (if unknown_blocked s r then Some (s, None)
           else if fits s (pp_predicted r) (effective_budget s) \<or> idle_oversized s r
           then (let r' = r\<lparr>pp_head_block_count := 0\<rparr> in Some (mark_admitted now r' s, Some r'))
           else
             (let r' = r\<lparr>pp_head_block_count := pp_head_block_count r + 1\<rparr>;
                  threshold = max 0 (sc_requeue_threshold (sd_config s));
                  offset = max 1 (sc_requeue_offset (sd_config s))
              in if 0 < threshold \<and> threshold \<le> pp_head_block_count r' \<and> rest \<noteq> []
                 then f now (defer_head offset (set_head r' s))
                 else Some (set_head r' s, None)))) = Some y"
    show "\<not> all_blocked s"
    proof
      assume blocked: "all_blocked s"
      then obtain r rest where q: "sd_pending s = r # rest" and rest: "rest \<noteq> []"
        by (cases "sd_pending s") (auto simp: all_blocked_def)
      let ?u = "defer_head (max 1 (sc_requeue_offset (sd_config s))) (set_head (r\<lparr>pp_head_block_count := pp_head_block_count r + 1\<rparr>) s)"
      from blocked q have "\<not> unknown_blocked s r" "\<not> fits s (pp_predicted r) (effective_budget s)" "\<not> idle_oversized s r"
        "0 \<le> pp_head_block_count r" "sc_requeue_threshold (sd_config s) = 1"
        by (auto simp: all_blocked_def may_admit_def)
      with e rest have "f now ?u = Some y" by (simp add: q Let_def)
      with IH [of now ?u y] defer_all_blocked [OF blocked q] show False by blast
    qed
  qed
  with assms show False by blast
qed


text \<open>Two prompts of one byte under a server that has reported nothing, one prompt running.\<close>

lemma head_of_line_hangs_witness: "\<exists>s. all_blocked s \<and> admit_head 0 s = None"
proof -
  define one where "one = \<lparr>rv_memory = 1, rv_cpu = 1, rv_disk_read = 1, rv_disk_write = 1\<rparr>"
  define r where "r i = \<lparr>pp_prompt_id = i, pp_repo = [], pp_data_key = [], pp_rollout_id = None, pp_group_index = None,
    pp_sample_index = None, pp_predicted = one, pp_avg_total_time = 0, pp_has_history = True, pp_created_at = 0,
    pp_admitted = False, pp_blocked_log_ts = 0, pp_head_block_count = 0\<rparr>" for i
  define s where "s = w_start\<lparr>sd_config := default_config\<lparr>sc_requeue_threshold := 1\<rparr>, sd_active_predicted := one,
    sd_pending := [r ''a'', r ''b'']\<rparr>"
  have "all_blocked s"
    using w_start_fields
    by (simp add: all_blocked_def s_def r_def one_def may_admit_def unknown_blocked_def fits_def fits_virtual_def idle_oversized_def
        is_idle_def active_for_budget_def scaled_active_for_budget_def effective_budget_def base_budget_def no_view_def
        default_config_def Let_def)
  with head_of_line_hangs [OF this, of 0] show ?thesis by blast
qed

end
