(* ===== verification/Scheduler_Learning.thy ===== *)
theory Scheduler_Learning
  imports Scheduler_Properties
begin

text \<open>
  The planned prompt order, the profiles learned from finished prompts, the leases of running prompts,
  and the way back from a prompt id to the key its profile is kept under.
\<close>

section \<open>Plans\<close>

definition wave_ok :: "resources \<Rightarrow> resources list \<Rightarrow> bool" where
  \<comment> \<open>prompts that fit the budget together, or one that does not fit alone\<close>
  "wave_ok budget ps =
     (ps \<noteq> [] \<and> (fits_virtual rv_zero (rv_sum ps) budget \<or> length ps = 1 \<and> \<not> fits_virtual rv_zero (hd ps) budget))"

abbreviation predictions :: "('a \<times> pending_prompt) list \<Rightarrow> resources list" where
  "predictions xs \<equiv> map (\<lambda>x. pp_predicted (snd x)) xs"

lemma fits_virtual_plus: "fits_virtual a (rv_plus p q) b = fits_virtual (rv_plus a p) q b"
  by (simp add: fits_virtual_def rv_plus_def add.assoc)

lemma plus_zero [simp]: "rv_plus rv_zero p = p" "rv_plus p rv_zero = p"
  by (simp_all add: rv_eq_iff)

lemma fits_zero_right: "fits_virtual a p b \<Longrightarrow> nonneg p \<Longrightarrow> fits_virtual a rv_zero b"
  by (auto simp: fits_virtual_def nonneg_def)

lemma plan_loop_Nil [simp]: "plan_loop clock budget active [] = []"
  by (simp add: plan_loop.simps [of clock budget active "[]"])

lemma mset_plan_loop: "mset (plan_loop clock budget active remaining) = mset remaining"
proof (induction clock budget active remaining rule: plan_loop.induct)
  case (1 clock budget active remaining)
  show ?case
  proof (cases "remaining = []")
    case True
    then show ?thesis by simp
  next
    case False
    obtain a residual fit where w: "wave_choice budget active remaining = (a, residual, fit)" by (rule prod_cases3)
    let ?x = "pick (clock (length remaining)) budget residual fit"
    have "?x \<in> set remaining" using wave_choice_subset [OF False w] pick_in [of fit] by blast
    with 1 [OF False w [symmetric] refl refl] show ?thesis
      by (simp add: plan_loop.simps [of clock budget active remaining] False w Let_def)
  qed
qed

text \<open>The choice of a step: it fits on top of the current wave, opens a new one, or stands alone.\<close>

lemma wave_choice_cases:
  assumes "wave_choice budget active remaining = (a, residual, fit)" and "x \<in> set fit"
  obtains (grow) "a = active" "fits_virtual active (pp_predicted (snd x)) budget"
  | (fresh) "a = rv_zero" "fits_virtual rv_zero (pp_predicted (snd x)) budget"
  | (alone) "a = rv_zero" "\<not> fits_virtual rv_zero (pp_predicted (snd x)) budget"
  using assms by (auto simp: wave_choice_def Let_def split: if_splits)

lemma plan_loop_waves:
  "\<exists>w ws. plan_loop clock budget active remaining = w @ concat ws \<and>
     (w = [] \<or> fits_virtual active (rv_sum (predictions w)) budget) \<and> (\<forall>v\<in>set ws. wave_ok budget (predictions v))"
proof (induction clock budget active remaining rule: plan_loop.induct)
  case (1 clock budget active remaining)
  show ?case
  proof (cases "remaining = []")
    case True
    then show ?thesis by (intro exI [of _ "[]"]) simp
  next
    case False
    obtain a residual fit where wc: "wave_choice budget active remaining = (a, residual, fit)" by (rule prod_cases3)
    let ?x = "pick (clock (length remaining)) budget residual fit"
    let ?p = "pp_predicted (snd ?x)"
    let ?a = "if fits_virtual a ?p budget then rv_plus a ?p else a"
    have x: "?x \<in> set fit" using wave_choice_subset [OF False wc] pick_in [of fit] by blast
    obtain w ws where IH: "plan_loop clock budget ?a (remove1 ?x remaining) = w @ concat ws"
        "w = [] \<or> fits_virtual ?a (rv_sum (predictions w)) budget" "\<forall>v\<in>set ws. wave_ok budget (predictions v)"
      using 1 [OF False wc [symmetric] refl refl] by blast
    have step: "plan_loop clock budget active remaining = ?x # w @ concat ws"
      using IH(1) by (simp add: plan_loop.simps [of clock budget active remaining] False wc Let_def)
    have sum: "fits_virtual a (rv_sum (predictions (?x # w))) budget" if "fits_virtual a ?p budget"
      using IH(2) that by (cases "w = []") (simp_all add: fits_virtual_plus)
    show ?thesis
    proof (rule wave_choice_cases [OF wc x])
      assume g: "a = active" "fits_virtual active ?p budget"
      with sum have "fits_virtual active (rv_sum (predictions (?x # w))) budget" by simp
      with step IH(3) show ?thesis by (intro exI [of _ "?x # w"] exI [of _ ws]) simp
    next
      assume g: "a = rv_zero" "fits_virtual rv_zero ?p budget"
      with sum have "wave_ok budget (predictions (?x # w))" by (simp add: wave_ok_def)
      with step IH(3) show ?thesis by (intro exI [of _ "[]"] exI [of _ "(?x # w) # ws"]) simp
    next
      assume g: "a = rv_zero" "\<not> fits_virtual rv_zero ?p budget"
      then have one: "wave_ok budget (predictions [?x])" by (simp add: wave_ok_def)
      have "w = [] \<or> wave_ok budget (predictions w)" using IH(2) g by (auto simp: wave_ok_def)
      then show ?thesis
      proof
        assume "w = []"
        with step IH(3) one show ?thesis by (intro exI [of _ "[]"] exI [of _ "[?x] # ws"]) simp
      next
        assume "wave_ok budget (predictions w)"
        with step IH(3) one show ?thesis by (intro exI [of _ "[]"] exI [of _ "[?x] # w # ws"]) simp
      qed
    qed
  qed
qed

definition spec_prediction :: "scheduler \<Rightarrow> prompt_spec \<Rightarrow> resources" where
  "spec_prediction s p = fst (predict (sd_config s) (dget (sd_profiles s) (spec_key p)))"

lemma plan_request_fields:
  "fst (plan_request s now ip) = snd ip" "pp_predicted (snd (plan_request s now ip)) = spec_prediction s (snd ip)"
  by (cases ip, auto simp: plan_request_def spec_prediction_def split: prod.splits)+

text \<open>The planned order is a permutation of the prompts given, and it falls into waves: the prompts of a
  wave fit the budget together, in each of the four resources, unless the wave is one prompt that does not fit
  alone.\<close>

theorem plan_is_permutation_in_waves:
  assumes plan: "plan_prompt_order clock now dir specs s = (s1, order)"
  shows "mset order = mset specs \<and>
    (\<exists>waves. order = concat waves \<and> (\<forall>w\<in>set waves. wave_ok (effective_budget s) (map (spec_prediction s1) w)))"
proof -
  let ?reqs = "map (plan_request s1 now) (enumerate 0 specs)"
  let ?loop = "plan_loop clock (effective_budget s) rv_zero ?reqs"
  have order: "order = map fst ?loop" using plan by (auto simp: plan_prompt_order_def Let_def)
  have "mset order = mset (map fst ?reqs)" unfolding order by (simp only: mset_map mset_plan_loop)
  also have "map fst ?reqs = specs" by (simp add: o_def plan_request_fields)
  finally have perm: "mset order = mset specs" .
  obtain w ws where loop: "?loop = w @ concat ws" "w = [] \<or> fits_virtual rv_zero (rv_sum (predictions w)) (effective_budget s)"
      "\<forall>v\<in>set ws. wave_ok (effective_budget s) (predictions v)"
    using plan_loop_waves by blast
  define waves where "waves = (if w = [] then ws else w # ws)"
  have all: "?loop = concat waves" "\<forall>v\<in>set waves. wave_ok (effective_budget s) (predictions v)"
    using loop by (auto simp: waves_def wave_ok_def)
  have "set ?loop = set ?reqs" by (rule mset_eq_setD) (rule mset_plan_loop)
  then have pred: "pp_predicted (snd x) = spec_prediction s1 (fst x)" if "x \<in> set ?loop" for x
    using that by (auto simp: plan_request_fields)
  have "predictions v = map (spec_prediction s1) (map fst v)" if "v \<in> set waves" for v
    using pred that unfolding all(1) by fastforce
  with all(2) have "\<forall>v\<in>set (map (map fst) waves). wave_ok (effective_budget s) (map (spec_prediction s1) v)" by simp
  moreover have "order = concat (map (map fst) waves)" unfolding order all(1) by (simp add: map_concat)
  ultimately show ?thesis using perm by blast
qed


section \<open>Learned profiles\<close>

definition learned :: "real \<Rightarrow> summary list \<Rightarrow> profile" where
  \<comment> \<open>the profile of a list of summaries: a count, a maximum and means\<close>
  "learned now ms =
     \<lparr>pf_sample_count = int (length ms), pf_peak_memory = fold max (map su_peak_memory ms) 0,
      pf_avg_cpu = mean (map su_avg_cpu ms), pf_avg_disk_read = mean (map su_disk_read ms),
      pf_avg_disk_write = mean (map su_disk_write ms), pf_avg_total_time = mean (map su_total_time ms),
      pf_last_updated = now\<rparr>"

lemma rolling_avg_mean: "rolling_avg (mean xs) (int (length xs)) x = mean (xs @ [x])"
  by (cases xs) (simp_all add: rolling_avg_def mean_def)

lemma rolling_avg_start: "rolling_avg c 0 x = mean [x]"
  by (simp add: rolling_avg_def mean_def)

lemma update_profile_other: "profile_key m \<noteq> k \<Longrightarrow> dget (sd_profiles (update_repo_profile now m s)) k = dget (sd_profiles s) k"
  by (simp add: update_repo_profile_def Let_def dget_dset)

lemma update_profile_same:
  assumes "profile_key m = k" "dget (sd_profiles s) k = (if ms = [] then None else Some (learned now0 ms))"
  shows "dget (sd_profiles (update_repo_profile now m s)) k = Some (learned now (ms @ [m]))"
proof (cases "ms = []")
  case True
  with assms show ?thesis
    by (simp add: update_repo_profile_def learned_def Let_def dget_dset dget_def_def new_profile_def rolling_avg_start max.commute)
next
  case False
  note r = rolling_avg_mean [of "map f ms" for f, simplified]
  from False assms show ?thesis
    by (simp add: update_repo_profile_def learned_def Let_def dget_dset dget_def_def r max.commute)
qed

text \<open>C18. Updating the profiles one summary at a time computes what a batch would: after any sequence of
  summaries the profile of a key that started empty holds the number of its summaries, the largest peak memory,
  and the arithmetic means of processor, disk and time figures over exactly the summaries of that key; a key
  without summaries has no profile.\<close>

theorem profile_is_batch_statistics:
  assumes "dget (sd_profiles s) k = None"
  shows "dget (sd_profiles (fold (\<lambda>m. update_repo_profile now m) ms s)) k =
    (let mine = filter (\<lambda>m. profile_key m = k) ms in if mine = [] then None else Some (learned now mine))"
proof (induction ms rule: rev_induct)
  case Nil
  with assms show ?case by simp
next
  case (snoc m ms)
  let ?s = "fold (\<lambda>m. update_repo_profile now m) ms s"
  show ?case
  proof (cases "profile_key m = k")
    case True
    from update_profile_same [OF this snoc [unfolded Let_def]] True show ?thesis by simp
  next
    case False
    with snoc update_profile_other [OF False] show ?thesis by simp
  qed
qed

definition w_summary :: summary where
  "w_summary = \<lparr>su_prompt_id = ''a'', su_repo = ''r'', su_data_key = ''k'', su_sample_count = 1, su_peak_memory = 4,
     su_avg_cpu = 10, su_disk_read = 0, su_disk_write = 0, su_started_at = 0, su_finished_at = 2, su_total_time = 2,
     su_cpu_sample_count = 0, su_lease_count = 0\<rparr>"

lemma w_summary_key: "profile_key w_summary = ''k''"
proof -
  have f: "su_data_key w_summary = ''k''" "su_repo w_summary = ''r''" "su_prompt_id w_summary = ''a''"
    by (simp_all add: w_summary_def)
  show ?thesis unfolding profile_key_def f by code_simp
qed

lemma profile_is_batch_statistics_witness:
  "dget (sd_profiles (fold (\<lambda>m. update_repo_profile 5 m) [w_summary] (new_scheduler default_config 0 None None))) ''k'' =
     Some (learned 5 [w_summary])"
proof -
  have none: "dget (sd_profiles (new_scheduler default_config 0 None None)) ''k'' = None"
    by (simp add: new_scheduler_def default_config_def refresh_resource_profiles_def Let_def)
  show ?thesis unfolding profile_is_batch_statistics [OF none] by (simp add: w_summary_key)
qed

section \<open>From a prompt id back to its key\<close>

text \<open>The id built for a prompt leads back to the key its profile was looked up under: for an instance id
  that does not contain the group marker and is neither blank nor the word unknown, the key parsed from the
  prompt id is the data key extracted from the sample, whatever the group, the index and the random part are.\<close>

theorem prompt_id_leads_to_key:
  assumes "\<not> contains group_marker iid" and "strip iid \<noteq> []" and "lower (strip iid) \<noteq> unknown_key"
  shows "data_key_from_prompt_id (Some (build_prompt_id gid sid (Some iid) rand)) =
    Some (extract_data_key metadata img (Some (JS iid)) fallback)"
proof -
  have ne: "iid \<noteq> []" using assms(2) by (auto simp: strip_def strip_set_def)
  then have pid: "build_prompt_id gid sid (Some iid) rand = iid @ group_marker @ opt_num gid @ ''__i'' @ opt_num sid @ dunder @ rand"
    by (simp add: build_prompt_id_def split: list.split)
  have "lower (strip iid) \<noteq> []" using assms(2) by (simp add: lower_def)
  then have "data_key_from_prompt_id (Some (build_prompt_id gid sid (Some iid) rand)) = Some (lower (strip iid))"
    using find_group_marker [OF assms(1)] ne assms(3) by (simp add: data_key_from_prompt_id_def pid Let_def)
  moreover have "extract_data_key metadata img (Some (JS iid)) fallback = lower (strip iid)"
    using ne assms(2) by (simp add: extract_data_key_def instance_id_of_def nonblank_def)
  ultimately show ?thesis by simp
qed

lemma prompt_id_leads_to_key_witness:
  "data_key_from_prompt_id (Some (build_prompt_id (Some 3) (Some 7) (Some ''Django-12'') ''ab'')) =
     Some (extract_data_key [] None (Some (JS ''Django-12'')) unknown_key)"
  by (rule prompt_id_leads_to_key)
    (simp_all add: contains_def group_marker_def strip_def strip_set_def lower_def lower_char_def is_space_def code_of_def unknown_key_def)

text \<open>The marker is also found inside an instance id: the key of \<open>google__gson-12\<close> is cut to its owner.\<close>

lemma prompt_id_key_is_cut:
  "data_key_from_prompt_id (Some (build_prompt_id (Some 3) (Some 7) (Some ''google__gson-12'') ''ab'')) = Some ''google''"
  "extract_data_key [] None (Some (JS ''google__gson-12'')) unknown_key = ''google__gson-12''"
  by (simp_all add: data_key_from_prompt_id_def build_prompt_id_def extract_data_key_def instance_id_of_def nonblank_def
      group_marker_def strip_def strip_set_def lower_def lower_char_def is_space_def code_of_def unknown_key_def Let_def)

section \<open>Leases belong to running prompts\<close>

definition leases_ok :: "scheduler \<Rightarrow> bool" where
  "leases_ok s = (\<forall>l p. dget (sd_lease_to_prompt s) l = Some p \<longrightarrow>
     (\<exists>a. dget (sd_active s) p = Some a \<and> l \<in> set (ap_leases a)))"

lemma leases_ok_frame:
  "sd_lease_to_prompt t = sd_lease_to_prompt s \<Longrightarrow> sd_active t = sd_active s \<Longrightarrow> leases_ok t = leases_ok s"
  by (simp add: leases_ok_def)

lemma leases_ok_updates [simp]:
  "leases_ok (s\<lparr>sd_profiles := x0\<rparr>) = leases_ok s"
  "leases_ok (s\<lparr>sd_sampling_cursor := x1\<rparr>) = leases_ok s"
  "leases_ok (s\<lparr>sd_sampler_running := x2\<rparr>) = leases_ok s"
  "leases_ok (s\<lparr>sd_stop_sampling := x3\<rparr>) = leases_ok s"
  "leases_ok (s\<lparr>sd_server := x4\<rparr>) = leases_ok s"
  "leases_ok (s\<lparr>sd_server_last_refresh := x5\<rparr>) = leases_ok s"
  "leases_ok (s\<lparr>sd_admitted_since_refresh := x6\<rparr>) = leases_ok s"
  by (simp_all add: leases_ok_def)

lemma leases_ok_mark:
  assumes "leases_ok s" "ok_with ids s" "r' \<in> set (sd_pending s)" "pp_prompt_id r = pp_prompt_id r'"
  shows "leases_ok (mark_admitted now r s)"
proof -
  have "dget (sd_active s) (pp_prompt_id r) = None"
    using sched_okD(2) [of s] assms by (auto simp: ok_with_def sched_ids_def map_of_eq_None_iff)
  with assms(1) show ?thesis by (fastforce simp: leases_ok_def mark_admitted_def dget_dset)
qed

definition both_ok :: "string set \<Rightarrow> scheduler \<Rightarrow> bool" where
  "both_ok ids s = (ok_with ids s \<and> leases_ok s)"

lemma both_ok_mark:
  "both_ok ids s \<Longrightarrow> r' \<in> set (sd_pending s) \<Longrightarrow> pp_prompt_id r = pp_prompt_id r' \<Longrightarrow> pp_predicted r = pp_predicted r' \<Longrightarrow>
     pp_admitted r = pp_admitted r' \<Longrightarrow> both_ok ids (mark_admitted now r s)"
  using mark_admitted_ok_with leases_ok_mark by (metis both_ok_def)

lemma admit_next_leases:
  assumes "admit_next clock now s = Some (t, ro)" and ok: "both_ok ids s" shows "both_ok ids t"
proof -
  have head: "both_ok ids t" if "admit_head now s = Some (t, ro)"
    using that ok
  proof (rule admit_head_keeps)
    fix s r rest n assume b: "both_ok ids s" and q: "sd_pending s = r # rest"
    then show "both_ok ids (set_head (r\<lparr>pp_head_block_count := n\<rparr>) s)"
      using set_head_ok [of s r rest n] set_head_ids [of s r rest n]
      by (simp add: both_ok_def ok_with_def leases_ok_def set_head_def)
    from both_ok_mark [OF b, of r "r\<lparr>pp_head_block_count := 0\<rparr>" now] q
    show "both_ok ids (mark_admitted now (r\<lparr>pp_head_block_count := 0\<rparr>) s)" by simp
  next
    fix s k assume "both_ok ids s"
    moreover have "leases_ok (defer_head k s) = leases_ok s"
      by (rule leases_ok_frame) (simp_all add: defer_head_def Let_def split: list.split)
    ultimately show "both_ok ids (defer_head k s)" by (simp add: both_ok_def ok_with_def defer_head_ok defer_head_ids)
  qed
  have best: "both_ok ids t" if "admit_best clock now s = (t, ro)"
  proof -
    from admit_best_cases [OF that] have "t = s \<or> (\<exists>r. r \<in> set (sd_pending s) \<and> t = mark_admitted now r s)" by blast
    with ok both_ok_mark [OF ok] show ?thesis by blast
  qed
  from assms(1) head best ok show ?thesis by (auto simp: admit_next_def split: if_splits)
qed


lemma dget_filter_keys: "dget (filter (\<lambda>kv. fst kv \<notin> S) d) k = (if k \<in> S then None else dget d k)"
  by (induction d) auto

lemma leases_ok_set:
  assumes "leases_ok s" "dget (sd_active s) pid = Some a" "\<And>l. l \<in> set (ap_leases a) \<Longrightarrow> l \<in> set (ap_leases a')"
  shows "leases_ok (set_active pid a' s)"
  unfolding leases_ok_def
proof (intro allI impI)
  fix l p assume "dget (sd_lease_to_prompt (set_active pid a' s)) l = Some p"
  with assms(1) obtain b where "dget (sd_active s) p = Some b" "l \<in> set (ap_leases b)" by (auto simp: set_active_def leases_ok_def)
  with assms(2,3) show "\<exists>b. dget (sd_active (set_active pid a' s)) p = Some b \<and> l \<in> set (ap_leases b)"
    by (cases "p = pid") (auto simp: set_active_def dget_dset)
qed

lemma leases_ok_attach:
  assumes ok: "leases_ok s" shows "leases_ok (attach_lease pid lease s)"
proof (cases "sc_disable_polling (sd_config s) \<or> lease = [] \<or> dget (sd_active s) pid = None")
  case True
  with ok show ?thesis by (auto simp: attach_lease_def)
next
  case False
  then obtain a where a: "dget (sd_active s) pid = Some a" by blast
  define a' where "a' = a\<lparr>ap_leases := (if lease \<in> set (ap_leases a) then ap_leases a else ap_leases a @ [lease])\<rparr>"
  have l': "l \<in> set (ap_leases a') \<longleftrightarrow> l = lease \<or> l \<in> set (ap_leases a)" for l by (auto simp: a'_def)
  have "sd_active (attach_lease pid lease s) = dset pid a' (sd_active s)"
      "sd_lease_to_prompt (attach_lease pid lease s) = dset lease pid (sd_lease_to_prompt s)"
    using False a by (simp_all add: attach_lease_def ensure_sampler_def set_active_def Let_def a'_def)
  with ok a l' show ?thesis unfolding leases_ok_def by (auto simp: dget_dset) (metis option.inject)
qed

text \<open>A lease taken out of the table may also be taken out of a prompt's list.\<close>

lemma leases_ok_drop:
  assumes ok: "leases_ok s" and a: "dget (sd_active s) pid = Some a"
    and l': "\<And>l. l \<in> set (ap_leases a) \<Longrightarrow> l = lease \<or> l \<in> set (ap_leases a')"
    and t: "sd_active t = dset pid a' (sd_active s)" "sd_lease_to_prompt t = dpop lease (sd_lease_to_prompt s)"
  shows "leases_ok t"
  unfolding leases_ok_def
proof (intro allI impI)
  fix l p assume "dget (sd_lease_to_prompt t) l = Some p"
  with t(2) have lp: "l \<noteq> lease" "dget (sd_lease_to_prompt s) l = Some p" by (auto simp: dget_dpop split: if_splits)
  with ok obtain b where "dget (sd_active s) p = Some b" "l \<in> set (ap_leases b)" by (auto simp: leases_ok_def)
  with a l' lp t(1) show "\<exists>b. dget (sd_active t) p = Some b \<and> l \<in> set (ap_leases b)"
    by (cases "p = pid") (auto simp: dget_dset)
qed

lemma leases_ok_detach:
  assumes ok: "leases_ok s" shows "leases_ok (detach_lease lease s)"
proof -
  have pop: "leases_ok (s\<lparr>sd_lease_to_prompt := dpop lease (sd_lease_to_prompt s)\<rparr>)"
    using ok by (auto simp: leases_ok_def dget_dpop)
  have pop_set: "leases_ok (set_active p (a\<lparr>ap_leases := filter (\<lambda>l. l \<noteq> lease) (ap_leases a), ap_lease_errors := e\<rparr>)
      (s\<lparr>sd_lease_to_prompt := dpop lease (sd_lease_to_prompt s)\<rparr>))" if "dget (sd_active s) p = Some a" for p a e
    by (rule leases_ok_drop [OF ok that, of lease]) (auto simp: set_active_def)
  from ok pop pop_set show ?thesis by (auto simp: detach_lease_def Let_def split: option.splits)
qed

lemma leases_ok_item:
  assumes ok: "leases_ok s" shows "leases_ok (record_item lease pid it s)"
proof -
  have err: "leases_ok (record_error lease pid e s)" for e
  proof (cases "dget (sd_active s) pid")
    case None
    with ok show ?thesis by (simp add: record_error_def)
  next
    case (Some a)
    have "leases_ok ((set_active pid (a\<lparr>ap_lease_errors := f, ap_leases := filter (\<lambda>l. l \<noteq> lease) (ap_leases a)\<rparr>) s)
        \<lparr>sd_lease_to_prompt := dpop lease (sd_lease_to_prompt s)\<rparr>)" for f
      by (rule leases_ok_drop [OF ok Some, of lease]) (auto simp: set_active_def)
    moreover have "leases_ok (set_active pid (a\<lparr>ap_lease_errors := f\<rparr>) s)" for f by (rule leases_ok_set [OF ok Some]) simp
    ultimately show ?thesis by (simp add: record_error_def Some Let_def)
  qed
  have use: "leases_ok (record_usage lease pid p s)" for p
    using ok by (auto simp: record_usage_def Let_def intro!: leases_ok_set split: option.splits)
  show ?thesis using err use by (simp add: record_item_def split: usage_item.split)
qed

lemma refresh_leases_frame [simp]:
  "sd_lease_to_prompt (fst (refresh_resource_profiles now f dir s)) = sd_lease_to_prompt s"
  by (simp add: refresh_resource_profiles_def Let_def split: option.splits)

lemma leases_ok_finish:
  assumes ok: "leases_ok s" shows "leases_ok (fst (finish_prompt now dir pid s))"
proof (cases "dget (sd_active s) pid")
  case None
  with ok show ?thesis by (simp add: finish_prompt_def)
next
  case (Some a)
  let ?t = "fst (finish_prompt now dir pid s)"
  have act: "sd_active ?t = dpop pid (sd_active s)"
      "sd_lease_to_prompt ?t = filter (\<lambda>kv. fst kv \<notin> set (ap_leases a)) (sd_lease_to_prompt s)"
    by (simp_all add: finish_prompt_def Some Let_def reset_admission_window_def refresh_pending_predictions_def
        predict_for_key_def update_repo_profile_def split: prod.splits)
  show ?thesis unfolding leases_ok_def
  proof (intro allI impI)
    fix l p assume "dget (sd_lease_to_prompt ?t) l = Some p"
    then have lp: "l \<notin> set (ap_leases a)" "dget (sd_lease_to_prompt s) l = Some p"
      by (auto simp: act dget_filter_keys split: if_splits)
    with ok obtain b where "dget (sd_active s) p = Some b" "l \<in> set (ap_leases b)" by (auto simp: leases_ok_def)
    with lp(1) Some show "\<exists>b. dget (sd_active ?t) p = Some b \<and> l \<in> set (ap_leases b)"
      by (cases "p = pid") (auto simp: act dget_dpop)
  qed
qed


lemma leases_ok_new: "leases_ok (new_scheduler cfg now dir stored)"
proof -
  have "sd_lease_to_prompt (new_scheduler cfg now dir stored) = []"
    by (simp add: new_scheduler_def Let_def split: prod.split option.split) (metis fst_conv refresh_leases_frame scheduler.select_convs(6))
  then show ?thesis by (simp add: leases_ok_def)
qed

lemma leases_ok_round:
  assumes "admit_round clock now r s = Some (t, tk)" and ok: "both_ok ids s" and r: "pp_prompt_id r \<in> ids"
  shows "leases_ok t"
proof -
  from assms(1) obtain s1 ro where n: "admit_next clock now s = Some (s1, ro)" by (auto simp: admit_round_def split: option.splits)
  note ok1 = admit_next_leases [OF n ok]
  show ?thesis
  proof (cases "pp_prompt_id r \<in> set (map pp_prompt_id (sd_pending s1))")
    case True
    with assms(1) n have "t = note_blocked now (pp_prompt_id r) s1" by (auto simp: admit_round_def)
    with ok1 show ?thesis by (simp add: both_ok_def leases_ok_def note_blocked_def)
  next
    case False
    with ok1 r have "pp_prompt_id r \<in> set (dkeys (sd_active s1))" by (auto simp: both_ok_def ok_with_def sched_ids_def)
    with False assms(1) n take_ticket_id [of r s1 now] have "t = s1" by (auto simp: admit_round_def split: prod.splits)
    with ok1 show ?thesis by (simp add: both_ok_def)
  qed
qed

lemma sched_step_leases: "sched_step s t \<Longrightarrow> sched_ok s \<Longrightarrow> leases_ok s \<Longrightarrow> leases_ok t"
proof (induction rule: sched_step.induct)
  case (admit r s clock now t tk)
  then have "both_ok (set (sched_ids s)) s" by (simp add: both_ok_def ok_with_def)
  from leases_ok_round [OF admit(2) this admit(1)] show ?case .
next
  case (enqueue now dir rand batch q s t r)
  from enqueue(1) have "sd_lease_to_prompt t = sd_lease_to_prompt s" "sd_active t = sd_active s"
    by (auto simp: enqueue_prompt_def predict_for_key_def Let_def split: prod.splits)
  with enqueue show ?case using leases_ok_frame by blast
next
  case (plan s clock now dir specs)
  then show ?case by (simp add: plan_prompt_order_def Let_def leases_ok_def)
qed (auto simp: leases_ok_finish leases_ok_attach leases_ok_detach leases_ok_item select_sampling_targets_def
    server_refresh_round_def refresh_server_budget_def reset_admission_window_def record_prompt_summary_def
    update_repo_profile_def close_scheduler_def Let_def split: sum.splits)

interpretation leases: stepping sched_init sched_step "\<lambda>s. sched_ok s \<and> leases_ok s"
  by unfold_locales (auto simp: sched_init_def new_scheduler_ok leases_ok_new intro: sched_step_ok sched_step_leases)

lemma mset_rotate_shuffle:
  assumes "\<And>xs. mset (shuffle xs) = mset xs"
  shows "mset (rotate_shuffle shuffle cursor cs) = mset cs"
proof -
  have rot: "mset (drop r cs @ take r cs) = mset cs" for r
    using union_commute [of "mset (drop r cs)" "mset (take r cs)"] mset_append [of "take r cs" "drop r cs"] by simp
  have shuf: "mset (shuffle (take h xs) @ drop h xs) = mset xs" for h xs
    using mset_append [of "take h xs" "drop h xs"] assms by simp
  show ?thesis by (simp only: rotate_shuffle_def Let_def rot shuf split: if_split) simp
qed

text \<open>C19. The lease table is well formed in every history: a lease the scheduler tracks points to a prompt that
  is active and lists it, so no statistics are booked on a prompt that has finished. A sampling round,
  whatever lease it takes of a prompt's set and however it shuffles, asks for leases of active prompts that
  list them, one per prompt, at most the configured number, and asks for one whenever an active prompt
  has a lease.\<close>

theorem leases_point_to_active_prompts:
  assumes "config_ok cfg" and "sched_step\<^sup>*\<^sup>* (new_scheduler cfg now dir stored) s"
    and "\<And>ls. ls \<noteq> [] \<Longrightarrow> some_of ls \<in> set ls" and "\<And>xs. mset (shuffle xs) = mset xs"
    and "select_sampling_targets some_of shuffle s = (s', targets)"
  shows "(\<forall>l p. dget (sd_lease_to_prompt s) l = Some p \<longrightarrow> (\<exists>a. dget (sd_active s) p = Some a \<and> l \<in> set (ap_leases a))) \<and>
    (\<forall>(l, p)\<in>set targets. \<exists>a. dget (sd_active s) p = Some a \<and> l \<in> set (ap_leases a)) \<and> distinct (map snd targets) \<and>
    int (length targets) \<le> max 1 (sc_max_stats_requests (sd_config s)) \<and>
    (targets = [] \<longleftrightarrow> (\<forall>p a. dget (sd_active s) p = Some a \<longrightarrow> ap_leases a = []))"
proof -
  let ?cs = "sampling_candidates some_of s" and ?limit = "nat (max 1 (sc_max_stats_requests (sd_config s)))"
  have "sched_init (new_scheduler cfg now dir stored)" using assms(1) unfolding sched_init_def by blast
  from leases.reachable_inv [OF this assms(2)] have ok: "sched_ok s" "leases_ok s" by simp_all
  have keys: "distinct (dkeys (sd_active s))" using sched_okD(2) [OF ok(1)] by (simp add: sched_ids_def)
  then have entry: "(p, a) \<in> set (sd_active s) \<longleftrightarrow> dget (sd_active s) p = Some a" for p a by simp
  have cand: "\<exists>a. dget (sd_active s) (snd lp) = Some a \<and> fst lp \<in> set (ap_leases a)" if "lp \<in> set ?cs" for lp
    using that assms(3) by (fastforce simp: sampling_candidates_def entry)
  have none: "?cs = [] \<longleftrightarrow> (\<forall>p a. dget (sd_active s) p = Some a \<longrightarrow> ap_leases a = [])"
    by (fastforce simp: sampling_candidates_def filter_empty_conv entry simp flip: entry)
  have "map snd ?cs = map fst (filter (\<lambda>(pid, a). ap_leases a \<noteq> []) (sd_active s))"
    by (simp add: sampling_candidates_def case_prod_beta comp_def)
  then have dist: "distinct (map snd ?cs)" using keys by (simp add: distinct_map_filter)
  show ?thesis
  proof (cases "?cs = []")
    case True
    then have "targets = []" using assms(5) by (simp add: select_sampling_targets_def)
    with True none ok(2) show ?thesis by (auto simp: leases_ok_def)
  next
    case False
    define ordered where "ordered = rotate_shuffle shuffle (nat (sd_sampling_cursor s)) ?cs"
    have mset: "mset ordered = mset ?cs" unfolding ordered_def by (rule mset_rotate_shuffle) (rule assms(4))
    have targets: "targets = take ?limit ordered" using assms(5) False by (auto simp: select_sampling_targets_def Let_def ordered_def)
    have "set targets \<subseteq> set ?cs" using mset_eq_setD [OF mset] set_take_subset [of ?limit ordered] by (simp add: targets)
    then have "\<forall>(l, p)\<in>set targets. \<exists>a. dget (sd_active s) p = Some a \<and> l \<in> set (ap_leases a)" using cand by fastforce
    moreover have "distinct (map snd ordered)" using dist mset by (metis mset_eq_imp_distinct_iff mset_map)
    then have "distinct (map snd targets)" by (simp add: targets take_map [symmetric])
    moreover have "targets \<noteq> []" using False mset by (auto simp: targets)
    ultimately show ?thesis using ok(2) none False by (auto simp: leases_ok_def targets)
  qed
qed

text \<open>A history that queues a prompt, admits it and attaches a lease to it.\<close>

lemma w_leased:
  "\<exists>s pid. sched_step\<^sup>*\<^sup>* (new_scheduler default_config 0 None None) s \<and> dget (sd_lease_to_prompt s) ''l'' = Some pid"
proof -
  obtain q where q: "sd_pending w_queued = [q]" using w_queue by blast
  obtain t r where n: "admit_next (\<lambda>r. 0) 0 w_queued = Some (t, Some r)" and r: "pp_prompt_id r = pp_prompt_id q"
      "dkeys (sd_active t) = [pp_prompt_id r]"
    using idle_admits [OF w_queued_ok w_queued_fields(1) w_window, of "\<lambda>r. 0" 0] by (auto simp: q)
  have "ok_with (set (sched_ids w_queued)) w_queued" using w_queued_ok by (simp add: ok_with_def)
  from admit_next_ok [OF n this] have "distinct (sched_ids t)" by (simp add: ok_with_def sched_okD(2))
  with r have out: "pp_prompt_id q \<notin> set (map pp_prompt_id (sd_pending t))" by (auto simp: sched_ids_def)
  have cfg: "sd_config t = default_config"
    using n w_queued_fields(2) admit_best_cases [of "\<lambda>r. 0" 0 w_queued t "Some r"]
    by (auto simp: admit_next_def default_config_def mark_admitted_def split: if_splits)
  have "fst (take_ticket 0 q t) = t" by (rule take_ticket_id) (simp add: r)
  then have "admit_round (\<lambda>r. 0) 0 q w_queued = Some (t, Some (snd (take_ticket 0 q t)))"
    using n out by (cases "take_ticket 0 q t") (simp add: admit_round_def)
  then have "sched_step w_queued t" by (rule sched_step.admit [rotated]) (simp add: sched_ids_def q)
  moreover have "sched_step t (attach_lease (pp_prompt_id q) ''l'' t)" by (rule sched_step.attach)
  ultimately have "sched_step\<^sup>*\<^sup>* (new_scheduler default_config 0 None None) (attach_lease (pp_prompt_id q) ''l'' t)"
    using w_reached by (meson rtranclp.rtrancl_into_rtrancl)
  moreover have "dget (sd_active t) (pp_prompt_id q) \<noteq> None" using r by (auto simp: map_of_eq_None_iff)
  then have "dget (sd_lease_to_prompt (attach_lease (pp_prompt_id q) ''l'' t)) ''l'' = Some (pp_prompt_id q)"
    by (auto simp: attach_lease_def ensure_sampler_def set_active_def cfg default_config_def Let_def dget_dset)
  ultimately show ?thesis by blast
qed

lemma leases_point_to_active_prompts_witness:
  "\<exists>(s :: scheduler) pid (a :: active_prompt). dget (sd_lease_to_prompt s) ''l'' = Some pid \<and> dget (sd_active s) pid = Some a \<and> ''l'' \<in> set (ap_leases a)"
proof -
  obtain s pid where s: "sched_step\<^sup>*\<^sup>* (new_scheduler default_config 0 None None) s" "dget (sd_lease_to_prompt s) ''l'' = Some pid"
    using w_leased by blast
  obtain s' targets where t: "select_sampling_targets hd (\<lambda>xs. xs) s = (s', targets)" by fastforce
  have "\<exists>a. dget (sd_active s) pid = Some a \<and> ''l'' \<in> set (ap_leases a)"
    using leases_point_to_active_prompts [OF w_config_ok s(1) hd_in_set refl t] s(2) by blast
  with s(2) show ?thesis by blast
qed

lemma plan_is_permutation_in_waves_witness:
  "\<exists>t order. plan_prompt_order (\<lambda>n r. 0) 0 None
      [\<lparr>ps_repo = ''b'', ps_data_key = None, ps_instance_id = None, ps_rollout_id = None, ps_group_index = None, ps_sample_index = None\<rparr>,
       \<lparr>ps_repo = ''a'', ps_data_key = None, ps_instance_id = None, ps_rollout_id = None, ps_group_index = None, ps_sample_index = None\<rparr>]
      (new_scheduler default_config 0 None None) = (t, order) \<and> length order = 2"
proof -
  obtain t order where p: "plan_prompt_order (\<lambda>n r. 0) 0 None
      [\<lparr>ps_repo = ''b'', ps_data_key = None, ps_instance_id = None, ps_rollout_id = None, ps_group_index = None, ps_sample_index = None\<rparr>,
       \<lparr>ps_repo = ''a'', ps_data_key = None, ps_instance_id = None, ps_rollout_id = None, ps_group_index = None, ps_sample_index = None\<rparr>]
      (new_scheduler default_config 0 None None) = (t, order)" by (rule prod.exhaust)
  from plan_is_permutation_in_waves [OF p] have "size (mset order) = 2" by simp
  with p show ?thesis by auto
qed

end
