(* ===== verification/Exec_Gates.thy ===== *)
theory Exec_Gates
  imports Prelude
begin

text \<open>
  The sections of the exec server (\<open>swe-rl/server/swe_exec_server.py\<close>): a gate per container that
  keeps commands and exclusive operations (checkpoint, destroy) apart, and the server-wide sections for
  docker calls in the foreground, for commits and for maintenance.  A step is one region under a
  condition's lock; a thread is its phase.  Gates are objects: a container's name leads to the gate
  now in the table, and a thread keeps the gate it once got.
\<close>

section \<open>Gates\<close>

record gate =
  gt_active_execs :: int
  gt_waiting_execs :: int
  gt_exclusive :: bool

definition new_gate :: gate where
  "new_gate = \<lparr>gt_active_execs = 0, gt_waiting_execs = 0, gt_exclusive = False\<rparr>"

definition exec_wake :: "gate \<Rightarrow> gate option" where
  \<comment> \<open>\<open>None\<close>: keeps waiting\<close>
  "exec_wake g =
     (if gt_exclusive g then None
      else Some (g\<lparr>gt_waiting_execs := gt_waiting_execs g - 1, gt_active_execs := gt_active_execs g + 1\<rparr>))"

definition exec_enter :: "gate \<Rightarrow> gate \<times> bool" where
  \<comment> \<open>the gate after a command arrived, and whether it is inside or waits\<close>
  "exec_enter g =
     (let g1 = g\<lparr>gt_waiting_execs := gt_waiting_execs g + 1\<rparr>
      in case exec_wake g1 of None \<Rightarrow> (g1, False) | Some g2 \<Rightarrow> (g2, True))"

definition exec_leave :: "gate \<Rightarrow> gate" where
  "exec_leave g = g\<lparr>gt_active_execs := max 0 (gt_active_execs g - 1)\<rparr>"

definition excl_enter :: "gate \<Rightarrow> gate option" where
  "excl_enter g =
     (if gt_exclusive g \<or> 0 < gt_active_execs g \<or> 0 < gt_waiting_execs g then None else Some (g\<lparr>gt_exclusive := True\<rparr>))"

definition excl_leave :: "gate \<Rightarrow> gate" where
  "excl_leave g = g\<lparr>gt_exclusive := False\<rparr>"

text \<open>The table of gates; a gate is its index in the heap.\<close>

record gates =
  gs_table :: "(string, nat) dict"
  gs_heap :: "gate list"

definition get_gate :: "string \<Rightarrow> gates \<Rightarrow> nat \<times> gates" where
  "get_gate c s =
     (case dget (gs_table s) c of Some i \<Rightarrow> (i, s)
      | None \<Rightarrow> (length (gs_heap s),
          s\<lparr>gs_table := dset c (length (gs_heap s)) (gs_table s), gs_heap := gs_heap s @ [new_gate]\<rparr>))"

definition drop_gate :: "string \<Rightarrow> gates \<Rightarrow> gates" where
  "drop_gate c s = s\<lparr>gs_table := dpop c (gs_table s)\<rparr>"

definition put_gate :: "nat \<Rightarrow> gate \<Rightarrow> gates \<Rightarrow> gates" where
  "put_gate i g s = s\<lparr>gs_heap := (gs_heap s)[i := g]\<rparr>"

section \<open>Server-wide sections\<close>

record sections =
  se_maintenance :: bool
  se_foreground :: int
  se_commits :: int

definition fg_enter :: "sections \<Rightarrow> sections option" where
  "fg_enter e = (if se_maintenance e then None else Some (e\<lparr>se_foreground := se_foreground e + 1\<rparr>))"

definition fg_leave :: "sections \<Rightarrow> sections" where
  "fg_leave e = e\<lparr>se_foreground := max 0 (se_foreground e - 1)\<rparr>"

definition commit_enter :: "int \<Rightarrow> sections \<Rightarrow> sections option" where
  "commit_enter max_inflight e =
     (if max 1 max_inflight \<le> se_commits e then None else Some (e\<lparr>se_commits := se_commits e + 1\<rparr>))"

definition commit_leave :: "sections \<Rightarrow> sections" where
  "commit_leave e = e\<lparr>se_commits := max 0 (se_commits e - 1)\<rparr>"

definition maint_claim :: "sections \<Rightarrow> sections option" where
  "maint_claim e = (if se_maintenance e then None else Some (e\<lparr>se_maintenance := True\<rparr>))"

definition maint_ready :: "sections \<Rightarrow> bool" where
  "maint_ready e = (se_foreground e \<le> 0)"

definition maint_leave :: "sections \<Rightarrow> sections" where
  "maint_leave e = e\<lparr>se_maintenance := False\<rparr>"

section \<open>Threads\<close>

datatype stage =
    Exec_Got string nat      \<comment> \<open>has looked its gate up\<close>
  | Exec_Waiting string nat
  | Exec_In string nat       \<comment> \<open>inside \<open>_container_exec_section\<close>\<close>
  | Exec_Fg string nat       \<comment> \<open>and inside \<open>_foreground_docker_section\<close>\<close>
  | Exec_Done string nat     \<comment> \<open>back from it, about to leave the gate\<close>
  | Excl_Got string nat
  | Excl_In string nat       \<comment> \<open>inside \<open>_container_exclusive_section\<close>\<close>
  | Excl_Fg string nat
  | Excl_Commit string nat   \<comment> \<open>and inside \<open>_commit_docker_section\<close>\<close>
  | Excl_Last string nat     \<comment> \<open>its commit slot is given back, the foreground section not yet left\<close>
  | Excl_Done string nat
  | Fg_Only
  | Maint_Claimed
  | Maint_In

type_synonym server = "gates \<times> sections \<times> stage multiset"

fun execs_on :: "nat \<Rightarrow> stage \<Rightarrow> bool" where
  "execs_on i (Exec_In c j) = (j = i)"
| "execs_on i (Exec_Fg c j) = (j = i)"
| "execs_on i (Exec_Done c j) = (j = i)"
| "execs_on i _ = False"

fun waits_on :: "nat \<Rightarrow> stage \<Rightarrow> bool" where
  "waits_on i (Exec_Waiting c j) = (j = i)"
| "waits_on i _ = False"

fun owns :: "nat \<Rightarrow> stage \<Rightarrow> bool" where
  "owns i (Excl_In c j) = (j = i)"
| "owns i (Excl_Fg c j) = (j = i)"
| "owns i (Excl_Commit c j) = (j = i)"
| "owns i (Excl_Last c j) = (j = i)"
| "owns i (Excl_Done c j) = (j = i)"
| "owns i _ = False"

fun in_fg :: "stage \<Rightarrow> bool" where
  "in_fg (Exec_Fg c i) = True"
| "in_fg (Excl_Fg c i) = True"
| "in_fg (Excl_Commit c i) = True"
| "in_fg (Excl_Last c i) = True"
| "in_fg Fg_Only = True"
| "in_fg _ = False"

fun in_commit :: "stage \<Rightarrow> bool" where
  "in_commit (Excl_Commit c i) = True"
| "in_commit _ = False"

fun in_maint :: "stage \<Rightarrow> bool" where
  "in_maint Maint_Claimed = True"
| "in_maint Maint_In = True"
| "in_maint _ = False"

fun gate_of :: "stage \<Rightarrow> (string \<times> nat) option" where
  "gate_of (Exec_Got c i) = Some (c, i)"
| "gate_of (Exec_Waiting c i) = Some (c, i)"
| "gate_of (Exec_In c i) = Some (c, i)"
| "gate_of (Exec_Fg c i) = Some (c, i)"
| "gate_of (Exec_Done c i) = Some (c, i)"
| "gate_of (Excl_Got c i) = Some (c, i)"
| "gate_of (Excl_In c i) = Some (c, i)"
| "gate_of (Excl_Fg c i) = Some (c, i)"
| "gate_of (Excl_Commit c i) = Some (c, i)"
| "gate_of (Excl_Last c i) = Some (c, i)"
| "gate_of (Excl_Done c i) = Some (c, i)"
| "gate_of _ = None"

section \<open>Steps\<close>

text \<open>New threads arrive (with or without drops of gates); threads under way move.\<close>

inductive arrives :: "bool \<Rightarrow> server \<Rightarrow> server \<Rightarrow> bool" for drops :: bool where
  exec_get: "get_gate c s = (i, s') \<Longrightarrow> arrives drops (s, e, T) (s', e, add_mset (Exec_Got c i) T)"
| excl_get: "get_gate c s = (i, s') \<Longrightarrow> arrives drops (s, e, T) (s', e, add_mset (Excl_Got c i) T)"
| fg_only: "fg_enter e = Some e' \<Longrightarrow> arrives drops (s, e, T) (s, e', add_mset Fg_Only T)"
| claim: "maint_claim e = Some e' \<Longrightarrow> arrives drops (s, e, T) (s, e', add_mset Maint_Claimed T)"
| drop: "drops \<Longrightarrow> arrives drops (s, e, T) (drop_gate c s, e, T)"

inductive moves :: "int \<Rightarrow> server \<Rightarrow> server \<Rightarrow> bool" for max_inflight :: int where
  exec_in: "exec_enter (gs_heap s ! i) = (g, True) \<Longrightarrow>
    moves max_inflight (s, e, add_mset (Exec_Got c i) T) (put_gate i g s, e, add_mset (Exec_In c i) T)"
| exec_wait: "exec_enter (gs_heap s ! i) = (g, False) \<Longrightarrow>
    moves max_inflight (s, e, add_mset (Exec_Got c i) T) (put_gate i g s, e, add_mset (Exec_Waiting c i) T)"
| exec_wake: "exec_wake (gs_heap s ! i) = Some g \<Longrightarrow>
    moves max_inflight (s, e, add_mset (Exec_Waiting c i) T) (put_gate i g s, e, add_mset (Exec_In c i) T)"
| exec_fg: "fg_enter e = Some e' \<Longrightarrow>
    moves max_inflight (s, e, add_mset (Exec_In c i) T) (s, e', add_mset (Exec_Fg c i) T)"
| exec_fg_leave: "moves max_inflight (s, e, add_mset (Exec_Fg c i) T) (s, fg_leave e, add_mset (Exec_Done c i) T)"
| exec_leave: "moves max_inflight (s, e, add_mset (Exec_Done c i) T) (put_gate i (exec_leave (gs_heap s ! i)) s, e, T)"
| excl_enter: "excl_enter (gs_heap s ! i) = Some g \<Longrightarrow>
    moves max_inflight (s, e, add_mset (Excl_Got c i) T) (put_gate i g s, e, add_mset (Excl_In c i) T)"
| excl_fg: "fg_enter e = Some e' \<Longrightarrow>
    moves max_inflight (s, e, add_mset (Excl_In c i) T) (s, e', add_mset (Excl_Fg c i) T)"
| excl_fg_leave: "moves max_inflight (s, e, add_mset (Excl_Fg c i) T) (s, fg_leave e, add_mset (Excl_Done c i) T)"
| excl_commit: "commit_enter max_inflight e = Some e' \<Longrightarrow>
    moves max_inflight (s, e, add_mset (Excl_Fg c i) T) (s, e', add_mset (Excl_Commit c i) T)"
| excl_commit_leave: "moves max_inflight (s, e, add_mset (Excl_Commit c i) T) (s, commit_leave e, add_mset (Excl_Last c i) T)"
| excl_last: "moves max_inflight (s, e, add_mset (Excl_Last c i) T) (s, fg_leave e, add_mset (Excl_Done c i) T)"
| excl_leave: "moves max_inflight (s, e, add_mset (Excl_Done c i) T) (put_gate i (excl_leave (gs_heap s ! i)) s, e, T)"
| fg_only_leave: "moves max_inflight (s, e, add_mset Fg_Only T) (s, fg_leave e, T)"
| maint_enter: "maint_ready e \<Longrightarrow> moves max_inflight (s, e, add_mset Maint_Claimed T) (s, e, add_mset Maint_In T)"
| maint_leave: "moves max_inflight (s, e, add_mset Maint_In T) (s, maint_leave e, T)"

text \<open>A command or an exclusive operation may also raise before it reaches its docker call.\<close>

inductive aborts :: "server \<Rightarrow> server \<Rightarrow> bool" where
  exec_abort: "aborts (s, e, add_mset (Exec_In c i) T) (s, e, add_mset (Exec_Done c i) T)"
| excl_abort: "aborts (s, e, add_mset (Excl_In c i) T) (s, e, add_mset (Excl_Done c i) T)"

definition server_step :: "bool \<Rightarrow> int \<Rightarrow> server \<Rightarrow> server \<Rightarrow> bool" where
  "server_step drops max_inflight x y = (arrives drops x y \<or> moves max_inflight x y \<or> aborts x y)"

definition idle_server :: server where
  "idle_server = (\<lparr>gs_table = [], gs_heap = []\<rparr>, \<lparr>se_maintenance = False, se_foreground = 0, se_commits = 0\<rparr>, {#})"


section \<open>Invariants\<close>

definition gate_good :: "gate \<Rightarrow> int \<Rightarrow> int \<Rightarrow> int \<Rightarrow> bool" where
  \<comment> \<open>commands inside, commands waiting, exclusive owners\<close>
  "gate_good g n w k =
     (gt_active_execs g = n \<and> gt_waiting_execs g = w \<and> (if gt_exclusive g then k = 1 \<and> n = 0 else k = 0))"

definition gates_inv :: "server \<Rightarrow> bool" where
  "gates_inv x = (case x of (s, e, T) \<Rightarrow>
     (\<forall>i < length (gs_heap s). gate_good (gs_heap s ! i) (tally (execs_on i) T) (tally (waits_on i) T) (tally (owns i) T)))"

definition sections_inv :: "int \<Rightarrow> server \<Rightarrow> bool" where
  "sections_inv max_inflight x = (case x of (s, e, T) \<Rightarrow>
     se_foreground e = tally in_fg T \<and> se_commits e = tally in_commit T \<and> se_commits e \<le> max 1 max_inflight \<and>
     tally in_maint T = (if se_maintenance e then 1 else 0) \<and> (Maint_In \<in># T \<longrightarrow> tally in_fg T = 0))"

definition names_inv :: "server \<Rightarrow> bool" where
  "names_inv x = (case x of (s, e, T) \<Rightarrow>
     (\<forall>c i. dget (gs_table s) c = Some i \<longrightarrow> i < length (gs_heap s)) \<and>
     (\<forall>t c i. t \<in># T \<longrightarrow> gate_of t = Some (c, i) \<longrightarrow> i < length (gs_heap s)))"

definition kept_inv :: "server \<Rightarrow> bool" where
  \<comment> \<open>without drops a container has one gate for ever, and different containers have different ones\<close>
  "kept_inv x = (case x of (s, e, T) \<Rightarrow>
     (\<forall>t c i. t \<in># T \<longrightarrow> gate_of t = Some (c, i) \<longrightarrow> dget (gs_table s) c = Some i))"

lemma get_gate_facts:
  assumes "get_gate c s = (i, s')"
  shows "\<exists>xs. gs_heap s' = gs_heap s @ xs \<and> set xs \<subseteq> {new_gate}" "dget (gs_table s') c = Some i"
    "\<And>d. d \<noteq> c \<Longrightarrow> dget (gs_table s') d = dget (gs_table s) d" "\<And>d j. dget (gs_table s) d = Some j \<Longrightarrow> dget (gs_table s') d = Some j"
    "i < length (gs_heap s') \<or> dget (gs_table s) c = Some i"
  using assms by (auto simp: get_gate_def dget_dset split: option.splits)

lemma names_arrive: "arrives drops x y \<Longrightarrow> names_inv x \<Longrightarrow> names_inv y"
proof (induction rule: arrives.induct)
  case (exec_get c s i s' e T)
  then show ?case by (auto simp: names_inv_def get_gate_def dget_dset less_Suc_eq split: option.splits if_splits)
next
  case (excl_get c s i s' e T)
  then show ?case by (auto simp: names_inv_def get_gate_def dget_dset less_Suc_eq split: option.splits if_splits)
qed (auto simp: names_inv_def drop_gate_def dget_dpop split: if_splits)

lemma names_move: "moves m x y \<Longrightarrow> names_inv x \<Longrightarrow> names_inv y"
  by (induction rule: moves.induct) (auto simp: names_inv_def put_gate_def)


lemma stage_gate: "execs_on i t \<or> waits_on i t \<or> owns i t \<Longrightarrow> \<exists>c. gate_of t = Some (c, i)"
  by (cases t) auto

lemma unborn_gate:
  assumes "names_inv (s, e, T)" "length (gs_heap s) \<le> i" "\<And>t. P t \<Longrightarrow> execs_on i t \<or> waits_on i t \<or> owns i t"
  shows "tally P T = 0"
proof -
  have "\<not> P t" if "t \<in># T" for t
  proof
    assume "P t"
    from stage_gate [OF assms(3) [OF this]] obtain c where "gate_of t = Some (c, i)" by blast
    with assms(1,2) that show False by (force simp: names_inv_def)
  qed
  then show ?thesis by auto
qed

lemma gates_get:
  assumes g: "get_gate c s = (i, s')" and "names_inv (s, e, T)" "gates_inv (s, e, T)"
  shows "gates_inv (s', e, T)"
proof -
  have new: "tally (execs_on (length (gs_heap s))) T = 0" "tally (waits_on (length (gs_heap s))) T = 0"
      "tally (owns (length (gs_heap s))) T = 0"
    by (rule unborn_gate [OF assms(2) order_refl], simp)+
  have "gate_good new_gate 0 0 0" by (simp add: gate_good_def new_gate_def)
  then have "gate_good new_gate (tally (execs_on (length (gs_heap s))) T) (tally (waits_on (length (gs_heap s))) T)
      (tally (owns (length (gs_heap s))) T)"
    unfolding new .
  with g assms(3) show ?thesis
    by (auto simp: get_gate_def gates_inv_def nth_append less_Suc_eq split: option.splits)
qed

lemma gates_arrive: "arrives drops x y \<Longrightarrow> names_inv x \<Longrightarrow> gates_inv x \<Longrightarrow> gates_inv y"
proof (induction rule: arrives.induct)
  case (exec_get c s i s' e T)
  from gates_get [OF this] show ?case by (simp add: gates_inv_def)
next
  case (excl_get c s i s' e T)
  from gates_get [OF this] show ?case by (simp add: gates_inv_def)
qed (simp_all add: gates_inv_def drop_gate_def)

lemma good_steps:
  "gate_good g n w k \<Longrightarrow> exec_enter g = (g', True) \<Longrightarrow> gate_good g' (1 + n) w k"
  "gate_good g n w k \<Longrightarrow> exec_enter g = (g', False) \<Longrightarrow> gate_good g' n (1 + w) k"
  "gate_good g n (1 + w) k \<Longrightarrow> exec_wake g = Some g' \<Longrightarrow> gate_good g' (1 + n) w k"
  "gate_good g (1 + n) w k \<Longrightarrow> 0 \<le> n \<Longrightarrow> gate_good (exec_leave g) n w k"
  "gate_good g n w k \<Longrightarrow> 0 \<le> n \<Longrightarrow> excl_enter g = Some g' \<Longrightarrow> gate_good g' n w (1 + k)"
  "gate_good g n w (1 + k) \<Longrightarrow> 0 \<le> k \<Longrightarrow> gate_good (excl_leave g) n w k"
  by (auto simp: gate_good_def exec_enter_def exec_wake_def exec_leave_def excl_enter_def excl_leave_def Let_def split: if_splits)

lemma gates_put:
  assumes "gates_inv (s, e, T)"
    and "\<And>j. j \<noteq> i \<Longrightarrow> tally (execs_on j) T' = tally (execs_on j) T \<and> tally (waits_on j) T' = tally (waits_on j) T \<and>
      tally (owns j) T' = tally (owns j) T"
    and "gate_good (gs_heap s ! i) (tally (execs_on i) T) (tally (waits_on i) T) (tally (owns i) T) \<Longrightarrow>
      gate_good g (tally (execs_on i) T') (tally (waits_on i) T') (tally (owns i) T')"
  shows "gates_inv (put_gate i g s, e', T')"
proof -
  have "gate_good ((gs_heap s)[i := g] ! j) (tally (execs_on j) T') (tally (waits_on j) T') (tally (owns j) T')"
    if "j < length (gs_heap s)" for j
    using assms(1,3) assms(2) [of j] that by (cases "j = i") (simp_all add: gates_inv_def)
  then show ?thesis by (simp add: gates_inv_def put_gate_def)
qed

lemma gates_frame:
  "gates_inv (s, e, T) \<Longrightarrow> (\<And>j. tally (execs_on j) T' = tally (execs_on j) T \<and> tally (waits_on j) T' = tally (waits_on j) T \<and>
      tally (owns j) T' = tally (owns j) T) \<Longrightarrow> gates_inv (s, e', T')"
  by (simp add: gates_inv_def)

lemma gates_move: "moves m x y \<Longrightarrow> gates_inv x \<Longrightarrow> gates_inv y"
proof (induction rule: moves.induct)
  case (exec_in s i g e c T)
  from exec_in(2) show ?case by (rule gates_put) (use good_steps(1) [OF _ exec_in(1)] in \<open>auto\<close>)
next
  case (exec_wait s i g e c T)
  from exec_wait(2) show ?case by (rule gates_put) (use good_steps(2) [OF _ exec_wait(1)] in \<open>auto\<close>)
next
  case (exec_wake s i g e c T)
  from exec_wake(2) show ?case by (rule gates_put) (use good_steps(3) [OF _ exec_wake(1)] in \<open>auto\<close>)
next
  case (exec_leave s e c i T)
  from exec_leave show ?case by (rule gates_put) (use good_steps(4) in \<open>auto\<close>)
next
  case (excl_enter s i g e c T)
  from excl_enter(2) show ?case by (rule gates_put) (use good_steps(5) [OF _ _ excl_enter(1)] in \<open>auto\<close>)
next
  case (excl_leave s e c i T)
  from excl_leave show ?case by (rule gates_put) (use good_steps(6) in \<open>auto\<close>)
qed (erule gates_frame, auto)+

lemma sections_arrive: "arrives drops x y \<Longrightarrow> sections_inv m x \<Longrightarrow> sections_inv m y"
  by (induction rule: arrives.induct) (auto simp: sections_inv_def fg_enter_def maint_claim_def split: if_splits dest: tally_zero)

lemma sections_move: "moves m x y \<Longrightarrow> sections_inv m x \<Longrightarrow> sections_inv m y"
  by (induction rule: moves.induct)
    (auto simp: sections_inv_def fg_enter_def fg_leave_def commit_enter_def commit_leave_def maint_ready_def maint_leave_def
      split: if_splits dest: tally_zero)

lemma kept_arrive: "arrives False x y \<Longrightarrow> kept_inv x \<Longrightarrow> kept_inv y"
proof (induction rule: arrives.induct)
  case (exec_get c s i s' e T)
  with get_gate_facts [OF exec_get(1)] show ?case by (fastforce simp: kept_inv_def)
next
  case (excl_get c s i s' e T)
  with get_gate_facts [OF excl_get(1)] show ?case by (fastforce simp: kept_inv_def)
qed (auto simp: kept_inv_def)

lemma kept_move: "moves m x y \<Longrightarrow> kept_inv x \<Longrightarrow> kept_inv y"
  by (induction rule: moves.induct) (auto simp: kept_inv_def put_gate_def)

lemma aborts_keep:
  "aborts x y \<Longrightarrow> names_inv x \<Longrightarrow> names_inv y" "aborts x y \<Longrightarrow> gates_inv x \<Longrightarrow> gates_inv y"
  "aborts x y \<Longrightarrow> sections_inv m x \<Longrightarrow> sections_inv m y" "aborts x y \<Longrightarrow> kept_inv x \<Longrightarrow> kept_inv y"
proof -
  show "aborts x y \<Longrightarrow> gates_inv x \<Longrightarrow> gates_inv y"
    by (induction rule: aborts.induct) (erule gates_frame, auto)+
qed (induction rule: aborts.induct; auto simp: names_inv_def sections_inv_def kept_inv_def)+

interpretation gates: stepping "\<lambda>x. x = idle_server" "server_step drops m"
    "\<lambda>x. names_inv x \<and> gates_inv x \<and> sections_inv m x \<and> (\<not> drops \<longrightarrow> kept_inv x)"
proof
  fix x assume "x = idle_server"
  then show "names_inv x \<and> gates_inv x \<and> sections_inv m x \<and> (\<not> drops \<longrightarrow> kept_inv x)"
    by (simp add: idle_server_def names_inv_def gates_inv_def sections_inv_def kept_inv_def)
next
  fix x y
  assume "server_step drops m x y" and "names_inv x \<and> gates_inv x \<and> sections_inv m x \<and> (\<not> drops \<longrightarrow> kept_inv x)"
  then show "names_inv y \<and> gates_inv y \<and> sections_inv m y \<and> (\<not> drops \<longrightarrow> kept_inv y)"
    using names_arrive names_move gates_arrive gates_move sections_arrive sections_move kept_arrive kept_move aborts_keep
    unfolding server_step_def by (metis (full_types))
qed


section \<open>Properties\<close>

fun inside :: "stage \<Rightarrow> bool" where
  "inside (Exec_Got c i) = False"
| "inside (Exec_Waiting c i) = False"
| "inside (Excl_Got c i) = False"
| "inside t = (gate_of t \<noteq> None)"

lemma inside_gate: "inside t \<Longrightarrow> gate_of t = Some (c, i) \<Longrightarrow> execs_on i t \<or> owns i t"
  by (cases t) auto

lemma owner_alone:
  assumes "gates_inv (s, e, add_mset t T)" "names_inv (s, e, add_mset t T)" "owns i t" "u \<in># T"
  shows "\<not> execs_on i u \<and> \<not> owns i u"
proof -
  from stage_gate [of i t] assms(3) obtain c where "gate_of t = Some (c, i)" by blast
  with assms(2) have i: "i < length (gs_heap s)" by (auto simp: names_inv_def)
  have no_exec: "\<not> execs_on i t" using assms(3) by (cases t) auto
  have "gate_good (gs_heap s ! i) (tally (execs_on i) (add_mset t T)) (tally (waits_on i) (add_mset t T)) (tally (owns i) (add_mset t T))"
    using assms(1) i unfolding gates_inv_def by blast
  then have "tally (owns i) T = 0" "tally (execs_on i) T = 0"
    using assms(3) no_exec by (auto simp: gate_good_def split: if_splits)
  with tally_zero assms(4) show ?thesis by metis
qed

text \<open>C21. Under every interleaving of commands, exclusive operations, commits and maintenance, a thread inside
  a container's exclusive section shares its gate with no other thread that is inside; and as long as no gate
  is dropped from the table, the gate is the container's, so no command runs in a container while a checkpoint
  or a destroy of it is in progress.\<close>

theorem exclusive_section_excludes:
  assumes "(server_step drops m)\<^sup>*\<^sup>* idle_server (s, e, add_mset t T)" and "owns i t"
  shows "(\<forall>u\<in>#T. \<not> execs_on i u \<and> \<not> owns i u) \<and>
    (\<not> drops \<longrightarrow> (\<forall>u c j. u \<in># T \<longrightarrow> gate_of t = Some (c, i) \<longrightarrow> gate_of u = Some (c, j) \<longrightarrow> \<not> inside u))"
proof -
  from gates.reachable_inv [OF refl assms(1)]
  have inv: "names_inv (s, e, add_mset t T)" "gates_inv (s, e, add_mset t T)"
    and kept: "\<not> drops \<longrightarrow> kept_inv (s, e, add_mset t T)" by simp_all
  have alone: "\<not> execs_on i u \<and> \<not> owns i u" if "u \<in># T" for u by (rule owner_alone [OF inv(2,1) assms(2) that])
  have "\<not> inside u" if "\<not> drops" "u \<in># T" "gate_of t = Some (c, i)" "gate_of u = Some (c, j)" for u c j
  proof -
    from kept that(1) have k: "kept_inv (s, e, add_mset t T)" by blast
    then have "dget (gs_table s) c = Some i" using that(3) by (simp add: kept_inv_def)
    moreover have "dget (gs_table s) c = Some j" using k that(2,4) by (simp add: kept_inv_def)
    ultimately have "j = i" by simp
    with alone [OF that(2)] inside_gate [of u c j] that(4) show ?thesis by blast
  qed
  with alone show ?thesis by blast
qed

text \<open>Maintenance has docker to itself: once it runs, no foreground docker call is in progress, there is
  at most one maintenance at a time, the foreground counter is exact, and no more than the configured number of
  commits (at least one) run at once.\<close>

theorem docker_sections_safe:
  assumes "(server_step drops m)\<^sup>*\<^sup>* idle_server (s, e, T)"
  shows "(Maint_In \<in># T \<longrightarrow> (\<forall>t\<in>#T. \<not> in_fg t)) \<and> tally in_maint T \<le> 1 \<and> se_foreground e = tally in_fg T \<and>
    tally in_commit T \<le> max 1 m"
proof -
  from gates.reachable_inv [OF refl assms] have inv: "sections_inv m (s, e, T)" by simp
  moreover have "Maint_In \<in># T \<longrightarrow> (\<forall>t\<in>#T. \<not> in_fg t)"
    using inv tally_zero [of in_fg T] by (auto simp: sections_inv_def)
  ultimately show ?thesis by (auto simp: sections_inv_def split: if_splits)
qed


text \<open>How many moves a thread still has.\<close>

fun rank :: "stage \<Rightarrow> nat" where
  "rank (Exec_Got c i) = 5"
| "rank (Exec_Waiting c i) = 4"
| "rank (Exec_In c i) = 3"
| "rank (Exec_Fg c i) = 2"
| "rank (Exec_Done c i) = 1"
| "rank (Excl_Got c i) = 6"
| "rank (Excl_In c i) = 5"
| "rank (Excl_Fg c i) = 4"
| "rank (Excl_Commit c i) = 3"
| "rank (Excl_Last c i) = 2"
| "rank (Excl_Done c i) = 1"
| "rank Fg_Only = 1"
| "rank Maint_Claimed = 2"
| "rank Maint_In = 1"

definition work :: "server \<Rightarrow> nat" where
  "work x = (case x of (s, e, T) \<Rightarrow> sum_mset (image_mset rank T))"

lemma moves_work: "moves m x y \<Longrightarrow> work y < work x"
  by (induction rule: moves.induct) (simp_all add: work_def)

fun leaving :: "stage \<Rightarrow> bool" where
  \<comment> \<open>can always go on\<close>
  "leaving (Exec_Fg c i) = True"
| "leaving (Exec_Done c i) = True"
| "leaving (Excl_Fg c i) = True"
| "leaving (Excl_Commit c i) = True"
| "leaving (Excl_Last c i) = True"
| "leaving (Excl_Done c i) = True"
| "leaving Fg_Only = True"
| "leaving Maint_In = True"
| "leaving _ = False"

lemma leaving_moves: "leaving t \<Longrightarrow> \<exists>y. moves m (s, e, add_mset t T) y"
  by (cases t) (auto intro: moves.intros)

lemma no_tally: "(\<And>t. t \<in># T \<Longrightarrow> \<not> P t) \<Longrightarrow> tally P T = 0"
  by auto

lemma some_move:
  assumes inv: "gates_inv (s, e, T)" "names_inv (s, e, T)" "sections_inv m (s, e, T)" and ne: "T \<noteq> {#}"
  shows "\<exists>y. moves m (s, e, T) y"
proof (cases "\<exists>t\<in>#T. leaving t")
  case True
  then obtain t where "t \<in># T" "leaving t" by blast
  with leaving_moves [of t m s e "T - {#t#}"] show ?thesis by simp
next
  case still: False
  have fg: "tally in_fg T = 0"
  proof (rule no_tally)
    fix t assume "t \<in># T"
    with still show "\<not> in_fg t" by (cases t) auto
  qed
  show ?thesis
  proof (cases "Maint_Claimed \<in># T")
    case True
    have "maint_ready e" using inv(3) fg by (simp add: sections_inv_def maint_ready_def)
    with moves.maint_enter [of e m s "T - {#Maint_Claimed#}"] True show ?thesis by auto
  next
    case unclaimed: False
    have "tally in_maint T = 0"
    proof (rule no_tally)
      fix t assume "t \<in># T"
      with still unclaimed show "\<not> in_maint t" by (cases t) auto
    qed
    with inv(3) have "\<not> se_maintenance e" unfolding sections_inv_def by (simp split: if_split_asm)
    then obtain e' where e': "fg_enter e = Some e'" by (simp add: fg_enter_def)
    show ?thesis
    proof (cases "\<exists>c i. Exec_In c i \<in># T \<or> Excl_In c i \<in># T")
      case True
      then obtain c i where "Exec_In c i \<in># T \<or> Excl_In c i \<in># T" by blast
      then show ?thesis
        using moves.exec_fg [OF e', of m s c i "T - {#Exec_In c i#}"] moves.excl_fg [OF e', of m s c i "T - {#Excl_In c i#}"]
        by (metis insert_DiffM)
    next
      case outside: False
      have none: "tally (execs_on i) T = 0" "tally (owns i) T = 0" for i
      proof -
        show "tally (execs_on i) T = 0"
        proof (rule no_tally)
          fix t assume "t \<in># T"
          with still outside show "\<not> execs_on i t" by (cases t) auto
        qed
        show "tally (owns i) T = 0"
        proof (rule no_tally)
          fix t assume "t \<in># T"
          with still outside show "\<not> owns i t" by (cases t) auto
        qed
      qed
      have open_gate: "\<not> gt_exclusive (gs_heap s ! i) \<and> gt_active_execs (gs_heap s ! i) = 0 \<and>
          gt_waiting_execs (gs_heap s ! i) = tally (waits_on i) T" if "t \<in># T" "gate_of t = Some (c, i)" for t c i
      proof -
        have "i < length (gs_heap s)" using inv(2) that by (auto simp: names_inv_def)
        with inv(1) have "gate_good (gs_heap s ! i) (tally (execs_on i) T) (tally (waits_on i) T) (tally (owns i) T)"
          unfolding gates_inv_def by blast
        then have "gate_good (gs_heap s ! i) 0 (tally (waits_on i) T) 0" unfolding none .
        then show ?thesis by (auto simp: gate_good_def split: if_splits)
      qed
      show ?thesis
      proof (cases "\<exists>c i. Exec_Got c i \<in># T \<or> Exec_Waiting c i \<in># T")
        case True
        then obtain c i where ci: "Exec_Got c i \<in># T \<or> Exec_Waiting c i \<in># T" by blast
        then have "\<exists>t. t \<in># T \<and> gate_of t = Some (c, i)" by force
        then have o: "\<not> gt_exclusive (gs_heap s ! i)" using open_gate by blast
        then obtain g g' where "exec_enter (gs_heap s ! i) = (g, True)" "exec_wake (gs_heap s ! i) = Some g'"
          by (simp add: exec_enter_def exec_wake_def)
        with ci moves.exec_in [of s i g m e c "T - {#Exec_Got c i#}"] moves.exec_wake [of s i g' m e c "T - {#Exec_Waiting c i#}"]
        show ?thesis by (metis insert_DiffM)
      next
        case False
        obtain t where t: "t \<in># T" using ne by blast
        with still unclaimed outside False obtain c i where ci: "t = Excl_Got c i" by (cases t) auto
        have "tally (waits_on i) T = 0"
        proof (rule no_tally)
          fix u assume "u \<in># T"
          with False show "\<not> waits_on i u" by (cases u) auto
        qed
        with open_gate [of t c i] t ci obtain g where "excl_enter (gs_heap s ! i) = Some g" by (auto simp: excl_enter_def)
        with moves.excl_enter [of s i g m e c "T - {#Excl_Got c i#}"] t ci show ?thesis by (metis insert_DiffM)
      qed
    qed
  qed
qed

text \<open>C22. The sections never deadlock: in every reachable state with threads under way some thread can move on
  (not by giving up), and every move brings the threads closer to the end, so without new arrivals all of them
  finish, whatever the order.  Commands on a container and its exclusive operations, commits and maintenance
  may wait for each other but never in a cycle.\<close>

theorem sections_never_deadlock:
  assumes "(server_step drops m)\<^sup>*\<^sup>* idle_server (s, e, T)"
  shows "(T \<noteq> {#} \<longrightarrow> (\<exists>y. moves m (s, e, T) y)) \<and> (\<forall>y. moves m (s, e, T) y \<longrightarrow> work y < work (s, e, T))"
proof -
  from gates.reachable_inv [OF refl assms] have "gates_inv (s, e, T)" "names_inv (s, e, T)" "sections_inv m (s, e, T)" by simp_all
  from some_move [OF this] moves_work show ?thesis by blast
qed


section \<open>Concrete servers\<close>

abbreviation one_gate :: "gate \<Rightarrow> gates" where
  "one_gate g \<equiv> \<lparr>gs_table = [(''c'', 0)], gs_heap = [g]\<rparr>"

abbreviation free :: sections where
  "free \<equiv> \<lparr>se_maintenance = False, se_foreground = 0, se_commits = 0\<rparr>"

lemma gate_run_step:
  "arrives drops x y \<Longrightarrow> (server_step drops m)\<^sup>*\<^sup>* x y" "moves m x y \<Longrightarrow> (server_step drops m)\<^sup>*\<^sup>* x y"
  by (rule r_into_rtranclp, simp add: server_step_def)+

text \<open>A checkpoint has entered the exclusive section of container \<open>c\<close>; a command has looked the gate up.\<close>

lemma w_exclusive:
  "(server_step drops m)\<^sup>*\<^sup>* idle_server
     (one_gate \<lparr>gt_active_execs = 0, gt_waiting_execs = 0, gt_exclusive = True\<rparr>, free, {#Excl_In ''c'' 0, Exec_Got ''c'' 0#})"
proof -
  let ?g = "\<lparr>gt_active_execs = 0, gt_waiting_execs = 0, gt_exclusive = True\<rparr>"
  have "arrives drops idle_server (one_gate new_gate, free, {#Excl_Got ''c'' 0#})"
    unfolding idle_server_def by (rule arrives.excl_get) (simp add: get_gate_def)
  moreover have "moves m (one_gate new_gate, free, {#Excl_Got ''c'' 0#}) (one_gate ?g, free, {#Excl_In ''c'' 0#})"
    using moves.excl_enter [of "one_gate new_gate" 0 ?g m free "''c''" "{#}"] by (simp add: excl_enter_def new_gate_def put_gate_def)
  moreover have "arrives drops (one_gate ?g, free, {#Excl_In ''c'' 0#}) (one_gate ?g, free, {#Excl_In ''c'' 0, Exec_Got ''c'' 0#})"
    using arrives.exec_get [of "''c''" "one_gate ?g" 0 "one_gate ?g" drops free "{#Excl_In ''c'' 0#}"]
    by (simp add: get_gate_def add_mset_commute)
  ultimately show ?thesis by (meson gate_run_step rtranclp_trans)
qed

lemma exclusive_section_excludes_witness: "\<not> execs_on 0 (Exec_Got ''c'' 0) \<and> \<not> inside (Exec_Got ''c'' 0)"
  using exclusive_section_excludes [OF w_exclusive [of False 1], of 0] by simp

lemma docker_sections_safe_witness: "tally in_commit {#Excl_In ''c'' 0, Exec_Got ''c'' 0#} \<le> max 1 (1::int)"
  using docker_sections_safe [OF w_exclusive [of True 1]] by blast

lemma sections_never_deadlock_witness:
  "\<exists>y. moves 1 (one_gate \<lparr>gt_active_execs = 0, gt_waiting_execs = 0, gt_exclusive = True\<rparr>, free,
     {#Excl_In ''c'' 0, Exec_Got ''c'' 0#}) y"
  using sections_never_deadlock [OF w_exclusive [of True 1]] by simp

text \<open>
  A drop breaks the exclusion: once the gate has left the table while a checkpoint is inside, the next command
  on the container gets a new gate and goes in beside it.
\<close>

lemma drop_breaks_exclusion:
  "\<exists>s e. (server_step True m)\<^sup>*\<^sup>* idle_server (s, e, {#Excl_In ''c'' 0, Exec_In ''c'' 1#})"
proof -
  let ?x = "\<lparr>gt_active_execs = 0, gt_waiting_execs = 0, gt_exclusive = True\<rparr>"
  let ?a = "\<lparr>gt_active_execs = 1, gt_waiting_execs = 0, gt_exclusive = False\<rparr>"
  have "arrives True idle_server (one_gate new_gate, free, {#Excl_Got ''c'' 0#})"
    unfolding idle_server_def by (rule arrives.excl_get) (simp add: get_gate_def)
  moreover have "moves m (one_gate new_gate, free, {#Excl_Got ''c'' 0#}) (one_gate ?x, free, {#Excl_In ''c'' 0#})"
    using moves.excl_enter [of "one_gate new_gate" 0 ?x m free "''c''" "{#}"] by (simp add: excl_enter_def new_gate_def put_gate_def)
  moreover have "arrives True (one_gate ?x, free, {#Excl_In ''c'' 0#}) (\<lparr>gs_table = [], gs_heap = [?x]\<rparr>, free, {#Excl_In ''c'' 0#})"
    using arrives.drop [of True "one_gate ?x" free "{#Excl_In ''c'' 0#}" "''c''"] by (simp add: drop_gate_def)
  moreover have "arrives True (\<lparr>gs_table = [], gs_heap = [?x]\<rparr>, free, {#Excl_In ''c'' 0#})
      (\<lparr>gs_table = [(''c'', 1)], gs_heap = [?x, new_gate]\<rparr>, free, {#Excl_In ''c'' 0, Exec_Got ''c'' 1#})"
    using arrives.exec_get [of "''c''" "\<lparr>gs_table = [], gs_heap = [?x]\<rparr>" 1 "\<lparr>gs_table = [(''c'', 1)], gs_heap = [?x, new_gate]\<rparr>" True
        free "{#Excl_In ''c'' 0#}"] by (simp add: get_gate_def add_mset_commute)
  moreover have "moves m (\<lparr>gs_table = [(''c'', 1)], gs_heap = [?x, new_gate]\<rparr>, free, {#Excl_In ''c'' 0, Exec_Got ''c'' 1#})
      (\<lparr>gs_table = [(''c'', 1)], gs_heap = [?x, ?a]\<rparr>, free, {#Excl_In ''c'' 0, Exec_In ''c'' 1#})"
    using moves.exec_in [of "\<lparr>gs_table = [(''c'', 1)], gs_heap = [?x, new_gate]\<rparr>" 1 ?a m free "''c''" "{#Excl_In ''c'' 0#}"]
    by (simp add: exec_enter_def exec_wake_def new_gate_def put_gate_def add_mset_commute)
  ultimately have "(server_step True m)\<^sup>*\<^sup>* idle_server
      (\<lparr>gs_table = [(''c'', 1)], gs_heap = [?x, ?a]\<rparr>, free, {#Excl_In ''c'' 0, Exec_In ''c'' 1#})"
    by (meson gate_run_step rtranclp_trans)
  then show ?thesis by blast
qed

end
