(* ===== verification/Exec_Checkpoints.thy ===== *)
theory Exec_Checkpoints
  imports Pool_Concurrency "HOL-Library.List_Lexorder" "HOL-Library.Char_ord"
begin

text \<open>
  The checkpoint table of the exec server (\<open>CheckpointManager\<close> of swe_exec_server.py): records and
  operations with the files they are persisted in, and the counter of checkpoints being created with its
  bounded semaphore.  A record file holds the record it was last written with; unreadable files are left out.
\<close>

section \<open>Records\<close>

datatype ck_status = Ck_Pending | Ck_Running | Ck_Ready | Ck_Failed

record ckpt_record =
  kr_checkpoint_id :: string
  kr_backend :: "string option"
  kr_lease_id :: string
  kr_generation :: int
  kr_container_id :: string
  kr_instance_id :: string
  kr_image :: string
  kr_cwd :: string
  kr_checkpoint_image :: "string option"
  kr_parent_id :: "string option"
  kr_step_idx :: "int option"
  kr_command_seq :: int
  kr_policy :: string
  kr_reason :: string
  kr_status :: ck_status
  kr_created_at :: real
  kr_ready_at :: "real option"
  kr_failed_at :: "real option"
  kr_last_used_at :: "real option"
  kr_size_bytes :: "int option"
  kr_error :: "string option"
  kr_runtime_env :: "(string, string) dict"
  kr_state_root :: "string option"
  kr_fault_type :: "string option"
  kr_container_usable :: "bool option"

record ckpt_op =
  ko_op_id :: string
  ko_checkpoint_id :: string
  ko_lease_id :: string
  ko_container_id :: string
  ko_status :: ck_status
  ko_started_at :: real
  ko_finished_at :: "real option"
  ko_error :: "string option"

section \<open>Names\<close>

definition tag_char :: "char \<Rightarrow> bool" where
  \<comment> \<open>\<open>[a-zA-Z0-9_.-]\<close>\<close>
  "tag_char c = (is_digit c \<or> (65 \<le> code_of c \<and> code_of c \<le> 90) \<or> (97 \<le> code_of c \<and> code_of c \<le> 122) \<or> c \<in> set ''_.-'')"

fun safe_from :: "bool \<Rightarrow> string \<Rightarrow> string" where
  \<comment> \<open>whether the previous character was replaced\<close>
  "safe_from run [] = []"
| "safe_from run (c # s) = (if tag_char c then c # safe_from False s else if run then safe_from True s else CHR ''-'' # safe_from True s)"

definition safe_name :: "string \<Rightarrow> string" where
  \<comment> \<open>\<open>re.sub(r"[^a-zA-Z0-9_.-]+", "-", s)\<close>\<close>
  "safe_name s = safe_from False s"

definition image_tag :: "string \<Rightarrow> string" where
  "image_tag ckpt_id = ''sweckpt:'' @ safe_name ckpt_id"

definition py_repr :: "string option \<Rightarrow> string" where
  \<comment> \<open>\<open>repr\<close> of a value that is \<open>None\<close> or a text without quotes and backslashes\<close>
  "py_repr v = (case v of None \<Rightarrow> ''None'' | Some t \<Rightarrow> CHR 0x27 # t @ [CHR 0x27])"

definition normalize_backend :: "string option \<Rightarrow> string \<Rightarrow> string res" where
  "normalize_backend v dflt =
     (let backend = replace_all ''-'' ''_'' (lower (strip (or_else v dflt)))
      in if backend = ''full'' \<or> backend = ''full_checkpoint'' then Inr ''full''
         else if backend = ''legacy'' \<or> backend = ''commit'' \<or> backend = ''docker_commit'' then Inr ''legacy''
         else Inl (ValueError (''unsupported checkpoint backend '' @ py_repr v @ ''; expected '' @ py_repr (Some ''full'') @ '' or '' @ py_repr (Some ''legacy''))))"

definition record_backend :: "ckpt_record \<Rightarrow> string res" where
  "record_backend r = normalize_backend (kr_backend r) ''legacy''"

section \<open>The manager\<close>

record manager =
  mg_max_inflight :: int
  mg_checkpoints :: "(string, ckpt_record) dict"
  mg_ops :: "(string, ckpt_op) dict"
  mg_inflight :: int
  mg_slots :: int
  mg_files :: "(string, ckpt_record) dict"      \<comment> \<open>stems of the record files, with what they hold\<close>
  mg_metadata :: "ckpt_record list option"      \<comment> \<open>the metadata file of earlier versions\<close>

definition add_loaded :: "ckpt_record \<Rightarrow> (string, ckpt_record) dict \<Rightarrow> (string, ckpt_record) dict" where
  "add_loaded r d = (if kr_checkpoint_id r = [] then d else dset (kr_checkpoint_id r) r d)"

definition load_records :: "(string, ckpt_record) dict \<Rightarrow> ckpt_record list option \<Rightarrow> (string, ckpt_record) dict" where
  "load_records files metadata =
     fold (\<lambda>stem. case dget files stem of None \<Rightarrow> id | Some r \<Rightarrow> add_loaded r) (sort (dkeys files))
       (case metadata of None \<Rightarrow> [] | Some rs \<Rightarrow> fold add_loaded rs [])"

definition new_manager :: "int \<Rightarrow> (string, ckpt_record) dict \<Rightarrow> ckpt_record list option \<Rightarrow> manager" where
  "new_manager max_inflight files metadata =
     \<lparr>mg_max_inflight = max 1 max_inflight, mg_checkpoints = load_records files metadata, mg_ops = [], mg_inflight = 0,
      mg_slots = max 1 max_inflight, mg_files = files, mg_metadata = metadata\<rparr>"

definition persist_record :: "ckpt_record \<Rightarrow> manager \<Rightarrow> manager" where
  "persist_record r m = m\<lparr>mg_files := dset (safe_name (kr_checkpoint_id r)) r (mg_files m)\<rparr>"

definition persist_all :: "manager \<Rightarrow> manager" where
  "persist_all m =
     (let m1 = fold persist_record (map snd (mg_checkpoints m)) m
      in m1\<lparr>mg_files := filter (\<lambda>f. \<not> (starts_with ''swe-ckpt-'' (fst f) \<and> fst f \<notin> set (dkeys (mg_checkpoints m)))) (mg_files m1),
            mg_metadata := None\<rparr>)"

section \<open>Creations in flight\<close>

definition acquire_slot :: "manager \<Rightarrow> manager option" where
  "acquire_slot m = (if mg_slots m \<le> 0 then None else Some (m\<lparr>mg_slots := mg_slots m - 1\<rparr>))"

definition count_up :: "manager \<Rightarrow> manager" where
  "count_up m = m\<lparr>mg_inflight := mg_inflight m + 1\<rparr>"

definition count_down :: "manager \<Rightarrow> bool \<times> manager" where
  \<comment> \<open>whether a slot is to be released\<close>
  "count_down m = (if 0 < mg_inflight m then (True, m\<lparr>mg_inflight := mg_inflight m - 1\<rparr>) else (False, m))"

definition release_slot :: "manager \<Rightarrow> manager res" where
  \<comment> \<open>\<open>BoundedSemaphore.release\<close>\<close>
  "release_slot m =
     (if mg_max_inflight m \<le> mg_slots m then Inl (ValueError ''Semaphore released too many times'')
      else Inr (m\<lparr>mg_slots := mg_slots m + 1\<rparr>))"

definition try_begin_create :: "manager \<Rightarrow> bool \<times> manager" where
  "try_begin_create m = (case acquire_slot m of None \<Rightarrow> (False, m) | Some m' \<Rightarrow> (True, count_up m'))"

definition end_create :: "manager \<Rightarrow> manager res" where
  "end_create m = (case count_down m of (True, m') \<Rightarrow> release_slot m' | (False, m') \<Rightarrow> Inr m')"

definition can_start_create :: "manager \<Rightarrow> bool" where
  "can_start_create m = (mg_inflight m < mg_max_inflight m)"

definition clear_manager :: "manager \<Rightarrow> manager" where
  "clear_manager m = persist_all (m\<lparr>mg_checkpoints := [], mg_ops := []\<rparr>)\<lparr>mg_inflight := 0, mg_slots := mg_max_inflight m\<rparr>"

section \<open>The table\<close>

record ckpt_args =
  ca_lease_id :: string
  ca_generation :: int
  ca_container_id :: string
  ca_instance_id :: string
  ca_image :: string
  ca_cwd :: string
  ca_step_idx :: int
  ca_command_seq :: int
  ca_policy :: string
  ca_reason :: string
  ca_parent_id :: "string option"
  ca_backend :: "string option"

definition create_record :: "string \<Rightarrow> string \<Rightarrow> real \<Rightarrow> ckpt_args \<Rightarrow> manager \<Rightarrow> (ckpt_record \<times> ckpt_op) res \<times> manager" where
  \<comment> \<open>\<open>create_checkpoint_with_stats\<close>; the first two arguments are the 16 hex digits of fresh UUIDs\<close>
  "create_record hex ohex now a m =
     (let cid = ''swe-ckpt-'' @ hex; oid = ''swe-ckpt-op-'' @ ohex
      in case normalize_backend (ca_backend a) ''legacy'' of
           Inl e \<Rightarrow> (Inl e, m)
         | Inr backend \<Rightarrow>
             (let r = \<lparr>kr_checkpoint_id = cid, kr_backend = Some backend, kr_lease_id = ca_lease_id a,
                    kr_generation = ca_generation a, kr_container_id = ca_container_id a, kr_instance_id = ca_instance_id a,
                    kr_image = ca_image a, kr_cwd = ca_cwd a,
                    kr_checkpoint_image = (if backend = ''legacy'' then Some (image_tag cid) else None),
                    kr_parent_id = ca_parent_id a, kr_step_idx = Some (ca_step_idx a), kr_command_seq = ca_command_seq a,
                    kr_policy = ca_policy a, kr_reason = ca_reason a, kr_status = Ck_Pending, kr_created_at = now,
                    kr_ready_at = None, kr_failed_at = None, kr_last_used_at = None, kr_size_bytes = None, kr_error = None,
                    kr_runtime_env = [], kr_state_root = None, kr_fault_type = None, kr_container_usable = None\<rparr>;
                  o' = \<lparr>ko_op_id = oid, ko_checkpoint_id = cid, ko_lease_id = ca_lease_id a, ko_container_id = ca_container_id a,
                    ko_status = Ck_Running, ko_started_at = now, ko_finished_at = None, ko_error = None\<rparr>
              in (Inr (r, o'), persist_record r (m\<lparr>mg_checkpoints := dset cid r (mg_checkpoints m), mg_ops := dset oid o' (mg_ops m)\<rparr>))))"

definition update_record :: "string \<Rightarrow> (ckpt_record \<Rightarrow> ckpt_record) \<Rightarrow> manager \<Rightarrow> manager res" where
  \<comment> \<open>\<open>update_checkpoint\<close>\<close>
  "update_record cid f m =
     (case dget (mg_checkpoints m) cid of None \<Rightarrow> Inl (KeyError cid)
      | Some r \<Rightarrow> Inr (persist_record (f r) (m\<lparr>mg_checkpoints := dset cid (f r) (mg_checkpoints m)\<rparr>)))"

definition update_op :: "string \<Rightarrow> (ckpt_op \<Rightarrow> ckpt_op) \<Rightarrow> manager \<Rightarrow> manager res" where
  "update_op oid f m =
     (case dget (mg_ops m) oid of None \<Rightarrow> Inl (KeyError oid)
      | Some r \<Rightarrow>
          (let r' = f r; ops = dset oid r' (mg_ops m)
           in Inr (m\<lparr>mg_ops := (if ko_status r' \<in> {Ck_Ready, Ck_Failed} then dpop oid ops else ops)\<rparr>)))"

definition get_record :: "string \<Rightarrow> manager \<Rightarrow> ckpt_record option" where
  "get_record cid m = dget (mg_checkpoints m) cid"

definition delete_record :: "string \<Rightarrow> manager \<Rightarrow> ckpt_record option \<times> manager" where
  "delete_record cid m =
     (case dget (mg_checkpoints m) cid of None \<Rightarrow> (None, m)
      | Some r \<Rightarrow> (Some r, m\<lparr>mg_checkpoints := dpop cid (mg_checkpoints m), mg_files := dpop (safe_name cid) (mg_files m)\<rparr>))"

definition mark_used :: "real \<Rightarrow> string \<Rightarrow> manager \<Rightarrow> manager res" where
  "mark_used now cid m = update_record cid (\<lambda>r. r\<lparr>kr_last_used_at := Some now\<rparr>) m"

definition record_key :: "ckpt_record \<Rightarrow> ckpt_key" where
  \<comment> \<open>\<open>_checkpoint_sort_key\<close>\<close>
  "record_key r = CkptKey (kr_generation r) (case kr_step_idx r of None \<Rightarrow> -1 | Some i \<Rightarrow> i) (kr_created_at r)"

definition list_records :: "string option \<Rightarrow> manager \<Rightarrow> ckpt_record list" where
  "list_records lease m =
     sort_key record_key (filter (\<lambda>r. case lease of None \<Rightarrow> True | Some l \<Rightarrow> kr_lease_id r = l) (map snd (mg_checkpoints m)))"

definition latest_ready_record :: "string \<Rightarrow> manager \<Rightarrow> ckpt_record option" where
  "latest_ready_record lease m =
     (let rs = filter (\<lambda>r. kr_status r = Ck_Ready) (list_records (Some lease) m) in if rs = [] then None else Some (last rs))"

definition demo_record :: "string \<Rightarrow> int \<Rightarrow> ck_status \<Rightarrow> string option \<Rightarrow> string option \<Rightarrow> ckpt_record" where
  "demo_record cid step st parent img =
     \<lparr>kr_checkpoint_id = cid, kr_backend = None, kr_lease_id = ''l'', kr_generation = 0, kr_container_id = ''c'',
      kr_instance_id = ''i'', kr_image = ''base'', kr_cwd = ''/testbed'', kr_checkpoint_image = img, kr_parent_id = parent,
      kr_step_idx = Some step, kr_command_seq = 0, kr_policy = [], kr_reason = [], kr_status = st, kr_created_at = 0,
      kr_ready_at = None, kr_failed_at = None, kr_last_used_at = None, kr_size_bytes = None, kr_error = None,
      kr_runtime_env = [], kr_state_root = None, kr_fault_type = None, kr_container_usable = None\<rparr>"

definition demo_records :: "ckpt_record list" where
  \<comment> \<open>\<open>a\<close> the parent of the newest ready \<open>d\<close>, \<open>b\<close> a side branch, \<open>f\<close> failed, \<open>p\<close> pending\<close>
  "demo_records = [demo_record ''a'' 1 Ck_Ready None None, demo_record ''b'' 2 Ck_Ready (Some ''a'') None,
     demo_record ''d'' 3 Ck_Ready (Some ''a'') None, demo_record ''f'' 4 Ck_Failed (Some ''d'') None,
     demo_record ''p'' 5 Ck_Pending (Some ''d'') None]"

section \<open>Creations under interleaving\<close>

text \<open>
  A creation takes a slot of the semaphore, then counts itself; at its end it is taken off the count
  and then gives the slot back.  Each of the four is a region of its own.
\<close>

datatype creation = Slot_Taken | Creating | Uncounted

type_synonym creations = "manager \<times> creation multiset"

inductive creation_step :: "creations \<Rightarrow> creations \<Rightarrow> bool" where
  take_slot: "acquire_slot m = Some m' \<Longrightarrow> creation_step (m, T) (m', add_mset Slot_Taken T)"
| count_in: "creation_step (m, add_mset Slot_Taken T) (count_up m, add_mset Creating T)"
| count_out: "count_down m = (True, m') \<Longrightarrow> creation_step (m, add_mset Creating T) (m', add_mset Uncounted T)"
| no_count: "count_down m = (False, m') \<Longrightarrow> creation_step (m, add_mset Creating T) (m', T)"
| give_back: "release_slot m = Inr m' \<Longrightarrow> creation_step (m, add_mset Uncounted T) (m', T)"

definition creations_inv :: "creations \<Rightarrow> bool" where
  "creations_inv x = (case x of (m, T) \<Rightarrow>
     1 \<le> mg_max_inflight m \<and> 0 \<le> mg_slots m \<and> mg_slots m + int (size T) = mg_max_inflight m \<and>
     mg_inflight m = tally (\<lambda>t. t = Creating) T)"

lemma creation_step_inv: "creation_step x y \<Longrightarrow> creations_inv x \<Longrightarrow> creations_inv y"
  by (induction rule: creation_step.induct)
    (auto simp: creations_inv_def acquire_slot_def count_up_def count_down_def release_slot_def split: if_splits)

interpretation creations: stepping "\<lambda>x. \<exists>n files metadata. x = (new_manager n files metadata, {#})" creation_step creations_inv
proof unfold_locales
  fix x :: creations assume "\<exists>n files metadata. x = (new_manager n files metadata, {#})"
  then show "creations_inv x" by (auto simp: creations_inv_def new_manager_def)
qed (rule creation_step_inv)

lemma tally_le_size: "tally P T \<le> int (size T)"
  by (simp add: size_filter_mset_lesseq)

text \<open>However creations of checkpoints interleave, at most \<open>max_inflight\<close> (at least one) of them run at
  once, the reported count is the number of those that run, a creation that ends always finds itself
  counted, and giving its slot back never raises the semaphore's ValueError.\<close>

theorem creations_bounded:
  assumes "creation_step\<^sup>*\<^sup>* (new_manager n files metadata, {#}) (m, T)"
  shows "mg_max_inflight m = max 1 n \<and> int (size T) \<le> max 1 n \<and> mg_inflight m = tally (\<lambda>t. t = Creating) T \<and>
    (Creating \<in># T \<longrightarrow> fst (count_down m)) \<and> (Uncounted \<in># T \<longrightarrow> (\<exists>m'. release_slot m = Inr m')) \<and>
    (int (size T) < max 1 n \<longrightarrow> can_start_create m)"
proof -
  have inv: "creations_inv (m, T)" using creations.reachable_inv [OF _ assms] by blast
  have "creation_step x y \<Longrightarrow> mg_max_inflight (fst y) = mg_max_inflight (fst x)" for x y
    by (induction rule: creation_step.induct)
      (auto simp: acquire_slot_def count_up_def count_down_def release_slot_def split: if_splits)
  note same = this
  have "creation_step\<^sup>*\<^sup>* x y \<Longrightarrow> mg_max_inflight (fst y) = mg_max_inflight (fst x)" for x y
    by (induction rule: rtranclp_induct) (simp_all add: same)
  from this [OF assms] have cap: "mg_max_inflight m = max 1 n" by (simp add: new_manager_def)
  have "0 < mg_inflight m" if "Creating \<in># T" using inv tally_pos [OF that, of "\<lambda>t. t = Creating"] by (simp add: creations_inv_def)
  moreover have "mg_slots m < mg_max_inflight m" if "Uncounted \<in># T"
    using inv that by (auto simp: creations_inv_def dest!: multi_member_split)
  moreover have "can_start_create m" if "int (size T) < max 1 n"
  proof -
    have "tally (\<lambda>t. t = Creating) T < mg_max_inflight m" using tally_le_size [of "\<lambda>t. t = Creating" T] that cap by linarith
    with inv show ?thesis by (simp add: creations_inv_def can_start_create_def)
  qed
  ultimately show ?thesis using inv cap
    by (auto simp: creations_inv_def count_down_def release_slot_def)
qed

lemma creations_bounded_witness:
  "int (size {#Creating#}) \<le> max 1 (0::int) \<and> fst (count_down (count_up ((new_manager 0 [] None)\<lparr>mg_slots := 0\<rparr>)))"
proof -
  let ?m = "(new_manager 0 [] None)\<lparr>mg_slots := 0\<rparr>"
  have a: "acquire_slot (new_manager 0 [] None) = Some ?m" by (simp add: acquire_slot_def new_manager_def)
  have "creation_step\<^sup>*\<^sup>* (new_manager 0 [] None, {#}) (count_up ?m, {#Creating#})"
    by (rule converse_rtranclp_into_rtranclp [OF take_slot [OF a] r_into_rtranclp [of creation_step, OF count_in]])
  from creations_bounded [OF this] show ?thesis by simp
qed

text \<open>The same counter as a pool of bounded slots.\<close>

definition begin_slot :: "manager \<Rightarrow> manager option" where
  "begin_slot m = (case try_begin_create m of (True, m') \<Rightarrow> Some m' | (False, _) \<Rightarrow> None)"

definition end_slot :: "manager \<Rightarrow> manager" where
  "end_slot m = (case end_create m of Inl _ \<Rightarrow> m | Inr m' \<Rightarrow> m')"

interpretation ckpt_slots: bounded_slots
  "\<lambda>m. 0 \<le> mg_inflight m \<and> mg_slots m = mg_max_inflight m - mg_inflight m \<and> 1 \<le> mg_max_inflight m"
  "\<lambda>m. mg_max_inflight m - mg_slots m" mg_max_inflight begin_slot end_slot
  by unfold_locales
    (auto simp: begin_slot_def end_slot_def try_begin_create_def end_create_def acquire_slot_def count_up_def count_down_def
      release_slot_def split: option.splits if_splits bool.splits)

section \<open>Restarts\<close>

lemma safe_from_safe: "list_all tag_char s \<Longrightarrow> safe_from run s = s"
  by (induction s arbitrary: run) auto

lemma safe_name_fresh: "list_all tag_char hex \<Longrightarrow> safe_name (''swe-ckpt-'' @ hex) = ''swe-ckpt-'' @ hex"
  unfolding safe_name_def by (rule safe_from_safe) (simp add: tag_char_def code_of_def is_digit_def)

inductive table_step :: "manager \<Rightarrow> manager \<Rightarrow> bool" where
  creates: "list_all tag_char hex \<Longrightarrow> table_step m (snd (create_record hex ohex now a m))"
| updates: "(\<And>r. kr_checkpoint_id (f r) = kr_checkpoint_id r) \<Longrightarrow> update_record cid f m = Inr m' \<Longrightarrow> table_step m m'"
| updates_op: "update_op oid g m = Inr m' \<Longrightarrow> table_step m m'"
| deletes: "table_step m (snd (delete_record cid m))"
| begins: "table_step m (snd (try_begin_create m))"
| ends: "end_create m = Inr m' \<Longrightarrow> table_step m m'"
| clears: "table_step m (clear_manager m)"

definition files_ok :: "(string, ckpt_record) dict \<Rightarrow> bool" where
  "files_ok files = (distinct (dkeys files) \<and> (\<forall>stem r. dget files stem = Some r \<longrightarrow>
     kr_checkpoint_id r = stem \<and> safe_name stem = stem \<and> starts_with ''swe-ckpt-'' stem))"

definition persisted :: "manager \<Rightarrow> bool" where
  \<comment> \<open>the files hold exactly the table\<close>
  "persisted m = (files_ok (mg_files m) \<and> mg_metadata m = None \<and> (\<forall>c. dget (mg_checkpoints m) c = dget (mg_files m) c))"

lemma fold_add_loaded:
  assumes "\<And>stem r. dget files stem = Some r \<Longrightarrow> kr_checkpoint_id r = stem \<and> stem \<noteq> []"
  shows "dget (fold (\<lambda>stem. case dget files stem of None \<Rightarrow> id | Some r \<Rightarrow> add_loaded r) stems d) c =
    (if c \<in> set stems \<and> dget files c \<noteq> None then dget files c else dget d c)"
proof (induction stems arbitrary: d)
  case (Cons stem stems)
  show ?case
  proof (cases "dget files stem")
    case (Some r)
    with assms [OF Some] Cons show ?thesis by (auto simp: add_loaded_def dget_dset)
  qed (use Cons in auto)
qed simp

lemma load_files: "files_ok files \<Longrightarrow> dget (load_records files None) c = dget files c"
proof -
  assume ok: "files_ok files"
  have "dget (load_records files None) c = (if c \<in> set (sort (dkeys files)) \<and> dget files c \<noteq> None then dget files c else dget [] c)"
    unfolding load_records_def option.case(1)
  proof (rule fold_add_loaded)
    fix stem r assume "dget files stem = Some r"
    with ok have "kr_checkpoint_id r = stem \<and> starts_with ''swe-ckpt-'' stem" unfolding files_ok_def by blast
    then show "kr_checkpoint_id r = stem \<and> stem \<noteq> []" by (auto simp: starts_with_def)
  qed
  then show ?thesis using map_of_eq_None_iff [of files c] by (cases "dget files c") force+
qed

lemma files_ok_dset:
  assumes "files_ok files" "kr_checkpoint_id r = c" "safe_name c = c" "starts_with ''swe-ckpt-'' c"
  shows "files_ok (dset c r files)"
  using assms unfolding files_ok_def by (auto simp: dget_dset distinct_dset)

lemma files_ok_dpop: "files_ok files \<Longrightarrow> files_ok (dpop c files)"
  unfolding files_ok_def by (auto simp: dget_dpop distinct_dpop)

lemma persisted_put:
  assumes "persisted m" "kr_checkpoint_id r = c" "safe_name c = c" "starts_with ''swe-ckpt-'' c"
    and "mg_files m' = mg_files m" "mg_metadata m' = mg_metadata m" "mg_checkpoints m' = dset c r (mg_checkpoints m)"
  shows "persisted (persist_record r m')"
  using assms files_ok_dset [OF _ assms(2-4), of "mg_files m"] by (simp add: persisted_def persist_record_def dget_dset)

lemma persisted_frame:
  "persisted m \<Longrightarrow> mg_files m' = mg_files m \<Longrightarrow> mg_metadata m' = mg_metadata m \<Longrightarrow> mg_checkpoints m' = mg_checkpoints m \<Longrightarrow> persisted m'"
  by (simp add: persisted_def)

lemma table_step_persisted: "table_step m m' \<Longrightarrow> persisted m \<Longrightarrow> persisted m'"
proof (induction rule: table_step.induct)
  case (creates hex m ohex now a)
  show ?case
  proof (cases "normalize_backend (ca_backend a) ''legacy''")
    case (Inr b)
    with creates safe_name_fresh [OF creates(1)] show ?thesis
      by (auto simp: create_record_def Let_def starts_with_def intro!: persisted_put [OF creates(2)])
  qed (use creates in \<open>simp add: create_record_def Let_def\<close>)
next
  case (updates f cid m m')
  then obtain r where r: "dget (mg_checkpoints m) cid = Some r"
    and m': "m' = persist_record (f r) (m\<lparr>mg_checkpoints := dset cid (f r) (mg_checkpoints m)\<rparr>)"
    by (auto simp: update_record_def split: option.splits)
  then have "dget (mg_files m) cid = Some r" using updates(3) by (simp add: persisted_def)
  then have "kr_checkpoint_id r = cid" "safe_name cid = cid" "starts_with ''swe-ckpt-'' cid"
    using updates(3) unfolding persisted_def files_ok_def by blast+
  with updates(1,3) show ?case unfolding m' by (auto intro!: persisted_put)
next
  case (updates_op oid g m m')
  then show ?case by (auto simp: update_op_def Let_def split: option.splits intro: persisted_frame)
next
  case (deletes m cid)
  show ?case
  proof (cases "dget (mg_checkpoints m) cid")
    case (Some r)
    then have "dget (mg_files m) cid = Some r" using deletes by (simp add: persisted_def)
    then have "safe_name cid = cid" using deletes unfolding persisted_def files_ok_def by blast
    with Some deletes show ?thesis by (simp add: delete_record_def persisted_def files_ok_dpop dget_dpop)
  qed (use deletes in \<open>simp add: delete_record_def\<close>)
next
  case (begins m)
  then show ?case by (auto simp: try_begin_create_def acquire_slot_def count_up_def split: option.splits if_splits intro: persisted_frame)
next
  case (ends m m')
  then show ?case by (auto simp: end_create_def count_down_def release_slot_def split: if_splits intro: persisted_frame)
next
  case (clears m)
  have "filter (\<lambda>f. \<not> starts_with ''swe-ckpt-'' (fst f)) (mg_files m) = []"
    using clears by (force simp: filter_empty_conv persisted_def files_ok_def)
  then show ?case by (simp add: clear_manager_def persist_all_def persisted_def files_ok_def Let_def)
qed

interpretation restarts: stepping "\<lambda>m. \<exists>n files. files_ok files \<and> m = new_manager n files None" table_step persisted
proof unfold_locales
  fix m assume "\<exists>n files. files_ok files \<and> m = new_manager n files None"
  then show "persisted m" by (auto simp: persisted_def new_manager_def load_files)
qed (rule table_step_persisted)

text \<open>The checkpoint table survives a restart of the exec server: whatever checkpoints were created,
  updated, deleted or cleared, a manager started on the same directory has exactly the same records.\<close>

theorem restart_keeps_records:
  assumes "files_ok files" and "table_step\<^sup>*\<^sup>* (new_manager n files None) m"
  shows "dget (mg_checkpoints (new_manager k (mg_files m) (mg_metadata m))) cid = dget (mg_checkpoints m) cid"
proof -
  have "persisted m" using restarts.reachable_inv [OF _ assms(2)] assms(1) by blast
  then show ?thesis by (simp add: persisted_def new_manager_def load_files)
qed

definition demo_args :: ckpt_args where
  "demo_args = \<lparr>ca_lease_id = ''l'', ca_generation = 0, ca_container_id = ''c'', ca_instance_id = ''i'', ca_image = ''base'',
     ca_cwd = ''/testbed'', ca_step_idx = 3, ca_command_seq = 7, ca_policy = ''p'', ca_reason = [], ca_parent_id = None,
     ca_backend = Some '' Docker-Commit''\<rparr>"

lemma restart_keeps_records_witness:
  "map_option kr_checkpoint_image (dget (mg_checkpoints (new_manager 1 (mg_files (snd (create_record ''0a'' ''0b'' 5 demo_args
     (new_manager 1 [] None)))) None)) ''swe-ckpt-0a'') = Some (Some ''sweckpt:swe-ckpt-0a'')"
proof -
  let ?m = "snd (create_record ''0a'' ''0b'' 5 demo_args (new_manager 1 [] None))"
  have "table_step\<^sup>*\<^sup>* (new_manager 1 [] None) ?m"
    by (rule r_into_rtranclp, rule table_step.creates) (simp add: tag_char_def is_digit_def code_of_def)
  from restart_keeps_records [OF _ this, of 1 "''swe-ckpt-0a''"]
  have "dget (mg_checkpoints (new_manager 1 (mg_files ?m) (mg_metadata ?m))) ''swe-ckpt-0a'' = dget (mg_checkpoints ?m) ''swe-ckpt-0a''"
    by (simp add: files_ok_def)
  moreover have "mg_metadata ?m = None \<and> map_option kr_checkpoint_image (dget (mg_checkpoints ?m) ''swe-ckpt-0a'') = Some (Some ''sweckpt:swe-ckpt-0a'')"
    by code_simp
  ultimately show ?thesis by simp
qed

text \<open>
  With the metadata file of an earlier version it is different: deleting a checkpoint removes its own file only,
  and the next start reads it again from the metadata file.
\<close>

lemma deleted_record_returns:
  "let m = new_manager 1 [] (Some [demo_record ''swe-ckpt-a'' 1 Ck_Ready None None]);
       m' = snd (delete_record ''swe-ckpt-a'' m)
   in dget (mg_checkpoints m') ''swe-ckpt-a'' = None \<and>
      dget (mg_checkpoints (new_manager 1 (mg_files m') (mg_metadata m'))) ''swe-ckpt-a'' \<noteq> None"
  by code_simp

section \<open>What the pool sees\<close>

fun status_text :: "ck_status \<Rightarrow> string" where
  "status_text Ck_Pending = ''pending''"
| "status_text Ck_Running = ''running''"
| "status_text Ck_Ready = ''ready''"
| "status_text Ck_Failed = ''failed''"

definition item_of :: "ckpt_record \<Rightarrow> ckpt_item" where
  \<comment> \<open>the fields of a record, sent as JSON, that the pool reads\<close>
  "item_of r =
     \<lparr>ck_checkpoint_id = Some (kr_checkpoint_id r), ck_status = Some (status_text (kr_status r)),
      ck_generation = Val (kr_generation r), ck_step_idx = (case kr_step_idx r of None \<Rightarrow> Null | Some i \<Rightarrow> Val i),
      ck_created_at = Val (kr_created_at r)\<rparr>"

definition exec_list_route :: "string option \<Rightarrow> manager \<Rightarrow> ckpt_list_resp" where
  \<comment> \<open>\<open>container_checkpoint_list\<close>\<close>
  "exec_list_route lease m = \<lparr>cl_ok = True, cl_checkpoints = map item_of (list_records lease m)\<rparr>"

lemma item_key_of [simp]: "item_key (item_of r) = record_key r"
  by (simp add: item_key_def item_of_def record_key_def step_or_minus_one_def split: option.splits)

lemma item_step_of: "step_or_minus_one (ck_step_idx (item_of r)) = key_step (record_key r)"
  by (simp add: item_of_def record_key_def step_or_minus_one_def split: option.splits)

lemma status_text_ready: "status_text st = ''ready'' \<longleftrightarrow> st = Ck_Ready"
  by (cases st) auto

lemma first_max_map: "first_max f (map g xs) = map_option g (first_max (\<lambda>x. f (g x)) xs)"
  by (induction xs) (auto split: option.splits)

lemma last_sorted_max: "x \<in> set xs \<Longrightarrow> f x \<le> f (last xs)" if "sorted (map f xs)"
  using that by (induction xs) (auto split: if_splits)

lemma ready_items_of:
  assumes "\<And>r. r \<in> set (list_records lease m) \<Longrightarrow> kr_checkpoint_id r \<noteq> []"
  shows "ready_items (exec_list_route lease m) = map item_of (filter (\<lambda>r. kr_status r = Ck_Ready) (list_records lease m))"
proof -
  have "ck_status (item_of r) = Some ''ready'' \<and> nonempty (ck_checkpoint_id (item_of r)) \<noteq> None \<longleftrightarrow> kr_status r = Ck_Ready"
    if "r \<in> set (list_records lease m)" for r
    using assms [OF that] by (cases "kr_checkpoint_id r") (simp_all add: item_of_def status_text_ready nonempty_def)
  then show ?thesis unfolding ready_items_def exec_list_route_def
    by (simp add: filter_map o_def cong: filter_cong)
qed

lemma latest_ready_maximal:
  assumes "latest_ready_record l m = Some r" and "first_max record_key (filter (\<lambda>r. kr_status r = Ck_Ready) (list_records (Some l) m)) = Some q"
  shows "record_key q = record_key r"
proof -
  let ?rs = "filter (\<lambda>r. kr_status r = Ck_Ready) (list_records (Some l) m)"
  have ne: "?rs \<noteq> []" and r: "r = last ?rs" using assms(1) by (auto simp: latest_ready_record_def Let_def split: if_splits)
  have "sorted (map record_key ?rs)" unfolding list_records_def by (intro sorted_filter) simp
  from last_sorted_max [OF this, of q] have "record_key q \<le> record_key r" using first_max_Some [OF assms(2)] r by blast
  moreover have "record_key r \<le> record_key q" using first_max_Some [OF assms(2)] r last_in_set [OF ne] by blast
  ultimately show ?thesis by simp
qed

text \<open>When the exec server answers the pool's refresh with its list of checkpoints, the pool records a ready
  checkpoint of the lease with the same generation, step and creation time as the one the exec server itself
  holds for the latest, together with its step, and clears the lease's latest checkpoint exactly when the exec
  server has no ready one.\<close>

theorem pool_sees_latest_record:
  assumes l: "dget (pl_leases p) lid = Some l"
    and post: "post (ls_node_url l @ ''/container/checkpoint/list'', Some (ls_lease_id l), 30) w =
      (Inr (exec_list_route (Some (ls_lease_id l)) m), w')"
    and ids: "\<forall>r\<in>set (map snd (mg_checkpoints m)). kr_checkpoint_id r \<noteq> []"
  shows "\<exists>l'. refresh_latest_ready_checkpoint post lid w p = (Inr (), w', put_lease lid l' p) \<and>
    (case latest_ready_record (ls_lease_id l) m of
       None \<Rightarrow> l' = l\<lparr>ls_latest_ready_checkpoint_id := None, ls_latest_checkpoint_step_idx := -1\<rparr>
     | Some r \<Rightarrow> \<exists>q\<in>set (map snd (mg_checkpoints m)). kr_lease_id q = ls_lease_id l \<and> kr_status q = Ck_Ready \<and>
         record_key q = record_key r \<and>
         l' = l\<lparr>ls_latest_ready_checkpoint_id := Some (kr_checkpoint_id q), ls_latest_checkpoint_step_idx := key_step (record_key r)\<rparr>)"
proof -
  let ?rs = "filter (\<lambda>r. kr_status r = Ck_Ready) (list_records (Some (ls_lease_id l)) m)"
  have sub: "set ?rs \<subseteq> {r \<in> set (map snd (mg_checkpoints m)). kr_lease_id r = ls_lease_id l \<and> kr_status r = Ck_Ready}"
    by (auto simp: list_records_def)
  have items: "ready_items (exec_list_route (Some (ls_lease_id l)) m) = map item_of ?rs"
    by (rule ready_items_of) (use ids in \<open>auto simp: list_records_def\<close>)
  have refresh: "refresh_latest_ready_checkpoint post lid w p = (Inr (), w',
      case first_max record_key ?rs of
        None \<Rightarrow> put_lease lid (l\<lparr>ls_latest_ready_checkpoint_id := None, ls_latest_checkpoint_step_idx := -1\<rparr>) p
      | Some q \<Rightarrow> put_lease lid (l\<lparr>ls_latest_ready_checkpoint_id := Some (kr_checkpoint_id q),
          ls_latest_checkpoint_step_idx := key_step (record_key q)\<rparr>) p)"
    unfolding refresh_latest_ready_checkpoint_def get_lease_def
    by (simp add: l post items first_max_map item_step_of split: option.splits) (simp add: item_of_def)
  show ?thesis
  proof (cases "first_max record_key ?rs")
    case None
    then have "?rs = []" unfolding first_max_None .
    then have "latest_ready_record (ls_lease_id l) m = None" by (simp add: latest_ready_record_def Let_def)
    with refresh None show ?thesis by auto
  next
    case (Some q)
    then have "?rs \<noteq> []" by auto
    then obtain r where r: "latest_ready_record (ls_lease_id l) m = Some r" by (simp add: latest_ready_record_def Let_def)
    let ?l = "l\<lparr>ls_latest_ready_checkpoint_id := Some (kr_checkpoint_id q), ls_latest_checkpoint_step_idx := key_step (record_key r)\<rparr>"
    have key: "record_key q = record_key r" by (rule latest_ready_maximal [OF r Some])
    have "q \<in> set ?rs" using first_max_Some [OF Some] by blast
    with sub have q: "q \<in> set (map snd (mg_checkpoints m))" "kr_lease_id q = ls_lease_id l" "kr_status q = Ck_Ready" by blast+
    have "refresh_latest_ready_checkpoint post lid w p = (Inr (), w', put_lease lid ?l p)"
      unfolding refresh Some by (simp add: key)
    with q key show ?thesis unfolding r option.case(2) by blast
  qed
qed

definition demo_manager :: manager where
  "demo_manager = new_manager 1 (map (\<lambda>r. (kr_checkpoint_id r, r\<lparr>kr_lease_id := ''swe-lease-x''\<rparr>)) demo_records) None"

lemma pool_sees_latest_record_witness:
  "let post = (\<lambda>q w. (Inr (exec_list_route (fst (snd q)) demo_manager), w));
       p' = snd (snd (refresh_latest_ready_checkpoint post ''swe-lease-x'' (0::nat) demo_allocated))
   in map_option ls_latest_checkpoint_step_idx (dget (pl_leases p') ''swe-lease-x'') = Some 3"
proof -
  let ?post = "\<lambda>q w. (Inr (exec_list_route (fst (snd q)) demo_manager), w)"
  obtain l where l: "dget (pl_leases demo_allocated) ''swe-lease-x'' = Some l" "ls_lease_id l = ''swe-lease-x''"
  proof -
    have "map_option ls_lease_id (dget (pl_leases demo_allocated) ''swe-lease-x'') = Some ''swe-lease-x''" by code_simp
    with that show ?thesis by auto
  qed
  have post: "?post (ls_node_url l @ ''/container/checkpoint/list'', Some (ls_lease_id l), 30) (0::nat) =
      (Inr (exec_list_route (Some (ls_lease_id l)) demo_manager), 0)" by simp
  have ids: "\<forall>r\<in>set (map snd (mg_checkpoints demo_manager)). kr_checkpoint_id r \<noteq> []" by code_simp
  have latest: "map_option (\<lambda>r. key_step (record_key r)) (latest_ready_record ''swe-lease-x'' demo_manager) = Some 3" by code_simp
  from pool_sees_latest_record [OF l(1), of ?post, OF post ids] latest l(2)
  show ?thesis by (auto simp: put_lease_def dget_dset Let_def)
qed

end
