(* ===== verification/Exec_Collection.thy ===== *)
theory Exec_Collection
  imports Exec_Checkpoints
begin

text \<open>
  Garbage collection of checkpoints on the exec server: the plan of what to delete, and its
  specification.
\<close>

section \<open>The plan of a garbage collection\<close>

fun group_by_lease :: "ckpt_record list \<Rightarrow> (string, ckpt_record list) dict \<Rightarrow> (string, ckpt_record list) dict" where
  "group_by_lease [] g = g"
| "group_by_lease (r # rs) g = group_by_lease rs (dset (kr_lease_id r) (dget_def g (kr_lease_id r) [] @ [r]) g)"

definition index_records :: "ckpt_record list \<Rightarrow> (string, ckpt_record) dict" where
  \<comment> \<open>\<open>by_id\<close>\<close>
  "index_records items = fold (\<lambda>r. if kr_checkpoint_id r = [] then id else dset (kr_checkpoint_id r) r) items []"

definition add_new :: "'a \<Rightarrow> 'a list \<Rightarrow> 'a list" where
  "add_new x xs = (if x \<in> set xs then xs else xs @ [x])"

definition take_last :: "nat \<Rightarrow> 'a list \<Rightarrow> 'a list" where
  \<comment> \<open>\<open>xs[-n:]\<close> for positive \<open>n\<close>\<close>
  "take_last n xs = drop (length xs - n) xs"

definition ready_sorted :: "ckpt_record list \<Rightarrow> ckpt_record list" where
  "ready_sorted items = sort_key record_key (filter (\<lambda>r. kr_status r = Ck_Ready) items)"

definition image_in_use :: "string list \<Rightarrow> ckpt_record \<Rightarrow> bool" where
  \<comment> \<open>\<open>str(None)\<close> is \<open>None\<close>\<close>
  "image_in_use images r =
     (let img = (case kr_checkpoint_image r of None \<Rightarrow> ''None'' | Some i \<Rightarrow> i) in img \<noteq> [] \<and> img \<in> set images)"

definition gc_roots :: "int \<Rightarrow> string list \<Rightarrow> ckpt_record list \<Rightarrow> string list" where
  \<comment> \<open>\<open>protected_ids\<close> before the parents are added\<close>
  "gc_roots keep images items =
     fold (\<lambda>r ids. if kr_checkpoint_id r \<noteq> [] \<and> (kr_status r = Ck_Pending \<or> image_in_use images r)
                   then add_new (kr_checkpoint_id r) ids else ids) items
       (if 0 < keep then fold (\<lambda>r ids. if kr_checkpoint_id r \<noteq> [] then add_new (kr_checkpoint_id r) ids else ids)
          (take_last (nat keep) (ready_sorted items)) [] else [])"

definition parent_in :: "(string, ckpt_record) dict \<Rightarrow> string \<Rightarrow> string option" where
  "parent_in by_id cid =
     (case dget by_id cid of None \<Rightarrow> None
      | Some r \<Rightarrow> (case kr_parent_id r of Some (c # cs) \<Rightarrow> (if dget by_id (c # cs) \<noteq> None then Some (c # cs) else None) | _ \<Rightarrow> None))"

lemma parent_in_keys: "parent_in by_id cid = Some p \<Longrightarrow> p \<in> set (dkeys by_id)"
  unfolding dkeys_set by (auto simp: parent_in_def split: option.splits list.splits if_splits)

function protect_parents :: "(string, ckpt_record) dict \<Rightarrow> string list \<Rightarrow> string list \<Rightarrow> string list" where
  \<comment> \<open>the stack, popped at its end, and the protected ids\<close>
  "protect_parents by_id stack ids =
     (if stack = [] then ids
      else (case parent_in by_id (last stack) of
              None \<Rightarrow> protect_parents by_id (butlast stack) ids
            | Some p \<Rightarrow>
                (if p \<in> set ids then protect_parents by_id (butlast stack) ids
                 else protect_parents by_id (butlast stack @ [p]) (ids @ [p]))))"
  by pat_completeness auto

termination
proof (relation "measures [\<lambda>(by_id, stack, ids). card (set (dkeys by_id) - set ids), \<lambda>(by_id, stack, ids). length stack]")
  fix by_id stack ids p
  assume "stack \<noteq> []" "parent_in by_id (last stack) = Some p" "p \<notin> set ids"
  then have "card (set (dkeys by_id) - set (ids @ [p])) < card (set (dkeys by_id) - set ids)"
    using parent_in_keys by (intro psubset_card_mono) auto
  then show "((by_id, butlast stack @ [p], ids @ [p]), by_id, stack, ids) \<in>
      measures [\<lambda>(by_id, stack, ids). card (set (dkeys by_id) - set ids), \<lambda>(by_id, stack, ids). length stack]"
    by simp
qed auto

declare protect_parents.simps [simp del]

definition protected_ids :: "int \<Rightarrow> string list \<Rightarrow> ckpt_record list \<Rightarrow> string list" where
  "protected_ids keep images items =
     (let ids = gc_roots keep images items in protect_parents (index_records items) ids ids)"

definition group_deletions :: "int \<Rightarrow> string list \<Rightarrow> ckpt_record list \<Rightarrow> ckpt_record list" where
  "group_deletions keep images items =
     (let kept = protected_ids keep images items
      in sort_key_rev record_key (filter (\<lambda>r. kr_checkpoint_id r \<notin> set kept) (ready_sorted items)) @
         sort_key_rev record_key (filter (\<lambda>r. kr_status r = Ck_Failed) items))"

fun unique_records :: "string list \<Rightarrow> ckpt_record list \<Rightarrow> ckpt_record list" where
  "unique_records seen [] = []"
| "unique_records seen (r # rs) =
     (if kr_checkpoint_id r \<noteq> [] \<and> kr_checkpoint_id r \<notin> set seen
      then r # unique_records (kr_checkpoint_id r # seen) rs else unique_records seen rs)"

definition gc_plan :: "int \<Rightarrow> string list \<Rightarrow> ckpt_record list \<Rightarrow> ckpt_record list \<times> string list" where
  "gc_plan keep images records =
     (let groups = map snd (group_by_lease records [])
      in (unique_records [] (concat (map (group_deletions keep images) groups)),
          sort (remdups (concat (map (protected_ids keep images) groups)))))"


section \<open>What the plan keeps\<close>

inductive_set chain :: "(string, ckpt_record) dict \<Rightarrow> string set \<Rightarrow> string set" for by_id ids where
  start: "x \<in> ids \<Longrightarrow> x \<in> chain by_id ids"
| up: "x \<in> chain by_id ids \<Longrightarrow> parent_in by_id x = Some p \<Longrightarrow> p \<in> chain by_id ids"

lemma chain_mono: "x \<in> chain by_id A \<Longrightarrow> A \<subseteq> chain by_id B \<Longrightarrow> x \<in> chain by_id B"
  by (induction rule: chain.induct) (auto intro: chain.up)

lemma chain_closed:
  assumes "\<And>x p. x \<in> A \<Longrightarrow> parent_in by_id x = Some p \<Longrightarrow> p \<in> A" shows "chain by_id A = A"
proof
  show "chain by_id A \<subseteq> A"
  proof
    fix x assume "x \<in> chain by_id A"
    then show "x \<in> A" by (induction rule: chain.induct) (auto dest: assms)
  qed
qed (auto intro: chain.start)

lemma protect_parents_Nil [simp]: "protect_parents by_id [] ids = ids"
  by (simp add: protect_parents.simps [of by_id "[]" ids])

lemma protect_parents_chain:
  assumes "set stack \<subseteq> set ids" "\<And>x p. x \<in> set ids \<Longrightarrow> x \<notin> set stack \<Longrightarrow> parent_in by_id x = Some p \<Longrightarrow> p \<in> set ids"
  shows "set (protect_parents by_id stack ids) = chain by_id (set ids)"
  using assms
proof (induction by_id stack ids rule: protect_parents.induct)
  case (1 by_id stack ids)
  show ?case
  proof (cases "stack = []")
    case True
    with "1.prems"(2) have "chain by_id (set ids) = set ids" by (intro chain_closed) auto
    with True show ?thesis by simp
  next
    case False
    then have split: "set stack = insert (last stack) (set (butlast stack))" by (metis append_butlast_last_id list.simps(15) rotate1.simps(2) set_rotate1)
    have last_in: "last stack \<in> set ids" using False "1.prems"(1) by auto
    have sub: "set (butlast stack) \<subseteq> set ids" using "1.prems"(1) split by auto
    have popped: "x \<noteq> last stack \<Longrightarrow> q \<in> set ids" if "x \<in> set ids" "x \<notin> set (butlast stack)" "parent_in by_id x = Some q" for x q
      using "1.prems"(2) [of x q] that split by auto
    show ?thesis
    proof (cases "parent_in by_id (last stack)")
      case None
      have "set (protect_parents by_id (butlast stack) ids) = chain by_id (set ids)"
        by (rule "1.IH"(1) [OF False None sub]) (use popped None in force)
      with False None show ?thesis by (simp add: protect_parents.simps [of by_id stack ids])
    next
      case (Some p)
      show ?thesis
      proof (cases "p \<in> set ids")
        case True
        have "set (protect_parents by_id (butlast stack) ids) = chain by_id (set ids)"
          by (rule "1.IH"(2) [OF False Some True sub]) (use popped Some True in force)
        with False Some True show ?thesis by (simp add: protect_parents.simps [of by_id stack ids])
      next
        case out: False
        have "set (protect_parents by_id (butlast stack @ [p]) (ids @ [p])) = chain by_id (set (ids @ [p]))"
        proof (rule "1.IH"(3) [OF False Some out])
          show "set (butlast stack @ [p]) \<subseteq> set (ids @ [p])" using sub by auto
        next
          fix x q assume "x \<in> set (ids @ [p])" "x \<notin> set (butlast stack @ [p])" "parent_in by_id x = Some q"
          with popped [of x q] Some show "q \<in> set (ids @ [p])" by (cases "x = last stack") auto
        qed
        moreover have "chain by_id (set (ids @ [p])) = chain by_id (set ids)"
        proof -
          have "p \<in> chain by_id (set ids)" using Some last_in by (blast intro: chain.intros)
          then have "set (ids @ [p]) \<subseteq> chain by_id (set ids)" by (auto intro: chain.start)
          then show ?thesis by (auto intro: chain_mono chain.start)
        qed
        ultimately show ?thesis using False Some out by (simp add: protect_parents.simps [of by_id stack ids])
      qed
    qed
  qed
qed

lemma set_add_new [simp]: "set (add_new x xs) = insert x (set xs)"
  by (auto simp: add_new_def)

lemma fold_add_new:
  "set (fold (\<lambda>r ids. if P r then add_new (f r) ids else ids) rs ids) = set ids \<union> f ` {r \<in> set rs. P r}"
  by (induction rs arbitrary: ids) auto

definition newest_ready :: "int \<Rightarrow> ckpt_record list \<Rightarrow> ckpt_record list" where
  "newest_ready keep items = (if 0 < keep then take_last (nat keep) (ready_sorted items) else [])"

lemma set_take_last: "set (take_last n xs) \<subseteq> set xs"
  by (simp add: take_last_def set_drop_subset)

lemma set_gc_roots:
  assumes "\<forall>r\<in>set items. kr_checkpoint_id r \<noteq> []"
  shows "set (gc_roots keep images items) = kr_checkpoint_id ` ({r \<in> set items. kr_status r = Ck_Pending \<or> image_in_use images r} \<union>
    set (newest_ready keep items))"
proof -
  have "set (take_last n (ready_sorted items)) \<subseteq> set items" for n
    using set_take_last [of n "ready_sorted items"] by (auto simp: ready_sorted_def)
  with assms show ?thesis by (auto simp: gc_roots_def fold_add_new newest_ready_def)
qed

lemma found_record: "find P xs = Some x \<Longrightarrow> x \<in> set xs \<and> P x"
  by (auto simp: find_Some_iff)

lemma index_records_get:
  assumes "distinct (map kr_checkpoint_id items)" "\<forall>r\<in>set items. kr_checkpoint_id r \<noteq> []"
  shows "dget (index_records items) c = Some r \<longleftrightarrow> r \<in> set items \<and> kr_checkpoint_id r = c"
proof -
  have "dget (fold (\<lambda>r. if kr_checkpoint_id r = [] then id else dset (kr_checkpoint_id r) r) xs d) c =
      (case find (\<lambda>r. kr_checkpoint_id r = c) xs of Some r \<Rightarrow> Some r | None \<Rightarrow> dget d c)"
    if "distinct (map kr_checkpoint_id xs)" "\<forall>r\<in>set xs. kr_checkpoint_id r \<noteq> []" for xs and d :: "(string, ckpt_record) dict"
    using that
  proof (induction xs arbitrary: d)
    case (Cons x xs)
    have "find (\<lambda>r. kr_checkpoint_id r = c) xs = None" if "kr_checkpoint_id x = c"
      using Cons.prems(1) that by (auto simp: find_None_iff image_iff)
    with Cons show ?case by (auto simp: dget_dset split: option.splits)
  qed simp
  from this [OF assms] have get: "dget (index_records items) c = find (\<lambda>r. kr_checkpoint_id r = c) items"
    by (simp add: index_records_def split: option.splits)
  show ?thesis
  proof
    assume "dget (index_records items) c = Some r"
    then have "find (\<lambda>r. kr_checkpoint_id r = c) items = Some r" using get by simp
    then show "r \<in> set items \<and> kr_checkpoint_id r = c" by (rule found_record)
  next
    assume r: "r \<in> set items \<and> kr_checkpoint_id r = c"
    then obtain q where q: "find (\<lambda>r. kr_checkpoint_id r = c) items = Some q"
      by (cases "find (\<lambda>r. kr_checkpoint_id r = c) items") (auto simp: find_None_iff)
    from found_record [OF q] have "q \<in> set items" "kr_checkpoint_id q = c" by auto
    then have "q = r" using r inj_onD [OF distinct_map [THEN iffD1, THEN conjunct2, OF assms(1)]] by simp
    with get q show "dget (index_records items) c = Some r" by simp
  qed
qed


text \<open>
  The records of a lease, and the records a collection must keep: the newest ready ones, the pending ones, those
  whose image runs, and every ancestor of a kept one.
\<close>

definition of_lease :: "string \<Rightarrow> ckpt_record list \<Rightarrow> ckpt_record list" where
  "of_lease l records = filter (\<lambda>r. kr_lease_id r = l) records"

inductive_set needed :: "int \<Rightarrow> string list \<Rightarrow> ckpt_record list \<Rightarrow> ckpt_record set" for keep images records where
  in_use: "r \<in> set records \<Longrightarrow> kr_status r = Ck_Pending \<or> image_in_use images r \<Longrightarrow> r \<in> needed keep images records"
| newest: "r \<in> set (newest_ready keep (of_lease l records)) \<Longrightarrow> r \<in> needed keep images records"
| parent: "r \<in> needed keep images records \<Longrightarrow> q \<in> set records \<Longrightarrow> kr_lease_id q = kr_lease_id r \<Longrightarrow>
    kr_parent_id r = Some (kr_checkpoint_id q) \<Longrightarrow> q \<in> needed keep images records"

lemma newest_ready_sub: "set (newest_ready keep items) \<subseteq> {r \<in> set items. kr_status r = Ck_Ready}"
  using set_take_last [of "nat keep" "ready_sorted items"] by (auto simp: newest_ready_def ready_sorted_def)

lemma needed_sub: "r \<in> needed keep images records \<Longrightarrow> r \<in> set records"
  by (induction rule: needed.induct) (auto dest: subsetD [OF newest_ready_sub] simp: of_lease_def)

lemma parent_in_iff:
  assumes "distinct (map kr_checkpoint_id items)" "\<forall>r\<in>set items. kr_checkpoint_id r \<noteq> []"
  shows "parent_in (index_records items) c = Some p \<longleftrightarrow>
    (\<exists>r\<in>set items. \<exists>q\<in>set items. kr_checkpoint_id r = c \<and> kr_checkpoint_id q = p \<and> kr_parent_id r = Some p)"
proof -
  note get = index_records_get [OF assms]
  have pos: "dget (index_records items) p \<noteq> None \<longleftrightarrow> (\<exists>q\<in>set items. kr_checkpoint_id q = p)" for p
    using get [of p] by auto
  have ne: "\<not> (\<exists>q\<in>set items. kr_checkpoint_id q = [])" using assms(2) by blast
  show ?thesis
  proof (cases "dget (index_records items) c")
    case None
    with pos [of c] show ?thesis by (auto simp: parent_in_def)
  next
    case (Some r)
    then have r: "r \<in> set items" "kr_checkpoint_id r = c" using get by auto
    have only: "r' = r" if "r' \<in> set items" "kr_checkpoint_id r' = c" for r' using get [of c r'] Some that by simp
    show ?thesis
    proof (cases "kr_parent_id r")
      case None
      with Some have "parent_in (index_records items) c = None" by (simp add: parent_in_def)
      moreover have "kr_parent_id r' \<noteq> Some p" if "r' \<in> set items" "kr_checkpoint_id r' = c" for r'
        using only [OF that] None by simp
      ultimately show ?thesis by auto
    next
      case par: (Some u)
      show ?thesis
      proof (cases u)
        case Nil
        with Some par have "parent_in (index_records items) c = None" by (simp add: parent_in_def)
        moreover have "kr_checkpoint_id q \<noteq> p" if "r' \<in> set items" "kr_checkpoint_id r' = c" "kr_parent_id r' = Some p" "q \<in> set items" for r' q
          using only [OF that(1,2)] that(3,4) par Nil ne by auto
        ultimately show ?thesis by auto
      next
        case (Cons x xs)
        with Some par have "parent_in (index_records items) c = (if dget (index_records items) u \<noteq> None then Some u else None)"
          by (simp add: parent_in_def)
        moreover have "kr_parent_id r' = Some p \<longleftrightarrow> u = p" if "r' \<in> set items" "kr_checkpoint_id r' = c" for r'
          using only [OF that] par by simp
        ultimately show ?thesis using r pos [of u] by fastforce
      qed
    qed
  qed
qed

lemma of_lease_facts:
  assumes "distinct (map kr_checkpoint_id records)" "\<forall>r\<in>set records. kr_checkpoint_id r \<noteq> []"
  shows "distinct (map kr_checkpoint_id (of_lease l records))" "\<forall>r\<in>set (of_lease l records). kr_checkpoint_id r \<noteq> []"
    "r \<in> set (of_lease l records) \<longleftrightarrow> r \<in> set records \<and> kr_lease_id r = l"
  using assms by (auto simp: of_lease_def distinct_map_filter)

lemma protected_needed:
  assumes ids: "distinct (map kr_checkpoint_id records)" "\<forall>r\<in>set records. kr_checkpoint_id r \<noteq> []"
  shows "set (protected_ids keep images (of_lease l records)) =
    kr_checkpoint_id ` {r \<in> needed keep images records. kr_lease_id r = l}"
proof -
  let ?items = "of_lease l records" and ?by_id = "index_records (of_lease l records)"
  note f = of_lease_facts [OF ids, where l = l]
  note par = parent_in_iff [OF f(1,2)]
  note roots = set_gc_roots [OF f(2), of keep images]
  have prot: "set (protected_ids keep images ?items) = chain ?by_id (set (gc_roots keep images ?items))"
    unfolding protected_ids_def Let_def by (rule protect_parents_chain) simp_all
  have "x \<in> chain ?by_id (set (gc_roots keep images ?items)) \<Longrightarrow> \<exists>r. r \<in> needed keep images records \<and> kr_lease_id r = l \<and> x = kr_checkpoint_id r" for x
  proof (induction rule: chain.induct)
    case (start x)
    then show ?case unfolding roots using f(3) newest_ready_sub [of keep ?items] by (blast intro: needed.intros)
  next
    case (up x p)
    then obtain r where r: "r \<in> needed keep images records" "kr_lease_id r = l" "x = kr_checkpoint_id r" by blast
    from up(2) [unfolded par] obtain r' q where q: "r' \<in> set ?items" "q \<in> set ?items" "kr_checkpoint_id r' = x" "kr_checkpoint_id q = p"
        "kr_parent_id r' = Some p" by blast
    have "r' = r" using f(3) q(1,3) r needed_sub [OF r(1)] ids(1) by (metis distinct_map inj_onD)
    with r q f(3) needed.parent [of r keep images records q] show ?case by auto
  qed
  moreover have "r \<in> needed keep images records \<Longrightarrow> kr_lease_id r = l \<Longrightarrow> kr_checkpoint_id r \<in> chain ?by_id (set (gc_roots keep images ?items))" for r
  proof (induction rule: needed.induct)
    case (in_use r)
    then have "kr_checkpoint_id r \<in> set (gc_roots keep images ?items)" unfolding roots using f(3) by blast
    then show ?case by (rule chain.start)
  next
    case (newest r l')
    then have "kr_lease_id r = l'" using newest_ready_sub [of keep "of_lease l' records"] by (auto simp: of_lease_def)
    with newest have "kr_checkpoint_id r \<in> set (gc_roots keep images ?items)" unfolding roots by blast
    then show ?case by (rule chain.start)
  next
    case (parent r q)
    have "r \<in> set ?items" "q \<in> set ?items" using f(3) parent needed_sub [OF parent(1)] by auto
    then have "parent_in ?by_id (kr_checkpoint_id r) = Some (kr_checkpoint_id q)" unfolding par using parent(4) by blast
    with parent show ?case by (auto intro: chain.up)
  qed
  ultimately show ?thesis unfolding prot by blast
qed


lemma group_by_lease_get:
  "dget (group_by_lease rs g) l =
     (if of_lease l rs = [] then dget g l else Some (dget_def g l [] @ of_lease l rs))"
proof (induction rs g rule: group_by_lease.induct)
  case (2 r rs g)
  then show ?case by (cases "kr_lease_id r = l") (auto simp: of_lease_def dget_dset dget_def_def split: if_splits)
qed (simp add: of_lease_def)

lemma group_by_lease_keys: "distinct (dkeys g) \<Longrightarrow> distinct (dkeys (group_by_lease rs g))"
  by (induction rs g rule: group_by_lease.induct) (auto simp: distinct_dset)

lemma groups_set: "set (map snd (group_by_lease rs [])) = {of_lease l rs | l. of_lease l rs \<noteq> []}"
proof -
  have d: "distinct (dkeys (group_by_lease rs []))" by (rule group_by_lease_keys) simp
  have get: "dget (group_by_lease rs []) l = Some x \<longleftrightarrow> of_lease l rs \<noteq> [] \<and> of_lease l rs = x" for l x
    by (simp add: group_by_lease_get dget_def_def)
  have "x \<in> set (map snd (group_by_lease rs [])) \<longleftrightarrow> (\<exists>l. (l, x) \<in> set (group_by_lease rs []))" for x
    by (auto simp: image_iff intro: bexI [rotated])
  then have "x \<in> set (map snd (group_by_lease rs [])) \<longleftrightarrow> (\<exists>l. of_lease l rs \<noteq> [] \<and> of_lease l rs = x)" for x
    by (simp only: map_of_eq_Some_iff [OF d, symmetric] get)
  then show ?thesis by (intro set_eqI) (simp only: mem_Collect_eq, blast)
qed

lemma of_lease_own: "r \<in> set records \<Longrightarrow> r \<in> set (of_lease (kr_lease_id r) records)"
  by (simp add: of_lease_def)

lemma in_groups: "(\<exists>x\<in>set (map snd (group_by_lease rs [])). P x) \<longleftrightarrow> (\<exists>l. of_lease l rs \<noteq> [] \<and> P (of_lease l rs))"
  unfolding groups_set by blast

lemma group_deletions_set:
  "set (group_deletions keep images items) =
     {r \<in> set items. kr_status r = Ck_Failed \<or> (kr_status r = Ck_Ready \<and> kr_checkpoint_id r \<notin> set (protected_ids keep images items))}"
  by (auto simp: group_deletions_def ready_sorted_def Let_def)

lemma unique_records_sub: "set (unique_records seen rs) \<subseteq> set rs"
  by (induction seen rs rule: unique_records.induct) auto

lemma unique_records_distinct:
  "distinct (map kr_checkpoint_id (unique_records seen rs)) \<and> set seen \<inter> kr_checkpoint_id ` set (unique_records seen rs) = {}"
  by (induction seen rs rule: unique_records.induct) auto

lemma unique_records_ids:
  "kr_checkpoint_id ` set (unique_records seen rs) = kr_checkpoint_id ` set rs - insert [] (set seen)"
  by (induction seen rs rule: unique_records.induct) auto

lemma unique_records_set:
  assumes "inj_on kr_checkpoint_id (set rs)" "\<forall>r\<in>set rs. kr_checkpoint_id r \<noteq> []"
  shows "set (unique_records [] rs) = set rs"
proof
  show "set rs \<subseteq> set (unique_records [] rs)"
  proof
    fix r assume r: "r \<in> set rs"
    then have "kr_checkpoint_id r \<in> kr_checkpoint_id ` set (unique_records [] rs)"
      using assms(2) unfolding unique_records_ids by auto
    then obtain q where q: "q \<in> set (unique_records [] rs)" "kr_checkpoint_id r = kr_checkpoint_id q" by blast
    then have "r = q" using inj_onD [OF assms(1) q(2) r] unique_records_sub by blast
    with q show "r \<in> set (unique_records [] rs)" by simp
  qed
qed (rule unique_records_sub)

lemma needed_id:
  assumes "distinct (map kr_checkpoint_id records)" "r \<in> set records"
  shows "kr_checkpoint_id r \<in> kr_checkpoint_id ` {q \<in> needed keep images records. kr_lease_id q = kr_lease_id r} \<longleftrightarrow>
    r \<in> needed keep images records"
proof
  assume "kr_checkpoint_id r \<in> kr_checkpoint_id ` {q \<in> needed keep images records. kr_lease_id q = kr_lease_id r}"
  then obtain q where q: "q \<in> needed keep images records" "kr_checkpoint_id r = kr_checkpoint_id q" by blast
  have "inj_on kr_checkpoint_id (set records)" using assms(1) by (simp add: distinct_map)
  from inj_onD [OF this q(2) assms(2) needed_sub [OF q(1)]] q(1) show "r \<in> needed keep images records" by simp
qed blast

text \<open>C23. For records with distinct identifiers, a garbage collection deletes exactly the failed
  records and the ready ones that are not needed, each once; what it reports as kept is the sorted
  list of the identifiers of the needed ones: the pending ones, those whose image a container runs,
  the newest \<open>keep\<close> ready ones of each lease, and every ancestor of a needed one in its lease.\<close>

theorem gc_plan_spec:
  assumes ids: "distinct (map kr_checkpoint_id records)" "\<forall>r\<in>set records. kr_checkpoint_id r \<noteq> []"
  shows "set (fst (gc_plan keep images records)) = {r \<in> set records. kr_status r = Ck_Failed \<or>
       (kr_status r = Ck_Ready \<and> r \<notin> needed keep images records)} \<and>
     distinct (map kr_checkpoint_id (fst (gc_plan keep images records))) \<and>
     set (snd (gc_plan keep images records)) = kr_checkpoint_id ` needed keep images records \<and>
     sorted (snd (gc_plan keep images records)) \<and> distinct (snd (gc_plan keep images records))"
proof -
  let ?groups = "map snd (group_by_lease records [])"
  let ?dels = "concat (map (group_deletions keep images) ?groups)"
  have "r \<in> set ?dels \<longleftrightarrow> r \<in> set records \<and> (kr_status r = Ck_Failed \<or> (kr_status r = Ck_Ready \<and> r \<notin> needed keep images records))" for r
  proof -
    have "r \<in> set ?dels \<longleftrightarrow> (\<exists>x\<in>set ?groups. r \<in> set (group_deletions keep images x))" by auto
    also have "\<dots> \<longleftrightarrow> (\<exists>l. of_lease l records \<noteq> [] \<and> r \<in> set (group_deletions keep images (of_lease l records)))"
      by (rule in_groups)
    also have "\<dots> \<longleftrightarrow> r \<in> set records \<and> r \<in> set (group_deletions keep images (of_lease (kr_lease_id r) records))"
    proof
      assume "\<exists>l. of_lease l records \<noteq> [] \<and> r \<in> set (group_deletions keep images (of_lease l records))"
      then obtain l where l: "r \<in> set (group_deletions keep images (of_lease l records))" by blast
      then have "r \<in> set records \<and> kr_lease_id r = l" by (simp add: group_deletions_set of_lease_def)
      with l show "r \<in> set records \<and> r \<in> set (group_deletions keep images (of_lease (kr_lease_id r) records))" by simp
    next
      assume r: "r \<in> set records \<and> r \<in> set (group_deletions keep images (of_lease (kr_lease_id r) records))"
      then have "of_lease (kr_lease_id r) records \<noteq> []" using of_lease_own by fastforce
      with r show "\<exists>l. of_lease l records \<noteq> [] \<and> r \<in> set (group_deletions keep images (of_lease l records))" by blast
    qed
    also have "\<dots> \<longleftrightarrow> r \<in> set records \<and> (kr_status r = Ck_Failed \<or> (kr_status r = Ck_Ready \<and> r \<notin> needed keep images records))"
      unfolding group_deletions_set protected_needed [OF ids] using needed_id [OF ids(1)] of_lease_own by blast
    finally show ?thesis .
  qed
  then have dels: "set ?dels = {r \<in> set records. kr_status r = Ck_Failed \<or> (kr_status r = Ck_Ready \<and> r \<notin> needed keep images records)}"
    by blast
  then have sub: "set ?dels \<subseteq> set records" by blast
  have "inj_on kr_checkpoint_id (set ?dels)" using ids(1) sub by (auto simp: distinct_map intro: inj_on_subset)
  then have "set (unique_records [] ?dels) = set ?dels" using ids(2) sub by (intro unique_records_set) blast+
  moreover have "set (concat (map (protected_ids keep images) ?groups)) = kr_checkpoint_id ` needed keep images records"
  proof -
    have "c \<in> set (concat (map (protected_ids keep images) ?groups)) \<longleftrightarrow> (\<exists>x\<in>set ?groups. c \<in> set (protected_ids keep images x))" for c
      by auto
    also have "\<dots> c \<longleftrightarrow> (\<exists>l. of_lease l records \<noteq> [] \<and> c \<in> set (protected_ids keep images (of_lease l records)))" for c
      by (rule in_groups)
    also have "\<dots> c \<longleftrightarrow> c \<in> kr_checkpoint_id ` needed keep images records" for c
    proof -
      have "of_lease (kr_lease_id r) records \<noteq> []" if "r \<in> needed keep images records" for r
        using needed_sub [OF that] of_lease_own by fastforce
      then show ?thesis unfolding protected_needed [OF ids] by blast
    qed
    finally show ?thesis by blast
  qed
  ultimately show ?thesis using dels unique_records_distinct [of "[]" ?dels]
    by (simp add: gc_plan_def Let_def)
qed

lemma gc_plan_spec_witness:
  "map kr_checkpoint_id (fst (gc_plan 1 [] demo_records)) = [''b'', ''f''] \<and>
   kr_checkpoint_id ` needed 1 [] demo_records = {''a'', ''d'', ''p''}"
proof -
  have ids: "distinct (map kr_checkpoint_id demo_records)" "\<forall>r\<in>set demo_records. kr_checkpoint_id r \<noteq> []"
    by (simp_all add: demo_records_def demo_record_def)
  have plan: "map kr_checkpoint_id (fst (gc_plan 1 [] demo_records)) = [''b'', ''f'']"
    "snd (gc_plan 1 [] demo_records) = [''a'', ''d'', ''p'']" by code_simp+
  from gc_plan_spec [OF ids, of 1 "[]"] plan show ?thesis by simp
qed

end
