(* ===== verification/Exec_Warm_Pool.thy ===== *)
theory Exec_Warm_Pool
  imports Prelude PyText
begin

text \<open>
  The warm pool of the exec server (\<open>ContainerPool\<close> of swe_exec_server.py): containers created ahead of
  time, one queue per image, by a single worker; handed out once each, and refilled when one is taken.
  Creating, destroying, probing and listing containers are docker commands, hence transports.
\<close>

section \<open>State\<close>

record pool_config =
  wc_enabled :: bool                 \<comment> \<open>\<open>use_container_pool\<close>\<close>
  wc_max_size_per_image :: int
  wc_max_total_size :: int
  wc_default_cwd :: string
  wc_create_timeout :: int
  wc_health_timeout :: int
  wc_prewarm_ratio :: real
  wc_prewarm_max_concurrency :: int
  wc_node_max :: int                 \<comment> \<open>\<open>SWE_MAX_CONTAINERS_PER_NODE\<close>, zero when unset\<close>

record idle_meta =
  im_name :: string
  im_image :: string
  im_cwd :: string
  im_pooled_at :: real
  im_adopted :: bool

record pool_metrics =
  pm_created_count :: int
  pm_prewarmed_count :: int
  pm_adopted_count :: int
  pm_reused_count :: int
  pm_destroy_count :: int
  pm_unhealthy_discard_count :: int
  pm_warm_miss_count :: int
  pm_create_time_total :: real

record warm_pool =
  cp_idle_by_image :: "(string, string list) dict"
  cp_idle_meta :: "(string, idle_meta) dict"
  cp_pending_create_count :: int
  cp_pending_by_image :: "(string, int) dict"
  cp_prewarm_queue :: "string list"
  cp_prewarm_images :: "string list"
  cp_prewarm_rr_index :: nat
  cp_metrics :: pool_metrics

definition no_metrics :: pool_metrics where
  "no_metrics = \<lparr>pm_created_count = 0, pm_prewarmed_count = 0, pm_adopted_count = 0, pm_reused_count = 0,
     pm_destroy_count = 0, pm_unhealthy_discard_count = 0, pm_warm_miss_count = 0, pm_create_time_total = 0\<rparr>"

definition new_warm_pool :: "string list \<Rightarrow> warm_pool" where
  \<comment> \<open>the images come from the resource statistics (\<open>_load_prewarm_images\<close>)\<close>
  "new_warm_pool images =
     \<lparr>cp_idle_by_image = [], cp_idle_meta = [], cp_pending_create_count = 0, cp_pending_by_image = [],
      cp_prewarm_queue = [], cp_prewarm_images = images, cp_prewarm_rr_index = 0, cp_metrics = no_metrics\<rparr>"

definition load_prewarm_images :: "string jfield option list \<Rightarrow> string list" where
  \<comment> \<open>the \<open>image\<close> fields of the statistics files in the order of their paths; \<open>None\<close>: not a JSON object\<close>
  "load_prewarm_images files =
     filter (\<lambda>i. i \<noteq> [])
       (map (\<lambda>f. strip (case f of Absent \<Rightarrow> [] | Null \<Rightarrow> ''None'' | Val i \<Rightarrow> i)) (List.map_filter id files))"

definition avg_create_time :: "pool_metrics \<Rightarrow> real" where
  \<comment> \<open>\<open>snapshot\<close>\<close>
  "avg_create_time m = (if pm_created_count m = 0 then 0 else pm_create_time_total m / of_int (pm_created_count m))"

section \<open>Capacity\<close>

definition to_int :: "real \<Rightarrow> int" where
  \<comment> \<open>\<open>int(x)\<close>\<close>
  "to_int x = (if 0 \<le> x then \<lfloor>x\<rfloor> else \<lceil>x\<rceil>)"

definition target_total_count :: "pool_config \<Rightarrow> int" where
  "target_total_count c =
     (let b0 = wc_prewarm_max_concurrency c;
          b1 = (if b0 \<le> 0 then wc_node_max c else b0);
          b2 = (if b1 \<le> 0 \<and> 0 < wc_max_total_size c then wc_max_total_size c else b1)
      in if b2 \<le> 0 then 0 else max 0 (to_int (of_int b2 * wc_prewarm_ratio c)))"

definition effective_total_cap :: "pool_config \<Rightarrow> int" where
  "effective_total_cap c =
     (let target = target_total_count c
      in if 0 < wc_max_total_size c \<and> 0 < target then min (wc_max_total_size c) target
         else if 0 < wc_max_total_size c then wc_max_total_size c else target)"

definition idle_of :: "warm_pool \<Rightarrow> string \<Rightarrow> string list" where
  "idle_of p img = dget_def (cp_idle_by_image p) img []"

definition pending_of :: "warm_pool \<Rightarrow> string \<Rightarrow> int" where
  "pending_of p img = dget_def (cp_pending_by_image p) img 0"

definition idle_and_pending :: "warm_pool \<Rightarrow> string \<Rightarrow> int" where
  "idle_and_pending p img = int (length (idle_of p img)) + pending_of p img"

definition total_known :: "int \<Rightarrow> warm_pool \<Rightarrow> int" where
  "total_known active p = int (length (cp_idle_meta p)) + cp_pending_create_count p + active"

definition has_capacity :: "pool_config \<Rightarrow> warm_pool \<Rightarrow> string \<Rightarrow> bool" where
  "has_capacity c p img = (idle_and_pending p img < max 0 (wc_max_size_per_image c))"

section \<open>Refilling\<close>

fun next_in_turn :: "pool_config \<Rightarrow> nat \<Rightarrow> warm_pool \<Rightarrow> string option \<times> warm_pool" where
  \<comment> \<open>the round robin, with the turns left\<close>
  "next_in_turn c 0 p = (None, p)"
| "next_in_turn c (Suc n) p =
     (let img = cp_prewarm_images p ! (cp_prewarm_rr_index p mod length (cp_prewarm_images p));
          p' = p\<lparr>cp_prewarm_rr_index := cp_prewarm_rr_index p + 1\<rparr>
      in if has_capacity c p' img then (Some img, p') else next_in_turn c n p')"

definition pick_next_image :: "pool_config \<Rightarrow> string option \<Rightarrow> warm_pool \<Rightarrow> string option \<times> warm_pool" where
  "pick_next_image c preferred p =
     (if cp_prewarm_images p = [] then (None, p)
      else case preferred of
             Some i \<Rightarrow> (if i \<noteq> [] \<and> i \<in> set (cp_prewarm_images p) \<and> has_capacity c p i then (Some i, p)
                       else next_in_turn c (length (cp_prewarm_images p)) p)
           | None \<Rightarrow> next_in_turn c (length (cp_prewarm_images p)) p)"

definition add_pending :: "string \<Rightarrow> warm_pool \<Rightarrow> warm_pool" where
  "add_pending img p =
     p\<lparr>cp_prewarm_queue := cp_prewarm_queue p @ [img], cp_pending_create_count := cp_pending_create_count p + 1,
       cp_pending_by_image := dset img (pending_of p img + 1) (cp_pending_by_image p)\<rparr>"

definition enqueue_prewarm :: "pool_config \<Rightarrow> int \<Rightarrow> string option \<Rightarrow> warm_pool \<Rightarrow> bool \<times> warm_pool" where
  \<comment> \<open>\<open>active\<close>: how many containers the server has handed out\<close>
  "enqueue_prewarm c active preferred p =
     (if 0 < effective_total_cap c \<and> effective_total_cap c \<le> total_known active p then (False, p)
      else case pick_next_image c preferred p of
             (None, p') \<Rightarrow> (False, p')
           | (Some img, p') \<Rightarrow> (if img = [] then (False, p') else (True, add_pending img p')))"

definition room :: "pool_config \<Rightarrow> warm_pool \<Rightarrow> nat" where
  "room c p = (\<Sum>i\<in>set (cp_prewarm_images p). nat (max 0 (wc_max_size_per_image c) - idle_and_pending p i))"

lemma next_in_turn_frame:
  "next_in_turn c n p = (r, p') \<Longrightarrow> p' = p\<lparr>cp_prewarm_rr_index := cp_prewarm_rr_index p'\<rparr> \<and>
     (cp_prewarm_images p \<noteq> [] \<longrightarrow> (case r of None \<Rightarrow> True | Some i \<Rightarrow> i \<in> set (cp_prewarm_images p) \<and> has_capacity c p i))"
proof (induction c n p rule: next_in_turn.induct)
  case (2 c n p)
  let ?i = "cp_prewarm_images p ! (cp_prewarm_rr_index p mod length (cp_prewarm_images p))"
  let ?p = "p\<lparr>cp_prewarm_rr_index := cp_prewarm_rr_index p + 1\<rparr>"
  have same: "has_capacity c ?p i = has_capacity c p i" for i
    by (simp add: has_capacity_def idle_and_pending_def idle_of_def pending_of_def)
  show ?case
  proof (cases "has_capacity c ?p ?i")
    case True
    with 2(2) same show ?thesis by (auto simp: Let_def)
  next
    case False
    with 2(2) have "next_in_turn c n ?p = (r, p')" by (simp add: Let_def)
    from 2(1) [OF refl refl False this] same show ?thesis by (auto split: option.splits)
  qed
qed auto

lemma pick_next_image_frame:
  assumes "pick_next_image c pref p = (r, p')"
  shows "p' = p\<lparr>cp_prewarm_rr_index := cp_prewarm_rr_index p'\<rparr>"
    and "r = Some i \<Longrightarrow> i \<in> set (cp_prewarm_images p) \<and> has_capacity c p i"
  using assms next_in_turn_frame [of c "length (cp_prewarm_images p)" p r p']
  by (auto simp: pick_next_image_def split: option.splits if_splits)

lemma enqueue_prewarm_cases:
  assumes "enqueue_prewarm c active pref p = (b, p')"
  obtains (no) k where "\<not> b" "p' = p\<lparr>cp_prewarm_rr_index := k\<rparr>"
  | (yes) k i where "b" "p' = add_pending i (p\<lparr>cp_prewarm_rr_index := k\<rparr>)" "i \<in> set (cp_prewarm_images p)" "has_capacity c p i"
      "0 < effective_total_cap c \<longrightarrow> total_known active p < effective_total_cap c" "i \<noteq> []"
proof (cases "0 < effective_total_cap c \<and> effective_total_cap c \<le> total_known active p")
  case True
  with assms show ?thesis by (intro no [of "cp_prewarm_rr_index p"]) (auto simp: enqueue_prewarm_def)
next
  case False
  obtain r q where pick: "pick_next_image c pref p = (r, q)" by (cases "pick_next_image c pref p")
  note f = pick_next_image_frame [OF pick]
  show ?thesis
  proof (cases "r = None \<or> r = Some []")
    case True
    with False pick assms have "\<not> b" "p' = q" by (auto simp: enqueue_prewarm_def)
    with f(1) show ?thesis by (intro no [of "cp_prewarm_rr_index q"]) simp_all
  next
    case some: False
    then obtain i where i: "r = Some i" "i \<noteq> []" by auto
    with False pick assms have "b" "p' = add_pending i q" by (auto simp: enqueue_prewarm_def)
    with f(1) f(2) [OF i(1)] i False show ?thesis by (intro yes [where k = "cp_prewarm_rr_index q" and i = i]) auto
  qed
qed

lemma room_decreases:
  assumes "enqueue_prewarm c active pref p = (True, p')" shows "room c p' < room c p"
  using assms
proof (cases rule: enqueue_prewarm_cases)
  case (yes k i)
  have same: "idle_and_pending p' j = idle_and_pending p j + (if j = i then 1 else 0)" for j
    using yes(2) by (simp add: idle_and_pending_def idle_of_def pending_of_def add_pending_def)
  have "nat (max 0 (wc_max_size_per_image c) - idle_and_pending p' i) < nat (max 0 (wc_max_size_per_image c) - idle_and_pending p i)"
    using yes(4) by (simp add: same has_capacity_def)
  moreover have "cp_prewarm_images p' = cp_prewarm_images p" using yes(2) by (simp add: add_pending_def)
  ultimately show ?thesis unfolding room_def using yes(3)
    by (auto intro!: sum_strict_mono_ex1 simp: same)
qed simp

function enqueue_all :: "pool_config \<Rightarrow> int \<Rightarrow> warm_pool \<Rightarrow> warm_pool" where
  \<comment> \<open>\<open>while self._enqueue_prewarm_unlocked(): pass\<close>\<close>
  "enqueue_all c active p =
     (let (b, p') = enqueue_prewarm c active None p in if b then enqueue_all c active p' else p')"
  by pat_completeness auto
termination
  by (relation "measure (\<lambda>(c, active, p). room c p)") (auto intro: room_decreases)

declare enqueue_all.simps [simp del]

section \<open>Regions under the pool's lock\<close>

definition bump :: "(pool_metrics \<Rightarrow> pool_metrics) \<Rightarrow> warm_pool \<Rightarrow> warm_pool" where
  "bump f p = p\<lparr>cp_metrics := f (cp_metrics p)\<rparr>"

definition refill_one :: "pool_config \<Rightarrow> int \<Rightarrow> string \<Rightarrow> warm_pool \<Rightarrow> warm_pool" where
  \<comment> \<open>\<open>while self._enqueue_prewarm_unlocked(preferred_image=image): break\<close>\<close>
  "refill_one c active img p = snd (enqueue_prewarm c active (Some img) p)"

definition pop_idle :: "string \<Rightarrow> warm_pool \<Rightarrow> (string \<times> idle_meta) option \<times> warm_pool" where
  "pop_idle img p =
     (case idle_of p img of
        [] \<Rightarrow> (None, p)
      | cid # q \<Rightarrow>
          (map_option (Pair cid) (dget (cp_idle_meta p) cid),
           p\<lparr>cp_idle_by_image := (if q = [] then dpop img (cp_idle_by_image p) else dset img q (cp_idle_by_image p)),
             cp_idle_meta := dpop cid (cp_idle_meta p)\<rparr>))"

definition put_idle :: "string \<Rightarrow> idle_meta \<Rightarrow> warm_pool \<Rightarrow> warm_pool" where
  "put_idle cid m p =
     p\<lparr>cp_idle_by_image := dset (im_image m) (idle_of p (im_image m) @ [cid]) (cp_idle_by_image p),
       cp_idle_meta := dset cid m (cp_idle_meta p)\<rparr>"

record created =
  cd_container_id :: string
  cd_name :: string
  cd_create_time :: real

definition warm_hit :: "pool_config \<Rightarrow> int \<Rightarrow> string \<Rightarrow> warm_pool \<Rightarrow> warm_pool" where
  "warm_hit c active img p =
     refill_one c active img (bump (\<lambda>m. m\<lparr>pm_reused_count := pm_reused_count m + 1\<rparr>) p)"

definition discarded :: "warm_pool \<Rightarrow> warm_pool" where
  "discarded p = bump (\<lambda>m. m\<lparr>pm_unhealthy_discard_count := pm_unhealthy_discard_count m + 1\<rparr>) p"

definition warm_miss :: "pool_config \<Rightarrow> int \<Rightarrow> string \<Rightarrow> warm_pool \<Rightarrow> warm_pool" where
  "warm_miss c active img p =
     refill_one c active img (bump (\<lambda>m. m\<lparr>pm_warm_miss_count := pm_warm_miss_count m + 1\<rparr>) p)"

definition note_created :: "created \<Rightarrow> warm_pool \<Rightarrow> warm_pool" where
  "note_created d p = bump (\<lambda>m. m\<lparr>pm_created_count := pm_created_count m + 1,
     pm_create_time_total := pm_create_time_total m + cd_create_time d\<rparr>) p"

definition note_released :: "pool_config \<Rightarrow> int \<Rightarrow> string \<Rightarrow> warm_pool \<Rightarrow> warm_pool" where
  "note_released c active img p =
     (let p' = bump (\<lambda>m. m\<lparr>pm_destroy_count := pm_destroy_count m + 1\<rparr>) p
      in if wc_enabled c then refill_one c active img p' else p')"

definition less_pending :: "string \<Rightarrow> warm_pool \<Rightarrow> warm_pool" where
  "less_pending img p =
     (let n = max 0 (pending_of p img - 1)
      in p\<lparr>cp_pending_create_count := max 0 (cp_pending_create_count p - 1),
           cp_pending_by_image := (if n = 0 then dpop img (cp_pending_by_image p) else dset img n (cp_pending_by_image p))\<rparr>)"

definition prewarm_take :: "warm_pool \<Rightarrow> (string \<times> warm_pool) option" where
  "prewarm_take p =
     (case cp_prewarm_queue p of [] \<Rightarrow> None | img # q \<Rightarrow> Some (img, p\<lparr>cp_prewarm_queue := q\<rparr>))"

definition prewarm_done :: "pool_config \<Rightarrow> int \<Rightarrow> real \<Rightarrow> string \<Rightarrow> created option \<Rightarrow> warm_pool \<Rightarrow> warm_pool" where
  \<comment> \<open>the second region of \<open>_prewarm_loop\<close>; \<open>None\<close>: the creation raised\<close>
  "prewarm_done c active now img res p =
     (let p1 = less_pending img p;
          p2 = (case res of None \<Rightarrow> p1
                | Some d \<Rightarrow> bump (\<lambda>m. m\<lparr>pm_prewarmed_count := pm_prewarmed_count m + 1,
                     pm_create_time_total := pm_create_time_total m + cd_create_time d\<rparr>)
                    (put_idle (cd_container_id d)
                      \<lparr>im_name = cd_name d, im_image = img, im_cwd = wc_default_cwd c, im_pooled_at = now, im_adopted = False\<rparr> p1))
      in enqueue_all c active p2)"

section \<open>Adopting containers that already run\<close>

record listed =
  li_id :: string
  li_image :: string
  li_names :: string
  li_command :: string

definition looks_prewarmed :: "listed \<Rightarrow> bool" where
  "looks_prewarmed d =
     (contains ''sleep infinity'' (lower (li_command d)) \<or> contains ''tail -f /dev/null'' (lower (li_command d)))"

definition full_pool :: "pool_config \<Rightarrow> string list \<Rightarrow> warm_pool \<Rightarrow> bool" where
  "full_pool c active p =
     (0 < effective_total_cap c \<and> effective_total_cap c \<le> total_known (int (length active)) p)"

definition adoptable :: "pool_config \<Rightarrow> string list \<Rightarrow> string \<Rightarrow> string \<Rightarrow> warm_pool \<Rightarrow> bool" where
  "adoptable c active cid img p =
     (dget (cp_idle_meta p) cid = None \<and> cid \<notin> set active \<and> has_capacity c p img)"

fun adopt_loop :: "('w, string \<times> string \<times> int, bool) transport \<Rightarrow> pool_config \<Rightarrow> string list \<Rightarrow> real \<Rightarrow> listed list \<Rightarrow>
    'w \<Rightarrow> warm_pool \<Rightarrow> int res \<times> 'w \<times> warm_pool" where
  \<comment> \<open>how many were adopted; \<open>active\<close>: the containers handed out, the same at both looks\<close>
  "adopt_loop health c active now [] w p = (Inr 0, w, p)"
| "adopt_loop health c active now (d # ds) w p =
     (let cid = strip (li_id d); img = strip (li_image d)
      in if cid = [] \<or> img = [] \<or> img \<notin> set (cp_prewarm_images p) \<or> \<not> looks_prewarmed d
         then adopt_loop health c active now ds w p
         else if full_pool c active p then (Inr 0, w, p)
         else if \<not> adoptable c active cid img p then adopt_loop health c active now ds w p
         else case health (cid, wc_default_cwd c, wc_health_timeout c) w of
                (Inl e, w') \<Rightarrow> (Inl e, w', p)
              | (Inr False, w') \<Rightarrow> adopt_loop health c active now ds w' p
              | (Inr True, w') \<Rightarrow>
                  (case adopt_loop health c active now ds w'
                      (bump (\<lambda>m. m\<lparr>pm_adopted_count := pm_adopted_count m + 1\<rparr>)
                        (put_idle cid \<lparr>im_name = strip (li_names d), im_image = img, im_cwd = wc_default_cwd c,
                           im_pooled_at = now, im_adopted = True\<rparr> p)) of
                     (Inl e, w2, p2) \<Rightarrow> (Inl e, w2, p2)
                   | (Inr n, w2, p2) \<Rightarrow> (Inr (n + 1), w2, p2)))"

definition sync_existing :: "('w, int, listed list) transport \<Rightarrow> ('w, string \<times> string \<times> int, bool) transport \<Rightarrow> pool_config \<Rightarrow>
    string list \<Rightarrow> real \<Rightarrow> 'w \<Rightarrow> warm_pool \<Rightarrow> int res \<times> 'w \<times> warm_pool" where
  "sync_existing ps health c active now w p =
     (if \<not> wc_enabled c \<or> cp_prewarm_images p = [] then (Inr 0, w, p)
      else case ps (wc_health_timeout c) w of
             (Inl e, w') \<Rightarrow> (Inr 0, w', p)
           | (Inr ds, w') \<Rightarrow> adopt_loop health c active now ds w' p)"

definition start_pool :: "('w, int, listed list) transport \<Rightarrow> ('w, string \<times> string \<times> int, bool) transport \<Rightarrow> pool_config \<Rightarrow>
    string list \<Rightarrow> real \<Rightarrow> 'w \<Rightarrow> warm_pool \<Rightarrow> unit res \<times> 'w \<times> warm_pool" where
  \<comment> \<open>the first \<open>start\<close>, which also starts the worker\<close>
  "start_pool ps health c active now w p =
     (if \<not> wc_enabled c then (Inr (), w, p)
      else case sync_existing ps health c active now w p of
             (Inl e, w', p') \<Rightarrow> (Inl e, w', p')
           | (Inr _, w', p') \<Rightarrow> (Inr (), w', enqueue_all c (int (length active)) p'))"

section \<open>Handing out and taking back\<close>

record acquired =
  aq_container_id :: string
  aq_name :: string
  aq_pooled :: bool
  aq_acquisition :: string
  aq_create_time :: real
  aq_reset_time :: real

lemma pop_idle_shrinks:
  "(Some x, p') = pop_idle img p \<Longrightarrow> length (idle_of p' img) < length (idle_of p img)"
  by (auto simp: pop_idle_def idle_of_def dget_def_def dget_dset dget_dpop split: list.splits if_splits)

function acquire_warm :: "('w, string \<times> string \<times> int, bool) transport \<Rightarrow> ('w, string, unit) transport \<Rightarrow> pool_config \<Rightarrow> int \<Rightarrow>
    string \<Rightarrow> 'w \<Rightarrow> warm_pool \<Rightarrow> (string \<times> idle_meta) option res \<times> 'w \<times> warm_pool" where
  \<comment> \<open>the loop of \<open>acquire\<close>\<close>
  "acquire_warm health destroy c active img w p =
     (case pop_idle img p of
        (None, p') \<Rightarrow> (Inr None, w, p')
      | (Some (cid, meta), p') \<Rightarrow>
          (case health (cid, im_cwd meta, wc_health_timeout c) w of
             (Inl e, w') \<Rightarrow> (Inl e, w', p')
           | (Inr True, w') \<Rightarrow> (Inr (Some (cid, meta)), w', warm_hit c active img p')
           | (Inr False, w') \<Rightarrow>
               (case destroy cid w' of
                  (Inl e, w'') \<Rightarrow> (Inl e, w'', discarded p')
                | (Inr _, w'') \<Rightarrow> acquire_warm health destroy c active img w'' (discarded p'))))"
  by pat_completeness auto
termination
  by (relation "measure (\<lambda>(health, destroy, c, active, img, w, p). length (idle_of p img))")
    (auto simp: discarded_def bump_def idle_of_def dest: pop_idle_shrinks [unfolded idle_of_def])

declare acquire_warm.simps [simp del]

definition acquire_container :: "('w, string \<times> string \<times> int, bool) transport \<Rightarrow> ('w, string \<times> string \<times> int, created) transport \<Rightarrow>
    ('w, string, unit) transport \<Rightarrow> pool_config \<Rightarrow> int \<Rightarrow> string \<Rightarrow> string \<Rightarrow> int \<Rightarrow> 'w \<Rightarrow> warm_pool \<Rightarrow>
    acquired res \<times> 'w \<times> warm_pool" where
  "acquire_container health create destroy c active img cwd timeout w p =
     (case (if wc_enabled c then acquire_warm health destroy c active img w p else (Inr None, w, p)) of
        (Inl e, w', p') \<Rightarrow> (Inl e, w', p')
      | (Inr (Some (cid, meta)), w', p') \<Rightarrow>
          (Inr \<lparr>aq_container_id = cid, aq_name = im_name meta, aq_pooled = True, aq_acquisition = ''prewarmed'',
             aq_create_time = 0, aq_reset_time = 0\<rparr>, w', p')
      | (Inr None, w', p') \<Rightarrow>
          (case create (img, cwd, timeout) w' of
             (Inl e, w'') \<Rightarrow> (Inl e, w'', warm_miss c active img p')
           | (Inr d, w'') \<Rightarrow>
               (Inr \<lparr>aq_container_id = cd_container_id d, aq_name = cd_name d, aq_pooled = False, aq_acquisition = ''created'',
                  aq_create_time = cd_create_time d, aq_reset_time = 0\<rparr>, w'', note_created d (warm_miss c active img p'))))"

record released =
  rl_pooled :: bool
  rl_destroyed :: bool
  rl_reason :: string

definition release_container :: "('w, string, unit) transport \<Rightarrow> pool_config \<Rightarrow> int \<Rightarrow> string \<Rightarrow> string \<Rightarrow> 'w \<Rightarrow> warm_pool \<Rightarrow>
    released res \<times> 'w \<times> warm_pool" where
  "release_container destroy c active cid img w p =
     (case destroy cid w of
        (Inl e, w') \<Rightarrow> (Inl e, w', p)
      | (Inr _, w') \<Rightarrow>
          (Inr \<lparr>rl_pooled = False, rl_destroyed = True,
             rl_reason = (if wc_enabled c then ''strict_warm_one_shot'' else ''pool_disabled'')\<rparr>,
           w', note_released c active img p))"

definition warmup_over :: "pool_config \<Rightarrow> int \<Rightarrow> warm_pool \<Rightarrow> bool" where
  \<comment> \<open>what a blocking \<open>warmup\<close> waits for\<close>
  "warmup_over c active p =
     (effective_total_cap c \<le> 0 \<or>
      (effective_total_cap c \<le> int (length (cp_idle_meta p)) + active \<and> cp_pending_create_count p = 0))"

record warm_status =
  wt_enabled :: bool
  wt_mode :: string
  wt_worker_count :: int
  wt_idle_containers :: int
  wt_pending_creates :: int
  wt_idle_by_image :: "(string, int) dict"
  wt_max_size_per_image :: int
  wt_max_total_size :: int
  wt_target_total :: int
  wt_image_count :: int
  wt_metrics :: pool_metrics
  wt_avg_create_time :: real

definition warm_pool_status :: "pool_config \<Rightarrow> warm_pool \<Rightarrow> warm_status" where
  "warm_pool_status c p =
     \<lparr>wt_enabled = wc_enabled c, wt_mode = (if wc_enabled c then ''strict_warm_one_shot'' else ''disabled''),
      wt_worker_count = (if wc_enabled c then 1 else 0), wt_idle_containers = int (length (cp_idle_meta p)),
      wt_pending_creates = cp_pending_create_count p,
      wt_idle_by_image = map (\<lambda>(i, q). (i, int (length q))) (filter (\<lambda>(i, q). q \<noteq> []) (cp_idle_by_image p)),
      wt_max_size_per_image = wc_max_size_per_image c, wt_max_total_size = effective_total_cap c,
      wt_target_total = target_total_count c, wt_image_count = int (length (cp_prewarm_images p)),
      wt_metrics = cp_metrics p, wt_avg_create_time = avg_create_time (cp_metrics p)\<rparr>"

end
