(* ===== verification/Exec_Warm_Threads.thy ===== *)
theory Exec_Warm_Threads
  imports Exec_Warm_Pool
begin

text \<open>
  The warm pool under concurrency: requests that take and return containers, the prewarming worker, and
  the table of containers in use, cut into the regions under the pool's lock and the docker commands
  between them.
\<close>

section \<open>Threads\<close>

datatype errand =
    Asking string              \<comment> \<open>at the head of the loop of \<open>acquire\<close>, for an image\<close>
  | Checking string string     \<comment> \<open>probing a container it popped\<close>
  | Discarding string string   \<comment> \<open>destroying one that failed the probe\<close>
  | Missed string
  | Making string              \<comment> \<open>creating a fresh container\<close>
  | Holding string             \<comment> \<open>has a container, about to enter it into the table\<close>
  | Removing string string     \<comment> \<open>destroying a container in use\<close>
  | Unlisting string           \<comment> \<open>destroyed, about to leave the table\<close>
  | Warming string             \<comment> \<open>the worker, creating ahead\<close>

fun possesses :: "string \<Rightarrow> errand \<Rightarrow> bool" where
  "possesses cid (Checking d img) = (d = cid)"
| "possesses cid (Discarding d img) = (d = cid)"
| "possesses cid (Holding d) = (d = cid)"
| "possesses cid _ = False"

fun is_warming :: "errand \<Rightarrow> bool" where
  "is_warming (Warming img) = True"
| "is_warming _ = False"

text \<open>The pool, the containers in use, the identifiers docker has given out, the threads.\<close>

type_synonym host = "warm_pool \<times> string list \<times> string set \<times> errand multiset"

inductive host_step :: "pool_config \<Rightarrow> host \<Rightarrow> host \<Rightarrow> bool" for c :: pool_config where
  ask: "host_step c (p, A, B, T) (p, A, B, add_mset (Asking img) T)"
| hit: "pop_idle img p = (Some (cid, m), p') \<Longrightarrow>
    host_step c (p, A, B, add_mset (Asking img) T) (p', A, B, add_mset (Checking cid img) T)"
| dry: "pop_idle img p = (None, p') \<Longrightarrow>
    host_step c (p, A, B, add_mset (Asking img) T) (p', A, B, add_mset (Missed img) T)"
| well: "host_step c (p, A, B, add_mset (Checking cid img) T) (warm_hit c (int (length A)) img p, A, B, add_mset (Holding cid) T)"
| sick: "host_step c (p, A, B, add_mset (Checking cid img) T) (discarded p, A, B, add_mset (Discarding cid img) T)"
| probe_raises: "host_step c (p, A, B, add_mset (Checking cid img) T) (p, A, B, T)"
| again: "host_step c (p, A, B, add_mset (Discarding cid img) T) (p, A, B, add_mset (Asking img) T)"
| discard_raises: "host_step c (p, A, B, add_mset (Discarding cid img) T) (p, A, B, T)"
| miss: "host_step c (p, A, B, add_mset (Missed img) T) (warm_miss c (int (length A)) img p, A, B, add_mset (Making img) T)"
| made: "cd_container_id d \<notin> B \<Longrightarrow>
    host_step c (p, A, B, add_mset (Making img) T) (note_created d p, A, insert (cd_container_id d) B, add_mset (Holding (cd_container_id d)) T)"
| make_raises: "host_step c (p, A, B, add_mset (Making img) T) (p, A, B, T)"
| hand_out: "host_step c (p, A, B, add_mset (Holding cid) T) (p, if cid \<in> set A then A else A @ [cid], B, T)"
| give_back: "cid \<in> set A \<Longrightarrow> host_step c (p, A, B, T) (p, A, B, add_mset (Removing cid img) T)"
| removed: "host_step c (p, A, B, add_mset (Removing cid img) T) (note_released c (int (length A)) img p, A, B, add_mset (Unlisting cid) T)"
| remove_raises: "host_step c (p, A, B, add_mset (Removing cid img) T) (p, A, B, T)"
| unlist: "host_step c (p, A, B, add_mset (Unlisting cid) T) (p, remove1 cid A, B, T)"
| worker_takes: "prewarm_take p = Some (img, p') \<Longrightarrow> host_step c (p, A, B, T) (p', A, B, add_mset (Warming img) T)"
| worker_fills: "host_step c (p, A, B, T) (enqueue_all c (int (length A)) p, A, B, T)"
| warmed: "cd_container_id d \<notin> B \<Longrightarrow>
    host_step c (p, A, B, add_mset (Warming img) T)
      (prewarm_done c (int (length A)) now img (Some d) p, A, insert (cd_container_id d) B, T)"
| warm_raises: "host_step c (p, A, B, add_mset (Warming img) T) (prewarm_done c (int (length A)) now img None p, A, B, T)"

section \<open>Invariants of the pool\<close>

definition pend_ok :: "(string \<Rightarrow> int) \<Rightarrow> int \<Rightarrow> warm_pool \<Rightarrow> bool" where
  \<comment> \<open>pending creations are queued or under way: \<open>W\<close> of an image, \<open>n\<close> in all\<close>
  "pend_ok W n p = (cp_pending_create_count p = int (length (cp_prewarm_queue p)) + n \<and>
     (\<forall>i. pending_of p i = int (count_list (cp_prewarm_queue p) i) + W i))"

definition idle_ok :: "warm_pool \<Rightarrow> bool" where
  \<comment> \<open>the queues hold exactly the containers of the idle table, each once, under its image\<close>
  "idle_ok p = (distinct (dkeys (cp_idle_meta p)) \<and> (\<forall>i. distinct (idle_of p i)) \<and>
     (\<forall>i cid. cid \<in> set (idle_of p i) \<longleftrightarrow> (\<exists>m. dget (cp_idle_meta p) cid = Some m \<and> im_image m = i)))"

definition size_ok :: "pool_config \<Rightarrow> warm_pool \<Rightarrow> bool" where
  "size_ok c p = ((0 < effective_total_cap c \<longrightarrow> total_known 0 p \<le> effective_total_cap c) \<and>
     (\<forall>i. idle_and_pending p i \<le> max 0 (wc_max_size_per_image c)))"

lemma idle_of_updates [simp]:
  "idle_of (add_pending j p) i = idle_of p i"
  "idle_of (p\<lparr>cp_prewarm_rr_index := k\<rparr>) i = idle_of p i"
  "idle_of (p\<lparr>cp_metrics := x\<rparr>) i = idle_of p i"
  "idle_of (p\<lparr>cp_prewarm_queue := q\<rparr>) i = idle_of p i"
  "idle_of (bump f p) i = idle_of p i"
  "idle_of (less_pending j p) i = idle_of p i"
  by (simp_all add: idle_of_def add_pending_def bump_def less_pending_def Let_def)

lemma pending_of_updates [simp]:
  "pending_of (add_pending j p) i = pending_of p i + (if i = j then 1 else 0)"
  "pending_of (p\<lparr>cp_prewarm_rr_index := k\<rparr>) i = pending_of p i"
  "pending_of (p\<lparr>cp_metrics := x\<rparr>) i = pending_of p i"
  "pending_of (p\<lparr>cp_prewarm_queue := q\<rparr>) i = pending_of p i"
  "pending_of (bump f p) i = pending_of p i"
  "pending_of (put_idle cid m p) i = pending_of p i"
  by (simp_all add: pending_of_def add_pending_def bump_def put_idle_def)

lemma pending_of_less: "pending_of (less_pending j p) i = (if i = j then max 0 (pending_of p j - 1) else pending_of p i)"
  by (auto simp: less_pending_def pending_of_def Let_def)

lemma idle_of_put: "idle_of (put_idle cid m p) i = (if i = im_image m then idle_of p i @ [cid] else idle_of p i)"
  by (simp add: put_idle_def idle_of_def)

lemma bump_fields [simp]:
  "cp_idle_meta (bump f p) = cp_idle_meta p" "cp_pending_create_count (bump f p) = cp_pending_create_count p"
  "cp_prewarm_queue (bump f p) = cp_prewarm_queue p" "cp_prewarm_images (bump f p) = cp_prewarm_images p"
  by (simp_all add: bump_def)

lemma add_pending_fields [simp]:
  "cp_idle_meta (add_pending i p) = cp_idle_meta p" "cp_pending_create_count (add_pending i p) = cp_pending_create_count p + 1"
  "cp_prewarm_queue (add_pending i p) = cp_prewarm_queue p @ [i]"
  by (simp_all add: add_pending_def)

lemma less_pending_fields [simp]:
  "cp_idle_meta (less_pending i p) = cp_idle_meta p"
  "cp_pending_create_count (less_pending i p) = max 0 (cp_pending_create_count p - 1)"
  "cp_prewarm_queue (less_pending i p) = cp_prewarm_queue p"
  by (simp_all add: less_pending_def Let_def)

lemma put_idle_fields [simp]:
  "cp_idle_meta (put_idle cid m p) = dset cid m (cp_idle_meta p)" "cp_pending_create_count (put_idle cid m p) = cp_pending_create_count p"
  "cp_prewarm_queue (put_idle cid m p) = cp_prewarm_queue p"
  by (simp_all add: put_idle_def)

text \<open>What every invariant of the pool needs to know of a refill.\<close>

definition refilled :: "pool_config \<Rightarrow> warm_pool \<Rightarrow> warm_pool \<Rightarrow> bool" where
  "refilled c p p' = (cp_idle_meta p' = cp_idle_meta p \<and> (\<forall>i. idle_of p' i = idle_of p i) \<and>
     (\<forall>W n. pend_ok W n p \<longrightarrow> pend_ok W n p') \<and> (size_ok c p \<longrightarrow> size_ok c p'))"

lemma refilled_refl [simp]: "refilled c p p"
  by (simp add: refilled_def)

lemma refilled_trans: "refilled c p q \<Longrightarrow> refilled c q r \<Longrightarrow> refilled c p r"
  by (auto simp: refilled_def)

lemma refilled_bump: "refilled c p (bump f p)"
  by (simp add: refilled_def pend_ok_def size_ok_def total_known_def idle_and_pending_def)

lemma refilled_enqueue:
  assumes "enqueue_prewarm c active pref p = (b, p')" "0 \<le> active" shows "refilled c p p'"
  using assms(1)
proof (cases rule: enqueue_prewarm_cases)
  case (no k)
  then show ?thesis by (simp add: refilled_def pend_ok_def size_ok_def total_known_def idle_and_pending_def)
next
  case (yes k i)
  have "size_ok c p'" if "size_ok c p"
    using yes(4,5) assms(2) that
    by (auto simp: yes(2) size_ok_def total_known_def idle_and_pending_def has_capacity_def)
  then show ?thesis by (auto simp: yes(2) refilled_def pend_ok_def)
qed

lemma refilled_one: "0 \<le> active \<Longrightarrow> refilled c p (refill_one c active img p)"
  unfolding refill_one_def by (rule refilled_enqueue [of _ _ "Some img" _ "fst (enqueue_prewarm c active (Some img) p)"]) simp_all

lemma refilled_all: "0 \<le> active \<Longrightarrow> refilled c p (enqueue_all c active p)"
proof (induction c active p rule: enqueue_all.induct)
  case (1 c active p)
  obtain b p' where e: "enqueue_prewarm c active None p = (b, p')" by (cases "enqueue_prewarm c active None p")
  note step = refilled_enqueue [OF e 1(2)]
  show ?case
  proof (cases b)
    case True
    with 1(1) [OF e [symmetric] refl] 1(2) e step show ?thesis
      by (auto simp: enqueue_all.simps [of c active p] intro: refilled_trans)
  qed (use e step in \<open>simp add: enqueue_all.simps [of c active p]\<close>)
qed

lemma refilled_regions:
  "0 \<le> active \<Longrightarrow> refilled c p (warm_hit c active img p)"
  "0 \<le> active \<Longrightarrow> refilled c p (warm_miss c active img p)"
  "0 \<le> active \<Longrightarrow> refilled c p (note_released c active img p)"
  "refilled c p (discarded p)"
  "refilled c p (note_created d p)"
  by (auto simp: warm_hit_def warm_miss_def note_released_def discarded_def note_created_def Let_def
      intro: refilled_trans [OF refilled_bump refilled_one] refilled_bump)

lemma pop_idle_found:
  assumes "idle_ok p" "pop_idle img p = (Some (cid, m), p')"
  shows "dget (cp_idle_meta p) cid = Some m" "cp_idle_meta p' = dpop cid (cp_idle_meta p)" "idle_ok p'"
    "pend_ok W n p' = pend_ok W n p" "size_ok c p \<Longrightarrow> size_ok c p'"
proof -
  from assms(2) obtain q where q: "idle_of p img = cid # q"
    and m: "dget (cp_idle_meta p) cid = Some m"
    and p': "p' = p\<lparr>cp_idle_by_image := (if q = [] then dpop img (cp_idle_by_image p) else dset img q (cp_idle_by_image p)),
        cp_idle_meta := dpop cid (cp_idle_meta p)\<rparr>"
    by (auto simp: pop_idle_def split: list.splits)
  have idle: "idle_of p' i = (if i = img then q else idle_of p i)" for i
    using p' by (auto simp: idle_of_def)
  show "dget (cp_idle_meta p) cid = Some m" by (rule m)
  show meta: "cp_idle_meta p' = dpop cid (cp_idle_meta p)" by (simp add: p')
  have img: "im_image m = img" using assms(1) q m unfolding idle_ok_def by (metis list.set_intros(1) option.inject)
  have "cid \<notin> set q" "distinct q" using assms(1) q unfolding idle_ok_def by (metis distinct.simps(2))+
  have mem: "c' \<in> set (idle_of p i) \<longleftrightarrow> (\<exists>m'. dget (cp_idle_meta p) c' = Some m' \<and> im_image m' = i)" for c' i
    using assms(1) unfolding idle_ok_def by blast
  have left: "c' \<in> set (idle_of p' i) \<longleftrightarrow> c' \<noteq> cid \<and> c' \<in> set (idle_of p i)" for c' i
    using \<open>cid \<notin> set q\<close> q mem [of cid i] m img unfolding idle by auto
  have "distinct (idle_of p' i)" for i using assms(1) \<open>distinct q\<close> unfolding idle idle_ok_def by simp
  moreover have "c' \<in> set (idle_of p' i) \<longleftrightarrow> (\<exists>m'. dget (cp_idle_meta p') c' = Some m' \<and> im_image m' = i)" for c' i
    unfolding left mem meta dget_dpop by simp
  moreover have "distinct (dkeys (cp_idle_meta p'))" unfolding meta using assms(1) by (simp add: idle_ok_def distinct_dpop)
  ultimately show "idle_ok p'" unfolding idle_ok_def by blast
  have pend: "pending_of p' i = pending_of p i" for i by (simp add: p' pending_of_def)
  show "pend_ok W n p' = pend_ok W n p" unfolding pend_ok_def pend by (simp add: p')
  have "Suc (length (dpop cid (cp_idle_meta p))) = length (cp_idle_meta p)"
    using assms(1) m by (intro length_dpop) (auto simp: idle_ok_def)
  moreover have "idle_and_pending p' i \<le> idle_and_pending p i" for i
    using q unfolding idle_and_pending_def idle pend by auto
  ultimately show "size_ok c p \<Longrightarrow> size_ok c p'"
    unfolding size_ok_def total_known_def meta by (fastforce simp: p' intro: order_trans)
qed

lemma pop_idle_none:
  assumes "idle_ok p" "pop_idle img p = (None, p')" shows "p' = p"
proof (cases "idle_of p img")
  case (Cons cid q)
  then have "dget (cp_idle_meta p) cid \<noteq> None" using assms(1) unfolding idle_ok_def by (metis list.set_intros(1) option.distinct(1))
  with Cons assms(2) show ?thesis by (auto simp: pop_idle_def)
qed (use assms(2) in \<open>simp add: pop_idle_def\<close>)

lemma put_idle_ok:
  assumes "idle_ok p" "dget (cp_idle_meta p) cid = None" shows "idle_ok (put_idle cid m p)"
proof -
  have new: "cid \<notin> set (idle_of p i)" for i using assms unfolding idle_ok_def by simp
  show ?thesis using assms new unfolding idle_ok_def idle_of_put put_idle_fields
    by (auto simp: distinct_dset dget_dset)
qed

lemma prewarm_take_pend:
  assumes "prewarm_take p = Some (img, p')"
  shows "pend_ok W n p \<Longrightarrow> pend_ok (\<lambda>i. W i + (if i = img then 1 else 0)) (n + 1) p'"
    "cp_idle_meta p' = cp_idle_meta p" "idle_of p' i = idle_of p i" "size_ok c p' = size_ok c p"
  using assms by (auto simp: prewarm_take_def pend_ok_def size_ok_def total_known_def idle_and_pending_def split: list.splits)

lemma less_pending_pend:
  assumes "pend_ok W n p" "1 \<le> W img" "1 \<le> n"
  shows "pend_ok (\<lambda>i. W i - (if i = img then 1 else 0)) (n - 1) (less_pending img p)"
  using assms by (auto simp: pend_ok_def pending_of_less)

lemma idle_ok_refilled: "refilled c p p' \<Longrightarrow> idle_ok p' = idle_ok p"
  by (auto simp: refilled_def idle_ok_def)

text \<open>The pool once the worker is done with an image: the pool it had before the refill.\<close>

lemma prewarm_done_refills:
  assumes "0 \<le> active"
  shows "\<exists>q. refilled c q (prewarm_done c active now img res p) \<and> refilled c (case res of None \<Rightarrow> less_pending img p
    | Some d \<Rightarrow> put_idle (cd_container_id d) \<lparr>im_name = cd_name d, im_image = img, im_cwd = wc_default_cwd c,
        im_pooled_at = now, im_adopted = False\<rparr> (less_pending img p)) q"
  unfolding prewarm_done_def Let_def
  by (rule exI, rule conjI, rule refilled_all [OF assms]) (cases res; simp add: refilled_bump)

lemma prewarm_done_keeps:
  assumes "0 \<le> active" "pend_ok W n p" "1 \<le> W img" "1 \<le> n" "\<And>i. 0 \<le> W i" "idle_ok p" "size_ok c p"
    and "case res of None \<Rightarrow> True | Some d \<Rightarrow> dget (cp_idle_meta p) (cd_container_id d) = None"
  shows "pend_ok (\<lambda>i. W i - (if i = img then 1 else 0)) (n - 1) (prewarm_done c active now img res p)"
    "idle_ok (prewarm_done c active now img res p)" "size_ok c (prewarm_done c active now img res p)"
    "dget (cp_idle_meta (prewarm_done c active now img res p)) cid =
      (case res of Some d \<Rightarrow> if cid = cd_container_id d
         then Some \<lparr>im_name = cd_name d, im_image = img, im_cwd = wc_default_cwd c, im_pooled_at = now, im_adopted = False\<rparr>
         else dget (cp_idle_meta p) cid
       | None \<Rightarrow> dget (cp_idle_meta p) cid)"
proof -
  let ?m = "\<lambda>d. \<lparr>im_name = cd_name d, im_image = img, im_cwd = wc_default_cwd c, im_pooled_at = now, im_adopted = False\<rparr>"
  define r where "r = (case res of None \<Rightarrow> less_pending img p | Some d \<Rightarrow> put_idle (cd_container_id d) (?m d) (less_pending img p))"
  obtain q where q: "refilled c q (prewarm_done c active now img res p)" "refilled c r q"
    using prewarm_done_refills [OF assms(1), of c now img res p] unfolding r_def by blast
  then have ref: "refilled c r (prewarm_done c active now img res p)" by (rule refilled_trans [rotated])
  have idle0: "idle_ok (less_pending img p)" using assms(6) by (simp add: idle_ok_def)
  have pend: "pend_ok (\<lambda>i. W i - (if i = img then 1 else 0)) (n - 1) r"
    using less_pending_pend [OF assms(2-4)] unfolding r_def by (auto simp: pend_ok_def split: option.splits)
  have one: "1 \<le> pending_of p img" "1 \<le> cp_pending_create_count p" using assms(2-4) by (auto simp: pend_ok_def)
  have idle: "idle_ok r" using idle0 assms(8) unfolding r_def by (auto intro: put_idle_ok split: option.splits)
  have size: "size_ok c r"
  proof (cases res)
    case None
    with assms(7) one show ?thesis unfolding r_def size_ok_def total_known_def idle_and_pending_def
      by (auto simp: pending_of_less split: if_splits) (smt (verit))+
  next
    case (Some d)
    have "length (dset (cd_container_id d) (?m d) (cp_idle_meta p)) = Suc (length (cp_idle_meta p))"
      using assms(8) Some by (simp add: length_dset)
    with Some assms(7) one show ?thesis unfolding r_def size_ok_def total_known_def idle_and_pending_def
      by (auto simp: pending_of_less idle_of_put)
  qed
  from ref pend idle size show "pend_ok (\<lambda>i. W i - (if i = img then 1 else 0)) (n - 1) (prewarm_done c active now img res p)"
    "idle_ok (prewarm_done c active now img res p)" "size_ok c (prewarm_done c active now img res p)"
    using idle_ok_refilled [OF ref] by (auto simp: refilled_def)
  from ref have "cp_idle_meta (prewarm_done c active now img res p) = cp_idle_meta r" by (simp add: refilled_def)
  then show "dget (cp_idle_meta (prewarm_done c active now img res p)) cid =
      (case res of Some d \<Rightarrow> if cid = cd_container_id d then Some (?m d) else dget (cp_idle_meta p) cid
       | None \<Rightarrow> dget (cp_idle_meta p) cid)"
    by (auto simp: r_def dget_dset split: option.splits)
qed

section \<open>Invariants of the host\<close>

definition pool_part :: "pool_config \<Rightarrow> host \<Rightarrow> bool" where
  "pool_part c x = (case x of (p, A, B, T) \<Rightarrow>
     pend_ok (\<lambda>i. tally (\<lambda>t. t = Warming i) T) (tally is_warming T) p \<and> idle_ok p \<and> size_ok c p)"

definition owners :: "string \<Rightarrow> host \<Rightarrow> int" where
  \<comment> \<open>how often a container is idle, in use, or in the hands of a thread\<close>
  "owners cid x = (case x of (p, A, B, T) \<Rightarrow>
     (if dget (cp_idle_meta p) cid = None then 0 else 1) + (if cid \<in> set A then 1 else 0) + tally (possesses cid) T)"

definition owner_part :: "host \<Rightarrow> bool" where
  "owner_part x = (case x of (p, A, B, T) \<Rightarrow> distinct A \<and> (\<forall>cid. owners cid x \<le> 1 \<and> (0 < owners cid x \<longrightarrow> cid \<in> B)))"

lemma pool_part_frame:
  assumes "pool_part c (p, A, B, T)" "refilled c p p'"
    "\<And>i. tally (\<lambda>t. t = Warming i) T' = tally (\<lambda>t. t = Warming i) T" "tally is_warming T' = tally is_warming T"
  shows "pool_part c (p', A', B', T')"
  using assms idle_ok_refilled [OF assms(2)] by (simp add: pool_part_def refilled_def)

lemma warming_done:
  fixes img :: string
  shows "tally (\<lambda>t. t = Warming i) T = tally (\<lambda>t. t = Warming i) (add_mset (Warming img) T) - (if i = img then 1 else 0)"
    "tally is_warming T = tally is_warming (add_mset (Warming img) T) - 1"
    "1 \<le> tally (\<lambda>t. t = Warming img) (add_mset (Warming img) T)" "1 \<le> tally is_warming (add_mset (Warming img) T)"
  by auto

lemma pool_part_done:
  assumes "pool_part c (p, A, B, add_mset (Warming img) T)"
    and "case res of None \<Rightarrow> True | Some d \<Rightarrow> dget (cp_idle_meta p) (cd_container_id d) = None"
  shows "pool_part c (prewarm_done c (int (length A)) now img res p, A', B', T)"
proof -
  note k = assms(1) [unfolded pool_part_def prod.case]
  have "pend_ok (\<lambda>i. tally (\<lambda>t. t = Warming i) (add_mset (Warming img) T) - (if i = img then 1 else 0))
      (tally is_warming (add_mset (Warming img) T) - 1) (prewarm_done c (int (length A)) now img res p) \<and>
    idle_ok (prewarm_done c (int (length A)) now img res p) \<and> size_ok c (prewarm_done c (int (length A)) now img res p)"
    using prewarm_done_keeps(1-3) [where W = "\<lambda>i. tally (\<lambda>t. t = Warming i) (add_mset (Warming img) T)" and n = "tally is_warming (add_mset (Warming img) T)" and img = img and active = "int (length A)" and p = p and c = c and now = now and res = res] k assms(2) by simp
  then show ?thesis unfolding pool_part_def prod.case warming_done(1,2) [symmetric] .
qed

lemma fresh_unowned: "owner_part (p, A, B, T) \<Longrightarrow> cid \<notin> B \<Longrightarrow> dget (cp_idle_meta p) cid = None \<and> cid \<notin> set A \<and> tally (possesses cid) T = 0"
  unfolding owner_part_def owners_def prod.case
  by (erule conjE, drule spec [of _ cid]) (auto split: if_splits)

lemma host_step_pool: "host_step c x y \<Longrightarrow> pool_part c x \<Longrightarrow> owner_part x \<Longrightarrow> pool_part c y"
proof (induction rule: host_step.induct)
  case (hit img p cid m p' A B T)
  note f = pop_idle_found [OF _ hit(1)]
  from hit(2) show ?case unfolding pool_part_def prod.case by (simp add: f)
next
  case (dry img p p' A B T)
  then have "p' = p" by (auto simp: pool_part_def intro: pop_idle_none)
  with dry show ?case by (simp add: pool_part_def)
next
  case (worker_takes p img p' A B T)
  note f = prewarm_take_pend [OF worker_takes(1)]
  have "tally (\<lambda>t. t = Warming i) (add_mset (Warming img) T) = tally (\<lambda>t. t = Warming i) T + (if i = img then 1 else 0)" for i by auto
  with f(1) [of "\<lambda>i. tally (\<lambda>t. t = Warming i) T" "tally is_warming T"] worker_takes(2) show ?case
    unfolding pool_part_def prod.case by (simp add: f(4) idle_ok_def f(2,3) add.commute)
next
  case (warmed d B p A img T now)
  from fresh_unowned [OF warmed(3,1)] show ?case by (intro pool_part_done [OF warmed(2)]) simp
next
  case (warm_raises p A B img T now)
  then show ?case by (intro pool_part_done) simp_all
qed (erule pool_part_frame; simp add: refilled_regions refilled_all)+

lemma owner_part_frame:
  assumes "owner_part (p, A, B, T)" "B \<subseteq> B'" "distinct A'"
    "\<And>cid. owners cid (p', A', B', T') \<le> owners cid (p, A, B, T)"
  shows "owner_part (p', A', B', T')"
  using assms unfolding owner_part_def prod.case by (meson less_le_trans order_trans subsetD)

lemma owner_part_new:
  assumes "owner_part (p, A, B, T)" "n \<notin> B"
    "\<And>cid. owners cid (p', A, insert n B, T') \<le> owners cid (p, A, B, T) + (if cid = n then 1 else 0)"
  shows "owner_part (p', A, insert n B, T')"
proof -
  have "owners n (p, A, B, T) = 0" using fresh_unowned [OF assms(1,2)] by (simp add: owners_def)
  with assms(1) assms(3) show ?thesis unfolding owner_part_def prod.case
    by (auto split: if_splits) (smt (verit))+
qed

lemma owner_part_same:
  assumes "owner_part (p, A, B, T)" "cp_idle_meta p' = cp_idle_meta p" "\<And>cid. tally (possesses cid) T' \<le> tally (possesses cid) T"
  shows "owner_part (p', A, B, T')"
  by (rule owner_part_frame [OF assms(1)]) (use assms in \<open>auto simp: owners_def owner_part_def\<close>)

lemma meta_regions:
  "cp_idle_meta (warm_hit c (int n) img p) = cp_idle_meta p" "cp_idle_meta (warm_miss c (int n) img p) = cp_idle_meta p"
  "cp_idle_meta (note_released c (int n) img p) = cp_idle_meta p" "cp_idle_meta (discarded p) = cp_idle_meta p"
  "cp_idle_meta (note_created d p) = cp_idle_meta p" "cp_idle_meta (enqueue_all c (int n) p) = cp_idle_meta p"
  using refilled_regions(1-3) [of "int n" c p img] refilled_regions(4) [of c p] refilled_regions(5) [of c p d] refilled_all [of "int n" c p] by (simp_all add: refilled_def)

lemma host_step_owner: "host_step c x y \<Longrightarrow> pool_part c x \<Longrightarrow> owner_part x \<Longrightarrow> owner_part y"
proof (induction rule: host_step.induct)
  case (hit img p cid m p' A B T)
  have "idle_ok p" using hit(2) by (simp add: pool_part_def)
  note f = pop_idle_found(1,2) [OF this hit(1)]
  show ?case by (rule owner_part_frame [OF hit(3)])
    (use hit(3) in \<open>auto simp: owners_def f dget_dpop owner_part_def\<close>)
next
  case (dry img p p' A B T)
  then have "p' = p" by (auto simp: pool_part_def intro: pop_idle_none)
  show ?case by (rule owner_part_frame [OF dry(3)]) (use dry(3) \<open>p' = p\<close> in \<open>auto simp: owners_def owner_part_def\<close>)
next
  case (worker_takes p img p' A B T)
  note f = prewarm_take_pend(2) [OF worker_takes(1)]
  show ?case by (rule owner_part_frame [OF worker_takes(3)]) (use worker_takes(3) in \<open>auto simp: owners_def f owner_part_def\<close>)
next
  case (made d B p A img T)
  show ?case by (rule owner_part_new [OF made(3,1)]) (auto simp: owners_def note_created_def)
next
  case (hand_out p A B cid T)
  show ?case by (rule owner_part_frame [OF hand_out(2)]) (use hand_out(2) in \<open>auto simp: owners_def owner_part_def\<close>)
next
  case (unlist p A B cid T)
  show ?case by (rule owner_part_frame [OF unlist(2)]) (use unlist(2) in \<open>auto simp: owners_def owner_part_def\<close>)
next
  case (warmed d B p A img T now)
  have none: "dget (cp_idle_meta p) (cd_container_id d) = None" using fresh_unowned [OF warmed(3,1)] by simp
  note k = warmed(2) [unfolded pool_part_def prod.case]
  have "dget (cp_idle_meta (prewarm_done c (int (length A)) now img (Some d) p)) cid = None \<longleftrightarrow>
      cid \<noteq> cd_container_id d \<and> dget (cp_idle_meta p) cid = None" for cid
    using prewarm_done_keeps(4) [where W = "\<lambda>i. tally (\<lambda>t. t = Warming i) (add_mset (Warming img) T)" and n = "tally is_warming (add_mset (Warming img) T)" and img = img and active = "int (length A)" and p = p and c = c and now = now and res = "Some d" and cid = cid] k none by auto
  then show ?case by (intro owner_part_new [OF warmed(3,1)]) (auto simp: owners_def)
next
  case (warm_raises p A B img T now)
  note k = warm_raises(1) [unfolded pool_part_def prod.case]
  have "dget (cp_idle_meta (prewarm_done c (int (length A)) now img None p)) cid = dget (cp_idle_meta p) cid" for cid
    using prewarm_done_keeps(4) [where W = "\<lambda>i. tally (\<lambda>t. t = Warming i) (add_mset (Warming img) T)" and n = "tally is_warming (add_mset (Warming img) T)" and img = img and active = "int (length A)" and p = p and c = c and now = now and res = None and cid = cid] k by auto
  then show ?case by (intro owner_part_frame [OF warm_raises(2)]) (use warm_raises(2) in \<open>auto simp: owners_def owner_part_def\<close>)
qed (erule owner_part_same; simp add: meta_regions)+

section \<open>From the start\<close>

definition nothing_pending :: "pool_config \<Rightarrow> warm_pool \<Rightarrow> bool" where
  "nothing_pending c p = (pend_ok (\<lambda>i. 0) 0 p \<and> idle_ok p \<and> size_ok c p)"

lemma new_warm_pool_ok: "nothing_pending c (new_warm_pool images)"
  by (simp add: nothing_pending_def new_warm_pool_def pend_ok_def idle_ok_def size_ok_def total_known_def idle_and_pending_def
      idle_of_def pending_of_def dget_def_def)

lemma adopt_one_ok:
  assumes "nothing_pending c p" "adoptable c A cid img p" "\<not> full_pool c A p" "im_image m = img"
  shows "nothing_pending c (bump f (put_idle cid m p))"
proof -
  have idle: "idle_ok (put_idle cid m p)" using assms(1,2) by (intro put_idle_ok) (auto simp: nothing_pending_def adoptable_def)
  have len: "length (dset cid m (cp_idle_meta p)) = Suc (length (cp_idle_meta p))"
    using assms(2) by (simp add: adoptable_def length_dset)
  have "size_ok c (put_idle cid m p)"
    using assms len unfolding nothing_pending_def size_ok_def adoptable_def full_pool_def total_known_def has_capacity_def idle_and_pending_def
    by (auto simp: idle_of_put)
  moreover have "pend_ok (\<lambda>i. 0) 0 (put_idle cid m p)" using assms(1) by (simp add: nothing_pending_def pend_ok_def)
  ultimately have "nothing_pending c (put_idle cid m p)" using idle by (simp add: nothing_pending_def)
  with refilled_bump [of c "put_idle cid m p" f] idle_ok_refilled [OF refilled_bump [of c "put_idle cid m p" f]]
  show ?thesis by (simp add: nothing_pending_def refilled_def)
qed

lemma adopt_loop_ok:
  "nothing_pending c p \<Longrightarrow> nothing_pending c (snd (snd (adopt_loop health c A now ds w p)))"
proof (induction health c A now ds w p rule: adopt_loop.induct)
  case (2 health c A now d ds w p)
  show ?case
  proof (cases "strip (li_id d) = [] \<or> strip (li_image d) = [] \<or> strip (li_image d) \<notin> set (cp_prewarm_images p) \<or> \<not> looks_prewarmed d")
    case True
    with "2.IH"(1) [OF refl refl] "2.prems" show ?thesis by (simp add: Let_def)
  next
    case fit: False
    show ?thesis
    proof (cases "full_pool c A p \<or> \<not> adoptable c A (strip (li_id d)) (strip (li_image d)) p")
      case True
      with fit "2.IH"(2) [OF refl refl fit] "2.prems" show ?thesis by (auto simp: Let_def)
    next
      case False
      then have free: "\<not> full_pool c A p" and can: "adoptable c A (strip (li_id d)) (strip (li_image d)) p" by auto
      let ?m = "\<lparr>im_name = strip (li_names d), im_image = strip (li_image d), im_cwd = wc_default_cwd c,
                           im_pooled_at = now, im_adopted = True\<rparr>"
      let ?p = "bump (\<lambda>m. m\<lparr>pm_adopted_count := pm_adopted_count m + 1\<rparr>) (put_idle (strip (li_id d)) ?m p)"
      have ok: "nothing_pending c ?p" by (rule adopt_one_ok [OF "2.prems" can free]) simp
      obtain r w' where h: "health (strip (li_id d), wc_default_cwd c, wc_health_timeout c) w = (r, w')" by fastforce
      show ?thesis
      proof (cases r)
        case (Inl e)
        with fit free can h "2.prems" show ?thesis by (simp add: Let_def)
      next
        case (Inr b)
        show ?thesis
        proof (cases b)
          case False
          have "nothing_pending c (snd (snd (adopt_loop health c A now ds w' p)))"
            by (rule "2.IH"(4) [OF refl refl fit free]) (use can h Inr False "2.prems" in auto)
          with Inr False h fit free can show ?thesis by (simp add: Let_def)
        next
          case True
          have "nothing_pending c (snd (snd (adopt_loop health c A now ds w' ?p)))"
            by (rule "2.IH"(3) [OF refl refl fit free]) (use can h Inr True ok in auto)
          with Inr True h fit free can show ?thesis by (auto simp: Let_def split: prod.splits sum.splits)
        qed
      qed
    qed
  qed
qed simp

definition started :: "pool_config \<Rightarrow> host \<Rightarrow> bool" where
  \<comment> \<open>after \<open>start\<close>, before the first request\<close>
  "started c x = (\<exists>ps health images now w w' p B.
     start_pool ps health c [] now (w :: nat) (new_warm_pool images) = (Inr (), w', p) \<and> set (dkeys (cp_idle_meta p)) \<subseteq> B \<and> x = (p, [], B, {#}))"

lemma start_pool_ok:
  assumes "start_pool ps health c [] now w (new_warm_pool images) = (Inr (), w', p)" shows "nothing_pending c p"
proof (cases "wc_enabled c")
  case False
  with assms have "p = new_warm_pool images" by (simp add: start_pool_def)
  with new_warm_pool_ok show ?thesis by blast
next
  case True
  obtain r w1 q where q: "sync_existing ps health c [] now w (new_warm_pool images) = (r, w1, q)"
    by (cases "sync_existing ps health c [] now w (new_warm_pool images)") auto
  have "nothing_pending c q"
  proof (cases "\<exists>ds w2. sync_existing ps health c [] now w (new_warm_pool images) = adopt_loop health c [] now ds w2 (new_warm_pool images)")
    case True
    then obtain ds w2 where "adopt_loop health c [] now ds w2 (new_warm_pool images) = (r, w1, q)" using q by metis
    with adopt_loop_ok [OF new_warm_pool_ok [of c images], of health "[]" now ds w2] show ?thesis by simp
  next
    case False
    then have no: "adopt_loop health c [] now ds w2 (new_warm_pool images) \<noteq> (r, w1, q)" for ds w2 using q by metis
    with q have "q = new_warm_pool images" by (auto simp: sync_existing_def split: if_splits prod.splits sum.splits)
    with new_warm_pool_ok show ?thesis by blast
  qed
  moreover have "p = enqueue_all c 0 q" using assms True q by (auto simp: start_pool_def split: sum.splits)
  ultimately show ?thesis using refilled_all [of 0 c q] idle_ok_refilled [OF refilled_all [of 0 c q]]
    by (auto simp: nothing_pending_def refilled_def)
qed

lemma started_ok: "started c x \<Longrightarrow> pool_part c x \<and> owner_part x"
proof -
  assume "started c x"
  then obtain p B where p: "nothing_pending c p" "set (dkeys (cp_idle_meta p)) \<subseteq> B" "x = (p, [], B, {#})"
    unfolding started_def by (elim exE conjE) (drule start_pool_ok, blast)
  have "owners cid x \<le> 1 \<and> (0 < owners cid x \<longrightarrow> cid \<in> B)" for cid
  proof (cases "dget (cp_idle_meta p) cid")
    case (Some m)
    then have "cid \<in> B" using p(2) unfolding dkeys_set by blast
    with Some show ?thesis by (simp add: owners_def p(3))
  qed (simp add: owners_def p(3))
  with p show ?thesis by (simp add: pool_part_def nothing_pending_def owner_part_def)
qed

interpretation warm: stepping "started c" "host_step c" "\<lambda>x. pool_part c x \<and> owner_part x"
  by unfold_locales (simp_all add: started_ok, blast intro: host_step_pool host_step_owner)

section \<open>What the pool promises\<close>

text \<open>C25. Under every interleaving of requests, releases and the worker, the count of pending creations is exactly
  the number of queued images plus those the worker creates, in all and for each image; idle and pending containers
  never exceed the cap of the pool when there is one, nor those of an image its own limit.\<close>

theorem warm_pool_bounded:
  assumes "started c x" "(host_step c)\<^sup>*\<^sup>* x (p, A, B, T)"
  shows "cp_pending_create_count p = int (length (cp_prewarm_queue p)) + tally is_warming T \<and>
    pending_of p img = int (count_list (cp_prewarm_queue p) img) + tally (\<lambda>t. t = Warming img) T \<and>
    (0 < effective_total_cap c \<longrightarrow> total_known 0 p \<le> effective_total_cap c) \<and>
    idle_and_pending p img \<le> max 0 (wc_max_size_per_image c)"
  using warm.reachable_inv [OF assms] by (simp add: pool_part_def pend_ok_def size_ok_def)

text \<open>C24. Docker giving every new container an identifier of its own, a container is at any time in at most one place:
  in one idle queue, once; in use, once; or in the hands of one request that probes, discards or hands it out, and of
  no other.  The idle queues list exactly the containers of the idle table.  The pool is one that was started
  without waiting for it to fill up, as the server does.\<close>

theorem containers_handed_out_once:
  assumes "started c x" "(host_step c)\<^sup>*\<^sup>* x (p, A, B, T)"
  shows "(\<forall>d i. d \<in> set (idle_of p i) \<longleftrightarrow> (\<exists>m. dget (cp_idle_meta p) d = Some m \<and> im_image m = i)) \<and>
    (\<forall>i. distinct (idle_of p i)) \<and> (\<forall>d i j. d \<in> set (idle_of p i) \<longrightarrow> d \<in> set (idle_of p j) \<longrightarrow> i = j) \<and> distinct A \<and>
    (\<forall>d i. d \<in> set (idle_of p i) \<longrightarrow> d \<notin> set A \<and> tally (possesses d) T = 0) \<and>
    (\<forall>d. d \<in> set A \<longrightarrow> tally (possesses d) T = 0) \<and> (\<forall>d. tally (possesses d) T \<le> 1)"
proof -
  have inv: "idle_ok p" "owner_part (p, A, B, T)" using warm.reachable_inv [OF assms] by (simp_all add: pool_part_def)
  have one: "owners d (p, A, B, T) \<le> 1" for d using inv(2) unfolding owner_part_def prod.case by blast
  have idle: "d \<in> set (idle_of p i) \<longleftrightarrow> (\<exists>m. dget (cp_idle_meta p) d = Some m \<and> im_image m = i)" for d i
    using inv(1) by (simp add: idle_ok_def)
  have free: "dget (cp_idle_meta p) d \<noteq> None \<Longrightarrow> d \<notin> set A \<and> tally (possesses d) T = 0"
    "d \<in> set A \<Longrightarrow> tally (possesses d) T = 0" for d using one [of d] by (auto simp: owners_def split: if_splits)
  have single: "tally (possesses d) T \<le> 1" for d
    by (rule order_trans [OF _ one [of d]]) (simp add: owners_def)
  have "distinct A" using inv(2) by (simp add: owner_part_def)
  moreover have "\<forall>i. distinct (idle_of p i)" using inv(1) by (simp add: idle_ok_def)
  moreover have "\<forall>d i j. d \<in> set (idle_of p i) \<longrightarrow> d \<in> set (idle_of p j) \<longrightarrow> i = j" using idle by force
  moreover have "\<forall>d i. d \<in> set (idle_of p i) \<longrightarrow> d \<notin> set A \<and> tally (possesses d) T = 0" using idle free(1) by (metis option.distinct(1))
  ultimately show ?thesis using idle free(2) single by blast
qed

text \<open>
  The cap does not count a container between its being popped and its entry into the table: a warm hit on a full
  pool orders a replacement, and the host ends up with more containers than the cap.
\<close>

definition demo_warm_config :: pool_config where
  "demo_warm_config = \<lparr>wc_enabled = True, wc_max_size_per_image = 4, wc_max_total_size = 1, wc_default_cwd = ''/testbed'',
     wc_create_timeout = 1200, wc_health_timeout = 10, wc_prewarm_ratio = 1, wc_prewarm_max_concurrency = 0, wc_node_max = 0\<rparr>"

definition demo_created :: "string \<Rightarrow> real \<Rightarrow> created" where
  "demo_created cid t = \<lparr>cd_container_id = cid, cd_name = ''swe-'' @ cid, cd_create_time = t\<rparr>"

definition demo_start :: warm_pool where
  "demo_start = snd (snd (start_pool (\<lambda>t w. (Inr [], w)) (\<lambda>q w. (Inr True, w)) demo_warm_config [] 0 (0 :: nat) (new_warm_pool [''img''])))"

definition demo_warm :: warm_pool where
  \<comment> \<open>the worker has created \<open>c1\<close>\<close>
  "demo_warm = prewarm_done demo_warm_config 0 5 ''img'' (Some (demo_created ''c1'' 10)) (snd (the (prewarm_take demo_start)))"

definition demo_popped :: warm_pool where
  "demo_popped = snd (pop_idle ''img'' demo_warm)"

lemma warm_hit_passes_cap:
  "effective_total_cap demo_warm_config = 1 \<and> total_known 0 demo_warm = 1 \<and>
   total_known 1 (warm_hit demo_warm_config 0 ''img'' demo_popped) = 2"
  by code_simp

text \<open>The average creation time divides the time of all creations by the number of those made on demand.\<close>

lemma average_counts_prewarms:
  "avg_create_time (cp_metrics (note_created (demo_created ''c2'' 2) demo_warm)) = 12"
  by code_simp

lemma demo_started: "started demo_warm_config (demo_start, [], {}, {#})"
proof -
  let ?r = "start_pool (\<lambda>t w. (Inr [], w)) (\<lambda>q w. (Inr True, w)) demo_warm_config [] 0 (0 :: nat) (new_warm_pool [''img''])"
  have "?r = (Inr (), fst (snd ?r), demo_start)" unfolding demo_start_def by (simp add: start_pool_def sync_existing_def split: sum.splits)
  moreover have "set (dkeys (cp_idle_meta demo_start)) \<subseteq> {}" by code_simp
  ultimately show ?thesis unfolding started_def by blast
qed

lemma demo_warmed: "(host_step demo_warm_config)\<^sup>*\<^sup>* (demo_start, [], {}, {#}) (demo_warm, [], {''c1''}, {#})"
proof -
  let ?p = "snd (the (prewarm_take demo_start))"
  have "map_option fst (prewarm_take demo_start) = Some ''img''" by code_simp
  then have take: "prewarm_take demo_start = Some (''img'', ?p)" by (cases "prewarm_take demo_start") auto
  have "host_step demo_warm_config (?p, [], {}, {#Warming ''img''#}) (demo_warm, [], {''c1''}, {#})"
    using host_step.warmed [of "demo_created ''c1'' 10" "{}" demo_warm_config ?p "[]" "''img''" "{#}" 5]
    by (simp add: demo_warm_def demo_created_def)
  with host_step.worker_takes [OF take, of demo_warm_config "[]" "{}" "{#}"]
  show ?thesis by (meson converse_rtranclp_into_rtranclp r_into_rtranclp)
qed

lemma demo_holding: "(host_step demo_warm_config)\<^sup>*\<^sup>* (demo_start, [], {}, {#})
    (warm_hit demo_warm_config 0 ''img'' demo_popped, [], {''c1''}, {#Holding ''c1''#})"
proof -
  have "map_option fst (fst (pop_idle ''img'' demo_warm)) = Some ''c1''" by code_simp
  then obtain m where pop: "pop_idle ''img'' demo_warm = (Some (''c1'', m), demo_popped)"
    by (cases "pop_idle ''img'' demo_warm") (auto simp: demo_popped_def)
  note ask = host_step.ask [of demo_warm_config demo_warm "[]" "{''c1''}" "{#}" "''img''"]
  note hit = host_step.hit [OF pop, of demo_warm_config "[]" "{''c1''}" "{#}"]
  have "host_step demo_warm_config (demo_popped, [], {''c1''}, {#Checking ''c1'' ''img''#})
      (warm_hit demo_warm_config 0 ''img'' demo_popped, [], {''c1''}, {#Holding ''c1''#})"
    using host_step.well [of demo_warm_config demo_popped "[]" "{''c1''}" "''c1''" "''img''" "{#}"] by simp
  with demo_warmed ask hit show ?thesis by (meson rtranclp.rtrancl_into_rtrancl)
qed

lemma warm_pool_bounded_witness:
  "idle_and_pending (warm_hit demo_warm_config 0 ''img'' demo_popped) ''img'' \<le> 4"
  using warm_pool_bounded [OF demo_started demo_holding, of "''img''"] by (simp add: demo_warm_config_def)

lemma containers_handed_out_once_witness: "''c1'' \<notin> set (idle_of (warm_hit demo_warm_config 0 ''img'' demo_popped) ''img'')"
proof
  assume "''c1'' \<in> set (idle_of (warm_hit demo_warm_config 0 ''img'' demo_popped) ''img'')"
  then have "tally (possesses ''c1'') {#Holding ''c1''#} = 0" using containers_handed_out_once [OF demo_started demo_holding] by blast
  then show False by simp
qed

text \<open>
  Waiting in \<open>warmup\<close> for the pool to fill up, which the server does not do, would break this: the wait adopts running
  containers beside the worker.  Below, two slots are filled, one container is taken by a request of another image and one by
  a request of the pool's image, and both are given back, so there is room; the worker's container already runs when it is
  adopted, and is queued a second time when the worker is done.
\<close>

definition two_slots :: pool_config where
  "two_slots = demo_warm_config\<lparr>wc_max_total_size := 2\<rparr>"

definition room_beside_worker :: warm_pool where
  \<comment> \<open>the worker is creating \<open>c1\<close>\<close>
  "room_beside_worker =
     (let p0 = snd (snd (start_pool (\<lambda>t w. (Inr [], w)) (\<lambda>q w. (Inr True, w)) two_slots [] 0 (0 :: nat) (new_warm_pool [''img''])));
          p1 = prewarm_done two_slots 0 1 ''img'' (Some (demo_created ''c0'' 10)) (snd (the (prewarm_take p0)));
          p2 = note_created (demo_created ''f'' 9) (warm_miss two_slots 0 ''other'' p1);
          p3 = warm_hit two_slots 1 ''img'' (snd (pop_idle ''img'' p2));
          p4 = snd (the (prewarm_take p3))
      in note_released two_slots 1 ''img'' (note_released two_slots 2 ''other'' p4))"

definition running_c1 :: listed where
  "running_c1 = \<lparr>li_id = ''c1'', li_image = ''img'', li_names = ''swe-c1'', li_command = ''sleep infinity''\<rparr>"

lemma blocking_warmup_doubles:
  "idle_of (prewarm_done two_slots 0 3 ''img'' (Some (demo_created ''c1'' 10))
     (snd (snd (sync_existing (\<lambda>t w. (Inr [running_c1], w)) (\<lambda>q w. (Inr True, w)) two_slots [] 2 (0 :: nat) room_beside_worker)))) ''img'' = [''c1'', ''c1'']"
  by code_simp

section \<open>Requests one after the other\<close>

lemma pop_idle_Cons:
  assumes "idle_ok p" "idle_of p img = cid # q"
  obtains m p' where "pop_idle img p = (Some (cid, m), p')" "dget (cp_idle_meta p) cid = Some m" "idle_of p' img = q"
    "cp_metrics p' = cp_metrics p" "idle_ok p'"
proof -
  obtain m where m: "dget (cp_idle_meta p) cid = Some m" using assms unfolding idle_ok_def by (metis list.set_intros(1))
  let ?p = "snd (pop_idle img p)"
  have pop: "pop_idle img p = (Some (cid, m), ?p)" using assms(2) m by (simp add: pop_idle_def)
  have "idle_of ?p img = q" "cp_metrics ?p = cp_metrics p"
    using assms(2) by (auto simp: pop_idle_def idle_of_def)
  with that [OF pop m] pop_idle_found(3) [OF assms(1) pop] show ?thesis by blast
qed

lemma warm_hit_metrics:
  "pm_unhealthy_discard_count (cp_metrics (warm_hit c active img p)) = pm_unhealthy_discard_count (cp_metrics p)"
proof -
  let ?q = "bump (\<lambda>m. m\<lparr>pm_reused_count := pm_reused_count m + 1\<rparr>) p"
  have "enqueue_prewarm c active (Some img) ?q = (fst (enqueue_prewarm c active (Some img) ?q), warm_hit c active img p)"
    by (simp add: warm_hit_def refill_one_def)
  then show ?thesis by (cases rule: enqueue_prewarm_cases) (auto simp: add_pending_def bump_def)
qed

text \<open>A request that succeeds in the idle queue of its image takes the first container that passes the probe, in the
  order in which they were created or adopted; those before it failed the probe and were destroyed, the others stay.
  It finds none only when it has tried and destroyed all of them.\<close>

theorem acquire_takes_first_healthy:
  assumes "acquire_warm health destroy c active img w p = (Inr r, w', p')" "idle_ok p" "0 \<le> active"
  shows "case r of
      Some (cid, m) \<Rightarrow> \<exists>bad. idle_of p img = bad @ cid # idle_of p' img \<and> dget (cp_idle_meta p) cid = Some m \<and>
        pm_unhealthy_discard_count (cp_metrics p') = pm_unhealthy_discard_count (cp_metrics p) + int (length bad) \<and>
        (\<exists>v. fst (health (cid, im_cwd m, wc_health_timeout c) v) = Inr True)
    | None \<Rightarrow> idle_of p' img = [] \<and> pm_unhealthy_discard_count (cp_metrics p') =
        pm_unhealthy_discard_count (cp_metrics p) + int (length (idle_of p img))"
  using assms
proof (induction health destroy c active img w p rule: acquire_warm.induct)
  case (1 health destroy c active img w p)
  note eq = "1.prems"(1) [unfolded acquire_warm.simps [of health destroy c active img w p]]
  show ?case
  proof (cases "idle_of p img")
    case Nil
    with eq show ?thesis by (auto simp: pop_idle_def)
  next
    case (Cons cid q)
    obtain m p1 where pop: "pop_idle img p = (Some (cid, m), p1)" "dget (cp_idle_meta p) cid = Some m" "idle_of p1 img = q"
      "cp_metrics p1 = cp_metrics p" "idle_ok p1" by (rule pop_idle_Cons [OF "1.prems"(2) Cons])
    obtain h w1 where h: "health (cid, im_cwd m, wc_health_timeout c) w = (h, w1)" by fastforce
    show ?thesis
    proof (cases h)
      case (Inl e)
      with eq pop h show ?thesis by simp
    next
      case (Inr b)
      show ?thesis
      proof (cases b)
        case True
        with eq pop h Inr have r: "r = Some (cid, m)" "p' = warm_hit c active img p1" by auto
        have "idle_of p' img = q" using refilled_regions(1) [OF "1.prems"(3), of c p1 img] pop(3) unfolding r by (simp add: refilled_def)
        with r pop Cons h Inr True show ?thesis by (auto simp: warm_hit_metrics intro!: exI [of _ "[]"] exI [of _ w])
      next
        case False
        obtain d w2 where d: "destroy cid w1 = (d, w2)" by fastforce
        with eq pop h Inr False obtain u where u: "d = Inr u" "acquire_warm health destroy c active img w2 (discarded p1) = (Inr r, w', p')"
          by (cases d) auto
        have ok: "idle_ok (discarded p1)" using pop(5) idle_ok_refilled [OF refilled_regions(4)] by blast
        have mono: "dget (cp_idle_meta (discarded p1)) x = Some y \<Longrightarrow> dget (cp_idle_meta p) x = Some y" for x y
          using pop_idle_found(2) [OF "1.prems"(2) pop(1)] by (simp add: discarded_def dget_dpop split: if_splits)
        have left: "idle_of (discarded p1) img = q" "pm_unhealthy_discard_count (cp_metrics (discarded p1)) = pm_unhealthy_discard_count (cp_metrics p) + 1"
          using pop(3,4) by (simp_all add: discarded_def bump_def idle_of_def)
        from "1.IH" [OF pop(1) [symmetric] refl refl h [symmetric] Inr _ d [symmetric] u(1) u(2) ok "1.prems"(3)] False
        have ih: "case r of Some (cid, m) \<Rightarrow> \<exists>bad. q = bad @ cid # idle_of p' img \<and> dget (cp_idle_meta (discarded p1)) cid = Some m \<and>
            pm_unhealthy_discard_count (cp_metrics p') = pm_unhealthy_discard_count (cp_metrics p) + 1 + int (length bad) \<and>
            (\<exists>v. fst (health (cid, im_cwd m, wc_health_timeout c) v) = Inr True)
          | None \<Rightarrow> idle_of p' img = [] \<and> pm_unhealthy_discard_count (cp_metrics p') = pm_unhealthy_discard_count (cp_metrics p) + 1 + int (length q)"
          unfolding left by simp
        show ?thesis
        proof (cases r)
          case (Some x)
          obtain k n where x: "x = (k, n)" by fastforce
          from ih Some x obtain bad where bad: "q = bad @ k # idle_of p' img" "dget (cp_idle_meta (discarded p1)) k = Some n"
            "pm_unhealthy_discard_count (cp_metrics p') = pm_unhealthy_discard_count (cp_metrics p) + 1 + int (length bad)"
            "\<exists>v. fst (health (k, im_cwd n, wc_health_timeout c) v) = Inr True" by auto
          with Some x Cons mono show ?thesis by (auto intro!: exI [of _ "cid # bad"])
        qed (use ih Cons in simp)
      qed
    qed
  qed
qed

lemma acquire_takes_first_healthy_witness:
  "\<exists>m. dget (cp_idle_meta demo_warm) ''c1'' = Some m"
proof -
  let ?r = "acquire_warm (\<lambda>q w. (Inr True, w)) (\<lambda>q w. (Inr (), w)) demo_warm_config 0 ''img'' (0 :: nat) demo_warm"
  have id: "(case fst ?r of Inl e \<Rightarrow> None | Inr r \<Rightarrow> map_option fst r) = Some ''c1''" by code_simp
  then obtain m where run: "?r = (Inr (Some (''c1'', m)), fst (snd ?r), snd (snd ?r))"
    by (cases ?r) (auto split: sum.splits option.splits)
  have "idle_ok demo_warm" using warm.reachable_inv [OF demo_started demo_warmed] by (simp add: pool_part_def)
  from acquire_takes_first_healthy [OF run this] show ?thesis by auto
qed

end
