(* ===== verification/Exec_Docker.thy ===== *)
theory Exec_Docker
  imports Exec_Warm_Pool Exec_Checkpoints
begin

text \<open>
  The docker commands the exec server runs (swe_exec_server.py), the runtime state that travels with
  a checkpoint, and the faults that can be injected.  Docker itself is a transport: from a command
  line, its standard input and a timeout to an exit code with two texts, or a raised timeout.
  Encoding and decoding JSON are arguments of the operations that use them.
\<close>

section \<open>Commands\<close>

record docker_req =
  dq_args :: "string list"
  dq_input :: "string option"
  dq_timeout :: real

record docker_res =
  dr_code :: int
  dr_stdout :: string
  dr_stderr :: string

type_synonym 'w docker = "('w, docker_req, docker_res) transport"

definition run_docker :: "'w docker \<Rightarrow> string list \<Rightarrow> real \<Rightarrow> 'w \<Rightarrow> docker_res res \<times> 'w" where
  "run_docker d args timeout = d \<lparr>dq_args = args, dq_input = None, dq_timeout = timeout\<rparr>"

definition first_text :: "string \<Rightarrow> string \<Rightarrow> string" where
  \<comment> \<open>\<open>a or b\<close>\<close>
  "first_text a b = (if a = [] then b else a)"

definition proxy_names :: "string list" where
  "proxy_names = [''HTTP_PROXY'', ''HTTPS_PROXY'', ''NO_PROXY'', ''ALL_PROXY'', ''http_proxy'', ''https_proxy'', ''no_proxy'', ''all_proxy'']"

definition proxy_env_args :: "(string \<Rightarrow> string) \<Rightarrow> string list" where
  \<comment> \<open>\<open>getenv\<close>: the environment of the server, empty where a name is not set\<close>
  "proxy_env_args getenv =
     concat (map (\<lambda>n. let v = strip (getenv n) in if v = [] then [] else [''-e'', n @ ''='' @ v]) proxy_names)"

definition create_args :: "(string \<Rightarrow> string) \<Rightarrow> string \<Rightarrow> string \<Rightarrow> string \<Rightarrow> string list" where
  "create_args getenv img cwd name =
     [''--name'', name, ''--network'', ''host''] @ proxy_env_args getenv @
     [''-w'', cwd, ''--pids-limit'', ''256'', ''--memory'', ''4g'', img, ''sleep'', ''infinity'']"

definition create_container :: "'w docker \<Rightarrow> (string \<Rightarrow> string) \<Rightarrow> string \<Rightarrow> real \<Rightarrow> string \<times> string \<times> int \<Rightarrow> 'w \<Rightarrow> created res \<times> 'w" where
  \<comment> \<open>\<open>uid\<close>: the 12 hex digits of a fresh UUID; \<open>elapsed\<close>: how long docker takes\<close>
  "create_container d getenv uid elapsed q w =
     (case q of (img, cwd, timeout) \<Rightarrow>
       (let name = ''swe-'' @ uid
        in case run_docker d ([''run'', ''-d''] @ create_args getenv img cwd name) (of_int timeout) w of
             (Inl e, w') \<Rightarrow> (Inl e, w')
           | (Inr r, w') \<Rightarrow>
               (if dr_code r \<noteq> 0 then (Inl (RuntimeError (first_text (strip (dr_stderr r)) (''docker run failed for '' @ img))), w')
                else (Inr \<lparr>cd_container_id = strip (dr_stdout r), cd_name = name, cd_create_time = elapsed\<rparr>, w'))))"

definition destroy_container :: "'w docker \<Rightarrow> real \<Rightarrow> string \<Rightarrow> 'w \<Rightarrow> unit res \<times> 'w" where
  "destroy_container d timeout cid w =
     (case run_docker d [''rm'', ''-f'', cid] timeout w of
        (Inl e, w') \<Rightarrow> (Inl e, w')
      | (Inr r, w') \<Rightarrow>
          (if dr_code r = 0 then (Inr (), w')
           else (let err = strip (if dr_stdout r \<noteq> [] \<and> dr_stderr r \<noteq> [] then dr_stdout r @ [CHR 0x0A] @ dr_stderr r
                                  else dr_stdout r @ dr_stderr r)
                 in if contains ''no such container'' (lower err) then (Inr (), w')
                    else (Inl (RuntimeError (first_text err (''docker rm -f failed for '' @ cid))), w'))))"

definition is_running :: "'w docker \<Rightarrow> string \<Rightarrow> real \<Rightarrow> 'w \<Rightarrow> bool res \<times> 'w" where
  "is_running d cid timeout w =
     (case run_docker d [''inspect'', ''-f'', ''{{.State.Running}}'', cid] timeout w of
        (Inl e, w') \<Rightarrow> (Inl e, w')
      | (Inr r, w') \<Rightarrow> (Inr (dr_code r = 0 \<and> lower (strip (dr_stdout r)) = ''true''), w'))"

definition is_healthy :: "'w docker \<Rightarrow> string \<times> string \<times> int \<Rightarrow> 'w \<Rightarrow> bool res \<times> 'w" where
  "is_healthy d q w =
     (case q of (cid, cwd, timeout) \<Rightarrow>
       (case is_running d cid (of_int timeout) w of
          (Inl e, w') \<Rightarrow> (Inl e, w')
        | (Inr False, w') \<Rightarrow> (Inr False, w')
        | (Inr True, w') \<Rightarrow>
            (case run_docker d [''exec'', ''-w'', cwd, cid, ''bash'', ''-lc'', ''pwd >/dev/null && test -d .''] (of_int timeout) w' of
               (Inl e, w'') \<Rightarrow> (Inl e, w'')
             | (Inr r, w'') \<Rightarrow> (Inr (dr_code r = 0), w''))))"

fun split_lines :: "string \<Rightarrow> string list" where
  \<comment> \<open>\<open>splitlines\<close> of a text whose lines end with a newline\<close>
  "split_lines [] = []"
| "split_lines (c # s) =
     (if c = CHR 0x0A then [] # split_lines s
      else case split_lines s of [] \<Rightarrow> [[c]] | l # ls \<Rightarrow> (c # l) # ls)"

definition list_running :: "'w docker \<Rightarrow> (string \<Rightarrow> listed option) \<Rightarrow> int \<Rightarrow> 'w \<Rightarrow> listed list res \<times> 'w" where
  \<comment> \<open>\<open>parse\<close>: a line as a JSON object, \<open>None\<close> if it is none\<close>
  "list_running d parse timeout w =
     (case run_docker d [''ps'', ''--no-trunc'', ''--format'', ''{{json .}}''] (of_int timeout) w of
        (Inl e, w') \<Rightarrow> (Inl e, w')
      | (Inr r, w') \<Rightarrow>
          (if dr_code r \<noteq> 0 then (Inl (RuntimeError (first_text (strip (dr_stderr r)) ''docker ps failed'')), w')
           else (Inr (List.map_filter parse (filter (\<lambda>l. l \<noteq> []) (map strip (split_lines (dr_stdout r))))), w')))"

definition image_size :: "'w docker \<Rightarrow> string \<Rightarrow> 'w \<Rightarrow> int option res \<times> 'w" where
  "image_size d img w =
     (case run_docker d [''image'', ''inspect'', ''-f'', ''{{.Size}}'', img] 30 w of
        (Inl e, w') \<Rightarrow> (Inl e, w')
      | (Inr r, w') \<Rightarrow>
          (let t = strip (dr_stdout r)
           in (Inr (if dr_code r = 0 \<and> all_digits t then Some (int (nat_of_digits t)) else None), w')))"

definition list_images :: "'w docker \<Rightarrow> 'w \<Rightarrow> (string + string list) res \<times> 'w" where
  \<comment> \<open>the route \<open>/images\<close>: the error text of docker, or the images\<close>
  "list_images d w =
     (case run_docker d [''images'', ''--format'', ''{{.Repository}}:{{.Tag}}''] 30 w of
        (Inl e, w') \<Rightarrow> (Inl e, w')
      | (Inr r, w') \<Rightarrow>
          (if dr_code r \<noteq> 0 then (Inr (Inl (dr_stderr r)), w')
           else (Inr (Inr (filter (\<lambda>l. l \<noteq> []) (map strip (split_lines (strip (dr_stdout r)))))), w')))"

section \<open>The runtime state of a checkpoint\<close>

definition env_whitelist :: "string list" where
  "env_whitelist = [''PATH'', ''PYTHONPATH'', ''VIRTUAL_ENV'', ''CONDA_PREFIX'']"

definition normalize_env :: "(string, string jfield) dict \<Rightarrow> (string, string) dict" where
  \<comment> \<open>a value that is not a text is its \<open>str\<close>\<close>
  "normalize_env raw =
     List.map_filter (\<lambda>k. case dget raw k of Some (Val (c # cs)) \<Rightarrow> Some (k, c # cs) | _ \<Rightarrow> None) env_whitelist"

definition vals :: "(string, string) dict \<Rightarrow> (string, string jfield) dict" where
  "vals env = map (\<lambda>(k, v). (k, Val v)) env"

record python_runtime =
  py_executable :: string
  py_venv_activate :: string
  py_conda_env :: string

definition derive_python :: "(string, string) dict \<Rightarrow> python_runtime" where
  "derive_python env =
     (let venv = strip (dget_def env ''VIRTUAL_ENV'' []); conda = strip (dget_def env ''CONDA_PREFIX'' [])
      in \<lparr>py_executable = (if venv \<noteq> [] then venv @ ''/bin/python'' else if conda \<noteq> [] then conda @ ''/bin/python'' else []),
          py_venv_activate = (if venv \<noteq> [] then venv @ ''/bin/activate'' else []), py_conda_env = conda\<rparr>)"

record runtime_state =
  rs_checkpoint_id :: string
  rs_parent_id :: "string option"
  rs_lease_id :: string
  rs_instance_id :: string
  rs_step_idx :: int
  rs_command_seq :: int
  rs_repo_path :: "string option"
  rs_cwd :: "string option"
  rs_env :: "(string, string jfield) dict"
  rs_python :: "python_runtime option"
  rs_phase :: string
  rs_last_action_id :: string

definition build_runtime_state :: "ckpt_record \<Rightarrow> (string, string) dict \<Rightarrow> runtime_state" where
  \<comment> \<open>the progress entry reads the command number as \<open>int(record.get("command_seq", -1) or -1)\<close>\<close>
  "build_runtime_state r env =
     \<lparr>rs_checkpoint_id = kr_checkpoint_id r, rs_parent_id = kr_parent_id r, rs_lease_id = kr_lease_id r,
      rs_instance_id = kr_instance_id r, rs_step_idx = (case kr_step_idx r of None \<Rightarrow> -1 | Some i \<Rightarrow> i),
      rs_command_seq = kr_command_seq r, rs_repo_path = Some (kr_cwd r), rs_cwd = Some (kr_cwd r), rs_env = vals env,
      rs_python = Some (derive_python env), rs_phase = kr_reason r,
      rs_last_action_id = (let n = (if kr_command_seq r = 0 then -1 else kr_command_seq r)
                           in if 0 \<le> n then ''cmd-'' @ str_int n else [])\<rparr>"

definition shell_safe :: "char \<Rightarrow> bool" where
  "shell_safe c = (is_digit c \<or> (65 \<le> code_of c \<and> code_of c \<le> 90) \<or> (97 \<le> code_of c \<and> code_of c \<le> 122) \<or> c \<in> set ''_@%+=:,./-'')"

definition shell_quote :: "string \<Rightarrow> string" where
  \<comment> \<open>\<open>shlex.quote\<close>\<close>
  "shell_quote s =
     (if s = [] then [CHR 0x27, CHR 0x27] else if list_all shell_safe s then s
      else [CHR 0x27] @ concat (map (\<lambda>c. if c = CHR 0x27 then [CHR 0x27, CHR 0x22, CHR 0x27, CHR 0x22, CHR 0x27] else [c]) s) @ [CHR 0x27])"

definition runtime_dir :: "string \<Rightarrow> string" where
  "runtime_dir ckpt_id = ''/tmp/swe-runtime-checkpoints/'' @ ckpt_id"

definition runtime_file :: "string \<Rightarrow> string" where
  "runtime_file ckpt_id = runtime_dir ckpt_id @ ''/runtime.json''"

definition probe_command :: string where
  "probe_command = ''python3 -c '' @ [CHR 0x22] @ ''import json, os; keys=('' @
     concat (map (\<lambda>k. [CHR 0x27] @ k @ [CHR 0x27] @ (if k = ''CONDA_PREFIX'' then [] else '','')) env_whitelist) @
     ''); print(json.dumps({k: os.environ.get(k, '' @ [CHR 0x27, CHR 0x27] @ '') for k in keys}))'' @ [CHR 0x22]"

definition env_args :: "(string, string) dict \<Rightarrow> string list" where
  "env_args env = concat (map (\<lambda>(k, v). [''-e'', k @ ''='' @ v]) env)"

definition probe_runtime_env :: "'w docker \<Rightarrow> (string \<Rightarrow> (string, string jfield) dict res) \<Rightarrow> string \<Rightarrow> string \<Rightarrow>
    (string, string) dict \<Rightarrow> 'w \<Rightarrow> (string, string) dict res \<times> 'w" where
  "probe_runtime_env d loads_env cid cwd env w =
     (case run_docker d ([''exec'', ''-w'', cwd] @ env_args env @ [cid, ''bash'', ''-lc'', probe_command]) 30 w of
        (Inl e, w') \<Rightarrow> (Inl e, w')
      | (Inr r, w') \<Rightarrow>
          (if dr_code r \<noteq> 0 then (Inl (RuntimeError (first_text (strip (dr_stderr r)) (''failed to probe runtime env for '' @ cid))), w')
           else case loads_env (first_text (dr_stdout r) ''{}'') of
                  Inl e \<Rightarrow> (Inl e, w')
                | Inr raw \<Rightarrow> (Inr (dmerge (normalize_env raw) (normalize_env (vals env))), w')))"

definition capture_runtime_state :: "'w docker \<Rightarrow> (runtime_state \<Rightarrow> string) \<Rightarrow> string \<Rightarrow> string \<Rightarrow> runtime_state \<Rightarrow> 'w \<Rightarrow> unit res \<times> 'w" where
  "capture_runtime_state d dumps cid ckpt_id st w =
     (case d \<lparr>dq_args = [''exec'', ''-i'', cid, ''bash'', ''-lc'',
               ''mkdir -p '' @ shell_quote (runtime_dir ckpt_id) @ '' && cat > '' @ shell_quote (runtime_file ckpt_id)],
             dq_input = Some (dumps st), dq_timeout = 60\<rparr> w of
        (Inl e, w') \<Rightarrow> (Inl e, w')
      | (Inr r, w') \<Rightarrow>
          (if dr_code r = 0 then (Inr (), w')
           else (Inl (RuntimeError (first_text (strip (dr_stderr r)) (''failed to write runtime state for '' @ ckpt_id))), w')))"

definition load_runtime_state :: "'w docker \<Rightarrow> (string \<Rightarrow> runtime_state res) \<Rightarrow> string \<Rightarrow> string \<Rightarrow> 'w \<Rightarrow> runtime_state res \<times> 'w" where
  "load_runtime_state d loads cid ckpt_id w =
     (case run_docker d [''exec'', cid, ''bash'', ''-lc'', ''cat '' @ shell_quote (runtime_file ckpt_id)] 30 w of
        (Inl e, w') \<Rightarrow> (Inl e, w')
      | (Inr r, w') \<Rightarrow>
          (if dr_code r = 0 then (loads (first_text (dr_stdout r) ''{}''), w')
           else (Inl (RuntimeError (first_text (strip (dr_stderr r)) (''missing runtime state for '' @ ckpt_id))), w')))"

definition text_of :: "string jfield option \<Rightarrow> string" where
  "text_of v = (case v of Some (Val s) \<Rightarrow> s | _ \<Rightarrow> [])"

definition restore_checks :: "runtime_state \<Rightarrow> string list" where
  "restore_checks st =
     (let cwd = (case rs_cwd st of None \<Rightarrow> [] | Some s \<Rightarrow> s);
          repo = (case rs_repo_path st of None \<Rightarrow> [] | Some s \<Rightarrow> s);
          py = (case rs_python st of None \<Rightarrow> [] | Some p \<Rightarrow> py_executable p);
          venv = text_of (dget (rs_env st) ''VIRTUAL_ENV''); conda = text_of (dget (rs_env st) ''CONDA_PREFIX'');
          dir = (\<lambda>p. ''test -d '' @ shell_quote p)
      in (if cwd \<noteq> [] then [dir cwd] else []) @ (if repo \<noteq> [] \<and> repo \<noteq> cwd then [dir repo] else []) @
         (if venv \<noteq> [] then [dir venv] else []) @ (if conda \<noteq> [] then [dir conda] else []) @
         (if py \<noteq> [] then [''test -x '' @ shell_quote py, shell_quote py @ '' -V >/dev/null''] else []))"

fun join_with :: "string \<Rightarrow> string list \<Rightarrow> string" where
  "join_with sep [] = []"
| "join_with sep [s] = s"
| "join_with sep (s # t # ss) = s @ sep @ join_with sep (t # ss)"

definition validate_restore :: "'w docker \<Rightarrow> string \<Rightarrow> runtime_state \<Rightarrow> 'w \<Rightarrow> unit res \<times> 'w" where
  "validate_restore d cid st w =
     (if restore_checks st = [] then (Inr (), w)
      else case run_docker d [''exec'', cid, ''bash'', ''-lc'', join_with '' && '' (restore_checks st)] 30 w of
             (Inl e, w') \<Rightarrow> (Inl e, w')
           | (Inr r, w') \<Rightarrow>
               (if dr_code r = 0 then (Inr (), w')
                else (Inl (RuntimeError (first_text (strip (dr_stderr r)) ''runtime restore validation failed'')), w')))"

section \<open>Injected faults\<close>

record fault_spec =
  fs_phase :: string
  fs_delay :: real
  fs_tag :: string

record raw_spec =
  rw_is_object :: bool
  rw_phase :: "string jfield"
  rw_delay :: "(string + real) jfield"    \<comment> \<open>a text that is not a number, or a number\<close>
  rw_tag :: "string jfield"

definition normalize_fault_spec :: "string list \<Rightarrow> raw_spec option \<Rightarrow> fault_spec option res" where
  \<comment> \<open>the allowed phases in sorted order\<close>
  "normalize_fault_spec allowed raw =
     (case raw of
        None \<Rightarrow> Inr None
      | Some s \<Rightarrow>
          (if \<not> rw_is_object s then Inl (ValueError ''fault_injection_spec must be a JSON object'')
           else let phase = strip (jstr (rw_phase s))
                in if phase = [] then Inl (ValueError ''fault_injection_spec.phase is required'')
                   else if phase \<notin> set allowed
                   then Inl (ValueError (''unsupported fault injection phase: '' @ phase @ '' (allowed: '' @ join_with '', '' allowed @ '')''))
                   else case rw_delay s of
                          Val (Inl t) \<Rightarrow>
                            (if t = [] then Inr (Some \<lparr>fs_phase = phase, fs_delay = 0, fs_tag = strip (jstr (rw_tag s))\<rparr>)
                             else Inl (ValueError ''fault_injection_spec.delay_sec must be numeric''))
                        | Val (Inr x) \<Rightarrow> Inr (Some \<lparr>fs_phase = phase, fs_delay = max 0 x, fs_tag = strip (jstr (rw_tag s))\<rparr>)
                        | _ \<Rightarrow> Inr (Some \<lparr>fs_phase = phase, fs_delay = 0, fs_tag = strip (jstr (rw_tag s))\<rparr>)))"

definition exec_fault_phases :: "string list" where
  "exec_fault_phases = [''before_action'', ''mid_action'']"

definition checkpoint_fault_phases :: "string list" where
  "checkpoint_fault_phases = [''after_commit_before_ready'', ''before_commit'']"

end
