(* ===== verification/Exec_Containers.thy ===== *)
theory Exec_Containers
  imports Exec_Docker Pool_Routes
begin

text \<open>
  The exec server's table of containers in use and its routes on containers: create, exec, diff,
  destroy, fault injection.  A handler runs from the request to the reply; the gates and sections it
  passes through are modelled in Exec_Gates, threads of the pool in Exec_Warm_Threads.
\<close>

section \<open>The server\<close>

record exec_cfg =
  xc_pool :: pool_config
  xc_checkpoint_enabled :: bool
  xc_checkpoint_dir :: string
  xc_checkpoint_backend :: string
  xc_create_timeout :: int
  xc_state_root :: string
  xc_docker_root :: string
  xc_staging_root :: string
  xc_criu_timeout :: int
  xc_cooldown :: real
  xc_min_ready_latency :: real
  xc_fault_probability :: real

record active_info =
  ai_name :: string
  ai_image :: string
  ai_cwd :: string
  ai_runtime_env :: "(string, string) dict"
  ai_runtime_state :: "runtime_state option"
  ai_created_at :: real
  ai_pooled :: bool
  ai_acquisition :: string
  ai_create_time :: real
  ai_reset_time :: real
  ai_faulted :: bool
  ai_fault_injected_at :: "real option"
  ai_last_fault_type :: "string option"

record exec_server =
  es_config :: exec_cfg
  es_pool :: warm_pool
  es_active :: "(string, active_info) dict"
  es_ckpts :: manager
  es_cooldown_until :: real
  es_gc_tasks :: "string list"

abbreviation active_count :: "exec_server \<Rightarrow> int" where
  "active_count s \<equiv> int (length (es_active s))"

section \<open>Create\<close>

definition new_active_info :: "acquired \<Rightarrow> string \<Rightarrow> string \<Rightarrow> real \<Rightarrow> active_info" where
  "new_active_info a img cwd now =
     \<lparr>ai_name = aq_name a, ai_image = img, ai_cwd = cwd, ai_runtime_env = [], ai_runtime_state = None, ai_created_at = now,
      ai_pooled = aq_pooled a, ai_acquisition = aq_acquisition a, ai_create_time = aq_create_time a,
      ai_reset_time = aq_reset_time a, ai_faulted = False, ai_fault_injected_at = None, ai_last_fault_type = None\<rparr>"

definition container_create :: "'w docker \<Rightarrow> (string \<Rightarrow> string) \<Rightarrow> string \<Rightarrow> real \<Rightarrow> real \<Rightarrow> string jfield \<Rightarrow> string option \<Rightarrow> int option \<Rightarrow>
    'w \<Rightarrow> exec_server \<Rightarrow> acquired reply \<times> 'w \<times> exec_server" where
  "container_create d getenv uid elapsed now img cwd timeout w s =
     (if jstr img = [] then (ReplyErr 400 (plain_error ''image is required''), w, s)
      else let cwd' = (case cwd of None \<Rightarrow> ''/testbed'' | Some x \<Rightarrow> x); to' = (case timeout of None \<Rightarrow> 1200 | Some t \<Rightarrow> t)
           in case acquire_container (is_healthy d) (create_container d getenv uid elapsed) (destroy_container d 300)
                  (xc_pool (es_config s)) (active_count s) (jstr img) cwd' to' w (es_pool s) of
                (Inl e, w', p') \<Rightarrow> (ReplyErr 500 (plain_error (exc_text e)), w', s\<lparr>es_pool := p'\<rparr>)
              | (Inr a, w', p') \<Rightarrow>
                  (ReplyOk a, w', s\<lparr>es_pool := p',
                     es_active := dset (aq_container_id a) (new_active_info a (jstr img) cwd' now) (es_active s)\<rparr>))"

section \<open>Faults\<close>

record fault_event =
  fe_container_id :: string
  fe_type :: string
  fe_phase :: "string option"
  fe_delay :: "real option"
  fe_tag :: "string option"
  fe_probability :: "real option"
  fe_destroyed :: "bool option"
  fe_destroy_reason :: "string option"
  fe_destroy_error :: "string option"

definition build_fault_event :: "string \<Rightarrow> string \<Rightarrow> string \<Rightarrow> real \<Rightarrow> string \<Rightarrow> fault_event" where
  "build_fault_event cid ftype phase delay tag =
     \<lparr>fe_container_id = cid, fe_type = ftype, fe_phase = Some phase, fe_delay = (if 0 < delay then Some delay else None),
      fe_tag = (if tag = [] then None else Some tag), fe_probability = None, fe_destroyed = None, fe_destroy_reason = None,
      fe_destroy_error = None\<rparr>"

definition mark_faulted :: "real \<Rightarrow> string \<Rightarrow> string \<Rightarrow> exec_server \<Rightarrow> active_info option \<times> exec_server" where
  "mark_faulted now cid ftype s =
     (case dget (es_active s) cid of
        None \<Rightarrow> (None, s)
      | Some i \<Rightarrow>
          (let i' = i\<lparr>ai_faulted := True, ai_fault_injected_at := Some now, ai_last_fault_type := Some ftype\<rparr>
           in (Some i', s\<lparr>es_active := dset cid i' (es_active s)\<rparr>)))"

definition pool_release :: "'w docker \<Rightarrow> string \<Rightarrow> active_info \<Rightarrow> 'w \<Rightarrow> exec_server \<Rightarrow> released res \<times> 'w \<times> exec_server" where
  "pool_release d cid i w s =
     (let (r, w', p') = release_container (destroy_container d 300) (xc_pool (es_config s)) (active_count s) cid (ai_image i) w (es_pool s)
      in (r, w', s\<lparr>es_pool := p'\<rparr>))"

definition kill_container :: "'w docker \<Rightarrow> string \<Rightarrow> active_info option \<Rightarrow> fault_event \<Rightarrow> 'w \<Rightarrow> exec_server \<Rightarrow>
    fault_event \<times> 'w \<times> exec_server" where
  \<comment> \<open>the destruction both kinds of fault make, its outcome noted in the event\<close>
  "kill_container d cid info ev w s =
     (case info of
        None \<Rightarrow>
          (case destroy_container d 30 cid w of
             (Inl e, w') \<Rightarrow> (ev\<lparr>fe_destroyed := Some False, fe_destroy_error := Some (exc_text e)\<rparr>, w', s)
           | (Inr _, w') \<Rightarrow> (ev\<lparr>fe_destroyed := Some True, fe_destroy_reason := Some ''inactive_faulted_container''\<rparr>, w', s))
      | Some i \<Rightarrow>
          (case pool_release d cid i w s of
             (Inl e, w', s') \<Rightarrow> (ev\<lparr>fe_destroyed := Some False, fe_destroy_error := Some (exc_text e)\<rparr>, w', s')
           | (Inr r, w', s') \<Rightarrow> (ev\<lparr>fe_destroyed := Some (rl_destroyed r), fe_destroy_reason := Some (rl_reason r)\<rparr>, w', s')))"

definition untrack :: "string \<Rightarrow> exec_server \<Rightarrow> exec_server" where
  "untrack cid s = s\<lparr>es_active := dpop cid (es_active s)\<rparr>"

definition inject_fail_stop_fault :: "'w docker \<Rightarrow> real \<Rightarrow> string \<Rightarrow> string \<Rightarrow> string \<Rightarrow> real \<Rightarrow> string \<Rightarrow> bool \<Rightarrow> 'w \<Rightarrow> exec_server \<Rightarrow>
    fault_event \<times> 'w \<times> exec_server" where
  "inject_fail_stop_fault d now cid ftype phase delay tag remove_tracking w s =
     (let (info, s1) = mark_faulted now cid ftype s;
          (ev, w', s2) = kill_container d cid info (build_fault_event cid ftype phase delay tag) w s1
      in (ev, w', if remove_tracking then untrack cid s2 else s2))"

definition maybe_inject_fault :: "'w docker \<Rightarrow> real \<Rightarrow> real \<Rightarrow> string \<Rightarrow> bool \<Rightarrow> real \<Rightarrow> 'w \<Rightarrow> exec_server \<Rightarrow>
    fault_event option \<times> 'w \<times> exec_server" where
  \<comment> \<open>\<open>draw\<close>: the random number; a destruction that raises leaves the container in the table\<close>
  "maybe_inject_fault d now draw cid armed prob w s =
     (if \<not> armed \<or> prob \<le> 0 \<or> prob \<le> draw then (None, w, s)
      else let (info, s1) = mark_faulted now cid ''exec_server_random_kill'' s;
               ev0 = \<lparr>fe_container_id = cid, fe_type = ''exec_server_random_kill'', fe_phase = None, fe_delay = None, fe_tag = None,
                 fe_probability = Some prob, fe_destroyed = None, fe_destroy_reason = None, fe_destroy_error = None\<rparr>;
               (ev, w', s2) = kill_container d cid info ev0 w s1
           in (case fe_destroy_error ev of
                 None \<Rightarrow> (Some ev, w', untrack cid s2)
               | Some e \<Rightarrow> (Some (ev\<lparr>fe_destroyed := None\<rparr>), w', s2)))"

section \<open>Commands\<close>

record exec_req =
  xq_container_id :: "string jfield"
  xq_command :: "string jfield"
  xq_cwd :: "string option"
  xq_timeout :: "int option"
  xq_env :: "(string, string) dict"       \<comment> \<open>values as texts\<close>
  xq_armed :: bool
  xq_probability :: "real jfield"
  xq_spec :: "raw_spec option"

record exec_out =
  xo_returncode :: int
  xo_output :: string
  xo_fault :: "fault_event option"        \<comment> \<open>its fields join the reply; else the container is usable\<close>

definition merge_env :: "(string, string) dict \<Rightarrow> (string, string) dict \<Rightarrow> (string, string) dict" where
  "merge_env old_env req = dmerge old_env (filter (\<lambda>(k, v). v \<noteq> []) (map (\<lambda>(k, v). (k, strip v)) req))"

definition fault_code :: "string \<Rightarrow> string \<Rightarrow> route_error" where
  "fault_code msg code = \<lparr>re_error = msg, re_error_code = Some code, re_retryable = None, re_retry_after_sec = None\<rparr>"

definition probability_of :: "real \<Rightarrow> real jfield \<Rightarrow> real" where
  \<comment> \<open>\<open>float(data.get(key, default) or 0.0)\<close>\<close>
  "probability_of dflt f = (case f of Absent \<Rightarrow> dflt | Null \<Rightarrow> 0 | Val x \<Rightarrow> x)"

definition run_command :: "'w docker \<Rightarrow> real \<Rightarrow> string \<Rightarrow> string list \<Rightarrow> int \<Rightarrow> (real \<times> string) option \<Rightarrow> 'w \<Rightarrow> exec_server \<Rightarrow>
    exec_out reply res \<times> 'w \<times> exec_server" where
  \<comment> \<open>the command, and the kill in the middle of it when its timer runs out first (delay and tag)\<close>
  "run_command d now cid args timeout mid w s =
     (let (r, w1) = run_docker d args (of_int timeout) w;
          (ev, w2, s2) = (case mid of
             None \<Rightarrow> (None, w1, s)
           | Some (delay, tag) \<Rightarrow>
               (let (e, w', s') = inject_fail_stop_fault d now cid ''exec_server_explicit_mid_action_kill'' ''mid_action'' delay tag False w1 s
                in (Some e, w', s')))
      in case r of
           Inl e \<Rightarrow>
             (case e of
                Timeout _ \<Rightarrow>
                  (case ev of
                     Some f \<Rightarrow> (Inr (ReplyOk \<lparr>xo_returncode = -1, xo_output = ''Injected environment fault: container killed during exec.'',
                       xo_fault = Some f\<rparr>), w2, untrack cid s2)
                   | None \<Rightarrow> (Inr (ReplyOk \<lparr>xo_returncode = -1, xo_output = ''Command timed out after '' @ str_int timeout @ ''s'',
                       xo_fault = None\<rparr>), w2, s2))
              | _ \<Rightarrow> (Inl e, w2, s2))
         | Inr x \<Rightarrow>
             (case ev of
                Some f \<Rightarrow> (Inr (ReplyOk \<lparr>xo_returncode = -1, xo_output = ''Injected environment fault: container killed during exec.'',
                  xo_fault = Some f\<rparr>), w2, untrack cid s2)
              | None \<Rightarrow> (Inr (ReplyOk \<lparr>xo_returncode = dr_code x, xo_output = dr_stdout x @ dr_stderr x, xo_fault = None\<rparr>), w2, s2)))"

definition container_exec :: "'w docker \<Rightarrow> real \<Rightarrow> real \<Rightarrow> bool \<Rightarrow> exec_req \<Rightarrow> 'w \<Rightarrow> exec_server \<Rightarrow>
    exec_out reply res \<times> 'w \<times> exec_server" where
  \<comment> \<open>\<open>fires\<close>: whether the kill of a fault in the middle is over when the reply is made\<close>
  "container_exec d now draw fires q w s =
     (let cid = jstr (xq_container_id q); cmd = jstr (xq_command q)
      in if cid = [] \<or> cmd = [] then (Inr (ReplyErr 400 (plain_error ''container_id and command are required'')), w, s)
         else case normalize_fault_spec exec_fault_phases (xq_spec q) of
                Inl e \<Rightarrow> (Inr (ReplyErr 400 (fault_code (exc_text e) ''invalid_fault_injection_spec'')), w, s)
              | Inr spec \<Rightarrow>
                  (let cwd = (case xq_cwd q of None \<Rightarrow> ''/testbed'' | Some x \<Rightarrow> x);
                       timeout = (case xq_timeout q of None \<Rightarrow> 180 | Some t \<Rightarrow> t);
                       old_env = (case dget (es_active s) cid of None \<Rightarrow> [] | Some i \<Rightarrow> ai_runtime_env i);
                       args = [''exec'', ''-w'', cwd] @ env_args (merge_env old_env (xq_env q)) @ [cid, ''bash'', ''-lc'', cmd];
                       before = (case spec of None \<Rightarrow> False | Some f \<Rightarrow> fs_phase f = ''before_action'');
                       killed = (\<lambda>f. ReplyOk \<lparr>xo_returncode = -1,
                         xo_output = ''Injected environment fault: container killed before exec.'', xo_fault = Some f\<rparr>)
                   in if before
                      then (let (ev, w', s') = inject_fail_stop_fault d now cid ''exec_server_explicit_before_action_kill'' ''before_action''
                              (fs_delay (the spec)) (fs_tag (the spec)) True w s
                            in (Inr (killed ev), w', s'))
                      else case maybe_inject_fault d now draw cid (xq_armed q)
                               (probability_of (xc_fault_probability (es_config s)) (xq_probability q)) w s of
                             (Some ev, w', s') \<Rightarrow> (Inr (killed ev), w', s')
                           | (None, w', s') \<Rightarrow>
                               run_command d now cid args timeout
                                 (case spec of Some f \<Rightarrow> (if fires then Some (fs_delay f, fs_tag f) else None) | None \<Rightarrow> None) w' s'))"

record diff_out =
  df_patch :: string
  df_returncode :: int
  df_error :: string

definition container_diff :: "'w docker \<Rightarrow> string jfield \<Rightarrow> string option \<Rightarrow> 'w \<Rightarrow> diff_out reply res \<times> 'w" where
  "container_diff d cid cwd w =
     (if jstr cid = [] then (Inr (ReplyErr 400 (plain_error ''container_id is required'')), w)
      else case run_docker d [''exec'', ''-w'', (case cwd of None \<Rightarrow> ''/testbed'' | Some x \<Rightarrow> x), jstr cid, ''bash'', ''-lc'',
               ''git add -A && git diff --cached''] 60 w of
             (Inl e, w') \<Rightarrow> (Inl e, w')
           | (Inr r, w') \<Rightarrow>
               (Inr (ReplyOk \<lparr>df_patch = dr_stdout r, df_returncode = dr_code r,
                  df_error = (if dr_code r = 0 then [] else dr_stderr r)\<rparr>), w'))"

section \<open>Destroy\<close>

definition container_destroy :: "'w docker \<Rightarrow> string jfield \<Rightarrow> 'w \<Rightarrow> exec_server \<Rightarrow> released reply res \<times> 'w \<times> exec_server" where
  "container_destroy d cid w s =
     (let c = jstr cid
      in if c = [] then (Inr (ReplyErr 400 (plain_error ''container_id is required'')), w, s)
         else case dget (es_active s) c of
                None \<Rightarrow>
                  (case destroy_container d 300 c w of
                     (Inl e, w') \<Rightarrow> (Inl e, w', s)
                   | (Inr _, w') \<Rightarrow> (Inr (ReplyOk \<lparr>rl_pooled = False, rl_destroyed = True, rl_reason = []\<rparr>), w', s))
              | Some i \<Rightarrow>
                  (case pool_release d c i w s of
                     (Inl e, w', s') \<Rightarrow> (Inl e, w', s')
                   | (Inr r, w', s') \<Rightarrow> (Inr (ReplyOk r), w', untrack c s')))"

definition container_fault_kill :: "'w docker \<Rightarrow> real \<Rightarrow> string jfield \<Rightarrow> real jfield \<Rightarrow> string jfield \<Rightarrow> 'w \<Rightarrow> exec_server \<Rightarrow>
    fault_event reply \<times> 'w \<times> exec_server" where
  "container_fault_kill d now cid delay tag w s =
     (if jstr cid = [] then (ReplyErr 400 (plain_error ''container_id is required''), w, s)
      else let (ev, w', s') = inject_fail_stop_fault d now (jstr cid) ''exec_server_random_wall_clock_kill'' ''random_wall_clock''
             (jnum_or delay) (jstr tag) False w s
           in (ReplyOk ev, w', s'))"

end
