(* ===== verification/Exec_Snapshots.thy ===== *)
theory Exec_Snapshots
  imports Exec_Containers Exec_Collection
begin

text \<open>
  Creating a checkpoint (by docker commit, or by the full checkpoint of memory and files), deleting
  and collecting checkpoints, and restoring one into a new container: the workers and routes of
  swe_exec_server.py.  The library behind full checkpoints is not part of the repository; it is a
  transport.  Fields of a record that only report timings or name the phase of a fault are left out.
\<close>

section \<open>Sequencing\<close>

type_synonym ('w, 'a) act = "'w \<Rightarrow> exec_server \<Rightarrow> 'a res \<times> 'w \<times> exec_server"

definition give :: "'a \<Rightarrow> ('w, 'a) act" where
  "give x w s = (Inr x, w, s)"

definition raise_exc :: "exc \<Rightarrow> ('w, 'a) act" where
  "raise_exc e w s = (Inl e, w, s)"

definition andthen :: "('w, 'a) act \<Rightarrow> ('a \<Rightarrow> ('w, 'b) act) \<Rightarrow> ('w, 'b) act" where
  "andthen m f w s = (case m w s of (Inl e, w', s') \<Rightarrow> (Inl e, w', s') | (Inr x, w', s') \<Rightarrow> f x w' s')"

definition on_except :: "('w, 'a) act \<Rightarrow> (exc \<Rightarrow> ('w, 'a) act) \<Rightarrow> ('w, 'a) act" where
  "on_except m h w s = (case m w s of (Inl e, w', s') \<Rightarrow> h e w' s' | (Inr x, w', s') \<Rightarrow> (Inr x, w', s'))"

definition outside :: "('w \<Rightarrow> 'a res \<times> 'w) \<Rightarrow> ('w, 'a) act" where
  \<comment> \<open>a command that leaves the server's own state alone\<close>
  "outside f w s = (let (r, w') = f w in (r, w', s))"

definition inspect_state :: "(exec_server \<Rightarrow> 'a) \<Rightarrow> ('w, 'a) act" where
  "inspect_state f w s = (Inr (f s), w, s)"

definition change_state :: "(exec_server \<Rightarrow> exec_server) \<Rightarrow> ('w, unit) act" where
  "change_state f w s = (Inr (), w, f s)"

definition change_table :: "(manager \<Rightarrow> manager res) \<Rightarrow> ('w, unit) act" where
  "change_table f w s = (case f (es_ckpts s) of Inl e \<Rightarrow> (Inl e, w, s) | Inr m \<Rightarrow> (Inr (), w, s\<lparr>es_ckpts := m\<rparr>))"

definition ignore_errors :: "('w, unit) act \<Rightarrow> ('w, unit) act" where
  "ignore_errors m = on_except m (\<lambda>e. give ())"

definition injecting :: "'w docker \<Rightarrow> real \<Rightarrow> string \<Rightarrow> string \<Rightarrow> fault_spec \<Rightarrow> ('w, fault_event) act" where
  "injecting d now cid ftype f w s =
     (let (ev, w', s') = inject_fail_stop_fault d now cid ftype (fs_phase f) (fs_delay f) (fs_tag f) True w s in (Inr ev, w', s'))"

section \<open>The host\<close>

record full_ckpt_req =
  fq_container_id :: string
  fq_checkpoint_id :: string
  fq_state_root :: string
  fq_docker_root :: string
  fq_criu_timeout :: int
  fq_staging_root :: "string option"

record full_resume_req =
  fu_checkpoint_id :: string
  fu_container_id :: string
  fu_state_root :: string
  fu_docker_root :: string
  fu_criu_timeout :: int

record full_resume_res =
  fu_docker_container_id :: string
  fu_exec_supported :: bool

record 'w host_api =
  ha_docker :: "'w docker"
  ha_getenv :: "string \<Rightarrow> string"
  ha_dumps :: "runtime_state \<Rightarrow> string"
  ha_loads :: "string \<Rightarrow> runtime_state res"
  ha_loads_env :: "string \<Rightarrow> (string, string jfield) dict res"
  ha_full_api :: "('w, unit, unit) transport"     \<comment> \<open>whether the library is installed\<close>
  ha_full_checkpoint :: "('w, full_ckpt_req, unit) transport"
  ha_full_resume :: "('w, full_resume_req, full_resume_res) transport"
  ha_dir_size :: "('w, string, int) transport"
  ha_rmtree :: "('w, string, unit) transport"     \<comment> \<open>remove a directory if it exists\<close>
  ha_seconds :: "real \<Rightarrow> string"                   \<comment> \<open>a number with one decimal\<close>

definition state_root :: "exec_cfg \<Rightarrow> ckpt_record \<Rightarrow> string" where
  "state_root c r =
     first_text (strip (case kr_state_root r of None \<Rightarrow> [] | Some x \<Rightarrow> x))
       (first_text (strip (xc_state_root c)) (xc_checkpoint_dir c @ ''/full-checkpoint-state''))"

definition artifact_dir :: "exec_cfg \<Rightarrow> ckpt_record \<Rightarrow> string" where
  "artifact_dir c r = state_root c r @ ''/checkpoints/'' @ safe_name (kr_checkpoint_id r)"

definition docker_root :: "'w host_api \<Rightarrow> exec_cfg \<Rightarrow> 'w \<Rightarrow> string res \<times> 'w" where
  \<comment> \<open>without the cache of docker's answer\<close>
  "docker_root h c w =
     (if strip (xc_docker_root c) \<noteq> [] then (Inr (strip (xc_docker_root c)), w)
      else case run_docker (ha_docker h) [''info'', ''--format'', ''{{.DockerRootDir}}''] 10 w of
             (Inl e, w') \<Rightarrow> (Inl e, w')
           | (Inr r, w') \<Rightarrow>
               (if dr_code r \<noteq> 0 \<or> strip (dr_stdout r) = []
                then (Inl (RuntimeError (first_text (strip (dr_stderr r)) ''docker info did not report DockerRootDir'')), w')
                else (Inr (strip (dr_stdout r)), w')))"

definition remove_installed :: "'w host_api \<Rightarrow> string \<Rightarrow> string \<Rightarrow> string \<Rightarrow> 'w \<Rightarrow> unit res \<times> 'w" where
  "remove_installed h droot cid ckpt_id w =
     (if cid = [] then (Inr (), w)
      else case run_docker (ha_docker h) [''checkpoint'', ''rm'', cid, ckpt_id] 60 w of
             (Inl e, w') \<Rightarrow> (Inl e, w')
           | (Inr r, w') \<Rightarrow>
               (if dr_code r = 0 then (Inr (), w')
                else ha_rmtree h (droot @ ''/containers/'' @ cid @ ''/checkpoints/'' @ ckpt_id) w'))"

definition delete_artifacts :: "'w host_api \<Rightarrow> exec_cfg \<Rightarrow> ckpt_record \<Rightarrow> 'w \<Rightarrow> unit res \<times> 'w" where
  "delete_artifacts h c r w =
     (case record_backend r of
        Inl e \<Rightarrow> (Inl e, w)
      | Inr b \<Rightarrow>
          (if b = ''legacy''
           then (case kr_checkpoint_image r of
                   Some (x # xs) \<Rightarrow>
                     (case run_docker (ha_docker h) [''image'', ''rm'', ''-f'', x # xs] 60 w of
                        (Inl e, w') \<Rightarrow> (Inl e, w') | (Inr _, w') \<Rightarrow> (Inr (), w'))
                 | _ \<Rightarrow> (Inr (), w))
           else ha_rmtree h (artifact_dir c r) w))"

section \<open>The workers\<close>

definition usable :: "'w docker \<Rightarrow> string \<Rightarrow> ('w, bool) act" where
  \<comment> \<open>\<open>_container_is_active(c) and _docker_container_is_running(c, timeout=10)\<close>\<close>
  "usable d cid =
     andthen (inspect_state (\<lambda>s. dget (es_active s) cid \<noteq> None))
       (\<lambda>active. if active then outside (is_running d cid 10) else give False)"

definition mark_failed :: "string \<Rightarrow> string \<Rightarrow> real \<Rightarrow> string \<Rightarrow> (ckpt_record \<Rightarrow> ckpt_record) \<Rightarrow> ('w, unit) act" where
  \<comment> \<open>record and operation\<close>
  "mark_failed ckpt_id op_id at_time err extra =
     andthen (change_table (update_record ckpt_id
         (\<lambda>r. extra (r\<lparr>kr_status := Ck_Failed, kr_failed_at := Some at_time, kr_error := Some err\<rparr>))))
       (\<lambda>_. change_table (update_op op_id (\<lambda>x. x\<lparr>ko_status := Ck_Failed, ko_finished_at := Some at_time, ko_error := Some err\<rparr>)))"

definition faulted_record :: "fault_event \<Rightarrow> ckpt_record \<Rightarrow> ckpt_record" where
  "faulted_record ev r = r\<lparr>kr_fault_type := Some (fe_type ev), kr_container_id := fe_container_id ev, kr_container_usable := Some False\<rparr>"

definition commit_worker :: "'w host_api \<Rightarrow> real \<Rightarrow> real \<Rightarrow> string \<Rightarrow> string \<Rightarrow> string \<Rightarrow> ckpt_record \<Rightarrow> (string, string) dict \<Rightarrow>
    fault_spec option \<Rightarrow> ('w, unit) act" where
  \<comment> \<open>the body of \<open>_checkpoint_create_worker\<close> for docker commit, begun at \<open>now\<close>, the commit over at \<open>later\<close>\<close>
  "commit_worker h now later op_id cid img r env spec =
     (let d = ha_docker h; ckpt_id = kr_checkpoint_id r; phase = (case spec of None \<Rightarrow> [] | Some f \<Rightarrow> fs_phase f)
      in andthen (usable d cid) (\<lambda>ok.
         if \<not> ok then mark_failed ckpt_id op_id later (''container no longer active before checkpoint commit: '' @ cid) id
         else andthen (outside (probe_runtime_env d (ha_loads_env h) cid (kr_cwd r) env)) (\<lambda>probed.
         andthen (outside (capture_runtime_state d (ha_dumps h) cid ckpt_id (build_runtime_state r probed))) (\<lambda>_.
         if phase = ''before_commit''
         then andthen (injecting d now cid ''checkpoint_explicit_before_commit_kill'' (the spec)) (\<lambda>ev.
              mark_failed ckpt_id op_id later ''injected checkpoint fault before docker commit'' (faulted_record ev))
         else andthen (inspect_state (\<lambda>s. xc_create_timeout (es_config s))) (\<lambda>timeout.
         andthen (outside (run_docker d [''commit'', cid, img] (of_int timeout))) (\<lambda>x.
         if dr_code x \<noteq> 0
         then mark_failed ckpt_id op_id later (first_text (strip (dr_stderr x)) (''docker commit failed for '' @ cid)) id
         else if phase = ''after_commit_before_ready''
         then andthen (injecting d now cid ''checkpoint_explicit_after_commit_before_ready_kill'' (the spec)) (\<lambda>ev.
              mark_failed ckpt_id op_id later ''injected checkpoint fault after docker commit before ready pointer update'' (faulted_record ev))
         else andthen (outside (image_size d img)) (\<lambda>size_bytes.
         andthen (inspect_state (\<lambda>s. max 0 (xc_min_ready_latency (es_config s) - (later - now)))) (\<lambda>delay.
         andthen (change_table (update_record ckpt_id (\<lambda>r. r\<lparr>kr_status := Ck_Ready, kr_ready_at := Some (later + delay),
             kr_size_bytes := size_bytes, kr_error := None\<rparr>)))
           (\<lambda>_. change_table (update_op op_id (\<lambda>x. x\<lparr>ko_status := Ck_Ready, ko_finished_at := Some (later + delay), ko_error := None\<rparr>)))))))))))"

definition recover_source :: "'w host_api \<Rightarrow> string \<Rightarrow> string \<Rightarrow> string \<Rightarrow> ('w, bool) act" where
  \<comment> \<open>after a failure inside the guard: whether a restart of the stopped source was attempted\<close>
  "recover_source h droot cid ckpt_id w s =
     (if dget (es_active s) cid = None then (Inr False, w, s)
      else case is_running (ha_docker h) cid 10 w of
             (Inl e, w') \<Rightarrow> (Inr False, w', s)
           | (Inr True, w') \<Rightarrow> (Inr False, w', s)
           | (Inr False, w') \<Rightarrow>
               (case run_docker (ha_docker h) [''start'', cid] 120 w' of
                  (Inl e, w2) \<Rightarrow> (Inr True, snd (remove_installed h droot cid ckpt_id w2), s)
                | (Inr x, w2) \<Rightarrow>
                    (let w3 = (if dr_code x = 0 then snd (is_running (ha_docker h) cid 10 w2) else w2)
                     in (Inr True, snd (remove_installed h droot cid ckpt_id w3), s))))"

definition full_section :: "'w host_api \<Rightarrow> real \<Rightarrow> string \<Rightarrow> string \<Rightarrow> ckpt_record \<Rightarrow> fault_spec option \<Rightarrow> ('w, unit) act" where
  \<comment> \<open>what runs inside the container's exclusive section\<close>
  "full_section h now droot cid r spec =
     (let d = ha_docker h; ckpt_id = kr_checkpoint_id r; phase = (case spec of None \<Rightarrow> [] | Some f \<Rightarrow> fs_phase f);
          killed = (\<lambda>ftype msg. andthen (injecting d now cid ftype (the spec)) (\<lambda>ev.
            andthen (change_table (update_record ckpt_id (faulted_record ev))) (\<lambda>_. raise_exc (RuntimeError msg))))
      in andthen (usable d cid) (\<lambda>ok.
         if \<not> ok then raise_exc (RuntimeError (''container no longer active before full checkpoint: '' @ cid))
         else if phase = ''before_commit''
         then killed ''checkpoint_explicit_before_full_checkpoint_kill'' ''injected checkpoint fault before full checkpoint''
         else andthen (inspect_state es_config) (\<lambda>c.
         andthen (outside (ha_full_checkpoint h \<lparr>fq_container_id = cid, fq_checkpoint_id = ckpt_id, fq_state_root = state_root c r,
             fq_docker_root = droot, fq_criu_timeout = max 1 (xc_criu_timeout c),
             fq_staging_root = (if strip (xc_staging_root c) = [] then None else Some (strip (xc_staging_root c)))\<rparr>)) (\<lambda>_.
         if phase = ''after_commit_before_ready''
         then killed ''checkpoint_explicit_after_full_checkpoint_before_ready_kill'' ''injected checkpoint fault after full checkpoint before ready''
         else andthen (outside (ha_full_resume h \<lparr>fu_checkpoint_id = ckpt_id, fu_container_id = cid, fu_state_root = state_root c r,
             fu_docker_root = droot, fu_criu_timeout = max 1 (xc_criu_timeout c)\<rparr>)) (\<lambda>x.
         let sid = fu_docker_container_id x
         in if \<not> fu_exec_supported x then raise_exc (RuntimeError ''full resume did not preserve Docker exec support'')
            else if sid \<noteq> [] \<and> \<not> (starts_with cid sid \<or> starts_with sid cid)
            then raise_exc (RuntimeError (''in-place full resume returned a different Docker container: expected='' @ cid @ '' actual='' @ sid))
            else andthen (outside (is_running d cid 10)) (\<lambda>running.
                 if \<not> running then raise_exc (RuntimeError (''source container is not running after in-place full resume: '' @ cid))
                 else ignore_errors (outside (remove_installed h droot (first_text sid cid) ckpt_id))))))))"

definition full_failed :: "'w host_api \<Rightarrow> string \<Rightarrow> string \<Rightarrow> bool \<Rightarrow> exc \<Rightarrow> ('w, unit) act" where
  \<comment> \<open>note whether the source can still be used, then raise again\<close>
  "full_failed h cid ckpt_id attempted e =
     andthen (ignore_errors (andthen (if attempted then give False else usable (ha_docker h) cid) (\<lambda>u.
       change_table (update_record ckpt_id (\<lambda>r. r\<lparr>kr_container_usable := Some u\<rparr>))))) (\<lambda>_. raise_exc e)"

definition full_ready :: "'w host_api \<Rightarrow> exec_cfg \<Rightarrow> real \<Rightarrow> string \<Rightarrow> ckpt_record \<Rightarrow> ('w, unit) act" where
  "full_ready h c later op_id r =
     andthen (outside (ha_dir_size h (artifact_dir c r))) (\<lambda>size_bytes.
     andthen (change_table (update_record (kr_checkpoint_id r) (\<lambda>x. x\<lparr>kr_backend := Some ''full'', kr_checkpoint_image := None,
         kr_status := Ck_Ready, kr_ready_at := Some later, kr_failed_at := None, kr_error := None,
         kr_state_root := Some (state_root c r), kr_size_bytes := Some size_bytes, kr_container_usable := Some True\<rparr>)))
       (\<lambda>_. change_table (update_op op_id (\<lambda>x. x\<lparr>ko_status := Ck_Ready, ko_finished_at := Some later, ko_error := None\<rparr>))))"

definition full_worker :: "'w host_api \<Rightarrow> real \<Rightarrow> real \<Rightarrow> string \<Rightarrow> string \<Rightarrow> ckpt_record \<Rightarrow> fault_spec option \<Rightarrow> ('w, unit) act" where
  \<comment> \<open>\<open>_full_checkpoint_create_worker\<close>; creating the state directory cannot fail here\<close>
  "full_worker h now later op_id cid r spec =
     (let ckpt_id = kr_checkpoint_id r
      in andthen (inspect_state es_config) (\<lambda>c.
         andthen (outside (docker_root h c)) (\<lambda>droot.
         andthen (outside (ha_full_api h ())) (\<lambda>_.
         andthen (on_except (andthen (full_section h now droot cid r spec) (\<lambda>_. give None))
             (\<lambda>e. andthen (recover_source h droot cid ckpt_id) (\<lambda>attempted. give (Some (e, attempted))))) (\<lambda>problem.
         case problem of
           Some (e, attempted) \<Rightarrow> full_failed h cid ckpt_id attempted e
         | None \<Rightarrow> on_except (full_ready h c later op_id r) (full_failed h cid ckpt_id False))))))"

definition add_cooldown :: "real \<Rightarrow> exec_server \<Rightarrow> exec_server" where
  "add_cooldown now s =
     s\<lparr>es_cooldown_until := max (es_cooldown_until s) (now + max 0 (xc_cooldown (es_config s)))\<rparr>"

definition worker_failed :: "'w host_api \<Rightarrow> real \<Rightarrow> string \<Rightarrow> string \<Rightarrow> exc \<Rightarrow> ('w, unit) act" where
  "worker_failed h later ckpt_id op_id e =
     (case e of
        Timeout t \<Rightarrow>
          andthen (change_state (add_cooldown later)) (\<lambda>_.
          andthen (inspect_state (\<lambda>s. max 0 (xc_cooldown (es_config s)))) (\<lambda>secs.
          mark_failed ckpt_id op_id later (t @ ''; checkpoint cooldown activated for '' @ ha_seconds h secs @ ''s'') id))
      | _ \<Rightarrow> mark_failed ckpt_id op_id later (exc_text e) id)"

definition create_worker :: "'w host_api \<Rightarrow> real \<Rightarrow> real \<Rightarrow> string \<Rightarrow> string \<Rightarrow> string \<Rightarrow> ckpt_record \<Rightarrow> (string, string) dict \<Rightarrow>
    fault_spec option \<Rightarrow> ('w, ckpt_record option) act" where
  \<comment> \<open>\<open>_checkpoint_create_worker\<close>: the final record; the slot is given back whatever happened\<close>
  "create_worker h now later op_id cid img r env spec w s =
     (let ckpt_id = kr_checkpoint_id r;
          body = (case record_backend r of
                    Inl e \<Rightarrow> raise_exc e
                  | Inr b \<Rightarrow> (if b = ''full'' then full_worker h now later op_id cid r spec
                             else commit_worker h now later op_id cid img r env spec));
          (res, w', s') = on_except body (worker_failed h later ckpt_id op_id) w s
      in case end_create (es_ckpts s') of
           Inl e \<Rightarrow> (Inl e, w', s')
         | Inr m \<Rightarrow>
             (case res of Inl e \<Rightarrow> (Inl e, w', s'\<lparr>es_ckpts := m\<rparr>)
              | Inr _ \<Rightarrow> (Inr (get_record ckpt_id (es_ckpts s')), w', s'\<lparr>es_ckpts := m\<rparr>)))"

end
