(* ===== verification/Exec_Restore.thy ===== *)
theory Exec_Restore
  imports Exec_Snapshots
begin

text \<open>
  The checkpoint routes of swe_exec_server.py: create (the worker run to its end), delete, garbage
  collection with its worker and its drain, and rerun, which restores a checkpoint into a new container.
\<close>

section \<open>Create\<close>

record ckpt_req =
  kq_container_id :: "string jfield"
  kq_lease_id :: string
  kq_generation :: int
  kq_instance_id :: string
  kq_cwd :: "string option"
  kq_step_idx :: int
  kq_command_seq :: int
  kq_policy :: string
  kq_reason :: string
  kq_parent :: "string jfield"
  kq_backend :: "string option"
  kq_env :: "(string, string jfield) dict"
  kq_spec :: "raw_spec option"

datatype create_reply =
    Create_Refused int string "string option"           \<comment> \<open>HTTP status, error, error code\<close>
  | Create_Busy string real                             \<comment> \<open>reason, seconds to wait\<close>
  | Create_Failed string "ckpt_record option"           \<comment> \<open>error, the record if it has come back\<close>
  | Create_Ok ckpt_record string                        \<comment> \<open>the record, the operation's identifier\<close>

definition failed_text :: "string option \<Rightarrow> string" where
  "failed_text v = (case v of Some (x # xs) \<Rightarrow> x # xs | _ \<Rightarrow> ''checkpoint_create_failed'')"

definition creation_reply :: "string \<Rightarrow> ckpt_record option \<Rightarrow> create_reply" where
  \<comment> \<open>the worker adds timings to the record it returns, so that a missing one is still no empty dict\<close>
  "creation_reply op_id r =
     (case r of None \<Rightarrow> Create_Failed ''checkpoint_create_failed'' None
      | Some x \<Rightarrow> (if kr_status x = Ck_Ready then Create_Ok x op_id else Create_Failed (failed_text (kr_error x)) (Some x)))"

definition ckpt_args_of :: "ckpt_req \<Rightarrow> string \<Rightarrow> active_info \<Rightarrow> ckpt_args" where
  "ckpt_args_of q backend i =
     \<lparr>ca_lease_id = kq_lease_id q, ca_generation = kq_generation q, ca_container_id = jstr (kq_container_id q),
      ca_instance_id = kq_instance_id q, ca_image = ai_image i, ca_cwd = (case kq_cwd q of None \<Rightarrow> ai_cwd i | Some x \<Rightarrow> x),
      ca_step_idx = kq_step_idx q, ca_command_seq = kq_command_seq q, ca_policy = kq_policy q, ca_reason = kq_reason q,
      ca_parent_id = (if jstr (kq_parent q) = [] then None else Some (jstr (kq_parent q))), ca_backend = Some backend\<rparr>"

definition run_creation :: "'w host_api \<Rightarrow> real \<Rightarrow> real \<Rightarrow> ckpt_req \<Rightarrow> string \<Rightarrow> fault_spec option \<Rightarrow> active_info \<Rightarrow> ckpt_record \<Rightarrow>
    ckpt_op \<Rightarrow> ('w, create_reply) act" where
  \<comment> \<open>from the new record to the end of the worker; the dispatcher hands over result and exception alike\<close>
  "run_creation h now later q backend spec i r0 x =
     (let env = dmerge (normalize_env (vals (ai_runtime_env i))) (normalize_env (kq_env q)); ckpt_id = kr_checkpoint_id r0
      in andthen (inspect_state es_config) (\<lambda>c.
         andthen (change_table (update_record ckpt_id (\<lambda>r. r\<lparr>kr_runtime_env := env,
             kr_state_root := (if backend = ''full'' then Some (state_root c r0) else None)\<rparr>))) (\<lambda>_.
         andthen (inspect_state (\<lambda>s. get_record ckpt_id (es_ckpts s))) (\<lambda>r.
         case r of None \<Rightarrow> raise_exc (KeyError ckpt_id)
         | Some r1 \<Rightarrow>
             andthen (create_worker h now later (ko_op_id x) (jstr (kq_container_id q))
                 (case kr_checkpoint_image r1 of None \<Rightarrow> [] | Some img \<Rightarrow> img) r1 env spec)
               (\<lambda>final. give (creation_reply (ko_op_id x) final))))))"

definition create_and_wait :: "'w host_api \<Rightarrow> string \<Rightarrow> string \<Rightarrow> real \<Rightarrow> real \<Rightarrow> ckpt_req \<Rightarrow> string \<Rightarrow> fault_spec option \<Rightarrow> active_info \<Rightarrow>
    ('w, create_reply) act" where
  "create_and_wait h hex ohex now later q backend spec i w s =
     (case create_record hex ohex now (ckpt_args_of q backend i) (es_ckpts s) of
        (Inl e, m) \<Rightarrow>
          andthen (change_table end_create) (\<lambda>_. give (Create_Failed (exc_text e) None)) w (s\<lparr>es_ckpts := m\<rparr>)
      | (Inr (r, x), m) \<Rightarrow>
          on_except (run_creation h now later q backend spec i r x) (\<lambda>e.
            andthen (mark_failed (kr_checkpoint_id r) (ko_op_id x) later (exc_text e) id) (\<lambda>_.
            andthen (change_table end_create) (\<lambda>_. give (Create_Failed (exc_text e) None)))) w (s\<lparr>es_ckpts := m\<rparr>))"

definition parent_problem :: "string \<Rightarrow> string \<Rightarrow> manager \<Rightarrow> create_reply option" where
  "parent_problem parent lease m =
     (if parent = [] then None
      else case get_record parent m of
             None \<Rightarrow> Some (Create_Refused 404 (''unknown parent checkpoint: '' @ parent) (Some ''checkpoint_parent_not_found''))
           | Some p \<Rightarrow>
               (if kr_status p \<noteq> Ck_Ready \<or> kr_lease_id p \<noteq> lease
                then Some (Create_Refused 409 ''parent checkpoint must be ready and belong to the same lease'' (Some ''checkpoint_parent_invalid''))
                else None))"

definition cooldown_remaining :: "real \<Rightarrow> exec_server \<Rightarrow> real" where
  "cooldown_remaining now s = max 0 (es_cooldown_until s - now)"

definition create_guard :: "real \<Rightarrow> ckpt_req \<Rightarrow> exec_server \<Rightarrow> create_reply + string \<times> fault_spec option \<times> active_info" where
  \<comment> \<open>every check before the slot is taken: a refusal, or backend, fault and container\<close>
  "create_guard now q s =
     (let cid = jstr (kq_container_id q); c = es_config s
      in if cid = [] then Inl (Create_Refused 400 ''container_id is required'' None)
         else case normalize_backend (kq_backend q) (xc_checkpoint_backend c) of
                Inl e \<Rightarrow> Inl (Create_Refused 400 (exc_text e) (Some ''invalid_checkpoint_backend''))
              | Inr backend \<Rightarrow>
                  (case normalize_fault_spec checkpoint_fault_phases (kq_spec q) of
                     Inl e \<Rightarrow> Inl (Create_Refused 400 (exc_text e) (Some ''invalid_fault_injection_spec''))
                   | Inr spec \<Rightarrow>
                       (if \<not> xc_checkpoint_enabled c then Inl (Create_Refused 400 ''checkpoint is disabled'' (Some ''checkpoint_disabled''))
                        else if 0 < cooldown_remaining now s
                        then Inl (Create_Busy ''checkpoint_cooldown_active'' (cooldown_remaining now s))
                        else case dget (es_active s) cid of
                               None \<Rightarrow> Inl (Create_Refused 404 (''unknown container_id: '' @ cid) (Some ''unknown_container_id''))
                             | Some i \<Rightarrow>
                                 (case parent_problem (jstr (kq_parent q)) (kq_lease_id q) (es_ckpts s) of
                                    Some p \<Rightarrow> Inl p | None \<Rightarrow> Inr (backend, spec, i)))))"

definition container_checkpoint_create :: "'w host_api \<Rightarrow> string \<Rightarrow> string \<Rightarrow> real \<Rightarrow> real \<Rightarrow> ckpt_req \<Rightarrow> ('w, create_reply) act" where
  "container_checkpoint_create h hex ohex now later q w s =
     (case create_guard now q s of
        Inl reply \<Rightarrow> give reply w s
      | Inr (backend, spec, i) \<Rightarrow>
          (case try_begin_create (es_ckpts s) of
             (False, m) \<Rightarrow> give (Create_Busy ''checkpoint_inflight_limit'' 1) w (s\<lparr>es_ckpts := m\<rparr>)
           | (True, m) \<Rightarrow> create_and_wait h hex ohex now later q backend spec i w (s\<lparr>es_ckpts := m\<rparr>)))"

section \<open>Delete and collect\<close>

definition code_reply :: "int \<Rightarrow> string \<Rightarrow> string option \<Rightarrow> bool option \<Rightarrow> 'r reply" where
  "code_reply status msg code retryable =
     ReplyErr status \<lparr>re_error = msg, re_error_code = code, re_retryable = retryable, re_retry_after_sec = None\<rparr>"

definition size_of :: "ckpt_record \<Rightarrow> int" where
  "size_of r = (case kr_size_bytes r of None \<Rightarrow> 0 | Some n \<Rightarrow> n)"

definition container_checkpoint_delete :: "'w host_api \<Rightarrow> string jfield \<Rightarrow> ('w, int reply) act" where
  \<comment> \<open>the reply holds the bytes reclaimed\<close>
  "container_checkpoint_delete h ckpt_id w s =
     (if jstr ckpt_id = [] then give (code_reply 400 ''checkpoint_id is required'' None None) w s
      else case get_record (jstr ckpt_id) (es_ckpts s) of
             None \<Rightarrow> give (code_reply 404 (''unknown checkpoint_id: '' @ jstr ckpt_id) (Some ''checkpoint_not_found'') None) w s
           | Some r \<Rightarrow>
               (if kr_status r = Ck_Pending
                then give (code_reply 409 ''checkpoint is still pending'' (Some ''checkpoint_not_ready'') (Some True)) w s
                else andthen (outside (delete_artifacts h (es_config s) r)) (\<lambda>_.
                     andthen (change_state (\<lambda>s. s\<lparr>es_ckpts := snd (delete_record (jstr ckpt_id) (es_ckpts s))\<rparr>)) (\<lambda>_.
                     give (ReplyOk (size_of r)))) w s))"

definition gc_task_key :: "string jfield \<Rightarrow> string list \<Rightarrow> string" where
  "gc_task_key lease ids = first_text (jstr lease) ''__global__'' @ '':'' @ join_with '','' (sort ids)"

record gc_out =
  go_deleted :: "string list"
  go_kept :: "string list"
  go_reclaimed :: int
  go_dry_run :: bool

definition images_in_use :: "exec_server \<Rightarrow> string list" where
  "images_in_use s = filter (starts_with ''sweckpt:'') (map (\<lambda>i. ai_image (snd i)) (es_active s))"

definition container_checkpoint_gc :: "string jfield \<Rightarrow> int option \<Rightarrow> bool \<Rightarrow> exec_server \<Rightarrow>
    gc_out \<times> (string \<times> ckpt_record list) option \<times> exec_server" where
  \<comment> \<open>the reply, the worker started, the state\<close>
  "container_checkpoint_gc lease keep dry_run s =
     (let records = list_records (if jstr lease = [] then None else Some (jstr lease)) (es_ckpts s);
          (deletions, kept) = gc_plan (max 0 (case keep of None \<Rightarrow> 1 | Some k \<Rightarrow> k)) (images_in_use s) records;
          ids = map kr_checkpoint_id deletions; key = gc_task_key lease ids;
          reply = \<lparr>go_deleted = ids, go_kept = kept, go_reclaimed = sum_list (map size_of deletions), go_dry_run = dry_run\<rparr>
      in if dry_run then (reply, None, s)
         else if deletions = [] then (reply, None, s\<lparr>es_gc_tasks := removeAll key (es_gc_tasks s)\<rparr>)
         else if key \<in> set (es_gc_tasks s) then (reply, None, s)
         else (reply, Some (key, deletions), s\<lparr>es_gc_tasks := key # es_gc_tasks s\<rparr>))"

fun gc_records :: "'w host_api \<Rightarrow> ckpt_record list \<Rightarrow> ('w, unit) act" where
  "gc_records h [] = give ()"
| "gc_records h (r # rs) =
     andthen (inspect_state es_config) (\<lambda>c.
     andthen (outside (delete_artifacts h c r)) (\<lambda>_.
     andthen (change_state (\<lambda>s. s\<lparr>es_ckpts := snd (delete_record (kr_checkpoint_id r) (es_ckpts s))\<rparr>)) (\<lambda>_. gc_records h rs)))"

definition gc_worker :: "'w host_api \<Rightarrow> string \<times> ckpt_record list \<Rightarrow> ('w, unit) act" where
  "gc_worker h job =
     andthen (ignore_errors (gc_records h (snd job))) (\<lambda>_.
       change_state (\<lambda>s. s\<lparr>es_gc_tasks := removeAll (fst job) (es_gc_tasks s)\<rparr>))"

record drain_out =
  do_drained :: bool
  do_waited :: real
  do_remaining :: int

fun gc_drain :: "real \<Rightarrow> (int \<times> real) list \<Rightarrow> drain_out option" where
  \<comment> \<open>what each turn of the loop sees: tasks in flight, seconds waited; \<open>None\<close> while it goes on\<close>
  "gc_drain timeout [] = None"
| "gc_drain timeout ((remaining, waited) # rest) =
     (if remaining \<le> 0 then Some \<lparr>do_drained = True, do_waited = waited, do_remaining = 0\<rparr>
      else if timeout \<le> waited then Some \<lparr>do_drained = False, do_waited = waited, do_remaining = remaining\<rparr>
      else gc_drain timeout rest)"

definition drain_timeout :: "real jfield \<Rightarrow> real" where
  "drain_timeout f = max 0 (case f of Absent \<Rightarrow> 600 | Null \<Rightarrow> 0 | Val x \<Rightarrow> x)"

definition drain_pause :: "real jfield \<Rightarrow> real \<Rightarrow> real \<Rightarrow> real" where
  \<comment> \<open>the sleep at the end of a turn\<close>
  "drain_pause interval timeout waited =
     min (max (1/100) (case interval of Absent \<Rightarrow> 1/10 | Null \<Rightarrow> 1/10 | Val x \<Rightarrow> (if x = 0 then 1/10 else x))) (max 0 (timeout - waited))"

section \<open>Rerun\<close>

record container_rerun_req =
  rr_checkpoint_id :: "string jfield"
  rr_old_container_id :: "string jfield"
  rr_lease_id :: "string jfield"
  rr_cwd :: "string option"
  rr_timeout :: "int option"

record rerun_out =
  ro_new_container_id :: string
  ro_create_time :: real
  ro_image :: string

definition restored_info :: "active_info option \<Rightarrow> string \<Rightarrow> string \<Rightarrow> string \<Rightarrow> (string, string) dict \<Rightarrow> runtime_state \<Rightarrow> real \<Rightarrow>
    string \<Rightarrow> real \<Rightarrow> active_info" where
  \<comment> \<open>the entry of the old container, if it had one, with every field of a restored container set anew\<close>
  "restored_info old_info name img cwd env st now how create_time =
     \<lparr>ai_name = name, ai_image = img, ai_cwd = cwd, ai_runtime_env = env, ai_runtime_state = Some st, ai_created_at = now,
      ai_pooled = False, ai_acquisition = how, ai_create_time = create_time, ai_reset_time = 0,
      ai_faulted = (case old_info of None \<Rightarrow> False | Some i \<Rightarrow> ai_faulted i),
      ai_fault_injected_at = (case old_info of None \<Rightarrow> None | Some i \<Rightarrow> ai_fault_injected_at i),
      ai_last_fault_type = (case old_info of None \<Rightarrow> None | Some i \<Rightarrow> ai_last_fault_type i)\<rparr>"

definition swap_container :: "string \<Rightarrow> string \<Rightarrow> (active_info option \<Rightarrow> active_info) \<Rightarrow> exec_server \<Rightarrow> exec_server" where
  "swap_container old new info s =
     (let old_info = (if old = [] then None else dget (es_active s) old);
          active = (if old = [] then es_active s else dpop old (es_active s))
      in s\<lparr>es_active := dset new (info old_info) active\<rparr>)"

definition take_over :: "'w docker \<Rightarrow> real \<Rightarrow> string \<Rightarrow> string \<Rightarrow> string \<Rightarrow> (active_info option \<Rightarrow> active_info) \<Rightarrow> ('w, unit) act" where
  \<comment> \<open>the old container destroyed, the new one in its place, the checkpoint marked as used\<close>
  "take_over d now ckpt_id old new info =
     andthen (if old = [] then give () else outside (destroy_container d 300 old)) (\<lambda>_.
     andthen (change_state (swap_container old new info)) (\<lambda>_. change_table (mark_used now ckpt_id)))"

definition commit_restore :: "'w host_api \<Rightarrow> real \<Rightarrow> string \<Rightarrow> string \<Rightarrow> string \<Rightarrow> string \<Rightarrow> created \<Rightarrow> ('w, rerun_out) act" where
  \<comment> \<open>what follows the creation of the new container\<close>
  "commit_restore h now ckpt_id img cwd old c =
     (let d = ha_docker h; new = cd_container_id c
      in andthen (outside (load_runtime_state d (ha_loads h) new ckpt_id)) (\<lambda>st.
         andthen (outside (validate_restore d new st)) (\<lambda>_.
         andthen (take_over d now ckpt_id old new (\<lambda>old_info.
             restored_info old_info (cd_name c) img (first_text (case rs_cwd st of None \<Rightarrow> cwd | Some x \<Rightarrow> x) cwd)
               (normalize_env (rs_env st)) st now ''checkpoint_rerun'' (cd_create_time c))) (\<lambda>_.
         give \<lparr>ro_new_container_id = new, ro_create_time = cd_create_time c, ro_image = img\<rparr>))))"

definition commit_rerun :: "'w host_api \<Rightarrow> string \<Rightarrow> real \<Rightarrow> real \<Rightarrow> string \<Rightarrow> string \<Rightarrow> string \<Rightarrow> int \<Rightarrow> string \<Rightarrow> ('w, rerun_out) act" where
  "commit_rerun h uid elapsed now ckpt_id img cwd timeout old =
     (let d = ha_docker h
      in andthen (outside (create_container d (ha_getenv h) uid elapsed (img, cwd, timeout))) (\<lambda>c.
         on_except (commit_restore h now ckpt_id img cwd old c) (\<lambda>e.
           andthen (ignore_errors (outside (destroy_container d 300 (cd_container_id c)))) (\<lambda>_. raise_exc e))))"

definition full_target :: "string \<Rightarrow> string \<Rightarrow> string" where
  "full_target ckpt_id uid = safe_name (''swe-resume-'' @ take_last 12 ckpt_id @ ''-'' @ uid)"

definition full_state :: "string \<Rightarrow> string \<Rightarrow> (string, string) dict \<Rightarrow> runtime_state" where
  \<comment> \<open>this state has no lease and progress entries\<close>
  "full_state ckpt_id cwd env =
     \<lparr>rs_checkpoint_id = ckpt_id, rs_parent_id = None, rs_lease_id = [], rs_instance_id = [], rs_step_idx = -1, rs_command_seq = -1,
      rs_repo_path = Some cwd, rs_cwd = Some cwd, rs_env = vals env, rs_python = Some (derive_python env), rs_phase = [],
      rs_last_action_id = []\<rparr>"

definition full_restore :: "'w host_api \<Rightarrow> exec_cfg \<Rightarrow> string \<Rightarrow> string \<Rightarrow> real \<Rightarrow> real \<Rightarrow> ckpt_record \<Rightarrow> string \<Rightarrow> string \<Rightarrow> ('w, rerun_out) act" where
  "full_restore h c droot target elapsed now r cwd old =
     (let d = ha_docker h; ckpt_id = kr_checkpoint_id r; env = normalize_env (vals (kr_runtime_env r)); st = full_state ckpt_id cwd env
      in andthen (outside (ha_full_resume h \<lparr>fu_checkpoint_id = ckpt_id, fu_container_id = target, fu_state_root = state_root c r,
             fu_docker_root = droot, fu_criu_timeout = max 1 (xc_criu_timeout c)\<rparr>)) (\<lambda>x.
         let new = fu_docker_container_id x
         in if new = [] then raise_exc (RuntimeError ''full resume did not return docker_container_id'')
            else if \<not> fu_exec_supported x then raise_exc (RuntimeError ''full resume target does not support docker exec'')
            else andthen (outside (is_running d new 10)) (\<lambda>running.
                 if \<not> running then raise_exc (RuntimeError (''full resume target is not running: '' @ new))
                 else andthen (outside (validate_restore d new st)) (\<lambda>_.
                      andthen (ignore_errors (outside (remove_installed h droot new ckpt_id))) (\<lambda>_.
                      andthen (take_over d now ckpt_id old new (\<lambda>old_info.
                          restored_info old_info target (kr_image r) cwd env st now ''full_checkpoint_rerun'' elapsed)) (\<lambda>_.
                      give \<lparr>ro_new_container_id = new, ro_create_time = elapsed, ro_image = kr_image r\<rparr>))))))"

definition full_rerun :: "'w host_api \<Rightarrow> string \<Rightarrow> real \<Rightarrow> real \<Rightarrow> ckpt_record \<Rightarrow> string \<Rightarrow> string \<Rightarrow> ('w, rerun_out) act" where
  \<comment> \<open>\<open>_full_checkpoint_rerun\<close>; a failure destroys the target, by the name it was to have\<close>
  "full_rerun h uid elapsed now r cwd old =
     (if kr_image r = [] then raise_exc (RuntimeError (''full checkpoint record has no source image: '' @ kr_checkpoint_id r))
      else andthen (inspect_state es_config) (\<lambda>c.
           andthen (outside (docker_root h c)) (\<lambda>droot.
           andthen (outside (ha_full_api h ())) (\<lambda>_.
           let target = full_target (kr_checkpoint_id r) uid
           in on_except (full_restore h c droot target elapsed now r cwd old) (\<lambda>e.
                andthen (ignore_errors (outside (destroy_container (ha_docker h) 300 target))) (\<lambda>_. raise_exc e))))))"

definition rerun_problem :: "container_rerun_req \<Rightarrow> exec_server \<Rightarrow> rerun_out reply + ckpt_record" where
  "rerun_problem q s =
     (let ckpt_id = jstr (rr_checkpoint_id q); lease = jstr (rr_lease_id q)
      in if ckpt_id = [] then Inl (code_reply 400 ''checkpoint_id is required'' None None)
         else case get_record ckpt_id (es_ckpts s) of
                None \<Rightarrow> Inl (code_reply 404 (''unknown checkpoint_id: '' @ ckpt_id) (Some ''checkpoint_not_found'') None)
              | Some r \<Rightarrow>
                  (if kr_status r \<noteq> Ck_Ready then Inl (code_reply 409 ''checkpoint not ready'' (Some ''checkpoint_not_ready'') (Some True))
                   else if lease \<noteq> [] \<and> kr_lease_id r \<noteq> [] \<and> lease \<noteq> kr_lease_id r
                   then Inl (code_reply 409 ''checkpoint belongs to another lease'' (Some ''checkpoint_lease_mismatch'') (Some False))
                   else Inr r))"

definition container_rerun :: "'w host_api \<Rightarrow> string \<Rightarrow> real \<Rightarrow> real \<Rightarrow> container_rerun_req \<Rightarrow> ('w, rerun_out reply) act" where
  "container_rerun h uid elapsed now q w s =
     (case rerun_problem q s of
        Inl reply \<Rightarrow> give reply w s
      | Inr r \<Rightarrow>
          (let cwd = (case rr_cwd q of None \<Rightarrow> kr_cwd r | Some x \<Rightarrow> x); timeout = (case rr_timeout q of None \<Rightarrow> 120 | Some t \<Rightarrow> t);
               old = jstr (rr_old_container_id q);
               img = (case kr_checkpoint_image r of None \<Rightarrow> ''None'' | Some x \<Rightarrow> x)
           in case record_backend r of
                Inl e \<Rightarrow> raise_exc e w s
              | Inr b \<Rightarrow>
                  on_except
                    (andthen (if b = ''full'' then full_rerun h uid elapsed now r cwd old
                              else commit_rerun h uid elapsed now (jstr (rr_checkpoint_id q)) img cwd timeout old)
                      (\<lambda>out. give (ReplyOk out)))
                    (\<lambda>e. give (code_reply 500 (exc_text e)
                      (Some (if b = ''full'' then ''full_rerun_failed'' else ''rerun_failed'')) (Some True))) w s))"

end
