(* ===== verification/Exec_Snapshot_Properties.thy ===== *)
theory Exec_Snapshot_Properties
  imports Exec_Restore
begin

text \<open>
  What the checkpoint routes of the exec server achieve: a creation always comes to an end in the
  table, a checkpoint is ready only after docker committed the container, and a rerun that fails
  leaves the tables as they were.
\<close>

section \<open>Triples\<close>

definition hoare :: "(exec_server \<Rightarrow> bool) \<Rightarrow> ('w, 'a) act \<Rightarrow> ('a \<Rightarrow> exec_server \<Rightarrow> bool) \<Rightarrow> (exec_server \<Rightarrow> bool) \<Rightarrow> bool" where
  "hoare P m Q E = (\<forall>w s. P s \<longrightarrow> (case m w s of (Inl e, _, s') \<Rightarrow> E s' | (Inr x, _, s') \<Rightarrow> Q x s'))"

named_theorems triple

lemma hoare_give [triple]: "(\<And>s. P s \<Longrightarrow> Q x s) \<Longrightarrow> hoare P (give x) Q E"
  by (simp add: hoare_def give_def)

lemma hoare_raise [triple]: "(\<And>s. P s \<Longrightarrow> E s) \<Longrightarrow> hoare P (raise_exc e) Q E"
  by (simp add: hoare_def raise_exc_def)

lemma hoare_andthen: "hoare P m R E \<Longrightarrow> (\<And>x. hoare (R x) (f x) Q E) \<Longrightarrow> hoare P (andthen m f) Q E"
  by (fastforce simp: hoare_def andthen_def split: prod.splits sum.splits)

lemma hoare_on_except: "hoare P m Q R \<Longrightarrow> (\<And>e. hoare R (h e) Q E) \<Longrightarrow> hoare P (on_except m h) Q E"
  by (fastforce simp: hoare_def on_except_def split: prod.splits sum.splits)

lemma hoare_ignore: "hoare P m Q Q' \<Longrightarrow> (\<And>s. Q' s \<Longrightarrow> Q () s) \<Longrightarrow> hoare P (ignore_errors m) Q E"
  unfolding ignore_errors_def by (rule hoare_on_except) (auto intro: triple)

lemma hoare_outside: "(\<And>x s. P s \<Longrightarrow> Q x s) \<Longrightarrow> (\<And>s. P s \<Longrightarrow> E s) \<Longrightarrow> hoare P (outside f) Q E"
  by (auto simp: hoare_def outside_def Let_def split: prod.splits sum.splits)

lemma hoare_outside_result:
  "(\<And>x s w w'. P s \<Longrightarrow> f w = (Inr x, w') \<Longrightarrow> Q x s) \<Longrightarrow> (\<And>s. P s \<Longrightarrow> E s) \<Longrightarrow> hoare P (outside f) Q E"
  by (fastforce simp: hoare_def outside_def Let_def split: prod.splits sum.splits)

lemma hoare_inspect: "(\<And>s. P s \<Longrightarrow> Q (f s) s) \<Longrightarrow> hoare P (inspect_state f) Q E"
  by (simp add: hoare_def inspect_state_def)

lemma hoare_change: "(\<And>s. P s \<Longrightarrow> Q () (f s)) \<Longrightarrow> hoare P (change_state f) Q E"
  by (simp add: hoare_def change_state_def)

lemma hoare_if: "(b \<Longrightarrow> hoare P m Q E) \<Longrightarrow> (\<not> b \<Longrightarrow> hoare P n Q E) \<Longrightarrow> hoare P (if b then m else n) Q E"
  by simp

lemma hoare_weaken: "hoare P m Q E \<Longrightarrow> (\<And>s. P' s \<Longrightarrow> P s) \<Longrightarrow> (\<And>x s. Q x s \<Longrightarrow> Q' x s) \<Longrightarrow> (\<And>s. E s \<Longrightarrow> E' s) \<Longrightarrow> hoare P' m Q' E'"
  by (fastforce simp: hoare_def split: prod.splits sum.splits)

lemma hoare_returns:
  assumes "hoare P m Q (\<lambda>_. False)" "P s" obtains x w' s' where "m w s = (Inr x, w', s')" "Q x s'"
proof -
  obtain r w' s' where run: "m w s = (r, w', s')" by (cases "m w s")
  from assms(1) [unfolded hoare_def, rule_format, OF assms(2), of w] run that show ?thesis by (cases r) auto
qed

section \<open>The state of a creation\<close>

definition same_slots :: "manager \<Rightarrow> manager \<Rightarrow> bool" where
  "same_slots m n = (mg_slots m = mg_slots n \<and> mg_inflight m = mg_inflight n \<and> mg_max_inflight m = mg_max_inflight n)"

definition tracked :: "string \<Rightarrow> string \<Rightarrow> manager \<Rightarrow> exec_server \<Rightarrow> bool" where
  \<comment> \<open>the record, not ready yet, and the operation are in the table, and the counters are those of \<open>n\<close>\<close>
  "tracked c x n s = ((\<exists>r. dget (mg_checkpoints (es_ckpts s)) c = Some r \<and> kr_status r \<noteq> Ck_Ready) \<and> dget (mg_ops (es_ckpts s)) x \<noteq> None \<and> same_slots (es_ckpts s) n)"

definition settled :: "bool \<Rightarrow> string \<Rightarrow> string \<Rightarrow> manager \<Rightarrow> exec_server \<Rightarrow> bool" where
  \<comment> \<open>the record is ready or failed, ready only if \<open>g\<close>, and the operation is over\<close>
  "settled g c x n s = ((\<exists>r. dget (mg_checkpoints (es_ckpts s)) c = Some r \<and> (kr_status r = Ck_Failed \<or> kr_status r = Ck_Ready \<and> g)) \<and>
     dget (mg_ops (es_ckpts s)) x = None \<and> same_slots (es_ckpts s) n)"

lemma mark_faulted_table: "mark_faulted now cid ftype s = (i, s') \<Longrightarrow> es_ckpts s' = es_ckpts s"
  by (auto simp: mark_faulted_def Let_def split: option.splits)

lemma pool_release_table: "pool_release d cid i w s = (r, w', s') \<Longrightarrow> es_ckpts s' = es_ckpts s"
  by (auto simp: pool_release_def split: prod.splits)

lemma kill_container_table: "kill_container d cid info ev w s = (ev', w', s') \<Longrightarrow> es_ckpts s' = es_ckpts s"
  by (auto simp: kill_container_def split: option.splits prod.splits sum.splits dest: pool_release_table)

lemma inject_keeps_table: "inject_fail_stop_fault d now cid ftype phase delay tag remove w s = (ev, w', s') \<Longrightarrow> es_ckpts s' = es_ckpts s"
  by (auto simp: inject_fail_stop_fault_def untrack_def split: prod.splits if_splits dest!: kill_container_table mark_faulted_table)

lemma hoare_injecting:
  assumes "\<And>s s' x. P s \<Longrightarrow> es_ckpts s' = es_ckpts s \<Longrightarrow> Q x s'"
  shows "hoare P (injecting d now cid ftype f) Q E"
  using assms by (auto simp: hoare_def injecting_def Let_def dest: inject_keeps_table split: prod.splits)

lemma tracked_update:
  assumes "\<And>r. kr_status (f r) = kr_status r"
  shows "hoare (tracked c x n) (change_table (update_record c f)) (\<lambda>_. tracked c x n) E"
  using assms by (auto simp: hoare_def change_table_def update_record_def tracked_def same_slots_def persist_record_def dget_dset split: option.splits)

lemma settles:
  assumes "\<And>r. kr_status (f r) = Ck_Failed \<or> kr_status (f r) = Ck_Ready \<and> g'" "\<And>y. ko_status (g y) \<in> {Ck_Ready, Ck_Failed}"
  shows "hoare (tracked c x n) (andthen (change_table (update_record c f)) (\<lambda>_. change_table (update_op x g))) (\<lambda>_. settled g' c x n) E"
  using assms by (auto simp: hoare_def andthen_def change_table_def update_record_def update_op_def tracked_def settled_def same_slots_def
      persist_record_def dget_dset dget_dpop split: option.splits)

lemma mark_failed_settles:
  assumes "\<And>r. kr_status (extra r) = kr_status r"
  shows "hoare (tracked c x n) (mark_failed c x t err extra) (\<lambda>_. settled g c x n) E"
  unfolding mark_failed_def by (rule settles) (simp_all add: assms)

lemma usable_keeps: "hoare P (usable d cid) (\<lambda>_. P) P"
  unfolding usable_def by (rule hoare_andthen [where R = "\<lambda>_. P"], rule hoare_inspect, assumption)
    (auto intro: hoare_outside triple)

lemma outside_keeps: "hoare P (outside f) (\<lambda>_. P) P"
  by (rule hoare_outside)

lemma inspect_keeps: "hoare P (inspect_state f) (\<lambda>_. P) E"
  by (rule hoare_inspect)

lemma injecting_tracked: "hoare (tracked c x n) (injecting d now cid ftype f) (\<lambda>_. tracked c x n) E"
  by (rule hoare_injecting) (simp add: tracked_def)

lemma hoare_pure: "(A \<Longrightarrow> hoare P m Q E) \<Longrightarrow> hoare (\<lambda>s. P s \<and> A) m Q E"
  by (auto simp: hoare_def)

definition committed :: "'w host_api \<Rightarrow> string \<Rightarrow> string \<Rightarrow> bool" where
  \<comment> \<open>docker has committed the container to the image\<close>
  "committed h cid img = (\<exists>t w x w'. run_docker (ha_docker h) [''commit'', cid, img] t w = (Inr x, w') \<and> dr_code x = 0)"

lemma commit_worker_settles:
  "hoare (tracked (kr_checkpoint_id r) x n) (commit_worker h now later x cid img r env spec)
     (\<lambda>_. settled (committed h cid img) (kr_checkpoint_id r) x n) (tracked (kr_checkpoint_id r) x n)" (is "hoare ?T _ ?S _")
proof -
  have commit: "hoare ?T (outside (run_docker (ha_docker h) [''commit'', cid, img] t))
      (\<lambda>x s. ?T s \<and> (dr_code x = 0 \<longrightarrow> committed h cid img)) ?T" for t
    by (rule hoare_outside_result) (auto simp: committed_def)
  show ?thesis unfolding commit_worker_def Let_def
    by (rule hoare_andthen [OF commit] hoare_pure hoare_andthen [OF usable_keeps] hoare_andthen [OF outside_keeps] hoare_andthen [OF inspect_keeps]
        hoare_andthen [OF injecting_tracked] hoare_if mark_failed_settles settles | simp add: faulted_record_def)+
qed

lemma recover_keeps: "hoare P (recover_source h droot cid c) (\<lambda>_. P) P"
  by (auto simp: hoare_def recover_source_def Let_def split: prod.splits sum.splits bool.splits option.splits)

lemmas tracked_steps = hoare_andthen [OF usable_keeps] hoare_andthen [OF outside_keeps] hoare_andthen [OF inspect_keeps]
  hoare_andthen [OF injecting_tracked] hoare_andthen [OF tracked_update] hoare_andthen [OF recover_keeps]

definition checkpointed :: "'w host_api \<Rightarrow> string \<Rightarrow> string \<Rightarrow> bool" where
  \<comment> \<open>the library has checkpointed the container and brought it back, with exec working\<close>
  "checkpointed h cid ckpt_id = ((\<exists>q w w'. ha_full_checkpoint h q w = (Inr (), w') \<and> fq_container_id q = cid \<and> fq_checkpoint_id q = ckpt_id) \<and>
     (\<exists>q w x w'. ha_full_resume h q w = (Inr x, w') \<and> fu_container_id q = cid \<and> fu_checkpoint_id q = ckpt_id \<and> fu_exec_supported x))"

lemma full_section_tracked:
  "hoare (tracked (kr_checkpoint_id r) x n) (full_section h now droot cid r spec)
     (\<lambda>_ s. tracked (kr_checkpoint_id r) x n s \<and> checkpointed h cid (kr_checkpoint_id r)) (tracked (kr_checkpoint_id r) x n)" (is "hoare ?T _ ?Q _")
proof -
  let ?q = "\<lambda>c. \<lparr>fq_container_id = cid, fq_checkpoint_id = kr_checkpoint_id r, fq_state_root = state_root c r,
    fq_docker_root = droot, fq_criu_timeout = max 1 (xc_criu_timeout c),
    fq_staging_root = (if strip (xc_staging_root c) = [] then None else Some (strip (xc_staging_root c)))\<rparr>"
  let ?u = "\<lambda>c. \<lparr>fu_checkpoint_id = kr_checkpoint_id r, fu_container_id = cid, fu_state_root = state_root c r,
    fu_docker_root = droot, fu_criu_timeout = max 1 (xc_criu_timeout c)\<rparr>"
  let ?A = "\<lambda>c. \<exists>w w'. ha_full_checkpoint h (?q c) w = (Inr (), w')"
  let ?B = "\<lambda>c y. \<exists>w w'. ha_full_resume h (?u c) w = (Inr y, w')"
  have take: "hoare ?T (outside (ha_full_checkpoint h (?q c))) (\<lambda>_ s. ?T s \<and> ?A c) ?T" for c
    by (rule hoare_outside_result) (metis (full_types) old.unit.exhaust)+
  have resume: "hoare ?T (outside (ha_full_resume h (?u c))) (\<lambda>y s. ?T s \<and> ?B c y) ?T" for c
    by (rule hoare_outside_result) blast+
  have known: "checkpointed h cid (kr_checkpoint_id r)" if "?A c" "?B c y" "fu_exec_supported y" for c y
  proof -
    have "\<exists>w w'. ha_full_checkpoint h (?q c) w = (Inr (), w') \<and> fq_container_id (?q c) = cid \<and> fq_checkpoint_id (?q c) = kr_checkpoint_id r"
      using that(1) by simp
    moreover have "\<exists>w w'. ha_full_resume h (?u c) w = (Inr y, w') \<and> fu_container_id (?u c) = cid \<and> fu_checkpoint_id (?u c) = kr_checkpoint_id r
      \<and> fu_exec_supported y" using that(2,3) by simp
    ultimately show ?thesis unfolding checkpointed_def by blast
  qed
  show ?thesis unfolding full_section_def Let_def
    by (rule hoare_andthen [OF take] hoare_andthen [OF resume] hoare_pure tracked_steps hoare_if hoare_raise hoare_ignore [OF outside_keeps]
        | assumption | simp add: faulted_record_def known)+
qed

lemma full_failed_tracked: "hoare (tracked c x n) (full_failed h cid c attempted e) Q (tracked c x n)"
  unfolding full_failed_def
  by (rule hoare_andthen [where R = "\<lambda>_. tracked c x n"], rule hoare_ignore [where Q' = "tracked c x n"],
      rule hoare_andthen [where R = "\<lambda>_. tracked c x n"])
    (auto intro!: hoare_if hoare_give usable_keeps tracked_update hoare_raise)

lemma full_ready_settles:
  assumes "g"
  shows "hoare (tracked (kr_checkpoint_id r) x n) (full_ready h c later x r) (\<lambda>_. settled g (kr_checkpoint_id r) x n)
     (tracked (kr_checkpoint_id r) x n)"
  unfolding full_ready_def using assms by - (rule tracked_steps settles | simp)+

lemma full_worker_settles:
  "hoare (tracked (kr_checkpoint_id r) x n) (full_worker h now later x cid r spec)
     (\<lambda>_. settled (checkpointed h cid (kr_checkpoint_id r)) (kr_checkpoint_id r) x n) (tracked (kr_checkpoint_id r) x n)"
  (is "hoare ?T _ ?S _")
proof -
  let ?g = "checkpointed h cid (kr_checkpoint_id r)"
  have problem: "hoare ?T (on_except (andthen (full_section h now droot cid r spec) (\<lambda>_. give None))
      (\<lambda>e. andthen (recover_source h droot cid c) (\<lambda>attempted. give (Some (e, attempted)))))
      (\<lambda>p s. ?T s \<and> (p = None \<longrightarrow> ?g)) ?T" for droot c
    by (rule hoare_on_except [where R = ?T] hoare_andthen [OF full_section_tracked] hoare_andthen [OF recover_keeps] hoare_give | assumption | simp)+
  have "hoare (\<lambda>s. ?T s \<and> (p = None \<longrightarrow> ?g)) (case p of Some (e, attempted) \<Rightarrow> full_failed h cid (kr_checkpoint_id r) attempted e
      | None \<Rightarrow> on_except (full_ready h c later x r) (full_failed h cid (kr_checkpoint_id r) False)) ?S ?T" for p c
    by (rule hoare_pure, cases p) (auto intro: full_failed_tracked hoare_on_except [OF full_ready_settles] split: prod.split)
  then show ?thesis unfolding full_worker_def Let_def by (intro tracked_steps hoare_andthen [OF problem])
qed

lemma worker_failed_settles: "hoare (tracked c x n) (worker_failed h later c x e) (\<lambda>_. settled g c x n) E"
proof -
  have cool: "hoare (tracked c x n) (change_state (add_cooldown later)) (\<lambda>_. tracked c x n) E"
    by (rule hoare_change) (simp add: tracked_def add_cooldown_def)
  have "hoare (tracked c x n) (mark_failed c x later err id) (\<lambda>_. settled g c x n) E" for err
    by (rule mark_failed_settles) simp
  then show ?thesis unfolding worker_failed_def
    by (cases e) (auto intro!: hoare_andthen [OF cool] hoare_andthen [OF inspect_keeps])
qed

definition counted :: "manager \<Rightarrow> manager \<Rightarrow> bool" where
  \<comment> \<open>a creation in flight: one slot less and one creation more than in \<open>n\<close>\<close>
  "counted m n = (mg_slots n = mg_slots m - 1 \<and> mg_inflight n = mg_inflight m + 1 \<and> mg_max_inflight n = mg_max_inflight m \<and>
     mg_slots m \<le> mg_max_inflight m \<and> 0 \<le> mg_inflight m)"

lemma end_create_counted:
  assumes "counted m n" "same_slots m' n"
  obtains m'' where "end_create m' = Inr m''" "same_slots m'' m" "mg_checkpoints m'' = mg_checkpoints m'" "mg_ops m'' = mg_ops m'"
  using assms by (auto simp: end_create_def count_down_def release_slot_def counted_def same_slots_def)

definition made :: "'w host_api \<Rightarrow> string \<Rightarrow> string \<Rightarrow> string \<Rightarrow> string \<Rightarrow> bool" where
  "made h backend cid img ckpt_id = (if backend = ''full'' then checkpointed h cid ckpt_id else committed h cid img)"

lemma create_worker_settles:
  assumes "counted m n" "tracked (kr_checkpoint_id r) x n s" "record_backend r = Inr b"
    and "create_worker h now later x cid img r env spec w s = (res, w', s')"
  shows "\<exists>f. res = Inr (Some f) \<and> dget (mg_checkpoints (es_ckpts s')) (kr_checkpoint_id r) = Some f \<and>
    settled (made h b cid img (kr_checkpoint_id r)) (kr_checkpoint_id r) x m s'"
proof -
  let ?c = "kr_checkpoint_id r"
  let ?g = "made h b cid img ?c"
  let ?body = "case record_backend r of Inl e \<Rightarrow> raise_exc e
    | Inr b \<Rightarrow> if b = ''full'' then full_worker h now later x cid r spec else commit_worker h now later x cid img r env spec"
  have "hoare (tracked ?c x n) ?body (\<lambda>_. settled ?g ?c x n) (tracked ?c x n)"
    using full_worker_settles [of r x n h now later cid spec] commit_worker_settles [of r x n h now later cid img env spec]
    by (cases "b = ''full''") (simp_all add: assms(3) made_def)
  then have "hoare (tracked ?c x n) (on_except ?body (worker_failed h later ?c x)) (\<lambda>_. settled ?g ?c x n) (\<lambda>_. False)"
    by (rule hoare_on_except) (rule worker_failed_settles)
  from hoare_returns [OF this assms(2), of w]
  obtain u w1 s1 where run: "on_except ?body (worker_failed h later ?c x) w s = (Inr u, w1, s1)" "settled ?g ?c x n s1" by blast
  then have "same_slots (es_ckpts s1) n" by (simp add: settled_def)
  with assms(1) obtain m'' where fin: "end_create (es_ckpts s1) = Inr m''" "same_slots m'' m"
    "mg_checkpoints m'' = mg_checkpoints (es_ckpts s1)" "mg_ops m'' = mg_ops (es_ckpts s1)" by (rule end_create_counted)
  have "(res, w', s') = (Inr (get_record ?c (es_ckpts s1)), w1, s1\<lparr>es_ckpts := m''\<rparr>)"
    using assms(4) unfolding create_worker_def Let_def run(1) by (simp add: fin(1))
  moreover obtain f where f: "dget (mg_checkpoints (es_ckpts s1)) ?c = Some f" "kr_status f = Ck_Failed \<or> kr_status f = Ck_Ready \<and> ?g"
    "dget (mg_ops (es_ckpts s1)) x = None" using run(2) by (auto simp: settled_def)
  ultimately show ?thesis using fin(2-4) by (simp add: settled_def get_record_def)
qed

section \<open>The create route\<close>

lemma backend_names: "normalize_backend v dflt = Inr b \<Longrightarrow> b = ''full'' \<or> b = ''legacy''"
  by (auto simp: normalize_backend_def Let_def split: if_splits)

lemma backend_again: "normalize_backend v dflt = Inr b \<Longrightarrow> normalize_backend (Some b) dflt' = Inr b"
  by (drule backend_names) (auto simp: normalize_backend_def or_else_def, code_simp+)

lemma created_record:
  assumes "normalize_backend v dflt = Inr b" "counted m n"
  obtains r y n' where "create_record hex ohex now (ckpt_args_of q b i) n = (Inr (r, y), n')" "kr_checkpoint_id r = ''swe-ckpt-'' @ hex"
    "kr_backend r = Some b" "kr_checkpoint_image r = (if b = ''legacy'' then Some (image_tag (kr_checkpoint_id r)) else None)"
    "ko_op_id y = ''swe-ckpt-op-'' @ ohex" "kr_status r = Ck_Pending" "dget (mg_checkpoints n') (kr_checkpoint_id r) = Some r"
    "dget (mg_ops n') (ko_op_id y) = Some y" "same_slots n' n"
  by (auto simp: create_record_def Let_def ckpt_args_of_def backend_again [OF assms(1)] persist_record_def same_slots_def dget_dset
      intro!: that)

lemma run_creation_settles:
  assumes "counted m n" "tracked (kr_checkpoint_id r0) (ko_op_id y) n s" "kr_backend r0 = Some b" "normalize_backend v dflt = Inr b"
    and "get_record (kr_checkpoint_id r0) (es_ckpts s) = Some r0"
    and img: "kr_checkpoint_image r0 = (if b = ''legacy'' then Some img else None)"
  shows "\<exists>f w' s'. run_creation h now later q b spec i r0 y w s = (Inr (creation_reply (ko_op_id y) (Some f)), w', s') \<and>
    dget (mg_checkpoints (es_ckpts s')) (kr_checkpoint_id r0) = Some f \<and>
    settled (made h b (jstr (kq_container_id q)) img (kr_checkpoint_id r0)) (kr_checkpoint_id r0) (ko_op_id y) m s'"
proof -
  let ?env = "dmerge (normalize_env (vals (ai_runtime_env i))) (normalize_env (kq_env q))"
  let ?c = "kr_checkpoint_id r0"
  let ?f = "\<lambda>r :: ckpt_record. r\<lparr>kr_runtime_env := ?env, kr_state_root := (if b = ''full'' then Some (state_root (es_config s) r0) else None)\<rparr>"
  let ?r1 = "?f r0"
  obtain m1 where upd: "update_record ?c ?f (es_ckpts s) = Inr m1" and got: "get_record ?c m1 = Some ?r1"
    using assms(5) by (simp add: update_record_def get_record_def persist_record_def dget_dset)
  have "tracked ?c (ko_op_id y) n (s\<lparr>es_ckpts := m1\<rparr>)"
    using hoare_returns [OF tracked_update [of ?f] assms(2), of w] upd by (auto simp: change_table_def)
  then have tr: "tracked (kr_checkpoint_id ?r1) (ko_op_id y) n (s\<lparr>es_ckpts := m1\<rparr>)" by simp
  have backend: "record_backend ?r1 = Inr b" using assms(3) backend_again [OF assms(4)] by (simp add: record_backend_def)
  let ?img = "case kr_checkpoint_image ?r1 of None \<Rightarrow> [] | Some img \<Rightarrow> img"
  obtain res w' s' where run: "create_worker h now later (ko_op_id y) (jstr (kq_container_id q)) ?img ?r1 ?env spec w (s\<lparr>es_ckpts := m1\<rparr>) = (res, w', s')"
    by (metis prod_cases3)
  from create_worker_settles [OF assms(1) tr backend this] obtain f where f: "res = Inr (Some f)"
    "dget (mg_checkpoints (es_ckpts s')) ?c = Some f"
    "settled (made h b (jstr (kq_container_id q)) ?img ?c) ?c (ko_op_id y) m s'" by auto
  have "made h b (jstr (kq_container_id q)) ?img ?c = made h b (jstr (kq_container_id q)) img ?c"
    using img backend_names [OF assms(4)] by (auto simp: made_def)
  moreover have "run_creation h now later q b spec i r0 y w s = (Inr (creation_reply (ko_op_id y) (Some f)), w', s')"
    using run unfolding run_creation_def Let_def
    by (simp add: andthen_def inspect_state_def change_table_def upd got f(1) give_def)
  ultimately show ?thesis using f(2,3) by simp
qed

text \<open>C26. When the create route has taken a slot, it gives the slot back, ends the operation and leaves the
  record ready or failed, never pending; the reply is a success exactly when the record is ready, and then
  docker has committed the container to the record's image, or the library has checkpointed and resumed
  it.  A request turned down changes nothing.  The route raises nothing.\<close>

theorem checkpoint_create_settles:
  assumes "0 \<le> mg_inflight (es_ckpts s)" "mg_slots (es_ckpts s) \<le> mg_max_inflight (es_ckpts s)"
    and "container_checkpoint_create h hex ohex now later q w s = (res, w', s')"
  shows "\<exists>x. res = Inr x \<and> same_slots (es_ckpts s') (es_ckpts s) \<and>
    (case x of
       Create_Ok f op_id \<Rightarrow>
         op_id = ''swe-ckpt-op-'' @ ohex \<and> get_record (''swe-ckpt-'' @ hex) (es_ckpts s') = Some f \<and> kr_status f = Ck_Ready \<and>
         dget (mg_ops (es_ckpts s')) op_id = None \<and>
         (\<exists>b. normalize_backend (kq_backend q) (xc_checkpoint_backend (es_config s)) = Inr b \<and>
           made h b (jstr (kq_container_id q)) (image_tag (''swe-ckpt-'' @ hex)) (''swe-ckpt-'' @ hex))
     | Create_Failed e r \<Rightarrow>
         (\<exists>f. r = Some f \<and> get_record (''swe-ckpt-'' @ hex) (es_ckpts s') = Some f \<and> kr_status f = Ck_Failed) \<and>
         dget (mg_ops (es_ckpts s')) (''swe-ckpt-op-'' @ ohex) = None
     | _ \<Rightarrow> w' = w \<and> s' = s)"
proof (cases "create_guard now q s")
  case (Inl reply)
  have "same_slots (es_ckpts s) (es_ckpts s)" by (simp add: same_slots_def)
  moreover have "(\<exists>a b c. reply = Create_Refused a b c) \<or> (\<exists>a b. reply = Create_Busy a b)"
    using Inl by (auto simp: create_guard_def parent_problem_def Let_def split: if_splits sum.splits option.splits)
  ultimately show ?thesis using Inl assms(3) by (auto simp: container_checkpoint_create_def give_def)
next
  case (Inr g)
  then obtain b spec i where g: "create_guard now q s = Inr (b, spec, i)" by (cases g) auto
  then have nb: "normalize_backend (kq_backend q) (xc_checkpoint_backend (es_config s)) = Inr b"
    by (auto simp: create_guard_def Let_def split: if_splits sum.splits option.splits)
  show ?thesis
  proof (cases "acquire_slot (es_ckpts s)")
    case None
    then have "res = Inr (Create_Busy ''checkpoint_inflight_limit'' 1)" "w' = w" "s' = s"
      using g assms(3) by (auto simp: container_checkpoint_create_def try_begin_create_def give_def)
    then show ?thesis by (simp add: same_slots_def)
  next
    case (Some m1)
    let ?n = "count_up m1"
    have cnt: "counted (es_ckpts s) ?n" using Some assms(1,2) by (auto simp: acquire_slot_def count_up_def counted_def split: if_splits)
    from nb cnt obtain r y n' where r: "create_record hex ohex now (ckpt_args_of q b i) ?n = (Inr (r, y), n')"
      "kr_checkpoint_id r = ''swe-ckpt-'' @ hex" "kr_backend r = Some b"
      "kr_checkpoint_image r = (if b = ''legacy'' then Some (image_tag (kr_checkpoint_id r)) else None)"
      "ko_op_id y = ''swe-ckpt-op-'' @ ohex" "kr_status r = Ck_Pending" "dget (mg_checkpoints n') (kr_checkpoint_id r) = Some r"
      "dget (mg_ops n') (ko_op_id y) = Some y" "same_slots n' ?n" by (rule created_record)
    let ?s = "s\<lparr>es_ckpts := n'\<rparr>"
    have "tracked (kr_checkpoint_id r) (ko_op_id y) ?n ?s" using r(6-9) by (simp add: tracked_def)
    moreover have "get_record (kr_checkpoint_id r) (es_ckpts ?s) = Some r" using r(7) by (simp add: get_record_def)
    ultimately obtain f w2 s2 where f: "run_creation h now later q b spec i r y w ?s = (Inr (creation_reply (ko_op_id y) (Some f)), w2, s2)"
      "dget (mg_checkpoints (es_ckpts s2)) (kr_checkpoint_id r) = Some f"
      "settled (made h b (jstr (kq_container_id q)) (image_tag (kr_checkpoint_id r)) (kr_checkpoint_id r)) (kr_checkpoint_id r) (ko_op_id y) (es_ckpts s) s2"
      using run_creation_settles [OF cnt _ r(3) nb _ r(4), where s = ?s and h = h and now = now and later = later and q = q and spec = spec and i = i and w = w and y = y] by auto
    have "(res, w', s') = (Inr (creation_reply (ko_op_id y) (Some f)), w2, s2)"
      using assms(3) g Some r(1) f(1) by (simp add: container_checkpoint_create_def try_begin_create_def create_and_wait_def on_except_def)
    with f(2,3) nb show ?thesis
      by (cases "kr_status f = Ck_Ready") (auto simp: creation_reply_def settled_def get_record_def r(2,5))
  qed
qed

section \<open>A small docker\<close>

type_synonym demo_docker_world = "(string, string) dict \<times> (string, string) dict"     \<comment> \<open>a file of each container and image\<close>

definition demo_copy :: "string option \<Rightarrow> string \<Rightarrow> (string, string) dict \<Rightarrow> (string, string) dict" where
  "demo_copy v k d = (case v of None \<Rightarrow> dpop k d | Some t \<Rightarrow> dset k t d)"

definition demo_docker :: "demo_docker_world docker" where
  "demo_docker q w =
     (let C = fst w; I = snd w; yes = (\<lambda>out. Inr \<lparr>dr_code = 0, dr_stdout = out, dr_stderr = []\<rparr>)
      in case dq_args q of
           a # b # args \<Rightarrow>
             (if a = ''exec'' \<and> length args = 3
              then (case dget C b of None \<Rightarrow> (Inr \<lparr>dr_code = 1, dr_stdout = [], dr_stderr = ''no file''\<rparr>, w) | Some t \<Rightarrow> (yes t, w))
              else if a = ''exec'' \<and> b = ''-i''
              then (yes [], case (args, dq_input q) of (cid # _, Some t) \<Rightarrow> (dset cid t C, I) | _ \<Rightarrow> w)
              else if a = ''commit'' then (yes [], case args of img # _ \<Rightarrow> (C, demo_copy (dget C b) img I) | _ \<Rightarrow> w)
              else if a = ''run'' then (yes ''n'', case rev args of _ # _ # img # _ \<Rightarrow> (demo_copy (dget I img) ''n'' C, I) | _ \<Rightarrow> w)
              else (yes (if a = ''inspect'' then ''true'' else []), w))
         | _ \<Rightarrow> (yes [], w))"

definition demo_pool_config :: pool_config where
  "demo_pool_config = \<lparr>wc_enabled = True, wc_max_size_per_image = 4, wc_max_total_size = 4, wc_default_cwd = ''/testbed'',
     wc_create_timeout = 1200, wc_health_timeout = 10, wc_prewarm_ratio = 1, wc_prewarm_max_concurrency = 0, wc_node_max = 0\<rparr>"

definition demo_exec_config :: exec_cfg where
  "demo_exec_config = \<lparr>xc_pool = demo_pool_config, xc_checkpoint_enabled = True, xc_checkpoint_dir = ''/ck'',
     xc_checkpoint_backend = ''legacy'', xc_create_timeout = 60, xc_state_root = [], xc_docker_root = ''/docker'', xc_staging_root = [],
     xc_criu_timeout = 60, xc_cooldown = 30, xc_min_ready_latency = 0, xc_fault_probability = 0\<rparr>"

definition demo_active :: active_info where
  "demo_active = \<lparr>ai_name = ''swe-1'', ai_image = ''base'', ai_cwd = ''/work'', ai_runtime_env = [], ai_runtime_state = None,
     ai_created_at = 0, ai_pooled = False, ai_acquisition = ''cold_create'', ai_create_time = 1, ai_reset_time = 0, ai_faulted = True,
     ai_fault_injected_at = Some 1, ai_last_fault_type = Some ''kill''\<rparr>"

definition demo_exec_server :: exec_server where
  "demo_exec_server = \<lparr>es_config = demo_exec_config, es_pool = new_warm_pool [], es_active = [(''c1'', demo_active)],
     es_ckpts = new_manager 1 [] None, es_cooldown_until = 0, es_gc_tasks = []\<rparr>"

definition demo_request :: ckpt_req where
  "demo_request = \<lparr>kq_container_id = Val ''c1'', kq_lease_id = ''l'', kq_generation = 0, kq_instance_id = ''i'', kq_cwd = None,
     kq_step_idx = 1, kq_command_seq = 2, kq_policy = [], kq_reason = ''manual'', kq_parent = Null, kq_backend = None, kq_env = [], kq_spec = None\<rparr>"

definition demo_env :: "(string, string) dict" where
  "demo_env = [(''PATH'', ''/bin'')]"

definition demo_exec_host :: "runtime_state \<Rightarrow> demo_docker_world host_api" where
  \<comment> \<open>the state every text decodes to\<close>
  "demo_exec_host st = \<lparr>ha_docker = demo_docker, ha_getenv = (\<lambda>_. []), ha_dumps = (\<lambda>_. ''state''), ha_loads = (\<lambda>_. Inr st),
     ha_loads_env = (\<lambda>_. Inr (vals demo_env)), ha_full_api = (\<lambda>_ w. (Inl (RuntimeError ''absent''), w)),
     ha_full_checkpoint = (\<lambda>_ w. (Inl (RuntimeError ''absent''), w)), ha_full_resume = (\<lambda>_ w. (Inl (RuntimeError ''absent''), w)),
     ha_dir_size = (\<lambda>_ w. (Inr 0, w)), ha_rmtree = (\<lambda>_ w. (Inr (), w)), ha_seconds = (\<lambda>_. [])\<rparr>"

definition demo_state :: runtime_state where
  "demo_state = full_state ''swe-ckpt-ab'' ''/work'' demo_env"

definition demo_created_ckpt :: "create_reply res \<times> demo_docker_world \<times> exec_server" where
  "demo_created_ckpt = container_checkpoint_create (demo_exec_host demo_state) ''ab'' ''cd'' 0 1 demo_request ([], []) demo_exec_server"

lemma checkpoint_create_settles_witness:
  "mg_slots (es_ckpts (snd (snd demo_created_ckpt))) = 1 \<and>
   (\<exists>f. get_record ''swe-ckpt-ab'' (es_ckpts (snd (snd demo_created_ckpt))) = Some f \<and> kr_status f = Ck_Ready) \<and>
   committed (demo_exec_host demo_state) ''c1'' ''sweckpt:swe-ckpt-ab''"
proof -
  have run: "container_checkpoint_create (demo_exec_host demo_state) ''ab'' ''cd'' 0 1 demo_request ([], []) demo_exec_server =
    (fst demo_created_ckpt, fst (snd demo_created_ckpt), snd (snd demo_created_ckpt))" by (simp add: demo_created_ckpt_def)
  have ok: "(case fst demo_created_ckpt of Inr (Create_Ok f op_id) \<Rightarrow> True | _ \<Rightarrow> False) \<and> mg_slots (es_ckpts (demo_exec_server)) = 1 \<and>
    image_tag ''swe-ckpt-ab'' = ''sweckpt:swe-ckpt-ab'' \<and>
    normalize_backend (kq_backend demo_request) (xc_checkpoint_backend (es_config demo_exec_server)) = Inr ''legacy'' \<and>
    0 \<le> mg_inflight (es_ckpts demo_exec_server) \<and> mg_slots (es_ckpts demo_exec_server) \<le> mg_max_inflight (es_ckpts demo_exec_server) \<and>
    jstr (kq_container_id demo_request) = ''c1''" by code_simp
  then obtain f op_id where "fst demo_created_ckpt = Inr (Create_Ok f op_id)"
    by (auto split: sum.split_asm create_reply.split_asm)
  with checkpoint_create_settles [OF _ _ run] ok show ?thesis by (auto simp: same_slots_def made_def)
qed

section \<open>Rerun\<close>

lemma normalize_env_dget: "dget (normalize_env raw) k =
    (if k \<in> set env_whitelist then (case dget raw k of Some (Val (c # cs)) \<Rightarrow> Some (c # cs) | _ \<Rightarrow> None) else None)"
proof -
  have "dget (List.map_filter (\<lambda>k. case dget raw k of Some (Val (c # cs)) \<Rightarrow> Some (k, c # cs) | _ \<Rightarrow> None) ks) k =
    (if k \<in> set ks then (case dget raw k of Some (Val (c # cs)) \<Rightarrow> Some (c # cs) | _ \<Rightarrow> None) else None)" for ks
    by (induction ks) (auto simp: List.map_filter_simps split: option.splits jfield.splits list.splits)
  then show ?thesis by (simp add: normalize_env_def)
qed

lemma dget_vals: "dget (vals env) k = map_option Val (dget env k)"
  by (induction env) (auto simp: vals_def)

lemma normalize_env_again: "normalize_env (vals (normalize_env raw)) = normalize_env raw"
proof -
  have "List.map_filter (\<lambda>k. case dget (vals (normalize_env raw)) k of Some (Val (c # cs)) \<Rightarrow> Some (k, c # cs) | _ \<Rightarrow> None) ks =
    List.map_filter (\<lambda>k. case dget raw k of Some (Val (c # cs)) \<Rightarrow> Some (k, c # cs) | _ \<Rightarrow> None) ks" if "set ks \<subseteq> set env_whitelist" for ks
    using that by (induction ks) (auto simp: List.map_filter_simps dget_vals normalize_env_dget split: option.splits jfield.splits list.splits)
  from this [OF order_refl] show ?thesis unfolding normalize_env_def .
qed

definition used_record :: "real \<Rightarrow> string \<Rightarrow> exec_server \<Rightarrow> manager" where
  "used_record now ckpt_id s = (case mark_used now ckpt_id (es_ckpts s) of Inl _ \<Rightarrow> es_ckpts s | Inr m \<Rightarrow> m)"

definition taken_over :: "real \<Rightarrow> string \<Rightarrow> string \<Rightarrow> string \<Rightarrow> active_info \<Rightarrow> exec_server \<Rightarrow> exec_server" where
  "taken_over now ckpt_id old new info s =
     s\<lparr>es_active := dset new info (if old = [] then es_active s else dpop old (es_active s)), es_ckpts := used_record now ckpt_id s\<rparr>"

definition old_info :: "string \<Rightarrow> exec_server \<Rightarrow> active_info option" where
  "old_info old s = (if old = [] then None else dget (es_active s) old)"

lemma take_over_all:
  assumes "get_record ckpt_id (es_ckpts s) = Some r"
  shows "hoare ((=) s) (take_over d now ckpt_id old new info) (\<lambda>_. (=) (taken_over now ckpt_id old new (info (old_info old s)) s)) ((=) s)"
proof -
  have "hoare ((=) s) (if old = [] then give () else outside (destroy_container d 300 old)) (\<lambda>_. (=) s) ((=) s)"
    by (auto intro: hoare_give outside_keeps)
  moreover have "hoare ((=) s) (andthen (change_state (swap_container old new info)) (\<lambda>_. change_table (mark_used now ckpt_id)))
      (\<lambda>_. (=) (taken_over now ckpt_id old new (info (old_info old s)) s)) ((=) s)"
    using assms by (simp add: hoare_def andthen_def change_state_def change_table_def swap_container_def mark_used_def update_record_def
        get_record_def taken_over_def used_record_def old_info_def Let_def)
  ultimately show ?thesis unfolding take_over_def by (rule hoare_andthen)
qed

definition restores :: "'w docker \<Rightarrow> real \<Rightarrow> string \<Rightarrow> string \<Rightarrow> exec_server \<Rightarrow> rerun_out \<Rightarrow> exec_server \<Rightarrow> bool" where
  \<comment> \<open>the new container stands for the old one, with the environment of a state it was validated against\<close>
  "restores d now ckpt_id old s out s' =
     (\<exists>info st. s' = taken_over now ckpt_id old (ro_new_container_id out) info s \<and> (\<exists>w w'. validate_restore d (ro_new_container_id out) st w = (Inr (), w')) \<and>
        ai_runtime_state info = Some st \<and> ai_runtime_env info = normalize_env (rs_env st) \<and>
        (\<forall>c. rs_cwd st = Some c \<longrightarrow> c \<noteq> [] \<longrightarrow> ai_cwd info = c) \<and> \<not> ai_pooled info \<and> ai_image info = ro_image out)"

lemma hoare_validate:
  "hoare ((=) s) (outside (validate_restore d new st)) (\<lambda>_ s'. s = s' \<and> (\<exists>w w'. validate_restore d new st w = (Inr (), w'))) ((=) s)"
  by (rule hoare_outside_result) (metis (full_types) old.unit.exhaust)+

lemma restoresI:
  assumes "\<exists>w w'. validate_restore d new st w = (Inr (), w')" "env = normalize_env (rs_env st)"
    and "\<And>c. rs_cwd st = Some c \<Longrightarrow> c \<noteq> [] \<Longrightarrow> cwd = c"
  shows "restores d now ckpt_id old s \<lparr>ro_new_container_id = new, ro_create_time = t, ro_image = img\<rparr>
    (taken_over now ckpt_id old new (restored_info i name img cwd env st now how t) s)"
  unfolding restores_def using assms
  by (intro exI [where x = "restored_info i name img cwd env st now how t"] exI [where x = st]) (simp add: restored_info_def)

lemma commit_restore_all:
  assumes "get_record ckpt_id (es_ckpts s) = Some r"
  shows "hoare ((=) s) (commit_restore h now ckpt_id img cwd old c) (restores (ha_docker h) now ckpt_id old s) ((=) s)"
  unfolding commit_restore_def Let_def
  by (rule hoare_andthen [OF hoare_validate] hoare_andthen [OF outside_keeps] hoare_andthen [OF take_over_all [OF assms]] hoare_pure hoare_give)+
    (auto simp: first_text_def intro!: restoresI)

lemma full_restore_all:
  assumes "get_record (kr_checkpoint_id r) (es_ckpts s) = Some r'"
  shows "hoare ((=) s) (full_restore h c droot target elapsed now r cwd old) (restores (ha_docker h) now (kr_checkpoint_id r) old s) ((=) s)"
  unfolding full_restore_def Let_def
  by (rule hoare_if hoare_raise hoare_andthen [OF hoare_validate] hoare_andthen [OF outside_keeps]
      hoare_andthen [OF hoare_ignore [OF outside_keeps]] hoare_andthen [OF take_over_all [OF assms]] hoare_pure hoare_give | assumption)+
    (auto simp: full_state_def normalize_env_again intro!: restoresI)

lemma destroyed_and_raised: "hoare P (andthen (ignore_errors (outside f)) (\<lambda>_. raise_exc e)) Q P"
  by (rule hoare_andthen [OF hoare_ignore [OF outside_keeps]] hoare_raise | assumption)+

lemma commit_rerun_all:
  assumes "get_record ckpt_id (es_ckpts s) = Some r"
  shows "hoare ((=) s) (commit_rerun h uid elapsed now ckpt_id img cwd timeout old) (restores (ha_docker h) now ckpt_id old s) ((=) s)"
  unfolding commit_rerun_def Let_def
  by (intro hoare_andthen [OF outside_keeps] hoare_on_except [OF commit_restore_all [OF assms]] destroyed_and_raised)

lemma full_rerun_all:
  assumes "get_record (kr_checkpoint_id r) (es_ckpts s) = Some r'"
  shows "hoare ((=) s) (full_rerun h uid elapsed now r cwd old) (restores (ha_docker h) now (kr_checkpoint_id r) old s) ((=) s)"
  unfolding full_rerun_def Let_def
  by (intro hoare_if hoare_raise hoare_andthen [OF outside_keeps] hoare_andthen [OF inspect_keeps] hoare_on_except [OF full_restore_all [OF assms]]
      destroyed_and_raised)


definition demo_rerun_request :: container_rerun_req where
  "demo_rerun_request = \<lparr>rr_checkpoint_id = Val ''swe-ckpt-ab'', rr_old_container_id = Val ''c1'', rr_lease_id = Absent, rr_cwd = None, rr_timeout = None\<rparr>"

definition demo_ready_server :: exec_server where
  "demo_ready_server = demo_exec_server\<lparr>es_ckpts := (new_manager 1 [] None)
     \<lparr>mg_checkpoints := [(''swe-ckpt-ab'', demo_record ''swe-ckpt-ab'' 1 Ck_Ready None (Some ''img''))]\<rparr>\<rparr>"

definition demo_reran :: "rerun_out reply res \<times> demo_docker_world \<times> exec_server" where
  "demo_reran = container_rerun (demo_exec_host demo_state) ''12'' 3 9 demo_rerun_request ([], [(''img'', ''state'')]) demo_ready_server"


text \<open>The new container takes over the fault marks of the one it stands for.\<close>

lemma restored_keeps_fault_marks:
  "map_option (\<lambda>i. (ai_acquisition i, ai_faulted i)) (dget (es_active (snd (snd demo_reran))) ''n'') = Some (''checkpoint_rerun'', True)"
  by code_simp

end
