(* ===== verification/Exec_Roundtrip.thy ===== *)
theory Exec_Roundtrip
  imports Exec_Snapshot_Properties
begin

text \<open>
  A checkpoint made by docker commit and restored into a new container: the runtime state written into
  the image is the one the restored container is set up with, provided docker keeps files.
\<close>

section \<open>Triples that see the world\<close>

definition world_hoare :: "('w \<Rightarrow> exec_server \<Rightarrow> bool) \<Rightarrow> ('w, 'a) act \<Rightarrow> ('a \<Rightarrow> 'w \<Rightarrow> exec_server \<Rightarrow> bool) \<Rightarrow> ('w \<Rightarrow> exec_server \<Rightarrow> bool) \<Rightarrow> bool" where
  "world_hoare P m Q E = (\<forall>w s. P w s \<longrightarrow> (case m w s of (Inl e, w', s') \<Rightarrow> E w' s' | (Inr x, w', s') \<Rightarrow> Q x w' s'))"

lemma wh_andthen: "world_hoare P m R E \<Longrightarrow> (\<And>x. world_hoare (R x) (f x) Q E) \<Longrightarrow> world_hoare P (andthen m f) Q E"
  by (fastforce simp: world_hoare_def andthen_def split: prod.splits sum.splits)

lemma wh_plain: "hoare P m Q E \<Longrightarrow> world_hoare (\<lambda>w s. P s) m (\<lambda>x w s. Q x s) (\<lambda>w s. E s)"
  by (simp add: world_hoare_def hoare_def)

lemma wh_outside:
  assumes "\<And>w s x w'. P w s \<Longrightarrow> f w = (Inr x, w') \<Longrightarrow> Q x w' s" "\<And>w s e w'. P w s \<Longrightarrow> f w = (Inl e, w') \<Longrightarrow> E w' s"
  shows "world_hoare P (outside f) Q E"
  using assms by (fastforce simp: world_hoare_def outside_def Let_def split: prod.splits sum.splits)

lemma wh_inspect: "world_hoare P (inspect_state f) (\<lambda>_. P) E"
  by (simp add: world_hoare_def inspect_state_def)

lemma wh_if: "(b \<Longrightarrow> world_hoare P m Q E) \<Longrightarrow> (\<not> b \<Longrightarrow> world_hoare P n Q E) \<Longrightarrow> world_hoare P (if b then m else n) Q E"
  by simp

lemma wh_weaken:
  "world_hoare P m Q E \<Longrightarrow> (\<And>w s. P' w s \<Longrightarrow> P w s) \<Longrightarrow> (\<And>x w s. Q x w s \<Longrightarrow> Q' x w s) \<Longrightarrow> (\<And>w s. E w s \<Longrightarrow> E' w s) \<Longrightarrow> world_hoare P' m Q' E'"
  by (fastforce simp: world_hoare_def split: prod.splits sum.splits)

lemma wh_returns:
  assumes "world_hoare P m Q E" "P w s" "m w s = (Inr x, w', s')" shows "Q x w' s'"
  using assms(1) [unfolded world_hoare_def, rule_format, OF assms(2)] assms(3) by simp

section \<open>Docker keeps files\<close>

definition stores_files :: "'w docker \<Rightarrow> string \<Rightarrow> ('w \<Rightarrow> string \<Rightarrow> string option) \<Rightarrow> ('w \<Rightarrow> string \<Rightarrow> string option) \<Rightarrow> bool" where
  \<comment> \<open>what docker promises of the runtime file of one checkpoint; \<open>files\<close>: its contents in a container, \<open>held\<close>: in an image\<close>
  "stores_files d ckpt_id files held =
     ((\<forall>w cid t r w'. d \<lparr>dq_args = [''exec'', ''-i'', cid, ''bash'', ''-lc'',
          ''mkdir -p '' @ shell_quote (runtime_dir ckpt_id) @ '' && cat > '' @ shell_quote (runtime_file ckpt_id)],
          dq_input = Some t, dq_timeout = 60\<rparr> w = (Inr r, w') \<longrightarrow> dr_code r = 0 \<longrightarrow> files w' cid = Some t) \<and>
      (\<forall>w cid img timeout r w'. run_docker d [''commit'', cid, img] timeout w = (Inr r, w') \<longrightarrow> dr_code r = 0 \<longrightarrow> held w' img = files w cid) \<and>
      (\<forall>w img r w'. run_docker d [''image'', ''inspect'', ''-f'', ''{{.Size}}'', img] 30 w = (Inr r, w') \<longrightarrow> held w' = held w) \<and>
      (\<forall>w getenv img cwd name timeout r w'. run_docker d ([''run'', ''-d''] @ create_args getenv img cwd name) timeout w = (Inr r, w') \<longrightarrow>
          dr_code r = 0 \<longrightarrow> files w' (strip (dr_stdout r)) = held w img) \<and>
      (\<forall>w cid r w'. run_docker d [''exec'', cid, ''bash'', ''-lc'', ''cat '' @ shell_quote (runtime_file ckpt_id)] 30 w = (Inr r, w') \<longrightarrow>
          dr_code r = 0 \<longrightarrow> files w cid = Some (dr_stdout r)))"

lemma stores_write: "stores_files d ckpt_id files held \<Longrightarrow> capture_runtime_state d dumps cid ckpt_id st w = (Inr u, w') \<Longrightarrow> files w' cid = Some (dumps st)"
  unfolding stores_files_def capture_runtime_state_def by (auto split: prod.splits sum.splits if_splits)

lemma stores_commit: "stores_files d ckpt_id files held \<Longrightarrow> run_docker d [''commit'', cid, img] timeout w = (Inr r, w') \<Longrightarrow> dr_code r = 0 \<Longrightarrow>
    held w' img = files w cid"
  unfolding stores_files_def by simp

lemma stores_size: "stores_files d ckpt_id files held \<Longrightarrow> image_size d img w = (Inr r, w') \<Longrightarrow> held w' = held w"
  unfolding stores_files_def image_size_def by (auto simp: Let_def split: prod.splits sum.splits)

lemma stores_run: "stores_files d ckpt_id files held \<Longrightarrow> create_container d getenv uid elapsed (img, cwd, timeout) w = (Inr c, w') \<Longrightarrow>
    files w' (cd_container_id c) = held w img"
  unfolding stores_files_def create_container_def Let_def by (auto split: prod.splits sum.splits if_splits)

lemma stores_load: "stores_files d ckpt_id files held \<Longrightarrow> load_runtime_state d loads cid ckpt_id w = (Inr st, w') \<Longrightarrow>
    \<exists>t. files w cid = Some t \<and> loads (first_text t ''{}'') = Inr st"
  unfolding stores_files_def load_runtime_state_def by (fastforce split: prod.splits sum.splits if_splits)

section \<open>The state written is in the image\<close>

definition probed :: "'w host_api \<Rightarrow> string \<Rightarrow> ckpt_record \<Rightarrow> (string, string) dict \<Rightarrow> (string, string) dict \<Rightarrow> bool" where
  \<comment> \<open>the environment docker reports for the container, with the one asked for\<close>
  "probed h cid r env p = (\<exists>w w'. probe_runtime_env (ha_docker h) (ha_loads_env h) cid (kr_cwd r) env w = (Inr p, w'))"

lemma commit_worker_stores:
  assumes "stores_files (ha_docker h) (kr_checkpoint_id r) files held"
  shows "world_hoare (\<lambda>w. tracked (kr_checkpoint_id r) x n) (commit_worker h now later x cid img r env spec)
    (\<lambda>_ w s. \<exists>f. get_record (kr_checkpoint_id r) (es_ckpts s) = Some f \<and> (kr_status f = Ck_Ready \<longrightarrow>
       (\<exists>p. probed h cid r env p \<and> held w img = Some (ha_dumps h (build_runtime_state r p))))) (\<lambda>w s. True)"
    (is "world_hoare ?T _ ?Q _")
proof -
  let ?d = "ha_docker h" and ?ck = "kr_checkpoint_id r"
  have keep: "world_hoare P (usable ?d cid) (\<lambda>_ w. ?T w) (\<lambda>w s. True)" if "\<And>w s. P w s \<Longrightarrow> ?T w s" for P
    by (rule wh_weaken [OF wh_plain [OF usable_keeps]]) (use that in auto)
  have failed: "world_hoare P (mark_failed ?ck x later msg extra) ?Q (\<lambda>w s. True)"
    if "\<And>w s. P w s \<Longrightarrow> ?T w s" "\<And>r. kr_status (extra r) = kr_status r" for P msg extra
    by (rule wh_weaken [OF wh_plain [OF mark_failed_settles [OF that(2), where g = False]] that(1)]) (auto simp: settled_def get_record_def)
  have killed: "world_hoare P (injecting ?d now cid ftype f) (\<lambda>_ w. ?T w) (\<lambda>w s. True)" if "\<And>w s. P w s \<Longrightarrow> ?T w s" for P ftype f
    by (rule wh_weaken [OF wh_plain [OF injecting_tracked]]) (use that in auto)
  have probe: "world_hoare ?T (outside (probe_runtime_env ?d (ha_loads_env h) cid (kr_cwd r) env)) (\<lambda>p w s. ?T w s \<and> probed h cid r env p) (\<lambda>w s. True)"
    by (rule wh_outside) (auto simp: probed_def)
  have capture: "world_hoare (\<lambda>w s. ?T w s \<and> probed h cid r env p) (outside (capture_runtime_state ?d (ha_dumps h) cid ?ck (build_runtime_state r p)))
      (\<lambda>_ w s. ?T w s \<and> probed h cid r env p \<and> files w cid = Some (ha_dumps h (build_runtime_state r p))) (\<lambda>w s. True)" for p
    by (rule wh_outside) (auto dest: stores_write [OF assms(1)])
  have commit: "world_hoare (\<lambda>w s. ?T w s \<and> probed h cid r env p \<and> files w cid = Some (ha_dumps h (build_runtime_state r p)))
      (outside (run_docker ?d [''commit'', cid, img] t))
      (\<lambda>y w s. ?T w s \<and> probed h cid r env p \<and> (dr_code y = 0 \<longrightarrow> held w img = Some (ha_dumps h (build_runtime_state r p)))) (\<lambda>w s. True)" for p t
    by (rule wh_outside) (auto dest: stores_commit [OF assms(1)])
  have measure: "world_hoare (\<lambda>w s. ?T w s \<and> probed h cid r env p \<and> (dr_code y = 0 \<longrightarrow> held w img = Some (ha_dumps h (build_runtime_state r p))))
      (outside (image_size ?d img)) (\<lambda>_ w s. ?T w s \<and> probed h cid r env p \<and> (dr_code y = 0 \<longrightarrow> held w img = Some (ha_dumps h (build_runtime_state r p))))
      (\<lambda>w s. True)" for p y
    by (rule wh_outside) (auto dest: stores_size [OF assms(1)])
  have ready: "world_hoare (\<lambda>w s. ?T w s \<and> probed h cid r env p \<and> (dr_code y = 0 \<longrightarrow> held w img = Some (ha_dumps h (build_runtime_state r p))))
      (andthen (change_table (update_record ?ck f)) (\<lambda>_. change_table (update_op x g))) ?Q (\<lambda>w s. True)"
    if "dr_code y = 0" "\<And>r. kr_status (f r) = Ck_Ready" "\<And>z. ko_status (g z) = Ck_Ready" for p y f g
    using that by (auto simp: world_hoare_def andthen_def change_table_def update_record_def update_op_def get_record_def
        persist_record_def dget_dset split: option.splits)
  show ?thesis unfolding commit_worker_def Let_def
    by (rule wh_andthen [OF keep] wh_andthen [OF probe] wh_andthen [OF capture] wh_andthen [OF killed] wh_andthen [OF commit]
        wh_andthen [OF measure] wh_andthen [OF wh_inspect] wh_if failed ready | simp add: faulted_record_def)+
qed

section \<open>The restored container has it\<close>

lemma wh_on_except_raise:
  "world_hoare P m Q E \<Longrightarrow> world_hoare P (on_except m (\<lambda>e. andthen (a e) (\<lambda>_. raise_exc e))) Q (\<lambda>w s. True)"
  by (fastforce simp: world_hoare_def on_except_def andthen_def raise_exc_def split: prod.splits sum.splits)

lemma take_over_puts: "world_hoare P (take_over d now ckpt_id old new info) (\<lambda>_ w s. \<exists>i. dget (es_active s) new = Some (info i)) (\<lambda>w s. True)"
  unfolding take_over_def
  by (rule wh_andthen [where R = "\<lambda>_ w s. True"])
    (auto simp: world_hoare_def andthen_def give_def outside_def change_state_def change_table_def swap_container_def Let_def dget_dset
      split: sum.splits prod.splits if_splits)

lemma commit_rerun_loads:
  assumes "stores_files (ha_docker h) ckpt_id files held" "t \<noteq> []" "ha_loads h t = Inr st"
  shows "world_hoare (\<lambda>w s. held w img = Some t) (commit_rerun h uid elapsed now ckpt_id img cwd timeout old)
    (\<lambda>out w s. \<exists>info. dget (es_active s) (ro_new_container_id out) = Some info \<and> ai_runtime_state info = Some st \<and>
       ai_runtime_env info = normalize_env (rs_env st) \<and>
       ai_cwd info = first_text (case rs_cwd st of None \<Rightarrow> cwd | Some c \<Rightarrow> c) cwd) (\<lambda>w s. True)" (is "world_hoare _ _ ?Q _")
proof -
  let ?d = "ha_docker h"
  have make: "world_hoare (\<lambda>w s. held w img = Some t) (outside (create_container ?d (ha_getenv h) uid elapsed (img, cwd, timeout)))
      (\<lambda>c w s. files w (cd_container_id c) = Some t) (\<lambda>w s. True)"
    by (rule wh_outside) (auto dest: stores_run [OF assms(1)])
  have load: "world_hoare (\<lambda>w s. files w cid = Some t) (outside (load_runtime_state ?d (ha_loads h) cid ckpt_id)) (\<lambda>x w s. x = st) (\<lambda>w s. True)" for cid
    by (rule wh_outside) (use assms(2,3) in \<open>auto dest!: stores_load [OF assms(1)] simp: first_text_def\<close>)
  have "world_hoare (\<lambda>w s. x = st) (andthen (outside (validate_restore ?d (cd_container_id c) x)) (\<lambda>_.
      andthen (take_over ?d now ckpt_id old (cd_container_id c) (\<lambda>old_info.
        restored_info old_info (cd_name c) img (first_text (case rs_cwd x of None \<Rightarrow> cwd | Some x \<Rightarrow> x) cwd)
          (normalize_env (rs_env x)) x now ''checkpoint_rerun'' (cd_create_time c))) (\<lambda>_.
      give \<lparr>ro_new_container_id = cd_container_id c, ro_create_time = cd_create_time c, ro_image = img\<rparr>))) ?Q (\<lambda>w s. True)" for x c
  proof (cases "x = st")
    case True
    have "world_hoare (\<lambda>w s. \<exists>i. dget (es_active s) (cd_container_id c) = Some (restored_info i (cd_name c) img
        (first_text (case rs_cwd x of None \<Rightarrow> cwd | Some x \<Rightarrow> x) cwd) (normalize_env (rs_env x)) x now ''checkpoint_rerun'' (cd_create_time c)))
      (give \<lparr>ro_new_container_id = cd_container_id c, ro_create_time = cd_create_time c, ro_image = img\<rparr>) ?Q (\<lambda>w s. True)"
      by (auto simp: world_hoare_def give_def True restored_info_def)
    note set_up = wh_andthen [OF take_over_puts this]
    show ?thesis
    proof (rule wh_andthen [where R = "\<lambda>_ w s. True"])
      show "world_hoare (\<lambda>w s. x = st) (outside (validate_restore ?d (cd_container_id c) x)) (\<lambda>_ w s. True) (\<lambda>w s. True)"
        by (rule wh_outside) simp_all
    qed (rule set_up)
  qed (simp add: world_hoare_def)
  then have "world_hoare (\<lambda>w s. files w (cd_container_id c) = Some t) (commit_restore h now ckpt_id img cwd old c) ?Q (\<lambda>w s. True)" for c
    unfolding commit_restore_def Let_def by (rule wh_andthen [OF load])
  then show ?thesis unfolding commit_rerun_def Let_def by (intro wh_andthen [OF make] wh_on_except_raise)
qed

lemma clean_merge:
  assumes "\<And>k v. dget d k = Some v \<Longrightarrow> k \<in> set env_whitelist \<and> v \<noteq> []" "dget (dmerge d (normalize_env raw)) k = Some v"
  shows "k \<in> set env_whitelist \<and> v \<noteq> []"
proof -
  have clean: "(k, v) \<in> set (normalize_env raw) \<Longrightarrow> k \<in> set env_whitelist \<and> v \<noteq> []" for k v
  proof -
    have "(k, v) \<in> set (List.map_filter (\<lambda>k. case dget raw k of Some (Val (c # cs)) \<Rightarrow> Some (k, c # cs) | _ \<Rightarrow> None) ks) \<Longrightarrow>
        k \<in> set ks \<and> v \<noteq> []" for ks
      by (induction ks) (auto simp: List.map_filter_simps split: option.splits jfield.splits list.splits)
    then show "(k, v) \<in> set (normalize_env raw) \<Longrightarrow> k \<in> set env_whitelist \<and> v \<noteq> []" unfolding normalize_env_def .
  qed
  have "\<forall>k v. dget (fold (\<lambda>(k, v). dset k v) e d) k = Some v \<longrightarrow> k \<in> set env_whitelist \<and> v \<noteq> []"
    if "set e \<subseteq> set (normalize_env raw)" "\<forall>k v. dget d k = Some v \<longrightarrow> k \<in> set env_whitelist \<and> v \<noteq> []" for e d
    using that
  proof (induction e arbitrary: d)
    case (Cons p e)
    obtain a b where p: "p = (a, b)" by (cases p)
    have "a \<in> set env_whitelist \<and> b \<noteq> []" using clean Cons.prems(1) p by auto
    with Cons.prems(2) have "\<forall>k v. dget (dset a b d) k = Some v \<longrightarrow> k \<in> set env_whitelist \<and> v \<noteq> []"
      unfolding dget_dset by (metis option.inject)
    from Cons.IH [OF _ this] Cons.prems(1) show ?case unfolding p by simp
  qed simp
  from this [of "normalize_env raw" d] assms show ?thesis unfolding dmerge_def by blast
qed

lemma probe_merges: "probe_runtime_env d loads cid cwd env w = (Inr p, w') \<Longrightarrow> \<exists>raw. p = dmerge (normalize_env raw) (normalize_env (vals env))"
  by (auto simp: probe_runtime_env_def split: prod.split_asm sum.split_asm if_split_asm)

lemma probed_clean: "probed h cid r env p \<Longrightarrow> dget p k = Some v \<Longrightarrow> k \<in> set env_whitelist \<and> v \<noteq> []"
proof -
  assume p: "probed h cid r env p" "dget p k = Some v"
  then obtain raw where raw: "p = dmerge (normalize_env raw) (normalize_env (vals env))" unfolding probed_def by (metis probe_merges)
  show ?thesis
  proof (rule clean_merge)
    fix k v assume "dget (normalize_env raw) k = Some v"
    then show "k \<in> set env_whitelist \<and> v \<noteq> []"
      unfolding normalize_env_dget by (auto split: if_split_asm option.split_asm jfield.split_asm list.split_asm)
  qed (use p(2) raw in simp)
qed

lemma normalize_probed: "probed h cid r env p \<Longrightarrow> dget (normalize_env (vals p)) k = dget p k"
  using probed_clean [of h cid r env p k]
  by (cases "dget p k") (auto simp: normalize_env_dget dget_vals split: option.splits jfield.splits list.splits)

text \<open>C28. When docker keeps files and JSON decodes to what was encoded, a checkpoint that the commit worker
  has made ready and that is later restored gives the new container the state of the old one: the
  environment probed in the old container, its checkpoint entries and the record's working directory,
  as long as the image has not been overwritten in between.\<close>

theorem checkpoint_rerun_roundtrip:
  assumes files: "stores_files (ha_docker h) (kr_checkpoint_id r) files held"
    and json: "\<And>p. probed h cid r env p \<Longrightarrow> ha_dumps h (build_runtime_state r p) \<noteq> [] \<and>
      ha_loads h (ha_dumps h (build_runtime_state r p)) = Inr (build_runtime_state r p)"
    and create: "tracked (kr_checkpoint_id r) op_id n s" "commit_worker h now later op_id cid img r env spec w s = (Inr (), w1, s1)"
    and ready: "get_record (kr_checkpoint_id r) (es_ckpts s1) = Some f" "kr_status f = Ck_Ready"
    and kept: "held w2 img = held w1 img"
    and rerun: "commit_rerun h uid elapsed now2 (kr_checkpoint_id r) img cwd timeout old w2 s2 = (Inr out, w3, s3)"
  shows "\<exists>p info. probed h cid r env p \<and> dget (es_active s3) (ro_new_container_id out) = Some info \<and>
    ai_runtime_state info = Some (build_runtime_state r p) \<and> (\<forall>k. dget (ai_runtime_env info) k = dget p k) \<and>
    ai_cwd info = first_text (kr_cwd r) cwd"
proof -
  from wh_returns [OF commit_worker_stores [OF files], of op_id n, OF create] ready
  obtain p where p: "probed h cid r env p" "held w1 img = Some (ha_dumps h (build_runtime_state r p))" by auto
  have "held w2 img = Some (ha_dumps h (build_runtime_state r p))" using p(2) kept by simp
  from wh_returns [OF commit_rerun_loads [OF files], OF _ _ this rerun] json [OF p(1)]
  obtain info where "dget (es_active s3) (ro_new_container_id out) = Some info" "ai_runtime_state info = Some (build_runtime_state r p)"
    "ai_runtime_env info = normalize_env (rs_env (build_runtime_state r p))"
    "ai_cwd info = first_text (case rs_cwd (build_runtime_state r p) of None \<Rightarrow> cwd | Some c \<Rightarrow> c) cwd" by blast
  with p(1) normalize_probed [OF p(1)] show ?thesis by (auto simp: build_runtime_state_def)
qed

lemma demo_copied: "dget (demo_copy v k d) k = v"
  by (cases v) (simp_all add: demo_copy_def dget_dset dget_dpop)

lemma demo_docker_stores: "stores_files demo_docker ckpt_id (\<lambda>w. dget (fst w)) (\<lambda>w. dget (snd w))"
proof -
  have "strip ''n'' = ''n''" by code_simp
  then show ?thesis
    by (auto simp: stores_files_def demo_docker_def run_docker_def create_args_def Let_def demo_copied dget_dset split: option.split_asm)
qed

definition demo_new_record :: ckpt_record where
  "demo_new_record = (demo_record ''swe-ckpt-ab'' 1 Ck_Pending None (Some ''img''))\<lparr>kr_command_seq := 2\<rparr>"

definition demo_new_op :: ckpt_op where
  "demo_new_op = \<lparr>ko_op_id = ''op'', ko_checkpoint_id = ''swe-ckpt-ab'', ko_lease_id = ''l'', ko_container_id = ''c1'',
     ko_status = Ck_Running, ko_started_at = 0, ko_finished_at = None, ko_error = None\<rparr>"

definition demo_busy_server :: exec_server where
  "demo_busy_server = demo_exec_server\<lparr>es_ckpts := (new_manager 1 [] None)
     \<lparr>mg_checkpoints := [(''swe-ckpt-ab'', demo_new_record)], mg_ops := [(''op'', demo_new_op)]\<rparr>\<rparr>"

definition demo_stored :: runtime_state where
  "demo_stored = build_runtime_state demo_new_record demo_env"

definition demo_committed :: "unit res \<times> demo_docker_world \<times> exec_server" where
  "demo_committed = commit_worker (demo_exec_host demo_stored) 0 1 ''op'' ''c1'' ''img'' demo_new_record [] None ([], []) demo_busy_server"

definition demo_restored :: "rerun_out res \<times> demo_docker_world \<times> exec_server" where
  "demo_restored = commit_rerun (demo_exec_host demo_stored) ''12'' 3 9 ''swe-ckpt-ab'' ''img'' ''/x'' 120 ''c1'' ([], [(''img'', ''state'')]) demo_busy_server"

lemma demo_probed: "probed (demo_exec_host st) cid r [] p \<Longrightarrow> p = demo_env"
  by (auto simp: probed_def probe_runtime_env_def demo_exec_host_def demo_docker_def run_docker_def env_args_def Let_def demo_env_def vals_def
      normalize_env_def env_whitelist_def List.map_filter_simps dmerge_def)

lemma checkpoint_rerun_roundtrip_witness:
  "\<exists>info. dget (es_active (snd (snd demo_restored))) ''n'' = Some info \<and> dget (ai_runtime_env info) ''PATH'' = Some ''/bin'' \<and>
    ai_cwd info = ''/testbed''"
proof -
  let ?h = "demo_exec_host demo_stored" and ?held = "\<lambda>w :: demo_docker_world. dget (snd w)"
  have files: "stores_files (ha_docker ?h) (kr_checkpoint_id demo_new_record) (\<lambda>w. dget (fst w)) ?held"
    using demo_docker_stores by (simp add: demo_exec_host_def)
  have json: "ha_dumps ?h (build_runtime_state demo_new_record p) \<noteq> [] \<and>
      ha_loads ?h (ha_dumps ?h (build_runtime_state demo_new_record p)) = Inr (build_runtime_state demo_new_record p)"
    if "probed ?h ''c1'' demo_new_record [] p" for p
    using demo_probed [OF that] by (simp add: demo_exec_host_def demo_stored_def)
  have track: "tracked (kr_checkpoint_id demo_new_record) ''op'' (es_ckpts demo_busy_server) demo_busy_server"
    by (simp add: tracked_def demo_busy_server_def demo_new_record_def demo_record_def same_slots_def)
  have run: "fst demo_committed = Inr () \<and> map_option kr_status (get_record ''swe-ckpt-ab'' (es_ckpts (snd (snd demo_committed)))) = Some Ck_Ready \<and>
    dget (snd (fst (snd demo_committed))) ''img'' = Some ''state'' \<and> kr_cwd demo_new_record = ''/testbed'' \<and> kr_checkpoint_id demo_new_record = ''swe-ckpt-ab''"
    by code_simp
  then obtain f where f: "get_record ''swe-ckpt-ab'' (es_ckpts (snd (snd demo_committed))) = Some f" "kr_status f = Ck_Ready" by auto
  have "case fst demo_restored of Inr out \<Rightarrow> ro_new_container_id out = ''n'' | _ \<Rightarrow> False" by code_simp
  then obtain out where out: "fst demo_restored = Inr out" "ro_new_container_id out = ''n''" by (auto split: sum.split_asm)
  have create: "commit_worker ?h 0 1 ''op'' ''c1'' ''img'' demo_new_record [] None ([], []) demo_busy_server =
    (Inr (), fst (snd demo_committed), snd (snd demo_committed))" using run by (simp add: demo_committed_def prod_eq_iff)
  have rerun: "commit_rerun ?h ''12'' 3 9 (kr_checkpoint_id demo_new_record) ''img'' ''/x'' 120 ''c1'' ([], [(''img'', ''state'')]) demo_busy_server =
    (Inr out, fst (snd demo_restored), snd (snd demo_restored))" using run out by (simp add: demo_restored_def prod_eq_iff)
  have kept: "?held ([], [(''img'', ''state'')]) ''img'' = ?held (fst (snd demo_committed)) ''img''" using run by simp
  from checkpoint_rerun_roundtrip [OF files json track create _ f(2) kept rerun] f(1) run
  obtain p info where p: "probed ?h ''c1'' demo_new_record [] p" "dget (es_active (snd (snd demo_restored))) (ro_new_container_id out) = Some info"
    "\<forall>k. dget (ai_runtime_env info) k = dget p k" "ai_cwd info = first_text (kr_cwd demo_new_record) ''/x''" by auto
  with demo_probed [OF p(1)] out(2) run show ?thesis by (simp add: demo_env_def first_text_def)
qed

end
