(* ===== verification/Exec_Route_Properties.thy ===== *)
theory Exec_Route_Properties
  imports Exec_Snapshot_Properties
begin

text \<open>
  What the other routes of the exec server achieve: commands with injected faults, destruction,
  collection of checkpoints with its worker, and the wait for the workers.
\<close>

section \<open>Faults\<close>

lemma mark_faulted_active:
  "mark_faulted now cid ftype s = (i, s') \<Longrightarrow> c \<noteq> cid \<Longrightarrow> dget (es_active s') c = dget (es_active s) c"
  by (auto simp: mark_faulted_def Let_def dget_dset split: option.splits)

lemma pool_release_active: "pool_release d cid i w s = (r, w', s') \<Longrightarrow> es_active s' = es_active s"
  by (auto simp: pool_release_def split: prod.splits)

lemma kill_container_active:
  "kill_container d cid info ev w s = (ev', w', s') \<Longrightarrow> es_active s' = es_active s \<and> fe_container_id ev' = fe_container_id ev"
  by (auto simp: kill_container_def split: option.splits prod.splits sum.splits dest: pool_release_active)

lemma untrack_active: "dget (es_active (untrack cid s)) c = (if c = cid then None else dget (es_active s) c)"
  by (simp add: untrack_def dget_dpop)

lemma event_container [simp]: "fe_container_id (build_fault_event cid ftype phase delay tag) = cid"
  by (simp add: build_fault_event_def)

lemma inject_active:
  assumes "inject_fail_stop_fault d now cid ftype phase delay tag remove w s = (ev, w', s')"
  shows "fe_container_id ev = cid \<and> (c \<noteq> cid \<longrightarrow> dget (es_active s') c = dget (es_active s) c) \<and> (remove \<longrightarrow> dget (es_active s') cid = None)"
proof -
  obtain i s1 where 1: "mark_faulted now cid ftype s = (i, s1)" by (cases "mark_faulted now cid ftype s")
  obtain e w1 s2 where 2: "kill_container d cid i (build_fault_event cid ftype phase delay tag) w s1 = (e, w1, s2)"
    by (metis prod_cases3)
  show ?thesis using assms mark_faulted_active [OF 1, of c] kill_container_active [OF 2]
    by (auto simp: inject_fail_stop_fault_def 1 2 untrack_active split: if_splits)
qed

lemma maybe_inject_active:
  assumes "maybe_inject_fault d now draw cid armed prob w s = (r, w', s')"
  shows "case r of None \<Rightarrow> s' = s \<and> w' = w
    | Some ev \<Rightarrow> fe_container_id ev = cid \<and> (c \<noteq> cid \<longrightarrow> dget (es_active s') c = dget (es_active s) c) \<and>
        (dget (es_active s') cid = None \<or> fe_destroy_error ev \<noteq> None)"
proof (cases "\<not> armed \<or> prob \<le> 0 \<or> prob \<le> draw")
  case False
  let ?e0 = "\<lparr>fe_container_id = cid, fe_type = ''exec_server_random_kill'', fe_phase = None, fe_delay = None, fe_tag = None,
    fe_probability = Some prob, fe_destroyed = None, fe_destroy_reason = None, fe_destroy_error = None\<rparr>"
  obtain i s1 where 1: "mark_faulted now cid ''exec_server_random_kill'' s = (i, s1)" by (cases "mark_faulted now cid ''exec_server_random_kill'' s")
  obtain e w1 s2 where 2: "kill_container d cid i ?e0 w s1 = (e, w1, s2)" by (metis prod_cases3)
  show ?thesis using assms False mark_faulted_active [OF 1, of c] kill_container_active [OF 2]
    by (auto simp: maybe_inject_fault_def 1 2 untrack_active split: option.splits)
qed (use assms in \<open>simp add: maybe_inject_fault_def\<close>)

lemma run_command_active:
  assumes "run_command d now cid args timeout mid w s = (Inr (ReplyOk out), w', s')"
  shows "case xo_fault out of None \<Rightarrow> s' = s
    | Some ev \<Rightarrow> xo_returncode out = -1 \<and> fe_container_id ev = cid \<and> (c \<noteq> cid \<longrightarrow> dget (es_active s') c = dget (es_active s) c) \<and>
        dget (es_active s') cid = None"
proof (cases mid)
  case None
  with assms show ?thesis by (auto simp: run_command_def Let_def split: prod.splits sum.splits exc.splits)
next
  case (Some m)
  obtain delay tag where m: "m = (delay, tag)" by (cases m)
  obtain r w1 where 1: "run_docker d args (of_int timeout) w = (r, w1)" by (cases "run_docker d args (of_int timeout) w")
  obtain ev w2 s2 where 2: "inject_fail_stop_fault d now cid ''exec_server_explicit_mid_action_kill'' ''mid_action'' delay tag False w1 s = (ev, w2, s2)"
    by (metis prod_cases3)
  show ?thesis using assms inject_active [OF 2, of c]
    by (auto simp: run_command_def Some m 1 2 untrack_active split: sum.splits exc.splits)
qed

text \<open>A command that runs without a fault leaves the server's state alone, whatever it returns; with a
  fault the reply says so with return code -1, no other container is touched, and the killed one is out
  of the table unless docker failed to destroy it.\<close>

theorem exec_reports_faults:
  assumes "container_exec d now draw fires q w s = (Inr (ReplyOk out), w', s')"
  shows "case xo_fault out of None \<Rightarrow> s' = s
    | Some ev \<Rightarrow> xo_returncode out = -1 \<and> fe_container_id ev = jstr (xq_container_id q) \<and>
        (\<forall>c. c \<noteq> fe_container_id ev \<longrightarrow> dget (es_active s') c = dget (es_active s) c) \<and>
        (dget (es_active s') (fe_container_id ev) = None \<or> fe_destroy_error ev \<noteq> None)"
proof -
  let ?cid = "jstr (xq_container_id q)" and ?cmd = "jstr (xq_command q)"
  obtain spec where spec: "normalize_fault_spec exec_fault_phases (xq_spec q) = Inr spec" and ask: "\<not> (?cid = [] \<or> ?cmd = [])"
    using assms by (auto simp: container_exec_def Let_def split: if_splits sum.splits)
  let ?prob = "probability_of (xc_fault_probability (es_config s)) (xq_probability q)"
  let ?args = "[''exec'', ''-w'', (case xq_cwd q of None \<Rightarrow> ''/testbed'' | Some x \<Rightarrow> x)] @
    env_args (merge_env (case dget (es_active s) ?cid of None \<Rightarrow> [] | Some i \<Rightarrow> ai_runtime_env i) (xq_env q)) @ [?cid, ''bash'', ''-lc'', ?cmd]"
  let ?to = "case xq_timeout q of None \<Rightarrow> 180 | Some t \<Rightarrow> t"
  let ?mid = "case spec of Some f \<Rightarrow> (if fires then Some (fs_delay f, fs_tag f) else None) | None \<Rightarrow> None"
  show ?thesis
  proof (cases "case spec of None \<Rightarrow> False | Some f \<Rightarrow> fs_phase f = ''before_action''")
    case True
    obtain ev w1 s1 where 1: "inject_fail_stop_fault d now ?cid ''exec_server_explicit_before_action_kill'' ''before_action''
        (fs_delay (the spec)) (fs_tag (the spec)) True w s = (ev, w1, s1)" by (metis prod_cases3)
    with assms spec ask True have "out = \<lparr>xo_returncode = -1, xo_output = ''Injected environment fault: container killed before exec.'', xo_fault = Some ev\<rparr>"
      "s' = s1" by (auto simp: container_exec_def)
    with inject_active [OF 1] show ?thesis by auto
  next
    case False
    obtain ev w1 s1 where 1: "maybe_inject_fault d now draw ?cid (xq_armed q) ?prob w s = (ev, w1, s1)" by (metis prod_cases3)
    show ?thesis
    proof (cases ev)
      case (Some f)
      with assms spec ask False 1 have "out = \<lparr>xo_returncode = -1, xo_output = ''Injected environment fault: container killed before exec.'', xo_fault = Some f\<rparr>"
        "s' = s1" by (auto simp: container_exec_def)
      with maybe_inject_active [OF 1] Some show ?thesis by auto
    next
      case None
      with maybe_inject_active [OF 1] have "s1 = s" "w1 = w" by auto
      with assms spec ask False 1 None have "run_command d now ?cid ?args ?to ?mid w s = (Inr (ReplyOk out), w', s')"
        by (simp add: container_exec_def Let_def)
      from run_command_active [OF this] show ?thesis by (auto split: option.splits)
    qed
  qed
qed

definition demo_command :: exec_req where
  "demo_command = \<lparr>xq_container_id = Val ''c1'', xq_command = Val ''ls'', xq_cwd = None, xq_timeout = None, xq_env = [], xq_armed = False,
     xq_probability = Absent, xq_spec = Some \<lparr>rw_is_object = True, rw_phase = Val ''before_action'', rw_delay = Absent, rw_tag = Absent\<rparr>\<rparr>"

definition demo_run :: "exec_out reply res \<times> demo_docker_world \<times> exec_server" where
  "demo_run = container_exec demo_docker 5 0 False demo_command ([], []) demo_exec_server"

lemma exec_reports_faults_witness: "dget (es_active (snd (snd demo_run))) ''c1'' = None"
proof -
  have "(case fst demo_run of Inr (ReplyOk out) \<Rightarrow>
      map_option (\<lambda>ev. (fe_container_id ev, fe_destroy_error ev)) (xo_fault out) = Some (''c1'', None) | _ \<Rightarrow> False)" by code_simp
  then obtain out ev where out: "fst demo_run = Inr (ReplyOk out)" "xo_fault out = Some ev" "fe_container_id ev = ''c1''" "fe_destroy_error ev = None"
    by (auto split: sum.split_asm reply.split_asm)
  then have "container_exec demo_docker 5 0 False demo_command ([], []) demo_exec_server = (Inr (ReplyOk out), fst (snd demo_run), snd (snd demo_run))"
    by (simp add: demo_run_def prod_eq_iff)
  from exec_reports_faults [OF this] out(2-4) show ?thesis by (simp add: demo_command_def)
qed

text \<open>A fault asked for explicitly forgets its container even when docker could not destroy it.\<close>

definition stuck_docker :: "demo_docker_world docker" where
  "stuck_docker q w = (case dq_args q of a # _ \<Rightarrow>
     (if a = ''rm'' then (Inr \<lparr>dr_code = 1, dr_stdout = [], dr_stderr = ''busy''\<rparr>, w) else demo_docker q w) | _ \<Rightarrow> demo_docker q w)"

lemma explicit_kill_forgets:
  "case container_exec stuck_docker 5 0 False demo_command ([], []) demo_exec_server of
     (Inr (ReplyOk out), _, s') \<Rightarrow> map_option (\<lambda>ev. (fe_destroyed ev, fe_destroy_error ev)) (xo_fault out) = Some (Some False, Some ''busy'') \<and> es_active s' = []
   | _ \<Rightarrow> False"
  by code_simp

section \<open>Collection\<close>

definition without :: "exec_server \<Rightarrow> string set \<Rightarrow> exec_server \<Rightarrow> bool" where
  \<comment> \<open>the state, but for the records deleted\<close>
  "without s0 D s = (es_active s = es_active s0 \<and> es_gc_tasks s = es_gc_tasks s0 \<and> es_config s = es_config s0 \<and>
     (\<forall>c. get_record c (es_ckpts s) = (if c \<in> D then None else get_record c (es_ckpts s0))))"

lemma without_delete:
  "without s0 D s \<Longrightarrow> without s0 (insert c D) (s\<lparr>es_ckpts := snd (delete_record c (es_ckpts s))\<rparr>)"
  by (auto simp: without_def get_record_def delete_record_def dget_dpop split: option.split)

definition gc_stuck :: "'w host_api \<Rightarrow> exec_server \<Rightarrow> ckpt_record \<Rightarrow> bool" where
  "gc_stuck h s r = (\<exists>w e w'. delete_artifacts h (es_config s) r w = (Inl e, w'))"

lemma gc_records_deletes:
  "hoare (without s0 D) (gc_records h rs) (\<lambda>_. without s0 (D \<union> kr_checkpoint_id ` set rs))
     (\<lambda>s. \<exists>n < length rs. gc_stuck h s0 (rs ! n) \<and> without s0 (D \<union> kr_checkpoint_id ` set (take n rs)) s)"
proof (induction rs arbitrary: D)
  case Nil
  show ?case by (simp add: hoare_def give_def)
next
  case (Cons r rs)
  let ?E = "\<lambda>s. \<exists>n < length (r # rs). gc_stuck h s0 ((r # rs) ! n) \<and> without s0 (D \<union> kr_checkpoint_id ` set (take n (r # rs))) s"
  have conf: "hoare (without s0 D) (inspect_state es_config) (\<lambda>c s. without s0 D s \<and> c = es_config s0) ?E"
    by (rule hoare_inspect) (simp add: without_def)
  have artifacts: "hoare (without s0 D) (outside (delete_artifacts h c r)) (\<lambda>_. without s0 D) ?E" if "c = es_config s0" for c
  proof -
    have "?E s'" if "without s0 D s" "outside (delete_artifacts h c r) w s = (Inl e, w', s')" for w s e w' s'
    proof (rule exI [where x = 0], intro conjI)
      show "gc_stuck h s0 ((r # rs) ! 0)" using that(2) \<open>c = es_config s0\<close> by (auto simp: outside_def gc_stuck_def Let_def split: prod.splits)
      show "without s0 (D \<union> kr_checkpoint_id ` set (take 0 (r # rs))) s'" using that by (auto simp: outside_def Let_def split: prod.splits)
    qed simp
    moreover have "without s0 D s'" if "without s0 D s" "outside (delete_artifacts h c r) w s = (Inr u, w', s')" for w s u w' s'
      using that by (auto simp: outside_def Let_def split: prod.splits)
    ultimately show ?thesis unfolding hoare_def by (auto split: prod.split sum.split)
  qed
  have change: "hoare (without s0 D) (change_state (\<lambda>s. s\<lparr>es_ckpts := snd (delete_record (kr_checkpoint_id r) (es_ckpts s))\<rparr>))
      (\<lambda>_. without s0 (insert (kr_checkpoint_id r) D)) ?E" by (rule hoare_change) (rule without_delete)
  have rest: "hoare (without s0 (insert (kr_checkpoint_id r) D)) (gc_records h rs) (\<lambda>_. without s0 (D \<union> kr_checkpoint_id ` set (r # rs))) ?E"
  proof (rule hoare_weaken [OF Cons.IH])
    fix s assume "\<exists>n < length rs. gc_stuck h s0 (rs ! n) \<and> without s0 (insert (kr_checkpoint_id r) D \<union> kr_checkpoint_id ` set (take n rs)) s"
    then obtain n where "n < length rs" "gc_stuck h s0 (rs ! n)" "without s0 (insert (kr_checkpoint_id r) D \<union> kr_checkpoint_id ` set (take n rs)) s" by blast
    then show "?E s" by (intro exI [where x = "Suc n"]) simp
  qed simp_all
  show ?case unfolding gc_records.simps
    by (rule hoare_andthen [OF conf], rule hoare_pure, rule hoare_andthen [OF artifacts], assumption, rule hoare_andthen [OF change], rule rest)
qed

text \<open>C29. A collection that is not a dry run starts its worker at most once for the same plan; the worker, run
  at any later time, deletes records of the plan in its order and no others, stops early only at a
  record whose artifacts could not be deleted, takes its task off the list and raises nothing.\<close>

theorem gc_removes_only_planned:
  assumes "container_checkpoint_gc lease keep dry s = (reply, Some job, s1)" "gc_worker h job w s2 = (res, w', s3)"
  shows "\<not> dry \<and> fst job \<notin> set (es_gc_tasks s) \<and> es_gc_tasks s1 = fst job # es_gc_tasks s \<and> map kr_checkpoint_id (snd job) = go_deleted reply \<and>
    res = Inr () \<and> es_gc_tasks s3 = removeAll (fst job) (es_gc_tasks s2) \<and> es_active s3 = es_active s2 \<and>
    (\<exists>n \<le> length (go_deleted reply). (\<forall>c. get_record c (es_ckpts s3) = (if c \<in> set (take n (go_deleted reply)) then None else get_record c (es_ckpts s2))) \<and>
      (n < length (go_deleted reply) \<longrightarrow> gc_stuck h s2 (snd job ! n)))"
proof -
  have job: "\<not> dry" "fst job \<notin> set (es_gc_tasks s)" "es_gc_tasks s1 = fst job # es_gc_tasks s" "map kr_checkpoint_id (snd job) = go_deleted reply"
    using assms(1) by (auto simp: container_checkpoint_gc_def Let_def split: prod.splits if_splits)
  let ?rs = "snd job"
  let ?done = "\<lambda>n s. without s2 (kr_checkpoint_id ` set (take n ?rs)) s \<and> (n < length ?rs \<longrightarrow> gc_stuck h s2 (?rs ! n))"
  have "hoare (without s2 {}) (gc_records h ?rs) (\<lambda>_ s. \<exists>n \<le> length ?rs. ?done n s) (\<lambda>s. \<exists>n \<le> length ?rs. ?done n s)"
  proof (rule hoare_weaken [OF gc_records_deletes [of s2 "{}"]])
    fix s assume "without s2 ({} \<union> kr_checkpoint_id ` set ?rs) s"
    then show "\<exists>n \<le> length ?rs. ?done n s" by (intro exI [where x = "length ?rs"]) simp
  next
    fix s assume "\<exists>n < length ?rs. gc_stuck h s2 (?rs ! n) \<and> without s2 ({} \<union> kr_checkpoint_id ` set (take n ?rs)) s"
    then obtain n where "n < length ?rs" "gc_stuck h s2 (?rs ! n)" "without s2 ({} \<union> kr_checkpoint_id ` set (take n ?rs)) s" by blast
    then show "\<exists>n \<le> length ?rs. ?done n s" by (intro exI [where x = n]) simp
  qed
  then have run_all: "hoare (without s2 {}) (ignore_errors (gc_records h ?rs)) (\<lambda>_ s. \<exists>n \<le> length ?rs. ?done n s) (\<lambda>_. False)"
    by (rule hoare_ignore)
  have "without s2 {} s2" by (simp add: without_def)
  then obtain u w1 s' where ran: "ignore_errors (gc_records h ?rs) w s2 = (Inr u, w1, s')" "\<exists>n \<le> length ?rs. ?done n s'"
    by (rule hoare_returns [OF run_all])
  from ran(2) obtain n where run: "n \<le> length ?rs" "?done n s'" by blast
  have res: "res = Inr ()" "s3 = s'\<lparr>es_gc_tasks := removeAll (fst job) (es_gc_tasks s')\<rparr>"
    using assms(2) ran(1) by (simp_all add: gc_worker_def andthen_def change_state_def)
  have ids: "go_deleted reply = map kr_checkpoint_id ?rs" using job(4) by simp
  have "\<exists>n \<le> length (go_deleted reply). (\<forall>c. get_record c (es_ckpts s3) = (if c \<in> set (take n (go_deleted reply)) then None else get_record c (es_ckpts s2))) \<and>
      (n < length (go_deleted reply) \<longrightarrow> gc_stuck h s2 (snd job ! n))"
    using run by (intro exI [where x = n]) (simp add: res(2) ids take_map without_def)
  moreover have "es_gc_tasks s3 = removeAll (fst job) (es_gc_tasks s2)" "es_active s3 = es_active s2"
    using run(2) by (simp_all add: res(2) without_def)
  ultimately show ?thesis using job res(1) by blast
qed

definition demo_old_records :: "ckpt_record list" where
  "demo_old_records = [demo_record ''a'' 1 Ck_Failed None (Some ''i1''), demo_record ''b'' 2 Ck_Failed None (Some ''i2'')]"

definition demo_collected :: "gc_out \<times> (string \<times> ckpt_record list) option \<times> exec_server" where
  "demo_collected = container_checkpoint_gc Absent None False (demo_exec_server\<lparr>es_ckpts := (new_manager 1 [] None)
     \<lparr>mg_checkpoints := map (\<lambda>r. (kr_checkpoint_id r, r)) demo_old_records\<rparr>\<rparr>)"

lemma gc_removes_only_planned_witness:
  "\<exists>job s'. fst (snd demo_collected) = Some job \<and> es_active s' = es_active demo_exec_server \<and>
    (\<exists>w'. gc_worker (demo_exec_host demo_state) job ([], []) (demo_exec_server\<lparr>es_gc_tasks := [fst job]\<rparr>) = (Inr (), w', s')) \<and> es_gc_tasks s' = []"
proof -
  have "(case fst (snd demo_collected) of None \<Rightarrow> False | Some job \<Rightarrow> True)" by code_simp
  then obtain job where "fst (snd demo_collected) = Some job" by (auto split: option.split_asm)
  then have route: "container_checkpoint_gc Absent None False (demo_exec_server\<lparr>es_ckpts := (new_manager 1 [] None)
      \<lparr>mg_checkpoints := map (\<lambda>r. (kr_checkpoint_id r, r)) demo_old_records\<rparr>\<rparr>) = (fst demo_collected, Some job, snd (snd demo_collected))"
    by (simp add: demo_collected_def prod_eq_iff)
  let ?s = "demo_exec_server\<lparr>es_gc_tasks := [fst job]\<rparr>"
  obtain res w' s' where worker: "gc_worker (demo_exec_host demo_state) job ([], []) ?s = (res, w', s')" by (metis prod_cases3)
  from gc_removes_only_planned [OF route worker] have "res = Inr ()" "es_gc_tasks s' = []" "es_active s' = es_active demo_exec_server" by auto
  with worker \<open>fst (snd demo_collected) = Some job\<close> show ?thesis by blast
qed

section \<open>The wait for the workers\<close>

lemma gc_drain_goes_on: "gc_drain timeout obs = None \<longleftrightarrow> (\<forall>x \<in> set obs. 0 < fst x \<and> snd x < timeout)"
  by (induction timeout obs rule: gc_drain.induct) auto

lemma gc_drain_drained:
  "gc_drain timeout obs = Some r \<Longrightarrow> (do_drained r \<longrightarrow> do_remaining r = 0) \<and> (\<not> do_drained r \<longrightarrow> timeout \<le> do_waited r \<and> 0 < do_remaining r)"
  by (induction timeout obs rule: gc_drain.induct) (auto split: if_splits)

lemma drain_pause_long: "waited < timeout \<Longrightarrow> min (1/100) (timeout - waited) \<le> drain_pause interval timeout waited"
  by (auto simp: drain_pause_def split: jfield.splits)

text \<open>The wait for the collection workers ends: with pauses at least as long as the code asks for, it has
  answered after at most a hundred turns per second of its timeout and two more, with success only when no task
  is in flight and with the timeout's error only when that long has passed.\<close>

theorem drain_returns:
  assumes "\<And>i. Suc i < length obs \<Longrightarrow> snd (obs ! i) + drain_pause interval timeout (snd (obs ! i)) \<le> snd (obs ! Suc i)"
    and "\<And>x. x \<in> set obs \<Longrightarrow> 0 \<le> snd x" "100 * timeout + 2 \<le> real (length obs)" "obs \<noteq> []"
  shows "\<exists>r. gc_drain timeout obs = Some r \<and> (do_drained r \<longrightarrow> do_remaining r = 0) \<and>
    (\<not> do_drained r \<longrightarrow> timeout \<le> do_waited r \<and> 0 < do_remaining r)"
proof (cases "gc_drain timeout obs")
  case None
  then have short: "snd (obs ! i) < timeout" if "i < length obs" for i using that by (auto simp: gc_drain_goes_on)
  have "real i / 100 \<le> snd (obs ! i)" if "i < length obs" for i
    using that
  proof (induction i)
    case 0
    then show ?case using assms(2) [OF nth_mem] by simp
  next
    case (Suc i)
    let ?w = "snd (obs ! i)"
    have "min (1/100) (timeout - ?w) \<le> drain_pause interval timeout ?w" using drain_pause_long short Suc.prems by simp
    with assms(1) [OF Suc.prems] short [OF Suc.prems] have "1/100 + ?w \<le> snd (obs ! Suc i)" by (auto simp: min_def split: if_splits)
    with Suc show ?case by simp
  qed
  from this [of "length obs - 1"] short [of "length obs - 1"] assms(3,4) have False by (cases obs) (auto simp: field_simps)
  then show ?thesis ..
next
  case (Some r)
  with gc_drain_drained show ?thesis by blast
qed

lemma drain_returns_witness: "\<exists>r. gc_drain (1/100) [(1, 0), (1, 1/100), (1, 2/100)] = Some r \<and> \<not> do_drained r"
proof -
  have "\<exists>r. gc_drain (1/100) [(1, 0), (1, 1/100), (1, 2/100)] = Some r \<and> (do_drained r \<longrightarrow> do_remaining r = 0) \<and>
    (\<not> do_drained r \<longrightarrow> 1/100 \<le> do_waited r \<and> 0 < do_remaining r)"
  proof (rule drain_returns [where interval = Absent])
    fix i assume "Suc i < length [(1 :: int, 0 :: real), (1, 1/100), (1, 2/100)]"
    then have "i = 0 \<or> i = 1" by auto
    then show "snd ([(1 :: int, 0), (1, 1/100), (1, 2/100)] ! i) + drain_pause Absent (1/100) (snd ([(1 :: int, 0), (1, 1/100), (1, 2/100)] ! i))
      \<le> snd ([(1 :: int, 0), (1, 1/100), (1, 2/100)] ! Suc i)" by (auto simp: drain_pause_def)
  qed auto
  then show ?thesis by auto
qed

section \<open>Deviations\<close>

text \<open>The first command of a container is number 0; a checkpoint after it records no last action.\<close>

lemma first_action_unrecorded:
  "rs_last_action_id (build_runtime_state (demo_record ''a'' 1 Ck_Pending None None) []) = [] \<and>
   rs_last_action_id (build_runtime_state ((demo_record ''a'' 1 Ck_Pending None None)\<lparr>kr_command_seq := 1\<rparr>) []) = ''cmd-1''"
  by code_simp

text \<open>
  When the record is deleted between the reading of it and the end of the rerun, the rerun fails after the new
  container has entered the table; the failure destroys that container and leaves it listed.
\<close>

lemma late_deletion_leaves_listed:
  assumes "get_record ckpt_id (es_ckpts s) = None" "take_over d now ckpt_id old new info w s = (res, w', s')"
    and "fst (destroy_container d 300 old w) = Inr () \<or> old = []"
  shows "res = Inl (KeyError ckpt_id) \<and> dget (es_active s') new \<noteq> None"
proof -
  obtain w1 where 1: "(if old = [] then give () else outside (destroy_container d 300 old)) w s = (Inr (), w1, s)"
    using assms(3) by (cases "old = []"; cases "destroy_container d 300 old w") (auto simp: give_def outside_def)
  show ?thesis using assms(1,2)
    by (auto simp: take_over_def andthen_def 1 change_state_def change_table_def mark_used_def update_record_def get_record_def
        swap_container_def Let_def dget_dset)
qed

text \<open>A deletion reports success, and the record is gone, although docker refused to remove the image.\<close>

definition keeping_docker :: "demo_docker_world docker" where
  "keeping_docker q w = (Inr \<lparr>dr_code = (case dq_args q of a # b # _ \<Rightarrow> if a = ''image'' \<and> b = ''rm'' then 1 else 0 | _ \<Rightarrow> 0), dr_stdout = [], dr_stderr = []\<rparr>, w)"

lemma deletion_ignores_refusal:
  "case container_checkpoint_delete ((demo_exec_host demo_state)\<lparr>ha_docker := keeping_docker\<rparr>) (Val ''swe-ckpt-ab'') ([], []) demo_ready_server of
     (Inr (ReplyOk n), _, s') \<Rightarrow> get_record ''swe-ckpt-ab'' (es_ckpts s') = None | _ \<Rightarrow> False"
  by code_simp

end
