(* ===== verification/Balance_Partitions.thy ===== *)
theory Balance_Partitions
  imports Prelude "HOL-Library.List_Lexorder" "HOL-Library.Product_Lexorder"
begin

text \<open>
  Partitions of sequences balanced by length (slime/slime/utils/seqlen_balancing.py): the largest
  differencing method of Karmarkar and Karp and its wrapper that checks the result.  The heap of
  states is a list from which a least state is taken.  Of two states that arise from one input
  with lengths that are not negative one is less than the other, since their first sets hold
  different indices, so that this is the state \<open>heapq\<close> returns.  Lengths are integers, numbers of
  partitions natural numbers.
\<close>

section \<open>Sets and states\<close>

record part_set =
  ps_sum :: int
  ps_items :: "(nat \<times> int) list"

definition empty_set :: part_set where
  "empty_set = \<lparr>ps_sum = 0, ps_items = []\<rparr>"

definition add_item :: "nat \<Rightarrow> int \<Rightarrow> part_set \<Rightarrow> part_set" where
  "add_item idx val s = s\<lparr>ps_items := ps_items s @ [(idx, val)], ps_sum := ps_sum s + val\<rparr>"

definition merge_set :: "part_set \<Rightarrow> part_set \<Rightarrow> part_set" where
  "merge_set s t = fold (\<lambda>(idx, val). add_item idx val) (ps_items t) s"

definition set_key :: "part_set \<Rightarrow> int \<times> nat \<times> (nat \<times> int) list" where
  \<comment> \<open>\<open>Set.__lt__\<close> compares these\<close>
  "set_key s = (ps_sum s, length (ps_items s), ps_items s)"

type_synonym kk_state = "part_set list"     \<comment> \<open>in decreasing order\<close>

definition new_state :: "nat \<Rightarrow> (int \<times> nat) list \<Rightarrow> kk_state" where
  "new_state k items =
     sort_key_rev set_key (map (\<lambda>(val, idx). add_item idx val empty_set) items @ replicate (k - length items) empty_set)"

definition merge_state :: "kk_state \<Rightarrow> kk_state \<Rightarrow> kk_state" where
  "merge_state s t = sort_key_rev set_key (map2 merge_set s (rev t))"

definition spread :: "kk_state \<Rightarrow> int" where
  "spread s = ps_sum (hd s) - ps_sum (last s)"

definition state_less :: "kk_state \<Rightarrow> kk_state \<Rightarrow> bool" where
  \<comment> \<open>\<open>State.__lt__\<close>: the largest spread first, then the largest set\<close>
  "state_less s t = (if spread s \<noteq> spread t then spread t < spread s else set_key (hd t) < set_key (hd s))"

fun pop_least :: "kk_state \<Rightarrow> kk_state list \<Rightarrow> kk_state \<times> kk_state list" where
  "pop_least s [] = (s, [])"
| "pop_least s (t # ts) =
     (if state_less t s then (case pop_least t ts of (m, r) \<Rightarrow> (m, s # r))
      else (case pop_least s ts of (m, r) \<Rightarrow> (m, t # r)))"

lemma pop_least_mset: "pop_least s ts = (m, r) \<Longrightarrow> add_mset m (mset r) = add_mset s (mset ts)"
  by (induction s ts arbitrary: m r rule: pop_least.induct) (auto split: prod.splits if_splits)

lemma pop_least_length: "pop_least s ts = (m, r) \<Longrightarrow> length r = length ts"
  using pop_least_mset [of s ts m r] by (metis size_add_mset size_mset nat.inject)

function merge_all :: "kk_state \<Rightarrow> kk_state list \<Rightarrow> kk_state" where
  "merge_all s [] = s"
| "merge_all s (t # ts) =
     (case pop_least s (t # ts) of
        (state0, []) \<Rightarrow> state0
      | (state0, u # us) \<Rightarrow> (case pop_least u us of (state1, rest) \<Rightarrow> merge_all (merge_state state0 state1) rest))"
  by pat_completeness auto
termination
  by (relation "measure (\<lambda>(s, ts). length ts)") (auto simp del: pop_least.simps dest!: pop_least_length [OF sym])

fun chunks_of :: "nat \<Rightarrow> 'a list \<Rightarrow> 'a list list" where
  "chunks_of k xs = (if k = 0 \<or> xs = [] then [] else take k xs # chunks_of k (drop k xs))"

declare chunks_of.simps [simp del]

definition get_partitions :: "kk_state \<Rightarrow> nat list list" where
  "get_partitions s = map (\<lambda>x. map fst (ps_items x)) s"

definition karmarkar_karp :: "int list \<Rightarrow> nat \<Rightarrow> bool \<Rightarrow> nat list list res" where
  "karmarkar_karp lens k equal_size =
     (let n = length lens; items = sort (zip lens [0..<n])
      in if k = 0 then Inl (OtherError (if equal_size then ''ZeroDivisionError'' else ''IndexError''))
         else if equal_size \<and> n mod k \<noteq> 0 then Inl (AssertionError ''not divisible'')
         else case (if equal_size then map (new_state k) (chunks_of k items) else map (\<lambda>x. new_state k [x]) items) of
                [] \<Rightarrow> Inl (OtherError ''IndexError'')
              | s # ss \<Rightarrow>
                  (let parts = get_partitions (merge_all s ss)
                   in if equal_size \<and> (\<exists>p \<in> set parts. length p * k \<noteq> n) then Inl (AssertionError ''unequal sizes'')
                      else Inr parts))"

definition check_and_sort_partitions :: "nat \<Rightarrow> nat \<Rightarrow> nat list list \<Rightarrow> nat list list res" where
  "check_and_sort_partitions n k parts =
     (if length parts \<noteq> k then Inl (AssertionError ''wrong number of partitions'')
      else if [] \<in> set parts then Inl (AssertionError ''empty partition'')
      else if set (concat parts) \<noteq> set [0..<n] then Inl (AssertionError ''indices missing'')
      else Inr (map sort parts))"

definition get_seqlen_balanced_partitions :: "int list \<Rightarrow> nat \<Rightarrow> bool \<Rightarrow> nat list list res" where
  "get_seqlen_balanced_partitions lens k equal_size =
     (if length lens < k then Inl (AssertionError ''too few items'')
      else case karmarkar_karp lens k equal_size of
             Inl e \<Rightarrow> Inl e
           | Inr parts \<Rightarrow> check_and_sort_partitions (length lens) k parts)"

section \<open>Sets in a state\<close>

lemma merge_set_simps [simp]:
  "ps_items (merge_set s t) = ps_items s @ ps_items t" "ps_sum (merge_set s t) = ps_sum s + sum_list (map snd (ps_items t))"
proof -
  have "ps_items (fold (\<lambda>(i, v). add_item i v) xs s) = ps_items s @ xs \<and>
    ps_sum (fold (\<lambda>(i, v). add_item i v) xs s) = ps_sum s + sum_list (map snd xs)" for xs
    by (induction xs arbitrary: s) (auto simp: add_item_def)
  then show "ps_items (merge_set s t) = ps_items s @ ps_items t" "ps_sum (merge_set s t) = ps_sum s + sum_list (map snd (ps_items t))"
    unfolding merge_set_def by blast+
qed

definition nonempty_set :: "part_set \<Rightarrow> bool" where
  "nonempty_set s = (ps_items s \<noteq> [])"

definition set_ok :: "int list \<Rightarrow> part_set \<Rightarrow> bool" where
  \<comment> \<open>the items are indices with their lengths, the sum is theirs\<close>
  "set_ok lens s = (ps_sum s = sum_list (map snd (ps_items s)) \<and> (\<forall>(i, l) \<in> set (ps_items s). i < length lens \<and> l = lens ! i))"

definition all_items :: "kk_state \<Rightarrow> (nat \<times> int) list" where
  "all_items s = concat (map ps_items s)"

definition state_ok :: "int list \<Rightarrow> nat \<Rightarrow> int \<Rightarrow> kk_state \<Rightarrow> bool" where
  "state_ok lens k m s = (length s = k \<and> sorted_wrt (\<lambda>a b. set_key b \<le> set_key a) s \<and> (\<forall>x \<in> set s. set_ok lens x) \<and>
     (\<forall>x \<in> set s. \<forall>y \<in> set s. ps_sum x - ps_sum y \<le> m) \<and> length (filter nonempty_set s) = min k (length (all_items s)))"

definition even_state :: "nat \<Rightarrow> kk_state \<Rightarrow> bool" where
  \<comment> \<open>all sets have the same number of items\<close>
  "even_state c s = (\<forall>x \<in> set s. length (ps_items x) = c)"

lemma sort_key_rev_sorted: "sorted_wrt (\<lambda>a b. f b \<le> f a) (sort_key_rev f xs)"
proof -
  have "sorted_wrt (\<lambda>a b. f a \<le> f b) (sort_key f (rev xs))"
    using sorted_sort_key [of f "rev xs"] by (simp add: sorted_wrt_map)
  then show ?thesis unfolding sort_key_rev_def by (simp add: sorted_wrt_rev)
qed

lemma length_all_items: "length (all_items s) = sum_mset (image_mset (\<lambda>x. length (ps_items x)) (mset s))"
  by (induction s) (auto simp: all_items_def)

lemma mset_all_items: "mset (all_items s) = \<Sum>\<^sub># (image_mset (\<lambda>x. mset (ps_items x)) (mset s))"
  by (induction s) (auto simp: all_items_def)

lemma mset_all_items_sort [simp]: "mset (all_items (sort_key_rev f s)) = mset (all_items s)"
  unfolding mset_all_items by simp

lemma length_all_items_sort [simp]: "length (all_items (sort_key_rev f s)) = length (all_items s)"
  using mset_all_items_sort by (metis size_mset)

lemma filter_sort_rev: "length (filter P (sort_key_rev f s)) = length (filter P s)"
proof -
  have "size (filter_mset P (mset (sort_key_rev f s))) = size (filter_mset P (mset s))" by simp
  then show ?thesis by (metis mset_filter size_mset)
qed

text \<open>In a state whose lengths are not negative the empty sets come last.\<close>

lemma nonempty_prefix:
  assumes "sorted_wrt (\<lambda>a b. set_key b \<le> set_key a) s" "\<And>x. x \<in> set s \<Longrightarrow> set_ok lens x" "\<And>l. l \<in> set lens \<Longrightarrow> 0 \<le> l" "i < length s"
  shows "nonempty_set (s ! i) \<longleftrightarrow> i < length (filter nonempty_set s)"
  using assms
proof (induction s arbitrary: i)
  case (Cons x s)
  show ?case
  proof (cases "nonempty_set x")
    case True
    with Cons show ?thesis by (cases i) auto
  next
    case False
    have "\<not> nonempty_set y" if "y \<in> set s" for y
    proof
      assume y: "nonempty_set y"
      have "set_ok lens y" "set_ok lens x" using Cons.prems(2) that by auto
      then have "0 \<le> l" if "(i, l) \<in> set (ps_items y)" for i l using that Cons.prems(3) [OF nth_mem, of i] unfolding set_ok_def by fastforce
      then have "0 \<le> ps_sum y" using \<open>set_ok lens y\<close> unfolding set_ok_def by (auto intro!: sum_list_nonneg)
      moreover have "ps_sum x = 0" "length (ps_items x) = 0" using False \<open>set_ok lens x\<close> by (auto simp: nonempty_set_def set_ok_def)
      ultimately have "set_key x < set_key y" using y by (auto simp: set_key_def nonempty_set_def)
      with Cons.prems(1) that show False by auto
    qed
    then have "filter nonempty_set s = []" by (simp add: filter_empty_conv)
    with False Cons.prems(4) \<open>\<And>y. y \<in> set s \<Longrightarrow> \<not> nonempty_set y\<close> show ?thesis by (cases i) auto
  qed
qed simp

section \<open>Merging keeps the invariant\<close>

lemma key_le_sum: "set_key a \<le> set_key b \<Longrightarrow> ps_sum a \<le> ps_sum b"
  by (auto simp: set_key_def less_eq_prod_def)

lemma set_map2_nth: "length a = length b \<Longrightarrow> x \<in> set (map2 f a b) \<Longrightarrow> \<exists>i < length a. x = f (a ! i) (b ! i)"
  by (auto simp: set_zip)

lemma merged_sums:
  assumes "state_ok lens k m a" "state_ok lens k m b" "i < k" "j < k"
  shows "(ps_sum (a ! i) + ps_sum (rev b ! i)) - (ps_sum (a ! j) + ps_sum (rev b ! j)) \<le> m"
proof -
  have len: "length a = k" "length b = k" using assms(1,2) by (auto simp: state_ok_def)
  have desc: "ps_sum (s ! q) \<le> ps_sum (s ! p)" if "state_ok lens k m s" "p \<le> q" "q < k" for s p q
    using that sorted_wrt_nth_less [of "\<lambda>a b. set_key b \<le> set_key a" s p q]
    by (cases "p = q") (auto simp: state_ok_def intro!: key_le_sum)
  have bound: "ps_sum (s ! p) - ps_sum (s ! q) \<le> m" if "state_ok lens k m s" "p < k" "q < k" for s p q
    using that unfolding state_ok_def by (metis nth_mem)
  have rev_b: "rev b ! p = b ! (k - Suc p)" if "p < k" for p using that len by (simp add: rev_nth)
  show ?thesis
  proof (cases "i \<le> j")
    case True
    have "ps_sum (b ! (k - Suc i)) \<le> ps_sum (b ! (k - Suc j))" using True assms(3,4) by (intro desc [OF assms(2)]) auto
    with bound [OF assms(1,3,4)] show ?thesis using rev_b assms(3,4) by simp
  next
    case False
    have "ps_sum (a ! i) \<le> ps_sum (a ! j)" using False assms(3,4) by (intro desc [OF assms(1)]) auto
    with bound [OF assms(2), of "k - Suc i" "k - Suc j"] show ?thesis using rev_b assms(3,4) by simp
  qed
qed

lemma merged_nonempty:
  assumes "length a = k" "length b = k" "ca \<le> k" "cb \<le> k" "\<And>i. i < k \<Longrightarrow> nonempty_set (a ! i) \<longleftrightarrow> i < ca" "\<And>i. i < k \<Longrightarrow> nonempty_set (b ! i) \<longleftrightarrow> i < cb"
  shows "length (filter nonempty_set (map2 merge_set a (rev b))) = min k (ca + cb)"
proof -
  have "nonempty_set (map2 merge_set a (rev b) ! i) \<longleftrightarrow> i < ca \<or> k - cb \<le> i" if "i < k" for i
  proof -
    have "nonempty_set (map2 merge_set a (rev b) ! i) \<longleftrightarrow> nonempty_set (a ! i) \<or> nonempty_set (b ! (k - Suc i))"
      using that assms(1,2) by (simp add: nonempty_set_def rev_nth)
    also have "\<dots> \<longleftrightarrow> i < ca \<or> k - Suc i < cb" using that assms(5,6) by simp
    finally show ?thesis using that assms(4) by (auto)
  qed
  then have "{i. i < length (map2 merge_set a (rev b)) \<and> nonempty_set (map2 merge_set a (rev b) ! i)} = {..<ca} \<union> {k - cb..<k}"
    using assms(1-4) by auto
  then have "length (filter nonempty_set (map2 merge_set a (rev b))) = card ({..<ca} \<union> {k - cb..<k})"
    by (simp add: length_filter_conv_card)
  also have "{..<ca} \<union> {k - cb..<k} = (if k - cb \<le> ca then {..<k} else {..<ca} \<union> {k - cb..<k})" using assms(3) by auto
  also have "card \<dots> = min k (ca + cb)"
  proof (cases "k - cb \<le> ca")
    case False
    then have "card ({..<ca} \<union> {k - cb..<k}) = ca + cb" using assms(4) by (subst card_Un_disjoint) auto
    with False show ?thesis by simp
  qed (use assms(4) in auto)
  finally show ?thesis .
qed

lemma set_ok_merge: "set_ok lens x \<Longrightarrow> set_ok lens y \<Longrightarrow> set_ok lens (merge_set x y)"
  by (auto simp: set_ok_def)

lemma all_items_map2:
  "length a = length b \<Longrightarrow> mset (all_items (map2 merge_set a b)) = mset (all_items a) + mset (all_items b)"
  by (induction a b rule: list_induct2) (auto simp: all_items_def)

lemma merge_state_items:
  "length a = length b \<Longrightarrow> mset (all_items (merge_state a b)) = mset (all_items a) + mset (all_items b)"
proof -
  assume "length a = length b"
  moreover have "mset (all_items (rev b)) = mset (all_items b)" unfolding mset_all_items by simp
  ultimately show ?thesis by (simp add: merge_state_def all_items_map2)
qed

lemma merge_state_ok:
  assumes "state_ok lens k m a" "state_ok lens k m b" "\<And>l. l \<in> set lens \<Longrightarrow> 0 \<le> l"
  shows "state_ok lens k m (merge_state a b)"
proof -
  have len: "length a = k" "length b = k" and ok: "\<And>x. x \<in> set a \<Longrightarrow> set_ok lens x" "\<And>x. x \<in> set b \<Longrightarrow> set_ok lens x"
    and sorted: "sorted_wrt (\<lambda>a b. set_key b \<le> set_key a) a" "sorted_wrt (\<lambda>a b. set_key b \<le> set_key a) b"
    and count: "length (filter nonempty_set a) = min k (length (all_items a))" "length (filter nonempty_set b) = min k (length (all_items b))"
    using assms(1,2) by (auto simp: state_ok_def)
  let ?s = "map2 merge_set a (rev b)"
  have nth: "\<exists>i < k. x = merge_set (a ! i) (rev b ! i)" if "x \<in> set ?s" for x using set_map2_nth [of a "rev b" x] that len by auto
  have "set_ok lens x" if x: "x \<in> set ?s" for x
  proof -
    obtain i where "i < k" "x = merge_set (a ! i) (rev b ! i)" using nth [OF x] by blast
    moreover have "rev b ! i \<in> set b" using \<open>i < k\<close> len by (metis length_rev nth_mem set_rev)
    ultimately show ?thesis using ok len by (auto intro!: set_ok_merge)
  qed
  moreover have "ps_sum x - ps_sum y \<le> m" if x: "x \<in> set ?s" and y: "y \<in> set ?s" for x y
  proof -
    obtain i where i: "i < k" "x = merge_set (a ! i) (rev b ! i)" using nth [OF x] by blast
    obtain j where j: "j < k" "y = merge_set (a ! j) (rev b ! j)" using nth [OF y] by blast
    have "sum_list (map snd (ps_items (rev b ! p))) = ps_sum (rev b ! p)" if "p < k" for p
      using ok(2) [of "rev b ! p"] that len by (metis length_rev nth_mem set_ok_def set_rev)
    with merged_sums [OF assms(1,2) i(1) j(1)] i j show ?thesis by simp
  qed
  moreover have "length (filter nonempty_set ?s) = min k (length (all_items a) + length (all_items b))"
  proof -
    have "length (filter nonempty_set ?s) = min k (min k (length (all_items a)) + min k (length (all_items b)))"
      using nonempty_prefix [OF sorted(1) ok(1) assms(3)] nonempty_prefix [OF sorted(2) ok(2) assms(3)] len count
      by (intro merged_nonempty) auto
    then show ?thesis by simp
  qed
  moreover have "length (all_items (merge_state a b)) = length (all_items a) + length (all_items b)"
    using merge_state_items [of a b] len by (metis size_mset size_union)
  ultimately show ?thesis
    unfolding state_ok_def merge_state_def by (auto simp: len sort_key_rev_sorted filter_sort_rev)
qed

section \<open>The states at the start\<close>

definition item_ok :: "int list \<Rightarrow> int \<times> nat \<Rightarrow> bool" where
  "item_ok lens x = (snd x < length lens \<and> fst x = lens ! snd x)"

lemma all_items_start: "mset (all_items (new_state k items)) = mset (map (\<lambda>(v, i). (i, v)) items)"
proof -
  have "all_items (map (\<lambda>(v, i). add_item i v empty_set) items @ replicate r empty_set) = map (\<lambda>(v, i). (i, v)) items" for r
    by (induction items) (auto simp: all_items_def add_item_def empty_set_def)
  then show ?thesis by (simp add: new_state_def)
qed

lemma new_state_ok:
  assumes "length items \<le> k" "\<And>x. x \<in> set items \<Longrightarrow> item_ok lens x" "\<And>l. l \<in> set lens \<Longrightarrow> 0 \<le> l \<and> l \<le> m" "0 \<le> m"
  shows "state_ok lens k m (new_state k items)"
proof -
  let ?s = "map (\<lambda>(v, i). add_item i v empty_set) items @ replicate (k - length items) empty_set"
  have val: "0 \<le> fst x \<and> fst x \<le> m" if "x \<in> set items" for x using assms(2) [OF that] assms(3) by (auto simp: item_ok_def)
  have ok: "set_ok lens x \<and> 0 \<le> ps_sum x \<and> ps_sum x \<le> m" if "x \<in> set ?s" for x
  proof (cases "x = empty_set")
    case False
    with that obtain v i where "(v, i) \<in> set items" "x = add_item i v empty_set" by auto
    with assms(2) [of "(v, i)"] val [of "(v, i)"] show ?thesis by (auto simp: set_ok_def add_item_def empty_set_def item_ok_def)
  qed (use assms(4) in \<open>simp add: set_ok_def empty_set_def\<close>)
  have "ps_sum x - ps_sum y \<le> m" if "x \<in> set ?s" "y \<in> set ?s" for x y using ok [OF that(1)] ok [OF that(2)] by linarith
  moreover have "filter nonempty_set ?s = map (\<lambda>(v, i). add_item i v empty_set) items"
    by (auto simp: nonempty_set_def empty_set_def add_item_def filter_empty_conv intro!: filter_True)
  moreover have "length (all_items (new_state k items)) = length items"
    using all_items_start [of k items] by (metis length_map size_mset)
  ultimately show ?thesis using assms(1) ok
    unfolding state_ok_def new_state_def by (auto simp: sort_key_rev_sorted filter_sort_rev)
qed

lemma new_state_even: "length items = k \<Longrightarrow> even_state 1 (new_state k items)"
  by (auto simp: even_state_def new_state_def add_item_def empty_set_def)

lemma merge_state_even: "length a = length b \<Longrightarrow> even_state c a \<Longrightarrow> even_state d b \<Longrightarrow> even_state (c + d) (merge_state a b)"
proof -
  assume assms: "length a = length b" "even_state c a" "even_state d b"
  have "length (ps_items x) = c + d" if x: "x \<in> set (map2 merge_set a (rev b))" for x
  proof -
    obtain i where i: "i < length a" "x = merge_set (a ! i) (rev b ! i)" using set_map2_nth [of a "rev b" x] x assms(1) by auto
    moreover have "rev b ! i \<in> set b" using i(1) assms(1) by (metis length_rev nth_mem set_rev)
    ultimately show ?thesis using assms(2,3) by (simp add: even_state_def)
  qed
  then show ?thesis by (simp add: even_state_def merge_state_def)
qed

definition kk_good :: "int list \<Rightarrow> nat \<Rightarrow> int \<Rightarrow> bool \<Rightarrow> kk_state \<Rightarrow> bool" where
  "kk_good lens k m equal_size s = (state_ok lens k m s \<and> (equal_size \<longrightarrow> (\<exists>c. even_state c s)))"

lemma merge_kk_good:
  "kk_good lens k m e a \<Longrightarrow> kk_good lens k m e b \<Longrightarrow> (\<And>l. l \<in> set lens \<Longrightarrow> 0 \<le> l) \<Longrightarrow> kk_good lens k m e (merge_state a b)"
proof -
  assume assms: "kk_good lens k m e a" "kk_good lens k m e b" "\<And>l. l \<in> set lens \<Longrightarrow> 0 \<le> l"
  then have "state_ok lens k m (merge_state a b)" by (intro merge_state_ok) (auto simp: kk_good_def)
  moreover have "length a = length b" using assms(1,2) by (simp add: kk_good_def state_ok_def)
  ultimately show ?thesis using assms(1,2) merge_state_even unfolding kk_good_def by blast
qed

lemma merge_all_good:
  assumes "\<And>x. x \<in> insert s (set ts) \<Longrightarrow> kk_good lens k m e x" "\<And>l. l \<in> set lens \<Longrightarrow> 0 \<le> l"
  shows "kk_good lens k m e (merge_all s ts) \<and>
    mset (all_items (merge_all s ts)) = \<Sum>\<^sub># (image_mset (\<lambda>x. mset (all_items x)) (mset (s # ts)))"
  using assms(1)
proof (induction s ts rule: merge_all.induct)
  case (2 s t ts)
  obtain a r where a: "pop_least s (t # ts) = (a, r)" by (cases "pop_least s (t # ts)")
  have bag: "add_mset a (mset r) = mset (s # t # ts)" using pop_least_mset [OF a] by simp
  have "length r = Suc (length ts)" using pop_least_length [OF a] by simp
  then obtain u us where r: "r = u # us" by (cases r) auto
  obtain b rest where b: "pop_least u us = (b, rest)" by (cases "pop_least u us")
  have bag': "add_mset a (add_mset b (mset rest)) = mset (s # t # ts)" using bag pop_least_mset [OF b] r by simp
  then have mem: "insert a (insert b (set rest)) = insert s (set (t # ts))"
    by (metis set_mset_add_mset_insert set_mset_mset list.simps(15) mset.simps(2))
  have good: "kk_good lens k m e x" if "x \<in> insert a (insert b (set rest))" for x using that "2.prems" unfolding mem by simp
  have ab: "kk_good lens k m e (merge_state a b)" using good by (intro merge_kk_good assms(2)) auto
  have "length a = length b" using good [of a] good [of b] by (simp add: kk_good_def state_ok_def)
  note items = merge_state_items [OF this]
  have IH: "kk_good lens k m e (merge_all (merge_state a b) rest) \<and>
    mset (all_items (merge_all (merge_state a b) rest)) = \<Sum>\<^sub># (image_mset (\<lambda>x. mset (all_items x)) (mset (merge_state a b # rest)))"
    using "2.IH" [OF a [symmetric] r b [symmetric]] ab good by auto
  have "\<Sum>\<^sub># (image_mset (\<lambda>x. mset (all_items x)) (mset (s # t # ts))) =
    mset (all_items a) + (mset (all_items b) + \<Sum>\<^sub># (image_mset (\<lambda>x. mset (all_items x)) (mset rest)))"
    unfolding bag' [symmetric] by simp
  moreover have "merge_all s (t # ts) = merge_all (merge_state a b) rest" by (simp add: a r b del: pop_least.simps)
  ultimately show ?case using IH items by (simp add: add.assoc del: merge_all.simps)
qed simp

lemma sort_Nil_iff [simp]: "sort xs = [] \<longleftrightarrow> xs = []"
  by (metis length_0_conv length_sort)

lemma chunks_concat: "k \<noteq> 0 \<Longrightarrow> concat (chunks_of k xs) = xs"
proof (induction k xs rule: chunks_of.induct)
  case (1 k xs)
  then show ?case by (cases "xs = []") (simp_all add: chunks_of.simps [of k xs] chunks_of.simps [of k "[]"])
qed

lemma chunks_length: "k \<noteq> 0 \<Longrightarrow> length xs mod k = 0 \<Longrightarrow> c \<in> set (chunks_of k xs) \<Longrightarrow> length c = k"
proof (induction k xs arbitrary: c rule: chunks_of.induct)
  case (1 k xs)
  show ?case
  proof (cases "xs = []")
    case False
    with "1.prems" have "k \<le> length xs" by (cases "length xs < k") auto
    moreover from this "1.prems"(2) have rest: "length (drop k xs) mod k = 0" by (simp add: le_mod_geq)
    moreover have "c = take k xs \<or> c \<in> set (chunks_of k (drop k xs))" using False "1.prems"(1,3) by (simp add: chunks_of.simps [of k xs])
    moreover have "length c = k" if "c \<in> set (chunks_of k (drop k xs))" by (rule "1.IH") (use False "1.prems"(1) rest that in auto)
    ultimately show ?thesis by auto
  qed (use "1.prems" in \<open>simp add: chunks_of.simps [of k "[]"]\<close>)
qed

section \<open>The partitions\<close>

definition load_of :: "int list \<Rightarrow> nat list \<Rightarrow> int" where
  "load_of lens p = sum_list (map (\<lambda>i. lens ! i) p)"

definition longest :: "int list \<Rightarrow> int" where
  "longest lens = Max (insert 0 (set lens))"

lemma final_state:
  assumes "kk_good lens k m e s" "mset (all_items s) = mset (map (\<lambda>(v, i). (i, v)) (zip lens [0..<length lens]))"
    and "1 \<le> k" "k \<le> length lens"
  defines "parts \<equiv> get_partitions s"
  shows "length parts = k" "mset (concat parts) = mset [0..<length lens]" "[] \<notin> set parts"
    "\<forall>p \<in> set parts. \<forall>q \<in> set parts. load_of lens p - load_of lens q \<le> m" "e \<longrightarrow> (\<forall>p \<in> set parts. length p * k = length lens)"
proof -
  have ok: "state_ok lens k m s" using assms(1) by (simp add: kk_good_def)
  then show len: "length parts = k" by (simp add: parts_def get_partitions_def state_ok_def)
  have concat: "concat parts = map fst (all_items s)" by (simp add: parts_def get_partitions_def all_items_def map_concat comp_def)
  have "mset (concat parts) = image_mset fst (mset (all_items s))" by (simp add: concat)
  also have "\<dots> = mset (map fst (map (\<lambda>(v, i). (i, v)) (zip lens [0..<length lens])))" unfolding assms(2) by (simp only: mset_map)
  also have "map fst (map (\<lambda>(v, i). (i, v)) (zip lens [0..<length lens])) = [0..<length lens]"
    using map_snd_zip [of lens "[0..<length lens]"] by (simp add: comp_def case_prod_unfold del: map_snd_zip)
  finally show "mset (concat parts) = mset [0..<length lens]" .
  have total: "length (all_items s) = length lens" using assms(2) by (metis diff_zero length_map length_upt length_zip min.idem size_mset)
  then have "length (filter nonempty_set s) = length s" using ok assms(4) by (simp add: state_ok_def)
  then have "\<forall>x \<in> set s. nonempty_set x" by (metis filter_id_conv length_filter_less less_irrefl)
  then show "[] \<notin> set parts" by (auto simp: parts_def get_partitions_def nonempty_set_def)
  have load: "load_of lens (map fst (ps_items x)) = ps_sum x" if "x \<in> set s" for x
  proof -
    have "set_ok lens x" using ok that by (simp add: state_ok_def)
    then have "map (\<lambda>i. lens ! i) (map fst (ps_items x)) = map snd (ps_items x)" by (auto simp: set_ok_def)
    with \<open>set_ok lens x\<close> show ?thesis by (simp only: load_of_def set_ok_def)
  qed
  then show "\<forall>p \<in> set parts. \<forall>q \<in> set parts. load_of lens p - load_of lens q \<le> m"
    using ok by (auto simp: parts_def get_partitions_def state_ok_def)
  show "e \<longrightarrow> (\<forall>p \<in> set parts. length p * k = length lens)"
  proof
    assume e
    then obtain c where c: "even_state c s" using assms(1) by (auto simp: kk_good_def)
    have "length (all_items s) = sum_list (map (\<lambda>x. length (ps_items x)) s)" by (simp add: all_items_def length_concat comp_def)
    also have "map (\<lambda>x. length (ps_items x)) s = replicate k c"
      using c ok by (auto simp: even_state_def state_ok_def intro!: replicate_eqI)
    finally have "k * c = length lens" using total by (simp add: sum_list_replicate)
    with c show "\<forall>p \<in> set parts. length p * k = length lens" by (auto simp: parts_def get_partitions_def even_state_def mult.commute)
  qed
qed

lemma karmarkar_karp_partitions:
  assumes "1 \<le> k" "k \<le> length lens" "\<And>l. l \<in> set lens \<Longrightarrow> 0 \<le> l" "equal_size \<Longrightarrow> length lens mod k = 0"
  shows "\<exists>parts. karmarkar_karp lens k equal_size = Inr parts \<and> length parts = k \<and> mset (concat parts) = mset [0..<length lens] \<and> [] \<notin> set parts \<and>
    (\<forall>p \<in> set parts. \<forall>q \<in> set parts. load_of lens p - load_of lens q \<le> longest lens) \<and>
    (equal_size \<longrightarrow> (\<forall>p \<in> set parts. length p * k = length lens))"
proof -
  let ?items = "sort (zip lens [0..<length lens])"
  let ?states = "if equal_size then map (new_state k) (chunks_of k ?items) else map (\<lambda>x. new_state k [x]) ?items"
  have item: "item_ok lens x" if "x \<in> set ?items" for x using that by (auto simp: set_zip item_ok_def)
  have bound: "0 \<le> l \<and> l \<le> longest lens" if "l \<in> set lens" for l using that assms(3) by (auto simp: longest_def)
  have pos: "0 \<le> longest lens" by (simp add: longest_def)
  have good: "kk_good lens k (longest lens) equal_size x" if x: "x \<in> set ?states" for x
  proof (cases equal_size)
    case True
    then obtain c where c: "c \<in> set (chunks_of k ?items)" "x = new_state k c" using x by auto
    have "length c = k" using c(1) assms(1,4) True by (intro chunks_length) auto
    moreover have "set c \<subseteq> set ?items" using chunks_concat [of k ?items] c(1) assms(1) by (metis Union_upper concat.simps image_eqI set_concat not_one_le_zero)
    ultimately show ?thesis using c(2) item bound pos by (auto simp: kk_good_def intro!: new_state_ok new_state_even)
  next
    case False
    then obtain y where "y \<in> set ?items" "x = new_state k [y]" using x by auto
    with False item bound pos assms(1) show ?thesis by (auto simp: kk_good_def intro!: new_state_ok)
  qed
  have all: "\<Sum>\<^sub># (image_mset (\<lambda>x. mset (all_items x)) (mset ?states)) = mset (map (\<lambda>(v, i). (i, v)) (zip lens [0..<length lens]))"
  proof -
    have flat: "\<Sum>\<^sub># (image_mset (\<lambda>x. mset (all_items x)) (mset (map (new_state k) cs))) = mset (map (\<lambda>(v, i). (i, v)) (concat cs))" for cs
      by (induction cs) (simp_all add: all_items_start)
    have "?states = map (new_state k) (if equal_size then chunks_of k ?items else map (\<lambda>x. [x]) ?items)" by simp
    moreover have "concat (if equal_size then chunks_of k ?items else map (\<lambda>x. [x]) ?items) = ?items"
      using chunks_concat [of k ?items] assms(1) by (simp add: concat_map_singleton)
    ultimately have "\<Sum>\<^sub># (image_mset (\<lambda>x. mset (all_items x)) (mset ?states)) = mset (map (\<lambda>(v, i). (i, v)) ?items)" by (simp only: flat)
    then show ?thesis by (simp only: mset_map mset_sort)
  qed
  have "length lens \<noteq> 0" using assms(1,2) by linarith
  then have "?states \<noteq> []"
    using assms(1,2) by (auto simp: chunks_of.simps [of k ?items])
  then obtain s ss where st: "?states = s # ss" by (cases ?states) auto
  have mem: "kk_good lens k (longest lens) equal_size x" if "x \<in> insert s (set ss)" for x using good [of x] that st by simp
  have fin: "kk_good lens k (longest lens) equal_size (merge_all s ss)"
    "mset (all_items (merge_all s ss)) = mset (map (\<lambda>(v, i). (i, v)) (zip lens [0..<length lens]))"
    using merge_all_good [OF mem assms(3)] all [unfolded st] by auto
  note parts = final_state [OF fin assms(1,2)]
  have "karmarkar_karp lens k equal_size = Inr (get_partitions (merge_all s ss))"
    using assms(1,4) parts(5) unfolding karmarkar_karp_def Let_def st by auto
  with parts show ?thesis by blast
qed

lemma balanced_partitions:
  assumes "1 \<le> k" "k \<le> length lens" "\<And>l. l \<in> set lens \<Longrightarrow> 0 \<le> l" "equal_size \<Longrightarrow> length lens mod k = 0"
  shows "\<exists>parts. get_seqlen_balanced_partitions lens k equal_size = Inr parts \<and> length parts = k \<and>
    mset (concat parts) = mset [0..<length lens] \<and> (\<forall>p \<in> set parts. p \<noteq> [] \<and> sorted p) \<and>
    (\<forall>p \<in> set parts. \<forall>q \<in> set parts. \<bar>load_of lens p - load_of lens q\<bar> \<le> longest lens) \<and>
    (equal_size \<longrightarrow> (\<forall>p \<in> set parts. length p * k = length lens))"
proof -
  obtain parts where parts: "karmarkar_karp lens k equal_size = Inr parts" "length parts = k" "mset (concat parts) = mset [0..<length lens]"
    "[] \<notin> set parts" "\<forall>p \<in> set parts. \<forall>q \<in> set parts. load_of lens p - load_of lens q \<le> longest lens"
    "equal_size \<longrightarrow> (\<forall>p \<in> set parts. length p * k = length lens)"
    using karmarkar_karp_partitions [of k lens equal_size] assms by blast
  have "set (concat parts) = set [0..<length lens]" using parts(3) by (metis set_mset_mset)
  then have res: "get_seqlen_balanced_partitions lens k equal_size = Inr (map sort parts)"
    using parts(1,2,4) assms(2) by (simp add: get_seqlen_balanced_partitions_def check_and_sort_partitions_def)
  have load: "load_of lens (sort p) = load_of lens p" for p
    unfolding load_of_def by (metis mset_map mset_sort sum_mset_sum_list)
  have bag: "mset (concat (map sort parts)) = mset [0..<length lens]"
    unfolding parts(3) [symmetric] by (simp add: mset_concat comp_def)
  have "\<bar>load_of lens p - load_of lens q\<bar> \<le> longest lens" if "p \<in> set (map sort parts)" "q \<in> set (map sort parts)" for p q
  proof -
    obtain p' q' where "p' \<in> set parts" "q' \<in> set parts" "p = sort p'" "q = sort q'" using \<open>p \<in> _\<close> \<open>q \<in> _\<close> by auto
    then show ?thesis using parts(5) unfolding abs_le_iff by (simp add: load)
  qed
  moreover have "p \<noteq> [] \<and> sorted p" if p: "p \<in> set (map sort parts)" for p
  proof -
    obtain p' where "p' \<in> set parts" "p = sort p'" using p by auto
    with parts(4) show ?thesis by auto
  qed
  moreover have "\<forall>p \<in> set (map sort parts). length p * k = length lens" if equal_size using parts(6) that by simp
  moreover have "length (map sort parts) = k" using parts(2) by simp
  ultimately show ?thesis using res bag by blast
qed

text \<open>C30. For 1 up to n partitions of n sequences (a divisor of n for equal sizes) the balancing returns: as
  many partitions as asked for, none empty, each sorted, together every index once, of equal sizes if
  asked for, and the loads of any two differ by at most the longest sequence.\<close>

theorem partitions_balanced:
  assumes "1 \<le> k" "k \<le> length lens" "\<And>l. l \<in> set lens \<Longrightarrow> 0 \<le> l" "equal_size \<Longrightarrow> length lens mod k = 0"
  shows "\<exists>parts. get_seqlen_balanced_partitions lens k equal_size = Inr parts \<and> length parts = k \<and>
    mset (concat parts) = mset [0..<length lens] \<and> (\<forall>p \<in> set parts. p \<noteq> [] \<and> sorted p) \<and>
    (\<forall>p \<in> set parts. \<forall>q \<in> set parts. \<bar>load_of lens p - load_of lens q\<bar> \<le> longest lens) \<and>
    (equal_size \<longrightarrow> (\<forall>p \<in> set parts. length p * k = length lens))"
  by (rule balanced_partitions [OF assms])

lemma partitions_balanced_witness:
  "get_seqlen_balanced_partitions [5, 1, 1, 3] 2 True = Inr [[0, 1], [2, 3]] \<and>
   \<bar>load_of [5, 1, 1, 3] [0, 1] - load_of [5, 1, 1, 3] [2, 3]\<bar> \<le> longest [5, 1, 1, 3]"
proof -
  have v: "get_seqlen_balanced_partitions [5, 1, 1, 3] 2 True = Inr [[0, 1], [2, 3]]" by code_simp
  have "\<exists>parts. get_seqlen_balanced_partitions [5, 1, 1, 3] 2 True = Inr parts \<and> length parts = 2 \<and>
    mset (concat parts) = mset [0..<length [5, 1, 1, 3::int]] \<and> (\<forall>p \<in> set parts. p \<noteq> [] \<and> sorted p) \<and>
    (\<forall>p \<in> set parts. \<forall>q \<in> set parts. \<bar>load_of [5, 1, 1, 3] p - load_of [5, 1, 1, 3] q\<bar> \<le> longest [5, 1, 1, 3]) \<and>
    (True \<longrightarrow> (\<forall>p \<in> set parts. length p * 2 = length [5, 1, 1, 3::int]))"
    by (rule partitions_balanced) auto
  with v show ?thesis by auto
qed

end
