(* ===== verification/Training_Batches.thy ===== *)
theory Training_Batches
  imports Balance_Partitions
begin

text \<open>
  From rollout data to micro-batches (slime/slime/ray/rollout.py, slime/slime/utils/data.py and
  slime/slime/backends/megatron_utils/data.py): the split of the samples over the data parallel
  ranks, the first-fit count of micro-batches, the schedule of micro-batches of a step with its
  safety split, and the iterator that serves them.  The reduction of the counts over the ranks is
  an argument: the list of the maxima that \<open>all_reduce\<close> leaves on every rank.  A column of the data
  is a list of abstract rows; lengths are integers.
\<close>

section \<open>The split over the ranks\<close>

definition py_range :: "nat \<Rightarrow> nat \<Rightarrow> nat \<Rightarrow> nat list" where
  "py_range a b d = map (\<lambda>q. a + q * d) [0..<(b - a + d - 1) div d]"

definition dp_partitions :: "bool \<Rightarrow> int list \<Rightarrow> nat \<Rightarrow> nat list list res" where
  "dp_partitions balance_data lens dp_size =
     (if balance_data then
        (if dp_size = 0 then Inl (OtherError ''ZeroDivisionError'')
         else get_seqlen_balanced_partitions lens dp_size (length lens mod dp_size = 0))
      else Inr (map (\<lambda>i. py_range i (length lens) dp_size) [0..<dp_size]))"

record 'v dp_data =
  dd_partition :: "nat list"
  dd_columns :: "(string \<times> 'v list) list"
  dd_raw_reward :: "'v list option"
  dd_total_lengths :: "int list"
  dd_dynamic_global_batch_size :: "nat option"

definition split_keys :: "string list" where
  "split_keys = [''tokens'', ''multimodal_train_inputs'', ''response_lengths'', ''rewards'', ''truncated'', ''loss_masks'',
     ''round_number'', ''sample_indices'', ''rollout_log_probs'', ''rollout_routed_experts'', ''prompt'', ''teacher_log_probs'',
     ''teacher_topk_log_probs'', ''teacher_topk_indices'', ''step_wise_step_rewards'', ''step_wise_step_token_spans'',
     ''step_wise_step_indices'', ''group_indices'']"

definition take_rows :: "nat list \<Rightarrow> 'v list \<Rightarrow> 'v list option" where
  "take_rows idxs col = (if \<forall>j \<in> set idxs. j < length col then Some (map (\<lambda>j. col ! j) idxs) else None)"

fun take_columns :: "(string \<times> 'v list) list \<Rightarrow> nat list \<Rightarrow> string list \<Rightarrow> (string \<times> 'v list) list option" where
  "take_columns data idxs [] = Some []"
| "take_columns data idxs (key # keys) =
     (case map_of data key of
        None \<Rightarrow> take_columns data idxs keys
      | Some col \<Rightarrow>
          (case take_rows idxs col of
             None \<Rightarrow> None
           | Some val \<Rightarrow> map_option ((#) (key, val)) (take_columns data idxs keys)))"

fun split_ranks :: "(string \<times> 'v list) list \<Rightarrow> int list \<Rightarrow> nat option \<Rightarrow> nat list list \<Rightarrow> 'v dp_data list res" where
  "split_ranks data lens dynamic [] = Inr []"
| "split_ranks data lens dynamic (p # ps) =
     (case take_columns data p split_keys of
        None \<Rightarrow> Inl (OtherError ''IndexError'')
      | Some cols \<Rightarrow>
          (case split_ranks data lens dynamic ps of
             Inl e \<Rightarrow> Inl e
           | Inr rs \<Rightarrow> Inr (\<lparr>dd_partition = p, dd_columns = cols, dd_raw_reward = map_of data ''raw_reward'',
                             dd_total_lengths = lens, dd_dynamic_global_batch_size = dynamic\<rparr> # rs)))"

definition split_train_data_by_dp ::
  "bool \<Rightarrow> (string \<times> 'v list) list \<Rightarrow> int list \<Rightarrow> nat option \<Rightarrow> nat \<Rightarrow> 'v dp_data list res" where
  \<comment> \<open>\<open>lens\<close>: the lengths of the rows of \<open>tokens\<close>\<close>
  "split_train_data_by_dp balance_data data lens dynamic dp_size =
     (case dp_partitions balance_data lens dp_size of
        Inl e \<Rightarrow> Inl e
      | Inr parts \<Rightarrow> split_ranks data lens dynamic parts)"

definition process_rollout_data :: "'v dp_data list \<Rightarrow> nat \<Rightarrow> nat \<Rightarrow> 'v dp_data res" where
  \<comment> \<open>the rank keeps the lengths of its own samples; a partition holds indices of samples\<close>
  "process_rollout_data refs dp_rank dp_size =
     (if length refs \<noteq> dp_size then Inl (AssertionError '''')
      else if length refs \<le> dp_rank then Inl (OtherError ''IndexError'')
      else case take_rows (dd_partition (refs ! dp_rank)) (dd_total_lengths (refs ! dp_rank)) of
             None \<Rightarrow> Inl (OtherError ''IndexError'')
           | Some own \<Rightarrow> Inr ((refs ! dp_rank)\<lparr>dd_total_lengths := own\<rparr>))"

section \<open>Counting micro-batches\<close>

fun first_fit :: "int \<Rightarrow> int \<Rightarrow> int list \<Rightarrow> int list" where
  "first_fit max_tokens l [] = [l]"
| "first_fit max_tokens l (b # bs) = (if b + l \<le> max_tokens then (b + l) # bs else b # first_fit max_tokens l bs)"

definition get_minimum_num_micro_batch_size :: "int list \<Rightarrow> int \<Rightarrow> nat" where
  "get_minimum_num_micro_batch_size lens max_tokens = length (fold (first_fit max_tokens) lens [])"

section \<open>The schedule\<close>

definition slice :: "nat \<Rightarrow> nat \<Rightarrow> 'a list \<Rightarrow> 'a list" where
  "slice a b xs = take (b - a) (drop a xs)"

definition step_end :: "nat \<Rightarrow> nat \<Rightarrow> nat \<Rightarrow> nat" where
  "step_end gbs n i = min ((i + 1) * gbs) n"

definition dynamic_num_steps :: "nat \<Rightarrow> nat \<Rightarrow> nat" where
  "dynamic_num_steps gbs n = n div gbs + (if n mod gbs \<noteq> 0 then 1 else 0)"

definition local_counts :: "int list \<Rightarrow> nat \<Rightarrow> int \<Rightarrow> nat list" where
  \<comment> \<open>the counts before the reduction\<close>
  "local_counts lens gbs max_tokens =
     map (\<lambda>i. get_minimum_num_micro_batch_size (slice (i * gbs) (step_end gbs (length lens) i) lens) max_tokens)
       (filter (\<lambda>i. i * gbs < step_end gbs (length lens) i) [0..<dynamic_num_steps gbs (length lens)])"

definition align_vpp :: "nat \<Rightarrow> nat \<Rightarrow> nat list \<Rightarrow> nat list" where
  \<comment> \<open>the group size of a configuration is positive\<close>
  "align_vpp vpp_size group_size counts =
     (if 1 < vpp_size then map (\<lambda>c. max (c div group_size * group_size) 1) counts else counts)"

fun balance_steps :: "int list \<Rightarrow> nat \<Rightarrow> nat \<Rightarrow> nat list \<Rightarrow> (nat list list \<times> nat list) res" where
  "balance_steps lens gbs i [] = Inr ([], [])"
| "balance_steps lens gbs i (c # cs) =
     (let start = i * gbs; stop = step_end gbs (length lens) i
      in if stop \<le> start then
           (case balance_steps lens gbs (Suc i) cs of Inl e \<Rightarrow> Inl e | Inr (bs, ns) \<Rightarrow> Inr (bs, c # ns))
         else
           (let num_mbs = min c (stop - start)
            in case get_seqlen_balanced_partitions (slice start stop lens) num_mbs False of
                 Inl e \<Rightarrow> Inl e
               | Inr parts \<Rightarrow>
                   (case balance_steps lens gbs (Suc i) cs of
                      Inl e \<Rightarrow> Inl e
                    | Inr (bs, ns) \<Rightarrow> Inr (map (map (\<lambda>k. k + start)) parts @ bs, num_mbs # ns))))"

fun split_sub :: "int list \<Rightarrow> int \<Rightarrow> nat list \<Rightarrow> int \<Rightarrow> nat list \<Rightarrow> nat list list" where
  "split_sub lens max_tokens sub_batch sub_tokens [] = (if sub_batch \<noteq> [] then [sub_batch] else [])"
| "split_sub lens max_tokens sub_batch sub_tokens (idx # idxs) =
     (if max_tokens < sub_tokens + lens ! idx \<and> sub_batch \<noteq> []
      then sub_batch # split_sub lens max_tokens [idx] (lens ! idx) idxs
      else split_sub lens max_tokens (sub_batch @ [idx]) (sub_tokens + lens ! idx) idxs)"

definition split_batch :: "int list \<Rightarrow> int \<Rightarrow> nat list \<Rightarrow> nat list list" where
  "split_batch lens max_tokens b =
     (if max_tokens < sum_list (map (\<lambda>idx. lens ! idx) b) \<and> 1 < length b then split_sub lens max_tokens [] 0 b else [b])"

fun safety_split :: "int list \<Rightarrow> int \<Rightarrow> nat list list \<Rightarrow> nat list \<Rightarrow> (nat list list \<times> nat list) res" where
  "safety_split lens max_tokens bs [] = Inr ([], [])"
| "safety_split lens max_tokens bs (c # cs) =
     (if length bs < c then Inl (OtherError ''IndexError'')
      else
        (let fixed = concat (map (split_batch lens max_tokens) (take c bs))
         in case safety_split lens max_tokens (drop c bs) cs of
              Inl e \<Rightarrow> Inl e
            | Inr (fs, ns) \<Rightarrow> Inr (fixed @ fs, length fixed # ns)))"

definition dynamic_schedule :: "int list \<Rightarrow> nat \<Rightarrow> int \<Rightarrow> nat list \<Rightarrow> (nat list list \<times> nat list) res" where
  \<comment> \<open>\<open>counts\<close>: reduced over the ranks and aligned for the virtual pipeline\<close>
  "dynamic_schedule lens gbs max_tokens counts =
     (case balance_steps lens gbs 0 counts of
        Inl e \<Rightarrow> Inl e
      | Inr (bs, ns) \<Rightarrow>
          (let flat = concat bs
           in if length flat \<noteq> length lens \<or> card (set flat) \<noteq> length lens then Inl (AssertionError ''micro_batch_indices mismatch'')
              else case safety_split lens max_tokens bs ns of
                     Inl e \<Rightarrow> Inl e
                   | Inr (fixed, fixed_ns) \<Rightarrow>
                       Inr (if length fixed \<noteq> length bs then (fixed, fixed_ns) else (bs, ns))))"

record batch_args =
  ba_global_batch_size :: nat
  ba_micro_batch_size :: nat
  ba_use_dynamic_batch_size :: bool
  ba_max_tokens_per_gpu :: "int option"

record parallel_sizes =
  pa_dp_size :: nat
  pa_cp_size :: nat
  pa_vpp_size :: nat
  pa_group_size :: nat

datatype schedule = Fixed_Size nat | By_Indices "nat list list"

definition get_data_iterator ::
  "batch_args \<Rightarrow> parallel_sizes \<Rightarrow> (nat list \<Rightarrow> nat list) \<Rightarrow> int list \<Rightarrow> nat option \<Rightarrow> (schedule \<times> nat list) res" where
  \<comment> \<open>the schedule that every stage's iterator gets; \<open>dynamic\<close>: \<open>dynamic_global_batch_size\<close>\<close>
  "get_data_iterator args pa reduce lens dynamic =
     (let n = length lens; gbs = (case dynamic of None \<Rightarrow> ba_global_batch_size args | Some g \<Rightarrow> g) div pa_dp_size pa
      in if pa_dp_size pa = 0 \<or> gbs = 0 then Inl (OtherError ''ZeroDivisionError'')
         else if \<not> ba_use_dynamic_batch_size args then
           (if ba_micro_batch_size args = 0 \<and> n div gbs \<noteq> 0 then Inl (OtherError ''ZeroDivisionError'')
            else Inr (Fixed_Size (ba_micro_batch_size args), map (\<lambda>_. gbs div ba_micro_batch_size args) [0..<n div gbs]))
         else (case ba_max_tokens_per_gpu args of
                 None \<Rightarrow> Inl (AssertionError '''')
               | Some m \<Rightarrow>
                   (let max_tokens = m * int (pa_cp_size pa);
                        counts = align_vpp (pa_vpp_size pa) (pa_group_size pa) (reduce (local_counts lens gbs max_tokens))
                    in case dynamic_schedule lens gbs max_tokens counts of
                         Inl e \<Rightarrow> Inl e
                       | Inr (bs, ns) \<Rightarrow> Inr (By_Indices bs, ns))))"

section \<open>The iterator\<close>

fun get_next :: "schedule \<Rightarrow> 'v list \<Rightarrow> nat \<Rightarrow> ('v list \<times> nat) res" where
  \<comment> \<open>one column at the iterator's offset, and the new offset\<close>
  "get_next (By_Indices bs) vals offset =
     (if length bs \<le> offset then Inl (OtherError ''IndexError'')
      else case take_rows (bs ! offset) vals of
             None \<Rightarrow> Inl (OtherError ''IndexError'')
           | Some rows \<Rightarrow> Inr (rows, offset + 1))"
| "get_next (Fixed_Size mbs) vals offset =
     (if length vals < offset + mbs then Inl (AssertionError ''offset'')
      else Inr (slice offset (offset + mbs) vals, offset + mbs))"

fun read_batches :: "nat \<Rightarrow> schedule \<Rightarrow> 'v list \<Rightarrow> nat \<Rightarrow> 'v list list res" where
  \<comment> \<open>a training step reads its micro-batches one after the other\<close>
  "read_batches 0 sch vals offset = Inr []"
| "read_batches (Suc k) sch vals offset =
     (case get_next sch vals offset of
        Inl e \<Rightarrow> Inl e
      | Inr (b, offset') \<Rightarrow> (case read_batches k sch vals offset' of Inl e \<Rightarrow> Inl e | Inr bs \<Rightarrow> Inr (b # bs)))"

section \<open>Every sample goes to one rank\<close>

lemma mset_py_range:
  assumes "0 < d"
  shows "mset (concat (map (\<lambda>i. py_range i n d) [0..<d])) = mset [0..<n]"
proof -
  have range: "j \<in> set (py_range i n d) \<longleftrightarrow> j < n \<and> j mod d = i" if "i < d" for i j
  proof
    assume "j \<in> set (py_range i n d)"
    then obtain q where q: "q < (n - i + d - 1) div d" "j = i + q * d" by (auto simp: py_range_def)
    then have "Suc q * d \<le> n - i + d - 1" by (metis Suc_leI div_times_less_eq_dividend le_trans mult_le_mono1)
    then have "q * d < n - i" using \<open>0 < d\<close> by (cases "n - i") auto
    with q that show "j < n \<and> j mod d = i" by auto
  next
    assume j: "j < n \<and> j mod d = i"
    then have split: "j = i + j div d * d" by (metis mod_mult_div_eq mult.commute)
    have "j div d < (n - i + d - 1) div d"
    proof -
      have "Suc (j div d) * d \<le> n - i + d - 1" using j split by (simp add: algebra_simps) linarith
      then show ?thesis using \<open>0 < d\<close> by (metis Suc_le_lessD less_eq_div_iff_mult_less_eq)
    qed
    with split show "j \<in> set (py_range i n d)" unfolding py_range_def by force
  qed
  have "distinct (py_range i n d)" for i using \<open>0 < d\<close> by (auto simp: py_range_def distinct_map intro!: inj_onI)
  then have "distinct (concat (map (\<lambda>i. py_range i n d) [0..<m]))" if "m \<le> d" for m
    using that range by (induction m) fastforce+
  moreover have "set (concat (map (\<lambda>i. py_range i n d) [0..<d])) = set [0..<n]"
    using range \<open>0 < d\<close> by auto
  ultimately show ?thesis by (subst set_eq_iff_mset_eq_distinct [symmetric]) auto
qed

lemma dp_partitions_cover:
  assumes "1 \<le> d" "d \<le> length lens" "\<And>l. l \<in> set lens \<Longrightarrow> 0 \<le> l"
  shows "\<exists>parts. dp_partitions balance_data lens d = Inr parts \<and> length parts = d \<and> mset (concat parts) = mset [0..<length lens]"
proof (cases balance_data)
  case True
  have "\<exists>parts. get_seqlen_balanced_partitions lens d (length lens mod d = 0) = Inr parts \<and> length parts = d \<and> mset (concat parts) = mset [0..<length lens]"
    using balanced_partitions [OF assms, of "length lens mod d = 0"] by auto
  with True assms(1) show ?thesis by (simp add: dp_partitions_def)
next
  case False
  with assms(1) mset_py_range [of d "length lens"] show ?thesis by (simp add: dp_partitions_def)
qed


lemma take_rows_Some: "(\<And>j. j \<in> set p \<Longrightarrow> j < length col) \<Longrightarrow> take_rows p col = Some (map (\<lambda>j. col ! j) p)"
  by (simp add: take_rows_def)

lemma take_columns_Some:
  assumes "\<And>key col. (key, col) \<in> set data \<Longrightarrow> length col = n" "\<And>j. j \<in> set p \<Longrightarrow> j < n"
  shows "\<exists>cols. take_columns data p keys = Some cols \<and>
    (\<forall>key \<in> set keys. \<forall>col. map_of data key = Some col \<longrightarrow> map_of cols key = Some (map (\<lambda>j. col ! j) p))"
proof (induction keys)
  case (Cons key keys)
  then obtain cols where cols: "take_columns data p keys = Some cols"
    "\<forall>key \<in> set keys. \<forall>col. map_of data key = Some col \<longrightarrow> map_of cols key = Some (map (\<lambda>j. col ! j) p)" by blast
  show ?case
  proof (cases "map_of data key")
    case (Some col)
    then have "length col = n" using assms(1) by (metis map_of_SomeD)
    then have "take_rows p col = Some (map (\<lambda>j. col ! j) p)" using assms(2) by (intro take_rows_Some) simp
    with Some cols show ?thesis by simp
  qed (use cols in simp)
qed simp

lemma split_ranks_Inr:
  assumes "\<And>key col. (key, col) \<in> set data \<Longrightarrow> length col = n" "\<And>p j. p \<in> set parts \<Longrightarrow> j \<in> set p \<Longrightarrow> j < n"
  shows "\<exists>refs. split_ranks data lens dynamic parts = Inr refs \<and> map dd_partition refs = parts \<and>
    (\<forall>r \<in> set refs. dd_total_lengths r = lens \<and> (\<forall>key \<in> set split_keys. \<forall>col. map_of data key = Some col \<longrightarrow>
        map_of (dd_columns r) key = Some (map (\<lambda>j. col ! j) (dd_partition r))))"
  using assms(2)
proof (induction parts)
  case (Cons p ps)
  then obtain refs where refs: "split_ranks data lens dynamic ps = Inr refs" "map dd_partition refs = ps"
    "\<forall>r \<in> set refs. dd_total_lengths r = lens \<and> (\<forall>key \<in> set split_keys. \<forall>col. map_of data key = Some col \<longrightarrow>
        map_of (dd_columns r) key = Some (map (\<lambda>j. col ! j) (dd_partition r)))" by auto
  obtain cols where "take_columns data p split_keys = Some cols"
    "\<forall>key \<in> set split_keys. \<forall>col. map_of data key = Some col \<longrightarrow> map_of cols key = Some (map (\<lambda>j. col ! j) p)"
    using take_columns_Some [of data n p split_keys, OF assms(1)] Cons.prems by fastforce
  with refs show ?case by simp
qed simp

section \<open>The micro-batches of a step\<close>

lemma first_fit_nonempty [simp]: "first_fit m l bs \<noteq> []"
  by (cases bs) auto

lemma fold_first_fit_nonempty: "bs \<noteq> [] \<or> lens \<noteq> [] \<Longrightarrow> fold (first_fit m) lens bs \<noteq> []"
  by (induction lens arbitrary: bs) auto

lemma minimum_num_pos: "lens \<noteq> [] \<Longrightarrow> 1 \<le> get_minimum_num_micro_batch_size lens m"
  using fold_first_fit_nonempty [of "[]" lens m] by (simp add: get_minimum_num_micro_batch_size_def Suc_le_eq)

lemma step_exists: "0 < gbs \<Longrightarrow> i < dynamic_num_steps gbs n \<longleftrightarrow> i * gbs < n"
proof -
  assume gbs: "0 < gbs"
  have "i < dynamic_num_steps gbs n \<longleftrightarrow> i * gbs < n div gbs * gbs + n mod gbs"
  proof (cases "i < n div gbs")
    case True
    then have "i * gbs < n div gbs * gbs + n mod gbs" using mult_strict_right_mono [OF True gbs] trans_less_add1 by blast
    with True show ?thesis by (simp add: dynamic_num_steps_def)
  next
    case False
    then consider "i = n div gbs" | "Suc (n div gbs) \<le> i" by linarith
    then show ?thesis
    proof cases
      case 2
      then have "Suc (n div gbs) * gbs \<le> i * gbs" by (rule mult_le_mono1)
      then show ?thesis using 2 gbs dividend_less_div_times [OF gbs, of n] by (simp add: dynamic_num_steps_def)
    next
      case 1
      have "0 < n mod gbs \<longleftrightarrow> n div gbs * gbs < n" by (metis div_mult_mod_eq less_add_same_cancel1)
      with 1 show ?thesis by (simp add: dynamic_num_steps_def)
    qed
  qed
  then show ?thesis by (simp add: div_mult_mod_eq)
qed

fun in_steps :: "nat \<Rightarrow> nat \<Rightarrow> nat \<Rightarrow> nat list list \<Rightarrow> nat list \<Rightarrow> bool" where
  \<comment> \<open>step i trains its own samples, each in one micro-batch\<close>
  "in_steps gbs n i bs [] = (bs = [])"
| "in_steps gbs n i bs (c # cs) =
     (c \<le> length bs \<and> mset (concat (take c bs)) = mset [i * gbs..<step_end gbs n i] \<and> in_steps gbs n (Suc i) (drop c bs) cs)"

lemma in_steps_counts: "in_steps gbs n i bs cs \<Longrightarrow> sum_list cs = length bs"
  by (induction gbs n i bs cs rule: in_steps.induct) auto

lemma in_steps_all:
  "in_steps gbs n i bs cs \<Longrightarrow> (\<And>j. j < length cs \<Longrightarrow> (i + j) * gbs < n) \<Longrightarrow>
   mset (concat bs) = mset [i * gbs..<(if cs = [] then i * gbs else step_end gbs n (i + length cs - 1))]"
proof (induction gbs n i bs cs rule: in_steps.induct)
  case (2 gbs n i bs c cs)
  have "mset (concat (drop c bs)) = mset [Suc i * gbs..<(if cs = [] then Suc i * gbs else step_end gbs n (Suc i + length cs - 1))]"
    using "2.IH" "2.prems"(1) "2.prems"(2) [of "Suc _"] by (auto simp: algebra_simps)
  moreover have "mset (concat bs) = mset (concat (take c bs)) + mset (concat (drop c bs))"
    by (metis append_take_drop_id concat_append mset_append)
  moreover have "mset (concat (take c bs)) = mset [i * gbs..<step_end gbs n i]" using "2.prems"(1) by simp
  ultimately have all: "mset (concat bs) = mset [i * gbs..<step_end gbs n i] +
    mset [Suc i * gbs..<(if cs = [] then Suc i * gbs else step_end gbs n (Suc i + length cs - 1))]" by simp
  show ?case
  proof (cases cs)
    case Nil
    with all show ?thesis by simp
  next
    case (Cons d ds)
    have "Suc i * gbs < n" using "2.prems"(2) [of 1] Cons by simp
    then have e: "step_end gbs n i = Suc i * gbs" by (simp add: step_end_def)
    have "Suc i * gbs \<le> step_end gbs n (Suc i + length ds)"
      using \<open>Suc i * gbs < n\<close> by (simp add: step_end_def algebra_simps)
    then have "[i * gbs..<step_end gbs n (Suc i + length ds)] = [i * gbs..<Suc i * gbs] @ [Suc i * gbs..<step_end gbs n (Suc i + length ds)]"
      using upt_add_eq_append [of "i * gbs" "Suc i * gbs" "step_end gbs n (Suc i + length ds) - Suc i * gbs"] by simp
    with all e Cons show ?thesis by (simp del: mult_Suc)
  qed
qed simp

lemma balance_steps_in_steps:
  assumes "0 < gbs" "\<And>l. l \<in> set lens \<Longrightarrow> 0 \<le> l" "\<And>c. c \<in> set cs \<Longrightarrow> 1 \<le> c" "\<And>j. j < length cs \<Longrightarrow> (i + j) * gbs < length lens"
  shows "\<exists>bs ns. balance_steps lens gbs i cs = Inr (bs, ns) \<and> length ns = length cs \<and> in_steps gbs (length lens) i bs ns \<and> [] \<notin> set bs"
  using assms(3,4)
proof (induction cs arbitrary: i)
  case (Cons c cs)
  let ?start = "i * gbs" and ?stop = "step_end gbs (length lens) i"
  have start: "?start < length lens" using Cons.prems(2) [of 0] by simp
  then have stop: "?start < ?stop" using assms(1) by (simp add: step_end_def)
  let ?xs = "slice ?start ?stop lens" and ?k = "min c (?stop - ?start)"
  have len: "length ?xs = ?stop - ?start" by (simp add: slice_def step_end_def)
  have "set ?xs \<subseteq> set lens" by (auto simp: slice_def dest: in_set_takeD in_set_dropD)
  then have "\<exists>parts. get_seqlen_balanced_partitions ?xs ?k False = Inr parts \<and> length parts = ?k \<and>
    mset (concat parts) = mset [0..<length ?xs] \<and> (\<forall>p \<in> set parts. p \<noteq> [] \<and> sorted p)"
    using balanced_partitions [of ?k ?xs False] assms(2) Cons.prems(1) [of c] stop len by (auto simp: Suc_le_eq)
  then obtain parts where parts: "get_seqlen_balanced_partitions ?xs ?k False = Inr parts" "length parts = ?k"
    "mset (concat parts) = mset [0..<?stop - ?start]" "\<forall>p \<in> set parts. p \<noteq> []" using len by auto
  have "(Suc i + j) * gbs < length lens" if "j < length cs" for j using Cons.prems(2) [of "Suc j"] that by simp
  then obtain bs ns where rest: "balance_steps lens gbs (Suc i) cs = Inr (bs, ns)" "length ns = length cs"
    "in_steps gbs (length lens) (Suc i) bs ns" "[] \<notin> set bs" using Cons.IH [of "Suc i"] Cons.prems(1) by auto
  let ?bs = "map (map (\<lambda>k. k + ?start)) parts"
  have "mset (concat ?bs) = image_mset (\<lambda>k. k + ?start) (mset (concat parts))"
    by (simp add: map_concat [symmetric])
  also have "\<dots> = mset (map (\<lambda>k. k + ?start) [0..<?stop - ?start])" by (simp only: parts(3) mset_map)
  also have "map (\<lambda>k. k + ?start) [0..<?stop - ?start] = [?start..<?stop]" using stop by (simp add: map_add_upt)
  finally have "in_steps gbs (length lens) i (?bs @ bs) (?k # ns)" using rest(3) parts(2) by simp
  moreover have "balance_steps lens gbs i (c # cs) = Inr (?bs @ bs, ?k # ns)"
    using stop parts(1) rest(1) by (simp add: Let_def not_le)
  moreover have "[] \<notin> set (?bs @ bs)" using parts(4) rest(4) by auto
  ultimately show ?case using rest(2) by auto
qed simp

section \<open>The safety split\<close>

definition batch_fits :: "int list \<Rightarrow> int \<Rightarrow> nat list \<Rightarrow> bool" where
  "batch_fits lens m b = (b \<noteq> [] \<and> (load_of lens b \<le> m \<or> length b = 1))"

lemma load_of_simps [simp]:
  "load_of lens [] = 0" "load_of lens (i # p) = lens ! i + load_of lens p" "load_of lens (p @ q) = load_of lens p + load_of lens q"
  by (simp_all add: load_of_def)

lemma split_sub_fits:
  "t = load_of lens sub \<Longrightarrow> sub = [] \<or> batch_fits lens m sub \<Longrightarrow>
   concat (split_sub lens m sub t idxs) = sub @ idxs \<and> (\<forall>b \<in> set (split_sub lens m sub t idxs). batch_fits lens m b)"
proof (induction lens m sub t idxs rule: split_sub.induct)
  case (2 lens m sub t idx idxs)
  show ?case
  proof (cases "m < t + lens ! idx \<and> sub \<noteq> []")
    case True
    have "concat (split_sub lens m [idx] (lens ! idx) idxs) = [idx] @ idxs \<and> (\<forall>b \<in> set (split_sub lens m [idx] (lens ! idx) idxs). batch_fits lens m b)"
      using "2.IH"(1) [OF True] by (simp add: batch_fits_def)
    with True "2.prems"(2) show ?thesis by simp
  next
    case False
    then have "batch_fits lens m (sub @ [idx])" using "2.prems" by (auto simp: batch_fits_def)
    then have "concat (split_sub lens m (sub @ [idx]) (t + lens ! idx) idxs) = (sub @ [idx]) @ idxs \<and>
      (\<forall>b \<in> set (split_sub lens m (sub @ [idx]) (t + lens ! idx) idxs). batch_fits lens m b)"
      using "2.IH"(2) [OF False] "2.prems"(1) by simp
    with False show ?thesis by (subst (1 2) split_sub.simps) auto
  qed
qed auto

lemma split_batch_fits:
  assumes "b \<noteq> []"
  shows "concat (split_batch lens m b) = b" "\<forall>x \<in> set (split_batch lens m b). batch_fits lens m x" "1 \<le> length (split_batch lens m b)"
    "length (split_batch lens m b) = 1 \<Longrightarrow> split_batch lens m b = [b]"
proof -
  have "length b = 1" if "\<not> 1 < length b" using that assms by (cases b) auto
  with split_sub_fits [of 0 lens "[]" m b] assms
  show c: "concat (split_batch lens m b) = b" "\<forall>x \<in> set (split_batch lens m b). batch_fits lens m x"
    by (auto simp: split_batch_def batch_fits_def load_of_def)
  show "1 \<le> length (split_batch lens m b)" using c(1) assms by (cases "split_batch lens m b") auto
  show "split_batch lens m b = [b]" if "length (split_batch lens m b) = 1" using that c(1) by (cases "split_batch lens m b") auto
qed

lemma split_batches_fit:
  assumes "[] \<notin> set bs"
  shows "concat (concat (map (split_batch lens m) bs)) = concat bs \<and> (\<forall>x \<in> set (concat (map (split_batch lens m) bs)). batch_fits lens m x) \<and>
    length bs \<le> length (concat (map (split_batch lens m) bs)) \<and>
    (length (concat (map (split_batch lens m) bs)) = length bs \<longrightarrow> concat (map (split_batch lens m) bs) = bs)"
  using assms
proof (induction bs)
  case (Cons b bs)
  have b: "b \<noteq> []" and bs: "[] \<notin> set bs" using Cons.prems by auto
  note IH = Cons.IH [OF bs]
  have "concat (map (split_batch lens m) (b # bs)) = b # bs" if "length (concat (map (split_batch lens m) (b # bs))) = length (b # bs)"
  proof -
    have "length (split_batch lens m b) = 1" "length (concat (map (split_batch lens m) bs)) = length bs"
      using that split_batch_fits(3) [OF b, of lens m] IH by auto
    then show ?thesis using split_batch_fits(4) [OF b, of lens m] IH by simp
  qed
  then show ?case using IH split_batch_fits(1-3) [OF b, of lens m] by auto
qed simp

lemma safety_split_spec:
  "in_steps gbs n i bs cs \<Longrightarrow> [] \<notin> set bs \<Longrightarrow>
   \<exists>fs ms. safety_split lens m bs cs = Inr (fs, ms) \<and> in_steps gbs n i fs ms \<and> (\<forall>b \<in> set fs. batch_fits lens m b) \<and>
     length ms = length cs \<and> length bs \<le> length fs \<and> (length fs = length bs \<longrightarrow> fs = bs \<and> ms = cs)"
proof (induction gbs n i bs cs rule: in_steps.induct)
  case (2 gbs n i bs c cs)
  have drop: "[] \<notin> set (drop c bs)" "[] \<notin> set (take c bs)" using "2.prems"(2) by (auto dest: in_set_takeD in_set_dropD)
  then obtain fs ms where rest: "safety_split lens m (drop c bs) cs = Inr (fs, ms)" "in_steps gbs n (Suc i) fs ms"
    "\<forall>b \<in> set fs. batch_fits lens m b" "length ms = length cs" "length (drop c bs) \<le> length fs"
    "length fs = length (drop c bs) \<longrightarrow> fs = drop c bs \<and> ms = cs" using "2.IH" "2.prems"(1) by auto
  define fixed where "fixed = concat (map (split_batch lens m) (take c bs))"
  have fixed: "concat fixed = concat (take c bs)" "\<forall>x \<in> set fixed. batch_fits lens m x" "length (take c bs) \<le> length fixed"
    "length fixed = length (take c bs) \<longrightarrow> fixed = take c bs" using split_batches_fit [OF drop(2), of lens m] by (auto simp: fixed_def)
  have c: "c \<le> length bs" using "2.prems"(1) by simp
  then have "safety_split lens m bs (c # cs) = Inr (fixed @ fs, length fixed # ms)" using rest(1) by (simp add: fixed_def Let_def)
  moreover have "in_steps gbs n i (fixed @ fs) (length fixed # ms)" using "2.prems"(1) rest(2) fixed(1) by simp
  moreover have "length bs \<le> length (fixed @ fs)" using fixed(3) rest(5) c by simp
  moreover have "fixed @ fs = bs \<and> length fixed # ms = c # cs" if "length (fixed @ fs) = length bs"
  proof -
    have "length fixed = length (take c bs)" "length fs = length (drop c bs)" using that fixed(3) rest(5) c by auto
    with fixed(4) rest(6) c show ?thesis by simp
  qed
  ultimately show ?case using fixed(2) rest(3,4) by (intro exI [of _ "fixed @ fs"] exI [of _ "length fixed # ms"]) auto
qed simp

lemma dynamic_schedule_spec:
  assumes "0 < gbs" "\<And>l. l \<in> set lens \<Longrightarrow> 0 \<le> l" "\<And>c. c \<in> set cs \<Longrightarrow> 1 \<le> c" "length cs = dynamic_num_steps gbs (length lens)"
  shows "\<exists>bs ns. dynamic_schedule lens gbs m cs = Inr (bs, ns) \<and> length ns = length cs \<and> in_steps gbs (length lens) 0 bs ns \<and>
    mset (concat bs) = mset [0..<length lens] \<and> (\<forall>b \<in> set bs. batch_fits lens m b)"
proof -
  let ?n = "length lens"
  have steps: "(0 + j) * gbs < ?n" if "j < length cs" for j using that step_exists [OF assms(1), of j ?n] assms(4) by simp
  obtain bs ns where bal: "balance_steps lens gbs 0 cs = Inr (bs, ns)" "length ns = length cs" "in_steps gbs ?n 0 bs ns" "[] \<notin> set bs"
    using balance_steps_in_steps [OF assms(1-3) steps] by blast
  have whole: "mset (concat xs) = mset [0..<?n]" if "in_steps gbs ?n 0 xs ks" "length ks = length cs" for xs ks
  proof -
    have all: "mset (concat xs) = mset [0 * gbs..<(if ks = [] then 0 * gbs else step_end gbs ?n (0 + length ks - 1))]"
      using that steps by (intro in_steps_all) auto
    show ?thesis
    proof (cases ks)
      case Nil
      then have "\<not> 0 * gbs < ?n" using that(2) assms(4) step_exists [OF assms(1), of 0 ?n] by simp
      with all Nil show ?thesis by simp
    next
      case (Cons k ks')
      have "\<not> length cs * gbs < ?n" using assms(4) step_exists [OF assms(1), of "length cs" ?n] by simp
      then have "step_end gbs ?n (0 + length ks - 1) = ?n" using Cons that(2) [symmetric] by (simp add: step_end_def)
      with all Cons show ?thesis by simp
    qed
  qed
  have "length (concat bs) = ?n" using whole [OF bal(3,2)] by (metis length_upt minus_nat.diff_0 size_mset)
  moreover have "set (concat bs) = {0..<?n}" using whole [OF bal(3,2)] by (metis set_mset_mset set_upt)
  then have "card (set (concat bs)) = ?n" by simp
  moreover obtain fs ms where fx: "safety_split lens m bs ns = Inr (fs, ms)" "in_steps gbs ?n 0 fs ms"
    "\<forall>b \<in> set fs. batch_fits lens m b" "length ms = length ns" "length fs = length bs \<longrightarrow> fs = bs \<and> ms = ns"
    using safety_split_spec [OF bal(3,4), of lens m] by blast
  ultimately have "dynamic_schedule lens gbs m cs = Inr (fs, ms)"
    using bal(1) by (auto simp: dynamic_schedule_def Let_def)
  with fx bal(2) whole [OF fx(2)] show ?thesis by auto
qed

section \<open>Reading the batches\<close>

lemma read_batches_Inr:
  assumes "\<And>b j. b \<in> set bs \<Longrightarrow> j \<in> set b \<Longrightarrow> j < length vals"
  shows "offset + k \<le> length bs \<Longrightarrow>
    read_batches k (By_Indices bs) vals offset = Inr (map (map (\<lambda>j. vals ! j)) (take k (drop offset bs)))"
proof (induction k arbitrary: offset)
  case (Suc k)
  then have "offset < length bs" by simp
  moreover from this have "take_rows (bs ! offset) vals = Some (map (\<lambda>j. vals ! j) (bs ! offset))"
    using assms [of "bs ! offset"] by (intro take_rows_Some) simp
  moreover have "drop offset bs = bs ! offset # drop (Suc offset) bs" using \<open>offset < length bs\<close> by (simp add: Cons_nth_drop_Suc)
  ultimately show ?case using Suc by simp
qed simp

lemma local_counts_pos:
  assumes "0 < gbs"
  shows "length (local_counts lens gbs m) = dynamic_num_steps gbs (length lens)" "\<And>c. c \<in> set (local_counts lens gbs m) \<Longrightarrow> 1 \<le> c"
proof -
  have "filter (\<lambda>i. i * gbs < step_end gbs (length lens) i) [0..<dynamic_num_steps gbs (length lens)] = [0..<dynamic_num_steps gbs (length lens)]"
    using step_exists [OF assms] assms by (auto simp: step_end_def intro!: filter_True)
  then show "length (local_counts lens gbs m) = dynamic_num_steps gbs (length lens)" by (simp add: local_counts_def)
  show "1 \<le> c" if c: "c \<in> set (local_counts lens gbs m)" for c
  proof -
    obtain i where i: "i * gbs < step_end gbs (length lens) i"
      "c = get_minimum_num_micro_batch_size (slice (i * gbs) (step_end gbs (length lens) i) lens) m"
      using c by (auto simp: local_counts_def)
    then have "slice (i * gbs) (step_end gbs (length lens) i) lens \<noteq> []" by (auto simp: slice_def step_end_def)
    with i(2) show ?thesis by (simp add: minimum_num_pos del: One_nat_def)
  qed
qed

text \<open>C31. Dynamic micro-batches, for any counts at least a rank's own after the reduction: the schedule exists,
  has one count per step of the local batch size, every step trains exactly its own samples, no
  micro-batch is empty or over the token limit (unless it is one sample), and reading the schedule to
  its end serves every row of a column once.\<close>

theorem micro_batches_cover_steps:
  assumes "ba_use_dynamic_batch_size args" "ba_max_tokens_per_gpu args = Some m"
    and gbs: "gbs = (case dynamic of None \<Rightarrow> ba_global_batch_size args | Some g \<Rightarrow> g) div pa_dp_size pa" "0 < gbs"
    and reduce: "\<And>cs. length (reduce cs) = length cs" "\<And>cs j. j < length cs \<Longrightarrow> cs ! j \<le> reduce cs ! j"
    and lens: "\<And>l. l \<in> set lens \<Longrightarrow> 0 \<le> l" and vals: "length vals = length lens"
  shows "\<exists>bs ns batches. get_data_iterator args pa reduce lens dynamic = Inr (By_Indices bs, ns) \<and>
    length ns = dynamic_num_steps gbs (length lens) \<and> in_steps gbs (length lens) 0 bs ns \<and>
    (\<forall>b \<in> set bs. batch_fits lens (m * int (pa_cp_size pa)) b) \<and>
    read_batches (sum_list ns) (By_Indices bs) vals 0 = Inr batches \<and> mset (concat batches) = mset vals"
proof -
  let ?m = "m * int (pa_cp_size pa)" and ?n = "length lens"
  let ?own = "local_counts lens gbs ?m"
  let ?cs = "align_vpp (pa_vpp_size pa) (pa_group_size pa) (reduce ?own)"
  have len: "length ?cs = dynamic_num_steps gbs ?n" using reduce(1) local_counts_pos(1) [OF gbs(2)] by (simp add: align_vpp_def)
  have "1 \<le> c" if c: "c \<in> set (reduce ?own)" for c
  proof -
    obtain j where j: "j < length ?own" "c = reduce ?own ! j" using c reduce(1) by (metis in_set_conv_nth)
    then have "1 \<le> ?own ! j" using local_counts_pos(2) [OF gbs(2)] nth_mem by blast
    with j reduce(2) [of j ?own] show ?thesis by simp
  qed
  then have pos: "1 \<le> c" if "c \<in> set ?cs" for c using that by (auto simp: align_vpp_def split: if_splits)
  obtain bs ns where sched: "dynamic_schedule lens gbs ?m ?cs = Inr (bs, ns)" "length ns = length ?cs" "in_steps gbs ?n 0 bs ns"
    "mset (concat bs) = mset [0..<?n]" "\<forall>b \<in> set bs. batch_fits lens ?m b"
    using dynamic_schedule_spec [OF gbs(2) lens pos len, of ?m] by auto
  have dp: "pa_dp_size pa \<noteq> 0" using gbs by (cases "pa_dp_size pa = 0") auto
  then have "get_data_iterator args pa reduce lens dynamic = Inr (By_Indices bs, ns)"
    using assms(1,2) gbs sched(1) by (simp add: get_data_iterator_def Let_def)
  moreover have set: "set (concat bs) = {0..<?n}" using sched(4) by (metis set_mset_mset set_upt)
  then have "j < length vals" if "b \<in> set bs" "j \<in> set b" for b j using that vals by auto
  then have "read_batches (sum_list ns) (By_Indices bs) vals 0 = Inr (map (map (\<lambda>j. vals ! j)) bs)"
    using read_batches_Inr [of bs vals 0 "length bs"] in_steps_counts [OF sched(3)] by auto
  moreover have "mset (concat (map (map (\<lambda>j. vals ! j)) bs)) = image_mset (\<lambda>j. vals ! j) (mset (concat bs))" by (simp add: map_concat [symmetric])
  then have "mset (concat (map (map (\<lambda>j. vals ! j)) bs)) = mset vals"
    using vals by (simp only: sched(4) mset_map [symmetric]) (metis map_nth)
  ultimately show ?thesis using sched(2,3,5) len by auto
qed

definition demo_batch_args :: batch_args where
  "demo_batch_args = \<lparr>ba_global_batch_size = 5, ba_micro_batch_size = 1, ba_use_dynamic_batch_size = True, ba_max_tokens_per_gpu = Some 15\<rparr>"

definition demo_parallel :: parallel_sizes where
  "demo_parallel = \<lparr>pa_dp_size = 1, pa_cp_size = 1, pa_vpp_size = 1, pa_group_size = 1\<rparr>"

lemma micro_batches_cover_steps_witness:
  "get_data_iterator demo_batch_args demo_parallel (\<lambda>cs. cs) [8, 7, 6, 5, 4, 3] None = Inr (By_Indices [[1, 3], [4], [0, 2], [5]], [3, 1]) \<and>
   in_steps 5 (length [8, 7, 6, 5, 4, 3::int]) 0 [[1, 3], [4], [0, 2], [5]] [3, 1]"
proof -
  have v: "get_data_iterator demo_batch_args demo_parallel (\<lambda>cs. cs) [8, 7, 6, 5, 4, 3] None = Inr (By_Indices [[1, 3], [4], [0, 2], [5]], [3, 1])"
    by code_simp
  have "\<exists>bs ns batches. get_data_iterator demo_batch_args demo_parallel (\<lambda>cs. cs) [8, 7, 6, 5, 4, 3] None = Inr (By_Indices bs, ns) \<and>
    length ns = dynamic_num_steps 5 (length [8, 7, 6, 5, 4, 3::int]) \<and> in_steps 5 (length [8, 7, 6, 5, 4, 3::int]) 0 bs ns \<and>
    (\<forall>b \<in> set bs. batch_fits [8, 7, 6, 5, 4, 3] (15 * int (pa_cp_size demo_parallel)) b) \<and>
    read_batches (sum_list ns) (By_Indices bs) ''abcdef'' 0 = Inr batches \<and> mset (concat batches) = mset ''abcdef''"
    by (rule micro_batches_cover_steps) (auto simp: demo_batch_args_def demo_parallel_def)
  then show ?thesis
  proof (elim exE conjE)
    fix bs ns
    assume w: "get_data_iterator demo_batch_args demo_parallel (\<lambda>cs. cs) [8, 7, 6, 5, 4, 3] None = Inr (By_Indices bs, ns)"
      "in_steps 5 (length [8, 7, 6, 5, 4, 3::int]) 0 bs ns"
    from w(1) have "bs = [[1, 3], [4], [0, 2], [5]] \<and> ns = [3, 1]" unfolding v by simp
    with w(2) have "in_steps 5 (length [8, 7, 6, 5, 4, 3::int]) 0 [[1, 3], [4], [0, 2], [5]] [3, 1]" by (simp only:)
    with v show ?thesis by (rule conjI)
  qed
qed

text \<open>After the reduction the safety split may still give the ranks different numbers of micro-batches:
  on one rank the balanced pair of micro-batches fits, on the other it does not and is split.\<close>

lemma ranks_disagree_after_split:
  "get_data_iterator demo_batch_args demo_parallel (map (max 2)) [15, 3, 3, 4, 5] None = Inr (By_Indices [[1, 2, 3, 4], [0]], [2])"
  "get_data_iterator demo_batch_args demo_parallel (map (max 2)) [8, 7, 6, 5, 4] None = Inr (By_Indices [[1, 3], [4], [0, 2]], [3])"
  by code_simp+

section \<open>Every row goes to one rank\<close>

text \<open>C32. Splitting the rollout's data over up to as many ranks as there are samples succeeds, balanced or
  strided: every sample belongs to one rank, every rank holds the rows of its samples in every column,
  in the same order, and reading its data leaves it the lengths of its own samples.\<close>

theorem ranks_share_samples:
  assumes "1 \<le> dp_size" "dp_size \<le> length lens" "\<And>l. l \<in> set lens \<Longrightarrow> 0 \<le> l"
    and "\<And>key col. (key, col) \<in> set data \<Longrightarrow> length col = length lens"
  shows "\<exists>refs. split_train_data_by_dp balance_data data lens dynamic dp_size = Inr refs \<and> length refs = dp_size \<and>
    mset (concat (map dd_partition refs)) = mset [0..<length lens] \<and>
    (\<forall>r \<in> set refs. \<forall>key \<in> set split_keys. \<forall>col. map_of data key = Some col \<longrightarrow>
        map_of (dd_columns r) key = Some (map (\<lambda>j. col ! j) (dd_partition r))) \<and>
    (\<forall>rank < dp_size. \<exists>own. process_rollout_data refs rank dp_size = Inr own \<and>
        dd_columns own = dd_columns (refs ! rank) \<and> dd_total_lengths own = map (\<lambda>j. lens ! j) (dd_partition (refs ! rank)))"
proof -
  obtain parts where parts: "dp_partitions balance_data lens dp_size = Inr parts" "length parts = dp_size"
    "mset (concat parts) = mset [0..<length lens]" using dp_partitions_cover [OF assms(1-3), of balance_data] by auto
  have "set (concat parts) = {0..<length lens}" using parts(3) by (metis set_mset_mset set_upt)
  then have below: "j < length lens" if "p \<in> set parts" "j \<in> set p" for p j using that by auto
  obtain refs where refs: "split_ranks data lens dynamic parts = Inr refs" "map dd_partition refs = parts"
    "\<forall>r \<in> set refs. dd_total_lengths r = lens \<and> (\<forall>key \<in> set split_keys. \<forall>col. map_of data key = Some col \<longrightarrow>
        map_of (dd_columns r) key = Some (map (\<lambda>j. col ! j) (dd_partition r)))"
    using split_ranks_Inr [of data "length lens" parts lens dynamic] assms(4) below by metis
  have len: "length refs = dp_size" using parts(2) refs(2) by auto
  have "\<exists>own. process_rollout_data refs rank dp_size = Inr own \<and> dd_columns own = dd_columns (refs ! rank) \<and>
    dd_total_lengths own = map (\<lambda>j. lens ! j) (dd_partition (refs ! rank))" if rank: "rank < dp_size" for rank
  proof -
    have mem: "refs ! rank \<in> set refs" using rank len by simp
    then have "dd_partition (refs ! rank) \<in> set parts" using refs(2) by auto
    then have "take_rows (dd_partition (refs ! rank)) (dd_total_lengths (refs ! rank)) = Some (map (\<lambda>j. lens ! j) (dd_partition (refs ! rank)))"
      using below refs(3) mem by (auto simp: take_rows_def)
    with rank len show ?thesis by (simp add: process_rollout_data_def)
  qed
  with parts refs len show ?thesis by (auto simp: split_train_data_by_dp_def)
qed

lemma ranks_share_samples_witness:
  "\<exists>refs. split_train_data_by_dp False [(''tokens'', ''abc'')] [3, 1, 2] None 2 = Inr refs \<and> map dd_partition refs = [[0, 2], [1]] \<and>
     mset (concat (map dd_partition refs)) = mset [0..<length [3, 1, 2::int]]"
proof -
  have v: "(case split_train_data_by_dp False [(''tokens'', ''abc'')] [3, 1, 2] None 2 of Inl e \<Rightarrow> False | Inr refs \<Rightarrow> map dd_partition refs = [[0, 2], [1]])"
    by code_simp
  have "\<exists>refs. split_train_data_by_dp False [(''tokens'', ''abc'')] [3, 1, 2] None 2 = Inr refs \<and> length refs = 2 \<and>
    mset (concat (map dd_partition refs)) = mset [0..<length [3, 1, 2::int]] \<and>
    (\<forall>r \<in> set refs. \<forall>key \<in> set split_keys. \<forall>col. map_of [(''tokens'', ''abc'')] key = Some col \<longrightarrow>
        map_of (dd_columns r) key = Some (map (\<lambda>j. col ! j) (dd_partition r))) \<and>
    (\<forall>rank < 2. \<exists>own. process_rollout_data refs rank 2 = Inr own \<and>
        dd_columns own = dd_columns (refs ! rank) \<and> dd_total_lengths own = map (\<lambda>j. [3, 1, 2] ! j) (dd_partition (refs ! rank)))"
    by (rule ranks_share_samples) auto
  then show ?thesis
  proof (elim exE conjE)
    fix refs
    assume w: "split_train_data_by_dp False [(''tokens'', ''abc'')] [3, 1, 2] None 2 = Inr refs"
      "mset (concat (map dd_partition refs)) = mset [0..<length [3, 1, 2::int]]"
    from v have "map dd_partition refs = [[0, 2], [1]]" unfolding w(1) by simp
    with w show ?thesis by (intro exI [of _ refs] conjI)
  qed
qed

end
