(* ===== verification/Advantages.thy ===== *)
theory Advantages
  imports Balance_Partitions PyText
begin

text \<open>
  Losses, returns and advantages (slime/slime/utils/ppo_utils.py) with one context parallel rank:
  KL estimates, the policy loss, returns of REINFORCE++, generalised advantage estimation per sample,
  batched and in chunks, and the log-probability loop that halves its chunk when memory runs out.
  A tensor is a list (of rows) of reals, computed without rounding; tensors that the code combines
  elementwise have the shapes its comments give.  The fused cross entropy is an argument.
\<close>

section \<open>KL estimates and the policy loss\<close>

definition clamp :: "real \<Rightarrow> real \<Rightarrow> real \<Rightarrow> real" where
  "clamp lo hi x = min (max x lo) hi"

definition compute_approx_kl :: "real list \<Rightarrow> real list \<Rightarrow> string \<Rightarrow> real list option \<Rightarrow> real list res" where
  "compute_approx_kl log_probs log_probs_base kl_loss_type importance_ratio =
     (let log_ratio = map2 (-) log_probs log_probs_base;
          weigh = (\<lambda>kl. case importance_ratio of None \<Rightarrow> kl | Some r \<Rightarrow> map2 (*) r kl)
      in if kl_loss_type = ''k1'' then Inr (weigh log_ratio)
         else if kl_loss_type = ''k2'' then Inr (weigh (map (\<lambda>x. x ^ 2 / 2) log_ratio))
         else if kl_loss_type \<in> {''k3'', ''low_var_kl''} then
           (let kl = weigh (map (\<lambda>x. exp (- x) - 1 - (- x)) log_ratio)
            in Inr (if kl_loss_type = ''low_var_kl'' then map (clamp (-10) 10) kl else kl))
         else Inl (ValueError (''Unknown kl_loss_type: '' @ kl_loss_type)))"

definition sequence_kl :: "real list \<Rightarrow> real list \<Rightarrow> real list \<Rightarrow> real" where
  "sequence_kl log_prob old_log_prob loss_mask =
     sum_list (map2 (*) (map2 (-) old_log_prob log_prob) loss_mask) / max (sum_list loss_mask) 1"

fun compute_opsm_mask ::
  "real \<Rightarrow> real list list \<Rightarrow> real list list \<Rightarrow> real list list \<Rightarrow> real list list \<Rightarrow> real list \<times> real" where
  "compute_opsm_mask opsm_delta (lp # lps) (old # olds) (adv # advs) (m # ms) =
     (let seq_kl = sequence_kl lp old m;
          off = map (\<lambda>a. if a < 0 \<and> opsm_delta < seq_kl then 1 else 0 :: real) adv
      in case compute_opsm_mask opsm_delta lps olds advs ms of
           (keep, clipfrac) \<Rightarrow> (map (\<lambda>x. 1 - x) off @ keep, sum_list off / max (sum_list m) 1 + clipfrac))"
| "compute_opsm_mask opsm_delta _ _ _ _ = ([], 0)"

definition compute_gspo_kl :: "real list list \<Rightarrow> real list list \<Rightarrow> real list list \<Rightarrow> real list list \<Rightarrow> real list" where
  "compute_gspo_kl full_log_probs full_old_log_probs local_log_probs loss_masks =
     (let kls = map (\<lambda>(lp, old, m). sequence_kl lp old m) (zip full_log_probs (zip full_old_log_probs loss_masks))
      in concat (map2 (\<lambda>kl lp. replicate (length lp) kl) kls local_log_probs))"

definition token_loss :: "real \<Rightarrow> real \<Rightarrow> real option \<Rightarrow> real \<Rightarrow> real \<Rightarrow> real \<times> bool" where
  \<comment> \<open>one token: its loss, and whether it was clipped\<close>
  "token_loss eps_clip eps_clip_high eps_clip_c kl adv =
     (let ratio = exp (- kl); pg1 = - ratio * adv; pg2 = - clamp (1 - eps_clip) (1 + eps_clip_high) ratio * adv; clip1 = max pg1 pg2
      in (case eps_clip_c of
            None \<Rightarrow> clip1
          | Some c \<Rightarrow> (if adv < 0 then min (- c * adv) clip1 else clip1), pg1 < pg2))"

definition compute_policy_loss :: "real list \<Rightarrow> real list \<Rightarrow> real \<Rightarrow> real \<Rightarrow> real option \<Rightarrow> (real list \<times> bool list) res" where
  "compute_policy_loss ppo_kl advantages eps_clip eps_clip_high eps_clip_c =
     (if (case eps_clip_c of None \<Rightarrow> False | Some c \<Rightarrow> \<not> 1 < c) then Inl (AssertionError ''eps_clip_c'')
      else (let out = map2 (token_loss eps_clip eps_clip_high eps_clip_c) ppo_kl advantages in Inr (map fst out, map snd out)))"

section \<open>Returns without values\<close>

definition get_grpo_returns :: "real list \<Rightarrow> real list list \<Rightarrow> real list list" where
  "get_grpo_returns rewards kl = map2 (\<lambda>r k. replicate (length k) r) rewards kl"

definition discount :: "real \<Rightarrow> real list \<Rightarrow> real list" where
  \<comment> \<open>the loop over \<open>reversed(range(n))\<close>\<close>
  "discount gamma r = fst (fold (\<lambda>t (g, run). let run' = r ! t + gamma * run in (g[t := run'], run')) (rev [0..<length r]) (replicate (length r) 0, 0))"

definition token_rewards :: "real \<Rightarrow> real list \<Rightarrow> real list \<Rightarrow> real \<Rightarrow> real list" where
  "token_rewards kl_coef kl full_mask reward =
     (let r = map2 (\<lambda>k m. - kl_coef * (k * m)) kl full_mask; last_idx = last (filter (\<lambda>i. full_mask ! i \<noteq> 0) [0..<length full_mask])
      in r[last_idx := r ! last_idx + reward])"

fun get_reinforce_plus_plus_returns :: "real list \<Rightarrow> real list list \<Rightarrow> real list list \<Rightarrow> real \<Rightarrow> real \<Rightarrow> real list list res" where
  \<comment> \<open>with one context parallel rank the lengths of the sequences are not used\<close>
  "get_reinforce_plus_plus_returns (r # rs) (kl # kls) (full_mask # masks) kl_coef gamma =
     (if \<not> 0 < sum_list full_mask then Inl (AssertionError ''fully masked'')
      else case get_reinforce_plus_plus_returns rs kls masks kl_coef gamma of
             Inl e \<Rightarrow> Inl e
           | Inr gs \<Rightarrow> Inr (discount gamma (token_rewards kl_coef kl full_mask r) # gs))"
| "get_reinforce_plus_plus_returns [] _ _ kl_coef gamma = Inr []"
| "get_reinforce_plus_plus_returns _ _ _ kl_coef gamma = Inl (OtherError ''IndexError'')"

definition get_reinforce_plus_plus_baseline_advantages :: "real list \<Rightarrow> real list list \<Rightarrow> real \<Rightarrow> real list list" where
  "get_reinforce_plus_plus_baseline_advantages rewards kl kl_coef = map2 (\<lambda>ks r. map (\<lambda>k. r - kl_coef * k) ks) kl rewards"

section \<open>Generalised advantage estimation\<close>

definition gae_step :: "real \<Rightarrow> real \<Rightarrow> real list \<Rightarrow> real list \<Rightarrow> nat \<Rightarrow> nat \<Rightarrow> real \<times> real list \<Rightarrow> real \<times> real list" where
  "gae_step gamma lambd rewards vals n t st =
     (case st of (lastgaelam, advantages_reversed) \<Rightarrow>
        (let nextvalues = (if t + 1 < n then vals ! (t + 1) else 0);
             delta = rewards ! t + gamma * nextvalues - vals ! t;
             lastgaelam' = delta + gamma * lambd * lastgaelam
         in (lastgaelam', advantages_reversed @ [lastgaelam'])))"

definition gae_row :: "real \<Rightarrow> real \<Rightarrow> nat \<Rightarrow> real list \<Rightarrow> real list \<Rightarrow> real list \<times> real list" where
  "gae_row gamma lambd n vals rewards =
     (let full_advantages = rev (snd (fold (gae_step gamma lambd rewards vals n) (rev [0..<n]) (0, [])))
      in (full_advantages, map2 (+) full_advantages vals))"

definition get_advantages_and_returns :: "nat \<Rightarrow> real list \<Rightarrow> real list \<Rightarrow> real \<Rightarrow> real \<Rightarrow> real list \<times> real list" where
  "get_advantages_and_returns response_len vals rewards gamma lambd = gae_row gamma lambd response_len vals rewards"

definition vanilla_gae :: "real list list \<Rightarrow> real list list \<Rightarrow> nat \<Rightarrow> real \<Rightarrow> real \<Rightarrow> (real list list \<times> real list list) res" where
  \<comment> \<open>\<open>T\<close>: the width of both tensors; there is nothing to stack when it is 0\<close>
  "vanilla_gae rewards vals T gamma lambd =
     (if T = 0 then Inl (RuntimeError ''stack expects a non-empty TensorList'')
      else (let rows = map2 (gae_row gamma lambd T) vals rewards in Inr (map fst rows, map snd rows)))"

definition scan_kernel :: "real \<Rightarrow> nat \<Rightarrow> real list list" where
  "scan_kernel w chunk_size =
     map (\<lambda>i. map (\<lambda>j. if w = 0 then (if i = j then 1 else 0) else if i \<le> j then w ^ (j - i) else 0) [0..<chunk_size]) [0..<chunk_size]"

definition pow_vec :: "real \<Rightarrow> nat \<Rightarrow> real list" where
  "pow_vec w chunk_size = map (\<lambda>t. if w = 0 then 0 else w ^ (t + 1)) [0..<chunk_size]"

definition vec_mat :: "real list \<Rightarrow> real list list \<Rightarrow> nat \<Rightarrow> real list" where
  "vec_mat v M n = map (\<lambda>j. sum_list (map2 (\<lambda>x row. x * row ! j) v M)) [0..<n]"

fun chunk_loop :: "real list \<Rightarrow> real \<Rightarrow> (real list \<times> nat) list \<Rightarrow> real list" where
  "chunk_loop pows s_prev [] = []"
| "chunk_loop pows s_prev ((S_local, Lc) # cs) =
     (let S_global = map2 (\<lambda>s p. s + s_prev * p) (take Lc S_local) (take Lc pows)
      in S_global @ chunk_loop pows (last S_global) cs)"

definition chunk_lengths :: "nat \<Rightarrow> nat \<Rightarrow> nat \<Rightarrow> nat list" where
  \<comment> \<open>only the last chunk may be padded\<close>
  "chunk_lengths n_chunks chunk_size pad =
     (if 0 < pad then (replicate n_chunks chunk_size)[n_chunks - 1 := chunk_size - pad] else replicate n_chunks chunk_size)"

definition chunked_row :: "real \<Rightarrow> real \<Rightarrow> nat \<Rightarrow> real list \<Rightarrow> real list \<Rightarrow> real list \<times> real list" where
  "chunked_row gamma lambd chunk_size vals rewards =
     (let T = length rewards;
          next_values = tl vals @ [0];
          deltas = map2 (-) (map2 (\<lambda>r v. r + gamma * v) rewards next_values) vals;
          w = gamma * lambd;
          pad = (if T mod chunk_size \<noteq> 0 then chunk_size - T mod chunk_size else 0);
          deltas_rev = rev deltas @ replicate pad 0;
          n_chunks = (T + pad) div chunk_size;
          S_local = map (\<lambda>c. vec_mat c (scan_kernel w chunk_size) chunk_size) (chunks_of chunk_size deltas_rev);
          lengths = chunk_lengths n_chunks chunk_size pad;
          S_rev = chunk_loop (pow_vec w chunk_size) 0 (zip S_local lengths);
          advantages = rev (take T S_rev)
      in (advantages, map2 (+) advantages vals))"

definition chunked_gae :: "real list list \<Rightarrow> real list list \<Rightarrow> real \<Rightarrow> real \<Rightarrow> nat \<Rightarrow> real list list \<times> real list list" where
  "chunked_gae rewards vals gamma lambd chunk_size =
     (let rows = map2 (chunked_row gamma lambd chunk_size) vals rewards in (map fst rows, map snd rows))"

definition pad_row :: "nat \<Rightarrow> nat \<Rightarrow> real list \<Rightarrow> real list" where
  "pad_row L max_len xs = take L xs @ replicate (max_len - L) 0"

definition get_advantages_and_returns_batch ::
  "nat list \<Rightarrow> real list list \<Rightarrow> real list list \<Rightarrow> real \<Rightarrow> real \<Rightarrow> bool \<Rightarrow> (real list list \<times> real list list) res" where
  "get_advantages_and_returns_batch response_lengths values_list rewards_list gamma lambd chunked =
     (let B = length response_lengths
      in if B \<noteq> length values_list \<or> B \<noteq> length rewards_list then Inl (AssertionError '''')
         else if B = 0 then Inl (OtherError ''IndexError'')
         else
           (let max_len = Max (set response_lengths);
                full_values = map2 (\<lambda>L v. pad_row L max_len v) response_lengths values_list;
                full_rewards = map2 (\<lambda>L r. pad_row L max_len r) response_lengths rewards_list
            in case (if chunked then Inr (chunked_gae full_rewards full_values gamma lambd 128)
                     else vanilla_gae full_rewards full_values max_len gamma lambd) of
                 Inl e \<Rightarrow> Inl e
               | Inr (adv, ret) \<Rightarrow> Inr (map2 take response_lengths adv, map2 take response_lengths ret)))"

section \<open>Log-probabilities in chunks\<close>

definition chunk_rows :: "nat \<Rightarrow> 'a list \<Rightarrow> 'a list list" where
  \<comment> \<open>\<open>torch.chunk\<close> into as many chunks as are asked for, all of the rounded up size but the last\<close>
  "chunk_rows num_chunks xs = chunks_of ((length xs + num_chunks - 1) div num_chunks) xs"

fun each_chunk :: "('c \<Rightarrow> 'w \<Rightarrow> 'r list res \<times> 'w) \<Rightarrow> 'c list \<Rightarrow> 'w \<Rightarrow> 'r list res \<times> 'w" where
  "each_chunk f [] w = (Inr [], w)"
| "each_chunk f (c # cs) w =
     (case f c w of
        (Inl e, w1) \<Rightarrow> (Inl e, w1)
      | (Inr r, w1) \<Rightarrow> (case each_chunk f cs w1 of (Inl e, w2) \<Rightarrow> (Inl e, w2) | (Inr rs, w2) \<Rightarrow> (Inr (r @ rs), w2)))"

definition compute_logprob_entropy_chunked ::
  "('t list \<times> 'l list \<Rightarrow> 'w \<Rightarrow> 'p list res \<times> 'w) \<Rightarrow> ('l list \<Rightarrow> 'w \<Rightarrow> 'e list res \<times> 'w) \<Rightarrow> 'l list \<Rightarrow> 't list \<Rightarrow> bool \<Rightarrow> nat \<Rightarrow>
   'w \<Rightarrow> ('p list \<times> 'e list option) res \<times> 'w" where
  "compute_logprob_entropy_chunked log_probs entropy logits tokens with_entropy chunk_size w =
     (let num_chunks = (length logits - 1) div chunk_size + 1;
          tokens_chunks = chunk_rows num_chunks tokens; logits_chunks = chunk_rows num_chunks logits
      in case each_chunk log_probs (zip tokens_chunks logits_chunks) w of
           (Inl e, w1) \<Rightarrow> (Inl e, w1)
         | (Inr lp, w1) \<Rightarrow>
             (if with_entropy then
                (case each_chunk entropy logits_chunks w1 of (Inl e, w2) \<Rightarrow> (Inl e, w2) | (Inr en, w2) \<Rightarrow> (Inr (lp, Some en), w2))
              else (Inr (lp, None), w1)))"

fun is_oom_error :: "exc \<Rightarrow> bool" where
  \<comment> \<open>only a \<open>RuntimeError\<close> is asked; PyTorch's own out of memory error is one with this text\<close>
  "is_oom_error (RuntimeError msg) = contains ''out of memory'' (lower msg)"
| "is_oom_error _ = False"

function oom_loop ::
  "('t list \<times> 'l list \<Rightarrow> 'w \<Rightarrow> 'p list res \<times> 'w) \<Rightarrow> ('l list \<Rightarrow> 'w \<Rightarrow> 'e list res \<times> 'w) \<Rightarrow> 'l list \<Rightarrow> 't list \<Rightarrow> bool \<Rightarrow> nat \<Rightarrow>
   'w \<Rightarrow> ('p list \<times> 'e list option) res \<times> 'w" where
  "oom_loop log_probs entropy logits tokens with_entropy csize w =
     (case compute_logprob_entropy_chunked log_probs entropy logits tokens with_entropy csize w of
        (Inr r, w1) \<Rightarrow> (Inr r, w1)
      | (Inl e, w1) \<Rightarrow>
          (if \<not> is_oom_error e \<or> csize \<le> 1 then (Inl e, w1)
           else oom_loop log_probs entropy logits tokens with_entropy (max 1 (csize div 2)) w1))"
  by pat_completeness auto
termination
  by (relation "measure (\<lambda>(lp, en, ls, ts, b, csize, w). csize)") auto

declare oom_loop.simps [simp del]

definition calculate_log_probs_and_entropy ::
  "('t list \<times> 'l list \<Rightarrow> 'w \<Rightarrow> 'p list res \<times> 'w) \<Rightarrow> ('l list \<Rightarrow> 'w \<Rightarrow> 'e list res \<times> 'w) \<Rightarrow> 'l list \<Rightarrow> 't list \<Rightarrow> bool \<Rightarrow> int \<Rightarrow>
   'w \<Rightarrow> ('p list \<times> 'e list option) res \<times> 'w" where
  "calculate_log_probs_and_entropy log_probs entropy logits tokens with_entropy chunk_size w =
     (if logits \<noteq> [] then
        oom_loop log_probs entropy logits tokens with_entropy (if 0 < chunk_size then nat chunk_size else length logits) w
      else (Inr ([], if with_entropy then Some [] else None), w))"

section \<open>The scan behind the recurrences\<close>

fun scan :: "real \<Rightarrow> real \<Rightarrow> real list \<Rightarrow> real list" where
  "scan w s [] = []"
| "scan w s (x # xs) = (x + w * s) # scan w (x + w * s) xs"

lemma length_scan [simp]: "length (scan w s xs) = length xs"
  by (induction xs arbitrary: s) auto

lemma scan_Nil_iff [simp]: "scan w s xs = [] \<longleftrightarrow> xs = []"
  by (cases xs) auto

lemma scan_append: "scan w s (xs @ ys) = scan w s xs @ scan w (last (s # scan w s xs)) ys"
  by (induction xs arbitrary: s) auto

lemma scan_zeros: "scan w 0 (replicate n 0 @ xs) = replicate n 0 @ scan w 0 xs"
  by (induction n) auto

lemma scan_nth: "j < length xs \<Longrightarrow> scan w s xs ! j = (\<Sum>i\<le>j. w ^ (j - i) * xs ! i) + w ^ (j + 1) * s"
proof (induction xs arbitrary: s j)
  case (Cons x xs)
  show ?case
  proof (cases j)
    case (Suc k)
    then have "scan w s (x # xs) ! j = (\<Sum>i\<le>k. w ^ (k - i) * xs ! i) + w ^ (k + 1) * (x + w * s)" using Cons by simp
    also have "\<dots> = (\<Sum>i\<le>Suc k. w ^ (Suc k - i) * (x # xs) ! i) + w ^ (Suc k + 1) * s"
      by (simp add: sum.atMost_Suc_shift algebra_simps del: sum.atMost_Suc)
    finally show ?thesis by (simp only: Suc)
  qed simp
qed simp

section \<open>The chunks compute the scan\<close>

lemma kernel_nth: "i < C \<Longrightarrow> j < C \<Longrightarrow> scan_kernel w C ! i ! j = (if i \<le> j then w ^ (j - i) else 0)"
  by (auto simp: scan_kernel_def)

lemma sum_list_map2_nth: "length xs = length ys \<Longrightarrow> sum_list (map2 f xs ys) = (\<Sum>i<length xs. f (xs ! i) (ys ! i))" for f :: "'a \<Rightarrow> 'b \<Rightarrow> real"
  by (induction xs ys rule: list_induct2) (simp_all add: sum.lessThan_Suc_shift del: sum.lessThan_Suc)

lemma local_scan:
  assumes "length c = C" "j < C"
  shows "vec_mat c (scan_kernel w C) C ! j = (\<Sum>i\<le>j. w ^ (j - i) * c ! i)"
proof -
  have len: "length (scan_kernel w C) = C" by (simp add: scan_kernel_def)
  have "vec_mat c (scan_kernel w C) C ! j = (\<Sum>i<C. c ! i * scan_kernel w C ! i ! j)"
    using assms len by (simp add: vec_mat_def sum_list_map2_nth)
  also have "\<dots> = (\<Sum>i<C. if i \<le> j then w ^ (j - i) * c ! i else 0)"
    using assms by (intro sum.cong) (auto simp: kernel_nth)
  also have "\<dots> = (\<Sum>i \<in> {..<C} \<inter> {i. i \<le> j}. w ^ (j - i) * c ! i)" by (simp add: sum.inter_restrict)
  also have "{..<C} \<inter> {i. i \<le> j} = {..j}" using assms by auto
  finally show ?thesis .
qed

lemma chunk_global:
  assumes "length c = C" "L \<le> C"
  shows "map2 (\<lambda>x p. x + s * p) (take L (vec_mat c (scan_kernel w C) C)) (take L (pow_vec w C)) = scan w s (take L c)"
proof (rule nth_equalityI)
  have len: "length (vec_mat c (scan_kernel w C) C) = C" "length (pow_vec w C) = C" by (simp_all add: vec_mat_def pow_vec_def)
  then show "length (map2 (\<lambda>x p. x + s * p) (take L (vec_mat c (scan_kernel w C) C)) (take L (pow_vec w C))) = length (scan w s (take L c))"
    using assms by simp
  fix j
  assume "j < length (map2 (\<lambda>x p. x + s * p) (take L (vec_mat c (scan_kernel w C) C)) (take L (pow_vec w C)))"
  then have j: "j < L" by simp
  then have "pow_vec w C ! j = w ^ (j + 1)" using assms(2) by (simp add: pow_vec_def)
  moreover have "scan w s (take L c) ! j = (\<Sum>i\<le>j. w ^ (j - i) * c ! i) + w ^ (j + 1) * s"
    using j assms by (subst scan_nth) (auto intro!: sum.cong)
  ultimately show "map2 (\<lambda>x p. x + s * p) (take L (vec_mat c (scan_kernel w C) C)) (take L (pow_vec w C)) ! j = scan w s (take L c) ! j"
    using j assms len local_scan [OF assms(1), of j w] by (simp add: mult.commute)
qed

lemma chunk_loop_scan:
  assumes "\<And>c L. (c, L) \<in> set cls \<Longrightarrow> length c = C \<and> 0 < L \<and> L \<le> C"
  shows "chunk_loop (pow_vec w C) s (map (\<lambda>(c, L). (vec_mat c (scan_kernel w C) C, L)) cls) = scan w s (concat (map (\<lambda>(c, L). take L c) cls))"
  using assms
proof (induction cls arbitrary: s)
  case (Cons cl cls)
  obtain c L where cl: "cl = (c, L)" by (cases cl)
  then have c: "length c = C" "0 < L" "L \<le> C" using Cons.prems by auto
  then have ne: "take L c \<noteq> []" by auto
  have "chunk_loop (pow_vec w C) t (map (\<lambda>(c, L). (vec_mat c (scan_kernel w C) C, L)) cls) = scan w t (concat (map (\<lambda>(c, L). take L c) cls))" for t
    using Cons by auto
  with cl ne chunk_global [OF c(1,3), of s w] show ?case by (simp add: Let_def scan_append)
qed simp

lemma chunk_lengths_Suc:
  "chunk_lengths (Suc (Suc n)) C pad = C # chunk_lengths (Suc n) C pad" "chunk_lengths (Suc 0) C pad = [C - pad]" "chunk_lengths 0 C pad = []"
  by (auto simp: chunk_lengths_def)

lemma chunks_taken:
  "0 < C \<Longrightarrow> length ys = n * C \<Longrightarrow> pad < C \<Longrightarrow> n \<noteq> 0 \<Longrightarrow>
   concat (map (\<lambda>(c, L). take L c) (zip (chunks_of C ys) (chunk_lengths n C pad))) = take (length ys - pad) ys \<and>
   (\<forall>(c, L) \<in> set (zip (chunks_of C ys) (chunk_lengths n C pad)). length c = C \<and> 0 < L \<and> L \<le> C)"
proof (induction n arbitrary: ys)
  case (Suc n)
  then have "ys \<noteq> []" by auto
  then have ch: "chunks_of C ys = take C ys # chunks_of C (drop C ys)" using Suc.prems(1) by (simp add: chunks_of.simps [of C ys])
  have len: "length (drop C ys) = n * C" using Suc.prems(2) by simp
  show ?case
  proof (cases n)
    case 0
    with ch len Suc.prems show ?thesis by (simp add: chunk_lengths_Suc chunks_of.simps [of C "[]"])
  next
    case (Suc m)
    have "C \<le> length ys - pad" using Suc Suc.prems(2,3) by simp
    then have "take (length ys - pad) ys = take C ys @ take (length (drop C ys) - pad) (drop C ys)"
    proof -
      have "C + (length ys - (C + pad)) = length ys - pad" using \<open>C \<le> length ys - pad\<close> by simp
      with take_add [of C "length ys - (C + pad)" ys] show ?thesis by simp
    qed
    with Suc.IH [OF Suc.prems(1) len Suc.prems(3)] ch Suc Suc.prems(1,2) show ?thesis by (simp add: chunk_lengths_Suc)
  qed
qed simp

section \<open>Both forms compute the same advantages\<close>

definition deltas :: "real \<Rightarrow> real list \<Rightarrow> real list \<Rightarrow> real list" where
  \<comment> \<open>r_t + gamma V_(t+1) - V_t, the value after the last being 0\<close>
  "deltas gamma vals rewards = map (\<lambda>t. rewards ! t + gamma * (if t + 1 < length vals then vals ! (t + 1) else 0) - vals ! t) [0..<length vals]"

lemma length_deltas [simp]: "length (deltas gamma vals rewards) = length vals"
  by (simp add: deltas_def)

lemma fold_gae_step:
  "snd (fold (gae_step gamma lambd rewards vals n) ts (s, acc)) =
     acc @ scan (gamma * lambd) s (map (\<lambda>t. rewards ! t + gamma * (if t + 1 < n then vals ! (t + 1) else 0) - vals ! t) ts)"
  by (induction ts arbitrary: s acc) (auto simp: gae_step_def Let_def)

lemma gae_row_scan: "n = length vals \<Longrightarrow> fst (gae_row gamma lambd n vals rewards) = rev (scan (gamma * lambd) 0 (rev (deltas gamma vals rewards)))"
  by (simp add: gae_row_def fold_gae_step deltas_def Let_def rev_map)

lemma chunked_deltas:
  "length rewards = length vals \<Longrightarrow> map2 (-) (map2 (\<lambda>r v. r + gamma * v) rewards (tl vals @ [0])) vals = deltas gamma vals rewards"
  by (rule nth_equalityI) (auto simp: deltas_def nth_append nth_tl)

lemma chunked_row_gae:
  assumes "length rewards = length vals" "0 < C"
  shows "chunked_row gamma lambd C vals rewards = gae_row gamma lambd (length vals) vals rewards"
proof -
  let ?T = "length vals" and ?w = "gamma * lambd" and ?ds = "rev (deltas gamma vals rewards)"
  define pad where "pad = (if ?T mod C \<noteq> 0 then C - ?T mod C else 0)"
  let ?ys = "?ds @ replicate pad 0" and ?n = "(?T + pad) div C"
  have "(?T + pad) mod C = 0"
  proof (cases "?T mod C = 0")
    case False
    then have "pad + ?T mod C = C" using mod_less_divisor [OF assms(2), of ?T] by (simp add: pad_def)
    then show ?thesis by (metis add.commute mod_add_right_eq mod_self)
  qed (simp add: pad_def)
  then have "?n * C = ?T + pad" by (simp add: mod_eq_0_iff_dvd)
  then have len: "length ?ys = ?n * C" by simp
  have pad: "pad < C" using assms(2) by (simp add: pad_def)
  have "take ?T (chunk_loop (pow_vec ?w C) 0 (zip (map (\<lambda>c. vec_mat c (scan_kernel ?w C) C) (chunks_of C ?ys)) (chunk_lengths ?n C pad))) = scan ?w 0 ?ds"
  proof (cases "?n = 0")
    case True
    then have "?T = 0" using len by simp
    with True show ?thesis by (simp add: chunk_lengths_Suc deltas_def)
  next
    case False
    let ?cls = "zip (chunks_of C ?ys) (chunk_lengths ?n C pad)"
    have cls: "concat (map (\<lambda>(c, L). take L c) ?cls) = ?ds" "\<forall>(c, L) \<in> set ?cls. length c = C \<and> 0 < L \<and> L \<le> C"
      using chunks_taken [OF assms(2) len pad False] by auto
    have z: "zip (map (\<lambda>c. vec_mat c (scan_kernel ?w C) C) (chunks_of C ?ys)) (chunk_lengths ?n C pad) = map (\<lambda>(c, L). (vec_mat c (scan_kernel ?w C) C, L)) ?cls"
      by (simp add: zip_map1 case_prod_unfold)
    have "chunk_loop (pow_vec ?w C) 0 (map (\<lambda>(c, L). (vec_mat c (scan_kernel ?w C) C, L)) ?cls) = scan ?w 0 (concat (map (\<lambda>(c, L). take L c) ?cls))"
    proof (rule chunk_loop_scan)
      fix c L
      assume "(c, L) \<in> set ?cls"
      from bspec [OF cls(2) this] show "length c = C \<and> 0 < L \<and> L \<le> C" by (simp only: prod.case)
    qed
    then show ?thesis unfolding z cls(1) by simp
  qed
  note scan = this
  have "chunked_row gamma lambd C vals rewards = (rev (scan ?w 0 ?ds), map2 (+) (rev (scan ?w 0 ?ds)) vals)"
    unfolding chunked_row_def Let_def chunked_deltas [OF assms(1)] assms(1) pad_def [symmetric] scan ..
  moreover have "snd (gae_row gamma lambd ?T vals rewards) = map2 (+) (fst (gae_row gamma lambd ?T vals rewards)) vals"
    by (simp add: gae_row_def Let_def)
  ultimately show ?thesis by (simp add: prod_eq_iff gae_row_scan)
qed

lemma deltas_pad:
  assumes "length rewards = length vals"
  shows "deltas gamma (vals @ replicate p 0) (rewards @ replicate p 0) = deltas gamma vals rewards @ replicate p 0"
  by (rule nth_equalityI) (use assms in \<open>auto simp: deltas_def nth_append\<close>)

lemma gae_row_pad:
  assumes "length rewards = length vals"
  shows "take (length vals) (fst (gae_row gamma lambd (length vals + p) (vals @ replicate p 0) (rewards @ replicate p 0))) = fst (gae_row gamma lambd (length vals) vals rewards)"
    "take (length vals) (snd (gae_row gamma lambd (length vals + p) (vals @ replicate p 0) (rewards @ replicate p 0))) = snd (gae_row gamma lambd (length vals) vals rewards)"
proof -
  show *: "take (length vals) (fst (gae_row gamma lambd (length vals + p) (vals @ replicate p 0) (rewards @ replicate p 0))) = fst (gae_row gamma lambd (length vals) vals rewards)"
    using assms by (simp add: gae_row_scan deltas_pad scan_zeros)
  have "snd (gae_row gamma lambd n v r) = map2 (+) (fst (gae_row gamma lambd n v r)) v" for n v r by (simp add: gae_row_def Let_def)
  with * show "take (length vals) (snd (gae_row gamma lambd (length vals + p) (vals @ replicate p 0) (rewards @ replicate p 0))) = snd (gae_row gamma lambd (length vals) vals rewards)"
    by (simp add: take_map take_zip)
qed

text \<open>C33. Batched advantage estimation, padded to the longest sample and computed in chunks of 128 by matrix
  products or step by step, gives for every sample the advantages and returns of the per-sample
  reference loop.\<close>

theorem batched_gae_is_reference:
  assumes "lens \<noteq> []" "map length values_list = lens" "map length rewards_list = lens" "chunked \<or> (\<exists>L \<in> set lens. 0 < L)"
  shows "get_advantages_and_returns_batch lens values_list rewards_list gamma lambd chunked =
    (let refs = map2 (\<lambda>v r. get_advantages_and_returns (length v) v r gamma lambd) values_list rewards_list
     in Inr (map fst refs, map snd refs))"
proof -
  let ?M = "Max (set lens)"
  have le: "L \<le> ?M" if "L \<in> set lens" for L using that by simp
  have n: "length values_list = length lens" "length rewards_list = length lens" using arg_cong [OF assms(2), of length] arg_cong [OF assms(3), of length] by simp_all
  let ?vs = "map2 (\<lambda>L v. pad_row L ?M v) lens values_list" and ?rs = "map2 (\<lambda>L r. pad_row L ?M r) lens rewards_list"
  have lenv: "length (values_list ! i) = lens ! i" if "i < length lens" for i using assms(2) n(1) that by (metis nth_map)
  have lenr: "length (rewards_list ! i) = lens ! i" if "i < length lens" for i using assms(3) n(2) that by (metis nth_map)
  have room: "lens ! i + (?M - lens ! i) = ?M" if "i < length lens" for i using le [OF nth_mem [OF that]] by simp
  have row: "pad_row (lens ! i) ?M (values_list ! i) = values_list ! i @ replicate (?M - lens ! i) 0"
    "pad_row (lens ! i) ?M (rewards_list ! i) = rewards_list ! i @ replicate (?M - lens ! i) 0" if "i < length lens" for i
    using lenv [OF that] lenr [OF that] by (simp_all add: pad_row_def)
  have rows: "map2 (chunked_row gamma lambd 128) ?vs ?rs = map2 (gae_row gamma lambd ?M) ?vs ?rs"
    by (rule nth_equalityI) (use n row lenv lenr room in \<open>simp_all add: chunked_row_gae\<close>)
  have out: "(if chunked then Inr (chunked_gae ?rs ?vs gamma lambd 128) else vanilla_gae ?rs ?vs ?M gamma lambd) =
    Inr (map fst (map2 (gae_row gamma lambd ?M) ?vs ?rs), map snd (map2 (gae_row gamma lambd ?M) ?vs ?rs))"
  proof -
    have "?M \<noteq> 0" if nc: "\<not> chunked"
    proof -
      obtain L where "L \<in> set lens" "0 < L" using assms(4) nc by blast
      with le [of L] show ?thesis by linarith
    qed
    then show ?thesis unfolding chunked_gae_def vanilla_gae_def rows by (cases chunked) (simp_all add: Let_def)
  qed
  have "map2 take lens (map fst (map2 (gae_row gamma lambd ?M) ?vs ?rs)) = map fst (map2 (\<lambda>v r. gae_row gamma lambd (length v) v r) values_list rewards_list)"
    "map2 take lens (map snd (map2 (gae_row gamma lambd ?M) ?vs ?rs)) = map snd (map2 (\<lambda>v r. gae_row gamma lambd (length v) v r) values_list rewards_list)"
  proof -
    have "take (lens ! i) (fst (gae_row gamma lambd ?M (?vs ! i) (?rs ! i))) = fst (gae_row gamma lambd (lens ! i) (values_list ! i) (rewards_list ! i))"
      "take (lens ! i) (snd (gae_row gamma lambd ?M (?vs ! i) (?rs ! i))) = snd (gae_row gamma lambd (lens ! i) (values_list ! i) (rewards_list ! i))"
      if i: "i < length lens" for i
      using gae_row_pad [of "rewards_list ! i" "values_list ! i" gamma lambd "?M - lens ! i"] row [OF i] lenv [OF i] lenr [OF i] room [OF i] i n by simp_all
    with n lenv show "map2 take lens (map fst (map2 (gae_row gamma lambd ?M) ?vs ?rs)) = map fst (map2 (\<lambda>v r. gae_row gamma lambd (length v) v r) values_list rewards_list)"
      "map2 take lens (map snd (map2 (gae_row gamma lambd ?M) ?vs ?rs)) = map snd (map2 (\<lambda>v r. gae_row gamma lambd (length v) v r) values_list rewards_list)"
      by (intro nth_equalityI; simp)+
  qed
  then show ?thesis using assms(1) n out
    by (simp add: get_advantages_and_returns_batch_def get_advantages_and_returns_def Let_def)
qed

lemma batched_gae_is_reference_witness:
  "get_advantages_and_returns_batch [2, 1] [[1, 2], [3]] [[4, 5], [6]] 1 0 True = Inr ([[5, 3], [3]], [[6, 5], [6]])"
proof -
  have "get_advantages_and_returns_batch [2, 1] [[1, 2], [3]] [[4, 5], [6]] 1 0 True =
    (let refs = map2 (\<lambda>v r. get_advantages_and_returns (length v) v r 1 0) [[1, 2], [3]] [[4, 5], [6]] in Inr (map fst refs, map snd refs))"
    by (rule batched_gae_is_reference) simp_all
  also have "\<dots> = Inr ([[5, 3], [3]], [[6, 5], [6]])" by (simp add: get_advantages_and_returns_def gae_row_def gae_step_def Let_def)
  finally show ?thesis .
qed

section \<open>Closed forms\<close>

lemma rev_scan_nth:
  assumes "t < length xs"
  shows "rev (scan w 0 (rev xs)) ! t = (\<Sum>k = t..<length xs. w ^ (k - t) * xs ! k)"
proof -
  let ?n = "length xs"
  have "rev (scan w 0 (rev xs)) ! t = (\<Sum>i\<le>?n - Suc t. w ^ (?n - Suc t - i) * rev xs ! i)"
    using assms by (simp add: rev_nth scan_nth)
  also have "\<dots> = (\<Sum>k = t..<?n. w ^ (k - t) * xs ! k)"
    by (rule sum.reindex_bij_witness [of _ "\<lambda>k. ?n - Suc k" "\<lambda>i. ?n - Suc i"]) (use assms in \<open>auto simp: rev_nth add.commute\<close>)
  finally show ?thesis .
qed

text \<open>The advantage of token t is the sum over the later tokens k of (gamma lambda)^(k - t) times the
  temporal difference at k, whose next value is 0 at the end of the response; the return adds the value.\<close>

theorem advantages_closed_form:
  assumes "length rewards = length vals" "t < length vals"
  shows "fst (get_advantages_and_returns (length vals) vals rewards gamma lambd) ! t =
      (\<Sum>k = t..<length vals. (gamma * lambd) ^ (k - t) *
         (rewards ! k + gamma * (if k + 1 < length vals then vals ! (k + 1) else 0) - vals ! k)) \<and>
    snd (get_advantages_and_returns (length vals) vals rewards gamma lambd) ! t =
      fst (get_advantages_and_returns (length vals) vals rewards gamma lambd) ! t + vals ! t"
proof -
  have row: "fst (gae_row gamma lambd (length vals) vals rewards) = rev (scan (gamma * lambd) 0 (rev (deltas gamma vals rewards)))"
    by (simp add: gae_row_scan)
  have "fst (gae_row gamma lambd (length vals) vals rewards) ! t =
    (\<Sum>k = t..<length vals. (gamma * lambd) ^ (k - t) * deltas gamma vals rewards ! k)"
    unfolding row using assms(2) by (simp add: rev_scan_nth)
  also have "\<dots> = (\<Sum>k = t..<length vals. (gamma * lambd) ^ (k - t) *
      (rewards ! k + gamma * (if k + 1 < length vals then vals ! (k + 1) else 0) - vals ! k))"
    by (intro sum.cong) (auto simp: deltas_def)
  finally have adv: "fst (get_advantages_and_returns (length vals) vals rewards gamma lambd) ! t = \<dots>"
    by (simp add: get_advantages_and_returns_def)
  have "length (fst (gae_row gamma lambd (length vals) vals rewards)) = length vals" unfolding row by simp
  then have "snd (get_advantages_and_returns (length vals) vals rewards gamma lambd) ! t =
      fst (get_advantages_and_returns (length vals) vals rewards gamma lambd) ! t + vals ! t"
    using assms(2) by (simp add: get_advantages_and_returns_def gae_row_def Let_def)
  with adv show ?thesis by simp
qed

lemma advantages_closed_form_witness:
  "fst (get_advantages_and_returns 2 [1, 2] [4, 5] (1 / 2) 1) ! 0 = 11 / 2"
  using advantages_closed_form [of "[4, 5]" "[1, 2]" 0 "1 / 2" 1] by (simp add: eval_nat_numeral)

lemma discount_scan: "discount gamma r = rev (scan gamma 0 (rev r))"
proof -
  have "fst (fold (\<lambda>t (g, run). let run' = r ! t + gamma * run in (g[t := run'], run')) (rev [0..<m]) (g, run)) =
    rev (scan gamma run (rev (take m r))) @ drop m g" if "m \<le> length r" "length g = length r" for m g run
    using that
  proof (induction m arbitrary: g run)
    case (Suc m)
    let ?run = "r ! m + gamma * run"
    have "fst (fold (\<lambda>t (g, run). let run' = r ! t + gamma * run in (g[t := run'], run')) (rev [0..<Suc m]) (g, run)) =
      rev (scan gamma ?run (rev (take m r))) @ drop m (g[m := ?run])" using Suc by (simp add: Let_def)
    also have "drop m (g[m := ?run]) = ?run # drop (Suc m) g" using Suc.prems by (simp add: Cons_nth_drop_Suc [symmetric] drop_update_cancel)
    also have "rev (scan gamma ?run (rev (take m r))) @ ?run # drop (Suc m) g = rev (scan gamma run (rev (take (Suc m) r))) @ drop (Suc m) g"
      using Suc.prems by (simp add: take_Suc_conv_app_nth)
    finally show ?case .
  qed simp
  from this [of "length r" "replicate (length r) 0" 0] show ?thesis by (simp add: discount_def)
qed

lemma discount_closed_form:
  "t < length r \<Longrightarrow> discount gamma r ! t = (\<Sum>k = t..<length r. gamma ^ (k - t) * r ! k)"
  by (simp add: discount_scan rev_scan_nth)

section \<open>Signs and bounds of the losses\<close>

lemma k3_nonneg: "compute_approx_kl lp base ''k3'' None = Inr kl \<Longrightarrow> x \<in> set kl \<Longrightarrow> 0 \<le> x"
proof -
  assume a: "compute_approx_kl lp base ''k3'' None = Inr kl" "x \<in> set kl"
  then obtain p q where "x = exp (q - p) - 1 + (p - q)" by (auto simp: compute_approx_kl_def)
  with exp_ge_add_one_self [of "q - p"] show ?thesis by linarith
qed

text \<open>The policy loss of a token is never below the unclipped loss; while the ratio is inside the clipping
  range it is the unclipped loss and not counted as clipped; and for a negative advantage the dual clip
  caps it at c times the advantage's size.\<close>

theorem policy_loss_bounds:
  assumes "0 \<le> eps_clip" "0 \<le> eps_clip_high" "length advantages = length ppo_kl" "i < length ppo_kl" "1 < c"
  shows "\<exists>losses clipped. compute_policy_loss ppo_kl advantages eps_clip eps_clip_high None = Inr (losses, clipped) \<and>
      - exp (- ppo_kl ! i) * advantages ! i \<le> losses ! i \<and>
      (1 - eps_clip \<le> exp (- ppo_kl ! i) \<and> exp (- ppo_kl ! i) \<le> 1 + eps_clip_high \<longrightarrow>
        losses ! i = - exp (- ppo_kl ! i) * advantages ! i \<and> \<not> clipped ! i)"
    and "\<exists>losses clipped. compute_policy_loss ppo_kl advantages eps_clip eps_clip_high (Some c) = Inr (losses, clipped) \<and>
      (advantages ! i < 0 \<longrightarrow> losses ! i \<le> c * \<bar>advantages ! i\<bar>)"
  using assms by (auto simp: compute_policy_loss_def token_loss_def clamp_def Let_def)

lemma policy_loss_bounds_witness:
  "\<exists>losses clipped. compute_policy_loss [0] [3] (1 / 5) (1 / 5) None = Inr (losses, clipped) \<and> losses ! 0 = - 3 \<and> \<not> clipped ! 0"
proof -
  have "\<exists>losses clipped. compute_policy_loss [0] [3] (1 / 5) (1 / 5) None = Inr (losses, clipped) \<and>
      - exp (- [0] ! 0) * [3] ! 0 \<le> losses ! 0 \<and>
      (1 - 1 / (5::real) \<le> exp (- [0] ! 0) \<and> exp (- [0] ! 0) \<le> 1 + 1 / (5::real) \<longrightarrow> losses ! 0 = - exp (- [0] ! 0) * [3] ! 0 \<and> \<not> clipped ! 0)"
    by (rule policy_loss_bounds(1) [where c = 2]) simp_all
  then show ?thesis by force
qed

section \<open>Halving the chunk\<close>

lemma concat_chunk_rows: "0 < k \<Longrightarrow> concat (chunk_rows k xs) = xs"
proof (cases "xs = []")
  case False
  assume "0 < k"
  moreover from False have "k \<le> length xs + k - 1" by (cases xs) auto
  ultimately have "(length xs + k - 1) div k \<noteq> 0" by (simp add: div_eq_0_iff)
  then show ?thesis by (simp add: chunk_rows_def chunks_concat)
qed (simp add: chunk_rows_def chunks_of.simps [of _ "[]"])

lemma zip_chunks: "length xs = length ys \<Longrightarrow> zip (chunks_of k xs) (chunks_of k ys) = map (\<lambda>c. (map fst c, map snd c)) (chunks_of k (zip xs ys))"
proof (induction k xs arbitrary: ys rule: chunks_of.induct)
  case (1 k xs)
  show ?case
  proof (cases "k = 0 \<or> xs = []")
    case False
    then have "ys \<noteq> []" "zip xs ys \<noteq> []" using "1.prems" by (cases xs; cases ys; auto)+
    with False "1.IH" [OF False, of "drop k ys"] "1.prems" show ?thesis
      by (simp add: chunks_of.simps [of k xs] chunks_of.simps [of k ys] chunks_of.simps [of k "zip xs ys"] take_map [symmetric] drop_zip)
  qed (use "1.prems" in \<open>auto simp: chunks_of.simps [of k xs] chunks_of.simps [of k ys] chunks_of.simps [of k "zip xs ys"]\<close>)
qed

lemma each_chunk_rows:
  assumes "\<And>c w r w'. f c w = (Inr r, w') \<Longrightarrow> r = map g (rows c)" "each_chunk f cs w = (Inr rs, w')"
  shows "rs = map g (concat (map rows cs))"
  using assms(2)
proof (induction cs arbitrary: w rs w')
  case (Cons c cs)
  then show ?case using assms(1) by (auto split: prod.splits sum.splits)
qed simp

lemma each_chunk_order:
  assumes "length tokens = length logits" "0 < k"
  shows "concat (map (\<lambda>(t, l). zip t l) (zip (chunk_rows k tokens) (chunk_rows k logits))) = zip tokens logits"
proof -
  let ?m = "(length logits + k - 1) div k"
  have "zip (chunk_rows k tokens) (chunk_rows k logits) = map (\<lambda>c. (map fst c, map snd c)) (chunks_of ?m (zip tokens logits))"
    using assms(1) by (simp add: chunk_rows_def zip_chunks)
  then have "map (\<lambda>(t, l). zip t l) (zip (chunk_rows k tokens) (chunk_rows k logits)) = chunks_of ?m (zip tokens logits)"
    by (simp add: comp_def zip_map_fst_snd)
  also have "\<dots> = chunk_rows k (zip tokens logits)" using assms(1) by (simp add: chunk_rows_def)
  finally show ?thesis using assms(2) by (simp add: concat_chunk_rows)
qed

lemma chunked_rows:
  assumes "length tokens = length logits"
    and "\<And>c w r w'. log_probs c w = (Inr r, w') \<Longrightarrow> r = map f (zip (fst c) (snd c))"
    and "\<And>c w r w'. entropy c w = (Inr r, w') \<Longrightarrow> r = map g c"
    and "compute_logprob_entropy_chunked log_probs entropy logits tokens with_entropy csize w = (Inr (lp, en), w')"
  shows "lp = map f (zip tokens logits) \<and> en = (if with_entropy then Some (map g logits) else None)"
proof -
  let ?k = "(length logits - 1) div csize + 1"
  obtain w1 where lp: "each_chunk log_probs (zip (chunk_rows ?k tokens) (chunk_rows ?k logits)) w = (Inr lp, w1)"
    and en: "if with_entropy then \<exists>es. each_chunk entropy (chunk_rows ?k logits) w1 = (Inr es, w') \<and> en = Some es else en = None"
    using assms(4) by (auto simp: compute_logprob_entropy_chunked_def Let_def split: prod.splits sum.splits if_splits)
  have "lp = map f (concat (map (\<lambda>c. zip (fst c) (snd c)) (zip (chunk_rows ?k tokens) (chunk_rows ?k logits))))"
    by (rule each_chunk_rows [OF assms(2) lp])
  moreover have "en = (if with_entropy then Some (map g logits) else None)"
  proof (cases with_entropy)
    case True
    then obtain es where es: "each_chunk entropy (chunk_rows ?k logits) w1 = (Inr es, w')" "en = Some es" using en by auto
    have "es = map g (concat (map (\<lambda>c. c) (chunk_rows ?k logits)))" by (rule each_chunk_rows [OF assms(3) es(1)])
    with True es(2) show ?thesis by (simp add: concat_chunk_rows)
  qed (use en in simp)
  ultimately show ?thesis using each_chunk_order [OF assms(1), of ?k] by (simp add: case_prod_unfold)
qed

text \<open>Whatever runs out of memory on the way, the loop that halves its chunk ends: with the log-probability
  of every row in order (and the entropies if asked for), the same for every chunk csize it started
  from, or with the error of the last attempt, which is not lack of memory unless the chunk was one row.\<close>

theorem halving_returns_all_rows:
  assumes "length tokens = length logits"
    and "\<And>c w r w'. log_probs c w = (Inr r, w') \<Longrightarrow> r = map f (zip (fst c) (snd c))"
    and "\<And>c w r w'. entropy c w = (Inr r, w') \<Longrightarrow> r = map g c"
  shows "case fst (calculate_log_probs_and_entropy log_probs entropy logits tokens with_entropy chunk_size w) of
      Inr out \<Rightarrow> out = (map f (zip tokens logits), if with_entropy then Some (map g logits) else None)
    | Inl e \<Rightarrow> \<exists>last w1 w2. compute_logprob_entropy_chunked log_probs entropy logits tokens with_entropy last w1 = (Inl e, w2) \<and>
        (is_oom_error e \<longrightarrow> last = 1)"
proof (cases "logits = []")
  case False
  have "case fst (oom_loop log_probs entropy logits tokens with_entropy csize w) of
      Inr out \<Rightarrow> out = (map f (zip tokens logits), if with_entropy then Some (map g logits) else None)
    | Inl e \<Rightarrow> \<exists>last w1 w2. compute_logprob_entropy_chunked log_probs entropy logits tokens with_entropy last w1 = (Inl e, w2) \<and>
        (is_oom_error e \<longrightarrow> last = 1)" if "1 \<le> csize" for csize w
    using that
  proof (induction csize arbitrary: w rule: less_induct)
    case (less csize)
    obtain r w1 where run: "compute_logprob_entropy_chunked log_probs entropy logits tokens with_entropy csize w = (r, w1)" by fastforce
    show ?case
    proof (cases r)
      case (Inr out)
      have "compute_logprob_entropy_chunked log_probs entropy logits tokens with_entropy csize w = (Inr (fst out, snd out), w1)"
        using run Inr by simp
      from chunked_rows [OF assms this]
      have out: "out = (map f (zip tokens logits), if with_entropy then Some (map g logits) else None)" by (simp add: prod_eq_iff)
      have "oom_loop log_probs entropy logits tokens with_entropy csize w = (Inr out, w1)"
        using run Inr by (simp add: oom_loop.simps [of log_probs entropy logits tokens with_entropy csize w])
      with out show ?thesis by simp
    next
      case (Inl e)
      show ?thesis
      proof (cases "is_oom_error e \<and> 1 < csize")
        case True
        then have again: "oom_loop log_probs entropy logits tokens with_entropy csize w = oom_loop log_probs entropy logits tokens with_entropy (max 1 (csize div 2)) w1"
          using run Inl by (simp add: oom_loop.simps [of log_probs entropy logits tokens with_entropy csize w])
        show ?thesis unfolding again by (rule less.IH) (use True in auto)
      next
        case False
        then have "oom_loop log_probs entropy logits tokens with_entropy csize w = (Inl e, w1)"
          using run Inl by (auto simp: oom_loop.simps [of log_probs entropy logits tokens with_entropy csize w])
        with False run Inl less.prems show ?thesis by auto
      qed
    qed
  qed
  moreover have "1 \<le> (if 0 < chunk_size then nat chunk_size else length logits)" using False by (cases logits) auto
  ultimately show ?thesis using False by (simp add: calculate_log_probs_and_entropy_def)
qed (use assms(1) in \<open>simp add: calculate_log_probs_and_entropy_def\<close>)

definition small_memory :: "'c list \<times> nat list \<Rightarrow> nat \<Rightarrow> nat list res \<times> nat" where
  \<comment> \<open>a device with room for two rows; the state counts the calls\<close>
  "small_memory c w = (if 2 < length (snd c) then Inl (RuntimeError ''CUDA out of memory'') else Inr (map snd (zip (fst c) (snd c))), w + 1)"

lemma halving_returns_all_rows_witness:
  "fst (calculate_log_probs_and_entropy small_memory (\<lambda>c w. (Inr c, w)) [1, 2, 3, 4, 5] ''abcde'' True (-1) 0) = Inr ([1, 2, 3, 4, 5], Some [1, 2, 3, 4, 5])"
proof -
  have ok: "case fst (calculate_log_probs_and_entropy small_memory (\<lambda>c w. (Inr c, w)) [1, 2, 3, 4, 5] ''abcde'' True (-1) 0) of Inr out \<Rightarrow> True | Inl e \<Rightarrow> False"
    by code_simp
  have "case fst (calculate_log_probs_and_entropy small_memory (\<lambda>c w. (Inr c, w)) [1, 2, 3, 4, 5] ''abcde'' True (-1) 0) of
      Inr out \<Rightarrow> out = (map snd (zip ''abcde'' [1, 2, 3, 4, 5]), if True then Some (map (\<lambda>x. x) [1, 2, 3, 4, 5]) else None)
    | Inl e \<Rightarrow> \<exists>last w1 w2. compute_logprob_entropy_chunked small_memory (\<lambda>c w. (Inr c, w)) [1, 2, 3, 4, 5] ''abcde'' True last w1 = (Inl e, w2) \<and>
        (is_oom_error e \<longrightarrow> last = 1)"
    by (rule halving_returns_all_rows) (auto simp: small_memory_def split: if_splits)
  with ok show ?thesis by (auto split: sum.splits)
qed

end
