(* ===== verification/Data_Source.thy ===== *)
theory Data_Source
  imports Prelude
begin

text \<open>
  Samples and the source of prompts (slime/slime/utils/types.py, slime/slime/utils/data.py,
  slime/slime/rollout/data_source.py): the data set with its order per epoch, the data source that
  walks through it, its saved state, and the buffer of groups that go back.  The pseudo-random
  permutation of a seed is an argument, files are values.  Reading and templating the prompts is left
  out; of a sample's metadata the entries that the code below looks at are fields.
\<close>

section \<open>Samples\<close>

datatype status = St_Pending | St_Completed | St_Truncated | St_Aborted | St_Failed

datatype reward = Score real | Scores "(string \<times> real) list"

record step_meta =
  \<comment> \<open>\<open>metadata["step_wise"]\<close>\<close>
  me_scores_with_outcome :: "real list option"
  me_scores :: "real list option"
  me_spans :: "(int \<times> int) option list"
  me_indices :: "int list option"

record 'p sample =
  sm_group_index :: "int option"
  sm_index :: "nat option"
  sm_prompt :: 'p
  sm_tokens :: "int list"
  sm_response :: string
  sm_response_length :: nat
  sm_reward :: "reward option"
  sm_loss_mask :: "int list option"
  sm_weight_versions :: "string list"
  sm_rollout_log_probs :: "real list option"
  sm_remove_sample :: bool
  sm_status :: status
  sm_cached_tokens :: nat
  sm_total_prompt_tokens :: nat
  sm_start_rollout_id :: "int option"
  sm_step_wise :: "step_meta option"

definition new_sample :: "'p \<Rightarrow> 'p sample" where
  "new_sample p = \<lparr>sm_group_index = None, sm_index = None, sm_prompt = p, sm_tokens = [], sm_response = [], sm_response_length = 0,
     sm_reward = None, sm_loss_mask = None, sm_weight_versions = [], sm_rollout_log_probs = None, sm_remove_sample = False,
     sm_status = St_Pending, sm_cached_tokens = 0, sm_total_prompt_tokens = 0, sm_start_rollout_id = None, sm_step_wise = None\<rparr>"

definition get_reward_value :: "string option \<Rightarrow> 'p sample \<Rightarrow> reward option res" where
  "get_reward_value reward_key s =
     (case (reward_key, sm_reward s) of
        (Some k, Some (Scores d)) \<Rightarrow>
          (if k = [] then Inr (sm_reward s)
           else case map_of d k of None \<Rightarrow> Inl (KeyError k) | Some v \<Rightarrow> Inr (Some (Score v)))
      | _ \<Rightarrow> Inr (sm_reward s))"

section \<open>The data set\<close>

record 'p dataset =
  da_origin :: "'p sample list"
  da_samples :: "'p sample list"
  da_epoch_id :: int
  da_seed :: int

definition new_dataset :: "'p sample list \<Rightarrow> int \<Rightarrow> 'p dataset" where
  "new_dataset origin seed = \<lparr>da_origin = origin, da_samples = origin, da_epoch_id = -1, da_seed = seed\<rparr>"

definition shuffle :: "(int \<Rightarrow> nat \<Rightarrow> nat list) \<Rightarrow> int \<Rightarrow> 'p dataset \<Rightarrow> 'p dataset" where
  "shuffle perm new_epoch_id d =
     (if da_epoch_id d = new_epoch_id then d
      else d\<lparr>da_samples := map (\<lambda>i. da_origin d ! i) (perm (da_seed d + new_epoch_id) (length (da_samples d))),
             da_epoch_id := new_epoch_id\<rparr>)"

section \<open>The data source\<close>

record source_args =
  sa_rollout_global_dataset :: bool
  sa_rollout_shuffle :: bool
  sa_n_samples_per_prompt :: nat

record 'p source =
  so_epoch_id :: nat
  so_sample_group_index :: nat
  so_sample_index :: nat
  so_sample_offset :: nat
  so_metadata :: "(string \<times> string) list"
  so_dataset :: "'p dataset option"
  so_buffer :: "'p sample list list"

definition new_source :: "source_args \<Rightarrow> (int \<Rightarrow> nat \<Rightarrow> nat list) \<Rightarrow> 'p sample list \<Rightarrow> int \<Rightarrow> 'p source" where
  "new_source args perm prompts seed =
     \<lparr>so_epoch_id = 0, so_sample_group_index = 0, so_sample_index = 0, so_sample_offset = 0, so_metadata = [],
      so_dataset = (if sa_rollout_global_dataset args
                    then Some ((if sa_rollout_shuffle args then shuffle perm 0 else id) (new_dataset prompts seed)) else None),
      so_buffer = []\<rparr>"

definition next_prompts :: "source_args \<Rightarrow> (int \<Rightarrow> nat \<Rightarrow> nat list) \<Rightarrow> 'p sample \<Rightarrow> nat \<Rightarrow> 'p source \<Rightarrow> 'p sample list \<times> 'p source" where
  \<comment> \<open>\<open>blank\<close>: \<open>Sample()\<close>\<close>
  "next_prompts args perm blank num_samples s =
     (case so_dataset s of
        None \<Rightarrow> (replicate num_samples blank, s)
      | Some d \<Rightarrow>
          (if so_sample_offset s + num_samples \<le> length (da_samples d) then
             (take num_samples (drop (so_sample_offset s) (da_samples d)), s\<lparr>so_sample_offset := so_sample_offset s + num_samples\<rparr>)
           else
             (let rest = drop (so_sample_offset s) (da_samples d);
                  left = num_samples - length rest;
                  epoch = so_epoch_id s + 1;
                  d' = (if sa_rollout_shuffle args then shuffle perm (int epoch) d else d)
              in (rest @ take left (da_samples d'), s\<lparr>so_epoch_id := epoch, so_dataset := Some d', so_sample_offset := left\<rparr>))))"

fun make_group :: "nat \<Rightarrow> 'p sample \<Rightarrow> 'p source \<Rightarrow> 'p sample list \<times> 'p source" where
  "make_group 0 p s = ([], s)"
| "make_group (Suc n) p s =
     (let x = p\<lparr>sm_group_index := Some (int (so_sample_group_index s)), sm_index := Some (so_sample_index s)\<rparr>
      in case make_group n p (s\<lparr>so_sample_index := so_sample_index s + 1\<rparr>) of (g, s') \<Rightarrow> (x # g, s'))"

fun make_groups :: "nat \<Rightarrow> 'p sample list \<Rightarrow> 'p source \<Rightarrow> 'p sample list list \<times> 'p source" where
  "make_groups n [] s = ([], s)"
| "make_groups n (p # ps) s =
     (case make_group n p s of
        (g, s1) \<Rightarrow> (case make_groups n ps (s1\<lparr>so_sample_group_index := so_sample_group_index s1 + 1\<rparr>) of (gs, s2) \<Rightarrow> (g # gs, s2)))"

definition get_dataset_samples ::
  "source_args \<Rightarrow> (int \<Rightarrow> nat \<Rightarrow> nat list) \<Rightarrow> 'p sample \<Rightarrow> nat \<Rightarrow> 'p source \<Rightarrow> 'p sample list list \<times> 'p source" where
  \<comment> \<open>\<open>RolloutDataSource.get_samples\<close>\<close>
  "get_dataset_samples args perm blank num_samples s =
     (case next_prompts args perm blank num_samples s of (ps, s') \<Rightarrow> make_groups (sa_n_samples_per_prompt args) ps s')"

record saved_state =
  sv_sample_offset :: "nat option"
  sv_epoch_id :: "nat option"
  sv_sample_group_index :: "nat option"
  sv_sample_index :: "nat option"
  sv_metadata :: "(string \<times> string) list option"

definition save :: "source_args \<Rightarrow> 'i \<Rightarrow> 'p source \<Rightarrow> ('i \<times> saved_state) list \<Rightarrow> ('i \<times> saved_state) list" where
  "save args rollout_id s files =
     (if \<not> sa_rollout_global_dataset args then files
      else dset rollout_id \<lparr>sv_sample_offset = Some (so_sample_offset s), sv_epoch_id = Some (so_epoch_id s),
             sv_sample_group_index = Some (so_sample_group_index s), sv_sample_index = Some (so_sample_index s),
             sv_metadata = Some (so_metadata s)\<rparr> files)"

definition load :: "source_args \<Rightarrow> (int \<Rightarrow> nat \<Rightarrow> nat list) \<Rightarrow> 'i \<Rightarrow> ('i \<times> saved_state) list option \<Rightarrow> 'p source \<Rightarrow> 'p source" where
  \<comment> \<open>\<open>files\<close>: the directory \<open>args.load\<close> names, if any\<close>
  "load args perm rollout_id files s =
     (if \<not> sa_rollout_global_dataset args then s
      else case files of
             None \<Rightarrow> s
           | Some fs \<Rightarrow>
               (case map_of fs rollout_id of
                  None \<Rightarrow> s
                | Some v \<Rightarrow>
                    (let epoch = (case sv_epoch_id v of None \<Rightarrow> 0 | Some e \<Rightarrow> e)
                     in s\<lparr>so_sample_offset := (case sv_sample_offset v of None \<Rightarrow> 0 | Some n \<Rightarrow> n), so_epoch_id := epoch,
                          so_sample_group_index := (case sv_sample_group_index v of None \<Rightarrow> 0 | Some n \<Rightarrow> n),
                          so_sample_index := (case sv_sample_index v of None \<Rightarrow> 0 | Some n \<Rightarrow> n),
                          so_metadata := (case sv_metadata v of None \<Rightarrow> [] | Some m \<Rightarrow> m),
                          so_dataset := (if sa_rollout_shuffle args then map_option (shuffle perm (int epoch)) (so_dataset s) else so_dataset s)\<rparr>)))"

section \<open>The buffer\<close>

definition pop_first :: "'p sample list list \<Rightarrow> nat \<Rightarrow> 'p sample list list \<times> 'p sample list list" where
  "pop_first buffer num_samples = (let n = min (length buffer) num_samples in (take n buffer, drop n buffer))"

definition get_samples_from_buffer ::
  "('p sample list list \<Rightarrow> nat \<Rightarrow> 'p sample list list \<times> 'p sample list list) \<Rightarrow> nat \<Rightarrow> 'p source \<Rightarrow> 'p sample list list \<times> 'p source" where
  "get_samples_from_buffer buffer_filter num_samples s =
     (if so_buffer s = [] \<or> num_samples = 0 then ([], s)
      else case buffer_filter (so_buffer s) num_samples of (gs, rest) \<Rightarrow> (gs, s\<lparr>so_buffer := rest\<rparr>))"

definition get_samples ::
  "source_args \<Rightarrow> (int \<Rightarrow> nat \<Rightarrow> nat list) \<Rightarrow> ('p sample list list \<Rightarrow> nat \<Rightarrow> 'p sample list list \<times> 'p sample list list) \<Rightarrow>
   'p sample \<Rightarrow> nat \<Rightarrow> 'p source \<Rightarrow> 'p sample list list \<times> 'p source" where
  \<comment> \<open>a buffer filter returns at most as many groups as it is asked for\<close>
  "get_samples args perm buffer_filter blank num_samples s =
     (case get_samples_from_buffer buffer_filter num_samples s of
        (gs, s1) \<Rightarrow>
          (if num_samples = length gs then (gs, s1)
           else case get_dataset_samples args perm blank (num_samples - length gs) s1 of (gs', s2) \<Rightarrow> (gs @ gs', s2)))"

fun add_groups :: "nat \<Rightarrow> 'p sample list list \<Rightarrow> 'p source \<Rightarrow> unit res \<times> 'p source" where
  \<comment> \<open>the groups before one of the wrong size stay in the buffer\<close>
  "add_groups n [] s = (Inr (), s)"
| "add_groups n (g # gs) s =
     (if length g \<noteq> n then (Inl (AssertionError ''length of a group''), s)
      else add_groups n gs (s\<lparr>so_buffer := so_buffer s @ [g]\<rparr>))"

definition add_samples :: "source_args \<Rightarrow> 'p sample list list \<Rightarrow> 'p source \<Rightarrow> unit res \<times> 'p source" where
  "add_samples args samples s = add_groups (sa_n_samples_per_prompt args) samples s"

definition update_metadata :: "(string \<times> string) list \<Rightarrow> 'p source \<Rightarrow> 'p source" where
  "update_metadata m s = s\<lparr>so_metadata := fold (\<lambda>(k, v). dset k v) m (so_metadata s)\<rparr>"

section \<open>The stream of prompts\<close>

text \<open>The prompts an endless walk would meet: epoch after epoch, each in its own order.\<close>

definition epoch_order :: "source_args \<Rightarrow> (int \<Rightarrow> nat \<Rightarrow> nat list) \<Rightarrow> 'p sample list \<Rightarrow> int \<Rightarrow> nat \<Rightarrow> 'p sample list" where
  "epoch_order args perm prompts seed e =
     (if sa_rollout_shuffle args then map (\<lambda>i. prompts ! i) (perm (seed + int e) (length prompts)) else prompts)"

definition stream_at :: "source_args \<Rightarrow> (int \<Rightarrow> nat \<Rightarrow> nat list) \<Rightarrow> 'p sample list \<Rightarrow> int \<Rightarrow> nat \<Rightarrow> 'p sample" where
  "stream_at args perm prompts seed j = epoch_order args perm prompts seed (j div length prompts) ! (j mod length prompts)"

definition source_ok :: "source_args \<Rightarrow> (int \<Rightarrow> nat \<Rightarrow> nat list) \<Rightarrow> 'p sample list \<Rightarrow> int \<Rightarrow> 'p source \<Rightarrow> bool" where
  \<comment> \<open>the data set is in the order of its epoch, the offset inside it\<close>
  "source_ok args perm prompts seed s =
     (case so_dataset s of
        None \<Rightarrow> False
      | Some d \<Rightarrow> da_origin d = prompts \<and> da_seed d = seed \<and> da_samples d = epoch_order args perm prompts seed (so_epoch_id s) \<and>
          so_sample_offset s \<le> length prompts \<and> (if sa_rollout_shuffle args then da_epoch_id d = int (so_epoch_id s) else da_epoch_id d = -1))"

definition position :: "'p sample list \<Rightarrow> 'p source \<Rightarrow> nat" where
  "position prompts s = so_epoch_id s * length prompts + so_sample_offset s"

definition served_group :: "source_args \<Rightarrow> (int \<Rightarrow> nat \<Rightarrow> nat list) \<Rightarrow> 'p sample list \<Rightarrow> int \<Rightarrow> nat \<Rightarrow> 'p sample list" where
  \<comment> \<open>the group numbered i is made of the prompt at position i\<close>
  "served_group args perm prompts seed i =
     map (\<lambda>j. (stream_at args perm prompts seed i)\<lparr>sm_group_index := Some (int i), sm_index := Some (i * sa_n_samples_per_prompt args + j)\<rparr>)
       [0..<sa_n_samples_per_prompt args]"

fun run_requests ::
  "source_args \<Rightarrow> (int \<Rightarrow> nat \<Rightarrow> nat list) \<Rightarrow> 'p sample \<Rightarrow> nat list \<Rightarrow> 'p source \<Rightarrow> 'p sample list list \<times> 'p source" where
  "run_requests args perm blank [] s = ([], s)"
| "run_requests args perm blank (n # ns) s =
     (case get_samples args perm pop_first blank n s of
        (gs, s1) \<Rightarrow> (case run_requests args perm blank ns s1 of (gs', s2) \<Rightarrow> (gs @ gs', s2)))"

definition permutes :: "(int \<Rightarrow> nat \<Rightarrow> nat list) \<Rightarrow> bool" where
  "permutes perm = (\<forall>seed n. mset (perm seed n) = mset [0..<n])"

lemma epoch_order_mset: "permutes perm \<Longrightarrow> mset (epoch_order args perm prompts seed e) = mset prompts"
proof (cases "sa_rollout_shuffle args")
  case True
  assume "permutes perm"
  then have "mset (map (\<lambda>i. prompts ! i) (perm (seed + int e) (length prompts))) = image_mset (\<lambda>i. prompts ! i) (mset [0..<length prompts])"
    by (simp only: permutes_def mset_map)
  also have "\<dots> = mset prompts" by (metis map_nth mset_map)
  finally show ?thesis using True by (simp add: epoch_order_def)
qed (simp add: epoch_order_def)

lemma length_epoch_order: "permutes perm \<Longrightarrow> length (epoch_order args perm prompts seed e) = length prompts"
  using epoch_order_mset by (metis size_mset)

lemma make_group_form:
  "make_group n p s = (map (\<lambda>j. p\<lparr>sm_group_index := Some (int (so_sample_group_index s)), sm_index := Some (so_sample_index s + j)\<rparr>) [0..<n],
     s\<lparr>so_sample_index := so_sample_index s + n\<rparr>)"
proof (induction n arbitrary: s)
  case (Suc n)
  have "[0..<Suc n] = 0 # map Suc [0..<n]" by (simp add: upt_conv_Cons map_Suc_upt del: upt_Suc)
  then show ?case using Suc by (simp add: Let_def comp_def del: upt_Suc)
qed simp

lemma make_groups_form:
  assumes "so_sample_index s = n * so_sample_group_index s"
  shows "make_groups n ps s = (map (\<lambda>i. map (\<lambda>j. (ps ! i)\<lparr>sm_group_index := Some (int (so_sample_group_index s + i)),
        sm_index := Some ((so_sample_group_index s + i) * n + j)\<rparr>) [0..<n]) [0..<length ps],
     s\<lparr>so_sample_group_index := so_sample_group_index s + length ps, so_sample_index := n * (so_sample_group_index s + length ps)\<rparr>)"
  using assms
proof (induction ps arbitrary: s)
  case (Cons p ps)
  let ?s = "s\<lparr>so_sample_index := so_sample_index s + n, so_sample_group_index := so_sample_group_index s + 1\<rparr>"
  have "so_sample_index ?s = n * so_sample_group_index ?s" using Cons.prems by simp
  note IH = Cons.IH [OF this]
  have "[0..<length (p # ps)] = 0 # map Suc [0..<length ps]" by (simp add: upt_conv_Cons map_Suc_upt del: upt_Suc)
  then show ?case using IH Cons.prems by (simp add: make_group_form comp_def algebra_simps del: upt_Suc)
qed simp

lemma shuffle_order:
  assumes "permutes perm" "sa_rollout_shuffle args" "da_origin d = prompts" "da_seed d = seed" "length (da_samples d) = length prompts"
    and "da_epoch_id d = int e \<Longrightarrow> da_samples d = epoch_order args perm prompts seed e"
  shows "da_samples (shuffle perm (int e) d) = epoch_order args perm prompts seed e" "da_origin (shuffle perm (int e) d) = prompts"
    "da_seed (shuffle perm (int e) d) = seed" "da_epoch_id (shuffle perm (int e) d) = int e"
  using assms by (auto simp: shuffle_def epoch_order_def)

lemma next_prompts_stream:
  assumes ok: "source_ok args perm prompts seed s" and perm: "permutes perm" and n: "n \<le> length prompts" "prompts \<noteq> []"
  obtains s' where "next_prompts args perm blank n s = (map (\<lambda>i. stream_at args perm prompts seed (position prompts s + i)) [0..<n], s')"
    "source_ok args perm prompts seed s'" "position prompts s' = position prompts s + n" "so_sample_group_index s' = so_sample_group_index s"
    "so_sample_index s' = so_sample_index s" "so_buffer s' = so_buffer s"
proof -
  let ?N = "length prompts" and ?o = "so_sample_offset s" and ?e = "so_epoch_id s"
  let ?order = "epoch_order args perm prompts seed"
  obtain d where d: "so_dataset s = Some d" "da_origin d = prompts" "da_seed d = seed" "da_samples d = ?order ?e" "?o \<le> ?N"
    "if sa_rollout_shuffle args then da_epoch_id d = int ?e else da_epoch_id d = -1"
    using ok by (auto simp: source_ok_def split: option.splits)
  note len = length_epoch_order [OF perm, of args prompts seed]
  have stream: "stream_at args perm prompts seed (e * ?N + j) = ?order e ! j" if "j < ?N" for e j
    using that n(2) by (simp add: stream_at_def)
  show ?thesis
  proof (cases "?o + n \<le> ?N")
    case True
    let ?s = "s\<lparr>so_sample_offset := ?o + n\<rparr>"
    have "take n (drop ?o (?order ?e)) = map (\<lambda>i. stream_at args perm prompts seed (position prompts s + i)) [0..<n]"
      by (rule nth_equalityI) (use True len stream in \<open>auto simp: position_def add.assoc\<close>)
    then show ?thesis using True d ok len
      by (intro that [of ?s]) (auto simp: next_prompts_def source_ok_def position_def)
  next
    case False
    let ?left = "n - (?N - ?o)"
    let ?d = "if sa_rollout_shuffle args then shuffle perm (int (?e + 1)) d else d"
    let ?s = "s\<lparr>so_epoch_id := ?e + 1, so_dataset := Some ?d, so_sample_offset := ?left\<rparr>"
    have d': "da_samples ?d = ?order (?e + 1)" "da_origin ?d = prompts" "da_seed ?d = seed"
      "if sa_rollout_shuffle args then da_epoch_id ?d = int (?e + 1) else da_epoch_id ?d = -1"
      using d shuffle_order [OF perm, of args d prompts seed "?e + 1"] len
      by (auto simp: epoch_order_def split: if_splits)
    have "drop ?o (?order ?e) @ take ?left (?order (?e + 1)) = map (\<lambda>i. stream_at args perm prompts seed (position prompts s + i)) [0..<n]"
    proof (rule nth_equalityI)
      show "length (drop ?o (?order ?e) @ take ?left (?order (?e + 1))) = length (map (\<lambda>i. stream_at args perm prompts seed (position prompts s + i)) [0..<n])"
        using False n(1) d(5) by (simp add: len)
      fix i
      assume "i < length (drop ?o (?order ?e) @ take ?left (?order (?e + 1)))"
      then have i: "i < n" using False n(1) d(5) by (simp add: len)
      show "(drop ?o (?order ?e) @ take ?left (?order (?e + 1))) ! i = map (\<lambda>i. stream_at args perm prompts seed (position prompts s + i)) [0..<n] ! i"
      proof (cases "?o + i < ?N")
        case True
        then show ?thesis using i stream [of "?o + i" ?e] by (auto simp: nth_append len position_def add.assoc)
      next
        case later: False
        have "?e * ?N + ?o + i = (?e + 1) * ?N + (?o + i - ?N)" using later by simp
        moreover have "?o + i - ?N < ?N" using i n(1) d(5) by linarith
        moreover have "i - (?N - ?o) = ?o + i - ?N" using later d(5) by simp
        ultimately show ?thesis using i later n(1) stream [of "?o + i - ?N" "?e + 1"] by (simp add: nth_append len position_def add.assoc)
      qed
    qed
    moreover have "position prompts ?s = position prompts s + n" using False d(5) by (simp add: position_def)
    moreover have "source_ok args perm prompts seed ?s" using d' n(1) by (auto simp: source_ok_def)
    moreover have "next_prompts args perm blank n s = (drop ?o (?order ?e) @ take ?left (?order (?e + 1)), ?s)"
      using False d(1,4) d'(1) by (cases "sa_rollout_shuffle args") (simp_all add: next_prompts_def Let_def len)
    ultimately show ?thesis by (intro that [of ?s]) auto
  qed
qed

lemma requests_from:
  assumes "source_ok args perm prompts seed s" "permutes perm" "prompts \<noteq> []" "\<And>n. n \<in> set ns \<Longrightarrow> n \<le> length prompts" "so_buffer s = []"
    and "position prompts s = so_sample_group_index s" "so_sample_index s = sa_n_samples_per_prompt args * so_sample_group_index s"
  shows "\<exists>s'. run_requests args perm blank ns s =
      (map (\<lambda>i. served_group args perm prompts seed (so_sample_group_index s + i)) [0..<sum_list ns], s') \<and>
    source_ok args perm prompts seed s' \<and> so_buffer s' = [] \<and> so_sample_group_index s' = so_sample_group_index s + sum_list ns \<and>
    position prompts s' = so_sample_group_index s' \<and> so_sample_index s' = sa_n_samples_per_prompt args * so_sample_group_index s'"
  using assms(1,4-7)
proof (induction ns arbitrary: s)
  case (Cons n ns)
  let ?k = "sa_n_samples_per_prompt args" and ?g = "so_sample_group_index s"
  have n: "n \<le> length prompts" using Cons.prems(2) by simp
  show ?case
  proof (cases "n = 0")
    case True
    then have "get_samples args perm pop_first blank n s = ([], s)" by (simp add: get_samples_def get_samples_from_buffer_def)
    with True Cons.IH [of s] Cons.prems show ?thesis by auto
  next
    case False
    obtain s1 where s1: "next_prompts args perm blank n s = (map (\<lambda>i. stream_at args perm prompts seed (?g + i)) [0..<n], s1)"
      "source_ok args perm prompts seed s1" "position prompts s1 = ?g + n" "so_sample_group_index s1 = ?g" "so_sample_index s1 = so_sample_index s" "so_buffer s1 = []"
      using next_prompts_stream [OF Cons.prems(1) assms(2) n assms(3)] Cons.prems(3,4) by metis
    let ?s2 = "s1\<lparr>so_sample_group_index := ?g + n, so_sample_index := ?k * (?g + n)\<rparr>"
    have "make_groups ?k (map (\<lambda>i. stream_at args perm prompts seed (?g + i)) [0..<n]) s1 = (map (\<lambda>i. served_group args perm prompts seed (?g + i)) [0..<n], ?s2)"
      using Cons.prems(5) s1(4,5) by (subst make_groups_form) (auto simp: served_group_def)
    then have get: "get_samples args perm pop_first blank n s = (map (\<lambda>i. served_group args perm prompts seed (?g + i)) [0..<n], ?s2)"
      using s1(1) Cons.prems(3) False by (simp add: get_samples_def get_samples_from_buffer_def get_dataset_samples_def)
    have "source_ok args perm prompts seed ?s2" "position prompts ?s2 = ?g + n" using s1(2,3) by (auto simp: source_ok_def position_def split: option.splits)
    then obtain s3 where s3: "run_requests args perm blank ns ?s2 = (map (\<lambda>i. served_group args perm prompts seed (?g + n + i)) [0..<sum_list ns], s3)"
      "source_ok args perm prompts seed s3" "so_buffer s3 = []" "so_sample_group_index s3 = ?g + n + sum_list ns"
      "position prompts s3 = so_sample_group_index s3" "so_sample_index s3 = ?k * so_sample_group_index s3"
      using Cons.IH [of ?s2] Cons.prems(2) s1(6) by auto
    have "[0..<n + sum_list ns] = [0..<n] @ map (\<lambda>i. n + i) [0..<sum_list ns]"
      using upt_add_eq_append [of 0 n "sum_list ns"] map_add_upt [of n "sum_list ns"] by (simp add: add.commute)
    with get s3 show ?thesis by (simp add: comp_def add.assoc)
  qed
qed auto

lemma new_source_ok:
  assumes "permutes perm" "sa_rollout_global_dataset args"
  shows "source_ok args perm prompts seed (new_source args perm prompts seed)"
  using shuffle_order [OF assms(1), of args "new_dataset prompts seed" prompts seed 0] assms(2)
  by (auto simp: new_source_def source_ok_def new_dataset_def epoch_order_def)


definition plain_args :: source_args where
  "plain_args = \<lparr>sa_rollout_global_dataset = True, sa_rollout_shuffle = True, sa_n_samples_per_prompt = 2\<rparr>"

definition backwards :: "int \<Rightarrow> nat \<Rightarrow> nat list" where
  "backwards seed n = (if even seed then [0..<n] else rev [0..<n])"


text \<open>A request larger than the rest of an epoch and a whole further one is not filled, and leaves the offset
  beyond the data set, so that the next request gets nothing from the epoch it was in.\<close>

lemma large_request_falls_short:
  "case get_samples plain_args backwards pop_first (new_sample CHR ''x'') 7 (new_source plain_args backwards (map new_sample ''abc'') 0) of
     (gs, s) \<Rightarrow> length gs = 6 \<and> so_sample_offset s = 4 \<and> so_epoch_id s = 1"
  by code_simp

text \<open>C35. A source that is saved and loaded into a new process on the same data goes on as if it had not
  stopped, except that the groups in its buffer are gone: they are not saved.\<close>

theorem save_load_roundtrip:
  assumes "permutes perm" "sa_rollout_global_dataset args" "source_ok args perm prompts seed s"
  shows "load args perm rollout_id (Some (save args rollout_id s files)) (new_source args perm prompts seed) = s\<lparr>so_buffer := []\<rparr>"
proof -
  obtain d where d: "so_dataset s = Some d" "da_origin d = prompts" "da_seed d = seed" "da_samples d = epoch_order args perm prompts seed (so_epoch_id s)"
    "if sa_rollout_shuffle args then da_epoch_id d = int (so_epoch_id s) else da_epoch_id d = -1"
    using assms(3) by (auto simp: source_ok_def split: option.splits)
  let ?new = "(if sa_rollout_shuffle args then shuffle perm 0 else id) (new_dataset prompts seed)"
  have new: "da_origin ?new = prompts" "da_seed ?new = seed" "length (da_samples ?new) = length prompts"
    "sa_rollout_shuffle args \<Longrightarrow> da_epoch_id ?new = 0 \<and> da_samples ?new = epoch_order args perm prompts seed 0"
    using shuffle_order [OF assms(1), of args "new_dataset prompts seed" prompts seed 0] length_epoch_order [OF assms(1), of args prompts seed 0]
    by (auto simp: new_dataset_def)
  have "(if sa_rollout_shuffle args then shuffle perm (int (so_epoch_id s)) ?new else ?new) = d"
  proof (cases "sa_rollout_shuffle args")
    case True
    have "da_samples ?new = epoch_order args perm prompts seed (so_epoch_id s)" if "da_epoch_id ?new = int (so_epoch_id s)"
      using new(4) [OF True] that by simp
    from shuffle_order [OF assms(1) True new(1-3) this] True d show ?thesis by (simp del: id_apply)
  next
    case False
    with d show ?thesis by (simp add: new_dataset_def epoch_order_def)
  qed
  then have "so_dataset s = (if sa_rollout_shuffle args then Some (shuffle perm (int (so_epoch_id s)) ?new) else Some ?new)" using d(1) by auto
  moreover have "so_dataset (new_source args perm prompts seed) = Some ?new" "so_buffer (new_source args perm prompts seed) = []"
    using assms(2) by (simp_all add: new_source_def)
  moreover have "map_of (save args rollout_id s files) rollout_id = Some \<lparr>sv_sample_offset = Some (so_sample_offset s), sv_epoch_id = Some (so_epoch_id s),
      sv_sample_group_index = Some (so_sample_group_index s), sv_sample_index = Some (so_sample_index s), sv_metadata = Some (so_metadata s)\<rparr>"
    using assms(2) by (simp add: save_def dget_dset)
  ultimately show ?thesis using assms(2) unfolding load_def by (cases s; cases "sa_rollout_shuffle args") (simp_all add: new_source_def Let_def)
qed

lemma save_load_roundtrip_witness:
  "let source = new_source plain_args backwards (map new_sample ''abc'') 0;
       s = snd (run_requests plain_args backwards (new_sample CHR ''x'') [2, 2] source)
   in load plain_args backwards 7 (Some (save plain_args 7 s [])) source = s \<and> so_sample_group_index s = 4"
proof -
  let ?source = "new_source plain_args backwards (map new_sample ''abc'') 0"
  have perm: "permutes backwards" by (auto simp: permutes_def backwards_def)
  have glob: "sa_rollout_global_dataset plain_args" by (simp add: plain_args_def)
  obtain s where s: "snd (run_requests plain_args backwards (new_sample CHR ''x'') [2, 2] ?source) = s"
    "source_ok plain_args backwards (map new_sample ''abc'') 0 s" "so_buffer s = []" "so_sample_group_index s = 4"
    using requests_from [OF new_source_ok [OF perm glob, of "map new_sample ''abc''" 0] perm, of "[2, 2]" "new_sample CHR ''x''"]
    by (auto simp: new_source_def position_def)
  have "s\<lparr>so_buffer := []\<rparr> = s" using s(3) by (cases s) simp
  then show ?thesis using save_load_roundtrip [OF perm glob s(2), of 7 "[]"] s(1,4) by (simp add: Let_def)
qed

end
