(* ===== verification/Rollout_Driver.thy ===== *)
theory Rollout_Driver
  imports Data_Source
begin

text \<open>
  The rollout loop (slime/slime/rollout/sglang_rollout.py): the window of groups in flight, the tasks,
  one per sample, the loop that refills the window, waits for tasks and gathers their samples into
  groups, the dynamic filter, and what abort hands back to the data source.  A wait returns some of the
  pending tasks; which ones, and what each task returns, is the environment's choice, so a round of
  the loop is a step relation.  Requests to the engines, progress bars and logging are left out.
\<close>

section \<open>The window of groups in flight\<close>

record window_env =
  \<comment> \<open>the environment variables\<close>
  we_online_scheduler :: bool
  we_multiplier :: real
  we_extra :: int
  we_cap :: int

definition online_scheduler_pending_group_target :: "window_env \<Rightarrow> int \<Rightarrow> int" where
  "online_scheduler_pending_group_target env target_data_size =
     (let target = max 1 target_data_size
      in if \<not> we_online_scheduler env then target
         else
           (let multiplier = max 1 (we_multiplier env);
                extra = max 0 (we_extra env);
                p1 = max target \<lceil>of_int target * multiplier\<rceil>;
                p2 = max p1 (target + extra);
                p3 = (if 0 < we_cap env then min p2 (we_cap env) else p2)
            in max target p3))"

definition effective_pending_group_target :: "window_env \<Rightarrow> int \<Rightarrow> int \<Rightarrow> bool \<Rightarrow> int" where
  "effective_pending_group_target env over_sampling_batch_size target_data_size rolling_refill_enabled =
     (let pending_group_target = online_scheduler_pending_group_target env target_data_size;
          requested_group_window = max 1 over_sampling_batch_size
      in if rolling_refill_enabled then max pending_group_target requested_group_window
         else if requested_group_window \<le> target_data_size then target_data_size
         else pending_group_target)"

section \<open>Tasks\<close>

record 'p task =
  ta_sample :: "'p sample"
  ta_sampling_seed :: "int option"

record 'p generate_state =
  ge_remaining_batch_size :: int
  ge_pendings :: "'p task list"
  ge_aborted :: bool

definition reset_state :: "'p generate_state" where
  "reset_state = \<lparr>ge_remaining_batch_size = 0, ge_pendings = [], ge_aborted = False\<rparr>"

definition bfs_tasks :: "int list option \<Rightarrow> 'p sample list list \<Rightarrow> 'p task list" where
  \<comment> \<open>\<open>seeds\<close>: with deterministic inference, the seed of each sample of a group\<close>
  "bfs_tasks seeds samples =
     concat (map (\<lambda>k. concat (map (\<lambda>g. if k < length g then [\<lparr>ta_sample = g ! k, ta_sampling_seed = map_option (\<lambda>xs. xs ! k) seeds\<rparr>] else []) samples))
       [0..<Max (insert 0 (set (map length samples)))])"

definition submit_generate_tasks_bfs :: "int list option \<Rightarrow> 'p sample list list \<Rightarrow> 'p generate_state \<Rightarrow> 'p generate_state" where
  "submit_generate_tasks_bfs seeds samples st =
     st\<lparr>ge_pendings := ge_pendings st @ bfs_tasks seeds samples,
        ge_remaining_batch_size := ge_remaining_batch_size st + int (length samples)\<rparr>"

section \<open>One rollout\<close>

record rollout_args =
  ro_rollout_batch_size :: nat
  ro_over_sampling_batch_size :: nat
  ro_n_samples_per_prompt :: nat
  ro_rolling_refill :: bool
  ro_pending_group_target :: int
  ro_seeds :: "int list option"

type_synonym ('w, 'p) data_fn = "nat \<Rightarrow> 'w \<Rightarrow> 'p sample list list \<times> 'w"

record ('p, 'w) driver =
  dr_data :: "'p sample list list"
  dr_all_data :: "'p sample list list"
  dr_pending_groups :: "(int \<times> 'p sample list) list"
  dr_drops :: "(string \<times> nat) list"
  dr_state :: "'p generate_state"
  dr_source :: 'w
  dr_do_print :: bool

definition start_rollout :: "'w \<Rightarrow> ('p, 'w) driver" where
  "start_rollout w = \<lparr>dr_data = [], dr_all_data = [], dr_pending_groups = [], dr_drops = [], dr_state = reset_state, dr_source = w, dr_do_print = True\<rparr>"

definition refill_size :: "rollout_args \<Rightarrow> int \<Rightarrow> nat" where
  "refill_size args remaining =
     (if ro_rolling_refill args then nat (min (ro_pending_group_target args - remaining) (int (ro_over_sampling_batch_size args)))
      else ro_over_sampling_batch_size args)"

partial_function (option) refill_pending_groups ::
  "rollout_args \<Rightarrow> ('w, 'p) data_fn \<Rightarrow> nat \<Rightarrow> 'p generate_state \<Rightarrow> 'w \<Rightarrow> ('p generate_state \<times> 'w) option" where
  "refill_pending_groups args source have_groups st w =
     (if have_groups < ro_rollout_batch_size args \<and> ge_remaining_batch_size st < ro_pending_group_target args then
        (case source (refill_size args (ge_remaining_batch_size st)) w of
           (samples, w') \<Rightarrow> refill_pending_groups args source have_groups (submit_generate_tasks_bfs (ro_seeds args) samples st) w')
      else Some (st, w))"

definition drop_reason :: "string option \<Rightarrow> (string \<times> nat) list \<Rightarrow> (string \<times> nat) list" where
  "drop_reason reason d =
     (case reason of None \<Rightarrow> d | Some r \<Rightarrow> if r = [] then d else dset r ((case map_of d r of None \<Rightarrow> 0 | Some n \<Rightarrow> n) + 1) d)"

definition order_key :: "'p sample \<Rightarrow> nat" where
  \<comment> \<open>samples of the data source carry an index\<close>
  "order_key x = (case sm_index x of None \<Rightarrow> 0 | Some n \<Rightarrow> n)"

fun set_rewards :: "'p sample list \<Rightarrow> reward list \<Rightarrow> 'p sample list" where
  "set_rewards (x # xs) (r # rs) = x\<lparr>sm_reward := Some r\<rparr> # set_rewards xs rs"
| "set_rewards xs _ = xs"

definition rated_group :: "('p sample list \<Rightarrow> reward list option) \<Rightarrow> 'p sample list \<Rightarrow> 'p sample list" where
  \<comment> \<open>\<open>group_rm\<close>: the rewards of a group, if rewards are given per group\<close>
  "rated_group group_rm g = (case group_rm g of None \<Rightarrow> g | Some rs \<Rightarrow> set_rewards g rs)"

definition finish_group ::
  "rollout_args \<Rightarrow> ('p sample list \<Rightarrow> reward list option) \<Rightarrow> ('p sample list \<Rightarrow> bool \<times> string option) \<Rightarrow> 'p sample list \<Rightarrow> ('p, 'w) driver \<Rightarrow> ('p, 'w) driver" where
  \<comment> \<open>\<open>dynamic_filter\<close>: keep and reason\<close>
  "finish_group args group_rm dynamic_filter g d =
     (let group = rated_group group_rm g; st = dr_state d;
          st' = (if ro_rolling_refill args then st\<lparr>ge_remaining_batch_size := ge_remaining_batch_size st - 1\<rparr> else st);
          d1 = d\<lparr>dr_all_data := dr_all_data d @ [group], dr_state := st'\<rparr>
      in if \<not> fst (dynamic_filter group) then d1\<lparr>dr_drops := drop_reason (snd (dynamic_filter group)) (dr_drops d)\<rparr>
         else if length (dr_data d) < ro_rollout_batch_size args then d1\<lparr>dr_data := dr_data d @ [group]\<rparr>
         else d1)"

definition absorb_sample ::
  "rollout_args \<Rightarrow> ('p sample list \<Rightarrow> reward list option) \<Rightarrow> ('p sample list \<Rightarrow> bool \<times> string option) \<Rightarrow> 'p sample \<Rightarrow> ('p, 'w) driver \<Rightarrow> ('p, 'w) driver res" where
  "absorb_sample args group_rm dynamic_filter x d =
     (case sm_group_index x of
        None \<Rightarrow> Inl (AssertionError ''group_index'')
      | Some i \<Rightarrow>
          (let group = (case map_of (dr_pending_groups d) i of None \<Rightarrow> [] | Some g \<Rightarrow> g) @ [x]
           in if length group \<noteq> ro_n_samples_per_prompt args then Inr (d\<lparr>dr_pending_groups := dset i group (dr_pending_groups d)\<rparr>)
              else Inr (finish_group args group_rm dynamic_filter (sort_key order_key group)
                          (d\<lparr>dr_pending_groups := dpop i (dset i group (dr_pending_groups d))\<rparr>))))"

fun absorb_samples ::
  "rollout_args \<Rightarrow> ('p sample list \<Rightarrow> reward list option) \<Rightarrow> ('p sample list \<Rightarrow> bool \<times> string option) \<Rightarrow> 'p sample list \<Rightarrow> ('p, 'w) driver \<Rightarrow> ('p, 'w) driver res" where
  "absorb_samples args rm flt [] d = Inr d"
| "absorb_samples args rm flt (x # xs) d =
     (case absorb_sample args rm flt x d of Inl e \<Rightarrow> Inl e | Inr d' \<Rightarrow> absorb_samples args rm flt xs d')"

fun absorb_results ::
  "rollout_args \<Rightarrow> ('p sample list \<Rightarrow> reward list option) \<Rightarrow> ('p sample list \<Rightarrow> bool \<times> string option) \<Rightarrow> 'p sample list res list \<Rightarrow> ('p, 'w) driver \<Rightarrow> ('p, 'w) driver res" where
  \<comment> \<open>\<open>task.result()\<close> raises what the task raised; a single sample counts as a list of one; the first result of
    all is printed, which fails on an empty list\<close>
  "absorb_results args rm flt [] d = Inr d"
| "absorb_results args rm flt (Inl e # rs) d = Inl e"
| "absorb_results args rm flt (Inr xs # rs) d =
     (if dr_do_print d \<and> xs = [] then Inl (OtherError ''IndexError'')
      else case absorb_samples args rm flt xs (d\<lparr>dr_do_print := False\<rparr>) of Inl e \<Rightarrow> Inl e | Inr d' \<Rightarrow> absorb_results args rm flt rs d')"

definition take_tasks :: "'p task list \<Rightarrow> 'p generate_state \<Rightarrow> 'p generate_state" where
  "take_tasks ts st = st\<lparr>ge_pendings := fold remove1 ts (ge_pendings st)\<rparr>"

inductive rollout_round ::
  "rollout_args \<Rightarrow> ('w, 'p) data_fn \<Rightarrow> ('p sample list \<Rightarrow> reward list option) \<Rightarrow> ('p sample list \<Rightarrow> bool \<times> string option) \<Rightarrow>
   ('p task \<Rightarrow> 'p sample list res \<Rightarrow> bool) \<Rightarrow> ('p, 'w) driver \<Rightarrow> ('p, 'w) driver res \<Rightarrow> bool"
  for args source rm flt answers where
  nothing_pending: "length (dr_data d) < ro_rollout_batch_size args \<Longrightarrow>
    refill_pending_groups args source (length (dr_data d)) (dr_state d) (dr_source d) = Some (st, w) \<Longrightarrow> ge_pendings st = [] \<Longrightarrow>
    rollout_round args source rm flt answers d (Inl (ValueError ''Set of Tasks/Futures is empty.''))"
| tasks_done: "length (dr_data d) < ro_rollout_batch_size args \<Longrightarrow>
    refill_pending_groups args source (length (dr_data d)) (dr_state d) (dr_source d) = Some (st, w) \<Longrightarrow>
    ts \<noteq> [] \<Longrightarrow> mset ts \<subseteq># mset (ge_pendings st) \<Longrightarrow> list_all2 answers ts rs \<Longrightarrow>
    rollout_round args source rm flt answers d (absorb_results args rm flt rs (d\<lparr>dr_state := take_tasks ts st, dr_source := w\<rparr>))"

section \<open>The end of a rollout\<close>

definition mark_partial :: "int \<Rightarrow> 'p sample \<Rightarrow> 'p sample" where
  "mark_partial rollout_id x =
     (if sm_response x \<noteq> [] \<and> sm_start_rollout_id x = None then x\<lparr>sm_start_rollout_id := Some rollout_id\<rparr> else x)"

definition abort_samples :: "bool \<Rightarrow> int \<Rightarrow> 'p sample list list \<Rightarrow> 'p sample list list" where
  \<comment> \<open>\<open>results\<close>: what the pending tasks return once the engines were told to abort\<close>
  "abort_samples partial_rollout rollout_id results =
     (if partial_rollout then map (map (mark_partial rollout_id)) results else [])"

definition finish_rollout :: "rollout_args \<Rightarrow> ('p, 'w) driver \<Rightarrow> ('p sample list list \<times> 'p sample list list) res" where
  "finish_rollout args d =
     (let first = (\<lambda>group. order_key (hd group))
      in if length (dr_data d) \<noteq> ro_rollout_batch_size args then Inl (AssertionError ''Got samples'')
         else Inr (sort_key first (dr_data d), sort_key first (dr_all_data d)))"

section \<open>The tasks of a batch of groups\<close>

lemma swap_sums: "(\<Sum>k \<leftarrow> ks. \<Sum>g \<leftarrow> gs. f k g) = (\<Sum>g \<leftarrow> gs. \<Sum>k \<leftarrow> ks. f k g)" for f :: "'a \<Rightarrow> 'b \<Rightarrow> 'c multiset"
  by (induction ks) (simp_all add: sum_list_addf)

lemma mset_concat_map: "mset (concat (map f xs)) = (\<Sum>x \<leftarrow> xs. mset (f x))"
  by (induction xs) simp_all

lemma list_by_index: "length g \<le> n \<Longrightarrow> concat (map (\<lambda>k. if k < length g then [g ! k] else []) [0..<n]) = g"
proof (induction n arbitrary: g)
  case (Suc n)
  show ?case
  proof (cases "length g \<le> n")
    case False
    then have len: "length g = Suc n" using Suc.prems by simp
    have low: "map (\<lambda>k. if k < Suc n then [g ! k] else []) [0..<n] = map (\<lambda>k. if k < n then [take n g ! k] else []) [0..<n]"
      by (rule map_cong) auto
    have "take n g @ [g ! n] = g" using len by (metis lessI take_Suc_conv_app_nth take_all order_refl)
    then show ?thesis using Suc.IH [of "take n g"] len by (simp add: low)
  qed (use Suc.IH [of g] in simp)
qed simp

lemma bfs_tasks_samples: "mset (map ta_sample (bfs_tasks seeds gs)) = mset (concat gs)"
proof -
  let ?M = "Max (insert 0 (set (map length gs)))"
  have le: "length g \<le> ?M" if "g \<in> set gs" for g using that by simp
  have "mset (map ta_sample (bfs_tasks seeds gs)) = (\<Sum>k \<leftarrow> [0..<?M]. \<Sum>g \<leftarrow> gs. mset (if k < length g then [g ! k] else []))"
    by (simp add: bfs_tasks_def map_concat mset_concat_map comp_def if_distrib [of "map ta_sample"] if_distrib [of mset] cong: if_cong)
  also have "\<dots> = (\<Sum>g \<leftarrow> gs. \<Sum>k \<leftarrow> [0..<?M]. mset (if k < length g then [g ! k] else []))" by (rule swap_sums)
  also have "\<dots> = (\<Sum>g \<leftarrow> gs. mset g)"
    by (rule arg_cong [where f = sum_list], rule map_cong) (simp_all add: mset_concat_map [symmetric] list_by_index le)
  finally show ?thesis by (simp add: mset_concat sum_mset_sum_list [symmetric])
qed

section \<open>The contract of the data source\<close>

definition numbered :: "nat \<Rightarrow> 'p sample \<Rightarrow> bool" where
  "numbered k x = (sm_index x \<noteq> None \<and> sm_group_index x = Some (int (order_key x div k)))"

definition block :: "nat \<Rightarrow> nat \<Rightarrow> nat list" where
  \<comment> \<open>the indices of the samples of group i\<close>
  "block k i = [i * k..<Suc i * k]"

lemma block_div: "0 < k \<Longrightarrow> n \<in> set (block k i) \<Longrightarrow> n div k = i"
  by (auto simp: block_def mult.commute intro!: div_nat_eqI)

text \<open>\<open>valid w m\<close>: the source is in order and its next group is number m.\<close>

locale group_source =
  fixes source :: "('w, 'p) data_fn" and k :: nat and limit :: nat and valid :: "'w \<Rightarrow> nat \<Rightarrow> bool"
  assumes group_size: "valid w m \<Longrightarrow> 0 < k"
    and serves: "valid w m \<Longrightarrow> n \<le> limit \<Longrightarrow> \<exists>gs w'. source n w = (gs, w') \<and> valid w' (m + n) \<and>
      map (map order_key) gs = map (block k) [m..<m + n] \<and> (\<forall>x \<in> set (concat gs). numbered k x)"

section \<open>Every sample is in one place\<close>

text \<open>What a task gives: \<open>f t\<close> is the list of samples it returns, or what it raises.\<close>

definition own_samples :: "'p task \<Rightarrow> 'p sample list res \<Rightarrow> bool" where
  \<comment> \<open>\<open>generate_and_rm\<close>: the sample of the task, grown, or copies of it, one for each step\<close>
  "own_samples t r = (case r of Inl e \<Rightarrow> True
     | Inr xs \<Rightarrow> \<forall>x \<in> set xs. sm_index x \<noteq> None \<and> sm_group_index x = sm_group_index (ta_sample t))"

definition answered :: "('p task \<Rightarrow> 'p sample list res) \<Rightarrow> 'p task list \<Rightarrow> 'p sample list" where
  "answered f ts = concat (map (\<lambda>t. case f t of Inl e \<Rightarrow> [] | Inr xs \<Rightarrow> xs) ts)"

definition task_key :: "'p task \<Rightarrow> nat" where
  "task_key t = order_key (ta_sample t)"

definition unrated :: "'p sample \<Rightarrow> 'p sample" where
  \<comment> \<open>what is left of a sample when the reward of its group is taken off\<close>
  "unrated x = x\<lparr>sm_reward := None\<rparr>"

definition samples_in :: "'p sample list list \<Rightarrow> 'p sample multiset" where
  "samples_in gs = mset (map unrated (concat gs))"

definition gathered :: "('p, 'w) driver \<Rightarrow> 'p sample multiset" where
  "gathered d = samples_in (map snd (dr_pending_groups d)) + samples_in (dr_all_data d)"

definition entry_ok :: "nat \<Rightarrow> int \<times> 'p sample list \<Rightarrow> bool" where
  "entry_ok k e = (length (snd e) < k \<and> (\<forall>x \<in> set (snd e). sm_group_index x = Some (fst e)))"

definition finished_group :: "nat \<Rightarrow> 'p sample list \<Rightarrow> bool" where
  "finished_group k g = (length g = k \<and> (\<exists>i. \<forall>x \<in> set g. sm_group_index x = Some i) \<and> sorted (map order_key g))"

definition tasks_inv :: "nat \<Rightarrow> nat \<Rightarrow> nat \<Rightarrow> 'p task list \<Rightarrow> bool" where
  \<comment> \<open>the tasks of groups b to m - 1\<close>
  "tasks_inv k b m ts = ((\<forall>t \<in> set ts. numbered k (ta_sample t)) \<and> mset (map task_key ts) = mset [b * k..<m * k] \<and> b \<le> m)"

definition groups_inv :: "rollout_args \<Rightarrow> 'p sample list \<Rightarrow> ('p, 'w) driver \<Rightarrow> bool" where
  \<comment> \<open>\<open>xs\<close>: the samples gathered so far\<close>
  "groups_inv args xs d =
     (gathered d = mset (map unrated xs) \<and> distinct (map fst (dr_pending_groups d)) \<and>
      (\<forall>e \<in> set (dr_pending_groups d). entry_ok (ro_n_samples_per_prompt args) e) \<and>
      (\<forall>g \<in> set (dr_all_data d). finished_group (ro_n_samples_per_prompt args) g) \<and>
      subseq (dr_data d) (dr_all_data d) \<and> length (dr_data d) \<le> ro_rollout_batch_size args)"

definition window_inv :: "rollout_args \<Rightarrow> nat \<Rightarrow> ('p, 'w) driver \<Rightarrow> bool" where
  \<comment> \<open>\<open>n\<close>: the groups issued so far\<close>
  "window_inv args n d =
     (ge_remaining_batch_size (dr_state d) = int n - (if ro_rolling_refill args then int (length (dr_all_data d)) else 0) \<and>
      (ro_rolling_refill args \<longrightarrow> ge_remaining_batch_size (dr_state d) \<le> ro_pending_group_target args))"

definition driver_inv :: "rollout_args \<Rightarrow> ('p task \<Rightarrow> 'p sample list res) \<Rightarrow> nat \<Rightarrow> nat \<Rightarrow> 'p task list \<Rightarrow> ('p, 'w) driver \<Rightarrow> bool" where
  \<comment> \<open>\<open>ts\<close>: the tasks that have ended\<close>
  "driver_inv args f b m ts d =
     (tasks_inv (ro_n_samples_per_prompt args) b m (ts @ ge_pendings (dr_state d)) \<and> (\<forall>t \<in> set ts. \<exists>xs. f t = Inr xs) \<and>
      groups_inv args (answered f ts) d \<and> window_inv args (m - b) d)"

lemma unrated_fields [simp]: "sm_group_index (unrated x) = sm_group_index x" "order_key (unrated x) = order_key x"
  by (simp_all add: unrated_def order_key_def)

lemma groups_inv_other [simp]:
  "groups_inv args xs (d\<lparr>dr_state := st\<rparr>) = groups_inv args xs d"
  "groups_inv args xs (d\<lparr>dr_do_print := p\<rparr>) = groups_inv args xs d"
  "groups_inv args xs (d\<lparr>dr_source := w\<rparr>) = groups_inv args xs d"
  by (simp_all add: groups_inv_def gathered_def)

lemma window_inv_other [simp]:
  "window_inv args n (d\<lparr>dr_state := dr_state d\<lparr>ge_pendings := ts\<rparr>\<rparr>) = window_inv args n d"
  "window_inv args n (d\<lparr>dr_do_print := p\<rparr>) = window_inv args n d"
  "window_inv args n (d\<lparr>dr_source := w\<rparr>) = window_inv args n d"
  "window_inv args n (d\<lparr>dr_pending_groups := gs\<rparr>) = window_inv args n d"
  by (simp_all add: window_inv_def)

lemma window_bound: "window_inv args n d \<Longrightarrow> ro_rolling_refill args \<Longrightarrow> int n - int (length (dr_all_data d)) \<le> ro_pending_group_target args"
  by (auto simp: window_inv_def)

lemma in_dset: "e \<in> set (dset i g d) \<Longrightarrow> e = (i, g) \<or> e \<in> set d"
  by (induction d) (auto split: if_splits)

lemma answered_append: "answered f (ts @ us) = answered f ts @ answered f us"
  by (simp add: answered_def)

lemma samples_in_dset:
  "distinct (map fst d) \<Longrightarrow> samples_in (map snd (dset i g d)) + mset (map unrated (case dget d i of None \<Rightarrow> [] | Some h \<Rightarrow> h)) =
     samples_in (map snd d) + mset (map unrated g)"
proof (induction d)
  case (Cons e d)
  show ?case
  proof (cases "fst e = i")
    case False
    with Cons show ?thesis by (cases e) (auto simp: samples_in_def add.assoc)
  qed (cases e, simp add: samples_in_def add_ac)
qed (simp add: samples_in_def)

lemma samples_in_dpop:
  "distinct (map fst d) \<Longrightarrow> dget d i = Some g \<Longrightarrow> samples_in (map snd (dpop i d)) + mset (map unrated g) = samples_in (map snd d)"
proof (induction d)
  case (Cons e d)
  show ?case
  proof (cases "fst e = i")
    case True
    with Cons.prems have "dpop i d = d" by auto
    with True Cons.prems show ?thesis by (cases e) (simp add: samples_in_def add_ac)
  next
    case False
    with Cons show ?thesis by (cases e) (auto simp: samples_in_def add.assoc)
  qed
qed simp

lemma set_rewards_unrated [simp]: "map unrated (set_rewards g rs) = map unrated g"
  by (induction g rs rule: set_rewards.induct) (auto simp: unrated_def)

lemma rated_group_unrated [simp]: "map unrated (rated_group rm g) = map unrated g"
  by (simp add: rated_group_def split: option.splits)

lemma finished_unrated: "finished_group k (map unrated g) = finished_group k g"
  by (simp add: finished_group_def comp_def)

lemma finished_rated [simp]: "finished_group k (rated_group rm g) = finished_group k g"
  by (metis finished_unrated rated_group_unrated)

lemma distinct_part: "mset xs \<subseteq># mset ys \<Longrightarrow> distinct ys \<Longrightarrow> distinct xs"
proof -
  assume sub: "mset xs \<subseteq># mset ys" and "distinct ys"
  then have "count (mset ys) a \<le> 1" for a by (simp add: distinct_count_atmost_1)
  then have "count (mset xs) a \<le> 1" for a using mset_subset_eq_count [OF sub, of a] le_trans by blast
  moreover have "0 < count (mset xs) a \<longleftrightarrow> a \<in> set xs" for a by (metis count_greater_zero_iff set_mset_mset)
  ultimately have "count (mset xs) a = (if a \<in> set xs then 1 else 0)" for a by (metis One_nat_def Suc_leI le_antisym less_one not_less)
  then show ?thesis unfolding distinct_count_atmost_1 by (rule allI)
qed

lemma whole_group:
  assumes "0 < k" "length g = k" "\<And>x. x \<in> set g \<Longrightarrow> order_key x div k = i" "distinct (map order_key g)" "sorted (map order_key g)"
  shows "map order_key g = block k i"
proof (rule sorted_distinct_set_unique [OF assms(5,4)])
  have sub: "order_key ` set g \<subseteq> {i * k..<Suc i * k}"
  proof
    fix n
    assume "n \<in> order_key ` set g"
    then have "n div k = i" using assms(3) by auto
    then show "n \<in> {i * k..<Suc i * k}" using assms(1) dividend_less_div_times [of k n] by (auto simp: add.commute)
  qed
  have "card (order_key ` set g) = k" using assms(2,4) distinct_card [of "map order_key g"] by simp
  then have "order_key ` set g = {i * k..<Suc i * k}" using sub by (intro card_subset_eq) auto
  then show "set (map order_key g) = set (block k i)" by (simp add: block_def)
qed (simp_all add: block_def)

lemma finish_group_fields [simp]:
  "dr_pending_groups (finish_group args rm flt g d) = dr_pending_groups d" "dr_source (finish_group args rm flt g d) = dr_source d"
  "ge_pendings (dr_state (finish_group args rm flt g d)) = ge_pendings (dr_state d)"
  "dr_all_data (finish_group args rm flt g d) = dr_all_data d @ [rated_group rm g]"
  "ge_remaining_batch_size (dr_state (finish_group args rm flt g d)) = ge_remaining_batch_size (dr_state d) - (if ro_rolling_refill args then 1 else 0)"
  by (auto simp: finish_group_def Let_def split: option.splits)

lemma finish_group_data:
  "subseq (dr_data d) (dr_all_data d) \<Longrightarrow> length (dr_data d) \<le> ro_rollout_batch_size args \<Longrightarrow>
   subseq (dr_data (finish_group args rm flt g d)) (dr_all_data (finish_group args rm flt g d)) \<and>
   length (dr_data (finish_group args rm flt g d)) \<le> ro_rollout_batch_size args"
  by (auto simp: finish_group_def Let_def split: option.splits intro: list_emb_append_mono subseq_rev_drop_many list_emb_append2)

section \<open>Gathering samples\<close>

lemma absorb_sample_keeps:
  assumes groups: "groups_inv args xs d" and window: "window_inv args n d" and x: "sm_group_index x = Some i"
    and k: "0 < ro_n_samples_per_prompt args"
  shows "\<exists>d'. absorb_sample args rm flt x d = Inr d' \<and> groups_inv args (xs @ [x]) d' \<and> window_inv args n d' \<and>
    dr_source d' = dr_source d \<and> ge_pendings (dr_state d') = ge_pendings (dr_state d)"
proof -
  let ?k = "ro_n_samples_per_prompt args"
  note facts = groups [unfolded groups_inv_def]
  define old where "old = (case dget (dr_pending_groups d) i of None \<Rightarrow> [] | Some g \<Rightarrow> g)"
  let ?g = "old @ [x]" and ?put = "dset i (old @ [x]) (dr_pending_groups d)"
  have dist: "distinct (map fst (dr_pending_groups d))" and entries: "\<forall>e \<in> set (dr_pending_groups d). entry_ok ?k e"
    using facts by blast+
  have "length old < ?k \<and> (\<forall>y \<in> set old. sm_group_index y = Some i)"
  proof (cases "dget (dr_pending_groups d) i")
    case (Some g)
    then have "entry_ok ?k (i, g)" using entries map_of_SomeD by metis
    with Some show ?thesis by (simp add: old_def entry_ok_def)
  qed (use k in \<open>simp add: old_def\<close>)
  then have old: "length old < ?k" "\<forall>y \<in> set old. sm_group_index y = Some i" by auto
  have put: "samples_in (map snd ?put) = samples_in (map snd (dr_pending_groups d)) + {#unrated x#}"
    using samples_in_dset [OF dist, of i ?g] unfolding old_def [symmetric] by simp
  show ?thesis
  proof (cases "length ?g = ?k")
    case False
    let ?d = "d\<lparr>dr_pending_groups := ?put\<rparr>"
    have "absorb_sample args rm flt x d = Inr ?d" using False x by (simp add: absorb_sample_def Let_def old_def)
    moreover have "entry_ok ?k e" if "e \<in> set ?put" for e
    proof -
      have "e = (i, ?g) \<or> e \<in> set (dr_pending_groups d)" using that by (rule in_dset)
      moreover have "entry_ok ?k (i, ?g)" using False old x by (auto simp: entry_ok_def)
      ultimately show ?thesis using entries by auto
    qed
    moreover have "gathered ?d = mset (map unrated (xs @ [x]))" using put facts by (simp add: gathered_def)
    ultimately show ?thesis using facts window dist
      by (intro exI [of _ ?d]) (simp add: groups_inv_def distinct_dset)
  next
    case True
    let ?d0 = "d\<lparr>dr_pending_groups := dpop i ?put\<rparr>" and ?gs = "sort_key order_key ?g"
    let ?d = "finish_group args rm flt ?gs ?d0"
    have absorb: "absorb_sample args rm flt x d = Inr ?d" using True x by (simp add: absorb_sample_def Let_def old_def)
    have "samples_in (map snd (dpop i ?put)) + mset (map unrated ?g) = samples_in (map snd (dr_pending_groups d)) + {#unrated x#}"
      using samples_in_dpop [of ?put i ?g] dist put by (simp add: distinct_dset dget_dset)
    moreover have "mset (map unrated (rated_group rm ?gs)) = mset (map unrated ?g)" by (simp only: rated_group_unrated) (simp only: mset_map mset_sort)
    ultimately have "gathered ?d = gathered d + {#unrated x#}" by (simp add: gathered_def samples_in_def add_ac)
    then have "gathered ?d = mset (map unrated (xs @ [x]))" using facts by simp
    moreover have "finished_group ?k ?gs" unfolding finished_group_def using True old x by (auto intro!: exI [of _ i])
    moreover have "entry_ok ?k e" if "e \<in> set (dpop i ?put)" for e
    proof -
      have "dget (dpop i ?put) (fst e) = Some (snd e)" using that dist by (simp add: distinct_dset distinct_dpop)
      then have "dget (dr_pending_groups d) (fst e) = Some (snd e)" by (auto simp: dget_dset dget_dpop split: if_splits)
      then show ?thesis using entries map_of_SomeD by fastforce
    qed
    moreover have "distinct (map fst (dpop i ?put))" using dist by (simp add: distinct_dset distinct_dpop)
    moreover have "subseq (dr_data ?d) (dr_all_data ?d) \<and> length (dr_data ?d) \<le> ro_rollout_batch_size args"
      by (rule finish_group_data) (use facts in simp_all)
    moreover have "window_inv args n ?d" using window by (cases "ro_rolling_refill args") (auto simp: window_inv_def)
    ultimately show ?thesis using facts absorb by (intro exI [of _ ?d]) (simp add: groups_inv_def)
  qed
qed

lemma absorb_samples_keeps:
  "groups_inv args ys d \<Longrightarrow> window_inv args n d \<Longrightarrow> \<forall>x \<in> set xs. sm_group_index x \<noteq> None \<Longrightarrow> 0 < ro_n_samples_per_prompt args \<Longrightarrow>
   \<exists>d'. absorb_samples args rm flt xs d = Inr d' \<and> groups_inv args (ys @ xs) d' \<and> window_inv args n d' \<and>
     dr_source d' = dr_source d \<and> ge_pendings (dr_state d') = ge_pendings (dr_state d)"
proof (induction xs arbitrary: ys d)
  case (Cons x xs)
  from Cons.prems(3) obtain i where "sm_group_index x = Some i" by auto
  then obtain d1 where d1: "absorb_sample args rm flt x d = Inr d1" "groups_inv args (ys @ [x]) d1" "window_inv args n d1"
    "dr_source d1 = dr_source d" "ge_pendings (dr_state d1) = ge_pendings (dr_state d)"
    using absorb_sample_keeps [OF Cons.prems(1,2) _ Cons.prems(4)] by blast
  with Cons.IH [OF d1(2,3) _ Cons.prems(4)] Cons.prems(3) show ?case by auto
qed auto

lemma absorb_results_keeps:
  "groups_inv args ys d \<Longrightarrow> window_inv args n d \<Longrightarrow> 0 < ro_n_samples_per_prompt args \<Longrightarrow>
   \<forall>t \<in> set ts. own_samples t (f t) \<and> numbered (ro_n_samples_per_prompt args) (ta_sample t) \<Longrightarrow>
   (\<exists>d'. absorb_results args rm flt (map f ts) d = Inr d' \<and> groups_inv args (ys @ answered f ts) d' \<and> window_inv args n d' \<and>
     dr_source d' = dr_source d \<and> ge_pendings (dr_state d') = ge_pendings (dr_state d) \<and> (\<forall>t \<in> set ts. \<exists>xs. f t = Inr xs)) \<or>
   (\<exists>e t. absorb_results args rm flt (map f ts) d = Inl e \<and> t \<in> set ts \<and> (f t = Inl e \<or> f t = Inr []))"
proof (induction ts arbitrary: ys d)
  case (Cons t ts)
  show ?case
  proof (cases "f t")
    case (Inr xs)
    let ?d = "d\<lparr>dr_do_print := False\<rparr>"
    have "groups_inv args ys ?d" "window_inv args n ?d" using Cons.prems(1,2) by simp_all
    moreover have "\<forall>x \<in> set xs. sm_group_index x \<noteq> None" using Cons.prems(4) Inr by (auto simp: own_samples_def numbered_def)
    ultimately have "\<exists>d'. absorb_samples args rm flt xs ?d = Inr d' \<and> groups_inv args (ys @ xs) d' \<and> window_inv args n d' \<and>
      dr_source d' = dr_source ?d \<and> ge_pendings (dr_state d') = ge_pendings (dr_state ?d)"
      by (rule absorb_samples_keeps [OF _ _ _ Cons.prems(3)])
    then obtain d1 where d1: "absorb_samples args rm flt xs ?d = Inr d1" "groups_inv args (ys @ xs) d1" "window_inv args n d1"
      "dr_source d1 = dr_source d" "ge_pendings (dr_state d1) = ge_pendings (dr_state d)" by auto
    have "\<forall>t \<in> set ts. own_samples t (f t) \<and> numbered (ro_n_samples_per_prompt args) (ta_sample t)" using Cons.prems(4) by simp
    note rest = Cons.IH [OF d1(2,3) Cons.prems(3) this]
    have step: "absorb_results args rm flt (map f (t # ts)) d =
      (if dr_do_print d \<and> xs = [] then Inl (OtherError ''IndexError'') else absorb_results args rm flt (map f ts) d1)"
      using Inr d1(1) by simp
    have ends: "answered f (t # ts) = xs @ answered f ts" using Inr by (simp add: answered_def)
    show ?thesis
    proof (cases "dr_do_print d \<and> xs = []")
      case True
      then have "absorb_results args rm flt (map f (t # ts)) d = Inl (OtherError ''IndexError'')" "f t = Inr []" using step Inr by simp_all
      then show ?thesis by (meson list.set_intros(1))
    next
      case False
      then have same: "absorb_results args rm flt (map f (t # ts)) d = absorb_results args rm flt (map f ts) d1" using step by (simp only: False if_False)
      from rest show ?thesis
      proof (elim disjE exE conjE)
        fix d'
        assume "absorb_results args rm flt (map f ts) d1 = Inr d'" "groups_inv args ((ys @ xs) @ answered f ts) d'" "window_inv args n d'"
          "dr_source d' = dr_source d1" "ge_pendings (dr_state d') = ge_pendings (dr_state d1)" "\<forall>t \<in> set ts. \<exists>xs. f t = Inr xs"
        with d1(4,5) Inr show ?thesis unfolding same ends by (intro disjI1 exI [of _ d']) simp
      next
        fix e u
        assume "absorb_results args rm flt (map f ts) d1 = Inl e" "u \<in> set ts" "f u = Inl e"
        then show ?thesis unfolding same by (intro disjI2 exI [of _ e] exI [of _ u]) simp
      next
        fix e u
        assume "absorb_results args rm flt (map f ts) d1 = Inl e" "u \<in> set ts" "f u = Inr []"
        then show ?thesis unfolding same by (intro disjI2 exI [of _ e] exI [of _ u]) simp
      qed
    qed
  next
    case (Inl e)
    then have "absorb_results args rm flt (map f (t # ts)) d = Inl e" by simp
    with Inl show ?thesis by (meson list.set_intros(1))
  qed
qed (simp add: answered_def)

lemma mset_fold_remove1: "mset (fold remove1 ts xs) = mset xs - mset ts"
  by (induction ts arbitrary: xs) (simp_all add: diff_diff_add_mset [symmetric])

lemma tasks_inv_cong: "mset ts = mset us \<Longrightarrow> tasks_inv k b m ts = tasks_inv k b m us"
  unfolding tasks_inv_def by (metis mset_map mset_eq_setD)

lemma round_absorbs:
  assumes inv: "driver_inv args f b m done d" and sub: "mset ts \<subseteq># mset (ge_pendings (dr_state d))"
    and own: "\<And>t. own_samples t (f t)" and k: "0 < ro_n_samples_per_prompt args"
  shows "(\<exists>d'. absorb_results args rm flt (map f ts) (d\<lparr>dr_state := take_tasks ts (dr_state d)\<rparr>) = Inr d' \<and>
      driver_inv args f b m (done @ ts) d' \<and> dr_source d' = dr_source d) \<or>
    (\<exists>e t. absorb_results args rm flt (map f ts) (d\<lparr>dr_state := take_tasks ts (dr_state d)\<rparr>) = Inl e \<and> t \<in> set ts \<and> (f t = Inl e \<or> f t = Inr []))"
proof -
  let ?d = "d\<lparr>dr_state := take_tasks ts (dr_state d)\<rparr>" and ?ps = "ge_pendings (dr_state d)"
  note facts = inv [unfolded driver_inv_def]
  have same: "mset (done @ ?ps) = mset ((done @ ts) @ fold remove1 ts ?ps)"
    using sub by (simp add: mset_fold_remove1)
  then have tasks: "tasks_inv (ro_n_samples_per_prompt args) b m ((done @ ts) @ ge_pendings (dr_state ?d))"
    using facts tasks_inv_cong [OF same] by (simp add: take_tasks_def)
  then have "\<forall>t \<in> set ts. own_samples t (f t) \<and> numbered (ro_n_samples_per_prompt args) (ta_sample t)" using own by (simp add: tasks_inv_def)
  moreover have "groups_inv args (answered f done) ?d" "window_inv args (m - b) ?d"
    using facts by (simp_all add: take_tasks_def)
  ultimately show ?thesis using absorb_results_keeps [of args "answered f done" ?d "m - b" ts f rm flt] k tasks facts
    by (auto simp: driver_inv_def answered_append)
qed

section \<open>Refilling the window\<close>

lemma submit_inv:
  assumes inv: "driver_inv args f b m done d"
    and gs: "map (map order_key) gs = map (block (ro_n_samples_per_prompt args)) [m..<m + n]" "\<forall>x \<in> set (concat gs). numbered (ro_n_samples_per_prompt args) x"
    and room: "ro_rolling_refill args \<Longrightarrow> ge_remaining_batch_size (dr_state d) + int n \<le> ro_pending_group_target args"
  shows "driver_inv args f b (m + n) done (d\<lparr>dr_state := submit_generate_tasks_bfs seeds gs (dr_state d), dr_source := w\<rparr>)"
proof -
  let ?k = "ro_n_samples_per_prompt args" and ?d = "d\<lparr>dr_state := submit_generate_tasks_bfs seeds gs (dr_state d), dr_source := w\<rparr>"
  let ?ps = "ge_pendings (dr_state d)"
  note facts = inv [unfolded driver_inv_def]
  have len: "length gs = n" using arg_cong [OF gs(1), of length] by simp
  have "concat (map (block k) [m..<m + n]) = [m * k..<(m + n) * k]" for k
  proof (induction n)
    case (Suc n)
    have "[m * k..<(m + n) * k + k] = [m * k..<(m + n) * k] @ [(m + n) * k..<(m + n) * k + k]"
      by (rule upt_add_eq_append) simp
    with Suc show ?case by (simp add: block_def algebra_simps)
  qed simp
  then have "map order_key (concat gs) = [m * ?k..<(m + n) * ?k]" unfolding gs(1) map_concat by simp
  moreover have "mset (map task_key (bfs_tasks seeds gs)) = mset (map order_key (concat gs))"
    using arg_cong [OF bfs_tasks_samples [of seeds gs], of "image_mset order_key"] by (simp add: mset_map [symmetric] comp_def task_key_def [abs_def] del: mset_map)
  ultimately have new: "mset (map task_key (bfs_tasks seeds gs)) = mset [m * ?k..<(m + n) * ?k]" by simp
  have b: "b \<le> m" and old: "mset (map task_key (done @ ?ps)) = mset [b * ?k..<m * ?k]" using facts by (simp_all only: tasks_inv_def)
  have "[b * ?k..<m * ?k + n * ?k] = [b * ?k..<m * ?k] @ [m * ?k..<m * ?k + n * ?k]" using b by (intro upt_add_eq_append) simp
  then have "mset (map task_key ((done @ ?ps) @ bfs_tasks seeds gs)) = mset [b * ?k..<(m + n) * ?k]"
    unfolding map_append mset_append using old new by (simp add: algebra_simps)
  moreover have "numbered ?k (ta_sample t)" if "t \<in> set (bfs_tasks seeds gs)" for t
  proof -
    have "ta_sample t \<in># mset (map ta_sample (bfs_tasks seeds gs))" using that by auto
    then have "ta_sample t \<in> set (concat gs)" unfolding bfs_tasks_samples by simp
    with gs(2) show ?thesis by blast
  qed
  ultimately have "tasks_inv ?k b (m + n) (done @ ge_pendings (dr_state ?d))"
    using facts b by (auto simp: tasks_inv_def submit_generate_tasks_bfs_def simp del: mset_upt)
  moreover have "window_inv args (m + n - b) ?d" using facts room b len by (auto simp: window_inv_def submit_generate_tasks_bfs_def)
  ultimately show ?thesis using facts by (simp add: driver_inv_def groups_inv_def gathered_def)
qed

section \<open>A window that has no tasks left is free\<close>

lemma mset_filter_size: "mset xs = mset ys \<Longrightarrow> length (filter P xs) = length (filter P ys)"
  by (metis mset_filter size_mset)

lemma block_count: "b \<le> i \<Longrightarrow> i < m \<Longrightarrow> 0 < k \<Longrightarrow> length (filter (\<lambda>n. n div k = i) [b * k..<m * k]) = k"
proof -
  assume i: "b \<le> i" "i < m" and k: "0 < k"
  have "n div k = i \<longleftrightarrow> i \<le> n div k \<and> n div k < Suc i" for n by auto
  then have "n div k = i \<longleftrightarrow> i * k \<le> n \<and> n < Suc i * k" for n
    by (simp only: less_eq_div_iff_mult_less_eq [OF k] div_less_iff_less_mult [OF k])
  then have iff: "n div k = i \<longleftrightarrow> n \<in> {i * k..<Suc i * k}" for n by simp
  have "b * k \<le> i * k" using i(1) by (rule mult_le_mono1)
  moreover have "Suc i * k \<le> m * k" using i(2) by (intro mult_le_mono1) simp
  ultimately have "{i * k..<Suc i * k} \<subseteq> {b * k..<m * k}" by (intro ivl_subset [THEN iffD2]) simp
  then have "{n \<in> {b * k..<m * k}. n div k = i} = {i * k..<Suc i * k}" unfolding iff by blast
  then have "card {n \<in> {b * k..<m * k}. n div k = i} = k" by simp
  moreover have "length (filter (\<lambda>n. n div k = i) [b * k..<m * k]) = card {n \<in> {b * k..<m * k}. n div k = i}"
    by (subst distinct_card [symmetric]) (simp_all add: set_filter)
  ultimately show ?thesis by simp
qed

definition of_group :: "int \<Rightarrow> 'p sample \<Rightarrow> bool" where
  "of_group i x = (sm_group_index x = Some i)"

lemma of_group_unrated [simp]: "of_group i (unrated x) = of_group i x"
  by (simp add: of_group_def)

lemma gathered_of_group:
  assumes "groups_inv args xs d"
  shows "length (filter (of_group i) xs) =
    length (filter (of_group i) (concat (map snd (dr_pending_groups d)))) + length (filter (of_group i) (concat (dr_all_data d)))"
proof -
  have "mset (map unrated xs) = mset (map unrated (concat (map snd (dr_pending_groups d)) @ concat (dr_all_data d)))"
    using assms by (simp add: groups_inv_def gathered_def samples_in_def)
  from mset_filter_size [OF this, of "of_group i"] show ?thesis by (simp add: filter_map comp_def)
qed

lemma pending_of_group:
  "distinct (map fst ps) \<Longrightarrow> \<forall>e \<in> set ps. entry_ok k e \<Longrightarrow> 0 < k \<Longrightarrow> length (filter (of_group i) (concat (map snd ps))) < k"
proof (induction ps)
  case (Cons e ps)
  have rest: "\<forall>e' \<in> set ps. fst e' \<noteq> fst e \<and> entry_ok k e'" using Cons.prems(1,2) by (force simp: image_iff)
  have none: "filter (of_group i) (concat (map snd ps)) = []" if "fst e = i"
  proof -
    have "\<not> of_group i x" if "e' \<in> set ps" "x \<in> set (snd e')" for e' x
      using rest that \<open>fst e = i\<close> by (auto simp: entry_ok_def of_group_def)
    then show ?thesis by (simp add: filter_empty_conv)
  qed
  have this_ok: "length (snd e) < k" "\<forall>x \<in> set (snd e). sm_group_index x = Some (fst e)" using Cons.prems(2) by (simp_all add: entry_ok_def)
  have other: "filter (of_group i) (snd e) = []" if "fst e \<noteq> i"
    using this_ok(2) that by (simp add: filter_empty_conv of_group_def)
  have "length (filter (of_group i) (snd e)) < k" using this_ok(1) by (rule le_less_trans [OF length_filter_le])
  moreover have "length (filter (of_group i) (concat (map snd ps))) < k" using Cons by simp
  ultimately show ?case using none other by (cases "fst e = i") simp_all
qed simp

lemma answers_of_group:
  assumes "\<And>t. own_samples t (f t)" "\<And>t. f t \<noteq> Inr []" "\<forall>t \<in> set ts. numbered k (ta_sample t)" "\<forall>t \<in> set ts. \<exists>xs. f t = Inr xs"
  shows "length (filter (\<lambda>n. n div k = i) (map task_key ts)) \<le> length (filter (of_group (int i)) (answered f ts))"
  using assms(3,4)
proof (induction ts)
  case (Cons t ts)
  obtain xs where xs: "f t = Inr xs" using Cons.prems(2) by auto
  have "length (if task_key t div k = i then [task_key t] else []) \<le> length (filter (of_group (int i)) xs)"
  proof (cases "task_key t div k = i")
    case True
    have "sm_group_index (ta_sample t) = Some (int i)" using Cons.prems(1) True by (simp add: numbered_def task_key_def)
    then have "\<forall>x \<in> set xs. of_group (int i) x" using assms(1) [of t] xs by (simp add: own_samples_def of_group_def)
    then have "filter (of_group (int i)) xs = xs" by (simp add: filter_id_conv)
    moreover have "xs \<noteq> []" using assms(2) [of t] xs by simp
    ultimately show ?thesis using True by (simp add: Suc_le_eq)
  qed simp
  with Cons xs show ?case by (auto simp: answered_def split: if_splits)
qed (simp add: answered_def)

lemma idle_window_is_free:
  assumes inv: "driver_inv args f b m ts d" and "ge_pendings (dr_state d) = []" "ro_rolling_refill args" "0 < ro_n_samples_per_prompt args"
    and own: "\<And>t. own_samples t (f t)" "\<And>t. f t \<noteq> Inr []"
  shows "ge_remaining_batch_size (dr_state d) \<le> 0"
proof -
  let ?k = "ro_n_samples_per_prompt args" and ?all = "dr_all_data d"
  note facts = inv [unfolded driver_inv_def assms(2) append_Nil2]
  have tasks: "\<forall>t \<in> set ts. numbered ?k (ta_sample t)" "mset (map task_key ts) = mset [b * ?k..<m * ?k]" "b \<le> m"
    and answers: "\<forall>t \<in> set ts. \<exists>xs. f t = Inr xs" and groups: "groups_inv args (answered f ts) d"
    using facts unfolding tasks_inv_def by blast+
  have "\<exists>g \<in> set ?all. g \<noteq> [] \<and> (\<forall>x \<in> set g. sm_group_index x = Some (int i))" if i: "b \<le> i" "i < m" for i
  proof -
    have "?k \<le> length (filter (of_group (int i)) (answered f ts))"
      using answers_of_group [OF own tasks(1) answers, of i] mset_filter_size [OF tasks(2), of "\<lambda>n. n div ?k = i"] block_count [OF i assms(4)]
      by simp
    moreover have "length (filter (of_group (int i)) (concat (map snd (dr_pending_groups d)))) < ?k"
      using groups assms(4) by (intro pending_of_group) (simp_all add: groups_inv_def)
    ultimately have "filter (of_group (int i)) (concat ?all) \<noteq> []" using gathered_of_group [OF groups, of "int i"] by auto
    then obtain g x where g: "g \<in> set ?all" "x \<in> set g" "sm_group_index x = Some (int i)" by (auto simp: filter_empty_conv of_group_def)
    moreover have "finished_group ?k g" using groups g(1) by (simp add: groups_inv_def)
    ultimately show ?thesis by (intro bexI [OF _ g(1)]) (auto simp: finished_group_def)
  qed
  note finished = this
  have "{b..<m} \<subseteq> (\<lambda>g. nat (the (sm_group_index (hd g)))) ` set ?all"
  proof
    fix i
    assume "i \<in> {b..<m}"
    then obtain g where "g \<in> set ?all" "g \<noteq> []" "\<forall>x \<in> set g. sm_group_index x = Some (int i)" using finished [of i] by auto
    then show "i \<in> (\<lambda>g. nat (the (sm_group_index (hd g)))) ` set ?all" by (intro image_eqI [of _ _ g]) simp_all
  qed
  then have "card {b..<m} \<le> card ((\<lambda>g. nat (the (sm_group_index (hd g)))) ` set ?all)" by (intro card_mono) auto
  also have "\<dots> \<le> length ?all" using card_image_le card_length le_trans by (metis finite_set)
  finally have "int (m - b) \<le> int (length ?all)" by simp
  then show ?thesis using facts assms(3) by (simp add: window_inv_def)
qed

lemma single_answers_make_whole_groups:
  assumes inv: "driver_inv args f b m ts d" and k: "0 < ro_n_samples_per_prompt args" and own: "\<And>t. own_samples t (f t)"
    and single: "\<forall>t \<in> set ts. \<exists>x. f t = Inr [x] \<and> sm_index x = sm_index (ta_sample t)" and g: "g \<in> set (dr_all_data d)"
  shows "\<exists>i. map order_key g = block (ro_n_samples_per_prompt args) i"
proof -
  let ?k = "ro_n_samples_per_prompt args"
  note facts = inv [unfolded driver_inv_def]
  have tasks: "\<forall>t \<in> set ts. numbered ?k (ta_sample t)" "mset (map task_key (ts @ ge_pendings (dr_state d))) = mset [b * ?k..<m * ?k]"
    using facts by (auto simp only: tasks_inv_def set_append)
  have keys: "map order_key (answered f ts) = map task_key ts" using single
    by (induction ts) (auto simp: answered_def task_key_def order_key_def)
  have "mset (map task_key ts) \<subseteq># mset [b * ?k..<m * ?k]" unfolding tasks(2) [symmetric] by simp
  then have dist: "distinct (map order_key (answered f ts))" unfolding keys by (rule distinct_part) simp
  have all: "gathered d = mset (map unrated (answered f ts))" and fin: "finished_group ?k g"
    using facts g unfolding groups_inv_def by blast+
  have part: "mset (map unrated g) \<subseteq># mset (map unrated (answered f ts))"
  proof -
    obtain us vs where "dr_all_data d = us @ g # vs" using g by (meson split_list)
    then show ?thesis unfolding all [symmetric] by (simp add: gathered_def samples_in_def)
  qed
  have "mset (map order_key g) \<subseteq># mset (map order_key (answered f ts))"
    using image_mset_subseteq_mono [OF part, of order_key] by (simp add: image_mset.compositionality comp_def)
  then have "distinct (map order_key g)" using dist by (rule distinct_part)
  moreover obtain j where j: "\<forall>x \<in> set g. sm_group_index x = Some j" using fin by (auto simp: finished_group_def)
  moreover have "sm_group_index x = Some (int (order_key x div ?k))" if "x \<in> set g" for x
  proof -
    have "unrated x \<in># mset (map unrated (answered f ts))" using mset_subset_eqD [OF part, of "unrated x"] that by simp
    then obtain y where y: "y \<in> set (answered f ts)" "unrated x = unrated y" by auto
    then obtain t where t: "t \<in> set ts" "f t = Inr [y]" "sm_index y = sm_index (ta_sample t)" using single
      by (auto simp: answered_def split: sum.splits)
    have "order_key x = task_key t" using unrated_fields(2) [of x] unrated_fields(2) [of y] y(2) t(3) by (simp add: order_key_def task_key_def)
    moreover have "sm_group_index x = sm_group_index (ta_sample t)"
      using unrated_fields(1) [of x] unrated_fields(1) [of y] y(2) own [of t] t(2) by (simp add: own_samples_def)
    ultimately show ?thesis using tasks(1) t(1) by (simp add: numbered_def task_key_def)
  qed
  ultimately have "order_key x div ?k = nat j" if "x \<in> set g" for x using that by fastforce
  from whole_group [OF k _ this \<open>distinct (map order_key g)\<close>] fin have "map order_key g = block ?k (nat j)" by (simp add: finished_group_def)
  then show ?thesis by blast
qed

context group_source begin

lemma refill_returns:
  assumes "driver_inv args f b m done d" "valid (dr_source d) m" "ro_n_samples_per_prompt args = k"
    and over: "0 < ro_over_sampling_batch_size args" "ro_over_sampling_batch_size args \<le> limit"
  shows "\<exists>st w m'. refill_pending_groups args source have_groups (dr_state d) (dr_source d) = Some (st, w) \<and>
    driver_inv args f b m' done (d\<lparr>dr_state := st, dr_source := w\<rparr>) \<and> valid w m' \<and>
    (have_groups < ro_rollout_batch_size args \<longrightarrow> ro_pending_group_target args \<le> ge_remaining_batch_size st)"
  using assms(1,2)
proof (induction "nat (ro_pending_group_target args - ge_remaining_batch_size (dr_state d))" arbitrary: d m rule: less_induct)
  case less
  let ?r = "ge_remaining_batch_size (dr_state d)"
  show ?case
  proof (cases "have_groups < ro_rollout_batch_size args \<and> ?r < ro_pending_group_target args")
    case False
    then have "refill_pending_groups args source have_groups (dr_state d) (dr_source d) = Some (dr_state d, dr_source d)"
      by (subst refill_pending_groups.simps) auto
    with False less.prems show ?thesis by (intro exI [of _ "dr_state d"] exI [of _ "dr_source d"] exI [of _ m]) auto
  next
    case True
    let ?n = "refill_size args ?r"
    have n: "1 \<le> ?n" "?n \<le> limit" "ro_rolling_refill args \<Longrightarrow> ?r + int ?n \<le> ro_pending_group_target args"
      using True over by (auto simp: refill_size_def)
    obtain gs w where src: "source ?n (dr_source d) = (gs, w)" "valid w (m + ?n)" "map (map order_key) gs = map (block k) [m..<m + ?n]"
      "\<forall>x \<in> set (concat gs). numbered k x" using serves [OF less.prems(2) n(2)] by blast
    have len: "length gs = ?n" using arg_cong [OF src(3), of length] by simp
    let ?d = "d\<lparr>dr_state := submit_generate_tasks_bfs (ro_seeds args) gs (dr_state d), dr_source := w\<rparr>"
    have "driver_inv args f b (m + ?n) done ?d" using submit_inv [OF less.prems(1)] src(3,4) n(3) assms(3) by blast
    moreover have "nat (ro_pending_group_target args - ge_remaining_batch_size (dr_state ?d)) < nat (ro_pending_group_target args - ?r)"
      using True n(1) len by (simp add: submit_generate_tasks_bfs_def)
    ultimately obtain st w' m' where "refill_pending_groups args source have_groups (dr_state ?d) (dr_source ?d) = Some (st, w')"
      "driver_inv args f b m' done (?d\<lparr>dr_state := st, dr_source := w'\<rparr>)" "valid w' m'"
      "have_groups < ro_rollout_batch_size args \<longrightarrow> ro_pending_group_target args \<le> ge_remaining_batch_size st"
      using less.hyps [of ?d "m + ?n"] src(2) by auto
    moreover have "refill_pending_groups args source have_groups (dr_state d) (dr_source d) =
      refill_pending_groups args source have_groups (dr_state ?d) (dr_source ?d)"
      using True src(1) by (subst refill_pending_groups.simps) simp
    ultimately show ?thesis by (intro exI [of _ st] exI [of _ w'] exI [of _ m']) simp
  qed
qed

lemma round_ends:
  assumes "rollout_round args source rm flt (\<lambda>t r. r = f t) d r" "driver_inv args f b m done d" "valid (dr_source d) m"
    and "ro_n_samples_per_prompt args = k" and own: "\<And>t. own_samples t (f t)"
    and over: "0 < ro_over_sampling_batch_size args" "ro_over_sampling_batch_size args \<le> limit"
  shows "(\<exists>d' m' done'. r = Inr d' \<and> driver_inv args f b m' done' d' \<and> valid (dr_source d') m') \<or>
    (\<exists>e t. r = Inl e \<and> (f t = Inl e \<or> f t = Inr [])) \<or>
    (\<exists>st w m'. r = Inl (ValueError ''Set of Tasks/Futures is empty.'') \<and> driver_inv args f b m' done (d\<lparr>dr_state := st, dr_source := w\<rparr>) \<and> ge_pendings st = [] \<and>
       ro_pending_group_target args \<le> ge_remaining_batch_size st)"
  using assms(1)
proof cases
  case (nothing_pending st w)
  then have "\<exists>m'. driver_inv args f b m' done (d\<lparr>dr_state := st, dr_source := w\<rparr>) \<and> ro_pending_group_target args \<le> ge_remaining_batch_size st"
    using refill_returns [OF assms(2-4) over, of "length (dr_data d)"] by auto
  with nothing_pending(1,4) show ?thesis by blast
next
  case (tasks_done st w ts rs)
  obtain m' where m': "driver_inv args f b m' done (d\<lparr>dr_state := st, dr_source := w\<rparr>)" "valid w m'"
    using refill_returns [OF assms(2-4) over, of "length (dr_data d)"] tasks_done(2,3) by auto
  have rs: "rs = map f ts" using tasks_done(6) by (induction rule: list_all2_induct) simp_all
  have "0 < ro_n_samples_per_prompt args" using group_size [OF m'(2)] assms(4) by simp
  have sub: "mset ts \<subseteq># mset (ge_pendings (dr_state (d\<lparr>dr_state := st, dr_source := w\<rparr>)))" using tasks_done(5) by simp
  have order: "d\<lparr>dr_state := take_tasks ts st, dr_source := w\<rparr> = d\<lparr>dr_source := w, dr_state := take_tasks ts st\<rparr>" by simp
  have "r = absorb_results args rm flt (map f ts) (d\<lparr>dr_source := w, dr_state := take_tasks ts st\<rparr>)"
    using tasks_done(1) unfolding order rs .
  with \<open>0 < ro_n_samples_per_prompt args\<close> have "(\<exists>d'. r = Inr d' \<and> driver_inv args f b m' (done @ ts) d' \<and> dr_source d' = w) \<or>
      (\<exists>e t. r = Inl e \<and> t \<in> set ts \<and> (f t = Inl e \<or> f t = Inr []))"
    using round_absorbs [OF m'(1) sub own, of rm flt] by simp
  with m'(2) show ?thesis by blast
qed

lemma round_keeps:
  assumes "rollout_round args source rm flt (\<lambda>t r. r = f t) d (Inr d')" "driver_inv args f b m done d" "valid (dr_source d) m"
    and "ro_n_samples_per_prompt args = k" "\<And>t. own_samples t (f t)"
    and "0 < ro_over_sampling_batch_size args" "ro_over_sampling_batch_size args \<le> limit"
  shows "\<exists>m' done'. driver_inv args f b m' done' d' \<and> valid (dr_source d') m'"
  using round_ends [OF assms] by auto

lemma rounds_keep:
  assumes "(\<lambda>d d'. rollout_round args source rm flt (\<lambda>t r. r = f t) d (Inr d'))\<^sup>*\<^sup>* d0 d" "driver_inv args f b m done d0" "valid (dr_source d0) m"
    and "ro_n_samples_per_prompt args = k" "\<And>t. own_samples t (f t)"
    and "0 < ro_over_sampling_batch_size args" "ro_over_sampling_batch_size args \<le> limit"
  shows "\<exists>m' done'. driver_inv args f b m' done' d \<and> valid (dr_source d) m'"
  using assms(1)
proof (induction rule: rtranclp_induct)
  case (step d d')
  then obtain m' done' where d: "driver_inv args f b m' done' d" "valid (dr_source d) m'" by blast
  from round_keeps [OF step.hyps(2) d assms(4-7)] show ?case .
qed (use assms(2,3) in blast)

lemma round_exists:
  assumes "driver_inv args f b m done d" "valid (dr_source d) m" "ro_n_samples_per_prompt args = k"
    and over: "0 < ro_over_sampling_batch_size args" "ro_over_sampling_batch_size args \<le> limit"
    and open_data: "length (dr_data d) < ro_rollout_batch_size args"
  shows "\<exists>r. rollout_round args source rm flt (\<lambda>t r. r = f t) d r"
proof -
  obtain st w where refill: "refill_pending_groups args source (length (dr_data d)) (dr_state d) (dr_source d) = Some (st, w)"
    using refill_returns [OF assms(1-3) over, of "length (dr_data d)"] by blast
  show ?thesis
  proof (cases "ge_pendings st")
    case Nil
    from nothing_pending [OF open_data refill this] show ?thesis by blast
  next
    case (Cons t ts)
    have "rollout_round args source rm flt (\<lambda>t r. r = f t) d (absorb_results args rm flt [f t] (d\<lparr>dr_state := take_tasks [t] st, dr_source := w\<rparr>))"
      by (rule tasks_done [OF open_data refill, of "[t]"]) (simp_all add: Cons)
    then show ?thesis by blast
  qed
qed

end

section \<open>The data source serves the rollout\<close>

definition walking :: "source_args \<Rightarrow> (int \<Rightarrow> nat \<Rightarrow> nat list) \<Rightarrow> 'p sample list \<Rightarrow> int \<Rightarrow> 'p source \<Rightarrow> nat \<Rightarrow> bool" where
  \<comment> \<open>a source between requests, with nothing in its buffer\<close>
  "walking args perm prompts seed s m =
     (permutes perm \<and> prompts \<noteq> [] \<and> 0 < sa_n_samples_per_prompt args \<and> source_ok args perm prompts seed s \<and> so_buffer s = [] \<and>
      so_sample_group_index s = m \<and> position prompts s = m \<and> so_sample_index s = sa_n_samples_per_prompt args * m)"

interpretation stream: group_source "get_samples args perm pop_first blank" "sa_n_samples_per_prompt args" "length prompts" "walking args perm prompts seed"
  for args :: source_args and perm :: "int \<Rightarrow> nat \<Rightarrow> nat list" and blank :: "'p sample" and prompts :: "'p sample list" and seed :: int
proof unfold_locales
  let ?k = "sa_n_samples_per_prompt args"
  show "0 < ?k" if "walking args perm prompts seed w m" for w m using that by (simp add: walking_def)
  show "\<exists>gs w'. get_samples args perm pop_first blank n w = (gs, w') \<and> walking args perm prompts seed w' (m + n) \<and>
      map (map order_key) gs = map (block ?k) [m..<m + n] \<and> (\<forall>x \<in> set (concat gs). numbered ?k x)"
    if w: "walking args perm prompts seed w m" and n: "n \<le> length prompts" for w m n
  proof -
    let ?gs = "map (\<lambda>i. served_group args perm prompts seed (m + i)) [0..<n]"
    have k: "0 < ?k" using w by (simp add: walking_def)
    obtain w' where w': "run_requests args perm blank [n] w = (?gs, w')" "source_ok args perm prompts seed w'" "so_buffer w' = []"
      "so_sample_group_index w' = m + n" "position prompts w' = so_sample_group_index w'" "so_sample_index w' = ?k * so_sample_group_index w'"
      using requests_from [of args perm prompts seed w "[n]" blank] w n by (auto simp: walking_def)
    then have get: "get_samples args perm pop_first blank n w = (?gs, w')" by (simp split: prod.splits)
    have keys: "map order_key (served_group args perm prompts seed i) = block ?k i" for i
      using map_add_upt [of "i * ?k" ?k] by (simp add: served_group_def order_key_def block_def comp_def add.commute)
    have "numbered ?k x" if "x \<in> set (served_group args perm prompts seed i)" for x i
      using that k by (auto simp: served_group_def numbered_def order_key_def)
    moreover have "map (\<lambda>i. block ?k (m + i)) [0..<n] = map (block ?k) [m..<m + n]"
    proof -
      have "[m..<m + n] = map (\<lambda>i. i + m) [0..<n]" using map_add_upt [of m n] by (simp add: add.commute)
      then show ?thesis by (simp add: comp_def add.commute)
    qed
    moreover have "walking args perm prompts seed w' (m + n)" using w' w by (simp add: walking_def)
    moreover have "map (map order_key) ?gs = map (\<lambda>i. block ?k (m + i)) [0..<n]" by (simp add: keys comp_def)
    moreover have "\<forall>x \<in> set (concat ?gs). numbered ?k x" using \<open>\<And>x i. x \<in> set (served_group args perm prompts seed i) \<Longrightarrow> numbered ?k x\<close> by auto
    ultimately show ?thesis using get by (intro exI [of _ ?gs] exI [of _ w'] conjI) simp_all
  qed
qed

lemma start_inv: "0 \<le> ro_pending_group_target args \<Longrightarrow> driver_inv args f b b [] (start_rollout w)"
  by (simp add: driver_inv_def tasks_inv_def groups_inv_def window_inv_def gathered_def samples_in_def answered_def start_rollout_def reset_state_def)



lemma new_source_walking:
  "permutes perm \<Longrightarrow> prompts \<noteq> [] \<Longrightarrow> 0 < sa_n_samples_per_prompt args \<Longrightarrow> sa_rollout_global_dataset args \<Longrightarrow>
   walking args perm prompts seed (new_source args perm prompts seed) 0"
  using new_source_ok [of perm args prompts seed] by (simp add: walking_def new_source_def position_def)

definition one_each :: source_args where
  "one_each = \<lparr>sa_rollout_global_dataset = True, sa_rollout_shuffle = False, sa_n_samples_per_prompt = 1\<rparr>"

definition demo_fn :: "(char source, char) data_fn" where
  "demo_fn = get_samples one_each (\<lambda>seed n. [0..<n]) pop_first (new_sample CHR ''x'')"

definition demo_source :: "char source" where
  "demo_source = new_source one_each (\<lambda>seed n. [0..<n]) (map new_sample ''ab'') 0"

definition plain_env :: window_env where
  "plain_env = \<lparr>we_online_scheduler = False, we_multiplier = 2, we_extra = 0, we_cap = 0\<rparr>"

definition two_groups :: "bool \<Rightarrow> rollout_args" where
  \<comment> \<open>two groups of one sample, no oversampling, the window as the environment gives it\<close>
  "two_groups rolling = \<lparr>ro_rollout_batch_size = 2, ro_over_sampling_batch_size = 2, ro_n_samples_per_prompt = 1, ro_rolling_refill = rolling,
     ro_pending_group_target = effective_pending_group_target plain_env 2 2 rolling, ro_seeds = None\<rparr>"

lemma two_groups_window [simp]: "ro_pending_group_target (two_groups rolling) = 2"
  by (simp add: two_groups_def effective_pending_group_target_def online_scheduler_pending_group_target_def plain_env_def)

lemma demo_walking: "walking one_each (\<lambda>seed n. [0..<n]) (map new_sample ''ab'') 0 demo_source 0"
  unfolding demo_source_def by (rule new_source_walking) (simp_all add: permutes_def one_each_def)

definition grown :: "char task \<Rightarrow> char sample list res" where
  "grown t = Inr [ta_sample t]"

definition in_steps :: "char task \<Rightarrow> char sample list res" where
  \<comment> \<open>two samples for each task, copies of its own that stand for two steps\<close>
  "in_steps t = (if sm_index (ta_sample t) = None then Inl (RuntimeError ''engine'') else Inr [ta_sample t, ta_sample t])"

lemma in_steps_own [simp]: "own_samples t (in_steps t)" "in_steps t \<noteq> Inr []"
  by (auto simp: own_samples_def in_steps_def)


text \<open>The first round of the default mode, when all its tasks end at once.\<close>

definition demo_issued :: "char generate_state" where
  "demo_issued = submit_generate_tasks_bfs None (fst (demo_fn 2 demo_source)) reset_state"

definition demo_open :: "(char, char source) driver" where
  "demo_open = (start_rollout demo_source)\<lparr>dr_state := take_tasks (ge_pendings demo_issued) demo_issued, dr_source := snd (demo_fn 2 demo_source)\<rparr>"

lemma two_groups_fields: "ro_rollout_batch_size (two_groups False) = 2" "ro_over_sampling_batch_size (two_groups False) = 2"
  "\<not> ro_rolling_refill (two_groups False)" "ro_seeds (two_groups False) = None"
  by (simp_all add: two_groups_def)

lemma full_window: "ge_remaining_batch_size st = 2 \<Longrightarrow> refill_pending_groups (two_groups False) demo_fn 0 st w = Some (st, w)"
  by (subst refill_pending_groups.simps) simp

lemma demo_round: "rollout_round (two_groups False) demo_fn rm flt (\<lambda>t r. r = f t) (start_rollout demo_source)
    (absorb_results (two_groups False) rm flt (map f (ge_pendings demo_issued)) demo_open)"
proof -
  have len: "length (fst (demo_fn 2 demo_source)) = 2" by code_simp
  have refill: "refill_pending_groups (two_groups False) demo_fn 0 reset_state demo_source = Some (demo_issued, snd (demo_fn 2 demo_source))"
    using full_window [of demo_issued "snd (demo_fn 2 demo_source)"] len two_groups_fields
    by (subst refill_pending_groups.simps) (simp add: demo_issued_def reset_state_def refill_size_def submit_generate_tasks_bfs_def case_prod_beta)
  have some: "ge_pendings demo_issued \<noteq> []" by code_simp
  show ?thesis unfolding demo_open_def
    by (rule tasks_done) (use refill some two_groups_fields in \<open>simp_all add: start_rollout_def list_all2_map2 list.rel_refl\<close>)
qed


text \<open>Without rolling refill, which is the default, a dropped group keeps its place in the window.  A rollout
  that has dropped as many groups as it needs waits for an empty set of tasks and raises.\<close>

lemma dropped_groups_end_rollout:
  "\<exists>d. rollout_round (two_groups False) demo_fn (\<lambda>g. None) (\<lambda>g. (False, None)) (\<lambda>t r. r = grown t) (start_rollout demo_source) (Inr d) \<and>
     rollout_round (two_groups False) demo_fn (\<lambda>g. None) (\<lambda>g. (False, None)) (\<lambda>t r. r = grown t) d (Inl (ValueError ''Set of Tasks/Futures is empty.''))"
proof -
  let ?rm = "\<lambda>g :: char sample list. None :: reward list option" and ?flt = "\<lambda>g :: char sample list. (False, None :: string option)"
  have "case absorb_results (two_groups False) ?rm ?flt (map grown (ge_pendings demo_issued)) demo_open of
      Inl e \<Rightarrow> False | Inr d \<Rightarrow> dr_data d = [] \<and> ge_pendings (dr_state d) = [] \<and> ge_remaining_batch_size (dr_state d) = 2"
    by code_simp
  then obtain d where d: "absorb_results (two_groups False) ?rm ?flt (map grown (ge_pendings demo_issued)) demo_open = Inr d" "dr_data d = []"
    "ge_pendings (dr_state d) = []" "ge_remaining_batch_size (dr_state d) = 2" by (auto split: sum.splits)
  have "rollout_round (two_groups False) demo_fn ?rm ?flt (\<lambda>t r. r = grown t) d (Inl (ValueError ''Set of Tasks/Futures is empty.''))"
    by (rule nothing_pending [where st = "dr_state d" and w = "dr_source d"]) (use full_window [of "dr_state d" "dr_source d"] d two_groups_fields in simp_all)
  with demo_round [of ?rm ?flt grown, unfolded d(1)] show ?thesis by blast
qed

text \<open>Where a task returns one sample for each step, a group closes at as many steps as a prompt has samples:
  here the two steps of one sample make a group while the other sample of the prompt is still being
  generated, and the window counts the prompt as finished.\<close>

definition two_samples :: rollout_args where
  "two_samples = \<lparr>ro_rollout_batch_size = 1, ro_over_sampling_batch_size = 1, ro_n_samples_per_prompt = 2, ro_rolling_refill = True,
     ro_pending_group_target = 1, ro_seeds = None\<rparr>"

definition two_each :: source_args where
  "two_each = \<lparr>sa_rollout_global_dataset = True, sa_rollout_shuffle = False, sa_n_samples_per_prompt = 2\<rparr>"

definition pair_issued :: "char generate_state" where
  "pair_issued = submit_generate_tasks_bfs None (fst (get_samples two_each (\<lambda>seed n. [0..<n]) pop_first (new_sample CHR ''x'') 1
     (new_source two_each (\<lambda>seed n. [0..<n]) (map new_sample ''ab'') 0))) reset_state"

lemma step_samples_close_groups:
  "case absorb_results two_samples (\<lambda>g. None) (\<lambda>g. (True, None)) [in_steps (hd (ge_pendings pair_issued))]
      ((start_rollout demo_source)\<lparr>dr_state := take_tasks [hd (ge_pendings pair_issued)] pair_issued\<rparr>) of
     Inl e \<Rightarrow> False
   | Inr d \<Rightarrow> map (map sm_index) (dr_data d) = [[Some 0, Some 0]] \<and> map task_key (ge_pendings (dr_state d)) = [1] \<and>
       ge_remaining_batch_size (dr_state d) = 0"
  by code_simp

text \<open>The tasks are single samples, so what abort collects of a partial rollout are groups of one, which the
  data source refuses as soon as a prompt has more samples.\<close>

lemma partial_samples_are_refused:
  "sa_n_samples_per_prompt sargs \<noteq> 1 \<Longrightarrow>
   add_samples sargs (abort_samples True rollout_id (map (\<lambda>x. [x]) (x # xs))) s = (Inl (AssertionError ''length of a group''), s)"
  by (simp add: add_samples_def abort_samples_def)

end
