(* ===== verification/Rollout_Rewards.thy ===== *)
theory Rollout_Rewards
  imports Data_Source Training_Batches
begin

text \<open>
  From finished samples to training data (slime/slime/ray/rollout.py): the global batch size of a
  rollout, trimming, dropping groups of constant reward, the group-wise normalization of rewards, the
  step-wise rewards, and the columns of the training data.  Floats are reals; the standard deviation of
  a tensor is the unbiased one; a missing group index counts as -1; the data parallel size is positive.
  Left out: the hooks for custom functions, the debug data, the columns read from a sample's metadata and
  those of multimodal inputs, routed experts and teachers.
\<close>

section \<open>Batch size and trimming\<close>

definition compute_dynamic_global_batch_size :: "nat \<Rightarrow> nat \<Rightarrow> int option \<Rightarrow> nat" where
  "compute_dynamic_global_batch_size dp_size num_samples target_steps =
     (let desired_steps = (case target_steps of None \<Rightarrow> 1 | Some t \<Rightarrow> if 0 < t then nat t else 1);
          per_step_target = max 1 (num_samples div desired_steps);
          dynamic_gbs = (per_step_target div dp_size) * dp_size
      in if dynamic_gbs = 0 then dp_size else dynamic_gbs)"

definition trim_samples :: "'a list \<Rightarrow> nat \<Rightarrow> 'a list res" where
  "trim_samples data global_batch_size =
     (if global_batch_size = 0 then Inl (OtherError ''ZeroDivisionError'')
      else if length data mod global_batch_size \<noteq> 0 then
        (let trim_len = (length data div global_batch_size) * global_batch_size
         in if trim_len = 0 then Inl (ValueError ''Not enough samples'') else Inr (take trim_len data))
      else Inr data)"

record reward_args =
  ra_advantage_estimator :: string
  ra_rewards_normalization :: bool
  ra_grpo_std_normalization :: bool
  ra_dynamic_history :: bool
  ra_reward_key :: "string option"
  ra_n_samples_per_prompt :: nat
  ra_rollout_batch_size :: nat
  ra_dp_size :: nat
  ra_global_batch_size :: nat
  ra_num_steps_per_rollout :: "int option"
  ra_use_dynamic_global_batch_size :: bool
  ra_disable_rollout_trim_samples :: bool

definition get_rollout_data :: "reward_args \<Rightarrow> 'a list list \<Rightarrow> ('a list \<times> nat option) res" where
  \<comment> \<open>the flattened groups of a rollout, trimmed, and \<open>_dynamic_global_batch_size\<close> if it is set\<close>
  "get_rollout_data args groups =
     (let data = concat groups
      in if groups = [] \<or> data = [] then Inl (OtherError ''IndexError'')
         else if ra_disable_rollout_trim_samples args then Inr (data, None)
         else
           (let auto_dynamic = ra_dynamic_history args \<and> ra_num_steps_per_rollout args \<noteq> None;
                use_dynamic = ra_use_dynamic_global_batch_size args \<or> auto_dynamic;
                gbs = (if use_dynamic then
                         compute_dynamic_global_batch_size (ra_dp_size args) (length data)
                           (if auto_dynamic then ra_num_steps_per_rollout args else None)
                       else ra_global_batch_size args)
            in case trim_samples data gbs of
                 Inl e \<Rightarrow> Inl e
               | Inr trimmed \<Rightarrow> Inr (trimmed, if use_dynamic then Some gbs else None)))"

section \<open>Groups\<close>

definition group_of :: "'p sample \<Rightarrow> int" where
  "group_of s = (case sm_group_index s of None \<Rightarrow> -1 | Some i \<Rightarrow> i)"

definition group_to_indices :: "int list \<Rightarrow> (int \<times> nat list) list" where
  \<comment> \<open>the positions of each group, groups in the order of their first sample\<close>
  "group_to_indices gs = fold (\<lambda>(i, g) d. dset g (dget_def d g [] @ [i]) d) (zip [0..<length gs] gs) []"

fun float_rewards :: "string option \<Rightarrow> 'p sample list \<Rightarrow> real list res" where
  "float_rewards key [] = Inr []"
| "float_rewards key (s # ss) =
     (case get_reward_value key s of
        Inl e \<Rightarrow> Inl e
      | Inr (Some (Score r)) \<Rightarrow> (case float_rewards key ss of Inl e \<Rightarrow> Inl e | Inr rs \<Rightarrow> Inr (r # rs))
      | Inr _ \<Rightarrow> Inl (TypeError ''float() argument must be a string or a real number''))"

definition drop_constant_reward_groups :: "reward_args \<Rightarrow> 'p sample list \<Rightarrow> 'p sample list res" where
  "drop_constant_reward_groups args samples =
     (if samples = [] \<or> ra_advantage_estimator args \<notin> {''grpo'', ''gspo''} \<or> \<not> ra_rewards_normalization args then Inr samples
      else case float_rewards (ra_reward_key args) samples of
             Inl e \<Rightarrow> Inl e
           | Inr raw \<Rightarrow>
               (let groups = group_to_indices (map group_of samples);
                    constant = map fst (filter (\<lambda>(g, idxs). let vals = map (\<lambda>i. raw ! i) idxs in vals \<noteq> [] \<and> Max (set vals) - Min (set vals) \<le> 1 / 10 ^ 12) groups);
                    kept = filter (\<lambda>g. g \<notin> set constant) (map fst groups);
                    keep_groups = (if kept = [] then [fst (hd groups)] else kept)
                in Inr (if constant = [] then samples else filter (\<lambda>s. group_of s \<in> set keep_groups) samples)))"

section \<open>Normalization\<close>

definition tensor_mean :: "real list \<Rightarrow> real" where
  "tensor_mean xs = sum_list xs / real (length xs)"

definition tensor_std :: "real list \<Rightarrow> real" where
  \<comment> \<open>\<open>torch.std\<close>, of at least two values\<close>
  "tensor_std xs = sqrt (sum_list (map (\<lambda>x. (x - tensor_mean xs) ^ 2) xs) / real (length xs - 1))"

definition normalize_group :: "bool \<Rightarrow> real list \<Rightarrow> real list" where
  "normalize_group std_normalization xs =
     (let vals = map (\<lambda>x. x - tensor_mean xs) xs
      in if \<not> std_normalization then vals
         else if 1 < length xs then map (\<lambda>x. x / (tensor_std vals + 1 / 10 ^ 6)) vals
         else map (\<lambda>x. 0) vals)"

definition put_all :: "(nat \<times> real) list \<Rightarrow> real list \<Rightarrow> real list" where
  "put_all ps xs = fold (\<lambda>(i, v) ys. ys[i := v]) ps xs"

definition normalize_by_group :: "bool \<Rightarrow> int list \<Rightarrow> real list \<Rightarrow> real list" where
  "normalize_by_group std_normalization gs raw =
     fold (\<lambda>(g, idxs) rewards. put_all (zip idxs (normalize_group std_normalization (map (\<lambda>i. raw ! i) idxs))) rewards) (group_to_indices gs) raw"

definition trajectory_rewards :: "(int \<times> int) list \<Rightarrow> real list \<Rightarrow> ((int \<times> int) \<times> real) list" where
  \<comment> \<open>the first reward of each trajectory\<close>
  "trajectory_rewards keys raw = fold (\<lambda>(k, r) d. if dget d k = None then dset k r d else d) (zip keys raw) []"

definition normalize_by_trajectory :: "bool \<Rightarrow> (int \<times> int) list \<Rightarrow> real list \<Rightarrow> real list" where
  "normalize_by_trajectory std_normalization keys raw =
     (let by_key = trajectory_rewards keys raw;
          ks = map fst by_key;
          normalized = zip ks (normalize_by_group std_normalization (map fst ks) (map snd by_key))
      in map (\<lambda>k. dget_def normalized k 0) keys)"

definition trajectory_keys :: "'p sample list \<Rightarrow> (int \<times> int) list" where
  "trajectory_keys samples =
     map (\<lambda>(i, s). (group_of s, case sm_index s of None \<Rightarrow> int i | Some j \<Rightarrow> int j)) (zip [0..<length samples] samples)"

definition center_rows :: "nat \<Rightarrow> real list \<Rightarrow> real list" where
  \<comment> \<open>\<open>reshape(-1, n)\<close>, minus the mean of each row\<close>
  "center_rows n xs = concat (map (\<lambda>r. map (\<lambda>i. xs ! (r * n + i) - tensor_mean (take n (drop (r * n) xs))) [0..<n]) [0..<length xs div n])"

definition post_process_rewards :: "reward_args \<Rightarrow> 'p sample list \<Rightarrow> (real list \<times> real list) res" where
  \<comment> \<open>raw rewards and rewards; the reward value of a sample that is trained is a number\<close>
  "post_process_rewards args samples =
     (case float_rewards (ra_reward_key args) samples of
        Inl e \<Rightarrow> Inl e
      | Inr raw \<Rightarrow>
          Inr (raw,
            if ra_advantage_estimator args \<in> {''grpo'', ''gspo''} \<and> ra_rewards_normalization args then
              (if ra_dynamic_history args then normalize_by_trajectory (ra_grpo_std_normalization args) (trajectory_keys samples) raw
               else normalize_by_group (ra_grpo_std_normalization args) (map group_of samples) raw)
            else if ra_advantage_estimator args = ''reinforce_plus_plus_baseline'' \<and> ra_rewards_normalization args then
              center_rows (if length raw = ra_n_samples_per_prompt args * ra_rollout_batch_size args then ra_n_samples_per_prompt args else length raw) raw
            else raw))"

section \<open>The positions of a group\<close>

definition positions :: "int list \<Rightarrow> int \<Rightarrow> nat list" where
  "positions gs g = filter (\<lambda>i. gs ! i = g) [0..<length gs]"

lemma group_to_indices_get:
  "distinct (map fst (group_to_indices gs)) \<and> set (map fst (group_to_indices gs)) = set gs \<and>
   (\<forall>g \<in> set gs. dget (group_to_indices gs) g = Some (positions gs g)) \<and>
   (gs \<noteq> [] \<longrightarrow> group_to_indices gs \<noteq> [] \<and> fst (hd (group_to_indices gs)) = hd gs)"
proof -
  let ?step = "\<lambda>(i, g) d. dset g (dget_def d g [] @ [i]) d"
  have "distinct (map fst (fold ?step (zip [0..<k] (take k gs)) [])) \<and> set (map fst (fold ?step (zip [0..<k] (take k gs)) [])) = set (take k gs) \<and>
    (\<forall>g. dget (fold ?step (zip [0..<k] (take k gs)) []) g = (if g \<in> set (take k gs) then Some (filter (\<lambda>i. gs ! i = g) [0..<k]) else None)) \<and>
    (0 < k \<longrightarrow> fold ?step (zip [0..<k] (take k gs)) [] \<noteq> [] \<and> fst (hd (fold ?step (zip [0..<k] (take k gs)) [])) = hd gs)"
    if "k \<le> length gs" for k
    using that
  proof (induction k)
    case (Suc k)
    define d where "d = fold ?step (zip [0..<k] (take k gs)) []"
    have IH: "distinct (map fst d)" "set (map fst d) = set (take k gs)"
      "\<And>g. dget d g = (if g \<in> set (take k gs) then Some (filter (\<lambda>i. gs ! i = g) [0..<k]) else None)"
      "0 < k \<Longrightarrow> d \<noteq> [] \<and> fst (hd d) = hd gs" using Suc.IH Suc.prems unfolding d_def by auto
    let ?v = "dget_def d (gs ! k) [] @ [k]"
    have tk: "take (Suc k) gs = take k gs @ [gs ! k]" using Suc.prems by (simp add: take_Suc_conv_app_nth)
    have z: "zip [0..<Suc k] (take (Suc k) gs) = zip [0..<k] (take k gs) @ [(k, gs ! k)]"
      unfolding tk using Suc.prems by (simp add: zip_append)
    have f: "fold ?step (zip [0..<Suc k] (take (Suc k) gs)) [] = dset (gs ! k) ?v d" unfolding z d_def by simp
    have none: "filter (\<lambda>i. gs ! i = gs ! k) [0..<k] = []" if "gs ! k \<notin> set (take k gs)"
      using that Suc.prems by (auto simp: filter_empty_conv in_set_conv_nth)
    have "dget (dset (gs ! k) ?v d) g = (if g \<in> set (take (Suc k) gs) then Some (filter (\<lambda>i. gs ! i = g) [0..<Suc k]) else None)" for g
      unfolding tk using none by (auto simp: dget_dset IH(3) dget_def_def)
    moreover have "set (map fst (dset (gs ! k) ?v d)) = set (take (Suc k) gs)" unfolding tk using IH(2) by (simp add: keys_dset)
    moreover have "distinct (map fst (dset (gs ! k) ?v d))" using IH(1) by (simp add: distinct_dset)
    moreover have "dset (gs ! k) ?v d \<noteq> [] \<and> fst (hd (dset (gs ! k) ?v d)) = hd gs"
    proof (cases "k = 0")
      case True
      then have "d = []" using IH(2) by simp
      with True Suc.prems show ?thesis by (cases gs) auto
    next
      case False
      with IH(4) show ?thesis by (cases d) auto
    qed
    ultimately show ?case unfolding f by blast
  qed simp
  from this [of "length gs"] show ?thesis by (auto simp: group_to_indices_def positions_def)
qed

lemma put_all_nth: "distinct is \<Longrightarrow> j < length ys \<Longrightarrow> put_all (map (\<lambda>i. (i, f i)) is) ys ! j = (if j \<in> set is then f j else ys ! j)"
  unfolding put_all_def by (induction "is" arbitrary: ys) (auto simp: nth_list_update)

lemma length_put_all [simp]: "length (put_all ps ys) = length ys"
  unfolding put_all_def by (induction ps arbitrary: ys) auto

definition norm_value :: "bool \<Rightarrow> real list \<Rightarrow> real \<Rightarrow> real" where
  "norm_value std_normalization xs x =
     (if \<not> std_normalization then x - tensor_mean xs
      else if 1 < length xs then (x - tensor_mean xs) / (tensor_std (map (\<lambda>x. x - tensor_mean xs) xs) + 1 / 10 ^ 6) else 0)"

lemma normalize_group_map: "normalize_group b xs = map (norm_value b xs) xs"
  by (simp add: normalize_group_def norm_value_def Let_def)

lemma normalize_by_group_nth:
  assumes "length gs = length raw" "i < length raw"
  shows "length (normalize_by_group b gs raw) = length raw \<and>
    normalize_by_group b gs raw ! i = norm_value b (map (\<lambda>j. raw ! j) (positions gs (gs ! i))) (raw ! i)"
proof -
  let ?f = "\<lambda>(g, idxs) rewards. put_all (zip idxs (normalize_group b (map (\<lambda>i. raw ! i) idxs))) rewards"
  let ?val = "\<lambda>i. norm_value b (map (\<lambda>j. raw ! j) (positions gs (gs ! i))) (raw ! i)"
  have "length (fold ?f es ys) = length ys \<and> (fold ?f es ys ! i = (if gs ! i \<in> set (map fst es) then ?val i else ys ! i))"
    if "\<And>g idxs. (g, idxs) \<in> set es \<Longrightarrow> idxs = positions gs g" "length ys = length raw" for es ys
    using that
  proof (induction es arbitrary: ys)
    case (Cons e es)
    obtain g where e: "e = (g, positions gs g)" using Cons.prems(1) by (cases e) auto
    let ?ys = "put_all (zip (positions gs g) (normalize_group b (map (\<lambda>i. raw ! i) (positions gs g)))) ys"
    have z: "zip (positions gs g) (normalize_group b (map (\<lambda>i. raw ! i) (positions gs g))) =
      map (\<lambda>i. (i, norm_value b (map (\<lambda>j. raw ! j) (positions gs g)) (raw ! i))) (positions gs g)"
      by (simp add: normalize_group_map zip_map2 zip_same_conv_map)
    have "?ys ! i = (if gs ! i = g then ?val i else ys ! i)" unfolding z
      using assms Cons.prems(2) by (auto simp: put_all_nth positions_def)
    moreover have "length (fold ?f es ?ys) = length ?ys \<and> (fold ?f es ?ys ! i = (if gs ! i \<in> set (map fst es) then ?val i else ?ys ! i))"
      by (rule Cons.IH) (use Cons.prems in auto)
    ultimately show ?case unfolding e by auto
  qed simp
  moreover have "idxs = positions gs g" if "(g, idxs) \<in> set (group_to_indices gs)" for g idxs
  proof -
    have "g \<in> set gs" using that group_to_indices_get [of gs] by force
    then have "dget (group_to_indices gs) g = Some (positions gs g)" using group_to_indices_get [of gs] by blast
    with that group_to_indices_get [of gs] show ?thesis by (metis map_of_is_SomeI option.inject)
  qed
  ultimately have "length (normalize_by_group b gs raw) = length raw \<and>
    normalize_by_group b gs raw ! i = (if gs ! i \<in> set (map fst (group_to_indices gs)) then ?val i else raw ! i)"
    unfolding normalize_by_group_def by blast
  moreover have "gs ! i \<in> set (map fst (group_to_indices gs))" using group_to_indices_get [of gs] assms by auto
  ultimately show ?thesis by simp
qed

lemma sum_centered: "xs \<noteq> [] \<Longrightarrow> sum_list (map (\<lambda>x. x - tensor_mean xs) xs) = 0"
  by (simp add: sum_list_subtractf sum_list_triv tensor_mean_def)

lemma sum_norm_value: "xs \<noteq> [] \<Longrightarrow> sum_list (map (norm_value b xs) xs) = 0"
proof -
  assume xs: "xs \<noteq> []"
  have "sum_list (map (\<lambda>x. (x - m) / c) ys) = sum_list (map (\<lambda>x. x - m) ys) / c" for c m and ys :: "real list"
    by (induction ys) (simp_all add: add_divide_distrib)
  then have "sum_list (map (\<lambda>x. (x - tensor_mean xs) / c) xs) = 0" for c using sum_centered [OF xs] by simp
  then show ?thesis using sum_centered [OF xs]
    by (cases b; cases "1 < length xs") (simp_all add: norm_value_def [abs_def])
qed

lemma std_nonneg: "0 \<le> tensor_std xs"
  by (auto simp: tensor_std_def intro!: divide_nonneg_nonneg sum_list_nonneg)

lemma norm_value_mono: "x \<le> y \<Longrightarrow> norm_value b xs x \<le> norm_value b xs y"
proof -
  assume le: "x \<le> y"
  have "0 < tensor_std (map (\<lambda>x. x - tensor_mean xs) xs) + 1 / 10 ^ 6" using std_nonneg [of "map (\<lambda>x. x - tensor_mean xs) xs"] by (simp add: add_nonneg_pos)
  then show ?thesis using le by (auto simp: norm_value_def divide_right_mono)
qed

text \<open>C38. Group-normalized rewards sum to zero over every group, whatever the sizes of the groups and with or
  without division by the standard deviation, and keep the order of the raw rewards within a group.\<close>

theorem group_rewards_centered:
  assumes "ra_advantage_estimator args \<in> {''grpo'', ''gspo''}" "ra_rewards_normalization args" "\<not> ra_dynamic_history args"
    and "post_process_rewards args samples = Inr (raw, rewards)" "g \<in> set (map group_of samples)"
  shows "length rewards = length samples \<and> sum_list (map (\<lambda>i. rewards ! i) (positions (map group_of samples) g)) = 0 \<and>
    (\<forall>i \<in> set (positions (map group_of samples) g). \<forall>j \<in> set (positions (map group_of samples) g). raw ! i \<le> raw ! j \<longrightarrow> rewards ! i \<le> rewards ! j)"
proof -
  let ?gs = "map group_of samples" and ?b = "ra_grpo_std_normalization args"
  let ?xs = "map (\<lambda>j. raw ! j) (positions ?gs g)"
  have raw: "float_rewards (ra_reward_key args) samples = Inr raw" and rewards: "rewards = normalize_by_group ?b ?gs raw"
    using assms(1-4) by (auto simp: post_process_rewards_def split: sum.splits)
  have "length rs = length ss" if "float_rewards key ss = Inr rs" for key and ss :: "'a sample list" and rs
    using that by (induction key ss arbitrary: rs rule: float_rewards.induct) (auto split: sum.splits option.splits reward.splits)
  then have len: "length raw = length samples" using raw by blast
  have val: "rewards ! i = norm_value ?b ?xs (raw ! i)" if "i \<in> set (positions ?gs g)" for i
    using that normalize_by_group_nth [of ?gs raw i ?b] len by (auto simp: rewards positions_def)
  obtain i where "i < length samples" "group_of (samples ! i) = g" using assms(5) by (auto simp: in_set_conv_nth)
  then have "i \<in> set (positions ?gs g)" by (simp add: positions_def)
  then have ne: "?xs \<noteq> []" by auto
  have "map (\<lambda>i. rewards ! i) (positions ?gs g) = map (norm_value ?b ?xs) ?xs" using val by simp
  then have "sum_list (map (\<lambda>i. rewards ! i) (positions ?gs g)) = 0" using sum_norm_value [OF ne, of ?b] by (simp only:)
  moreover have "length rewards = length samples"
  proof (cases samples)
    case (Cons s ss)
    then show ?thesis using normalize_by_group_nth [of ?gs raw 0 ?b] len by (simp add: rewards)
  qed (use assms(5) in simp)
  ultimately show ?thesis using val norm_value_mono by simp
qed

lemma group_rewards_centered_witness:
  "post_process_rewards \<lparr>ra_advantage_estimator = ''grpo'', ra_rewards_normalization = True, ra_grpo_std_normalization = False, ra_dynamic_history = False,
       ra_reward_key = None, ra_n_samples_per_prompt = 2, ra_rollout_batch_size = 1, ra_dp_size = 1, ra_global_batch_size = 2,
       ra_num_steps_per_rollout = None, ra_use_dynamic_global_batch_size = False, ra_disable_rollout_trim_samples = False\<rparr>
     (map (\<lambda>r. (new_sample ())\<lparr>sm_group_index := Some 0, sm_reward := Some (Score r)\<rparr>) [1, 3]) = Inr ([1, 3], [-1, 1]) \<and>
   sum_list (map (\<lambda>i. [-1, 1 :: real] ! i) (positions [0, 0] 0)) = 0"
  (is "post_process_rewards ?args ?samples = _ \<and> _")
proof -
  have v: "post_process_rewards ?args ?samples = Inr ([1, 3], [-1, 1])"
  proof -
    have "group_to_indices [0, 0] = [(0, [0, 1])]" by code_simp
    then show ?thesis
      by (simp add: post_process_rewards_def get_reward_value_def group_of_def normalize_by_group_def normalize_group_def tensor_mean_def put_all_def Let_def)
  qed
  have gs: "map group_of ?samples = [0, 0]" by (simp add: group_of_def)
  have "sum_list (map (\<lambda>i. [-1, 1 :: real] ! i) (positions (map group_of ?samples) 0)) = 0"
    by (rule conjunct1 [OF conjunct2 [OF group_rewards_centered [OF _ _ _ v]]]) (simp_all add: group_of_def)
  then show ?thesis using v unfolding gs by blast
qed

section \<open>Constant groups and batch sizes\<close>

definition spread_of :: "real list \<Rightarrow> nat list \<Rightarrow> real" where
  "spread_of raw idxs = Max (set (map (\<lambda>i. raw ! i) idxs)) - Min (set (map (\<lambda>i. raw ! i) idxs))"

text \<open>Groups are dropped whole: what is left are the samples of the groups whose rewards differ, in their
  order; when no group is like that, the first group alone; never nothing.\<close>

theorem constant_groups_dropped_whole:
  assumes "ra_advantage_estimator args \<in> {''grpo'', ''gspo''}" "ra_rewards_normalization args" "samples \<noteq> []"
    and "float_rewards (ra_reward_key args) samples = Inr raw"
  defines "gs \<equiv> map group_of samples"
  defines "varied \<equiv> filter (\<lambda>g. 1 / 10 ^ 12 < spread_of raw (positions gs g)) gs"
  shows "drop_constant_reward_groups args samples =
      Inr (filter (\<lambda>s. if varied = [] then group_of s = group_of (hd samples) else group_of s \<in> set varied) samples)"
    (is "_ = Inr ?left")
proof -
  note get = group_to_indices_get [of gs]
  let ?groups = "group_to_indices gs"
  define P where "P = (\<lambda>(g :: int, idxs). let vals = map (\<lambda>i. raw ! i) idxs in vals \<noteq> [] \<and> Max (set vals) - Min (set vals) \<le> 1 / 10 ^ 12)"
  have entry: "(g, idxs) \<in> set ?groups \<longleftrightarrow> g \<in> set gs \<and> idxs = positions gs g" for g idxs
    using get by (metis map_of_SomeD map_of_is_SomeI option.inject image_eqI fst_conv set_map)
  have ne: "positions gs g \<noteq> []" if g: "g \<in> set gs" for g
  proof -
    obtain i where "i < length gs" "gs ! i = g" using g by (auto simp: in_set_conv_nth)
    then have "i \<in> set (positions gs g)" by (simp add: positions_def)
    then show ?thesis by auto
  qed
  have P: "P (g, positions gs g) \<longleftrightarrow> spread_of raw (positions gs g) \<le> 1 / 10 ^ 12" if "g \<in> set gs" for g
    using ne [OF that] by (simp add: P_def spread_of_def Let_def)
  have const: "g \<in> set (map fst (filter P ?groups)) \<longleftrightarrow> g \<in> set gs \<and> spread_of raw (positions gs g) \<le> 1 / 10 ^ 12" for g
  proof -
    have "g \<in> set (map fst (filter P ?groups)) \<longleftrightarrow> (\<exists>idxs. (g, idxs) \<in> set ?groups \<and> P (g, idxs))" by force
    also have "\<dots> \<longleftrightarrow> g \<in> set gs \<and> P (g, positions gs g)" unfolding entry by blast
    finally show ?thesis using P by blast
  qed
  let ?const = "map fst (filter P ?groups)" and ?kept = "filter (\<lambda>g. g \<notin> set (map fst (filter P ?groups))) (map fst ?groups)"
  have kept: "set ?kept = set varied"
  proof -
    have "g \<in> set ?kept \<longleftrightarrow> g \<in> set varied" for g using get const [of g] by (auto simp: varied_def not_le)
    then show ?thesis by blast
  qed
  have first: "fst (hd ?groups) = group_of (hd samples)" using get assms(3) by (simp add: gs_def hd_map)
  have all: "samples = ?left" if "?const = []"
  proof -
    have in_varied: "g \<in> set varied" if "g \<in> set gs" for g using const [of g] \<open>?const = []\<close> that by (auto simp: varied_def)
    moreover have "group_of (hd samples) \<in> set varied" using assms(3) by (intro in_varied) (auto simp: gs_def)
    then have "varied \<noteq> []" by auto
    ultimately show ?thesis by (auto simp: gs_def filter_id_conv)
  qed
  have "?kept = [] \<longleftrightarrow> varied = []" using kept by (metis set_empty)
  then have "filter (\<lambda>s. group_of s \<in> set (if ?kept = [] then [fst (hd ?groups)] else ?kept)) samples = ?left"
    using kept first by (auto intro: filter_cong)
  with all show ?thesis using assms(1-4) unfolding drop_constant_reward_groups_def gs_def [symmetric] Let_def P_def by auto
qed

lemma left_not_empty:
  "samples \<noteq> [] \<Longrightarrow> varied = filter P (map group_of samples) \<Longrightarrow>
   filter (\<lambda>s. if varied = [] then group_of s = group_of (hd samples) else group_of s \<in> set varied) samples \<noteq> []"
  by (cases "varied = []") (auto simp: filter_empty_conv intro: hd_in_set)

lemma dynamic_batch_multiple:
  "0 < dp_size \<Longrightarrow> dp_size dvd compute_dynamic_global_batch_size dp_size n t \<and> 0 < compute_dynamic_global_batch_size dp_size n t"
  by (auto simp: compute_dynamic_global_batch_size_def Let_def)

section \<open>Step-wise rewards\<close>

record step_lists =
  sl_rewards :: "real list"
  sl_spans :: "(int \<times> int) list"
  sl_indices :: "int list"

definition empty_meta :: step_meta where
  "empty_meta = \<lparr>me_scores_with_outcome = None, me_scores = None, me_spans = [], me_indices = None\<rparr>"

definition step_lists_of :: "reward_args \<Rightarrow> 'p sample \<Rightarrow> step_lists res" where
  \<comment> \<open>what one sample's metadata say; malformed spans are skipped; with dynamic history a missing span is
      inferred from the loss mask; lists of different lengths are cut to the shortest\<close>
  "step_lists_of args s =
     (let meta = (case sm_step_wise s of None \<Rightarrow> empty_meta | Some m \<Rightarrow> m);
          rs = (case me_scores_with_outcome meta of Some r \<Rightarrow> r | None \<Rightarrow> case me_scores meta of Some r \<Rightarrow> r | None \<Rightarrow> []);
          ids = (case me_indices meta of Some ix \<Rightarrow> ix | None \<Rightarrow> map int [0..<length rs]);
          spans = List.map_filter id (me_spans meta);
          active = (case sm_loss_mask s of None \<Rightarrow> [] | Some mk \<Rightarrow> filter (\<lambda>i. mk ! i = 1) [0..<length mk]);
          cut = (\<lambda>rs spans ids. let n = min (length rs) (min (length spans) (length ids))
                   in \<lparr>sl_rewards = take n rs, sl_spans = take n spans, sl_indices = take n ids\<rparr>)
      in if spans = [] \<and> ra_dynamic_history args \<and> active \<noteq> [] then
           (let spans' = [(int (hd active), int (last active) + 1)]; ids' = (if ids = [] then [0] else ids)
            in if rs = [] then (case float_rewards (ra_reward_key args) [s] of Inl e \<Rightarrow> Inl e | Inr r \<Rightarrow> Inr (cut r spans' ids'))
               else Inr (cut rs spans' ids'))
         else Inr (cut rs spans ids))"

fun all_step_lists :: "reward_args \<Rightarrow> 'p sample list \<Rightarrow> step_lists list res" where
  "all_step_lists args [] = Inr []"
| "all_step_lists args (s # ss) =
     (case step_lists_of args s of
        Inl e \<Rightarrow> Inl e
      | Inr l \<Rightarrow> (case all_step_lists args ss of Inl e \<Rightarrow> Inl e | Inr ls \<Rightarrow> Inr (l # ls)))"

type_synonym step_key = "int \<times> int"      \<comment> \<open>group and step\<close>

type_synonym step_stats = "(step_key \<times> (real \<times> real \<times> nat)) list"

definition add_step :: "step_key \<Rightarrow> real \<Rightarrow> step_stats \<Rightarrow> step_stats" where
  "add_step key v stats = (case dget_def stats key (0, 0, 0) of (a, b, n) \<Rightarrow> dset key (a + v, b + v * v, n + 1) stats)"

definition step_statistics :: "int list \<Rightarrow> step_lists list \<Rightarrow> step_stats" where
  "step_statistics groups ls =
     fold (\<lambda>(g, l) stats. fold (\<lambda>(v, ix). add_step (g, ix) v) (zip (sl_rewards l) (sl_indices l)) stats) (zip groups ls) []"

definition key_mean :: "real \<times> real \<times> nat \<Rightarrow> real" where
  "key_mean st = (case st of (a, b, n) \<Rightarrow> a / real n)"

definition key_var :: "real \<times> real \<times> nat \<Rightarrow> real" where
  "key_var st = (case st of (a, b, n) \<Rightarrow> max (b / real n - key_mean st * key_mean st) 0)"

definition constant_key :: "real \<times> real \<times> nat \<Rightarrow> bool" where
  "constant_key st = (1 < snd (snd st) \<and> key_var st \<le> 1 / 10 ^ 12)"

definition kept_keys :: "step_stats \<Rightarrow> step_key list" where
  "kept_keys stats =
     (let kept = map fst (filter (\<lambda>(k, st). \<not> constant_key st) stats)
      in if kept = [] \<and> stats \<noteq> [] then [fst (hd stats)] else kept)"

definition normal_step :: "real \<times> real \<times> nat \<Rightarrow> real \<Rightarrow> real" where
  "normal_step st v = (if 1 < snd (snd st) then (v - key_mean st) / (sqrt (key_var st) + 1 / 10 ^ 6) else v)"

definition normalize_steps :: "step_stats \<Rightarrow> int \<Rightarrow> step_lists \<Rightarrow> step_lists" where
  "normalize_steps stats g l =
     (let kept = filter (\<lambda>(v, ix, sp). (g, ix) \<in> set (kept_keys stats)) (zip (sl_rewards l) (zip (sl_indices l) (sl_spans l)))
      in \<lparr>sl_rewards = map (\<lambda>(v, ix, sp). normal_step (dget_def stats (g, ix) (0, 0, 0)) v) kept,
          sl_spans = map (\<lambda>(v, ix, sp). sp) kept, sl_indices = map (\<lambda>(v, ix, sp). ix) kept\<rparr>)"

definition post_process_step_wise_rewards :: "reward_args \<Rightarrow> 'p sample list \<Rightarrow> (step_lists list \<times> int list \<times> 'p sample list) res" where
  \<comment> \<open>the lists of every sample, the groups, and the samples, those without a step left marked\<close>
  "post_process_step_wise_rewards args samples =
     (case all_step_lists args samples of
        Inl e \<Rightarrow> Inl e
      | Inr ls \<Rightarrow>
          (let groups = map group_of samples; stats = step_statistics groups ls; ls' = map2 (normalize_steps stats) groups ls
           in if \<not> ra_rewards_normalization args then Inr (ls, groups, samples)
              else Inr (ls', groups, map2 (\<lambda>s l. if sl_rewards l = [] then s\<lparr>sm_remove_sample := True\<rparr> else s) samples ls')))"

section \<open>Training data\<close>

definition fill_mask :: "'p sample \<Rightarrow> 'p sample res" where
  "fill_mask s =
     (let mk = (case sm_loss_mask s of None \<Rightarrow> replicate (sm_response_length s) 1 | Some mk \<Rightarrow> mk)
      in if length mk \<noteq> sm_response_length s then Inl (AssertionError ''loss mask length'')
         else Inr (s\<lparr>sm_loss_mask := Some (if sm_remove_sample s then replicate (sm_response_length s) 0 else mk)\<rparr>))"

fun fill_masks :: "'p sample list \<Rightarrow> 'p sample list res" where
  "fill_masks [] = Inr []"
| "fill_masks (s # ss) =
     (case fill_mask s of Inl e \<Rightarrow> Inl e | Inr s' \<Rightarrow> (case fill_masks ss of Inl e \<Rightarrow> Inl e | Inr ss' \<Rightarrow> Inr (s' # ss')))"

record train_data =
  td_tokens :: "int list list"
  td_response_lengths :: "nat list"
  td_rewards :: "real list"
  td_raw_reward :: "real list"
  td_truncated :: "nat list"
  td_sample_indices :: "nat option list"
  td_group_indices :: "int list option"
  td_steps :: "step_lists list option"
  td_loss_masks :: "int list list"
  td_rollout_log_probs :: "real list option list option"

definition convert_samples_to_train_data :: "reward_args \<Rightarrow> 'p sample list \<Rightarrow> train_data res" where
  "convert_samples_to_train_data args samples0 =
     (case drop_constant_reward_groups args samples0 of
        Inl e \<Rightarrow> Inl e
      | Inr samples1 \<Rightarrow>
          (case post_process_rewards args samples1 of
             Inl e \<Rightarrow> Inl e
           | Inr (raw, rewards) \<Rightarrow>
               (case (if ra_advantage_estimator args = ''step_wise'' then map_sum id (\<lambda>(ls, gs, ss). (Some ls, Some gs, ss)) (post_process_step_wise_rewards args samples1)
                      else Inr (None, if ra_advantage_estimator args \<in> {''grpo'', ''gspo''} then Some (map group_of samples1) else None, samples1)) of
                  Inl e \<Rightarrow> Inl e
                | Inr (steps, groups, samples2) \<Rightarrow>
                    (case fill_masks samples2 of
                       Inl e \<Rightarrow> Inl e
                     | Inr samples \<Rightarrow>
                         (if samples = [] then Inl (OtherError ''IndexError'')
                          else Inr \<lparr>td_tokens = map sm_tokens samples, td_response_lengths = map sm_response_length samples, td_rewards = rewards,
                                 td_raw_reward = raw, td_truncated = map (\<lambda>s. if sm_status s = St_Truncated then 1 else 0) samples,
                                 td_sample_indices = map sm_index samples, td_group_indices = groups, td_steps = steps,
                                 td_loss_masks = map (\<lambda>s. case sm_loss_mask s of None \<Rightarrow> [] | Some mk \<Rightarrow> mk) samples,
                                 td_rollout_log_probs = (if sm_rollout_log_probs (hd samples) \<noteq> None then Some (map sm_rollout_log_probs samples) else None)\<rparr>)))))"

section \<open>Normalized steps\<close>

definition step_values :: "int list \<Rightarrow> step_lists list \<Rightarrow> (step_key \<times> real) list" where
  "step_values groups ls = concat (map2 (\<lambda>g l. map (\<lambda>(v, ix). ((g, ix), v)) (zip (sl_rewards l) (sl_indices l))) groups ls)"

definition values_at :: "step_key \<Rightarrow> (step_key \<times> real) list \<Rightarrow> real list" where
  "values_at k vs = map snd (filter (\<lambda>kv. fst kv = k) vs)"

definition aligned :: "step_lists \<Rightarrow> bool" where
  "aligned l = (length (sl_spans l) = length (sl_rewards l) \<and> length (sl_indices l) = length (sl_rewards l))"

lemma step_statistics_fold: "step_statistics groups ls = fold (\<lambda>(k, v). add_step k v) (step_values groups ls) []"
proof -
  have one: "fold (\<lambda>(v, ix). add_step (g, ix) v) ps st = fold (\<lambda>(k, v). add_step k v) (map (\<lambda>(v, ix). ((g, ix), v)) ps) st" for g ps st
    by (induction ps arbitrary: st) auto
  have "fold (\<lambda>(g, l) stats. fold (\<lambda>(v, ix). add_step (g, ix) v) (zip (sl_rewards l) (sl_indices l)) stats) ps st =
    fold (\<lambda>(k, v). add_step k v) (concat (map (\<lambda>(g, l). map (\<lambda>(v, ix). ((g, ix), v)) (zip (sl_rewards l) (sl_indices l))) ps)) st" for ps st
    by (induction ps arbitrary: st) (auto simp: one)
  then show ?thesis by (simp add: step_statistics_def step_values_def)
qed

lemma add_steps_get:
  "dget_def (fold (\<lambda>(k, v). add_step k v) vs st) k (0, 0, 0) =
    (case dget_def st k (0, 0, 0) of (a, b, n) \<Rightarrow>
      (a + sum_list (values_at k vs), b + sum_list (map (\<lambda>v. v * v) (values_at k vs)), n + length (values_at k vs)))"
proof (induction vs arbitrary: st)
  case (Cons kv vs)
  obtain k' v where kv: "kv = (k', v)" by (cases kv)
  have "dget_def (add_step k' v st) k (0, 0, 0) =
    (if k' = k then (case dget_def st k (0, 0, 0) of (a, b, n) \<Rightarrow> (a + v, b + v * v, n + 1)) else dget_def st k (0, 0, 0))"
    by (auto simp: add_step_def dget_def_def dget_dset split: prod.splits)
  then show ?case using Cons.IH [of "add_step k' v st"] by (auto simp: kv values_at_def split: prod.splits)
qed (simp add: values_at_def split: prod.splits)

lemma statistics_at:
  "dget_def (step_statistics groups ls) k (0, 0, 0) =
    (let xs = values_at k (step_values groups ls) in (sum_list xs, sum_list (map (\<lambda>v. v * v) xs), length xs))"
  by (simp add: step_statistics_fold add_steps_get Let_def) (simp add: dget_def_def)

lemma values_at_map_filter:
  "values_at k (map (\<lambda>(k, v). (k, f k v)) (filter (\<lambda>(k, v). P k) vs)) = (if P k then map (f k) (values_at k vs) else [])"
  by (induction vs) (auto simp: values_at_def)

lemma normalize_steps_values:
  assumes "\<forall>l \<in> set ls. aligned l" "length groups = length ls"
  shows "step_values groups (map2 (normalize_steps stats) groups ls) =
    map (\<lambda>(k, v). (k, normal_step (dget_def stats k (0, 0, 0)) v)) (filter (\<lambda>(k, v). k \<in> set (kept_keys stats)) (step_values groups ls))"
proof -
  have one: "map (\<lambda>(v, ix). ((g, ix), v)) (zip (sl_rewards (normalize_steps stats g l)) (sl_indices (normalize_steps stats g l))) =
    map (\<lambda>(k, v). (k, normal_step (dget_def stats k (0, 0, 0)) v))
      (filter (\<lambda>(k, v). k \<in> set (kept_keys stats)) (map (\<lambda>(v, ix). ((g, ix), v)) (zip (sl_rewards l) (sl_indices l))))"
    if "aligned l" for g l
  proof -
    have "map (\<lambda>(v, ix). ((g, ix), v))
        (zip (map (\<lambda>(v, ix, sp). normal_step (dget_def stats (g, ix) (0, 0, 0)) v) (filter (\<lambda>(v, ix, sp). (g, ix) \<in> K) (zip vs (zip ixs sps))))
          (map (\<lambda>(v, ix, sp). ix) (filter (\<lambda>(v, ix, sp). (g, ix) \<in> K) (zip vs (zip ixs sps))))) =
      map (\<lambda>(k, v). (k, normal_step (dget_def stats k (0, 0, 0)) v)) (filter (\<lambda>(k, v). k \<in> K) (map (\<lambda>(v, ix). ((g, ix), v)) (zip vs ixs)))"
      if "length sps = length vs" "length ixs = length vs" for vs :: "real list" and ixs and sps :: "(int \<times> int) list" and K
      using that(2,1) by (induction ixs vs arbitrary: sps rule: list_induct2) (auto simp: length_Suc_conv)
    with that show ?thesis unfolding normalize_steps_def Let_def aligned_def by simp
  qed
  show ?thesis using assms(2,1) by (induction groups ls rule: list_induct2) (simp_all add: step_values_def one)
qed

lemma all_step_lists_aligned:
  "all_step_lists args samples = Inr ls \<Longrightarrow> length ls = length samples \<and> (\<forall>l \<in> set ls. aligned l)"
proof (induction args samples arbitrary: ls rule: all_step_lists.induct)
  case (2 args s ss)
  have "aligned l" if "step_lists_of args s = Inr l" for l
    using that by (auto simp: step_lists_of_def aligned_def Let_def split: sum.splits if_splits)
  then show ?case using 2 by (auto split: sum.splits)
qed simp

lemma normalize_steps_aligned: "aligned (normalize_steps stats g l)"
  by (simp add: normalize_steps_def aligned_def Let_def)

text \<open>The keys of the statistics are those of the values, in the order in which they come up.\<close>

lemma add_step_keys: "map fst (add_step k v st) = (if k \<in> set (map fst st) then map fst st else map fst st @ [k])"
  by (cases "dget_def st k (0, 0, 0)") (simp add: add_step_def update_keys)

lemma add_steps_keys:
  "distinct (map fst st) \<Longrightarrow> distinct (map fst (fold (\<lambda>(k, v). add_step k v) vs st)) \<and>
     set (map fst (fold (\<lambda>(k, v). add_step k v) vs st)) = set (map fst st) \<union> set (map fst vs) \<and>
     (\<exists>ks. map fst (fold (\<lambda>(k, v). add_step k v) vs st) = map fst st @ ks)"
proof (induction vs arbitrary: st)
  case (Cons kv vs)
  obtain k v where kv: "kv = (k, v)" by (cases kv)
  have "distinct (map fst (add_step k v st))" using Cons.prems by (simp add: add_step_keys)
  from Cons.IH [OF this] show ?case by (auto simp: kv add_step_keys)
qed simp

lemma statistics_keys:
  fixes groups ls
  defines "stats \<equiv> step_statistics groups ls" and "vs \<equiv> step_values groups ls"
  shows "distinct (map fst stats)" "set (map fst stats) = set (map fst vs)" "vs \<noteq> [] \<Longrightarrow> fst (hd stats) = fst (hd vs)"
proof -
  have stats: "stats = fold (\<lambda>(k, v). add_step k v) vs []" by (simp add: stats_def vs_def step_statistics_fold)
  show "distinct (map fst stats)" "set (map fst stats) = set (map fst vs)" using add_steps_keys [of "[]" vs] unfolding stats by auto
  show "fst (hd stats) = fst (hd vs)" if ne: "vs \<noteq> []"
  proof -
    obtain k v ws where vs: "vs = (k, v) # ws" using ne by (cases vs) auto
    obtain ks where "map fst stats = map fst (add_step k v []) @ ks" using add_steps_keys [of "add_step k v []" ws] unfolding stats vs by (auto simp: add_step_keys)
    then have "map fst stats = k # ks" by (simp add: add_step_keys)
    then show ?thesis by (cases stats) (simp_all add: vs)
  qed
qed

definition spread :: "real list \<Rightarrow> real" where
  \<comment> \<open>the mean square distance from the mean\<close>
  "spread xs = sum_list (map (\<lambda>x. (x - tensor_mean xs)\<^sup>2) xs) / real (length xs)"

definition standardized :: "real list \<Rightarrow> real list" where
  "standardized xs = map (\<lambda>x. (x - tensor_mean xs) / (sqrt (spread xs) + 1 / 10 ^ 6)) xs"

lemma spread_nonneg: "0 \<le> spread xs"
  unfolding spread_def by (intro divide_nonneg_nonneg sum_list_nonneg) auto

lemma key_var_spread: "xs \<noteq> [] \<Longrightarrow> key_var (sum_list xs, sum_list (map (\<lambda>v. v * v) xs), length xs) = spread xs"
proof -
  assume xs: "xs \<noteq> []"
  let ?m = "tensor_mean xs"
  have expand: "sum_list (map (\<lambda>x. (x - m)\<^sup>2) zs) = sum_list (map (\<lambda>v. v * v) zs) - 2 * m * sum_list zs + m * m * real (length zs)" for m :: real and zs
    by (induction zs) (simp_all add: power2_eq_square algebra_simps)
  have total: "sum_list xs = ?m * real (length xs)" using xs by (simp add: tensor_mean_def)
  have "sum_list (map (\<lambda>x. (x - ?m)\<^sup>2) xs) = sum_list (map (\<lambda>v. v * v) xs) - ?m * ?m * real (length xs)"
    unfolding expand total by (simp add: algebra_simps)
  then have "spread xs = sum_list (map (\<lambda>v. v * v) xs) / real (length xs) - ?m * ?m" using xs by (simp add: spread_def diff_divide_distrib)
  then show ?thesis using spread_nonneg [of xs] by (simp add: key_var_def key_mean_def tensor_mean_def)
qed

lemma sum_standardized: "xs \<noteq> [] \<Longrightarrow> sum_list (standardized xs) = 0"
proof -
  have "sum_list (map (\<lambda>x. (x - m) / sd) zs) = sum_list (map (\<lambda>x. x - m) zs) / sd" for m sd :: real and zs
    by (induction zs) (simp_all add: add_divide_distrib)
  then show "xs \<noteq> [] \<Longrightarrow> ?thesis" using sum_centered [of xs] by (simp add: standardized_def)
qed

lemma values_at_nonempty: "values_at k vs \<noteq> [] \<longleftrightarrow> k \<in> set (map fst vs)"
  by (force simp: values_at_def filter_empty_conv)

definition steady :: "real list \<Rightarrow> bool" where
  \<comment> \<open>the values of a step that carry no signal\<close>
  "steady xs = (1 < length xs \<and> spread xs \<le> 1 / 10 ^ 12)"

lemma fst_filter: "k \<in> set (map fst (filter (\<lambda>(k, st). P st) xs)) \<longleftrightarrow> (\<exists>st. (k, st) \<in> set xs \<and> P st)"
  by (induction xs) auto

lemma kept_keys_iff:
  fixes groups ls
  defines "stats \<equiv> step_statistics groups ls" and "vs \<equiv> step_values groups ls"
  shows "k \<in> set (kept_keys stats) \<longleftrightarrow> values_at k vs \<noteq> [] \<and>
    (\<not> steady (values_at k vs) \<or> k = fst (hd vs) \<and> (\<forall>k'. values_at k' vs \<noteq> [] \<longrightarrow> steady (values_at k' vs)))"
proof -
  note keys = statistics_keys [of groups ls, folded stats_def vs_def]
  have const: "constant_key st = steady (values_at k vs) \<and> values_at k vs \<noteq> []" if "(k, st) \<in> set stats" for k st
  proof -
    have ne: "values_at k vs \<noteq> []" using imageI [OF that, of fst] keys(2) by (simp add: values_at_nonempty)
    have "dget stats k = Some st" using that keys(1) by simp
    then have "dget_def stats k (0, 0, 0) = st" by (simp add: dget_def_def)
    then have "st = (sum_list (values_at k vs), sum_list (map (\<lambda>v. v * v) (values_at k vs)), length (values_at k vs))"
      by (simp add: stats_def vs_def statistics_at Let_def)
    with ne show ?thesis by (simp add: constant_key_def steady_def key_var_spread)
  qed
  have in_stats: "(\<exists>st. (k, st) \<in> set stats) \<longleftrightarrow> values_at k vs \<noteq> []" for k
    using keys(2) by (force simp: values_at_nonempty)
  let ?kept = "map fst (filter (\<lambda>(k, st). \<not> constant_key st) stats)"
  have kept: "k \<in> set ?kept \<longleftrightarrow> values_at k vs \<noteq> [] \<and> \<not> steady (values_at k vs)" for k
  proof -
    have "k \<in> set ?kept \<longleftrightarrow> (\<exists>st. (k, st) \<in> set stats \<and> \<not> constant_key st)"
      by (rule fst_filter)
    then show ?thesis using const [of k] in_stats [of k] by blast
  qed
  have none: "?kept = [] \<longleftrightarrow> (\<forall>k'. values_at k' vs \<noteq> [] \<longrightarrow> steady (values_at k' vs))"
  proof -
    have "?kept = [] \<longleftrightarrow> (\<forall>k'. k' \<notin> set ?kept)" by (simp only: set_empty [symmetric] all_not_in_conv)
    then show ?thesis unfolding kept by blast
  qed
  have empty: "stats = [] \<longleftrightarrow> vs = []" using keys(2) by (metis list.set(1) map_is_Nil_conv set_empty)
  show ?thesis
  proof (cases "?kept = [] \<and> stats \<noteq> []")
    case True
    then have "vs \<noteq> []" using empty by simp
    then have first: "fst (hd stats) = fst (hd vs)" "values_at (fst (hd vs)) vs \<noteq> []" using keys(3) by (simp_all add: values_at_nonempty)
    have ks: "k \<in> set (kept_keys stats) \<longleftrightarrow> k = fst (hd vs)" using True first(1) unfolding kept_keys_def Let_def by (simp only: if_True simp_thms) simp
    from True none have "\<forall>k'. values_at k' vs \<noteq> [] \<longrightarrow> steady (values_at k' vs)" by blast
    then show ?thesis unfolding ks using first(2) by blast
  next
    case False
    then have "k \<in> set (kept_keys stats) \<longleftrightarrow> k \<in> set ?kept" unfolding kept_keys_def Let_def by (simp only: if_False)
    moreover have "\<not> (values_at k vs \<noteq> [] \<and> (\<forall>k'. values_at k' vs \<noteq> [] \<longrightarrow> steady (values_at k' vs)))"
    proof
      assume k: "values_at k vs \<noteq> [] \<and> (\<forall>k'. values_at k' vs \<noteq> [] \<longrightarrow> steady (values_at k' vs))"
      then have "stats = []" using False none by blast
      with k empty show False by (simp add: values_at_def)
    qed
    ultimately show ?thesis using kept [of k] by blast
  qed
qed

text \<open>C39. Step-wise normalization works per group and step.  A value alone at its step stays as it is.  Of
  several values at a step, those that vary - their mean square distance from the mean is above
  1e-12 - are replaced, in order, by their distance from the mean over the standard deviation, which
  sum to zero; those that do not disappear, save that when no step of any group varies or has a
  single value, the step that came up first is kept and normalized the same way.\<close>

theorem step_rewards_normalized:
  fixes k :: step_key
  assumes "post_process_step_wise_rewards args samples = Inr (ls', groups, samples')" "ra_rewards_normalization args"
    and "all_step_lists args samples = Inr ls"
  defines "xs \<equiv> values_at k (step_values groups ls)" and "ys \<equiv> values_at k (step_values groups ls')"
    and "vals_of \<equiv> (\<lambda>k'. values_at k' (step_values groups ls))"
  shows "(length xs \<le> 1 \<longrightarrow> ys = xs) \<and>
    (1 < length xs \<and> 1 / 10 ^ 12 < spread xs \<longrightarrow> ys = standardized xs \<and> sum_list ys = 0) \<and>
    (1 < length xs \<and> spread xs \<le> 1 / 10 ^ 12 \<longrightarrow>
       (if k = fst (hd (step_values groups ls)) \<and> (\<forall>k'. vals_of k' \<noteq> [] \<longrightarrow> 1 < length (vals_of k') \<and> spread (vals_of k') \<le> 1 / 10 ^ 12)
        then ys = standardized xs \<and> sum_list ys = 0 else ys = []))"
proof -
  define stats where "stats = step_statistics groups ls"
  have ls': "ls' = map2 (normalize_steps stats) groups ls" and groups: "groups = map group_of samples"
    using assms(1-3) by (auto simp: post_process_step_wise_rewards_def Let_def stats_def)
  define c where "c = normal_step (dget_def stats k (0, 0, 0))"
  have ys: "ys = (if k \<in> set (kept_keys stats) then map c xs else [])"
    using all_step_lists_aligned [OF assms(3)]
    by (simp add: ys_def ls' groups xs_def c_def normalize_steps_values values_at_map_filter)
  have kept: "k \<in> set (kept_keys stats) \<longleftrightarrow> xs \<noteq> [] \<and>
      (\<not> steady xs \<or> k = fst (hd (step_values groups ls)) \<and> (\<forall>k'. vals_of k' \<noteq> [] \<longrightarrow> steady (vals_of k')))"
    unfolding stats_def xs_def vals_of_def by (rule kept_keys_iff)
  have st: "dget_def stats k (0, 0, 0) = (sum_list xs, sum_list (map (\<lambda>v. v * v) xs), length xs)"
    by (simp add: stats_def statistics_at xs_def Let_def)
  have many: "map c xs = standardized xs \<and> sum_list (map c xs) = 0" if n: "1 < length xs"
  proof -
    have "xs \<noteq> []" using n by auto
    moreover have "c = (\<lambda>x. (x - tensor_mean xs) / (sqrt (spread xs) + 1 / 10 ^ 6))"
      using n key_var_spread [OF \<open>xs \<noteq> []\<close>] by (auto simp: c_def normal_step_def st key_mean_def tensor_mean_def)
    then have "map c xs = standardized xs" by (simp add: standardized_def)
    ultimately show ?thesis using sum_standardized by simp
  qed
  have one: "ys = xs" if "length xs \<le> 1" using that
    by (cases xs) (auto simp: ys kept steady_def c_def st normal_step_def)
  show ?thesis using one many kept [unfolded steady_def] by (auto simp: ys)
qed

lemma step_rewards_normalized_witness:
  "let args = \<lparr>ra_advantage_estimator = ''step_wise'', ra_rewards_normalization = True, ra_grpo_std_normalization = False, ra_dynamic_history = False,
       ra_reward_key = None, ra_n_samples_per_prompt = 2, ra_rollout_batch_size = 1, ra_dp_size = 1, ra_global_batch_size = 2,
       ra_num_steps_per_rollout = None, ra_use_dynamic_global_batch_size = False, ra_disable_rollout_trim_samples = False\<rparr>;
     step = (\<lambda>r. (new_sample ())\<lparr>sm_group_index := Some 0, sm_step_wise := Some (empty_meta\<lparr>me_scores := Some [r], me_spans := [Some (0, 4)]\<rparr>)\<rparr>);
     ls = map (\<lambda>r. \<lparr>sl_rewards = [r], sl_spans = [(0, 4)], sl_indices = [0]\<rparr>) [1, 3]
   in all_step_lists args (map step [1, 3]) = Inr ls \<and>
      (\<exists>ls' ss. post_process_step_wise_rewards args (map step [1, 3]) = Inr (ls', [0, 0], ss) \<and>
         length (values_at (0, 0) (step_values [0, 0] ls')) = 2 \<and> sum_list (values_at (0, 0) (step_values [0, 0] ls')) = 0)"
proof -
  define args where "args = \<lparr>ra_advantage_estimator = ''step_wise'', ra_rewards_normalization = True, ra_grpo_std_normalization = False, ra_dynamic_history = False,
       ra_reward_key = None, ra_n_samples_per_prompt = 2, ra_rollout_batch_size = 1, ra_dp_size = 1, ra_global_batch_size = 2,
       ra_num_steps_per_rollout = None, ra_use_dynamic_global_batch_size = False, ra_disable_rollout_trim_samples = False\<rparr>"
  define step where "step = (\<lambda>r. (new_sample ())\<lparr>sm_group_index := Some 0, sm_step_wise := Some (empty_meta\<lparr>me_scores := Some [r], me_spans := [Some (0, 4)]\<rparr>)\<rparr>)"
  define ls where "ls = map (\<lambda>r. \<lparr>sl_rewards = [r :: real], sl_spans = [(0 :: int, 4 :: int)], sl_indices = [0 :: int]\<rparr>) [1, 3]"
  have ls: "all_step_lists args (map step [1, 3]) = Inr ls"
    by (simp add: ls_def step_def args_def step_lists_of_def empty_meta_def List.map_filter_def Let_def)
  have norm: "ra_rewards_normalization args" by (simp add: args_def)
  have gs: "map group_of (map step [1, 3]) = [0, 0]" by (simp add: step_def group_of_def)
  obtain ls' ss where p: "post_process_step_wise_rewards args (map step [1, 3]) = Inr (ls', [0, 0], ss)"
    using ls norm gs by (simp add: post_process_step_wise_rewards_def Let_def)
  have xs: "values_at (0, 0) (step_values [0, 0] ls) = [1, 3]" by (simp add: ls_def step_values_def values_at_def)
  have "length (values_at (0, 0) (step_values [0, 0] ls')) = 2 \<and> sum_list (values_at (0, 0) (step_values [0, 0] ls')) = 0"
    using step_rewards_normalized [OF p norm ls, of "(0, 0)"] by (simp add: xs spread_def tensor_mean_def standardized_def)
  with ls p show ?thesis unfolding Let_def args_def [symmetric] step_def [symmetric] ls_def [symmetric] by blast
qed

definition masked_args :: reward_args where
  "masked_args = \<lparr>ra_advantage_estimator = ''step_wise'', ra_rewards_normalization = True, ra_grpo_std_normalization = False,
     ra_dynamic_history = False, ra_reward_key = None, ra_n_samples_per_prompt = 1, ra_rollout_batch_size = 1, ra_dp_size = 1, ra_global_batch_size = 1,
     ra_num_steps_per_rollout = None, ra_use_dynamic_global_batch_size = False, ra_disable_rollout_trim_samples = False\<rparr>"

definition stepless :: "unit sample" where
  "stepless = (new_sample ())\<lparr>sm_tokens := [7, 8, 9], sm_response_length := 2, sm_reward := Some (Score 1)\<rparr>"

definition grpo_args :: reward_args where
  "grpo_args = \<lparr>ra_advantage_estimator = ''grpo'', ra_rewards_normalization = True, ra_grpo_std_normalization = False, ra_dynamic_history = False,
     ra_reward_key = None, ra_n_samples_per_prompt = 2, ra_rollout_batch_size = 2, ra_dp_size = 1, ra_global_batch_size = 4,
     ra_num_steps_per_rollout = None, ra_use_dynamic_global_batch_size = False, ra_disable_rollout_trim_samples = False\<rparr>"

definition rated :: "int \<times> real \<Rightarrow> unit sample" where
  "rated = (\<lambda>(g, r). (new_sample ())\<lparr>sm_group_index := Some g, sm_reward := Some (Score r)\<rparr>)"

text \<open>The rollout is trimmed to whole batches before groups are dropped.  With micro-batches of fixed size what
  a drop leaves of a batch is not trained: here a rollout of one batch trains nothing.\<close>

lemma drop_after_trim_loses_batch:
  "get_rollout_data grpo_args [map rated [(0, 1), (0, 1)], map rated [(1, 0), (1, 1)]] = Inr (map rated [(0, 1), (0, 1), (1, 0), (1, 1)], None)"
  "\<exists>td. convert_samples_to_train_data grpo_args (map rated [(0, 1), (0, 1), (1, 0), (1, 1)]) = Inr td \<and> length (td_tokens td) = 2 \<and>
     get_data_iterator \<lparr>ba_global_batch_size = 4, ba_micro_batch_size = 1, ba_use_dynamic_batch_size = False, ba_max_tokens_per_gpu = None\<rparr>
       \<lparr>pa_dp_size = 1, pa_cp_size = 1, pa_vpp_size = 1, pa_group_size = 1\<rparr> id (map (int \<circ> length) (td_tokens td)) None = Inr (Fixed_Size 1, [])"
proof -
  show "get_rollout_data grpo_args [map rated [(0, 1), (0, 1)], map rated [(1, 0), (1, 1)]] = Inr (map rated [(0, 1), (0, 1), (1, 0), (1, 1)], None)"
    by (simp add: get_rollout_data_def grpo_args_def trim_samples_def)
  let ?ss = "map rated [(0, 1), (0, 1), (1, 0), (1, 1)]" and ?left = "map rated [(1, 0), (1, 1)]"
  have args: "ra_advantage_estimator grpo_args \<in> {''grpo'', ''gspo''}" "ra_rewards_normalization grpo_args" "?ss \<noteq> []"
    by (simp_all add: grpo_args_def)
  have raw: "float_rewards (ra_reward_key grpo_args) ?ss = Inr [1, 1, 0, 1]" by (simp add: grpo_args_def rated_def get_reward_value_def)
  have gs: "map group_of ?ss = [0, 0, 1, 1]" by (simp add: rated_def group_of_def)
  have "filter (\<lambda>g. 1 / 10 ^ 12 < spread_of [1, 1, 0, 1] (positions [0, 0, 1, 1] g)) [0, 0, 1, 1] = [1, 1 :: int]"
    by (simp add: positions_def spread_of_def upt_rec)
  then have drop: "drop_constant_reward_groups grpo_args ?ss = Inr ?left"
    unfolding constant_groups_dropped_whole [OF args raw] gs by (simp add: rated_def group_of_def)
  have raw: "float_rewards (ra_reward_key grpo_args) ?left = Inr [0, 1]" by (simp add: grpo_args_def rated_def get_reward_value_def)
  obtain rewards where rewards: "post_process_rewards grpo_args ?left = Inr ([0, 1], rewards)" using raw by (simp add: post_process_rewards_def)
  have fill: "fill_mask (rated x) = Inr ((rated x)\<lparr>sm_loss_mask := Some []\<rparr>)" for x
    by (cases x) (simp add: fill_mask_def rated_def new_sample_def)
  have est: "ra_advantage_estimator grpo_args = ''grpo''" by (simp add: grpo_args_def)
  obtain td where "convert_samples_to_train_data grpo_args ?ss = Inr td" "length (td_tokens td) = 2"
    unfolding convert_samples_to_train_data_def drop using rewards by (simp add: est fill)
  then show "\<exists>td. convert_samples_to_train_data grpo_args ?ss = Inr td \<and> length (td_tokens td) = 2 \<and>
     get_data_iterator \<lparr>ba_global_batch_size = 4, ba_micro_batch_size = 1, ba_use_dynamic_batch_size = False, ba_max_tokens_per_gpu = None\<rparr>
       \<lparr>pa_dp_size = 1, pa_cp_size = 1, pa_vpp_size = 1, pa_group_size = 1\<rparr> id (map (int \<circ> length) (td_tokens td)) None = Inr (Fixed_Size 1, [])"
    by (auto simp: get_data_iterator_def)
qed

text \<open>A malformed span is skipped while the reward of its step stays, so each later reward is paired with the span
  of the next step.\<close>

lemma skipped_span_shifts_rewards:
  "map_sum id sl_spans (step_lists_of masked_args (stepless\<lparr>sm_step_wise := Some (empty_meta\<lparr>me_scores := Some [a, b], me_spans := [None, Some (5, 9)]\<rparr>)\<rparr>)) = Inr [(5, 9)]"
  "map_sum id sl_rewards (step_lists_of masked_args (stepless\<lparr>sm_step_wise := Some (empty_meta\<lparr>me_scores := Some [a, b], me_spans := [None, Some (5, 9)]\<rparr>)\<rparr>)) = Inr [a]"
  by (simp_all add: step_lists_of_def masked_args_def stepless_def empty_meta_def List.map_filter_def Let_def)

section \<open>The columns of the training data\<close>

lemma length_float_rewards: "float_rewards key ss = Inr rs \<Longrightarrow> length rs = length ss"
  by (induction key ss arbitrary: rs rule: float_rewards.induct) (auto split: sum.splits option.splits reward.splits)

lemma length_normalize_by_group: "length gs = length raw \<Longrightarrow> length (normalize_by_group b gs raw) = length raw"
  by (cases raw) (use normalize_by_group_nth [of gs raw 0 b] in \<open>auto simp: normalize_by_group_def group_to_indices_def\<close>)

lemma length_center_rows: "n dvd length xs \<Longrightarrow> length (center_rows n xs) = length xs"
  by (auto simp: center_rows_def length_concat o_def sum_list_triv)

lemma length_post_process_rewards:
  "post_process_rewards args samples = Inr (raw, rewards) \<Longrightarrow> length raw = length samples \<and> length rewards = length samples"
  using length_float_rewards
  by (auto simp: post_process_rewards_def length_normalize_by_group length_center_rows normalize_by_trajectory_def trajectory_keys_def Let_def
      split: sum.splits if_splits)

lemma length_drop_constant: "drop_constant_reward_groups args samples = Inr ss \<Longrightarrow> length ss \<le> length samples"
  by (auto simp: drop_constant_reward_groups_def Let_def split: if_splits sum.splits)

definition loss_mask_of :: "'p sample \<Rightarrow> int list" where
  "loss_mask_of s = (case sm_loss_mask s of None \<Rightarrow> [] | Some mk \<Rightarrow> mk)"

lemma fill_masks_all:
  "fill_masks ss = Inr ss' \<Longrightarrow> length ss' = length ss \<and> map sm_tokens ss' = map sm_tokens ss \<and>
   map sm_response_length ss' = map sm_response_length ss \<and> map length (map loss_mask_of ss') = map sm_response_length ss \<and>
   (\<forall>i < length ss. sm_remove_sample (ss ! i) \<longrightarrow> loss_mask_of (ss' ! i) = replicate (sm_response_length (ss ! i)) 0)"
proof (induction ss arbitrary: ss' rule: fill_masks.induct)
  case (2 s ss)
  obtain s1 ss1 where s: "fill_mask s = Inr s1" "fill_masks ss = Inr ss1" "ss' = s1 # ss1" using 2(2) by (auto split: sum.splits)
  have "sm_tokens s1 = sm_tokens s \<and> sm_response_length s1 = sm_response_length s \<and> length (loss_mask_of s1) = sm_response_length s \<and>
    (sm_remove_sample s \<longrightarrow> loss_mask_of s1 = replicate (sm_response_length s) 0)"
    using s(1) by (auto simp: fill_mask_def loss_mask_of_def Let_def split: if_splits option.splits)
  with 2(1) [OF s(1,2)] show ?case by (auto simp: s(3) nth_Cons split: nat.splits)
qed simp

lemma step_wise_columns:
  assumes "post_process_step_wise_rewards args samples = Inr (ls, gs, ss)"
  shows "length ls = length samples \<and> length gs = length samples \<and> length ss = length samples \<and> (\<forall>l \<in> set ls. aligned l) \<and>
    (ra_rewards_normalization args \<longrightarrow> (\<forall>i < length samples. sl_rewards (ls ! i) = [] \<longrightarrow> sm_remove_sample (ss ! i)))"
proof -
  obtain ls0 where ls0: "all_step_lists args samples = Inr ls0" using assms by (auto simp: post_process_step_wise_rewards_def split: sum.splits)
  note al = all_step_lists_aligned [OF ls0]
  then show ?thesis using assms by (auto simp: post_process_step_wise_rewards_def ls0 normalize_steps_aligned Let_def split: if_splits)
qed

text \<open>C40. The columns of the training data fit together: one entry per sample in each, every loss mask as long as
  the response, every list of step rewards as long as its spans and indices, and a sample whose steps were
  all dropped is masked out entirely.\<close>

theorem train_data_aligned:
  assumes "convert_samples_to_train_data args samples = Inr td"
  defines "n \<equiv> length (td_tokens td)"
  shows "0 < n \<and> n \<le> length samples \<and> length (td_response_lengths td) = n \<and> length (td_rewards td) = n \<and> length (td_raw_reward td) = n \<and>
    length (td_truncated td) = n \<and> length (td_sample_indices td) = n \<and> map length (td_loss_masks td) = td_response_lengths td \<and>
    (\<forall>gs. td_group_indices td = Some gs \<longrightarrow> length gs = n) \<and>
    (\<forall>lp. td_rollout_log_probs td = Some lp \<longrightarrow> length lp = n) \<and>
    (\<forall>ls. td_steps td = Some ls \<longrightarrow> length ls = n \<and> (\<forall>l \<in> set ls. aligned l) \<and>
       (ra_rewards_normalization args \<longrightarrow> (\<forall>i < n. sl_rewards (ls ! i) = [] \<longrightarrow> td_loss_masks td ! i = replicate (td_response_lengths td ! i) 0)))"
proof -
  obtain s1 where s1: "drop_constant_reward_groups args samples = Inr s1" using assms(1) by (auto simp: convert_samples_to_train_data_def split: sum.splits)
  obtain raw rewards where r: "post_process_rewards args s1 = Inr (raw, rewards)" using assms(1) s1 by (auto simp: convert_samples_to_train_data_def split: sum.splits)
  let ?steps = "if ra_advantage_estimator args = ''step_wise'' then map_sum id (\<lambda>(ls, gs, ss). (Some ls, Some gs, ss)) (post_process_step_wise_rewards args s1)
    else Inr (None, if ra_advantage_estimator args \<in> {''grpo'', ''gspo''} then Some (map group_of s1) else None, s1)"
  obtain steps groups s2 where st: "?steps = Inr (steps, groups, s2)"
    using assms(1) s1 r by (auto simp: convert_samples_to_train_data_def split: sum.splits if_splits)
  obtain s3 where s3: "fill_masks s2 = Inr s3" using assms(1) s1 r st by (auto simp: convert_samples_to_train_data_def split: sum.splits)
  have td: "s3 \<noteq> []" "td = \<lparr>td_tokens = map sm_tokens s3, td_response_lengths = map sm_response_length s3, td_rewards = rewards,
      td_raw_reward = raw, td_truncated = map (\<lambda>s. if sm_status s = St_Truncated then 1 else 0) s3,
      td_sample_indices = map sm_index s3, td_group_indices = groups, td_steps = steps, td_loss_masks = map loss_mask_of s3,
      td_rollout_log_probs = (if sm_rollout_log_probs (hd s3) \<noteq> None then Some (map sm_rollout_log_probs s3) else None)\<rparr>"
    using assms(1) s1 r st s3 by (simp_all add: convert_samples_to_train_data_def loss_mask_of_def [abs_def] split: if_splits)
  note len = length_drop_constant [OF s1] length_post_process_rewards [OF r] fill_masks_all [OF s3]
  show ?thesis
  proof (cases "ra_advantage_estimator args = ''step_wise''")
    case True
    then obtain ls gs where sw: "post_process_step_wise_rewards args s1 = Inr (ls, gs, s2)" "steps = Some ls" "groups = Some gs"
      using st by (cases "post_process_step_wise_rewards args s1") auto
    have resp: "td_response_lengths td ! i = sm_response_length (s2 ! i)" if "i < length s3" for i
      using len that td(2) by (metis nth_map select_convs(2))
    show ?thesis using len step_wise_columns [OF sw(1)] td(1) by (auto simp: n_def td(2) sw comp_def)
  next
    case False
    then show ?thesis using len st td(1) by (auto simp: n_def td(2) comp_def split: if_splits)
  qed
qed

lemma train_data_aligned_witness:
  "\<exists>td. convert_samples_to_train_data masked_args [stepless] = Inr td \<and>
    length (td_rewards td) = 1 \<and> length (td_loss_masks td) = 1 \<and> td_loss_masks td ! 0 = [0, 0]"
proof -
  let ?none = "\<lparr>sl_rewards = [], sl_spans = [], sl_indices = []\<rparr>"
  have drop: "drop_constant_reward_groups masked_args [stepless] = Inr [stepless]"
    by (simp add: drop_constant_reward_groups_def masked_args_def)
  have rewards: "post_process_rewards masked_args [stepless] = Inr ([1], [1])"
    by (simp add: post_process_rewards_def masked_args_def stepless_def new_sample_def get_reward_value_def)
  have "step_lists_of masked_args stepless = Inr ?none"
    by (simp add: step_lists_of_def masked_args_def stepless_def new_sample_def empty_meta_def List.map_filter_def Let_def)
  then have steps: "post_process_step_wise_rewards masked_args [stepless] = Inr ([?none], [-1], [stepless\<lparr>sm_remove_sample := True\<rparr>])"
    by (simp add: post_process_step_wise_rewards_def normalize_steps_def Let_def) (simp add: masked_args_def stepless_def new_sample_def group_of_def)
  have fill: "fill_mask (stepless\<lparr>sm_remove_sample := True\<rparr>) = Inr (stepless\<lparr>sm_remove_sample := True, sm_loss_mask := Some [0, 0]\<rparr>)"
    by (simp add: fill_mask_def stepless_def new_sample_def numeral_2_eq_2 Let_def)
  have est: "ra_advantage_estimator masked_args = ''step_wise''" by (simp add: masked_args_def)
  have fields: "sm_tokens stepless = [7, 8, 9]" "sm_response_length stepless = 2" by (simp_all add: stepless_def)
  obtain td where td: "convert_samples_to_train_data masked_args [stepless] = Inr td"
    and cols: "td_tokens td = [[7, 8, 9]]" "td_response_lengths td = [2]" "td_steps td = Some [?none]"
    using fields by (simp add: convert_samples_to_train_data_def drop rewards steps est fill)
  note ok = train_data_aligned [OF td]
  have "length (td_rewards td) = 1" "map length (td_loss_masks td) = [2]" using ok by (simp_all add: cols)
  moreover have "td_loss_masks td ! 0 = replicate 2 0" using ok by (simp add: cols masked_args_def)
  moreover have "length (td_loss_masks td) = 1" using calculation(2) by (metis length_map list.size(3,4) One_nat_def add_0)
  ultimately show ?thesis using td by (auto simp: numeral_2_eq_2)
qed

end
