(* ===== verification/Spec2Isabelle.thy ===== *)
theory Spec2Isabelle
  imports Pool_Properties Pool_Routes Checkpoint_Policy Registry_Properties Generate_Properties Radix_Properties
    Scheduler_Learning Exec_Gates Exec_Collection Exec_Warm_Threads Exec_Roundtrip Exec_Route_Properties
    Training_Batches Advantages Rollout_Driver Rollout_Rewards
begin

text \<open>
  Belayer: a verification library of its core logic.

  Belayer trains software-engineering agents.  Rollouts run in containers that an environment pool
  hands out; prompts are queued by a scheduler that knows what the pool has left; model calls go
  through a router that survives the loss of inference workers and caches tokenizations; a runtime
  library decides when a checkpoint of a container is worth taking.  The library models these parts
  from the Python sources, with executable definitions, and proves what makes them correct.

  Shared.  Prelude: exceptions as values (a call that can raise returns \<open>exc + 'a\<close>), dictionaries
  as association lists in insertion order, JSON fields that are missing, null or a value, the
  \<open>min\<close>, \<open>max\<close> and \<open>sort\<close> built-ins, and two interfaces: \<open>stepping\<close> (a transition system with an
  invariant) and \<open>bounded_slots\<close> (a counter that guards a limited resource).  PyText: the string
  methods used, on ASCII.

  Environment pool (swe-rl/server/swe_env_pool_server.py).  Pool_Server: \<open>exec_node\<close>, \<open>lease\<close> and
  \<open>pool\<close> are the classes' attributes; \<open>allocate\<close> with its throttle, slot and node reservation.
  Pool_Lease_Ops: commands proxied to a lease's container, \<open>close\<close>, checkpoints, \<open>rerun\<close>.
  Pool_Cluster_Ops: listing, garbage collection and draining over all nodes, statistics, status,
  health checks.  Pool_Routes: the Flask views.  Pool_Concurrency: allocations and closings cut
  into the regions the pool's lock protects, as the step relation \<open>pool_step\<close> over the pool and
  the phases of all threads, with the invariants of the global limit and of the node counters.
  Pool_Properties: each operation branch by branch.  The exec servers are transports: functions
  from a request and their state to a reply or an exception and a new state.

  Checkpoint policy (swe-rl/checkpoint_policy_runtime.py).  Checkpoint_Policy: the tail model (binary
  search over sorted waits and their prefix sums) shown equal to the statistics it names, costs and
  the probe decision, the fault planner with its shared plan file as a step relation over processes,
  and when the wait for a plan returns.  The waiting loop is a partial function whose result
  \<open>None\<close> means that it does not return.

  Router (slime/slime/router/router.py and middleware_hub).  Router_Registry: registration, removal,
  least-loaded selection, request counts, the wait for a replacement, the retrying proxy.
  Registry_Properties: the counts under every interleaving.  Router_Generate: the generate proxy that
  aggregates chunks, takes token checkpoints and resumes on another worker.  Generate_Properties:
  failures are invisible in the answer, and every reservation is given back.  Radix_Trie: the string
  trie of radix_tree.py with its insertion, look-up, removal and garbage collection; Radix_Walk,
  Radix_Removal and Radix_State: its walks and its invariant; Radix_Middleware: the middleware and
  the sample post-processing; Radix_Properties: the interface \<open>prefix_index\<close>, interpreted on the
  trie, and the round trips through the middleware.

  Scheduler (swe-rl/online_env_docker_scheduler.py).  Scheduler_State: configuration, resource
  vectors, profiles and predictions, the budget.  Scheduler_Keys: the names profiles are kept under.
  Scheduler_Admission: the queue, best-fit and head-of-line admission (\<open>admit_head\<close> is a partial
  function, because its loop can run for ever), the admission round and the planned order.
  Scheduler_Usage: leases, samples, summaries, learned profiles.  Scheduler_Invariant: the regions
  between two awaits as the step relation \<open>sched_step\<close> and its invariant.  Scheduler_Properties and
  Scheduler_Learning: accounting, budget, progress, termination, plans, profiles, leases, keys.
  The last section of this theory joins scheduler and pool: the budget is what the pool's nodes
  reported.

  Exec server (swe-rl/server/swe_exec_server.py).  Exec_Gates: the gate of a container (commands before
  exclusive operations) and the foreground, commit and maintenance sections, as a step relation over
  all threads: exclusion, limits, no deadlock.  Exec_Checkpoints: \<open>CheckpointManager\<close> with its record
  files, restarts and creation slots.  Exec_Collection: the plan of a garbage collection.
  Exec_Warm_Pool and Exec_Warm_Threads: \<open>ContainerPool\<close>, one request after the other and with its
  threads interleaved.  Exec_Docker: the docker command lines, the runtime state stored in a
  checkpoint, fault specifications.  Exec_Containers: the table of active containers with the create,
  exec, diff, destroy and fault routes.  Exec_Snapshots: the commit worker and the full-checkpoint
  worker, written with the combinators \<open>andthen\<close> and \<open>on_except\<close> on actions that return a value or
  an exception, the world outside and the server.  Exec_Restore: the checkpoint routes and rerun.
  Exec_Snapshot_Properties: triples for these actions, how a creation settles, a rerun all or nothing;
  Exec_Roundtrip: what a restored container has; Exec_Route_Properties: faults and collections.
  Docker and the full-checkpoint library are transports over a world of their own; a handler runs
  from request to reply, and what runs beside it is the subject of Exec_Gates and
  Exec_Warm_Threads (one interleaving of a rerun with a deletion is a lemma of its own).

  Training and rollout (slime/slime).  Data_Source: samples, the data set and the data source
  (utils/types.py, utils/data.py, rollout/data_source.py), shown to be one endless walk through the
  data.  Rollout_Driver: the loop of rollout/sglang_rollout.py as the step relation \<open>rollout_round\<close>, on
  the interface \<open>group_source\<close>, which the data source provides: no sample is lost or doubled, and a
  rollout with rolling refill goes on.  Rollout_Rewards: rewards, their normalization and the training
  data (ray/rollout.py).  Balance_Partitions: utils/seqlen_balancing.py.  Training_Batches: the split
  over the ranks and the micro-batches (ray/rollout.py, utils/data.py,
  backends/megatron_utils/data.py).  Advantages: losses, returns and advantage estimation
  (utils/ppo_utils.py), where the batched, chunked form is shown equal to the plain loop.

  Conventions.  Floats are reals, so rounding, infinities and NaN are not modelled (the idle test of
  the scheduler compares an exactly accounted sum with zero; with floats a residue can remain).
  Integers are unbounded as in Python.  The clock, random numbers and shuffles are arguments.
  Fields of requests carry the type the handlers convert them to.  Loops over a given list are
  structural; the attempts of the two proxies are counted by the code itself, so no fuel is needed;
  loops that wait are partial functions.

  Not modelled: logging and verbose timing; argument parsing and process start-up; reading and
  writing files as bytes (plan, profile and statistics files are values already parsed); of the exec
  server the resource statistics read from docker, cgroup and /proc, the evaluation route and the
  reading of its configuration; the chat-completion branches of the router, which forward requests unchanged; the rollout
  agents; of the training framework the actors, engines and training loops, glue around Ray and
  PyTorch; sglang, Megatron-LM and checkpoint-engine, which are vendored.
\<close>

section \<open>Pool and scheduler\<close>

text \<open>The scheduler's budget comes from the status report of the environment pool.\<close>

definition report_of_status :: "status_report \<Rightarrow> pool_report" where
  \<comment> \<open>the \<open>cluster_*\<close> entries of the status dictionary\<close>
  "report_of_status r =
     (let c = sr_cluster r
      in \<lparr>pr_memory_available = Val (of_int (mt_memory_available c)), pr_memory_total = Val (of_int (mt_memory_total c)),
          pr_cpu_available = Val (mt_cpu_available c), pr_cpu_total = Val (mt_cpu_total c),
          pr_disk_read_available = Val (mt_disk_read_available c), pr_disk_read_total = Val (mt_disk_read_total c),
          pr_disk_write_available = Val (mt_disk_write_available c), pr_disk_write_total = Val (mt_disk_write_total c)\<rparr>)"

definition scaled_budget :: "real \<Rightarrow> real \<Rightarrow> real \<Rightarrow> real \<Rightarrow> real" where
  "scaled_budget least margin oversell available = max least available * max (1 / 100) margin * max 1 oversell"

text \<open>C20. The scheduler and the environment pool together: after a refresh the budget of each resource is the
  sum of what the pool's nodes reported as available, times the safety margin and the configured oversell, with
  a floor of one unit; nodes the pool holds unhealthy add nothing, and the refresh opens a new admission window
  without touching the queue or the active prompts.\<close>

theorem budget_follows_pool:
  assumes "pool_status get w p = (rep, w')"
    and "sc_realtime_memory (sd_config s)" "sc_realtime_cpu (sd_config s)" "sc_realtime_disk (sd_config s)"
  shows "let t = server_refresh_round now True (Inr (report_of_status rep)) s; cfg = sd_config s; b = effective_budget t;
      total = (\<lambda>f. \<Sum>(n, m)\<leftarrow>sr_nodes rep. max 0 (f m))
    in map fst (sr_nodes rep) = pl_nodes p \<and> (\<forall>(n, m)\<in>set (sr_nodes rep). \<not> nd_healthy n \<longrightarrow> m = zero_metrics) \<and>
       rv_memory b = scaled_budget 1 (sc_safety_margin cfg) (sc_memory_oversell cfg) (total (\<lambda>m. of_int (mt_memory_available m))) \<and>
       rv_cpu b = scaled_budget (1 / 10) (sc_safety_margin cfg) (sc_cpu_oversell cfg) (total mt_cpu_available) \<and>
       rv_disk_read b = scaled_budget 1 (sc_safety_margin cfg) (sc_disk_read_oversell cfg) (total mt_disk_read_available) \<and>
       rv_disk_write b = scaled_budget 1 (sc_safety_margin cfg) (sc_disk_write_oversell cfg) (total mt_disk_write_available) \<and>
       sd_admitted_since_refresh t = 0 \<and> sd_pending t = sd_pending s \<and> sd_active t = sd_active s"
proof -
  obtain ms where ms: "sr_nodes rep = zip (pl_nodes p) ms" "length ms = length (pl_nodes p)"
    "sr_cluster rep = foldl add_metrics zero_metrics ms"
    "list_all2 (\<lambda>n m. \<not> nd_healthy n \<longrightarrow> m = zero_metrics) (pl_nodes p) ms" by (rule pool_status_sums [OF assms(1)])
  have sums: "(\<Sum>(n, m)\<leftarrow>sr_nodes rep. f m) = (\<Sum>m\<leftarrow>ms. f m)" for f :: "metrics \<Rightarrow> real"
    using sum_zip_snd [OF ms(2)] unfolding ms(1) by blast
  have mem: "real_of_int (\<Sum>m\<leftarrow>ms. max 0 (mt_memory_available m)) = (\<Sum>m\<leftarrow>ms. max 0 (real_of_int (mt_memory_available m)))"
    by (induction ms) auto
  have nn: "0 \<le> (\<Sum>m\<leftarrow>ms. max 0 (f m))" for f :: "metrics \<Rightarrow> real" by (rule sum_list_nonneg) auto
  show ?thesis
    using ms(2,4) assms(2-) unfolding sums Let_def
    by (auto simp: server_refresh_round_def refresh_server_budget_def reset_admission_window_def report_of_status_def take_figure_def
        effective_budget_def base_budget_def scaled_budget_def ms(1,3) foldl_metrics zero_metrics_def list_all2_iff mem nn max_absorb2 Let_def)
qed

theorem budget_follows_pool_witness:
  "map fst (sr_nodes (fst (pool_status demo_host 0 demo_pool))) = pl_nodes demo_pool \<and>
   rv_memory (effective_budget (server_refresh_round 7 True (Inr (report_of_status (fst (pool_status demo_host 0 demo_pool))))
     (new_scheduler default_config 0 None None))) = 32 * (9 / 10)"
proof -
  let ?rep = "fst (pool_status demo_host 0 demo_pool)"
  have cfg: "sd_config (new_scheduler default_config 0 None None) = default_config"
    by (simp add: new_scheduler_def refresh_resource_profiles_def default_config_def Let_def)
  have nodes: "map (\<lambda>nm. mt_memory_available (snd nm)) (sr_nodes ?rep) = [32]" by code_simp
  then obtain n m where one: "sr_nodes ?rep = [(n, m)]" "mt_memory_available m = 32" by (auto simp: map_eq_Cons_conv)
  have p: "pool_status demo_host 0 demo_pool = (?rep, snd (pool_status demo_host 0 demo_pool))" by simp
  note b = budget_follows_pool [OF p, of "new_scheduler default_config 0 None None" 7, unfolded cfg Let_def]
  from b show ?thesis using one
    by (simp add: default_config_def scaled_budget_def)
qed

end
